(* ===== verification/Rust_Prelude.thy ===== *)
theory Rust_Prelude
  imports "HOL-Library.Word" "HOL-Library.AList" "HOL-Library.Char_ord" "HOL-Library.List_Lexorder"
begin

text \<open>
  Shared vocabulary of the development: Rust's fixed-width integers, instants and durations of
  \<^verbatim>\<open>std::time\<close>, big-endian decoding, results, and the
  \<^verbatim>\<open>HashMap\<close> interface of the standard library.

  A \<^verbatim>\<open>HashMap\<close> is an association list with distinct keys. The order of the list stands for the
  (unspecified) iteration order of the table, so a lemma that holds for every list holds for
  every iteration order. The locale \<open>hash_map\<close> states the laws the clients rely on and is
  interpreted below on the association-list operations.
\<close>

section \<open>Integers, instants, bytes\<close>

type_synonym u8 = "8 word"
type_synonym u16 = "16 word"
type_synonym u32 = "32 word"
type_synonym u64 = "64 word"
type_synonym bytes = "u8 list"

text \<open>
  Instants and durations are counted in nanoseconds, the resolution of
  \<^verbatim>\<open>Duration\<close>; \<open>secs\<close> is \<^verbatim>\<open>Duration::from_secs\<close>.
\<close>

type_synonym instant = nat
type_synonym duration = nat

definition secs :: "nat \<Rightarrow> duration" where
  "secs n = n * 1000000000"

lemma secs_pos [simp]: "0 < n \<Longrightarrow> 0 < secs n"
  by (simp add: secs_def)

text \<open>\<^verbatim>\<open>u16::from_be_bytes\<close> and its inverse \<^verbatim>\<open>to_be_bytes\<close>.\<close>

definition be16 :: "u8 \<Rightarrow> u8 \<Rightarrow> u16" where
  "be16 hi lo = word_of_nat (unat hi * 256 + unat lo)"

definition to_be16 :: "u16 \<Rightarrow> bytes" where
  "to_be16 w = [word_of_nat (unat w div 256), word_of_nat (unat w mod 256)]"

lemma unat_u8_lt [simp]: "unat (b :: u8) < 256"
  using unsigned_less [of b] by simp

lemma unat_u16_lt [simp]: "unat (w :: u16) < 65536"
  using unsigned_less [of w] by simp

lemma unat_of_nat_u8: "n < 256 \<Longrightarrow> unat (word_of_nat n :: u8) = n"
  by (simp add: unsigned_of_nat take_bit_nat_eq_self)

lemma unat_of_nat_u16: "n < 65536 \<Longrightarrow> unat (word_of_nat n :: u16) = n"
  by (simp add: unsigned_of_nat take_bit_nat_eq_self)

lemma unat_be16: "unat (be16 hi lo) = unat hi * 256 + unat lo"
proof -
  have "unat hi * 256 + unat lo < 65536"
    using unat_u8_lt [of hi] unat_u8_lt [of lo] by linarith
  then show ?thesis unfolding be16_def by (rule unat_of_nat_u16)
qed

lemma be16_to_be16 [simp]:
  "be16 (word_of_nat (unat w div 256)) (word_of_nat (unat w mod 256)) = w"
proof -
  have "unat w div 256 < 256"
    using unat_u16_lt [of w] by (simp add: less_mult_imp_div_less)
  then have "unat (be16 (word_of_nat (unat w div 256)) (word_of_nat (unat w mod 256))) = unat w"
    by (simp only: unat_be16 unat_of_nat_u8 mod_less_divisor [of 256] zero_less_numeral) simp
  then show ?thesis by (simp only: word_unat_eq_iff)
qed

lemma length_to_be16 [simp]: "length (to_be16 w) = 2"
  by (simp add: to_be16_def)

text \<open>\<open>n\<close>-byte big-endian numbers, for the wider integers.\<close>

fun be_bytes :: "nat \<Rightarrow> nat \<Rightarrow> bytes" where
  "be_bytes 0 v = []"
| "be_bytes (Suc n) v = be_bytes n (v div 256) @ [word_of_nat (v mod 256)]"

definition be_val :: "bytes \<Rightarrow> nat" where
  "be_val bs = foldl (\<lambda>n b. n * 256 + unat b) 0 bs"

lemma length_be_bytes [simp]: "length (be_bytes n v) = n"
  by (induction n arbitrary: v) auto

lemma be_val_snoc: "be_val (bs @ [b]) = be_val bs * 256 + unat b"
  by (simp add: be_val_def)

lemma be_val_be_bytes: "v < 256 ^ n \<Longrightarrow> be_val (be_bytes n v) = v"
proof (induction n arbitrary: v)
  case (Suc n)
  then have "v div 256 < 256 ^ n" by (simp add: less_mult_imp_div_less mult.commute)
  then have "be_val (be_bytes n (v div 256)) = v div 256" by (rule Suc.IH)
  then show ?case
    by (simp only: be_bytes.simps be_val_snoc unat_of_nat_u8 mod_less_divisor zero_less_numeral
        div_mult_mod_eq)
qed (simp add: be_val_def)

definition to_be64 :: "u64 \<Rightarrow> bytes" where
  "to_be64 w = be_bytes 8 (unat w)"

definition from_be64 :: "bytes \<Rightarrow> u64" where
  "from_be64 bs = word_of_nat (be_val bs)"

lemma from_to_be64 [simp]: "from_be64 (to_be64 w) = w"
proof -
  have "unat w < 256 ^ 8" using unsigned_less [of w] by simp
  then show ?thesis by (simp add: from_be64_def to_be64_def be_val_be_bytes)
qed

lemma length_to_be64 [simp]: "length (to_be64 w) = 8"
  by (simp add: to_be64_def)

section \<open>HashMap\<close>

type_synonym ('k, 'v) hashmap = "('k \<times> 'v) list"

definition hm_get :: "('k, 'v) hashmap \<Rightarrow> 'k \<Rightarrow> 'v option" where
  "hm_get m k = map_of m k"

definition hm_contains :: "('k, 'v) hashmap \<Rightarrow> 'k \<Rightarrow> bool" where
  "hm_contains m k \<longleftrightarrow> hm_get m k \<noteq> None"

definition hm_insert :: "'k \<Rightarrow> 'v \<Rightarrow> ('k, 'v) hashmap \<Rightarrow> ('k, 'v) hashmap" where
  "hm_insert k v m = AList.update k v m"

definition hm_remove :: "'k \<Rightarrow> ('k, 'v) hashmap \<Rightarrow> ('k, 'v) hashmap" where
  "hm_remove k m = AList.delete k m"

definition hm_retain :: "('k \<Rightarrow> 'v \<Rightarrow> bool) \<Rightarrow> ('k, 'v) hashmap \<Rightarrow> ('k, 'v) hashmap" where
  "hm_retain P m = filter (\<lambda>(k, v). P k v) m"

definition hm_len :: "('k, 'v) hashmap \<Rightarrow> nat" where
  "hm_len m = length m"

definition hm_ok :: "('k, 'v) hashmap \<Rightarrow> bool" where
  "hm_ok m \<longleftrightarrow> distinct (map fst m)"

text \<open>
  The laws of the table, as its clients use them. \<open>ok\<close> is the representation invariant.
\<close>

locale hash_map =
  fixes empty :: "'m"
    and get :: "'m \<Rightarrow> 'k \<Rightarrow> 'v option"
    and insert :: "'k \<Rightarrow> 'v \<Rightarrow> 'm \<Rightarrow> 'm"
    and remove :: "'k \<Rightarrow> 'm \<Rightarrow> 'm"
    and retain :: "('k \<Rightarrow> 'v \<Rightarrow> bool) \<Rightarrow> 'm \<Rightarrow> 'm"
    and len :: "'m \<Rightarrow> nat"
    and ok :: "'m \<Rightarrow> bool"
  assumes get_empty: "get empty k = None"
    and get_insert: "get (insert k v m) k' = (if k' = k then Some v else get m k')"
    and get_remove: "get (remove k m) k' = (if k' = k then None else get m k')"
    and get_retain: "ok m \<Longrightarrow> get (retain P m) k =
           (case get m k of None \<Rightarrow> None | Some v \<Rightarrow> if P k v then Some v else None)"
    and len_empty: "len empty = 0"
    and len_insert: "len (insert k v m) = (if get m k = None then Suc (len m) else len m)"
    and len_retain: "len (retain P m) \<le> len m"
    and ok_empty: "ok empty"
    and ok_insert: "ok m \<Longrightarrow> ok (insert k v m)"
    and ok_remove: "ok m \<Longrightarrow> ok (remove k m)"
    and ok_retain: "ok m \<Longrightarrow> ok (retain P m)"
begin

lemmas map_laws = get_empty get_insert get_remove get_retain ok_empty ok_insert ok_remove ok_retain

lemma get_retain_SomeD:
  assumes "ok m" and "get (retain P m) k = Some v"
  shows "get m k = Some v" and "P k v"
  using assms by (auto simp: get_retain split: option.splits if_splits)

text \<open>Inserting behind the guard \<open>len < cap\<close> or at an existing key keeps the table in its cap.\<close>

lemma len_insert_capped:
  assumes "len m \<le> cap" and "len m < cap \<or> get m k \<noteq> None"
  shows "len (insert k v m) \<le> cap"
  using assms by (auto simp: len_insert)

lemma insert_same_twice: "get (insert k v (insert k v' m)) k' = get (insert k v m) k'"
  by (simp add: get_insert)

lemma get_insert_commute:
  assumes "k1 \<noteq> k2"
  shows "get (insert k1 v1 (insert k2 v2 m)) k = get (insert k2 v2 (insert k1 v1 m)) k"
  using assms by (simp add: get_insert)

end

lemma length_alist_update:
  "length (AList.update k v m) = (if map_of m k = None then Suc (length m) else length m)"
  by (induction m) auto

lemma map_of_filter_distinct:
  assumes "distinct (map fst m)"
  shows "map_of (filter (\<lambda>(k, v). P k v) m) k =
    (case map_of m k of None \<Rightarrow> None | Some v \<Rightarrow> if P k v then Some v else None)"
  using assms
proof (induction m)
  case (Cons a m)
  have "map_of (filter (\<lambda>(k, v). P k v) m) (fst a) = None"
    using Cons.prems by (auto simp: map_of_eq_None_iff)
  with Cons show ?case by (cases a) (auto split: option.splits)
qed simp

interpretation hm: hash_map "[]" hm_get hm_insert hm_remove hm_retain hm_len hm_ok
proof unfold_locales
  fix m :: "('k, 'v) hashmap" and k k' :: 'k and v :: 'v and P
  show "hm_get [] k = None" by (simp add: hm_get_def)
  show "hm_get (hm_insert k v m) k' = (if k' = k then Some v else hm_get m k')"
    by (simp add: hm_get_def hm_insert_def update_conv)
  show "hm_get (hm_remove k m) k' = (if k' = k then None else hm_get m k')"
    by (simp add: hm_get_def hm_remove_def delete_conv)
  show "hm_len (hm_insert k v m) = (if hm_get m k = None then Suc (hm_len m) else hm_len m)"
    by (simp add: hm_len_def hm_insert_def hm_get_def length_alist_update)
  show "hm_len (hm_retain P m) \<le> hm_len m" by (simp add: hm_len_def hm_retain_def)
  show "hm_ok []" by (simp add: hm_ok_def)
  show "hm_len [] = 0" by (simp add: hm_len_def)
  assume ok: "hm_ok m"
  then show "hm_get (hm_retain P m) k =
      (case hm_get m k of None \<Rightarrow> None | Some v \<Rightarrow> if P k v then Some v else None)"
    by (simp add: hm_get_def hm_retain_def hm_ok_def map_of_filter_distinct)
  from ok show "hm_ok (hm_insert k v m)"
    by (simp add: hm_ok_def hm_insert_def distinct_update)
  from ok show "hm_ok (hm_remove k m)"
    by (simp add: hm_ok_def hm_remove_def distinct_delete)
  from ok show "hm_ok (hm_retain P m)"
    by (simp add: hm_ok_def hm_retain_def distinct_map_filter)
qed

lemma hm_contains_insert [simp]: "hm_contains (hm_insert k v m) k' \<longleftrightarrow> k' = k \<or> hm_contains m k'"
  by (simp add: hm_contains_def hm.get_insert)

text \<open>\<^verbatim>\<open>values()\<close>, \<^verbatim>\<open>keys()\<close>, and \<^verbatim>\<open>collect()\<close> of pairs, where the
  last value of a key stays.\<close>

definition hm_values :: "('k, 'v) hashmap \<Rightarrow> 'v list" where
  "hm_values m = map snd m"

definition hm_keys :: "('k, 'v) hashmap \<Rightarrow> 'k list" where
  "hm_keys m = map fst m"

definition hm_collect :: "('k \<times> 'v) list \<Rightarrow> ('k, 'v) hashmap" where
  "hm_collect kvs = foldl (\<lambda>m (k, v). hm_insert k v m) [] kvs"

lemma hm_collect_Nil [simp]: "hm_collect [] = []"
  by (simp add: hm_collect_def)

lemma hm_collect_get: "hm_get (hm_collect kvs) k = map_of (rev kvs) k"
  by (induction kvs rule: rev_induct) (auto simp: hm_collect_def hm.get_insert hm.get_empty)

lemma hm_collect_ok: "hm_ok (hm_collect kvs)"
  by (induction kvs rule: rev_induct) (auto simp: hm_collect_def hm.ok_insert hm.ok_empty split: prod.splits)

lemma hm_keys_get: "k \<in> set (hm_keys m) \<longleftrightarrow> hm_get m k \<noteq> None"
  by (simp add: hm_keys_def hm_get_def map_of_eq_None_iff)

lemma hm_get_mem: "hm_get m k = Some v \<Longrightarrow> (k, v) \<in> set m"
  by (simp add: hm_get_def map_of_SomeD)

lemma hm_mem_get: "hm_ok m \<Longrightarrow> (k, v) \<in> set m \<Longrightarrow> hm_get m k = Some v"
  by (simp add: hm_get_def hm_ok_def)

lemma hm_set_update: "x \<in> set (hm_insert k v m) \<Longrightarrow> x = (k, v) \<or> x \<in> set m"
  unfolding hm_insert_def by (induction m) (auto split: if_splits)

section \<open>Lists and results\<close>

lemma find_Some_set: "find P xs = Some x \<Longrightarrow> x \<in> set xs \<and> P x"
  by (auto simp: find_Some_iff)

lemma find_None_set: "find P xs = None \<longleftrightarrow> (\<forall>x \<in> set xs. \<not> P x)"
  by (auto simp: find_None_iff)

lemma set_map_filter: "set (List.map_filter f xs) = {y. \<exists>x \<in> set xs. f x = Some y}"
  by (auto simp: List.map_filter_def image_iff intro: rev_bexI) force

lemma find_distinct_key: "distinct (map f xs) \<Longrightarrow> e \<in> set xs \<Longrightarrow> find (\<lambda>x. f x = f e) xs = Some e"
  by (induction xs) (auto simp: image_iff)

text \<open>\<^verbatim>\<open>iter().map(f).collect::<Result<Vec<_>, _>>()\<close>: the first error wins.\<close>

fun collect_result :: "('a \<Rightarrow> 'e + 'b) \<Rightarrow> 'a list \<Rightarrow> 'e + 'b list" where
  "collect_result f [] = Inr []"
| "collect_result f (x # xs) =
     (case f x of Inl e \<Rightarrow> Inl e
      | Inr y \<Rightarrow> (case collect_result f xs of Inl e \<Rightarrow> Inl e | Inr ys \<Rightarrow> Inr (y # ys)))"

lemma collect_result_Inr:
  "collect_result f xs = Inr ys \<longleftrightarrow> list_all2 (\<lambda>x y. f x = Inr y) xs ys"
proof (induction xs arbitrary: ys)
  case Nil
  then show ?case by auto
next
  case (Cons x xs)
  show ?case
  proof (cases "f x")
    case (Inr y)
    then show ?thesis using Cons.IH
      by (cases ys; cases "collect_result f xs") auto
  qed (auto simp: list_all2_Cons1)
qed

text \<open>
  Checks that stop at the first error: a sequence of checks, and one check per element of a loop.
\<close>

definition err_then :: "'e option \<Rightarrow> 'e option \<Rightarrow> 'e option" where
  "err_then a b = (case a of Some e \<Rightarrow> Some e | None \<Rightarrow> b)"

definition err_when :: "bool \<Rightarrow> 'e \<Rightarrow> 'e option" where
  "err_when b e = (if b then Some e else None)"

fun first_error :: "('a \<Rightarrow> 'e option) \<Rightarrow> 'a list \<Rightarrow> 'e option" where
  "first_error f [] = None"
| "first_error f (x # xs) = (case f x of Some e \<Rightarrow> Some e | None \<Rightarrow> first_error f xs)"

lemma err_then_None [simp]: "err_then a b = None \<longleftrightarrow> a = None \<and> b = None"
  by (simp add: err_then_def split: option.splits)

lemma err_when_None [simp]: "err_when b e = None \<longleftrightarrow> \<not> b"
  by (simp add: err_when_def)

lemma first_error_None [simp]: "first_error f xs = None \<longleftrightarrow> (\<forall>x \<in> set xs. f x = None)"
  by (induction xs) (auto split: option.splits)

text \<open>\<^verbatim>\<open>Result::and_then\<close>, which is also the operator \<^verbatim>\<open>?\<close>; and
  \<^verbatim>\<open>bail!\<close> behind a condition.\<close>

definition and_then :: "'e + 'a \<Rightarrow> ('a \<Rightarrow> 'e + 'b) \<Rightarrow> 'e + 'b" where
  "and_then r f = (case r of Inl e \<Rightarrow> Inl e | Inr x \<Rightarrow> f x)"

definition bail_if :: "bool \<Rightarrow> 'e \<Rightarrow> 'e + 'a \<Rightarrow> 'e + 'a" where
  "bail_if b e r = (if b then Inl e else r)"

lemma and_then_simps [simp]: "and_then (Inl e) f = Inl e" "and_then (Inr x) f = f x"
  by (simp_all add: and_then_def)

lemma and_then_Inr [simp]: "and_then r f = Inr y \<longleftrightarrow> (\<exists>x. r = Inr x \<and> f x = Inr y)"
  by (cases r) auto

lemma bail_if_Inr [simp]: "bail_if b e r = Inr y \<longleftrightarrow> \<not> b \<and> r = Inr y"
  by (simp add: bail_if_def)

end
