(* ===== verification/Rust_Str.thy ===== *)
theory Rust_Str
  imports Rust_Prelude
begin

text \<open>
  Rust's \<^verbatim>\<open>str\<close> as the code uses it. A string is the \<open>char list\<close> of its UTF-8
  bytes (a HOL \<open>char\<close> is a byte), so \<^verbatim>\<open>len()\<close> is \<open>length\<close>;
  \<open>chars\<close> groups the bytes into Unicode scalar values (a lead byte and its continuation
  bytes), so \<^verbatim>\<open>chars().count()\<close> is \<open>length (chars s)\<close>. The module holds
  splitting, trimming, ASCII case, decimal printing and the unsigned integer parser of the
  standard library, with the round trip of the last two.
\<close>

section \<open>Character classes\<close>

abbreviation code :: "char \<Rightarrow> nat" where
  "code c \<equiv> of_char c"

definition is_digit :: "char \<Rightarrow> bool" where
  "is_digit c \<longleftrightarrow> 48 \<le> code c \<and> code c \<le> 57"

definition is_lower :: "char \<Rightarrow> bool" where
  "is_lower c \<longleftrightarrow> 97 \<le> code c \<and> code c \<le> 122"

definition is_upper :: "char \<Rightarrow> bool" where
  "is_upper c \<longleftrightarrow> 65 \<le> code c \<and> code c \<le> 90"

definition is_hexdigit :: "char \<Rightarrow> bool" where
  "is_hexdigit c \<longleftrightarrow> is_digit c \<or> (97 \<le> code c \<and> code c \<le> 102) \<or> (65 \<le> code c \<and> code c \<le> 70)"

text \<open>\<^verbatim>\<open>char::to_ascii_lowercase\<close>.\<close>

definition ascii_lower :: "char \<Rightarrow> char" where
  "ascii_lower c = (if is_upper c then char_of (code c + 32) else c)"

definition ascii_upper :: "char \<Rightarrow> char" where
  "ascii_upper c = (if is_lower c then char_of (code c - 32) else c)"

lemma code_char_of [simp]: "code (char_of n) = n mod 256"
  by simp

lemma code_lt_256: "code c < 256"
  by (metis char_of_char code_char_of mod_less_divisor zero_less_numeral)

lemma code_inject: "code c = code d \<longleftrightarrow> c = d"
  by simp

lemma ascii_lower_lower [simp]: "is_lower c \<Longrightarrow> ascii_lower c = c"
  by (auto simp: ascii_lower_def is_lower_def is_upper_def)

lemma ascii_lower_idem [simp]: "ascii_lower (ascii_lower c) = ascii_lower c"
  by (auto simp: ascii_lower_def is_upper_def)

lemma is_lower_ascii_lower [simp]: "is_upper c \<Longrightarrow> is_lower (ascii_lower c)"
  by (auto simp: ascii_lower_def is_upper_def is_lower_def)

section \<open>UTF-8 characters\<close>

text \<open>Continuation bytes are \<open>10xxxxxx\<close>.\<close>

definition is_cont :: "char \<Rightarrow> bool" where
  "is_cont c \<longleftrightarrow> 128 \<le> code c \<and> code c < 192"

function chars :: "string \<Rightarrow> string list" where
  "chars [] = []"
| "chars (c # s) = (c # takeWhile is_cont s) # chars (dropWhile is_cont s)"
  by pat_completeness auto
termination
  by (relation "measure length") (auto simp: le_imp_less_Suc length_dropWhile_le)

text \<open>The White_Space property of Unicode, as UTF-8.\<close>

definition is_whitespace :: "string \<Rightarrow> bool" where
  "is_whitespace ch \<longleftrightarrow> map code ch \<in> set
     ([[9], [10], [11], [12], [13], [32], [194, 133], [194, 160], [225, 154, 128],
      [226, 128, 168], [226, 128, 169], [226, 128, 175], [226, 129, 159], [227, 128, 128]]
      @ map (\<lambda>n. [226, 128, n]) [128, 129, 130, 131, 132, 133, 134, 135, 136, 137, 138 :: nat])"

text \<open>\<^verbatim>\<open>char::is_control\<close>: U+0000..U+001F and U+007F..U+009F.\<close>

definition is_control :: "string \<Rightarrow> bool" where
  "is_control ch \<longleftrightarrow>
     (case map code ch of
        [a] \<Rightarrow> a < 32 \<or> a = 127
      | [a, b] \<Rightarrow> a = 194 \<and> b < 160
      | _ \<Rightarrow> False)"

text \<open>\<^verbatim>\<open>str::trim\<close>.\<close>

definition trim_start_chars :: "(string \<Rightarrow> bool) \<Rightarrow> string list \<Rightarrow> string list" where
  "trim_start_chars P cs = dropWhile P cs"

definition trim_end_chars :: "(string \<Rightarrow> bool) \<Rightarrow> string list \<Rightarrow> string list" where
  "trim_end_chars P cs = rev (dropWhile P (rev cs))"

definition trim :: "string \<Rightarrow> string" where
  "trim s = concat (trim_end_chars is_whitespace (trim_start_chars is_whitespace (chars s)))"

text \<open>ASCII strings are sequences of one-byte characters.\<close>

lemma concat_chars [simp]: "concat (chars s) = s"
  by (induction s rule: chars.induct) auto

definition ascii :: "string \<Rightarrow> bool" where
  "ascii s \<longleftrightarrow> (\<forall>c \<in> set s. code c < 128)"

lemma chars_ascii: "ascii s \<Longrightarrow> chars s = map (\<lambda>c. [c]) s"
proof (induction s rule: chars.induct)
  case (2 c s)
  have "takeWhile is_cont s = []" "dropWhile is_cont s = s"
    using "2.prems" by (cases s; auto simp: ascii_def is_cont_def)+
  with 2 show ?case by (simp add: ascii_def)
qed simp

lemma chars_nonempty: "ch \<in> set (chars s) \<Longrightarrow> ch \<noteq> []"
  by (induction s rule: chars.induct) auto

lemma concat_singletons [simp]: "concat (map (\<lambda>c. [c]) s) = s"
  by (induction s) auto

text \<open>Trimming leaves a string alone whose first and last characters are visible ASCII.\<close>

lemma is_whitespace_visible: "33 \<le> code c \<Longrightarrow> \<not> is_whitespace [c]"
  by (auto simp: is_whitespace_def)

lemma trim_visible:
  assumes "ascii s" and "\<forall>c \<in> set s. 33 \<le> code c"
  shows "trim s = s"
proof -
  have "dropWhile is_whitespace (map (\<lambda>c. [c]) t) = map (\<lambda>c. [c]) t"
    if "set t \<subseteq> set s" for t
    using that assms(2) by (cases t) (auto simp: is_whitespace_visible)
  then have "dropWhile is_whitespace (map (\<lambda>c. [c]) s) = map (\<lambda>c. [c]) s"
    and "dropWhile is_whitespace (map (\<lambda>c. [c]) (rev s)) = map (\<lambda>c. [c]) (rev s)"
    by auto
  then show ?thesis
    by (simp add: trim_def chars_ascii [OF assms(1)] trim_start_chars_def trim_end_chars_def
        rev_map [symmetric])
qed

section \<open>Splitting\<close>

text \<open>\<^verbatim>\<open>str::split(char)\<close>: one piece more than there are separators.\<close>

fun split_on :: "char \<Rightarrow> string \<Rightarrow> string list" where
  "split_on sep [] = [[]]"
| "split_on sep (c # s) =
     (if c = sep then [] # split_on sep s
      else (case split_on sep s of p # ps \<Rightarrow> (c # p) # ps | [] \<Rightarrow> [[c]]))"

text \<open>\<^verbatim>\<open>str::split_once(char)\<close>.\<close>

fun split_once :: "char \<Rightarrow> string \<Rightarrow> (string \<times> string) option" where
  "split_once sep [] = None"
| "split_once sep (c # s) =
     (if c = sep then Some ([], s)
      else map_option (\<lambda>(a, b). (c # a, b)) (split_once sep s))"

text \<open>\<^verbatim>\<open>[&str]::join\<close>.\<close>

fun join :: "string \<Rightarrow> string list \<Rightarrow> string" where
  "join sep [] = []"
| "join sep [p] = p"
| "join sep (p # q # ps) = p @ sep @ join sep (q # ps)"

lemma split_on_nonempty [simp]: "split_on sep s \<noteq> []"
  by (induction s) (auto split: list.splits)

lemma split_on_no_sep: "p \<in> set (split_on sep s) \<Longrightarrow> sep \<notin> set p"
proof (induction s arbitrary: p)
  case (Cons c s)
  then show ?case by (auto split: if_splits list.splits)
qed simp

lemma split_on_absent: "sep \<notin> set s \<Longrightarrow> split_on sep s = [s]"
  by (induction s) auto

lemma split_on_append_sep:
  "sep \<notin> set p \<Longrightarrow> split_on sep (p @ sep # s) = p # split_on sep s"
  by (induction p) auto

lemma split_on_join:
  assumes "ps \<noteq> []" and "\<forall>p \<in> set ps. sep \<notin> set p"
  shows "split_on sep (join [sep] ps) = ps"
  using assms
proof (induction "[sep]" ps rule: join.induct)
  case (3 p q ps)
  then show ?case by (simp add: split_on_append_sep)
qed (auto simp: split_on_absent)

lemma join_Cons_head: "join sep ((c # p) # ps) = c # join sep (p # ps)"
  by (cases ps) auto

lemma join_Nil_head: "ps \<noteq> [] \<Longrightarrow> join sep ([] # ps) = sep @ join sep ps"
  by (cases ps) auto

lemma join_split_on: "join [sep] (split_on sep s) = s"
proof (induction s)
  case (Cons c s)
  then show ?case
    by (auto simp: join_Cons_head join_Nil_head split: list.splits)
qed simp

lemma join_eq_Nil: "join sep ps = [] \<Longrightarrow> p \<in> set ps \<Longrightarrow> p = []"
  by (induction sep ps arbitrary: p rule: join.induct) auto

lemma split_once_Some: "split_once sep s = Some (a, b) \<longleftrightarrow> s = a @ sep # b \<and> sep \<notin> set a"
proof (induction s arbitrary: a b)
  case (Cons c s)
  then show ?case by (cases a) auto
qed simp

lemma split_once_None: "split_once sep s = None \<longleftrightarrow> sep \<notin> set s"
  by (induction s) auto

section \<open>Numbers\<close>

text \<open>\<^verbatim>\<open>format!("{n}")\<close> of an unsigned integer.\<close>

fun show_nat :: "nat \<Rightarrow> string" where
  "show_nat n = (if n < 10 then [char_of (48 + n)] else show_nat (n div 10) @ [char_of (48 + n mod 10)])"

declare show_nat.simps [simp del]

definition digits_val :: "string \<Rightarrow> nat" where
  "digits_val s = foldl (\<lambda>n c. n * 10 + (code c - 48)) 0 s"

text \<open>
  \<^verbatim>\<open>str::parse::<uN>()\<close> for the largest value \<open>bound\<close>: an optional \<open>+\<close>, then at least one
  digit, and no overflow.
\<close>

definition parse_unsigned :: "nat \<Rightarrow> string \<Rightarrow> nat option" where
  "parse_unsigned bound s =
     (let ds = (case s of c # t \<Rightarrow> if c = CHR ''+'' \<and> t \<noteq> [] then t else s | [] \<Rightarrow> [])
      in if ds \<noteq> [] \<and> list_all is_digit ds \<and> digits_val ds \<le> bound then Some (digits_val ds) else None)"

definition parse_u16 :: "string \<Rightarrow> nat option" where
  "parse_u16 = parse_unsigned 65535"

lemma is_digit_char_of: "n < 10 \<Longrightarrow> is_digit (char_of (48 + n :: nat))"
  by (simp add: is_digit_def)

lemma show_nat_digits: "list_all is_digit (show_nat n)"
proof (induction n rule: show_nat.induct)
  case (1 n)
  then show ?case
    by (subst show_nat.simps) (simp add: is_digit_char_of)
qed

lemma show_nat_nonempty [simp]: "show_nat n \<noteq> []"
  by (subst show_nat.simps) simp

lemma digits_val_show_nat [simp]: "digits_val (show_nat n) = n"
proof (induction n rule: show_nat.induct)
  case (1 n)
  show ?case
  proof (cases "n < 10")
    case False
    with 1 have "digits_val (show_nat (n div 10)) = n div 10" by simp
    then have "digits_val (show_nat (n div 10) @ [char_of (48 + n mod 10)]) = n div 10 * 10 + n mod 10"
      by (simp add: digits_val_def)
    with False show ?thesis by (subst show_nat.simps) simp
  qed (subst show_nat.simps, simp add: digits_val_def)
qed

lemma show_nat_inject [simp]: "show_nat m = show_nat n \<longleftrightarrow> m = n"
  by (metis digits_val_show_nat)

lemma show_nat_visible: "c \<in> set (show_nat n) \<Longrightarrow> is_digit c"
  using show_nat_digits by (auto simp: list_all_iff)

lemma parse_show_nat: "n \<le> bound \<Longrightarrow> parse_unsigned bound (show_nat n) = Some n"
proof -
  assume "n \<le> bound"
  moreover obtain c t where ct: "show_nat n = c # t"
    by (cases "show_nat n") auto
  moreover have "c \<noteq> CHR ''+''"
    using show_nat_visible [of c n] ct by (auto simp: is_digit_def)
  ultimately show ?thesis
    using show_nat_digits [of n] digits_val_show_nat [of n]
    by (simp add: parse_unsigned_def)
qed

lemma parse_unsigned_bound: "parse_unsigned bound s = Some n \<Longrightarrow> n \<le> bound"
  by (auto simp: parse_unsigned_def Let_def split: if_splits)

text \<open>\<^verbatim>\<open>format!("{b:02x}")\<close> of a byte.\<close>

definition hex_digit :: "nat \<Rightarrow> char" where
  "hex_digit n = (if n < 10 then char_of (48 + n) else char_of (87 + n))"

definition hex_val :: "char \<Rightarrow> nat" where
  "hex_val c = (if is_digit c then code c - 48
                else if 97 \<le> code c then code c - 87 else code c - 55)"

lemma hex_digit_hexdigit [simp]: "n < 16 \<Longrightarrow> is_hexdigit (hex_digit n)"
  by (auto simp: hex_digit_def is_hexdigit_def is_digit_def)

lemma hex_val_hex_digit [simp]: "n < 16 \<Longrightarrow> hex_val (hex_digit n) = n"
  by (auto simp: hex_digit_def hex_val_def is_digit_def)

lemma hex_val_lt: "is_hexdigit c \<Longrightarrow> hex_val c < 16"
  by (auto simp: is_hexdigit_def hex_val_def is_digit_def)

lemma hex_digit_hex_val: "is_hexdigit c \<Longrightarrow> hex_digit (hex_val c) = ascii_lower c"
proof -
  assume "is_hexdigit c"
  then consider (d) "is_digit c" | (l) "97 \<le> code c" "code c \<le> 102" "\<not> is_digit c"
    | (u) "65 \<le> code c" "code c \<le> 70" "\<not> is_digit c"
    by (auto simp: is_hexdigit_def is_digit_def)
  then show ?thesis
  proof cases
    case d
    then have "48 + (code c - 48) = code c" by (simp add: is_digit_def)
    with d show ?thesis
      by (auto simp: hex_val_def hex_digit_def ascii_lower_def is_upper_def is_digit_def)
  next
    case l
    then show ?thesis
      by (auto simp: hex_val_def hex_digit_def ascii_lower_def is_upper_def)
  next
    case u
    then have "87 + (code c - 55) = code c + 32" by simp
    with u show ?thesis
      by (auto simp: hex_val_def hex_digit_def ascii_lower_def is_upper_def)
  qed
qed

section \<open>UTF-8\<close>

text \<open>\<^verbatim>\<open>str::as_bytes\<close> and \<^verbatim>\<open>String::from_utf8\<close>: the
  well-formed byte sequences of Unicode (no overlong form, no surrogate, at most U+10FFFF).\<close>

definition str_bytes :: "string \<Rightarrow> bytes" where
  "str_bytes s = map (\<lambda>c. word_of_nat (code c)) s"

definition bytes_str :: "bytes \<Rightarrow> string" where
  "bytes_str bs = map (\<lambda>b. char_of (unat b)) bs"

definition between :: "nat \<Rightarrow> nat \<Rightarrow> nat \<Rightarrow> bool" where
  "between lo hi n \<longleftrightarrow> lo \<le> n \<and> n \<le> hi"

fun utf8_codes :: "nat list \<Rightarrow> bool" where
  "utf8_codes [] = True"
| "utf8_codes (a # s) =
     (if a < 128 then utf8_codes s
      else if between 194 223 a then
        (case s of b # s \<Rightarrow> between 128 191 b \<and> utf8_codes s | _ \<Rightarrow> False)
      else if between 224 239 a then
        (case s of b # c # s \<Rightarrow>
           between (if a = 224 then 160 else 128) (if a = 237 then 159 else 191) b
           \<and> between 128 191 c \<and> utf8_codes s | _ \<Rightarrow> False)
      else if between 240 244 a then
        (case s of b # c # d # s \<Rightarrow>
           between (if a = 240 then 144 else 128) (if a = 244 then 143 else 191) b
           \<and> between 128 191 c \<and> between 128 191 d \<and> utf8_codes s | _ \<Rightarrow> False)
      else False)"

definition utf8_valid :: "string \<Rightarrow> bool" where
  "utf8_valid s \<longleftrightarrow> utf8_codes (map code s)"

definition from_utf8 :: "bytes \<Rightarrow> string option" where
  "from_utf8 bs = (if utf8_codes (map unat bs) then Some (bytes_str bs) else None)"

lemma unat_str_byte: "unat (word_of_nat (code c) :: u8) = code c"
  using code_lt_256 by (intro unat_of_nat_u8)

lemma length_str_bytes [simp]: "length (str_bytes s) = length s"
  by (simp add: str_bytes_def)

lemma bytes_str_bytes [simp]: "bytes_str (str_bytes s) = s"
  by (simp add: bytes_str_def str_bytes_def unat_str_byte comp_def del: unsigned_of_nat)

lemma map_unat_str_bytes: "map unat (str_bytes s) = map code s"
  by (simp add: str_bytes_def unat_str_byte comp_def del: unsigned_of_nat)

lemma from_utf8_str_bytes: "utf8_valid s \<Longrightarrow> from_utf8 (str_bytes s) = Some s"
  by (simp add: from_utf8_def utf8_valid_def map_unat_str_bytes)

lemma from_utf8_valid: "from_utf8 bs = Some s \<Longrightarrow> utf8_valid s \<and> length s = length bs"
proof -
  assume a: "from_utf8 bs = Some s"
  have "code (char_of (unat b)) = unat b" for b :: u8 by simp
  then have m: "map code (bytes_str bs) = map unat bs" by (simp add: bytes_str_def)
  from a have "s = bytes_str bs" "utf8_codes (map unat bs)"
    by (simp_all add: from_utf8_def split: if_splits)
  with m show ?thesis by (simp add: utf8_valid_def length_map [of unat, symmetric] del: length_map)
      (metis length_map)
qed

lemma ascii_utf8_codes: "\<forall>n \<in> set ns. n < 128 \<Longrightarrow> utf8_codes ns"
  by (induction ns) auto

lemma ascii_utf8_valid: "ascii s \<Longrightarrow> utf8_valid s"
  unfolding utf8_valid_def ascii_def by (rule ascii_utf8_codes) auto

end
