(* ===== verification/Ipnet.thy ===== *)
theory Ipnet
  imports Rust_Prelude
begin

text \<open>
  IPv4 addresses (\<^verbatim>\<open>std::net::Ipv4Addr\<close>) and address allocation
  (\<^verbatim>\<open>crates/peercove-core/src/ipalloc.rs\<close>).

  The crate \<^verbatim>\<open>ipnet\<close> is third party: its network operations are the fields of a
  record \<open>ipnet_api\<close>, which every definition that uses them takes as an argument. What the code
  relies on is the locale \<open>ipnet\<close>: the documented meaning of an address block. The block
  arithmetic \<open>cidr_api\<close> satisfies it (interpretation \<open>cidr\<close>) and is the instance the witnesses
  evaluate.
\<close>

section \<open>Addresses\<close>

type_synonym ipv4 = u32

definition ipv4_new :: "u8 \<Rightarrow> u8 \<Rightarrow> u8 \<Rightarrow> u8 \<Rightarrow> ipv4" where
  "ipv4_new a b c d = word_of_nat (((unat a * 256 + unat b) * 256 + unat c) * 256 + unat d)"

definition octets :: "ipv4 \<Rightarrow> bytes" where
  "octets ip = [word_of_nat (unat ip div 256 div 256 div 256), word_of_nat (unat ip div 256 div 256 mod 256),
                word_of_nat (unat ip div 256 mod 256), word_of_nat (unat ip mod 256)]"

definition last_octet :: "ipv4 \<Rightarrow> nat" where
  "last_octet ip = unat ip mod 256"

lemma unat_ipv4_lt [simp]: "unat (ip :: ipv4) < 4294967296"
  using unsigned_less [of ip] by simp

lemma unat_of_nat_u32: "n < 4294967296 \<Longrightarrow> unat (word_of_nat n :: u32) = n"
  by (simp add: unsigned_of_nat take_bit_nat_eq_self)

lemma pack_lt: "a < m \<Longrightarrow> b < 256 \<Longrightarrow> a * 256 + b < m * (256::nat)"
proof -
  assume "a < m" "b < 256"
  then have "Suc a * 256 \<le> m * 256" by (intro mult_le_mono1) simp
  with \<open>b < 256\<close> show ?thesis by simp
qed

lemma unat_ipv4_new:
  "unat (ipv4_new a b c d) = ((unat a * 256 + unat b) * 256 + unat c) * 256 + unat d"
proof -
  have "((unat a * 256 + unat b) * 256 + unat c) * 256 + unat d < 256 * 256 * 256 * 256"
    by (intro pack_lt unat_u8_lt)
  then have "((unat a * 256 + unat b) * 256 + unat c) * 256 + unat d < 4294967296" by simp
  then show ?thesis unfolding ipv4_new_def by (rule unat_of_nat_u32)
qed

lemma length_octets [simp]: "length (octets ip) = 4"
  by (simp add: octets_def)

lemma ipv4_new_octets:
  "ipv4_new (octets ip ! 0) (octets ip ! 1) (octets ip ! 2) (octets ip ! 3) = ip"
proof -
  let ?n = "unat ip"
  have a: "?n div 256 div 256 div 256 < 256"
    using unat_ipv4_lt [of ip] by (simp add: div_less_iff_less_mult)
  have b: "?n div 256 div 256 mod 256 < 256" "?n div 256 mod 256 < 256" "?n mod 256 < 256"
    by simp_all
  have "unat (ipv4_new (octets ip ! 0) (octets ip ! 1) (octets ip ! 2) (octets ip ! 3)) =
      ((?n div 256 div 256 div 256 * 256 + ?n div 256 div 256 mod 256) * 256 + ?n div 256 mod 256)
        * 256 + ?n mod 256"
    by (simp only: unat_ipv4_new octets_def nth_Cons_0 nth_Cons_Suc One_nat_def
        numeral_2_eq_2 numeral_3_eq_3 unat_of_nat_u8 [OF a] unat_of_nat_u8 [OF b(1)]
        unat_of_nat_u8 [OF b(2)] unat_of_nat_u8 [OF b(3)])
  also have "\<dots> = ?n" by (simp only: div_mult_mod_eq)
  finally show ?thesis by (simp only: word_unat_eq_iff)
qed

section \<open>Address blocks\<close>

record ipv4net =
  net_addr :: ipv4
  net_prefix :: nat

definition host_net :: "ipv4 \<Rightarrow> ipv4net" where
  "host_net ip = \<lparr>net_addr = ip, net_prefix = 32\<rparr>"

definition net_wf :: "ipv4net \<Rightarrow> bool" where
  "net_wf N \<longleftrightarrow> net_prefix N \<le> 32"

lemma host_net_wf [simp]: "net_wf (host_net ip)" and host_net_addr [simp]: "net_addr (host_net ip) = ip"
  and host_net_prefix [simp]: "net_prefix (host_net ip) = 32"
  by (simp_all add: net_wf_def host_net_def)

record ipnet_api =
  net_contains :: "ipv4net \<Rightarrow> ipv4 \<Rightarrow> bool"
  net_covers :: "ipv4net \<Rightarrow> ipv4net \<Rightarrow> bool"
  net_trunc :: "ipv4net \<Rightarrow> ipv4net"
  net_network :: "ipv4net \<Rightarrow> ipv4"
  net_broadcast :: "ipv4net \<Rightarrow> ipv4"
  net_hosts :: "ipv4net \<Rightarrow> ipv4 list"

locale ipnet =
  fixes api :: ipnet_api
  assumes contains_addr: "net_wf N \<Longrightarrow> net_contains api N (net_addr N)"
    and contains_host: "net_contains api (host_net ip) x \<longleftrightarrow> x = ip"
    and contains_trunc: "net_wf N \<Longrightarrow> net_contains api (net_trunc api N) x = net_contains api N x"
    and trunc_prefix: "net_prefix (net_trunc api N) = net_prefix N"
    and covers_contains:
      "net_wf N \<Longrightarrow> net_wf M \<Longrightarrow> net_covers api N M \<Longrightarrow> net_contains api M x \<Longrightarrow> net_contains api N x"
    and overlap_nested:
      "net_wf N \<Longrightarrow> net_wf M \<Longrightarrow> net_contains api N x \<Longrightarrow> net_contains api M x \<Longrightarrow>
        net_covers api N M \<or> net_covers api M N"
    and hosts_iff: "net_prefix N \<le> 30 \<Longrightarrow> x \<in> set (net_hosts api N) \<longleftrightarrow>
        net_contains api N x \<and> x \<noteq> net_network api N \<and> x \<noteq> net_broadcast api N"
    and hosts_sorted: "sorted (net_hosts api N)"
begin

lemma trunc_wf: "net_wf N \<Longrightarrow> net_wf (net_trunc api N)"
  by (simp add: net_wf_def trunc_prefix)

lemma disjoint_nets:
  assumes "net_wf N" and "net_wf M" and "\<not> net_covers api N M" and "\<not> net_covers api M N"
  shows "\<not> (net_contains api N x \<and> net_contains api M x)"
  using assms overlap_nested by blast

end

subsection \<open>Block arithmetic satisfies the laws\<close>

definition block_size :: "ipv4net \<Rightarrow> nat" where
  "block_size N = 2 ^ (32 - net_prefix N)"

definition block_base :: "ipv4net \<Rightarrow> nat" where
  "block_base N = unat (net_addr N) div block_size N * block_size N"

definition cidr_contains :: "ipv4net \<Rightarrow> ipv4 \<Rightarrow> bool" where
  "cidr_contains N x \<longleftrightarrow> unat x div block_size N = unat (net_addr N) div block_size N"

definition cidr_hosts :: "ipv4net \<Rightarrow> ipv4 list" where
  "cidr_hosts N =
     (if net_prefix N \<le> 30
      then map word_of_nat [block_base N + 1 ..< block_base N + (block_size N - 1)]
      else map word_of_nat [block_base N ..< block_base N + block_size N])"

definition cidr_api :: ipnet_api where
  "cidr_api =
     \<lparr>net_contains = cidr_contains,
      net_covers = (\<lambda>N M. net_prefix N \<le> net_prefix M \<and> cidr_contains N (net_addr M)),
      net_trunc = (\<lambda>N. N\<lparr>net_addr := word_of_nat (block_base N)\<rparr>),
      net_network = (\<lambda>N. word_of_nat (block_base N)),
      net_broadcast = (\<lambda>N. word_of_nat (block_base N + (block_size N - 1))),
      net_hosts = cidr_hosts\<rparr>"

lemma net_contains_cidr: "net_contains cidr_api = cidr_contains"
  by (simp add: cidr_api_def)

lemma block_size_pos [simp]: "0 < block_size N"
  by (simp add: block_size_def)

lemma block_end:
  assumes "net_wf N"
  shows "block_base N + block_size N \<le> 4294967296"
proof -
  let ?s = "block_size N"
  have "4294967296 = (2::nat) ^ (32 - net_prefix N) * 2 ^ net_prefix N"
    using assms by (simp add: net_wf_def power_add [symmetric])
  then have s: "4294967296 = ?s * 2 ^ net_prefix N" by (simp add: block_size_def)
  then have "unat (net_addr N) < 2 ^ net_prefix N * ?s"
    using unat_ipv4_lt [of "net_addr N"] by (simp add: mult.commute)
  then have "unat (net_addr N) div ?s < 2 ^ net_prefix N" by (simp add: less_mult_imp_div_less)
  then have "(unat (net_addr N) div ?s + 1) * ?s \<le> 2 ^ net_prefix N * ?s"
    by (intro mult_le_mono1) simp
  with s show ?thesis by (simp add: block_base_def mult.commute)
qed

lemma block_member:
  "unat x div block_size N = unat (net_addr N) div block_size N \<longleftrightarrow>
   block_base N \<le> unat x \<and> unat x < block_base N + block_size N"
proof -
  have "n div s = q \<longleftrightarrow> q * s \<le> n \<and> n < q * s + s" if "0 < s" for n s q :: nat
    using that by (metis add.commute div_nat_eqI dividend_less_times_div div_times_less_eq_dividend
        mult.commute mult_Suc mult_Suc_right)
  then show ?thesis by (simp add: block_base_def)
qed

lemma unat_of_nat_lt_u32: "n \<le> m \<Longrightarrow> m < 4294967296 \<Longrightarrow> unat (word_of_nat n :: u32) = n"
  by (simp add: unat_of_nat_u32)

lemma word_of_nat_image:
  assumes "j \<le> 4294967296"
  shows "(x :: u32) \<in> set (map word_of_nat [i ..< j]) \<longleftrightarrow> i \<le> unat x \<and> unat x < j"
proof
  assume "x \<in> set (map word_of_nat [i ..< j])"
  then obtain n where "i \<le> n" "n < j" "x = word_of_nat n" by auto
  with assms show "i \<le> unat x \<and> unat x < j" using unat_of_nat_u32 [of n] by auto
next
  assume "i \<le> unat x \<and> unat x < j"
  then have "unat x \<in> set [i ..< j]" by simp
  moreover have "x = word_of_nat (unat x)" by simp
  ultimately show "x \<in> set (map word_of_nat [i ..< j])" by (simp only: set_map) blast
qed

lemma sorted_map_of_nat:
  assumes "j \<le> 4294967296"
  shows "sorted (map word_of_nat [i ..< j] :: u32 list)"
proof -
  have "(word_of_nat m :: u32) \<le> word_of_nat n" if "m \<le> n" "n < j" for m n
    using that assms unat_of_nat_u32 [of m] unat_of_nat_u32 [of n] by (simp only: word_le_nat_alt)
  moreover have "sorted_wrt (\<le>) [i ..< j]" by simp
  ultimately have "sorted_wrt (\<lambda>m n. (word_of_nat m :: u32) \<le> word_of_nat n) [i ..< j]"
    by (elim sorted_wrt_mono_rel [rotated]) auto
  then show ?thesis by (simp add: sorted_wrt_map)
qed

lemma cidr_contains_iff:
  "cidr_contains N x \<longleftrightarrow> block_base N \<le> unat x \<and> unat x < block_base N + block_size N"
  unfolding cidr_contains_def by (rule block_member)

lemma unat_block_base:
  "net_wf N \<Longrightarrow> unat (word_of_nat (block_base N) :: ipv4) = block_base N"
  using block_end [of N] block_size_pos [of N] by (intro unat_of_nat_u32) linarith

lemma unat_block_last:
  "net_wf N \<Longrightarrow> unat (word_of_nat (block_base N + (block_size N - 1)) :: ipv4)
     = block_base N + (block_size N - 1)"
  using block_end [of N] block_size_pos [of N] by (intro unat_of_nat_u32) linarith

lemma cidr_trunc_contains:
  assumes "net_wf N"
  shows "cidr_contains (N\<lparr>net_addr := word_of_nat (block_base N)\<rparr>) x = cidr_contains N x"
proof -
  let ?M = "N\<lparr>net_addr := word_of_nat (block_base N)\<rparr>"
  have s: "block_size ?M = block_size N" by (simp add: block_size_def)
  have a: "net_addr ?M = word_of_nat (block_base N)" by simp
  have "block_base ?M = block_base N div block_size N * block_size N"
    by (simp only: block_base_def [of ?M] s a unat_block_base [OF assms])
  also have "\<dots> = block_base N"
    by (simp add: block_base_def)
  finally have "block_base ?M = block_base N" .
  with s show ?thesis by (simp only: cidr_contains_iff)
qed

lemma cidr_size_dvd:
  assumes "net_prefix N \<le> net_prefix M" and "net_wf M"
  shows "\<exists>q. block_size N = block_size M * q"
proof -
  have "32 - net_prefix N = (32 - net_prefix M) + (net_prefix M - net_prefix N)"
    using assms by (simp add: net_wf_def)
  then show ?thesis unfolding block_size_def by (metis power_add)
qed

lemma cidr_coarser:
  assumes "net_prefix N \<le> net_prefix M" and "net_wf M" and "cidr_contains M x"
  shows "cidr_contains N x \<longleftrightarrow> cidr_contains N (net_addr M)"
proof -
  from cidr_size_dvd [OF assms(1,2)] obtain q where "block_size N = block_size M * q" ..
  with assms(3) show ?thesis by (simp add: cidr_contains_def div_mult2_eq)
qed

lemma cidr_hosts_iff:
  assumes "net_prefix N \<le> 30"
  shows "x \<in> set (cidr_hosts N) \<longleftrightarrow> cidr_contains N x
    \<and> x \<noteq> word_of_nat (block_base N) \<and> x \<noteq> word_of_nat (block_base N + (block_size N - 1))"
proof -
  have wf: "net_wf N" using assms by (simp add: net_wf_def)
  have "(2::nat) ^ 1 \<le> 2 ^ (32 - net_prefix N)" using assms by (intro power_increasing) auto
  then have sz: "2 \<le> block_size N" by (simp add: block_size_def)
  have "x \<in> set (cidr_hosts N) \<longleftrightarrow>
      block_base N + 1 \<le> unat x \<and> unat x < block_base N + (block_size N - 1)"
    using assms block_end [OF wf] unfolding cidr_hosts_def
    by (simp only: if_True) (rule word_of_nat_image, linarith)
  moreover have "x = word_of_nat (block_base N) \<longleftrightarrow> unat x = block_base N"
    using unat_block_base [OF wf] by (metis word_unat_eq_iff)
  moreover have "x = word_of_nat (block_base N + (block_size N - 1)) \<longleftrightarrow>
      unat x = block_base N + (block_size N - 1)"
    using unat_block_last [OF wf] by (metis word_unat_eq_iff)
  ultimately show ?thesis using sz unfolding cidr_contains_iff by linarith
qed

lemma cidr_hosts_sorted: "sorted (cidr_hosts N)"
proof (cases "net_wf N")
  case True
  then have "block_base N + (block_size N - 1) \<le> 4294967296"
    using block_end [of N] by linarith
  with True block_end [of N] show ?thesis by (simp add: cidr_hosts_def sorted_map_of_nat)
next
  case False
  then have "block_size N = 1" by (simp add: net_wf_def block_size_def)
  with False show ?thesis by (simp add: cidr_hosts_def net_wf_def)
qed

interpretation cidr: ipnet cidr_api
proof unfold_locales
  fix N M :: ipv4net and ip x :: ipv4
  show "net_contains cidr_api N (net_addr N)" by (simp add: cidr_api_def cidr_contains_def)
  show "net_contains cidr_api (host_net ip) x \<longleftrightarrow> x = ip"
    by (simp add: cidr_api_def cidr_contains_def host_net_def block_size_def word_unat_eq_iff)
  show "net_prefix (net_trunc cidr_api N) = net_prefix N" by (simp add: cidr_api_def)
  show "net_wf N \<Longrightarrow> net_contains cidr_api (net_trunc cidr_api N) x = net_contains cidr_api N x"
    by (simp add: cidr_api_def cidr_trunc_contains)
  show "net_prefix N \<le> 30 \<Longrightarrow> x \<in> set (net_hosts cidr_api N) \<longleftrightarrow>
      net_contains cidr_api N x \<and> x \<noteq> net_network cidr_api N \<and> x \<noteq> net_broadcast cidr_api N"
    by (simp add: cidr_api_def cidr_hosts_iff del: of_nat_add)
  show "sorted (net_hosts cidr_api N)" by (simp add: cidr_api_def cidr_hosts_sorted)
  assume wf: "net_wf N" "net_wf M"
  show "net_covers cidr_api N M \<Longrightarrow> net_contains cidr_api M x \<Longrightarrow> net_contains cidr_api N x"
    using cidr_coarser [of N M x] wf by (simp add: cidr_api_def)
  show "net_contains cidr_api N x \<Longrightarrow> net_contains cidr_api M x \<Longrightarrow>
      net_covers cidr_api N M \<or> net_covers cidr_api M N"
    using cidr_coarser [of N M x] cidr_coarser [of M N x] wf
      nat_le_linear [of "net_prefix N" "net_prefix M"] by (auto simp: cidr_api_def)
qed

section \<open>Address allocation\<close>

text \<open>\<^verbatim>\<open>next_free_ip\<close>.\<close>

definition next_free_ip :: "ipnet_api \<Rightarrow> ipv4net \<Rightarrow> ipv4 list \<Rightarrow> ipv4 option" where
  "next_free_ip api net used = find (\<lambda>ip. ip \<notin> set used) (net_hosts api net)"

text \<open>
  \<^verbatim>\<open>random_private_subnet\<close>; the two bytes of the operating system's random generator are the
  arguments.
\<close>

definition random_private_subnet :: "u8 \<Rightarrow> u8 \<Rightarrow> ipv4net" where
  "random_private_subnet b0 b1 =
     (let x = 64 + and b0 0x3F; y = b1
      in \<lparr>net_addr = ipv4_new 10 x y 0, net_prefix = 24\<rparr>)"

definition cgnat :: ipv4net where
  "cgnat = \<lparr>net_addr = ipv4_new 100 64 0 0, net_prefix = 10\<rparr>"

definition overlaps_cgnat :: "ipnet_api \<Rightarrow> ipv4net \<Rightarrow> bool" where
  "overlaps_cgnat api net \<longleftrightarrow>
     net_contains api cgnat (net_addr net) \<or> net_contains api net (net_addr cgnat)"

context ipnet
begin

text \<open>The address handed out is a free host address of the block, and the least one.\<close>

lemma next_free_ip_Some:
  assumes "net_prefix N \<le> 30" and "next_free_ip api N used = Some ip"
  shows "net_contains api N ip" and "ip \<noteq> net_network api N" and "ip \<noteq> net_broadcast api N"
    and "ip \<notin> set used"
  using assms find_Some_set [of _ "net_hosts api N" ip] hosts_iff
  by (auto simp: next_free_ip_def)

lemma find_sorted_least:
  assumes "sorted xs" and "find P xs = Some (x :: ipv4)" and "y \<in> set xs" and "P y"
  shows "x \<le> y"
  using assms by (induction xs) (auto split: if_splits)

lemma next_free_ip_least:
  assumes "net_prefix N \<le> 30" and "next_free_ip api N used = Some ip"
    and "net_contains api N x" and "x \<noteq> net_network api N" and "x \<noteq> net_broadcast api N"
    and "x \<notin> set used"
  shows "ip \<le> x"
  using assms hosts_iff hosts_sorted
  by (auto simp: next_free_ip_def intro: find_sorted_least)

lemma next_free_ip_None:
  assumes "net_prefix N \<le> 30"
  shows "next_free_ip api N used = None \<longleftrightarrow>
    (\<forall>x. net_contains api N x \<longrightarrow> x = net_network api N \<or> x = net_broadcast api N \<or> x \<in> set used)"
  using assms by (auto simp: next_free_ip_def find_None_set hosts_iff)

end

section \<open>Properties\<close>

text \<open>
  Address allocation is exact. In a block with at most 30 prefix bits, \<open>next_free_ip\<close> hands out
  an unused host address that lies in the block, is neither its network nor its broadcast address and
  is the smallest such address; it hands out nothing only if every host address is in use.
\<close>

theorem next_free_ip_exact:
  assumes "ipnet api" and "net_prefix N \<le> 30"
  shows "case next_free_ip api N used of
      Some ip \<Rightarrow> net_contains api N ip \<and> ip \<noteq> net_network api N \<and> ip \<noteq> net_broadcast api N
        \<and> ip \<notin> set used
        \<and> (\<forall>x. net_contains api N x \<longrightarrow> x \<noteq> net_network api N \<longrightarrow> x \<noteq> net_broadcast api N
             \<longrightarrow> x \<notin> set used \<longrightarrow> ip \<le> x)
    | None \<Rightarrow> \<forall>x. net_contains api N x \<longrightarrow>
        x = net_network api N \<or> x = net_broadcast api N \<or> x \<in> set used"
  using ipnet.next_free_ip_Some [OF assms] ipnet.next_free_ip_least [OF assms]
    ipnet.next_free_ip_None [OF assms]
  by (auto split: option.split)

definition sample_net :: ipv4net where
  "sample_net = \<lparr>net_addr = 0x0A000005, net_prefix = 29\<rparr>"

lemma sample_next_free: "next_free_ip cidr_api sample_net [0x0A000001, 0x0A000003] = Some 0x0A000002"
  by (simp add: next_free_ip_def cidr_api_def cidr_hosts_def block_base_def block_size_def
      sample_net_def upt_rec)

theorem next_free_ip_exact_witness:
  "next_free_ip cidr_api sample_net [0x0A000001, 0x0A000003] = Some 0x0A000002
    \<and> net_contains cidr_api sample_net 0x0A000002"
  using next_free_ip_exact [OF cidr.ipnet_axioms, of sample_net "[0x0A000001, 0x0A000003]"]
  by (simp add: sample_next_free) (simp add: sample_net_def)

end
