(* ===== verification/Config_Types.thy ===== *)
theory Config_Types
  imports Rust_Str Ipnet
begin

text \<open>
  The configuration of a network as data: keys (\<^verbatim>\<open>keys.rs\<close>), the types of
  \<^verbatim>\<open>host.toml\<close> / \<^verbatim>\<open>member.toml\<close> (\<^verbatim>\<open>config.rs\<close>),
  the rule types of \<^verbatim>\<open>acl.rs\<close> and the invitation state of a peer. The operations
  on this data are in \<open>Acl_Policy\<close>, \<open>Config_Check\<close> and \<open>Peers\<close>. Strings are UTF-8 byte
  lists, paths are their text, times are seconds as \<open>nat\<close>.
\<close>

section \<open>Keys and member references\<close>

text \<open>\<^verbatim>\<open>PublicKey([u8; 32])\<close>.\<close>

type_synonym public_key = bytes

datatype member_ref = Host | Key public_key

section \<open>Access control types\<close>

datatype acl_action = Allow | Deny

datatype acl_protocol = Any_Protocol | Tcp | Udp | Icmp

datatype acl_target =
    Any_Target string
  | Member_Target public_key
  | Group_Target string
  | Subnet_Target ipv4net
  | Service_Target string

record acl_group =
  group_id :: string
  group_name :: string
  group_members :: "public_key list"

record acl_rule =
  rule_id :: string
  rule_action :: acl_action
  rule_source :: acl_target
  rule_destination :: acl_target
  rule_protocol :: acl_protocol
  rule_ports :: "string list"
  rule_enabled :: bool

record acl_config =
  acl_deny :: "(ipv4 \<times> ipv4) list"
  acl_default :: acl_action
  acl_groups :: "acl_group list"
  acl_rules :: "acl_rule list"

definition acl_is_empty :: "acl_config \<Rightarrow> bool" where
  "acl_is_empty acl \<longleftrightarrow>
     acl_deny acl = [] \<and> acl_default acl = Allow \<and> acl_groups acl = [] \<and> acl_rules acl = []"

text \<open>\<^verbatim>\<open>AclConfig::is_denied\<close>: the pair is unordered.\<close>

definition is_denied :: "acl_config \<Rightarrow> ipv4 \<Rightarrow> ipv4 \<Rightarrow> bool" where
  "is_denied acl x y \<longleftrightarrow> (\<exists>(a, b) \<in> set (acl_deny acl). (a = x \<and> b = y) \<or> (a = y \<and> b = x))"

section \<open>DNS records, interface, peers\<close>

datatype health_check_kind = Health_Tcp | Http_Head

record dns_record_config =
  rec_id :: "string option"
  rec_name :: string
  rec_ip :: "ipv4 option"
  rec_member :: "member_ref option"
  rec_cname :: "string option"
  rec_under :: "member_ref option"
  rec_scheme :: "string option"
  rec_port :: "u16 option"
  rec_health_check :: "bool option"
  rec_health_kind :: "health_check_kind option"
  rec_health_path :: "string option"
  rec_health_expect_status :: "u16 option"
  rec_health_external :: bool

datatype key_source = Token_Key | Self_Generated

datatype socket_addr = Socket_V4 ipv4 u16 | Socket_V6 "u16 list" u16

record interface_config =
  if_name :: string
  if_network_name :: "string option"
  if_display_name :: "string option"
  if_network_display_name :: "string option"
  if_device_id :: "string option"
  if_require_invite_approval :: bool
  if_member_invites :: bool
  if_dns_name :: "string option"
  if_private_key_file :: string
  if_address :: ipv4net
  if_listen_port :: "u16 option"
  if_mtu :: u16
  if_max_recv_file_mb :: nat
  if_direct :: bool
  if_key_source :: "key_source option"
  if_auto_connect :: bool

record peer_config =
  peer_name :: "string option"
  peer_dns_name :: "string option"
  peer_invite_id :: "string option"
  peer_invite_issued_at :: "nat option"
  peer_invite_expires_at :: "nat option"
  peer_invite_accepted_at :: "nat option"
  peer_invite_device_id :: "string option"
  peer_invite_requires_approval :: bool
  peer_invite_approved_at :: "nat option"
  peer_can_invite :: bool
  peer_admin :: bool
  peer_invited_by_id :: "string option"
  peer_invited_by_name :: "string option"
  peer_control_host :: "ipv4 option"
  peer_public_key :: public_key
  peer_endpoint :: "socket_addr option"
  peer_endpoint_fallbacks :: "socket_addr list"
  peer_allowed_ips :: "ipv4net list"
  peer_subnets :: "ipv4net list"
  peer_persistent_keepalive :: "u16 option"
  peer_preshared_key_file :: "string option"

record config =
  cfg_interface :: interface_config
  cfg_peers :: "peer_config list"
  cfg_dns_records :: "dns_record_config list"
  cfg_acl :: acl_config

definition DEFAULT_LISTEN_PORT :: u16 where "DEFAULT_LISTEN_PORT = 51820"

section \<open>Invitation state of a peer\<close>

datatype invite_state = Legacy | Pending | Joined | Awaiting_Approval | Expired | Clock_Invalid

definition invite_state :: "peer_config \<Rightarrow> nat \<Rightarrow> invite_state" where
  "invite_state p now =
     (if peer_invite_accepted_at p \<noteq> None \<and> peer_invite_requires_approval p
         \<and> peer_invite_approved_at p = None then Awaiting_Approval
      else if peer_invite_accepted_at p \<noteq> None then Joined
      else if peer_invite_id p = None then Legacy
      else if now = 0 then Clock_Invalid
      else if (case peer_invite_expires_at p of Some e \<Rightarrow> e \<le> now | None \<Rightarrow> False) then Expired
      else Pending)"

definition invite_allows_connection :: "peer_config \<Rightarrow> nat \<Rightarrow> bool" where
  "invite_allows_connection p now \<longleftrightarrow> invite_state p now \<notin> {Expired, Clock_Invalid}"

definition invite_is_isolated :: "peer_config \<Rightarrow> bool" where
  "invite_is_isolated p \<longleftrightarrow> peer_invite_requires_approval p \<and> peer_invite_approved_at p = None"

lemma is_denied_sym: "is_denied acl x y = is_denied acl y x"
  by (auto simp: is_denied_def)

lemma awaiting_is_isolated: "invite_state p now = Awaiting_Approval \<Longrightarrow> invite_is_isolated p"
  by (auto simp: invite_state_def invite_is_isolated_def split: if_splits)

lemma invite_state_accepted:
  "peer_invite_accepted_at p \<noteq> None \<Longrightarrow>
    invite_state p now = (if invite_is_isolated p then Awaiting_Approval else Joined)"
  by (simp add: invite_state_def invite_is_isolated_def)

text \<open>
  Time only closes an invitation: once a peer with a valid clock may no longer connect, waiting
  does not let it in again.
\<close>

lemma invite_closes:
  assumes "0 < now" and "now \<le> later" and "invite_allows_connection p later"
  shows "invite_allows_connection p now"
  using assms by (auto simp: invite_allows_connection_def invite_state_def split: if_splits option.splits)

section \<open>Sample data\<close>

text \<open>A host with a /24 and a member, on which the witnesses evaluate.\<close>

definition sample_interface :: interface_config where
  "sample_interface =
     \<lparr>if_name = ''peercove0'', if_network_name = None, if_display_name = None,
      if_network_display_name = None, if_device_id = None, if_require_invite_approval = False,
      if_member_invites = True, if_dns_name = None, if_private_key_file = ''host.key'',
      if_address = \<lparr>net_addr = 0x0A000001, net_prefix = 24\<rparr>, if_listen_port = None, if_mtu = 1420,
      if_max_recv_file_mb = 100, if_direct = True, if_key_source = None, if_auto_connect = False\<rparr>"

definition sample_peer :: "public_key \<Rightarrow> ipv4 \<Rightarrow> peer_config" where
  "sample_peer key ip =
     \<lparr>peer_name = None, peer_dns_name = None, peer_invite_id = None, peer_invite_issued_at = None,
      peer_invite_expires_at = None, peer_invite_accepted_at = None, peer_invite_device_id = None,
      peer_invite_requires_approval = False, peer_invite_approved_at = None, peer_can_invite = False,
      peer_admin = False, peer_invited_by_id = None, peer_invited_by_name = None,
      peer_control_host = None, peer_public_key = key, peer_endpoint = None,
      peer_endpoint_fallbacks = [], peer_allowed_ips = [host_net ip], peer_subnets = [],
      peer_persistent_keepalive = None, peer_preshared_key_file = None\<rparr>"

definition empty_acl :: acl_config where
  "empty_acl = \<lparr>acl_deny = [], acl_default = Allow, acl_groups = [], acl_rules = []\<rparr>"

definition sample_config :: "peer_config list \<Rightarrow> acl_config \<Rightarrow> config" where
  "sample_config peers acl =
     \<lparr>cfg_interface = sample_interface, cfg_peers = peers, cfg_dns_records = [], cfg_acl = acl\<rparr>"

lemmas sample_eval = sample_interface_def sample_peer_def empty_acl_def sample_config_def

end
