(* ===== verification/Names.thy ===== *)
theory Names
  imports Rust_Str
begin

text \<open>
  DNS labels and names, \<^verbatim>\<open>crates/peercove-core/src/names.rs\<close>. Free text is
  normalised by one left-to-right pass (\<open>dns_label\<close>); validity (\<open>is_dns_label\<close>) is being a fixed
  point of that pass. The lemmas give validity an explicit form, \<open>label_ok\<close>, and show that every
  normaliser yields a valid, stable name.
\<close>

section \<open>Definitions\<close>

definition MAX_LABEL_LEN :: nat where "MAX_LABEL_LEN = 63"

definition DEFAULT_NETWORK_NAME :: string where "DEFAULT_NETWORK_NAME = ''home''"

abbreviation hyphen :: char where "hyphen \<equiv> CHR ''-''"

definition is_lower_alnum :: "char \<Rightarrow> bool" where
  "is_lower_alnum c \<longleftrightarrow> is_lower c \<or> is_digit c"

text \<open>The character a character of the input becomes.\<close>

definition dns_char :: "string \<Rightarrow> char" where
  "dns_char ch =
     (case ch of
        [c] \<Rightarrow> if is_upper c then ascii_lower c else if is_lower_alnum c then c else hyphen
      | _ \<Rightarrow> hyphen)"

fun dns_fold :: "string list \<Rightarrow> string \<Rightarrow> string" where
  "dns_fold [] out = out"
| "dns_fold (ch # chs) out =
     (let mapped = dns_char ch
      in if mapped = hyphen \<and> out \<noteq> [] \<and> last out = hyphen then dns_fold chs out
         else dns_fold chs (out @ [mapped]))"

text \<open>\<^verbatim>\<open>trim_matches\<close>, \<^verbatim>\<open>trim_start_matches\<close> and
  \<^verbatim>\<open>trim_end_matches\<close> of one ASCII character.\<close>

definition trim_start_matches :: "char \<Rightarrow> string \<Rightarrow> string" where
  "trim_start_matches c s = dropWhile (\<lambda>x. x = c) s"

definition trim_end_matches :: "char \<Rightarrow> string \<Rightarrow> string" where
  "trim_end_matches c s = rev (dropWhile (\<lambda>x. x = c) (rev s))"

definition trim_matches :: "char \<Rightarrow> string \<Rightarrow> string" where
  "trim_matches c s = trim_end_matches c (trim_start_matches c s)"

definition dns_label :: "string \<Rightarrow> string option" where
  "dns_label input =
     (let out = dns_fold (chars input) [];
          trimmed = trim_matches hyphen out;
          truncated = take (min (length trimmed) MAX_LABEL_LEN) trimmed;
          final_label = trim_end_matches hyphen truncated
      in if final_label = [] then None else Some final_label)"

definition is_dns_label :: "string \<Rightarrow> bool" where
  "is_dns_label input \<longleftrightarrow> dns_label input = Some input"

definition is_dns_name :: "string \<Rightarrow> bool" where
  "is_dns_name input \<longleftrightarrow> input \<noteq> [] \<and> list_all is_dns_label (split_on (CHR ''.'') input)"

definition is_custom_dns_name :: "string \<Rightarrow> bool" where
  "is_custom_dns_name input \<longleftrightarrow> input \<noteq> [] \<and>
     (case split_on (CHR ''.'') input of
        first # labels \<Rightarrow> (first = ''*'' \<or> is_dns_label first) \<and> list_all is_dns_label labels
      | [] \<Rightarrow> False)"

definition normalize_cname_target :: "string \<Rightarrow> string option" where
  "normalize_cname_target input =
     (let trimmed = map ascii_lower (trim_end_matches (CHR ''.'') (trim input))
      in if trimmed = [] \<or> 253 < length trimmed \<or> \<not> is_dns_name trimmed then None else Some trimmed)"

fun normalize_labels :: "nat \<Rightarrow> string list \<Rightarrow> string list option" where
  "normalize_labels index [] = Some []"
| "normalize_labels index (label # labels) =
     (if index = 0 \<and> label = ''*''
      then map_option (\<lambda>out. ''*'' # out) (normalize_labels (index + 1) labels)
      else (case dns_label label of
              None \<Rightarrow> None
            | Some l \<Rightarrow> map_option (\<lambda>out. l # out) (normalize_labels (index + 1) labels)))"

definition normalize_custom_dns_name :: "string \<Rightarrow> string option" where
  "normalize_custom_dns_name input =
     map_option (join ''.'') (normalize_labels 0 (split_on (CHR ''.'') input))"

definition RESERVED_DNS_LABELS :: "string list" where
  "RESERVED_DNS_LABELS =
     [''localhost'', ''local'', ''internal'', ''arpa'', ''peercove'', ''dns'', ''gateway'', ''relay'']"

definition HOST_DNS_LABEL :: string where "HOST_DNS_LABEL = ''host''"

definition strip_prefix :: "string \<Rightarrow> string \<Rightarrow> string option" where
  "strip_prefix pre s = (if take (length pre) s = pre then Some (drop (length pre) s) else None)"

definition is_reserved_member_label :: "string \<Rightarrow> bool" where
  "is_reserved_member_label label \<longleftrightarrow>
     (case strip_prefix ''member-'' label of
        Some rest \<Rightarrow> rest \<noteq> [] \<and> list_all is_digit rest
      | None \<Rightarrow> False)"

datatype dns_name_error = Empty_Name | Reserved_Name string

definition normalize_dns_name :: "string \<Rightarrow> bool \<Rightarrow> dns_name_error + string" where
  "normalize_dns_name input for_host =
     (case dns_label input of
        None \<Rightarrow> Inl Empty_Name
      | Some label \<Rightarrow>
          if label \<in> set RESERVED_DNS_LABELS \<or> (\<not> for_host \<and> label = HOST_DNS_LABEL)
          then Inl (Reserved_Name label) else Inr label)"

section \<open>Valid labels, explicitly\<close>

definition label_char :: "char \<Rightarrow> bool" where
  "label_char c \<longleftrightarrow> is_lower_alnum c \<or> c = hyphen"

definition no_double :: "string \<Rightarrow> bool" where
  "no_double = successively (\<lambda>a b. \<not> (a = hyphen \<and> b = hyphen))"

definition label_ok :: "string \<Rightarrow> bool" where
  "label_ok s \<longleftrightarrow> s \<noteq> [] \<and> length s \<le> MAX_LABEL_LEN \<and> list_all label_char s \<and> no_double s
     \<and> hd s \<noteq> hyphen \<and> last s \<noteq> hyphen"

lemma label_char_dns_char: "label_char (dns_char ch)"
  by (auto simp: dns_char_def label_char_def is_lower_alnum_def split: list.splits)

lemma dns_char_id: "label_char c \<Longrightarrow> dns_char [c] = c"
  by (auto simp: dns_char_def label_char_def is_lower_alnum_def is_upper_def is_lower_def is_digit_def)

lemma label_char_ascii: "label_char c \<Longrightarrow> code c < 128 \<and> 33 \<le> code c \<and> \<not> is_upper c \<and> c \<noteq> CHR ''.''"
  by (auto simp: label_char_def is_lower_alnum_def is_lower_def is_digit_def is_upper_def)

lemma no_double_append:
  "no_double (a @ b) \<longleftrightarrow> no_double a \<and> no_double b
     \<and> (a = [] \<or> b = [] \<or> \<not> (last a = hyphen \<and> hd b = hyphen))"
  by (auto simp: no_double_def successively_append_iff)

lemma no_double_small [simp]: "no_double []" "no_double [c]"
  by (simp_all add: no_double_def)

lemma dns_fold_ok:
  "list_all label_char out \<Longrightarrow> no_double out \<Longrightarrow>
    list_all label_char (dns_fold chs out) \<and> no_double (dns_fold chs out)"
proof (induction chs arbitrary: out)
  case (Cons ch chs)
  then show ?case by (auto simp: Let_def label_char_dns_char no_double_append)
qed simp

lemma dns_fold_id:
  "list_all label_char s \<Longrightarrow> no_double (out @ s) \<Longrightarrow> dns_fold (map (\<lambda>c. [c]) s) out = out @ s"
proof (induction s arbitrary: out)
  case (Cons c s)
  have keep: "\<not> (c = hyphen \<and> out \<noteq> [] \<and> last out = hyphen)"
    using Cons.prems(2) by (auto simp: no_double_append)
  have "no_double ((out @ [c]) @ s)" using Cons.prems(2) by simp
  from Cons.IH [OF _ this] Cons.prems(1) keep show ?case by (auto simp: dns_char_id Let_def)
qed simp

lemma no_double_sub: "no_double (a @ b @ c) \<Longrightarrow> no_double b"
  by (simp add: no_double_append)

lemma trim_start_matches_split: "\<exists>a. s = a @ trim_start_matches c s"
  unfolding trim_start_matches_def
  by (rule exI [of _ "takeWhile (\<lambda>x. x = c) s"]) simp

lemma trim_end_matches_split: "\<exists>b. s = trim_end_matches c s @ b"
proof -
  have "rev s = takeWhile (\<lambda>x. x = c) (rev s) @ dropWhile (\<lambda>x. x = c) (rev s)" by simp
  then have "s = rev (dropWhile (\<lambda>x. x = c) (rev s)) @ rev (takeWhile (\<lambda>x. x = c) (rev s))"
    by (metis rev_append rev_rev_ident)
  then show ?thesis unfolding trim_end_matches_def ..
qed

lemma trim_start_matches_hd: "trim_start_matches c s \<noteq> [] \<Longrightarrow> hd (trim_start_matches c s) \<noteq> c"
  using hd_dropWhile [of "\<lambda>x. x = c" s] by (simp add: trim_start_matches_def)

lemma trim_end_matches_last: "trim_end_matches c s \<noteq> [] \<Longrightarrow> last (trim_end_matches c s) \<noteq> c"
  using hd_dropWhile [of "\<lambda>x. x = c" "rev s"] by (simp add: trim_end_matches_def last_rev)

lemma trim_end_matches_hd: "trim_end_matches c s \<noteq> [] \<Longrightarrow> hd (trim_end_matches c s) = hd s"
  by (metis hd_append trim_end_matches_split)

lemma trim_end_matches_id: "s = [] \<or> last s \<noteq> c \<Longrightarrow> trim_end_matches c s = s"
  unfolding trim_end_matches_def by (cases s rule: rev_cases) auto

lemma trim_start_matches_id: "s = [] \<or> hd s \<noteq> c \<Longrightarrow> trim_start_matches c s = s"
  unfolding trim_start_matches_def by (cases s) auto

lemma label_ok_chars: "label_ok s \<Longrightarrow> chars s = map (\<lambda>c. [c]) s"
  using label_char_ascii by (auto simp: label_ok_def list_all_iff ascii_def intro!: chars_ascii)

lemma label_ok_fixed: "label_ok s \<Longrightarrow> dns_label s = Some s"
proof -
  assume ok: "label_ok s"
  then have f: "dns_fold (chars s) [] = s"
    using dns_fold_id [of s "[]"] by (simp add: label_ok_def label_ok_chars)
  have "trim_matches hyphen s = s"
    using ok by (simp add: trim_matches_def trim_start_matches_id trim_end_matches_id label_ok_def)
  with f ok show ?thesis
    by (simp add: dns_label_def Let_def label_ok_def trim_end_matches_id)
qed

lemma dns_label_ok:
  assumes "dns_label s = Some l"
  shows "label_ok l"
proof -
  let ?o = "dns_fold (chars s) []"
  let ?t = "trim_matches hyphen ?o"
  let ?u = "take (min (length ?t) MAX_LABEL_LEN) ?t"
  from assms have l: "l = trim_end_matches hyphen ?u" and ne: "l \<noteq> []"
    by (auto simp: dns_label_def Let_def split: if_splits)
  obtain a b where ab: "?o = a @ ?t @ b"
    using trim_start_matches_split [of ?o hyphen] trim_end_matches_split [of "trim_start_matches hyphen ?o" hyphen]
    unfolding trim_matches_def by metis
  obtain c where c: "?t = ?u @ c" by (metis append_take_drop_id)
  obtain d where d: "?u = l @ d" using trim_end_matches_split l by metis
  from ab c d have o: "?o = a @ l @ (d @ c @ b)" by simp
  have "list_all label_char ?o \<and> no_double ?o" by (rule dns_fold_ok) simp_all
  then have 1: "list_all label_char l" "no_double l"
    using o no_double_sub [of a l "d @ c @ b"] by (metis list_all_append)+
  have "length ?u \<le> MAX_LABEL_LEN" by simp
  then have 2: "length l \<le> MAX_LABEL_LEN" using d by (metis length_append le_add1 order_trans)
  have 3: "last l \<noteq> hyphen" using l ne trim_end_matches_last by metis
  have un: "?u \<noteq> []" using d ne by auto
  then have tn: "?t \<noteq> []" by auto
  have "hd l = hd ?u" using l ne trim_end_matches_hd by metis
  also have "\<dots> = hd ?t" using c un by (metis hd_append)
  also have "\<dots> = hd (trim_start_matches hyphen ?o)"
    using tn unfolding trim_matches_def by (rule trim_end_matches_hd)
  also have "\<dots> \<noteq> hyphen"
    using tn trim_end_matches_split [of "trim_start_matches hyphen ?o" hyphen]
    unfolding trim_matches_def by (intro trim_start_matches_hd) auto
  finally show ?thesis using 1 2 3 ne by (simp add: label_ok_def)
qed

lemma is_dns_label_iff: "is_dns_label s \<longleftrightarrow> label_ok s"
  using label_ok_fixed dns_label_ok by (auto simp: is_dns_label_def)

section \<open>Names of several labels\<close>

lemma label_ok_no_dot: "label_ok l \<Longrightarrow> CHR ''.'' \<notin> set l"
  using label_char_ascii by (auto simp: label_ok_def list_all_iff)

lemma normalize_labels_Some:
  assumes "normalize_labels n ls = Some out"
  shows "list_all2 (\<lambda>l o'. dns_label l = Some o' \<or> (l = ''*'' \<and> o' = ''*'')) ls out"
    and "n \<noteq> 0 \<Longrightarrow> list_all label_ok out"
    and "ls \<noteq> [] \<Longrightarrow> list_all label_ok (tl out) \<and> (hd out = ''*'' \<or> label_ok (hd out)) \<and> out \<noteq> []"
  using assms
  by (induction n ls arbitrary: out rule: normalize_labels.induct)
    (auto split: if_splits option.splits dest: dns_label_ok)

lemma normalize_labels_fixed:
  "list_all label_ok (tl out) \<Longrightarrow> out \<noteq> [] \<Longrightarrow> hd out = ''*'' \<or> label_ok (hd out) \<Longrightarrow>
    normalize_labels 0 out = Some out"
proof -
  have a: "list_all label_ok ls \<Longrightarrow> normalize_labels (Suc n) ls = Some ls" for ls n
    by (induction ls arbitrary: n) (auto simp: label_ok_fixed)
  assume "list_all label_ok (tl out)" "out \<noteq> []" "hd out = ''*'' \<or> label_ok (hd out)"
  then show ?thesis using a [of "tl out" 0] by (cases out) (auto simp: label_ok_fixed)
qed

lemma custom_labels_no_dot:
  assumes "list_all label_ok (tl out)" and "hd out = ''*'' \<or> label_ok (hd out)" and "out \<noteq> []"
  shows "\<forall>l \<in> set out. CHR ''.'' \<notin> set l"
  using assms by (cases out) (auto simp: list_all_iff dest: label_ok_no_dot)

lemma label_ok_nonempty [simp]: "\<not> label_ok []"
  by (simp add: label_ok_def)

lemma is_custom_dns_name_join:
  assumes "list_all label_ok (tl out)" and "hd out = ''*'' \<or> label_ok (hd out)" and "out \<noteq> []"
  shows "is_custom_dns_name (join ''.'' out)"
proof -
  have "split_on (CHR ''.'') (join ''.'' out) = out"
    using assms custom_labels_no_dot by (intro split_on_join) auto
  moreover have "join ''.'' out \<noteq> []"
    using join_eq_Nil [of "''.''" out "hd out"] assms(2,3) by auto
  ultimately show ?thesis
    using assms by (cases out) (auto simp: is_custom_dns_name_def is_dns_label_iff list_all_iff)
qed

lemma is_dns_name_visible: "is_dns_name s \<Longrightarrow> c \<in> set s \<Longrightarrow> 33 \<le> code c \<and> code c < 128 \<and> \<not> is_upper c"
proof -
  assume s: "is_dns_name s" and c: "c \<in> set s"
  have "set s \<subseteq> {CHR ''.''} \<union> \<Union> (set ` set (split_on (CHR ''.'') s))"
  proof -
    have "set (join ''.'' ps) \<subseteq> {CHR ''.''} \<union> \<Union> (set ` set ps)" for ps
      by (induction "''.''" ps rule: join.induct) auto
    from this [of "split_on (CHR ''.'') s"] show ?thesis by (simp add: join_split_on)
  qed
  with c consider "c = CHR ''.''" | l where "l \<in> set (split_on (CHR ''.'') s)" "c \<in> set l" by auto
  then show ?thesis
  proof cases
    case 2
    with s have "label_ok l" by (auto simp: is_dns_name_def list_all_iff is_dns_label_iff)
    with 2 show ?thesis using label_char_ascii [of c] by (auto simp: label_ok_def list_all_iff)
  qed (simp add: is_upper_def)
qed

lemma is_dns_name_last: "is_dns_name s \<Longrightarrow> last s \<noteq> CHR ''.''"
proof
  assume s: "is_dns_name s" and l: "last s = CHR ''.''"
  then have ne: "s \<noteq> []" by (simp add: is_dns_name_def)
  with l have "s = butlast s @ [CHR ''.'']" by (metis append_butlast_last_id)
  moreover have "split_on c (t @ [c]) = split_on c t @ [[]]" for t c
    by (induction t) (auto split: list.splits)
  ultimately have "split_on (CHR ''.'') s = split_on (CHR ''.'') (butlast s) @ [[]]" by metis
  then have "[] \<in> set (split_on (CHR ''.'') s)" by simp
  with s show False by (auto simp: is_dns_name_def list_all_iff is_dns_label_iff)
qed

section \<open>Properties\<close>

text \<open>
  What a DNS label is. A string is a valid label exactly if it has 1 to 63 characters, all
  lower-case letters, digits and hyphens, with no hyphen at either end and no two in a row; and
  whatever text a label is derived from, the derived label is valid.
\<close>

theorem dns_label_valid:
  "(is_dns_label s \<longleftrightarrow> label_ok s) \<and> (case dns_label t of Some l \<Rightarrow> is_dns_label l | None \<Rightarrow> True)"
  using is_dns_label_iff dns_label_ok by (auto split: option.split)

text \<open>
  Normalising a custom name is stable. A name that \<open>normalize_custom_dns_name\<close> returns passes
  the check of the configuration and is returned unchanged when normalised again; a name that
  passes the check is its own normal form.
\<close>

theorem normalize_custom_stable:
  "case normalize_custom_dns_name input of
     Some name \<Rightarrow> is_custom_dns_name name \<and> normalize_custom_dns_name name = Some name
   | None \<Rightarrow> \<not> is_custom_dns_name input"
proof (cases "normalize_labels 0 (split_on (CHR ''.'') input)")
  case None
  have "\<not> is_custom_dns_name input"
  proof
    assume c: "is_custom_dns_name input"
    then have "normalize_labels 0 (split_on (CHR ''.'') input) = Some (split_on (CHR ''.'') input)"
      by (intro normalize_labels_fixed) (auto simp: is_custom_dns_name_def is_dns_label_iff list_all_iff split: list.splits)
    with None show False by simp
  qed
  with None show ?thesis by (simp add: normalize_custom_dns_name_def)
next
  case (Some out)
  note o = normalize_labels_Some(3) [OF Some split_on_nonempty]
  have "split_on (CHR ''.'') (join ''.'' out) = out"
    using o custom_labels_no_dot by (intro split_on_join) auto
  with o normalize_labels_fixed [of out] have "normalize_custom_dns_name (join ''.'' out) = Some (join ''.'' out)"
    by (simp add: normalize_custom_dns_name_def)
  moreover have "is_custom_dns_name (join ''.'' out)" using o by (intro is_custom_dns_name_join) auto
  ultimately show ?thesis using Some by (simp add: normalize_custom_dns_name_def)
qed

text \<open>
  Normalised CNAME targets are fixed points. The target that \<open>normalize_cname_target\<close> returns
  is a name of valid labels of at most 253 bytes, and normalising it again returns it, so a target
  stored by one operation is accepted when the configuration is validated.
\<close>

theorem normalize_cname_stable:
  "case normalize_cname_target input of
     Some t \<Rightarrow> is_dns_name t \<and> length t \<le> 253 \<and> normalize_cname_target t = Some t
   | None \<Rightarrow> True"
proof (cases "normalize_cname_target input")
  case (Some t)
  then have t: "is_dns_name t" "length t \<le> 253"
    by (auto simp: normalize_cname_target_def Let_def split: if_splits)
  have "trim t = t" using is_dns_name_visible [OF t(1)] by (intro trim_visible) (auto simp: ascii_def)
  moreover have "trim_end_matches (CHR ''.'') t = t"
    using is_dns_name_last [OF t(1)] by (intro trim_end_matches_id) auto
  moreover have "map ascii_lower t = t"
    using is_dns_name_visible [OF t(1)] by (auto simp: ascii_lower_def intro: map_idI)
  moreover have "t \<noteq> []" using t(1) by (simp add: is_dns_name_def)
  ultimately show ?thesis using Some t by (simp add: normalize_cname_target_def Let_def)
qed simp

text \<open>
  Member names are valid and never reserved. \<open>normalize_dns_name\<close> returns a valid label outside
  the reserved list, never \<open>host\<close> for a member, and returns the same label for its own result.
\<close>

theorem normalize_dns_name_safe:
  "case normalize_dns_name input for_host of
     Inr l \<Rightarrow> is_dns_label l \<and> l \<notin> set RESERVED_DNS_LABELS \<and> \<not> (\<not> for_host \<and> l = HOST_DNS_LABEL)
       \<and> normalize_dns_name l for_host = Inr l
   | Inl e \<Rightarrow> e = Empty_Name \<longleftrightarrow> dns_label input = None"
  by (auto simp: normalize_dns_name_def is_dns_label_iff label_ok_fixed split: option.splits
      dest: dns_label_ok)

end
