(* ===== verification/Base64.thy ===== *)
theory Base64
  imports Rust_Str
begin

text \<open>
  The codec of the invitation token. The crate \<^verbatim>\<open>base64\<close> (engine
  \<^verbatim>\<open>URL_SAFE_NO_PAD\<close>) is third party; \<open>Token\<close> takes the two functions as
  parameters and relies on the locale \<open>base64url\<close>: decoding undoes encoding, and the encoding is
  visible ASCII. The codec of RFC 4648 section 5 without padding satisfies it (interpretation
  \<open>rfc4648\<close>) and is the instance the witnesses use.
\<close>

locale base64url =
  fixes b64 :: "bytes \<Rightarrow> string"
    and unb64 :: "string \<Rightarrow> bytes option"
  assumes decode_encode: "unb64 (b64 bs) = Some bs"
    and alphabet: "c \<in> set (b64 bs) \<Longrightarrow> 33 \<le> code c \<and> code c < 128"
begin

lemma encode_inject: "b64 bs = b64 cs \<Longrightarrow> bs = cs"
  by (metis decode_encode option.inject)

lemma trim_encoded:
  assumes "ascii pre" and "\<forall>c \<in> set pre. 33 \<le> code c"
  shows "trim (pre @ b64 bs) = pre @ b64 bs"
  using assms alphabet by (intro trim_visible) (auto simp: ascii_def)

end

definition b64_char :: "nat \<Rightarrow> char" where
  "b64_char n =
     (if n < 26 then char_of (65 + n) else if n < 52 then char_of (71 + n)
      else if n < 62 then char_of (n - 4) else if n = 62 then CHR ''-'' else CHR ''_'')"

definition b64_val :: "char \<Rightarrow> nat option" where
  "b64_val c =
     (if is_upper c then Some (code c - 65) else if is_lower c then Some (code c - 71)
      else if is_digit c then Some (code c + 4) else if c = CHR ''-'' then Some 62
      else if c = CHR ''_'' then Some 63 else None)"

fun b64_groups :: "nat list \<Rightarrow> nat list" where
  "b64_groups [] = []"
| "b64_groups [a] = [a div 4, a mod 4 * 16]"
| "b64_groups [a, b] = [a div 4, a mod 4 * 16 + b div 16, b mod 16 * 4]"
| "b64_groups (a # b # c # r) =
     [a div 4, a mod 4 * 16 + b div 16, b mod 16 * 4 + c div 64, c mod 64] @ b64_groups r"

fun b64_ungroup :: "nat list \<Rightarrow> nat list option" where
  "b64_ungroup [] = Some []"
| "b64_ungroup [p] = None"
| "b64_ungroup [p, q] = (if q mod 16 = 0 then Some [p * 4 + q div 16] else None)"
| "b64_ungroup [p, q, r] =
     (if r mod 4 = 0 then Some [p * 4 + q div 16, q mod 16 * 16 + r div 4] else None)"
| "b64_ungroup (p # q # r # s # t) =
     map_option (\<lambda>bs. [p * 4 + q div 16, q mod 16 * 16 + r div 4, r mod 4 * 64 + s] @ bs) (b64_ungroup t)"

definition b64url_encode :: "bytes \<Rightarrow> string" where
  "b64url_encode bs = map b64_char (b64_groups (map unat bs))"

definition b64url_decode :: "string \<Rightarrow> bytes option" where
  "b64url_decode s =
     (if list_all (\<lambda>c. b64_val c \<noteq> None) s
      then map_option (map word_of_nat) (b64_ungroup (map (\<lambda>c. the (b64_val c)) s)) else None)"

lemma b64_val_char: "n < 64 \<Longrightarrow> b64_val (b64_char n) = Some n"
proof -
  assume n: "n < 64"
  consider "n < 26" | "26 \<le> n" "n < 52" | "52 \<le> n" "n < 62" | "n = 62" | "n = 63" using n by linarith
  then show ?thesis
    by cases (auto simp: b64_val_def b64_char_def is_upper_def is_lower_def is_digit_def)
qed

lemma b64_char_visible: "n < 64 \<Longrightarrow> 33 \<le> code (b64_char n) \<and> code (b64_char n) < 128"
  by (auto simp: b64_char_def)

lemma sextet: "a < 256 \<Longrightarrow> a div 4 < (64 :: nat)"
  by (simp add: div_less_iff_less_mult)

lemma quarter: "a < 256 \<Longrightarrow> a div 64 < (4 :: nat)" "a < 256 \<Longrightarrow> a div 16 < (16 :: nat)"
  by (simp_all add: div_less_iff_less_mult)

lemma b64_groups_lt: "\<forall>n \<in> set ns. n < 256 \<Longrightarrow> \<forall>m \<in> set (b64_groups ns). m < 64"
proof (induction ns rule: b64_groups.induct)
  case (2 a)
  have "a mod 4 * 16 < 64" by (simp add: mult.commute)
  with 2 show ?case by (simp add: sextet)
next
  case (3 a b)
  have "a mod 4 < 4" "b mod 16 < 16" by simp_all
  then have "a mod 4 * 16 + b div 16 < 64" "b mod 16 * 4 < 64"
    using 3 quarter(2) [of b] by (simp_all only: list.set ball_simps) linarith+
  with 3 show ?case by (simp add: sextet)
next
  case (4 a b c r)
  have "a mod 4 < 4" "b mod 16 < 16" by simp_all
  then have "a mod 4 * 16 + b div 16 < 64" "b mod 16 * 4 + c div 64 < 64"
    using 4 quarter(2) [of b] quarter(1) [of c] by (simp_all only: list.set ball_simps) linarith+
  with 4 show ?case by (simp add: sextet)
qed simp

lemma regroup:
  "a < 256 \<Longrightarrow> b div 16 < 16 \<Longrightarrow> a div 4 * 4 + (a mod 4 * 16 + b div 16) div 16 = (a :: nat)"
  "b div 16 < 16 \<Longrightarrow> c div 64 < 4 \<Longrightarrow> (a mod 4 * 16 + b div 16) mod 16 * 16 + (b mod 16 * 4 + c div 64) div 4 = (b :: nat)"
  "c div 64 < 4 \<Longrightarrow> (b mod 16 * 4 + c div 64) mod 4 * 64 + c mod 64 = (c :: nat)"
  by simp_all

lemma b64_ungroup_groups: "\<forall>n \<in> set ns. n < 256 \<Longrightarrow> b64_ungroup (b64_groups ns) = Some ns"
proof (induction ns rule: b64_groups.induct)
  case (3 a b)
  then have q: "b div 16 < 16" by (simp add: quarter)
  with 3 show ?case by simp
next
  case (4 a b c r)
  then have "b div 16 < 16" "c div 64 < 4" by (simp_all add: quarter)
  with 4 show ?case by (simp add: regroup)
qed simp_all

interpretation rfc4648: base64url b64url_encode b64url_decode
proof unfold_locales
  fix bs :: bytes and c
  have lt: "\<forall>n \<in> set (map unat bs). n < 256" by simp
  note g = b64_groups_lt [OF lt]
  have v: "map (\<lambda>c. the (b64_val c)) (map b64_char gs) = gs" "list_all (\<lambda>c. b64_val c \<noteq> None) (map b64_char gs)"
    if "\<forall>m \<in> set gs. m < 64" for gs
    using that by (induction gs) (simp_all add: b64_val_char)
  show "b64url_decode (b64url_encode bs) = Some bs"
    by (simp only: b64url_decode_def b64url_encode_def v [OF g] if_True b64_ungroup_groups [OF lt])
      (simp add: comp_def)
  show "c \<in> set (b64url_encode bs) \<Longrightarrow> 33 \<le> code c \<and> code c < 128"
    using g b64_char_visible by (auto simp: b64url_encode_def)
qed

end
