(* ===== verification/Token.thy ===== *)
theory Token
  imports Config_Types Names Base64
begin

text \<open>
  Invitation tokens, \<^verbatim>\<open>crates/peercove-core/src/token.rs\<close>: validation, the
  binary format of the versions 1 to 3, and the reader. The base64url codec is a parameter (an
  encoder and a decoder) under the laws of the locale \<open>base64url\<close>. The reader is a
  state of bytes and position, and \<open>rd_bind\<close> is the early return of \<^verbatim>\<open>?\<close>.
\<close>

section \<open>Tokens\<close>

definition TOKEN_PREFIX :: string where "TOKEN_PREFIX = ''pcv1.''"
definition INVITE_ID_LEN :: nat where "INVITE_ID_LEN = 16"
definition MAX_ENDPOINTS :: nat where "MAX_ENDPOINTS = 4"
definition MAX_NAME_LEN :: nat where "MAX_NAME_LEN = 64"
definition KEY_LEN :: nat where "KEY_LEN = 32"
definition FLAG_PSK :: u8 where "FLAG_PSK = 1"

record invite_token =
  tok_member_private_key :: bytes
  tok_host_public_key :: bytes
  tok_preshared_key :: "bytes option"
  tok_member_address :: ipv4net
  tok_host_virtual_ip :: ipv4
  tok_endpoints :: "(ipv4 \<times> u16) list"
  tok_name :: string
  tok_network :: "string option"
  tok_invite_id :: "string option"
  tok_issued_at :: "u64 option"
  tok_expires_at :: "u64 option"

datatype token_error =
    Bad_Endpoint_Count
  | Bad_Name_Length
  | Bad_Prefix
  | Bad_Network
  | Bad_Invite_Id
  | Bad_Expiry
  | Incomplete_Invite
  | Not_Pcv1
  | Not_Base64
  | Unsupported_Version u8
  | Bad_Ip_Prefix
  | Name_Not_Utf8
  | Network_Not_Utf8
  | Truncated
  | Trailing_Data

text \<open>Invite identifiers are 16 bytes, written as 32 hex digits.\<close>

fun chunks2 :: "string \<Rightarrow> (char \<times> char) list" where
  "chunks2 (a # b # s) = (a, b) # chunks2 s"
| "chunks2 _ = []"

definition encode_invite_id :: "bytes \<Rightarrow> string" where
  "encode_invite_id bs = concat (map (\<lambda>b. [hex_digit (unat b div 16), hex_digit (unat b mod 16)]) bs)"

definition decode_invite_id :: "string \<Rightarrow> token_error + bytes" where
  "decode_invite_id value =
     (if length value \<noteq> INVITE_ID_LEN * 2 \<or> \<not> list_all is_hexdigit value then Inl Bad_Invite_Id
      else Inr (map (\<lambda>(a, b). word_of_nat (hex_val a * 16 + hex_val b)) (chunks2 value)))"

definition validate_token :: "invite_token \<Rightarrow> token_error option" where
  "validate_token t =
     (if tok_endpoints t = [] \<or> MAX_ENDPOINTS < length (tok_endpoints t) then Some Bad_Endpoint_Count
      else if length (tok_name t) = 0 \<or> MAX_NAME_LEN < length (tok_name t) then Some Bad_Name_Length
      else if 30 < net_prefix (tok_member_address t) then Some Bad_Prefix
      else if (case tok_network t of Some n \<Rightarrow> \<not> is_dns_label n | None \<Rightarrow> False) then Some Bad_Network
      else case (tok_invite_id t, tok_issued_at t) of
          (Some invite, Some issued) \<Rightarrow>
            (case decode_invite_id invite of
               Inl e \<Rightarrow> Some e
             | Inr _ \<Rightarrow>
                 (case tok_expires_at t of
                    Some expires \<Rightarrow> if expires \<le> issued then Some Bad_Expiry else None
                  | None \<Rightarrow> None))
        | (None, None) \<Rightarrow> if tok_expires_at t = None then None else Some Incomplete_Invite
        | _ \<Rightarrow> Some Incomplete_Invite)"

section \<open>Encoding\<close>

definition token_version :: "invite_token \<Rightarrow> u8" where
  "token_version t = (if tok_invite_id t \<noteq> None then 3 else if tok_network t \<noteq> None then 2 else 1)"

definition endpoint_bytes :: "ipv4 \<times> u16 \<Rightarrow> bytes" where
  "endpoint_bytes = (\<lambda>(ip, port). octets ip @ to_be16 port)"

definition network_bytes :: "invite_token \<Rightarrow> bytes" where
  "network_bytes t =
     (case tok_network t of
        Some n \<Rightarrow> word_of_nat (length n) # str_bytes n
      | None \<Rightarrow> [])"

definition invite_bytes :: "invite_token \<Rightarrow> token_error + bytes" where
  "invite_bytes t =
     (case (tok_invite_id t, tok_issued_at t) of
        (Some invite, Some issued) \<Rightarrow>
          (case decode_invite_id invite of
             Inl e \<Rightarrow> Inl e
           | Inr idb \<Rightarrow>
               Inr ((if tok_network t = None then [0] else []) @ idb @ to_be64 issued
                    @ to_be64 (case tok_expires_at t of Some e \<Rightarrow> e | None \<Rightarrow> 0)))
      | _ \<Rightarrow> Inr [])"

definition psk_bytes :: "invite_token \<Rightarrow> bytes" where
  "psk_bytes t = (case tok_preshared_key t of Some psk \<Rightarrow> FLAG_PSK # psk | None \<Rightarrow> [0])"

definition token_bytes :: "invite_token \<Rightarrow> token_error + bytes" where
  "token_bytes t =
     (case validate_token t of
        Some e \<Rightarrow> Inl e
      | None \<Rightarrow>
          (case invite_bytes t of
             Inl e \<Rightarrow> Inl e
           | Inr meta \<Rightarrow>
               Inr ([token_version t] @ tok_member_private_key t @ tok_host_public_key t @ psk_bytes t
                    @ octets (net_addr (tok_member_address t))
                    @ [word_of_nat (net_prefix (tok_member_address t))]
                    @ octets (tok_host_virtual_ip t)
                    @ [word_of_nat (length (tok_endpoints t))]
                    @ concat (map endpoint_bytes (tok_endpoints t))
                    @ [word_of_nat (length (tok_name t))] @ str_bytes (tok_name t)
                    @ network_bytes t @ meta)))"

definition encode_token :: "(bytes \<Rightarrow> string) \<Rightarrow> invite_token \<Rightarrow> token_error + string" where
  "encode_token b64 t =
     (case token_bytes t of Inl e \<Rightarrow> Inl e | Inr buf \<Rightarrow> Inr (TOKEN_PREFIX @ b64 buf))"

section \<open>The reader\<close>

record reader =
  rd_bytes :: bytes
  rd_pos :: nat

type_synonym 'a read = "reader \<Rightarrow> token_error + 'a \<times> reader"

definition rd_bind :: "'a read \<Rightarrow> ('a \<Rightarrow> 'b read) \<Rightarrow> 'b read" where
  "rd_bind m f r = (case m r of Inl e \<Rightarrow> Inl e | Inr (a, r') \<Rightarrow> f a r')"

definition rd_return :: "'a \<Rightarrow> 'a read" where
  "rd_return a r = Inr (a, r)"

definition rd_fail :: "token_error \<Rightarrow> 'a read" where
  "rd_fail e r = Inl e"

definition rd_take :: "nat \<Rightarrow> bytes read" where
  "rd_take len r =
     (let end_pos = rd_pos r + len
      in if end_pos \<le> length (rd_bytes r)
         then Inr (take len (drop (rd_pos r) (rd_bytes r)), r\<lparr>rd_pos := end_pos\<rparr>)
         else Inl Truncated)"

definition rd_u8 :: "u8 read" where
  "rd_u8 = rd_bind (rd_take 1) (\<lambda>bs. rd_return (bs ! 0))"

definition rd_key :: "bytes read" where
  "rd_key = rd_take KEY_LEN"

definition rd_ipv4 :: "ipv4 read" where
  "rd_ipv4 = rd_bind (rd_take 4) (\<lambda>b. rd_return (ipv4_new (b ! 0) (b ! 1) (b ! 2) (b ! 3)))"

definition rd_u16 :: "u16 read" where
  "rd_u16 = rd_bind (rd_take 2) (\<lambda>b. rd_return (be16 (b ! 0) (b ! 1)))"

definition rd_u64 :: "u64 read" where
  "rd_u64 = rd_bind (rd_take 8) (\<lambda>b. rd_return (from_be64 b))"

definition rd_string :: "nat \<Rightarrow> token_error \<Rightarrow> string read" where
  "rd_string len e = rd_bind (rd_take len) (\<lambda>b. case from_utf8 b of Some s \<Rightarrow> rd_return s | None \<Rightarrow> rd_fail e)"

fun rd_endpoints :: "nat \<Rightarrow> (ipv4 \<times> u16) list read" where
  "rd_endpoints 0 = rd_return []"
| "rd_endpoints (Suc n) =
     rd_bind rd_ipv4 (\<lambda>ip. rd_bind rd_u16 (\<lambda>port.
       rd_bind (rd_endpoints n) (\<lambda>eps. rd_return ((ip, port) # eps))))"

definition rd_psk :: "bytes option read" where
  "rd_psk = rd_bind rd_u8 (\<lambda>flags.
     if and flags FLAG_PSK \<noteq> 0 then rd_bind rd_key (\<lambda>k. rd_return (Some k)) else rd_return None)"

definition rd_member_address :: "ipv4net read" where
  "rd_member_address = rd_bind rd_ipv4 (\<lambda>ip. rd_bind rd_u8 (\<lambda>prefix.
     if 32 < unat prefix then rd_fail Bad_Ip_Prefix
     else rd_return \<lparr>net_addr = ip, net_prefix = unat prefix\<rparr>))"

definition rd_network :: "u8 \<Rightarrow> string option read" where
  "rd_network version =
     (if 2 \<le> version then
        rd_bind rd_u8 (\<lambda>len. rd_bind (rd_string (unat len) Network_Not_Utf8) (\<lambda>text.
          rd_return (if text \<noteq> [] then Some text else None)))
      else rd_return None)"

definition rd_invite :: "u8 \<Rightarrow> (string option \<times> u64 option \<times> u64 option) read" where
  "rd_invite version =
     (if 3 \<le> version then
        rd_bind (rd_take INVITE_ID_LEN) (\<lambda>idb. rd_bind rd_u64 (\<lambda>issued. rd_bind rd_u64 (\<lambda>expires.
          rd_return (Some (encode_invite_id idb), Some issued, if expires \<noteq> 0 then Some expires else None))))
      else rd_return (None, None, None))"

definition rd_token :: "invite_token read" where
  "rd_token =
     rd_bind rd_u8 (\<lambda>version.
       if version \<noteq> 1 \<and> version \<noteq> 2 \<and> version \<noteq> 3 then rd_fail (Unsupported_Version version) else
       rd_bind rd_key (\<lambda>private_key. rd_bind rd_key (\<lambda>host_key. rd_bind rd_psk (\<lambda>psk.
       rd_bind rd_member_address (\<lambda>address. rd_bind rd_ipv4 (\<lambda>host_ip. rd_bind rd_u8 (\<lambda>count.
       if unat count = 0 \<or> MAX_ENDPOINTS < unat count then rd_fail Bad_Endpoint_Count else
       rd_bind (rd_endpoints (unat count)) (\<lambda>endpoints. rd_bind rd_u8 (\<lambda>name_len.
       rd_bind (rd_string (unat name_len) Name_Not_Utf8) (\<lambda>name. rd_bind (rd_network version) (\<lambda>network.
       rd_bind (rd_invite version) (\<lambda>(invite, issued, expires).
         rd_return \<lparr>tok_member_private_key = private_key, tok_host_public_key = host_key,
           tok_preshared_key = psk, tok_member_address = address, tok_host_virtual_ip = host_ip,
           tok_endpoints = endpoints, tok_name = name, tok_network = network,
           tok_invite_id = invite, tok_issued_at = issued, tok_expires_at = expires\<rparr>))))))))))))"

definition rd_finish :: "reader \<Rightarrow> token_error option" where
  "rd_finish r = (if rd_pos r = length (rd_bytes r) then None else Some Trailing_Data)"

definition parse_token_bytes :: "bytes \<Rightarrow> token_error + invite_token" where
  "parse_token_bytes bs =
     (case rd_token \<lparr>rd_bytes = bs, rd_pos = 0\<rparr> of
        Inl e \<Rightarrow> Inl e
      | Inr (t, r) \<Rightarrow>
          (case rd_finish r of
             Some e \<Rightarrow> Inl e
           | None \<Rightarrow> (case validate_token t of Some e \<Rightarrow> Inl e | None \<Rightarrow> Inr t)))"

definition parse_token :: "(string \<Rightarrow> bytes option) \<Rightarrow> string \<Rightarrow> token_error + invite_token" where
  "parse_token unb64 text0 =
     (case strip_prefix TOKEN_PREFIX (trim text0) of
        None \<Rightarrow> Inl Not_Pcv1
      | Some body \<Rightarrow>
          (case unb64 body of
             None \<Rightarrow> Inl Not_Base64
           | Some bs \<Rightarrow> parse_token_bytes bs))"

section \<open>Reading back what was written\<close>

text \<open>
  \<open>reads m xs a\<close>: wherever the reader stands in front of the bytes \<open>xs\<close>, \<open>m\<close> yields \<open>a\<close> and stops
  behind them.
\<close>

definition reads :: "'a read \<Rightarrow> bytes \<Rightarrow> 'a \<Rightarrow> bool" where
  "reads m xs a \<longleftrightarrow> (\<forall>pre post. m \<lparr>rd_bytes = pre @ xs @ post, rd_pos = length pre\<rparr> =
     Inr (a, \<lparr>rd_bytes = pre @ xs @ post, rd_pos = length pre + length xs\<rparr>))"

lemma reads_return: "reads (rd_return a) [] a"
  by (simp add: reads_def rd_return_def)

lemma reads_bind:
  assumes "reads m xs a" and "reads (f a) ys b"
  shows "reads (rd_bind m f) (xs @ ys) b"
  unfolding reads_def
proof (intro allI)
  fix pre post
  have "m \<lparr>rd_bytes = pre @ (xs @ ys) @ post, rd_pos = length pre\<rparr> =
      Inr (a, \<lparr>rd_bytes = (pre @ xs) @ ys @ post, rd_pos = length (pre @ xs)\<rparr>)"
    using assms(1) [unfolded reads_def, rule_format, of pre "ys @ post"] by simp
  moreover have "f a \<lparr>rd_bytes = (pre @ xs) @ ys @ post, rd_pos = length (pre @ xs)\<rparr> =
      Inr (b, \<lparr>rd_bytes = (pre @ xs) @ ys @ post, rd_pos = length (pre @ xs) + length ys\<rparr>)"
    using assms(2) unfolding reads_def by blast
  ultimately show "rd_bind m f \<lparr>rd_bytes = pre @ (xs @ ys) @ post, rd_pos = length pre\<rparr> =
      Inr (b, \<lparr>rd_bytes = pre @ (xs @ ys) @ post, rd_pos = length pre + length (xs @ ys)\<rparr>)"
    by (simp add: rd_bind_def)
qed

lemma reads_bind_return: "reads m xs a \<Longrightarrow> f a = rd_return b \<Longrightarrow> reads (rd_bind m f) xs b"
  using reads_bind [of m xs a f "[]" b] reads_return [of b] by simp

lemma reads_take: "length xs = n \<Longrightarrow> reads (rd_take n) xs xs"
  by (simp add: reads_def rd_take_def Let_def)

lemma reads_u8: "reads rd_u8 [b] b"
  unfolding rd_u8_def by (rule reads_bind_return [OF reads_take]) simp_all

lemma reads_ipv4: "reads rd_ipv4 (octets ip) ip"
  unfolding rd_ipv4_def by (rule reads_bind_return [OF reads_take]) (simp_all only: ipv4_new_octets length_octets)

lemma reads_u16: "reads rd_u16 (to_be16 p) p"
  unfolding rd_u16_def by (rule reads_bind_return [OF reads_take]) (simp_all add: to_be16_def)

lemma reads_u64: "reads rd_u64 (to_be64 w) w"
  unfolding rd_u64_def by (rule reads_bind_return [OF reads_take]) simp_all

lemma reads_string:
  assumes "utf8_valid s"
  shows "reads (rd_string (length s) e) (str_bytes s) s"
  unfolding rd_string_def
  by (rule reads_bind_return [OF reads_take]) (simp_all add: from_utf8_str_bytes assms)

lemma reads_endpoints: "reads (rd_endpoints (length eps)) (concat (map endpoint_bytes eps)) eps"
proof (induction eps)
  case (Cons ep eps)
  obtain ip port where ep: "ep = (ip, port)" by (cases ep)
  have "reads (rd_endpoints (Suc (length eps)))
      (octets ip @ to_be16 port @ concat (map endpoint_bytes eps)) ((ip, port) # eps)"
    unfolding rd_endpoints.simps
    by (rule reads_bind [OF reads_ipv4], rule reads_bind [OF reads_u16],
        rule reads_bind_return [OF Cons.IH], rule refl)
  then show ?case by (simp add: ep endpoint_bytes_def)
qed (simp add: reads_return)

lemma small_u8: "n \<le> 64 \<Longrightarrow> unat (word_of_nat n :: u8) = n"
  by (rule unat_of_nat_u8) simp

lemma reads_psk:
  assumes "\<forall>k. tok_preshared_key t = Some k \<longrightarrow> length k = KEY_LEN"
  shows "reads rd_psk (psk_bytes t) (tok_preshared_key t)"
proof (cases "tok_preshared_key t")
  case None
  then show ?thesis unfolding rd_psk_def psk_bytes_def
    by (simp add: FLAG_PSK_def) (rule reads_bind_return [OF reads_u8], simp)
next
  case (Some k)
  then have "reads rd_key k k" using assms by (simp add: rd_key_def reads_take)
  then have "reads rd_psk ([FLAG_PSK] @ k) (Some k)"
    unfolding rd_psk_def
    by (intro reads_bind [OF reads_u8]) (simp add: FLAG_PSK_def reads_bind_return)
  with Some show ?thesis by (simp add: psk_bytes_def)
qed

lemma reads_member_address:
  assumes "net_prefix N \<le> 32"
  shows "reads rd_member_address (octets (net_addr N) @ [word_of_nat (net_prefix N)]) N"
proof -
  have "unat (word_of_nat (net_prefix N) :: u8) = net_prefix N" using assms by (intro small_u8) simp
  then show ?thesis unfolding rd_member_address_def
    by (intro reads_bind [OF reads_ipv4] reads_bind_return [OF reads_u8])
      (use assms in \<open>cases N, simp del: unsigned_of_nat\<close>)
qed

lemma is_dns_label_facts: "is_dns_label n \<Longrightarrow> n \<noteq> [] \<and> length n \<le> 63 \<and> utf8_valid n"
  using label_char_ascii
  by (auto simp: is_dns_label_iff label_ok_def MAX_LABEL_LEN_def list_all_iff ascii_def
      intro!: ascii_utf8_valid)

lemma reads_network_Some:
  assumes "is_dns_label n" and "2 \<le> version"
  shows "reads (rd_network version) (word_of_nat (length n) # str_bytes n) (Some n)"
proof -
  note f = is_dns_label_facts [OF assms(1)]
  have u: "unat (word_of_nat (length n) :: u8) = length n" using f by (intro small_u8) simp
  have "reads (rd_network version) ([word_of_nat (length n)] @ str_bytes n) (Some n)"
    unfolding rd_network_def using assms(2) f
    by (simp only: if_True) (intro reads_bind [OF reads_u8] reads_bind_return [of _ _ n],
      simp_all only: u reads_string, simp)
  then show ?thesis by simp
qed

lemma reads_network_empty: "2 \<le> version \<Longrightarrow> reads (rd_network version) [0] None"
proof -
  have e: "reads (rd_string 0 Network_Not_Utf8) [] []"
    using reads_string [of "[]"] by (simp add: utf8_valid_def str_bytes_def)
  assume "2 \<le> version"
  then have "reads (rd_network version) ([0] @ []) None"
    unfolding rd_network_def
    by (simp only: if_True) (intro reads_bind [OF reads_u8], simp, intro reads_bind_return [OF e], simp)
  then show ?thesis by simp
qed

lemma hex_byte:
  assumes "is_hexdigit a" and "is_hexdigit b"
  shows "unat (word_of_nat (hex_val a * 16 + hex_val b) :: u8) = hex_val a * 16 + hex_val b"
    and "(hex_val a * 16 + hex_val b) div 16 = hex_val a"
    and "(hex_val a * 16 + hex_val b) mod 16 = hex_val b"
proof -
  have "hex_val a < 16" "hex_val b < 16" using assms hex_val_lt by blast+
  then show "unat (word_of_nat (hex_val a * 16 + hex_val b) :: u8) = hex_val a * 16 + hex_val b"
    and "(hex_val a * 16 + hex_val b) div 16 = hex_val a"
    and "(hex_val a * 16 + hex_val b) mod 16 = hex_val b"
    by (intro unat_of_nat_u8, auto)
qed

lemma chunks2_encode:
  "even (length v) \<Longrightarrow> list_all is_hexdigit v \<Longrightarrow>
    encode_invite_id (map (\<lambda>(a, b). word_of_nat (hex_val a * 16 + hex_val b)) (chunks2 v)) = map ascii_lower v
    \<and> length (chunks2 v) = length v div 2"
proof (induction v rule: chunks2.induct)
  case (1 a b v)
  then have h: "is_hexdigit a" "is_hexdigit b" by simp_all
  from 1 hex_val_lt [OF h(2)] show ?case
    by (simp add: encode_invite_id_def hex_byte [OF h] hex_digit_hex_val h
        del: unsigned_of_nat of_nat_add of_nat_mult)
qed (simp_all add: encode_invite_id_def)

lemma decode_invite_id_Inr:
  assumes "decode_invite_id v = Inr bs"
  shows "length bs = INVITE_ID_LEN" and "encode_invite_id bs = map ascii_lower v"
    and "length v = 32" and "list_all is_hexdigit v"
  using assms chunks2_encode [of v] by (auto simp: decode_invite_id_def INVITE_ID_LEN_def split: if_splits)

lemma hex_digit_lower: "n < 16 \<Longrightarrow> ascii_lower (hex_digit n) = hex_digit n"
  using hex_digit_hex_val [of "hex_digit n"] by simp

lemma decode_encode_invite_id:
  assumes "length bs = INVITE_ID_LEN"
  shows "decode_invite_id (encode_invite_id bs) = Inr bs"
proof -
  have u: "unat (b :: u8) div 16 < 16" for b
    using unat_u8_lt [of b] by (simp add: div_less_iff_less_mult)
  have c: "chunks2 (encode_invite_id bs) = map (\<lambda>b. (hex_digit (unat b div 16), hex_digit (unat b mod 16))) bs" for bs
    by (induction bs) (simp_all add: encode_invite_id_def)
  have l: "length (encode_invite_id bs) = length bs * 2" for bs
    by (induction bs) (simp_all add: encode_invite_id_def)
  have h: "list_all is_hexdigit (encode_invite_id bs)" for bs
    by (induction bs) (simp_all add: encode_invite_id_def u)
  have "map (\<lambda>(a, b). word_of_nat (hex_val a * 16 + hex_val b)) (chunks2 (encode_invite_id bs)) = bs"
    by (simp add: c u comp_def del: of_nat_add of_nat_mult)
  with l h assms show ?thesis by (simp add: decode_invite_id_def)
qed

section \<open>Well-formed tokens\<close>

text \<open>What the types of the program guarantee: key lengths, UTF-8, prefix lengths.\<close>

definition token_typed :: "invite_token \<Rightarrow> bool" where
  "token_typed t \<longleftrightarrow> length (tok_member_private_key t) = KEY_LEN \<and> length (tok_host_public_key t) = KEY_LEN
     \<and> (case tok_preshared_key t of Some k \<Rightarrow> length k = KEY_LEN | None \<Rightarrow> True)
     \<and> utf8_valid (tok_name t)"

text \<open>The identifier comes back in lower case.\<close>

definition canonical_token :: "invite_token \<Rightarrow> invite_token" where
  "canonical_token t = t\<lparr>tok_invite_id := map_option (map ascii_lower) (tok_invite_id t)\<rparr>"

lemma validate_token_None:
  assumes "validate_token t = None"
  shows "tok_endpoints t \<noteq> []" and "length (tok_endpoints t) \<le> 4"
    and "tok_name t \<noteq> []" and "length (tok_name t) \<le> 64" and "net_prefix (tok_member_address t) \<le> 30"
    and "tok_network t = Some n \<Longrightarrow> is_dns_label n"
    and "(tok_invite_id t = None \<and> tok_issued_at t = None \<and> tok_expires_at t = None) \<or>
      (\<exists>v bs i. tok_invite_id t = Some v \<and> decode_invite_id v = Inr bs \<and> tok_issued_at t = Some i
         \<and> (\<forall>e. tok_expires_at t = Some e \<longrightarrow> i < e))"
  using assms
  by (auto simp: validate_token_def MAX_ENDPOINTS_def MAX_NAME_LEN_def not_le
      split: if_splits option.splits sum.splits)

lemma reads_invite:
  assumes "validate_token t = None" and "invite_bytes t = Inr meta"
  shows "\<exists>net_part invite_part. network_bytes t @ meta = net_part @ invite_part
    \<and> reads (rd_network (token_version t)) net_part (tok_network t)
    \<and> reads (rd_invite (token_version t)) invite_part
        (map_option (map ascii_lower) (tok_invite_id t), tok_issued_at t, tok_expires_at t)"
proof -
  note V = validate_token_None [OF assms(1)]
  from V(7) show ?thesis
  proof (elim disjE exE conjE)
    assume n: "tok_invite_id t = None" "tok_issued_at t = None" "tok_expires_at t = None"
    then have meta: "meta = []" using assms(2) by (simp add: invite_bytes_def)
    have v: "token_version t = (if tok_network t = None then 1 else 2)" using n by (simp add: token_version_def)
    have "reads (rd_network (token_version t)) (network_bytes t) (tok_network t)"
    proof (cases "tok_network t")
      case (Some m)
      then show ?thesis using reads_network_Some [OF V(6) [OF Some], of 2]
        by (simp add: v network_bytes_def)
    qed (simp add: v network_bytes_def rd_network_def reads_return word_le_nat_alt)
    moreover have "reads (rd_invite (token_version t)) [] (None, None, None)"
      by (simp add: v rd_invite_def reads_return word_le_nat_alt)
    ultimately show ?thesis using n meta by (intro exI [of _ "network_bytes t"] exI [of _ "[]"]) simp
  next
    fix v bs i
    assume a: "tok_invite_id t = Some v" "decode_invite_id v = Inr bs" "tok_issued_at t = Some i"
      "\<forall>e. tok_expires_at t = Some e \<longrightarrow> i < e"
    let ?e = "case tok_expires_at t of Some e \<Rightarrow> e | None \<Rightarrow> 0"
    let ?tail = "bs @ to_be64 i @ to_be64 ?e"
    have v3: "token_version t = 3" using a by (simp add: token_version_def)
    have meta: "meta = (if tok_network t = None then [0] else []) @ ?tail"
      using assms(2) a by (simp add: invite_bytes_def)
    note D = decode_invite_id_Inr [OF a(2)]
    have exp: "(if ?e \<noteq> 0 then Some ?e else None) = tok_expires_at t"
      using a(4) by (auto split: option.splits)
    have "reads (rd_invite 3) (bs @ to_be64 i @ to_be64 ?e)
        (Some (encode_invite_id bs), Some i, if ?e \<noteq> 0 then Some ?e else None)"
      unfolding rd_invite_def
      by (simp only: if_True order_refl, rule reads_bind [OF reads_take [OF D(1)]],
          rule reads_bind [OF reads_u64], rule reads_bind_return [OF reads_u64], rule refl)
    then have tail: "reads (rd_invite 3) ?tail
        (map_option (map ascii_lower) (tok_invite_id t), tok_issued_at t, tok_expires_at t)"
      by (simp only: exp D(2) a option.map)
    show ?thesis
    proof (cases "tok_network t")
      case None
      with tail meta v3 show ?thesis
        by (intro exI [of _ "[0]"] exI [of _ ?tail]) (simp add: network_bytes_def reads_network_empty)
    next
      case (Some m)
      with tail meta v3 reads_network_Some [OF V(6) [OF Some], of 3] show ?thesis
        by (intro exI [of _ "network_bytes t"] exI [of _ ?tail]) (simp add: network_bytes_def)
    qed
  qed
qed

lemma canonical_token_alt:
  "canonical_token t = \<lparr>tok_member_private_key = tok_member_private_key t,
     tok_host_public_key = tok_host_public_key t, tok_preshared_key = tok_preshared_key t,
     tok_member_address = tok_member_address t, tok_host_virtual_ip = tok_host_virtual_ip t,
     tok_endpoints = tok_endpoints t, tok_name = tok_name t, tok_network = tok_network t,
     tok_invite_id = map_option (map ascii_lower) (tok_invite_id t),
     tok_issued_at = tok_issued_at t, tok_expires_at = tok_expires_at t\<rparr>"
  by (cases t) (simp add: canonical_token_def)

lemma reads_token:
  assumes "token_typed t" and "token_bytes t = Inr buf"
  shows "reads rd_token buf (canonical_token t)"
proof -
  from assms(2) obtain meta where v: "validate_token t = None" and m: "invite_bytes t = Inr meta"
    and buf: "buf = [token_version t] @ tok_member_private_key t @ tok_host_public_key t @ psk_bytes t
       @ (octets (net_addr (tok_member_address t)) @ [word_of_nat (net_prefix (tok_member_address t))])
       @ octets (tok_host_virtual_ip t) @ [word_of_nat (length (tok_endpoints t))]
       @ concat (map endpoint_bytes (tok_endpoints t)) @ [word_of_nat (length (tok_name t))]
       @ str_bytes (tok_name t) @ (network_bytes t @ meta)"
    by (auto simp: token_bytes_def split: option.splits sum.splits)
  note V = validate_token_None [OF v]
  obtain np ip where ni: "network_bytes t @ meta = np @ ip"
    "reads (rd_network (token_version t)) np (tok_network t)"
    "reads (rd_invite (token_version t)) ip
        (map_option (map ascii_lower) (tok_invite_id t), tok_issued_at t, tok_expires_at t)"
    using reads_invite [OF v m] by blast
  have ver: "\<not> (token_version t \<noteq> 1 \<and> token_version t \<noteq> 2 \<and> token_version t \<noteq> 3)"
    by (simp add: token_version_def)
  have c: "unat (word_of_nat (length (tok_endpoints t)) :: u8) = length (tok_endpoints t)"
    using V(2) by (intro small_u8) simp
  have n: "unat (word_of_nat (length (tok_name t)) :: u8) = length (tok_name t)"
    using V(4) by (intro small_u8)
  have cnt: "\<not> (length (tok_endpoints t) = 0 \<or> MAX_ENDPOINTS < length (tok_endpoints t))"
    using V(1,2) by (simp add: MAX_ENDPOINTS_def)
  have keys: "reads rd_key (tok_member_private_key t) (tok_member_private_key t)"
    "reads rd_key (tok_host_public_key t) (tok_host_public_key t)"
    "reads rd_psk (psk_bytes t) (tok_preshared_key t)"
    using assms(1) by (auto simp: token_typed_def rd_key_def intro!: reads_take reads_psk)
  have addr: "reads rd_member_address (octets (net_addr (tok_member_address t)) @
      [word_of_nat (net_prefix (tok_member_address t))]) (tok_member_address t)"
    using V(5) by (intro reads_member_address) simp
  have name: "reads (rd_string (length (tok_name t)) Name_Not_Utf8) (str_bytes (tok_name t)) (tok_name t)"
    using assms(1) by (intro reads_string) (simp add: token_typed_def)
  show ?thesis unfolding buf rd_token_def ni(1)
    apply (rule reads_bind [OF reads_u8])
    apply (simp only: ver if_False)
    apply (rule reads_bind [OF keys(1)], rule reads_bind [OF keys(2)], rule reads_bind [OF keys(3)])
    apply (rule reads_bind [OF addr], rule reads_bind [OF reads_ipv4], rule reads_bind [OF reads_u8])
    apply (simp only: c cnt if_False)
    apply (rule reads_bind [OF reads_endpoints], rule reads_bind [OF reads_u8])
    apply (simp only: n)
    apply (rule reads_bind [OF name], rule reads_bind [OF ni(2)])
    apply (rule reads_bind_return [OF ni(3)])
    apply (simp add: canonical_token_alt)
    done
qed

lemma validate_canonical: "validate_token t = None \<Longrightarrow> validate_token (canonical_token t) = None"
proof -
  assume v: "validate_token t = None"
  have "\<exists>b. decode_invite_id (map ascii_lower s) = Inr b" if "decode_invite_id s = Inr bs" for s bs
    using decode_encode_invite_id [OF decode_invite_id_Inr(1) [OF that]] decode_invite_id_Inr(2) [OF that]
    by auto
  with v show ?thesis
    by (fastforce simp: validate_token_def canonical_token_def split: if_splits option.splits sum.splits)
qed

lemma parse_token_bytes_roundtrip:
  assumes "token_typed t" and "token_bytes t = Inr buf"
  shows "parse_token_bytes buf = Inr (canonical_token t)"
proof -
  have "validate_token t = None" using assms(2) by (auto simp: token_bytes_def split: option.splits)
  moreover have "rd_token \<lparr>rd_bytes = buf, rd_pos = 0\<rparr> =
      Inr (canonical_token t, \<lparr>rd_bytes = buf, rd_pos = length buf\<rparr>)"
    using reads_token [OF assms, unfolded reads_def, rule_format, of "[]" "[]"] by simp
  ultimately show ?thesis by (simp add: parse_token_bytes_def rd_finish_def validate_canonical)
qed

section \<open>The reader looks at nothing else\<close>

text \<open>
  \<open>tight m\<close>: a successful read depends only on the bytes up to the position it stops at, and fails
  as truncated if the input ends before that position.
\<close>

definition tight :: "'a read \<Rightarrow> bool" where
  "tight m \<longleftrightarrow> (\<forall>bs p a r. m \<lparr>rd_bytes = bs, rd_pos = p\<rparr> = Inr (a, r) \<longrightarrow> p \<le> length bs \<longrightarrow>
     (\<exists>q. r = \<lparr>rd_bytes = bs, rd_pos = q\<rparr> \<and> p \<le> q \<and> q \<le> length bs
        \<and> (\<forall>cs. m \<lparr>rd_bytes = take q bs @ cs, rd_pos = p\<rparr> = Inr (a, \<lparr>rd_bytes = take q bs @ cs, rd_pos = q\<rparr>))
        \<and> (\<forall>n. p \<le> n \<longrightarrow> n < q \<longrightarrow> m \<lparr>rd_bytes = take n bs, rd_pos = p\<rparr> = Inl Truncated)))"

lemma tightI:
  assumes "\<And>bs p a r. m \<lparr>rd_bytes = bs, rd_pos = p\<rparr> = Inr (a, r) \<Longrightarrow> p \<le> length bs \<Longrightarrow>
     \<exists>q. r = \<lparr>rd_bytes = bs, rd_pos = q\<rparr> \<and> p \<le> q \<and> q \<le> length bs
        \<and> (\<forall>cs. m \<lparr>rd_bytes = take q bs @ cs, rd_pos = p\<rparr> = Inr (a, \<lparr>rd_bytes = take q bs @ cs, rd_pos = q\<rparr>))
        \<and> (\<forall>n. p \<le> n \<longrightarrow> n < q \<longrightarrow> m \<lparr>rd_bytes = take n bs, rd_pos = p\<rparr> = Inl Truncated)"
  shows "tight m"
  unfolding tight_def using assms by blast

lemma tightE:
  assumes "tight m" and "m \<lparr>rd_bytes = bs, rd_pos = p\<rparr> = Inr (a, r)" and "p \<le> length bs"
  obtains q where "r = \<lparr>rd_bytes = bs, rd_pos = q\<rparr>" and "p \<le> q" and "q \<le> length bs"
    and "\<And>cs. m \<lparr>rd_bytes = take q bs @ cs, rd_pos = p\<rparr> = Inr (a, \<lparr>rd_bytes = take q bs @ cs, rd_pos = q\<rparr>)"
    and "\<And>n. p \<le> n \<Longrightarrow> n < q \<Longrightarrow> m \<lparr>rd_bytes = take n bs, rd_pos = p\<rparr> = Inl Truncated"
  using assms unfolding tight_def by blast

lemma rd_bind_Inr:
  "rd_bind m f r = Inr (b, r'') \<longleftrightarrow> (\<exists>a r'. m r = Inr (a, r') \<and> f a r' = Inr (b, r''))"
  by (auto simp: rd_bind_def split: sum.splits)

lemma tight_bind:
  assumes m: "tight m" and f: "\<And>a. tight (f a)"
  shows "tight (rd_bind m f)"
proof (rule tightI)
  fix bs p b r
  assume "rd_bind m f \<lparr>rd_bytes = bs, rd_pos = p\<rparr> = Inr (b, r)" and p: "p \<le> length bs"
  then obtain a r1 where 1: "m \<lparr>rd_bytes = bs, rd_pos = p\<rparr> = Inr (a, r1)" and 2: "f a r1 = Inr (b, r)"
    by (auto simp: rd_bind_Inr)
  obtain q1 where q1: "r1 = \<lparr>rd_bytes = bs, rd_pos = q1\<rparr>" "p \<le> q1" "q1 \<le> length bs"
    and m1: "\<And>cs. m \<lparr>rd_bytes = take q1 bs @ cs, rd_pos = p\<rparr> = Inr (a, \<lparr>rd_bytes = take q1 bs @ cs, rd_pos = q1\<rparr>)"
    and m2: "\<And>n. p \<le> n \<Longrightarrow> n < q1 \<Longrightarrow> m \<lparr>rd_bytes = take n bs, rd_pos = p\<rparr> = Inl Truncated"
    by (rule tightE [OF m 1 p]) (rule that)
  obtain q where q: "r = \<lparr>rd_bytes = bs, rd_pos = q\<rparr>" "q1 \<le> q" "q \<le> length bs"
    and f1: "\<And>cs. f a \<lparr>rd_bytes = take q bs @ cs, rd_pos = q1\<rparr> = Inr (b, \<lparr>rd_bytes = take q bs @ cs, rd_pos = q\<rparr>)"
    and f2: "\<And>n. q1 \<le> n \<Longrightarrow> n < q \<Longrightarrow> f a \<lparr>rd_bytes = take n bs, rd_pos = q1\<rparr> = Inl Truncated"
    by (rule tightE [OF f 2 [unfolded q1(1)] q1(3)]) (rule that)
  have sp: "take n bs = take q1 bs @ drop q1 (take n bs)" if "q1 \<le> n" for n
    using that by (metis append_take_drop_id min_absorb1 take_take)
  have m1n: "m \<lparr>rd_bytes = take n bs @ cs, rd_pos = p\<rparr> = Inr (a, \<lparr>rd_bytes = take n bs @ cs, rd_pos = q1\<rparr>)"
    if "q1 \<le> n" for n cs
    using m1 [of "drop q1 (take n bs) @ cs"] sp [OF that] by (metis append_assoc)
  have "rd_bind m f \<lparr>rd_bytes = take q bs @ cs, rd_pos = p\<rparr> = Inr (b, \<lparr>rd_bytes = take q bs @ cs, rd_pos = q\<rparr>)" for cs
    by (simp only: rd_bind_def m1n [OF q(2)] f1 sum.case prod.case)
  moreover have "rd_bind m f \<lparr>rd_bytes = take n bs, rd_pos = p\<rparr> = Inl Truncated" if "p \<le> n" "n < q" for n
  proof (cases "n < q1")
    case True
    with m2 that show ?thesis by (simp add: rd_bind_def)
  next
    case False
    with m1n [of n "[]"] f2 [of n] that show ?thesis by (simp add: rd_bind_def)
  qed
  ultimately show "\<exists>q. r = \<lparr>rd_bytes = bs, rd_pos = q\<rparr> \<and> p \<le> q \<and> q \<le> length bs
        \<and> (\<forall>cs. rd_bind m f \<lparr>rd_bytes = take q bs @ cs, rd_pos = p\<rparr> = Inr (b, \<lparr>rd_bytes = take q bs @ cs, rd_pos = q\<rparr>))
        \<and> (\<forall>n. p \<le> n \<longrightarrow> n < q \<longrightarrow> rd_bind m f \<lparr>rd_bytes = take n bs, rd_pos = p\<rparr> = Inl Truncated)"
    using q q1(2) by (intro exI [of _ q]) simp
qed

lemma tight_return: "tight (rd_return a)"
  by (rule tightI) (auto simp: rd_return_def)

lemma tight_fail: "tight (rd_fail e)"
  by (rule tightI) (simp add: rd_fail_def)

lemma tight_take: "tight (rd_take n)"
  by (rule tightI) (auto simp: rd_take_def Let_def min_def drop_take split: if_splits)

lemma tight_if: "tight m \<Longrightarrow> tight m' \<Longrightarrow> tight (if b then m else m')"
  by simp

lemma tight_option: "(\<And>a. tight (f a)) \<Longrightarrow> tight m \<Longrightarrow> tight (case x of None \<Rightarrow> m | Some a \<Rightarrow> f a)"
  by (cases x) auto

lemma tight_prod: "(\<And>a b. tight (f a b)) \<Longrightarrow> tight (case x of (a, b) \<Rightarrow> f a b)"
  by (cases x) auto

lemmas tight_rules = tight_bind tight_return tight_fail tight_take tight_if tight_option tight_prod

lemma tight_endpoints: "tight (rd_endpoints n)"
  by (induction n) (auto simp: rd_ipv4_def rd_u16_def intro!: tight_rules)

lemma tight_token: "tight rd_token"
  unfolding rd_token_def rd_u8_def rd_key_def rd_psk_def rd_member_address_def rd_ipv4_def
    rd_string_def rd_network_def rd_invite_def rd_u64_def
  by (intro tight_rules tight_endpoints)

section \<open>What a parsed token satisfies\<close>

definition ensures :: "'a read \<Rightarrow> ('a \<Rightarrow> bool) \<Rightarrow> bool" where
  "ensures m P \<longleftrightarrow> (\<forall>r a r'. m r = Inr (a, r') \<longrightarrow> P a)"

lemma ensures_bind:
  assumes "ensures m P" and "\<And>a. P a \<Longrightarrow> ensures (f a) Q"
  shows "ensures (rd_bind m f) Q"
  unfolding ensures_def rd_bind_Inr
proof (intro allI impI, elim exE conjE)
  fix r b r'' a r'
  assume "m r = Inr (a, r')" and "f a r' = Inr (b, r'')"
  with assms show "Q b" unfolding ensures_def by blast
qed

lemma ensures_fail: "ensures (rd_fail e) P"
  by (simp add: ensures_def rd_fail_def)

lemma ensures_guard: "(\<not> b \<Longrightarrow> ensures m P) \<Longrightarrow> ensures (if b then rd_fail e else m) P"
  by (simp add: ensures_fail)

lemma ensures_any: "ensures m (\<lambda>_. True)"
  by (simp add: ensures_def)

lemma ensures_return: "P a \<Longrightarrow> ensures (rd_return a) P"
  by (simp add: ensures_def rd_return_def)

lemma ensures_take: "ensures (rd_take n) (\<lambda>bs. length bs = n)"
  by (auto simp: ensures_def rd_take_def Let_def split: if_splits)

lemma ensures_string: "ensures (rd_string n e) utf8_valid"
  unfolding rd_string_def
  by (rule ensures_bind [OF ensures_any])
    (auto simp: ensures_fail split: option.splits intro!: ensures_return dest: from_utf8_valid)

lemma ensures_psk: "ensures rd_psk (\<lambda>p. case p of Some k \<Rightarrow> length k = KEY_LEN | None \<Rightarrow> True)"
  unfolding rd_psk_def rd_key_def
  by (rule ensures_bind [OF ensures_any])
    (auto intro!: ensures_return ensures_bind [OF ensures_take])

lemma encode_invite_id_lower:
  "length bs = INVITE_ID_LEN \<Longrightarrow> map ascii_lower (encode_invite_id bs) = encode_invite_id bs"
  using decode_invite_id_Inr(2) [OF decode_encode_invite_id [of bs]] by simp

lemma ensures_invite:
  "ensures (rd_invite v) (\<lambda>(i, _, _). map_option (map ascii_lower) i = i)"
proof (cases "3 \<le> v")
  case True
  show ?thesis unfolding rd_invite_def if_P [OF True]
    by (rule ensures_bind [OF ensures_take], rule ensures_bind [OF ensures_any],
        rule ensures_bind [OF ensures_any], rule ensures_return) (simp add: encode_invite_id_lower)
qed (simp add: rd_invite_def ensures_return)

lemma rd_token_typed:
  assumes "rd_token r = Inr (t, r')"
  shows "token_typed t \<and> canonical_token t = t"
proof -
  have "ensures rd_token (\<lambda>t. token_typed t \<and> canonical_token t = t)"
    unfolding rd_token_def rd_key_def
    apply (rule ensures_bind [OF ensures_any], rule ensures_guard)
    apply (rule ensures_bind [OF ensures_take], rule ensures_bind [OF ensures_take])
    apply (rule ensures_bind [OF ensures_psk], rule ensures_bind [OF ensures_any])
    apply (rule ensures_bind [OF ensures_any], rule ensures_bind [OF ensures_any])
    apply (rule ensures_guard)
    apply (rule ensures_bind [OF ensures_any], rule ensures_bind [OF ensures_any])
    apply (rule ensures_bind [OF ensures_string], rule ensures_bind [OF ensures_any])
    apply (rule ensures_bind [OF ensures_invite])
    apply (simp only: split_paired_all prod.case)
    apply (rule ensures_return)
    apply (simp add: token_typed_def canonical_token_def)
    done
  with assms show ?thesis by (auto simp: ensures_def)
qed

lemma parse_token_bytes_Inr:
  assumes "parse_token_bytes bs = Inr t"
  shows "validate_token t = None" and "token_typed t" and "canonical_token t = t"
    and "rd_token \<lparr>rd_bytes = bs, rd_pos = 0\<rparr> = Inr (t, \<lparr>rd_bytes = bs, rd_pos = length bs\<rparr>)"
proof -
  from assms obtain r where r: "rd_token \<lparr>rd_bytes = bs, rd_pos = 0\<rparr> = Inr (t, r)"
    and f: "rd_finish r = None" and v: "validate_token t = None"
    by (auto simp: parse_token_bytes_def split: sum.splits option.splits)
  show "validate_token t = None" by (rule v)
  show "token_typed t" "canonical_token t = t" using rd_token_typed [OF r] by auto
  obtain q where "r = \<lparr>rd_bytes = bs, rd_pos = q\<rparr>" using tightE [OF tight_token r] by auto
  with r f show "rd_token \<lparr>rd_bytes = bs, rd_pos = 0\<rparr> = Inr (t, \<lparr>rd_bytes = bs, rd_pos = length bs\<rparr>)"
    by (simp add: rd_finish_def split: if_splits)
qed

lemma token_bytes_total:
  assumes "validate_token t = None"
  shows "\<exists>buf. token_bytes t = Inr buf"
  using assms validate_token_None(7) [OF assms] by (auto simp: token_bytes_def invite_bytes_def)

lemma parse_token_encoded:
  assumes "base64url b64 unb64"
  shows "parse_token unb64 (TOKEN_PREFIX @ b64 buf) = parse_token_bytes buf"
proof -
  have "trim (TOKEN_PREFIX @ b64 buf) = TOKEN_PREFIX @ b64 buf"
    by (rule base64url.trim_encoded [OF assms]) (auto simp: TOKEN_PREFIX_def ascii_def)
  then show ?thesis
    by (simp add: parse_token_def strip_prefix_def base64url.decode_encode [OF assms])
qed

section \<open>Properties\<close>

text \<open>
  C26: a token survives the trip. For every token that can be encoded, in any of the three versions,
  parsing the encoded text gives the token back; only the letters of the invite identifier come
  back in lower case.
\<close>

theorem token_roundtrip:
  assumes "base64url b64 unb64" and "token_typed t" and "encode_token b64 t = Inr text"
  shows "parse_token unb64 text = Inr (canonical_token t)"
  using assms(3) parse_token_bytes_roundtrip [OF assms(2)] parse_token_encoded [OF assms(1)]
  by (auto simp: encode_token_def split: sum.splits)

text \<open>
  A parsed token is valid and stable. Whatever text is parsed, the resulting token passes
  validation, and encoding it again succeeds and parses to the very same token.
\<close>

theorem parsed_token_reencodes:
  assumes "base64url b64 unb64" and "parse_token unb64 text = Inr t"
  shows "validate_token t = None
    \<and> (\<exists>text'. encode_token b64 t = Inr text' \<and> parse_token unb64 text' = Inr t)"
proof -
  obtain bs where "parse_token_bytes bs = Inr t"
    using assms(2) by (auto simp: parse_token_def split: option.splits)
  note P = parse_token_bytes_Inr [OF this]
  obtain buf where "token_bytes t = Inr buf" using token_bytes_total [OF P(1)] ..
  with P parse_token_bytes_roundtrip [OF P(2)] parse_token_encoded [OF assms(1)] show ?thesis
    by (auto simp: encode_token_def)
qed

text \<open>
  Damaged tokens are recognised. If some bytes parse as a token, then every proper prefix of
  them is rejected as truncated, and every extension is rejected for its trailing data.
\<close>

theorem token_cut_or_padded_rejected:
  assumes "parse_token_bytes bs = Inr t"
  shows "(n < length bs \<longrightarrow> parse_token_bytes (take n bs) = Inl Truncated)
    \<and> (x \<noteq> [] \<longrightarrow> parse_token_bytes (bs @ x) = Inl Trailing_Data)"
proof -
  note r = parse_token_bytes_Inr(4) [OF assms]
  obtain q where q: "\<lparr>rd_bytes = bs, rd_pos = length bs\<rparr> = \<lparr>rd_bytes = bs, rd_pos = q\<rparr>"
    and ext: "\<And>cs. rd_token \<lparr>rd_bytes = take q bs @ cs, rd_pos = 0\<rparr> =
      Inr (t, \<lparr>rd_bytes = take q bs @ cs, rd_pos = q\<rparr>)"
    and cut: "\<And>n. 0 \<le> n \<Longrightarrow> n < q \<Longrightarrow> rd_token \<lparr>rd_bytes = take n bs, rd_pos = 0\<rparr> = Inl Truncated"
    by (rule tightE [OF tight_token r]) (simp, rule that)
  have "q = length bs" using q by simp
  with ext [of x] cut [of n] show ?thesis by (simp add: parse_token_bytes_def rd_finish_def)
qed

section \<open>Witnesses\<close>

definition sample_token :: invite_token where
  "sample_token =
     \<lparr>tok_member_private_key = replicate 32 1, tok_host_public_key = replicate 32 2,
      tok_preshared_key = Some (replicate 32 3),
      tok_member_address = \<lparr>net_addr = 0x0A000002, net_prefix = 24\<rparr>, tok_host_virtual_ip = 0x0A000001,
      tok_endpoints = [(0xCB007105, 51820)], tok_name = ''alice'', tok_network = None,
      tok_invite_id = Some ''00112233445566778899AABBCCDDEEFF'', tok_issued_at = Some 1700000000,
      tok_expires_at = Some 1700086400\<rparr>"

lemma sample_token_valid: "validate_token sample_token = None" "token_typed sample_token"
  by (simp_all add: validate_token_def sample_token_def MAX_ENDPOINTS_def MAX_NAME_LEN_def
      decode_invite_id_def INVITE_ID_LEN_def is_hexdigit_def is_digit_def token_typed_def KEY_LEN_def
      ascii_utf8_valid ascii_def)

theorem token_roundtrip_witness:
  "\<exists>text. encode_token b64url_encode sample_token = Inr text
    \<and> parse_token b64url_decode text = Inr (canonical_token sample_token)"
proof -
  obtain buf where "token_bytes sample_token = Inr buf" using token_bytes_total [OF sample_token_valid(1)] ..
  then have e: "encode_token b64url_encode sample_token = Inr (TOKEN_PREFIX @ b64url_encode buf)"
    by (simp add: encode_token_def)
  from token_roundtrip [OF rfc4648.base64url_axioms sample_token_valid(2) e] e show ?thesis by blast
qed

lemma sample_token_parsed:
  "\<exists>buf. parse_token_bytes buf = Inr (canonical_token sample_token)"
  using token_bytes_total [OF sample_token_valid(1)] parse_token_bytes_roundtrip [OF sample_token_valid(2)]
  by blast

theorem parsed_token_reencodes_witness:
  "\<exists>text'. encode_token b64url_encode (canonical_token sample_token) = Inr text'
    \<and> parse_token b64url_decode text' = Inr (canonical_token sample_token)"
proof -
  obtain buf where "parse_token_bytes buf = Inr (canonical_token sample_token)"
    using sample_token_parsed ..
  then have "parse_token b64url_decode (TOKEN_PREFIX @ b64url_encode buf) = Inr (canonical_token sample_token)"
    by (simp add: parse_token_encoded [OF rfc4648.base64url_axioms])
  from parsed_token_reencodes [OF rfc4648.base64url_axioms this] show ?thesis by blast
qed

theorem token_cut_or_padded_rejected_witness:
  "\<exists>buf. parse_token_bytes buf = Inr (canonical_token sample_token)
    \<and> parse_token_bytes (buf @ [0]) = Inl Trailing_Data"
proof -
  obtain buf where b: "parse_token_bytes buf = Inr (canonical_token sample_token)"
    using sample_token_parsed ..
  with token_cut_or_padded_rejected [OF b, of 0 "[0]"] show ?thesis by auto
qed

end
