(* ===== verification/Dns_Zone.thy ===== *)
theory Dns_Zone
  imports Config_Types Names "HOL-Library.Multiset"
begin

text \<open>
  The DNS zone of a network, \<^verbatim>\<open>crates/peercove-core/src/dns.rs\<close>: service
  addresses, the assignment of labels to members, the zone itself and the resolution of custom
  records against the ledger. A \<^verbatim>\<open>HashSet<String>\<close> of taken labels is a list of
  which only the elements matter.
\<close>

section \<open>Data\<close>

record ledger_entry =
  le_name :: "string option"
  le_dns_name :: "string option"
  le_ip :: ipv4
  le_public_key :: public_key
  le_app_version :: "string option"
  le_platform :: "string option"
  le_capabilities :: "string list"
  le_member_id :: "string option"
  le_can_invite :: bool
  le_is_admin :: bool
  le_invited_by :: "string option"
  le_invite_status :: "string option"
  le_invite_expires_at :: "nat option"
  le_online :: bool
  le_is_host :: bool
  le_endpoint :: "socket_addr option"
  le_endpoint_age_secs :: "nat option"
  le_subnets :: "ipv4net list"
  le_blocked :: bool
  le_force_relay :: bool
  le_acl_rule_id :: "string option"

datatype service_health_status = Healthy | Unhealthy | Unknown_Health | Disabled_Health

datatype service_health_reason =
    Not_Checked | Offline | Timeout | Connection_Failed | Name_Resolution_Failed
  | Unexpected_Status | Health_Off

record service_health =
  sh_status :: service_health_status
  sh_reason :: service_health_reason
  sh_checked_at_unix_ms :: "nat option"
  sh_response_ms :: "nat option"
  sh_http_status :: "u16 option"

definition service_health_unknown :: "service_health_reason \<Rightarrow> service_health" where
  "service_health_unknown reason =
     \<lparr>sh_status = Unknown_Health, sh_reason = reason, sh_checked_at_unix_ms = None,
      sh_response_ms = None, sh_http_status = None\<rparr>"

record dns_record =
  dr_id :: "string option"
  dr_name :: string
  dr_ip :: ipv4
  dr_scheme :: "string option"
  dr_port :: "u16 option"
  dr_health :: "service_health option"

record cname_record =
  cr_id :: "string option"
  cr_name :: string
  cr_target :: string
  cr_resolved_ip :: "ipv4 option"
  cr_scheme :: "string option"
  cr_port :: "u16 option"
  cr_health :: "service_health option"

record zone_entry =
  ze_fqdn :: string
  ze_ip :: ipv4
  ze_public_key :: "public_key option"

definition DNS_SUFFIX :: string where "DNS_SUFFIX = ''peercove.internal''"
definition DNS_TTL_SECS :: nat where "DNS_TTL_SECS = 30"
definition MAX_SERVICE_SCHEME_LEN :: nat where "MAX_SERVICE_SCHEME_LEN = 31"

section \<open>Service addresses\<close>

definition is_service_scheme :: "string \<Rightarrow> bool" where
  "is_service_scheme input \<longleftrightarrow>
     \<not> (input = [] \<or> MAX_SERVICE_SCHEME_LEN < length input) \<and>
     is_lower (hd input) \<and>
     list_all (\<lambda>c. is_lower c \<or> is_digit c \<or> c = CHR ''+'' \<or> c = CHR ''.'' \<or> c = CHR ''-'') (tl input)"

definition service_url :: "string \<Rightarrow> string option \<Rightarrow> u16 option \<Rightarrow> string option" where
  "service_url fqdn scheme port =
     (case scheme of
        None \<Rightarrow> None
      | Some s \<Rightarrow>
          if \<not> is_service_scheme s then None
          else if port = Some 0 then None
          else (let show_port =
                  (if (s = ''http'' \<and> port = Some 80) \<or> (s = ''https'' \<and> port = Some 443) then None else port)
                in Some (case show_port of
                     Some p \<Rightarrow> s @ ''://'' @ fqdn @ '':'' @ show_nat (unat p) @ ''/''
                   | None \<Rightarrow> s @ ''://'' @ fqdn @ ''/'')))"

section \<open>Unique labels\<close>

definition numbered :: "string \<Rightarrow> nat \<Rightarrow> string" where
  "numbered base i = base @ ''-'' @ show_nat i"

lemma numbered_inject [simp]: "numbered base i = numbered base j \<longleftrightarrow> i = j"
  by (simp add: numbered_def)

lemma finite_numbered_taken: "finite {j. i \<le> j \<and> numbered base j \<in> set taken}"
proof (rule finite_subset)
  show "{j. i \<le> j \<and> numbered base j \<in> set taken} \<subseteq> {j. numbered base j \<in> set taken}" by auto
  have "{j. numbered base j \<in> set taken} = numbered base -` set taken" by auto
  then show "finite {j. numbered base j \<in> set taken}"
    by (auto intro!: finite_vimageI injI)
qed

text \<open>\<^verbatim>\<open>(2..).map(..).find(..)\<close>: the taken candidates run out.\<close>

function find_numbered :: "string \<Rightarrow> nat \<Rightarrow> string list \<Rightarrow> string" where
  "find_numbered base i taken =
     (if numbered base i \<notin> set taken then numbered base i else find_numbered base (i + 1) taken)"
  by pat_completeness auto
termination
proof (relation "measure (\<lambda>(base, i, taken). card {j. i \<le> j \<and> numbered base j \<in> set taken})")
  fix base i taken
  assume "\<not> numbered base i \<notin> set taken"
  then have "i \<in> {j. i \<le> j \<and> numbered base j \<in> set taken}" by simp
  moreover have "{j. i + 1 \<le> j \<and> numbered base j \<in> set taken}
      = {j. i \<le> j \<and> numbered base j \<in> set taken} - {i}" by auto
  ultimately have "card {j. i + 1 \<le> j \<and> numbered base j \<in> set taken}
      < card {j. i \<le> j \<and> numbered base j \<in> set taken}"
    using finite_numbered_taken by (metis card_Diff1_less)
  then show "((base, i + 1, taken), base, i, taken)
      \<in> measure (\<lambda>(base, i, taken). card {j. i \<le> j \<and> numbered base j \<in> set taken})" by simp
qed simp

declare find_numbered.simps [simp del]

definition uniquify :: "string \<Rightarrow> nat \<Rightarrow> string list \<Rightarrow> string" where
  "uniquify base oct taken =
     (if base \<notin> set taken then base
      else let with_oct = numbered base oct
           in if with_oct \<notin> set taken then with_oct else find_numbered with_oct 2 taken)"

section \<open>Labels of the members\<close>

fun fixed_pass :: "ledger_entry list \<Rightarrow> string list \<Rightarrow> string option list \<times> string list" where
  "fixed_pass [] taken = ([], taken)"
| "fixed_pass (m # ms) taken =
     (case le_dns_name m of
        Some n \<Rightarrow>
          if is_dns_label n
          then let label = uniquify n (last_octet (le_ip m)) taken;
                   (ls, t) = fixed_pass ms (label # taken)
               in (Some label # ls, t)
          else (let (ls, t) = fixed_pass ms taken in (None # ls, t))
      | None \<Rightarrow> (let (ls, t) = fixed_pass ms taken in (None # ls, t)))"

definition derived_base :: "ledger_entry \<Rightarrow> string" where
  "derived_base m =
     (case Option.bind (le_name m) dns_label of
        Some l \<Rightarrow> l
      | None \<Rightarrow> if le_is_host m then ''host'' else ''member-'' @ show_nat (last_octet (le_ip m)))"

fun derived_pass :: "ledger_entry list \<Rightarrow> string option list \<Rightarrow> string list \<Rightarrow> string list \<times> string list" where
  "derived_pass (m # ms) (Some l # ls) taken =
     (let (out, t) = derived_pass ms ls taken in (l # out, t))"
| "derived_pass (m # ms) (None # ls) taken =
     (let derived = uniquify (derived_base m) (last_octet (le_ip m)) taken;
          (out, t) = derived_pass ms ls (derived # taken)
      in (derived # out, t))"
| "derived_pass _ _ taken = ([], taken)"

definition assign_labels :: "ledger_entry list \<Rightarrow> string list \<Rightarrow> string list \<times> string list" where
  "assign_labels members taken =
     (let (labels, taken1) = fixed_pass members taken in derived_pass members labels taken1)"

section \<open>The zone\<close>

definition fqdn_of :: "string \<Rightarrow> string \<Rightarrow> string" where
  "fqdn_of label network = label @ ''.'' @ network @ ''.'' @ DNS_SUFFIX"

definition by_ip :: "ledger_entry list \<Rightarrow> ledger_entry list" where
  "by_ip ledger = sort_key le_ip ledger"

definition member_zone :: "string \<Rightarrow> ledger_entry list \<Rightarrow> string list \<Rightarrow> zone_entry list" where
  "member_zone network members labels =
     map (\<lambda>(m, l). \<lparr>ze_fqdn = fqdn_of l network, ze_ip = le_ip m, ze_public_key = Some (le_public_key m)\<rparr>)
       (zip members labels)"

fun custom_zone :: "string \<Rightarrow> dns_record list \<Rightarrow> string list \<Rightarrow> zone_entry list" where
  "custom_zone network [] taken = []"
| "custom_zone network (r # rs) taken =
     (if \<not> is_custom_dns_name (dr_name r) \<or> dr_name r \<in> set taken then custom_zone network rs taken
      else \<lparr>ze_fqdn = fqdn_of (dr_name r) network, ze_ip = dr_ip r, ze_public_key = None\<rparr>
             # custom_zone network rs (dr_name r # taken))"

definition zone_for :: "string \<Rightarrow> ledger_entry list \<Rightarrow> dns_record list \<Rightarrow> zone_entry list" where
  "zone_for network ledger custom =
     (let members = by_ip ledger;
          (labels, taken) = assign_labels members []
      in member_zone network members labels @ custom_zone network custom taken)"

section \<open>Resolving custom records\<close>

definition lookup_member :: "ledger_entry list \<Rightarrow> string list \<Rightarrow> member_ref \<Rightarrow> (ledger_entry \<times> string) option" where
  "lookup_member members labels ref =
     find (\<lambda>(m, _). case ref of Host \<Rightarrow> le_is_host m | Key k \<Rightarrow> le_public_key m = k) (zip members labels)"

definition under_name :: "ledger_entry list \<Rightarrow> string list \<Rightarrow> dns_record_config \<Rightarrow> string option" where
  "under_name members labels r =
     (case rec_under r of
        None \<Rightarrow> Some (rec_name r)
      | Some u \<Rightarrow>
          (case lookup_member members labels u of
             Some (_, label) \<Rightarrow> Some (rec_name r @ ''.'' @ label)
           | None \<Rightarrow> None))"

definition resolve_record :: "ledger_entry list \<Rightarrow> string list \<Rightarrow> dns_record_config \<Rightarrow> dns_record option" where
  "resolve_record members labels r =
     (case (case rec_ip r of
              Some ip \<Rightarrow> Some ip
            | None \<Rightarrow>
                (case rec_member r of
                   Some m \<Rightarrow> map_option (\<lambda>(e, _). le_ip e) (lookup_member members labels m)
                 | None \<Rightarrow> None)) of
        None \<Rightarrow> None
      | Some ip \<Rightarrow>
          (case under_name members labels r of
             None \<Rightarrow> None
           | Some name \<Rightarrow>
               Some \<lparr>dr_id = rec_id r, dr_name = name, dr_ip = ip, dr_scheme = rec_scheme r,
                     dr_port = rec_port r, dr_health = None\<rparr>))"

definition resolve_records :: "dns_record_config list \<Rightarrow> ledger_entry list \<Rightarrow> dns_record list" where
  "resolve_records records ledger =
     (let members = by_ip ledger; labels = fst (assign_labels members [])
      in List.map_filter (resolve_record members labels) records)"

definition resolve_cname :: "ledger_entry list \<Rightarrow> string list \<Rightarrow> dns_record_config \<Rightarrow> cname_record option" where
  "resolve_cname members labels r =
     (case rec_cname r of
        None \<Rightarrow> None
      | Some target \<Rightarrow>
          (case under_name members labels r of
             None \<Rightarrow> None
           | Some name \<Rightarrow>
               Some \<lparr>cr_id = rec_id r, cr_name = name, cr_target = target, cr_resolved_ip = None,
                     cr_scheme = rec_scheme r, cr_port = rec_port r, cr_health = None\<rparr>))"

definition resolve_cnames :: "dns_record_config list \<Rightarrow> ledger_entry list \<Rightarrow> cname_record list" where
  "resolve_cnames records ledger =
     (let members = by_ip ledger; labels = fst (assign_labels members [])
      in List.map_filter (resolve_cname members labels) records)"

section \<open>Labels are unique\<close>

lemma find_numbered_fresh: "find_numbered base i taken \<notin> set taken"
proof (induction base i taken rule: find_numbered.induct)
  case (1 base i taken)
  then show ?case by (cases "numbered base i \<in> set taken") (simp_all add: find_numbered.simps [of base i])
qed

lemma uniquify_fresh: "uniquify base oct taken \<notin> set taken"
  by (simp add: uniquify_def Let_def find_numbered_fresh)

lemma find_numbered_length: "length base < length (find_numbered base i taken)"
proof (induction base i taken rule: find_numbered.induct)
  case (1 base i taken)
  then show ?case
    by (cases "numbered base i \<in> set taken")
      (simp_all add: find_numbered.simps [of base i], simp add: numbered_def)
qed

lemma uniquify_longer: "base \<in> set taken \<Longrightarrow> length base < length (uniquify base oct taken)"
  using find_numbered_length [of "numbered base oct" 2 taken]
  by (auto simp: uniquify_def Let_def numbered_def)

definition somes :: "'a option list \<Rightarrow> 'a list" where
  "somes xs = List.map_filter (\<lambda>x. x) xs"

lemma somes_simps [simp]: "somes [] = []" "somes (None # xs) = somes xs" "somes (Some x # xs) = x # somes xs"
  by (simp_all add: somes_def List.map_filter_def)

lemma fixed_pass_spec:
  assumes "fixed_pass ms taken = (ls, t)"
  shows "length ls = length ms \<and> distinct (somes ls) \<and> set (somes ls) \<inter> set taken = {}
    \<and> set t = set taken \<union> set (somes ls)"
  using assms
proof (induction ms arbitrary: taken ls t)
  case (Cons m ms)
  show ?case
  proof (cases "\<exists>n. le_dns_name m = Some n \<and> is_dns_label n")
    case True
    then obtain n where n: "le_dns_name m = Some n" "is_dns_label n" by blast
    let ?l = "uniquify n (last_octet (le_ip m)) taken"
    obtain ls' t' where r: "fixed_pass ms (?l # taken) = (ls', t')" by (cases "fixed_pass ms (?l # taken)")
    then have "ls = Some ?l # ls'" "t = t'" using Cons.prems n by (simp_all add: Let_def)
    with Cons.IH [OF r] uniquify_fresh [of n "last_octet (le_ip m)" taken] show ?thesis by auto
  next
    case False
    obtain ls' t' where r: "fixed_pass ms taken = (ls', t')" by (cases "fixed_pass ms taken")
    then have "ls = None # ls'" "t = t'" using Cons.prems False by (auto split: option.splits)
    with Cons.IH [OF r] show ?thesis by auto
  qed
qed simp

lemma derived_pass_spec:
  assumes "derived_pass ms ls taken = (out, t)" and "length ls = length ms"
    and "distinct (somes ls)" and "set (somes ls) \<subseteq> set taken"
  shows "length out = length ms \<and> distinct out \<and> set t = set taken \<union> set out
    \<and> set out \<inter> set taken = set (somes ls)
    \<and> (\<forall>i l. i < length ls \<longrightarrow> ls ! i = Some l \<longrightarrow> out ! i = l)"
  using assms
proof (induction ms ls taken arbitrary: out t rule: derived_pass.induct)
  case (1 m ms l ls taken)
  obtain out' t' where r: "derived_pass ms ls taken = (out', t')" by (cases "derived_pass ms ls taken")
  then have o: "out = l # out'" "t = t'" using "1.prems"(1) by simp_all
  have "length out' = length ms \<and> distinct out' \<and> set t' = set taken \<union> set out'
    \<and> set out' \<inter> set taken = set (somes ls) \<and> (\<forall>i l. i < length ls \<longrightarrow> ls ! i = Some l \<longrightarrow> out' ! i = l)"
    using "1.IH" r "1.prems" by simp
  with o "1.prems" show ?case by (auto simp: nth_Cons split: nat.splits)
next
  case (2 m ms ls taken)
  let ?d = "uniquify (derived_base m) (last_octet (le_ip m)) taken"
  have fresh: "?d \<notin> set taken" by (rule uniquify_fresh)
  obtain out' t' where r: "derived_pass ms ls (?d # taken) = (out', t')"
    by (cases "derived_pass ms ls (?d # taken)")
  then have o: "out = ?d # out'" "t = t'" using "2.prems"(1) by (simp_all add: Let_def)
  have IH: "length out' = length ms \<and> distinct out' \<and> set t' = set (?d # taken) \<union> set out'
    \<and> set out' \<inter> set (?d # taken) = set (somes ls) \<and> (\<forall>i l. i < length ls \<longrightarrow> ls ! i = Some l \<longrightarrow> out' ! i = l)"
    using "2.IH" [OF refl] r "2.prems" by (simp add: subset_insertI2)
  then have "?d \<notin> set out'" using fresh "2.prems"(4) by auto
  with IH o fresh "2.prems" show ?case by (auto simp: nth_Cons split: nat.splits)
qed simp_all

lemma assign_labels_spec:
  assumes "assign_labels ms [] = (labels, t)"
  shows "length labels = length ms" and "distinct labels" and "set t = set labels"
proof -
  obtain ls t1 where f: "fixed_pass ms [] = (ls, t1)" by (cases "fixed_pass ms []")
  with assms have d: "derived_pass ms ls t1 = (labels, t)" by (simp add: assign_labels_def)
  note F = fixed_pass_spec [OF f]
  with derived_pass_spec [OF d] show "length labels = length ms" and "distinct labels" and "set t = set labels"
    by auto
qed

text \<open>Distinct fixed names are kept as they are.\<close>

definition fixed_name :: "ledger_entry \<Rightarrow> string option" where
  "fixed_name m = (case le_dns_name m of Some n \<Rightarrow> if is_dns_label n then Some n else None | None \<Rightarrow> None)"

lemma fixed_pass_distinct:
  assumes "distinct (somes (map fixed_name ms))" and "set (somes (map fixed_name ms)) \<inter> set taken = {}"
  shows "fst (fixed_pass ms taken) = map fixed_name ms"
  using assms
proof (induction ms arbitrary: taken)
  case (Cons m ms)
  show ?case
  proof (cases "fixed_name m")
    case None
    then have "fixed_pass (m # ms) taken = (let (ls, t) = fixed_pass ms taken in (None # ls, t))"
      by (auto simp: fixed_name_def split: option.splits if_splits)
    with None Cons show ?thesis by (simp add: split_beta)
  next
    case (Some n)
    then have n: "le_dns_name m = Some n" "is_dns_label n"
      by (auto simp: fixed_name_def split: option.splits if_splits)
    have "uniquify n (last_octet (le_ip m)) taken = n"
      using Cons.prems(2) Some by (simp add: uniquify_def)
    with n Some Cons show ?thesis by (auto simp: split_beta Let_def)
  qed
qed simp

lemma assign_labels_fixed:
  assumes "assign_labels ms [] = (labels, t)" and "distinct (somes (map fixed_name ms))"
    and "i < length ms" and "fixed_name (ms ! i) = Some n"
  shows "labels ! i = n"
proof -
  obtain ls t1 where f: "fixed_pass ms [] = (ls, t1)" by (cases "fixed_pass ms []")
  with assms(1) have d: "derived_pass ms ls t1 = (labels, t)" by (simp add: assign_labels_def)
  have ls: "ls = map fixed_name ms" using fixed_pass_distinct [OF assms(2), of "[]"] f by simp
  note F = fixed_pass_spec [OF f]
  with derived_pass_spec [OF d] assms(3,4) ls show ?thesis by auto
qed

lemma fqdn_of_inject [simp]: "fqdn_of a network = fqdn_of b network \<longleftrightarrow> a = b"
  by (simp add: fqdn_of_def)

lemma member_zone_fqdns:
  "length labels = length ms \<Longrightarrow> map ze_fqdn (member_zone network ms labels) = map (\<lambda>l. fqdn_of l network) labels"
proof -
  assume "length labels = length ms"
  then have "map snd (zip ms labels) = labels" by simp
  moreover have "map ze_fqdn (member_zone network ms labels) = map (\<lambda>l. fqdn_of l network) (map snd (zip ms labels))"
    by (simp add: member_zone_def split_beta comp_def)
  ultimately show ?thesis by simp
qed

lemma custom_zone_fresh:
  "e \<in> set (custom_zone network rs taken) \<Longrightarrow>
    ze_public_key e = None \<and> (\<exists>r \<in> set rs. e = \<lparr>ze_fqdn = fqdn_of (dr_name r) network, ze_ip = dr_ip r, ze_public_key = None\<rparr>
      \<and> is_custom_dns_name (dr_name r) \<and> dr_name r \<notin> set taken)"
proof (induction rs arbitrary: taken)
  case (Cons r rs)
  show ?case
  proof (cases "\<not> is_custom_dns_name (dr_name r) \<or> dr_name r \<in> set taken")
    case True
    with Cons show ?thesis by fastforce
  next
    case False
    then consider "e = \<lparr>ze_fqdn = fqdn_of (dr_name r) network, ze_ip = dr_ip r, ze_public_key = None\<rparr>"
      | "e \<in> set (custom_zone network rs (dr_name r # taken))" using Cons.prems by auto
    then show ?thesis
    proof cases
      case 2
      from Cons.IH [OF 2] show ?thesis by auto
    qed (use False in auto)
  qed
qed simp

lemma custom_zone_distinct: "distinct (map ze_fqdn (custom_zone network rs taken))"
proof (induction rs arbitrary: taken)
  case (Cons r rs)
  have "fqdn_of (dr_name r) network \<notin> ze_fqdn ` set (custom_zone network rs (dr_name r # taken))"
    using custom_zone_fresh by fastforce
  with Cons show ?case by auto
qed simp

lemma by_ip_mset [simp]: "mset (by_ip ledger) = mset ledger" "set (by_ip ledger) = set ledger"
  "length (by_ip ledger) = length ledger"
  by (simp_all add: by_ip_def)

lemma zone_for_distinct: "distinct (map ze_fqdn (zone_for network ledger custom))"
proof -
  obtain labels taken where a: "assign_labels (by_ip ledger) [] = (labels, taken)"
    by (cases "assign_labels (by_ip ledger) []")
  note A = assign_labels_spec [OF a]
  let ?m = "member_zone network (by_ip ledger) labels" and ?c = "custom_zone network custom taken"
  have z: "zone_for network ledger custom = ?m @ ?c" by (simp add: zone_for_def a)
  have "fqdn_of l network \<notin> ze_fqdn ` set ?c" if "l \<in> set labels" for l
    using that A(3) custom_zone_fresh by fastforce
  moreover have "distinct (map (\<lambda>l. fqdn_of l network) labels)"
    using A(2) by (simp add: distinct_map inj_on_def)
  ultimately have "distinct (map ze_fqdn ?m @ map ze_fqdn ?c)"
    by (simp add: member_zone_fqdns [OF A(1)] custom_zone_distinct) blast
  then show ?thesis by (simp add: z)
qed

section \<open>Properties\<close>

text \<open>
  C29: a zone answers for every member and never twice. The names of a zone are pairwise different,
  and there is exactly one entry per member, with the member's address and key, whatever the names
  in the ledger are; a custom record that would take a member's name is left out.
\<close>

theorem zone_names_unique:
  "distinct (map ze_fqdn (zone_for network ledger custom))
   \<and> mset (map (\<lambda>e. (ze_ip e, ze_public_key e)) (filter (\<lambda>e. ze_public_key e \<noteq> None) (zone_for network ledger custom)))
     = mset (map (\<lambda>m. (le_ip m, Some (le_public_key m))) ledger)"
proof -
  obtain labels taken where a: "assign_labels (by_ip ledger) [] = (labels, taken)"
    by (cases "assign_labels (by_ip ledger) []")
  note A = assign_labels_spec [OF a]
  let ?m = "member_zone network (by_ip ledger) labels" and ?c = "custom_zone network custom taken"
  have z: "zone_for network ledger custom = ?m @ ?c" by (simp add: zone_for_def a)
  have "filter (\<lambda>e. ze_public_key e \<noteq> None) ?c = []"
    using custom_zone_fresh by (fastforce simp: filter_empty_conv)
  moreover have "filter (\<lambda>e. ze_public_key e \<noteq> None) ?m = ?m"
    by (rule filter_True) (auto simp: member_zone_def)
  moreover have "map (\<lambda>e. (ze_ip e, ze_public_key e)) ?m = map (\<lambda>m. (le_ip m, Some (le_public_key m))) (by_ip ledger)"
  proof -
    have "map (\<lambda>e. (ze_ip e, ze_public_key e)) ?m
        = map (\<lambda>m. (le_ip m, Some (le_public_key m))) (map fst (zip (by_ip ledger) labels))"
      by (simp add: member_zone_def split_beta comp_def)
    then show ?thesis using A(1) by simp
  qed
  ultimately show ?thesis using zone_for_distinct [of network ledger custom] by (simp add: z)
qed

text \<open>
  Every node derives the same zone. If the addresses in the ledger are different, the zone does
  not depend on the order in which the ledger lists the members.
\<close>

theorem zone_order_independent:
  assumes "mset ledger = mset ledger'" and "distinct (map le_ip ledger)"
  shows "zone_for network ledger custom = zone_for network ledger' custom"
proof -
  have "inj_on le_ip (set ledger)" using assms(2) by (simp add: distinct_map)
  then have "inj_on le_ip (set (by_ip ledger))" by simp
  then have "sort_key le_ip ledger' = by_ip ledger"
    using assms(1) mset_eq_setD [OF assms(1)]
    by (intro sort_key_inj_key_eq) (simp_all add: by_ip_def)
  then show ?thesis by (simp add: zone_for_def by_ip_def)
qed

text \<open>
  A confirmed DNS name is never taken away. If the valid DNS names that the ledger fixes are
  pairwise different, every member with one is found under exactly that name, whatever display
  names and custom records the network has.
\<close>

theorem fixed_name_kept:
  assumes "distinct (somes (map fixed_name (by_ip ledger)))" and "m \<in> set ledger" and "fixed_name m = Some n"
  shows "\<lparr>ze_fqdn = fqdn_of n network, ze_ip = le_ip m, ze_public_key = Some (le_public_key m)\<rparr>
    \<in> set (zone_for network ledger custom)"
proof -
  obtain labels taken where a: "assign_labels (by_ip ledger) [] = (labels, taken)"
    by (cases "assign_labels (by_ip ledger) []")
  note A = assign_labels_spec [OF a]
  obtain i where i: "i < length (by_ip ledger)" "by_ip ledger ! i = m"
    using assms(2) by (metis by_ip_mset(2) in_set_conv_nth)
  have "labels ! i = n" using assign_labels_fixed [OF a assms(1) i(1)] i(2) assms(3) by simp
  then have "(m, n) \<in> set (zip (by_ip ledger) labels)" using i A(1) by (auto simp: set_zip)
  then show ?thesis by (force simp: zone_for_def a member_zone_def)
qed

text \<open>
  A record under a member follows the member's name. A custom record that names a parent member
  is resolved to the record's own name in front of the label under which the zone lists that parent.
\<close>

theorem record_under_member:
  assumes "r \<in> set (resolve_records [cfg] ledger)" and "rec_under cfg = Some u"
  shows "\<exists>label e. dr_name r = rec_name cfg @ ''.'' @ label
    \<and> e \<in> set ledger \<and> (case u of Host \<Rightarrow> le_is_host e | Key k \<Rightarrow> le_public_key e = k)
    \<and> \<lparr>ze_fqdn = fqdn_of label network, ze_ip = le_ip e, ze_public_key = Some (le_public_key e)\<rparr>
        \<in> set (zone_for network ledger custom)"
proof -
  obtain labels taken where a: "assign_labels (by_ip ledger) [] = (labels, taken)"
    by (cases "assign_labels (by_ip ledger) []")
  have "resolve_record (by_ip ledger) labels cfg = Some r"
    using assms(1) unfolding resolve_records_def Let_def a set_map_filter by auto
  then obtain e label where l: "lookup_member (by_ip ledger) labels u = Some (e, label)"
    "dr_name r = rec_name cfg @ ''.'' @ label"
    using assms(2) by (auto simp: resolve_record_def under_name_def split: option.splits)
  from find_Some_set [OF l(1) [unfolded lookup_member_def]]
  have "(e, label) \<in> set (zip (by_ip ledger) labels)"
    "case u of Host \<Rightarrow> le_is_host e | Key k \<Rightarrow> le_public_key e = k" by auto
  moreover from this have "e \<in> set ledger" by (metis by_ip_mset(2) in_set_zipE)
  ultimately show ?thesis using l(2) by (force simp: zone_for_def a member_zone_def)
qed

text \<open>
  A collision can produce a label that is too long. If a label of the maximal length is taken,
  the label that \<open>uniquify\<close> derives from it is longer than 63 bytes and so no valid DNS label.
\<close>

theorem uniquify_overlong:
  assumes "length base = MAX_LABEL_LEN" and "base \<in> set taken"
  shows "\<not> is_dns_label (uniquify base oct taken)"
  using uniquify_longer [OF assms(2), of oct] assms(1) by (auto simp: is_dns_label_iff label_ok_def)

section \<open>Witnesses\<close>

definition sample_entry :: "u8 \<Rightarrow> ipv4 \<Rightarrow> string option \<Rightarrow> ledger_entry" where
  "sample_entry k ip dns =
     \<lparr>le_name = None, le_dns_name = dns, le_ip = ip, le_public_key = [k], le_app_version = None,
      le_platform = None, le_capabilities = [], le_member_id = None, le_can_invite = False,
      le_is_admin = False, le_invited_by = None, le_invite_status = None, le_invite_expires_at = None,
      le_online = True, le_is_host = False, le_endpoint = None, le_endpoint_age_secs = None,
      le_subnets = [], le_blocked = False, le_force_relay = False, le_acl_rule_id = None\<rparr>"

definition sample_ledger :: "ledger_entry list" where
  "sample_ledger = [sample_entry 2 0x0A000003 (Some ''bob''), sample_entry 1 0x0A000002 None]"

definition sample_record :: dns_record_config where
  "sample_record = \<lparr>rec_id = None, rec_name = ''web'', rec_ip = None, rec_member = Some (Key [1]),
     rec_cname = None, rec_under = Some (Key [2]), rec_scheme = None, rec_port = None,
     rec_health_check = None, rec_health_kind = None, rec_health_path = None,
     rec_health_expect_status = None, rec_health_external = False\<rparr>"

lemma sample_by_ip: "by_ip sample_ledger = [sample_entry 1 0x0A000002 None, sample_entry 2 0x0A000003 (Some ''bob'')]"
  by (simp add: by_ip_def sample_ledger_def sample_entry_def)

lemma label_bob: "is_dns_label ''bob''"
  by (simp add: is_dns_label_iff label_ok_def MAX_LABEL_LEN_def label_char_def is_lower_alnum_def
      is_lower_def no_double_def)

lemma sample_bob_in_zone:
  "\<lparr>ze_fqdn = fqdn_of ''bob'' ''home'', ze_ip = 0x0A000003, ze_public_key = Some [2]\<rparr>
    \<in> set (zone_for ''home'' sample_ledger [])"
  unfolding zone_for_def sample_by_ip
  by (simp add: assign_labels_def sample_entry_def label_bob Let_def uniquify_def derived_base_def
      member_zone_def)

theorem zone_order_independent_witness:
  "zone_for ''home'' sample_ledger [] = zone_for ''home'' (rev sample_ledger) []"
  by (rule zone_order_independent) (simp_all add: sample_ledger_def sample_entry_def)

theorem fixed_name_kept_witness:
  "\<lparr>ze_fqdn = fqdn_of ''bob'' ''home'', ze_ip = 0x0A000003, ze_public_key = Some [2]\<rparr>
    \<in> set (zone_for ''home'' sample_ledger [])"
  using fixed_name_kept [of sample_ledger "sample_entry 2 0x0A000003 (Some ''bob'')" "''bob''" "''home''" "[]"]
  unfolding sample_by_ip
  by (simp add: sample_ledger_def fixed_name_def sample_entry_def label_bob)

lemma sample_resolved: "resolve_records [sample_record] sample_ledger =
    [\<lparr>dr_id = None, dr_name = ''web.bob'', dr_ip = 0x0A000002, dr_scheme = None, dr_port = None, dr_health = None\<rparr>]"
  unfolding resolve_records_def sample_by_ip
  by (simp add: assign_labels_def sample_entry_def label_bob Let_def
      uniquify_def derived_base_def List.map_filter_def resolve_record_def under_name_def lookup_member_def
      sample_record_def)

theorem record_under_member_witness:
  "\<exists>label e. ''web.bob'' = ''web'' @ ''.'' @ label \<and> e \<in> set sample_ledger \<and> le_public_key e = [2]
    \<and> \<lparr>ze_fqdn = fqdn_of label ''home'', ze_ip = le_ip e, ze_public_key = Some (le_public_key e)\<rparr>
        \<in> set (zone_for ''home'' sample_ledger [])"
  using record_under_member [of "hd (resolve_records [sample_record] sample_ledger)" sample_record sample_ledger
      "Key [2]" "''home''" "[]"]
  unfolding sample_resolved by (simp add: sample_record_def)

theorem uniquify_overlong_witness:
  "\<not> is_dns_label (uniquify (replicate 63 (CHR ''a'')) 5 [replicate 63 (CHR ''a'')])"
  by (rule uniquify_overlong) (simp_all add: MAX_LABEL_LEN_def)

end
