(* ===== verification/Dns_Server.thy ===== *)
theory Dns_Server
  imports Dns_Zone
begin

text \<open>
  The built-in resolver, \<^verbatim>\<open>crates/peercove-cli/src/dns.rs\<close>: merging the zones of all
  networks into one table and the pure function \<open>respond\<close> from the bytes of a query to the bytes of
  the answer. Sockets and the receive loop are outside the model.
\<close>

section \<open>The merged zone\<close>

record cname_target =
  ct_target :: string
  ct_ip :: "ipv4 option"

record zone =
  z_a :: "(string, ipv4) hashmap"
  z_cname :: "(string, cname_target) hashmap"

type_synonym network_zone_data = "string \<times> ledger_entry list \<times> dns_record list \<times> cname_record list"

definition merge_cname :: "string \<Rightarrow> cname_record \<Rightarrow> zone \<Rightarrow> zone" where
  "merge_cname network r z =
     (if \<not> is_custom_dns_name (cr_name r) then z
      else let fqdn = fqdn_of (cr_name r) network
           in if hm_contains (z_a z) fqdn then z
              else z\<lparr>z_cname := hm_insert fqdn \<lparr>ct_target = cr_target r, ct_ip = cr_resolved_ip r\<rparr> (z_cname z)\<rparr>)"

definition merge_network :: "network_zone_data \<Rightarrow> zone \<Rightarrow> zone" where
  "merge_network = (\<lambda>(network, ledger, custom, cnames) z.
     fold (merge_cname network) cnames
       (z\<lparr>z_a := fold (\<lambda>e. hm_insert (ze_fqdn e) (ze_ip e)) (zone_for network ledger custom) (z_a z)\<rparr>))"

definition merge_zones :: "network_zone_data list \<Rightarrow> zone" where
  "merge_zones networks = fold merge_network networks \<lparr>z_a = [], z_cname = []\<rparr>"

definition wildcard_lookup :: "(string, 'a) hashmap \<Rightarrow> string \<Rightarrow> 'a option" where
  "wildcard_lookup m name =
     (case split_once (CHR ''.'') name of
        None \<Rightarrow> None
      | Some (_, rest) \<Rightarrow> hm_get m (''*.'' @ rest))"

section \<open>Messages\<close>

definition encode_label :: "string \<Rightarrow> bytes" where
  "encode_label label =
     (if label = [] then []
      else let n = min (length label) 63 in word_of_nat n # str_bytes (take n label))"

definition encode_name :: "string \<Rightarrow> bytes" where
  "encode_name name = concat (map encode_label (split_on (CHR ''.'') name)) @ [0]"

text \<open>\<^verbatim>\<open>b.to_ascii_lowercase() as char\<close> pushed to a string: Latin-1 in UTF-8.\<close>

definition byte_char :: "u8 \<Rightarrow> string" where
  "byte_char b =
     (let n = unat b; l = (if 65 \<le> n \<and> n \<le> 90 then n + 32 else n)
      in if l < 128 then [char_of l] else [char_of (192 + l div 64), char_of (128 + l mod 64)])"

function question_name :: "bytes \<Rightarrow> nat \<Rightarrow> string \<Rightarrow> (string \<times> nat) option" where
  "question_name query pos name =
     (if length query \<le> pos then None
      else let len = unat (query ! pos); pos1 = pos + 1
           in if len = 0 then Some (name, pos1)
              else if 63 < len \<or> length query < pos1 + len then None
              else let name1 = (if name \<noteq> [] then name @ ''.'' else name)
                                 @ concat (map byte_char (take len (drop pos1 query)))
                   in if 253 < length name1 then None else question_name query (pos1 + len) name1)"
  by pat_completeness auto
termination by (relation "measure (\<lambda>(query, pos, name). length query - pos)") auto

declare question_name.simps [simp del]

definition parse_question :: "bytes \<Rightarrow> (string \<times> u16 \<times> u16 \<times> nat) option" where
  "parse_question query =
     (case question_name query 12 [] of
        None \<Rightarrow> None
      | Some (name, pos) \<Rightarrow>
          if pos + 3 < length query
          then Some (name, be16 (query ! pos) (query ! (pos + 1)),
                     be16 (query ! (pos + 2)) (query ! (pos + 3)), pos + 4)
          else None)"

definition TYPE_A :: u16 where "TYPE_A = 1"
definition TYPE_CNAME :: u16 where "TYPE_CNAME = 5"
definition CLASS_IN :: u16 where "CLASS_IN = 1"

definition dns_header :: "bytes \<Rightarrow> u8 \<Rightarrow> u16 \<Rightarrow> bool \<Rightarrow> bytes" where
  "dns_header query rcode ancount echo_question =
     (let opcode = and (drop_bit 3 (query ! 2)) 0x0F; rd = and (query ! 2) 0x01
      in [query ! 0, query ! 1]
         @ [or (or (or 0x80 (push_bit 3 opcode)) 0x04) rd, rcode]
         @ to_be16 (if echo_question then 1 else 0) @ to_be16 ancount @ [0, 0, 0, 0])"

text \<open>The resource record that points back to the name of the question.\<close>

definition answer_rr :: "u16 \<Rightarrow> bytes \<Rightarrow> bytes" where
  "answer_rr rtype rdata =
     [0xC0, 0x0C] @ to_be16 rtype @ to_be16 CLASS_IN @ be_bytes 4 DNS_TTL_SECS
       @ to_be16 (word_of_nat (length rdata)) @ rdata"

definition answer_a :: "bytes \<Rightarrow> bytes \<Rightarrow> u16 \<Rightarrow> u16 \<Rightarrow> ipv4 \<Rightarrow> bytes" where
  "answer_a query question qtype qclass ip =
     (let answer = (qtype = TYPE_A \<and> qclass = CLASS_IN)
      in dns_header query 0 (if answer then 1 else 0) True @ question
         @ (if answer then answer_rr TYPE_A (octets ip) else []))"

definition respond :: "bytes \<Rightarrow> zone \<Rightarrow> bytes option" where
  "respond query z =
     (if length query < 12 then None
      else if and (query ! 2) 0x80 \<noteq> 0 then None
      else if and (drop_bit 3 (query ! 2)) 0x0F \<noteq> 0 then Some (dns_header query 4 0 False)
      else if be16 (query ! 4) (query ! 5) \<noteq> 1 then Some (dns_header query 1 0 False)
      else case parse_question query of
          None \<Rightarrow> Some (dns_header query 1 0 False)
        | Some (name, qtype, qclass, question_end) \<Rightarrow>
            (let question = take (question_end - 12) (drop 12 query);
                 a_ip = (case hm_get (z_a z) name of
                           Some ip \<Rightarrow> Some ip
                         | None \<Rightarrow> wildcard_lookup (z_a z) name)
             in case a_ip of
                  Some ip \<Rightarrow> Some (answer_a query question qtype qclass ip)
                | None \<Rightarrow>
                    (case (case hm_get (z_cname z) name of
                             Some c \<Rightarrow> Some c
                           | None \<Rightarrow> wildcard_lookup (z_cname z) name) of
                       Some cn \<Rightarrow>
                         (case ct_ip cn of
                            Some ip \<Rightarrow> Some (answer_a query question qtype qclass ip)
                          | None \<Rightarrow>
                              Some (dns_header query 0 (if qclass = CLASS_IN then 1 else 0) True @ question
                                @ (if qclass = CLASS_IN then answer_rr TYPE_CNAME (encode_name (ct_target cn))
                                   else [])))
                     | None \<Rightarrow> Some (dns_header query 3 0 True @ question))))"

section \<open>Reading a question back\<close>

text \<open>A resolver's query for a name: identifier, recursion desired, one question.\<close>

definition query_for :: "u8 \<Rightarrow> u8 \<Rightarrow> string \<Rightarrow> u16 \<Rightarrow> bytes" where
  "query_for id0 id1 name qtype =
     [id0, id1, 1, 0, 0, 1, 0, 0, 0, 0, 0, 0] @ encode_name name @ to_be16 qtype @ to_be16 CLASS_IN"

definition wire_label :: "string \<Rightarrow> bool" where
  "wire_label l \<longleftrightarrow> l \<noteq> [] \<and> length l \<le> 63 \<and> (\<forall>c \<in> set l. code c < 128)"

lemma byte_char_code: "code c < 128 \<Longrightarrow> byte_char (word_of_nat (code c)) = [ascii_lower c]"
  by (auto simp: byte_char_def unat_str_byte ascii_lower_def is_upper_def Let_def simp del: unsigned_of_nat)

lemma concat_byte_char:
  "\<forall>c \<in> set l. code c < 128 \<Longrightarrow> concat (map byte_char (str_bytes l)) = map ascii_lower l"
  by (induction l) (simp_all add: str_bytes_def byte_char_code)

definition add_label :: "string \<Rightarrow> string \<Rightarrow> string" where
  "add_label name l = (if name \<noteq> [] then name @ ''.'' else name) @ map ascii_lower l"

lemma length_foldl_add_label: "length name \<le> length (foldl add_label name ls)"
proof (induction ls arbitrary: name)
  case (Cons l ls)
  have "length name \<le> length (add_label name l)" by (simp add: add_label_def)
  also have "\<dots> \<le> length (foldl add_label (add_label name l) ls)" by (rule Cons.IH)
  finally show ?case by simp
qed simp

lemma foldl_add_label:
  "(\<forall>l \<in> set ls. l \<noteq> []) \<Longrightarrow> name \<noteq> [] \<Longrightarrow>
    foldl add_label name ls = name @ concat (map (\<lambda>l. CHR ''.'' # map ascii_lower l) ls)"
  by (induction ls arbitrary: name) (auto simp: add_label_def)

lemma join_concat: "join ''.'' (l # ls) = l @ concat (map (\<lambda>l. CHR ''.'' # l) ls)"
  by (induction ls arbitrary: l) auto

lemma foldl_add_label_join:
  assumes "\<forall>l \<in> set ls. l \<noteq> []"
  shows "foldl add_label [] ls = map ascii_lower (join ''.'' ls)"
proof (cases ls)
  case (Cons l r)
  then have "foldl add_label [] ls = foldl add_label (map ascii_lower l) r" by (simp add: add_label_def)
  also have "\<dots> = map ascii_lower (join ''.'' ls)"
    using assms Cons by (simp add: foldl_add_label join_concat map_concat comp_def ascii_lower_def is_upper_def)
  finally show ?thesis .
qed simp

lemma question_name_labels:
  assumes "\<forall>l \<in> set ls. wire_label l" and "length (foldl add_label name ls) \<le> 253"
    and "drop pos query = concat (map encode_label ls) @ [0] @ rest" and "pos \<le> length query"
  shows "question_name query pos name =
    Some (foldl add_label name ls, pos + length (concat (map encode_label ls)) + 1)"
  using assms
proof (induction ls arbitrary: pos name)
  case Nil
  then have "pos < length query" "query ! pos = 0"
    by (auto simp: not_le nth_via_drop dest!: arg_cong [of _ _ length])
  then show ?case by (simp add: question_name.simps)
next
  case (Cons l ls)
  have w: "l \<noteq> []" "length l \<le> 63" "\<forall>c \<in> set l. code c < 128" using Cons.prems(1) by (auto simp: wire_label_def)
  have e: "encode_label l = word_of_nat (length l) # str_bytes l" using w by (simp add: encode_label_def Let_def min_def)
  let ?tail = "concat (map encode_label ls) @ [0] @ rest"
  have d: "drop pos query = word_of_nat (length l) # str_bytes l @ ?tail" using Cons.prems(3) e by simp
  have lq: "length query - pos = 1 + length l + length ?tail" using d by (metis length_drop length_Cons length_append length_str_bytes plus_1_eq_Suc add.assoc add_Suc)
  then have pos: "pos < length query" "pos + 1 + length l \<le> length query" by linarith+
  have q0: "unat (query ! pos) = length l"
    using d w(2) by (simp add: nth_via_drop unat_of_nat_u8 del: unsigned_of_nat)
  have d1: "drop (pos + 1) query = str_bytes l @ ?tail"
    using d by (metis Suc_eq_plus1 drop_Suc list.sel(3) tl_drop)
  have nm: "(if name \<noteq> [] then name @ ''.'' else name) @ concat (map byte_char (take (length l) (drop (pos + 1) query)))
      = add_label name l"
    unfolding d1 by (simp add: add_label_def concat_byte_char w(3))
  have small: "length (add_label name l) \<le> 253"
    using Cons.prems(2) length_foldl_add_label [of "add_label name l" ls] by simp
  have "drop (pos + 1 + length l) query = drop (length l) (drop (pos + 1) query)" by (simp add: add.commute)
  also have "\<dots> = ?tail" unfolding d1 by simp
  finally have dt: "drop (pos + 1 + length l) query = ?tail" .
  have "question_name query (pos + 1 + length l) (add_label name l) =
      Some (foldl add_label (add_label name l) ls, pos + 1 + length l + length (concat (map encode_label ls)) + 1)"
  proof (rule Cons.IH)
    show "drop (pos + 1 + length l) query = concat (map encode_label ls) @ [0] @ rest" by (rule dt)
  qed (use Cons.prems(1,2) pos in simp_all)
  moreover have "question_name query pos name = question_name query (pos + 1 + length l) (add_label name l)"
    using pos q0 w small nm by (subst question_name.simps) (simp add: Let_def)
  ultimately show ?case by (simp add: e)
qed

lemma parse_question_query:
  assumes "\<forall>l \<in> set (split_on (CHR ''.'') name). wire_label l" and "length name \<le> 253"
  shows "parse_question (query_for a b name qtype) =
    Some (map ascii_lower name, qtype, CLASS_IN, 12 + length (encode_name name) + 4)"
proof -
  let ?q = "query_for a b name qtype" and ?ls = "split_on (CHR ''.'') name"
  let ?e = "concat (map encode_label ?ls)"
  have ne: "\<forall>l \<in> set ?ls. l \<noteq> []" using assms(1) by (auto simp: wire_label_def)
  have f: "foldl add_label [] ?ls = map ascii_lower name"
    using foldl_add_label_join [OF ne] by (simp add: join_split_on)
  have "question_name ?q 12 [] = Some (map ascii_lower name, 12 + length ?e + 1)"
    using question_name_labels [OF assms(1), of "[]" 12 ?q "to_be16 qtype @ to_be16 CLASS_IN"] assms(2) f
    by (simp add: query_for_def encode_name_def)
  moreover have "?q = ([a, b, 1, 0, 0, 1, 0, 0, 0, 0, 0, 0] @ ?e @ [0]) @ to_be16 qtype @ to_be16 CLASS_IN"
    by (simp add: query_for_def encode_name_def)
  moreover have "length ([a, b, 1, 0, 0, 1, 0, 0, 0, 0, 0, 0] @ ?e @ [0]) = 12 + length ?e + 1" by simp
  ultimately show ?thesis
    by (simp add: parse_question_def nth_append to_be16_def encode_name_def CLASS_IN_def be16_def [of 0 1])
qed

section \<open>The merged zone holds the zones\<close>

lemma fold_insert_get:
  assumes "distinct (map ze_fqdn es)"
  shows "hm_get (fold (\<lambda>e. hm_insert (ze_fqdn e) (ze_ip e)) es m) n =
    (case find (\<lambda>e. ze_fqdn e = n) es of Some e \<Rightarrow> Some (ze_ip e) | None \<Rightarrow> hm_get m n)"
  using assms
proof (induction es arbitrary: m)
  case (Cons e es)
  have "find (\<lambda>x. ze_fqdn x = n) es = None" if "n = ze_fqdn e"
    using Cons.prems that by (auto simp: find_None_set) (metis image_eqI)
  with Cons show ?case by (auto simp: hm.get_insert split: option.splits)
qed simp

lemma fold_merge_cname_a [simp]: "z_a (fold (merge_cname network) cs z) = z_a z"
  by (induction cs arbitrary: z) (simp_all add: merge_cname_def Let_def)

lemma fold_merge_cname_disjoint:
  "(\<forall>n. hm_contains (z_cname z) n \<longrightarrow> \<not> hm_contains (z_a z) n) \<Longrightarrow>
    hm_contains (z_cname (fold (merge_cname network) cs z)) n \<Longrightarrow> \<not> hm_contains (z_a z) n"
proof (induction cs arbitrary: z)
  case (Cons c cs)
  have "z_a (merge_cname network c z) = z_a z" by (simp add: merge_cname_def Let_def)
  moreover have "\<forall>n. hm_contains (z_cname (merge_cname network c z)) n \<longrightarrow> \<not> hm_contains (z_a (merge_cname network c z)) n"
    using Cons.prems(1) by (simp add: merge_cname_def Let_def)
  ultimately show ?case using Cons.IH [of "merge_cname network c z"] Cons.prems(2) by simp
qed simp

lemma merge_zones_single_a:
  "hm_get (z_a (merge_zones [(network, ledger, custom, cnames)])) n =
    map_option ze_ip (find (\<lambda>e. ze_fqdn e = n) (zone_for network ledger custom))"
  using zone_for_distinct by (simp add: merge_zones_def merge_network_def fold_insert_get hm.get_empty
      split: option.splits)

section \<open>Properties\<close>

text \<open>
  Questions are read as they are written. For every name of at most 253 bytes whose labels are
  non-empty, at most 63 bytes and ASCII, parsing a query for it yields the name in lower case, the
  type, the class and the end of the question.
\<close>

theorem question_roundtrip:
  assumes "list_all wire_label (split_on (CHR ''.'') name)" and "length name \<le> 253"
  shows "parse_question (query_for a b name qtype) =
    Some (map ascii_lower name, qtype, CLASS_IN, length (query_for a b name qtype))"
  using parse_question_query [of name a b qtype] assms by (simp add: list_all_iff query_for_def)

lemma respond_query_for:
  assumes "\<forall>l \<in> set (split_on (CHR ''.'') name). wire_label l" and "length name \<le> 253"
    and "hm_get (z_a z) (map ascii_lower name) = Some ip"
  shows "respond (query_for a b name TYPE_A) z =
    Some (dns_header (query_for a b name TYPE_A) 0 1 True @ drop 12 (query_for a b name TYPE_A)
      @ answer_rr TYPE_A (octets ip))"
proof -
  let ?q = "query_for a b name TYPE_A"
  have h: "?q ! 2 = 1" "be16 (?q ! 4) (?q ! 5) = 1" "\<not> length ?q < 12"
    by (simp_all add: query_for_def be16_def)
  have l: "12 + length (encode_name name) + 4 = length ?q" by (simp add: query_for_def)
  show ?thesis
    by (simp add: respond_def h parse_question_query [OF assms(1,2)] assms(3) answer_a_def Let_def l)
qed

text \<open>
  A member is found by name. In the zone built from one network, a query of type A for the name
  of any entry, in any mixture of upper and lower case, is answered with no error and exactly the
  address of that entry.
\<close>

theorem member_name_answered:
  assumes "e \<in> set (zone_for network ledger custom)" and "map ascii_lower name = ze_fqdn e"
    and "list_all wire_label (split_on (CHR ''.'') name)" and "length name \<le> 253"
  shows "respond (query_for a b name TYPE_A) (merge_zones [(network, ledger, custom, cnames)]) =
    Some (dns_header (query_for a b name TYPE_A) 0 1 True @ drop 12 (query_for a b name TYPE_A)
      @ answer_rr TYPE_A (octets (ze_ip e)))"
proof -
  have "find (\<lambda>x. ze_fqdn x = ze_fqdn e) (zone_for network ledger custom) = Some e"
    by (rule find_distinct_key [OF zone_for_distinct assms(1)])
  then show ?thesis
    using assms by (intro respond_query_for) (simp_all add: merge_zones_single_a list_all_iff)
qed

text \<open>
  The resolver never talks to itself. A message that \<open>respond\<close> produced is a response, carries the
  identifier of the query, and no resolver answers it.
\<close>

theorem no_reply_loop:
  assumes "respond query z = Some r"
  shows "respond r z' = None \<and> take 2 r = take 2 query"
proof -
  have len: "12 \<le> length query" using assms by (simp add: respond_def split: if_splits)
  obtain rcode n echo rest where r: "r = dns_header query rcode n echo @ rest"
  proof -
    have "\<exists>rcode n echo rest. r = dns_header query rcode n echo @ rest"
      using assms unfolding respond_def answer_a_def Let_def
      by (fastforce split: if_splits option.splits intro: exI [of _ "[]"])
    with that show thesis by blast
  qed
  have "bit (r ! 2) 7" by (simp add: r dns_header_def Let_def bit_simps)
  then have "bit (and (r ! 2) 0x80) 7" by (simp add: bit_simps)
  then have "and (r ! 2) 0x80 \<noteq> 0" by auto
  then have "respond r z' = None" by (simp add: respond_def)
  moreover have "take 2 r = [query ! 0, query ! 1]" by (simp add: r dns_header_def Let_def)
  moreover have "take 2 query = [query ! 0, query ! 1]"
    using len by (cases query; cases "tl query") auto
  ultimately show ?thesis by simp
qed

text \<open>
  A wildcard address record hides an exact CNAME record of the same level: the address tables are
  searched first, wildcards included.
\<close>

lemma wildcard_hides_cname:
  assumes "list_all wire_label (split_on (CHR ''.'') name)" and "length name \<le> 253"
    and "map ascii_lower name = name" and "split_once (CHR ''.'') name = Some (first, rest)"
    and "hm_get (z_a z) name = None" and "hm_get (z_a z) (''*.'' @ rest) = Some ip"
    and "hm_get (z_cname z) name = Some cn"
  shows "respond (query_for a b name TYPE_A) z =
    Some (dns_header (query_for a b name TYPE_A) 0 1 True @ drop 12 (query_for a b name TYPE_A)
      @ answer_rr TYPE_A (octets ip))"
proof -
  let ?q = "query_for a b name TYPE_A"
  have h: "?q ! 2 = 1" "be16 (?q ! 4) (?q ! 5) = 1" "\<not> length ?q < 12"
    by (simp_all add: query_for_def be16_def)
  have l: "12 + length (encode_name name) + 4 = length ?q" by (simp add: query_for_def)
  have w: "\<forall>l \<in> set (split_on (CHR ''.'') name). wire_label l" using assms(1) by (simp add: list_all_iff)
  have wc: "wildcard_lookup (z_a z) name = Some ip" using assms(4,6) by (simp add: wildcard_lookup_def)
  show ?thesis
    by (simp add: respond_def h parse_question_query [OF w assms(2)] assms(3,5) wc
        answer_a_def Let_def l)
qed

section \<open>Witnesses\<close>

lemma bob_wire: "list_all wire_label (split_on (CHR ''.'') ''Bob.home.peercove.internal'')"
  by (simp add: wire_label_def)

lemma bob_lower: "map ascii_lower ''Bob.home.peercove.internal'' = ''bob.home.peercove.internal''"
  by code_simp

theorem question_roundtrip_witness:
  "parse_question (query_for 1 2 ''Bob.home.peercove.internal'' TYPE_A) =
    Some (''bob.home.peercove.internal'', TYPE_A, CLASS_IN, 44)"
proof -
  have "length (query_for 1 2 ''Bob.home.peercove.internal'' TYPE_A) = 44"
    by (simp add: query_for_def encode_name_def encode_label_def)
  with question_roundtrip [OF bob_wire, of 1 2 TYPE_A] show ?thesis
    unfolding bob_lower by simp
qed

theorem member_name_answered_witness:
  "respond (query_for 1 2 ''Bob.home.peercove.internal'' TYPE_A) (merge_zones [(''home'', sample_ledger, [], [])]) =
    Some (dns_header (query_for 1 2 ''Bob.home.peercove.internal'' TYPE_A) 0 1 True
      @ drop 12 (query_for 1 2 ''Bob.home.peercove.internal'' TYPE_A) @ answer_rr TYPE_A (octets 0x0A000003))"
  using member_name_answered [OF sample_bob_in_zone _ bob_wire, of 1 2 "[]"]
  unfolding bob_lower by (simp add: fqdn_of_def DNS_SUFFIX_def)

theorem no_reply_loop_witness:
  "\<exists>r. respond (query_for 1 2 ''x'' TYPE_A) \<lparr>z_a = [], z_cname = []\<rparr> = Some r
    \<and> respond r \<lparr>z_a = [], z_cname = []\<rparr> = None"
proof -
  have w: "\<forall>l \<in> set (split_on (CHR ''.'') ''x''). wire_label l" by (simp add: wire_label_def)
  obtain r where r: "respond (query_for 1 2 ''x'' TYPE_A) \<lparr>z_a = [], z_cname = []\<rparr> = Some r"
    using parse_question_query [OF w, of 1 2 TYPE_A]
    by (cases "respond (query_for 1 2 ''x'' TYPE_A) \<lparr>z_a = [], z_cname = []\<rparr>")
      (auto simp: respond_def query_for_def hm_get_def wildcard_lookup_def be16_def [of 0 1] Let_def
          split: if_splits option.splits)
  with no_reply_loop [OF r, of "\<lparr>z_a = [], z_cname = []\<rparr>"] show ?thesis by blast
qed

end
