(* ===== verification/Acl_Packet.thy ===== *)
theory Acl_Packet
  imports Config_Types
begin

text \<open>
  The packet reader of \<^verbatim>\<open>crates/peercove-core/src/acl.rs\<close>: the IPv4 header fields the
  policy looks at, fragments, and the flow keys of the session tracker. A packet is the list of
  its bytes; every index is behind the length test the code has. The lemmas relate the key a
  packet opens to the key its answer has.
\<close>

section \<open>Header fields\<close>

text \<open>\<^verbatim>\<open>ipv4_fields\<close>: source, destination, protocol and header length.\<close>

definition ipv4_fields :: "bytes \<Rightarrow> (ipv4 \<times> ipv4 \<times> u8 \<times> nat) option" where
  "ipv4_fields p =
     (if length p < 20 \<or> drop_bit 4 (p ! 0) \<noteq> 4 then None
      else let header_len = unat (and (p ! 0) 0x0F) * 4
           in if header_len < 20 \<or> length p < header_len then None
              else Some (ipv4_new (p ! 12) (p ! 13) (p ! 14) (p ! 15),
                         ipv4_new (p ! 16) (p ! 17) (p ! 18) (p ! 19), p ! 9, header_len))"

definition is_initial_fragment :: "bytes \<Rightarrow> bool" where
  "is_initial_fragment p \<longleftrightarrow> 8 \<le> length p \<and> and (be16 (p ! 6) (p ! 7)) 0x1FFF = 0"

definition is_non_first_fragment :: "bytes \<Rightarrow> bool" where
  "is_non_first_fragment p \<longleftrightarrow>
     20 \<le> length p \<and> drop_bit 4 (p ! 0) = 4 \<and> and (be16 (p ! 6) (p ! 7)) 0x1FFF \<noteq> 0"

definition has_more_fragments :: "bytes \<Rightarrow> bool" where
  "has_more_fragments p \<longleftrightarrow> 8 \<le> length p \<and> and (p ! 6) 0x20 \<noteq> 0"

text \<open>\<^verbatim>\<open>packet_fields\<close>: the destination port is read from first fragments only.\<close>

definition packet_fields :: "bytes \<Rightarrow> (ipv4 \<times> ipv4 \<times> u8 \<times> u16 option) option" where
  "packet_fields p =
     (case ipv4_fields p of
        None \<Rightarrow> None
      | Some (src, dst, protocol, header_len) \<Rightarrow>
          Some (src, dst, protocol,
            if (protocol = 6 \<or> protocol = 17) \<and> is_initial_fragment p \<and> header_len + 4 \<le> length p
            then Some (be16 (p ! (header_len + 2)) (p ! (header_len + 3))) else None))"

section \<open>Flow keys\<close>

record fragment_key =
  frag_src :: ipv4
  frag_dst :: ipv4
  frag_protocol :: u8
  frag_identification :: u16

datatype reply_key =
    Transport_Key (rk_src: ipv4) (rk_dst: ipv4) u8 u16 u16
  | Icmp_Echo_Key (rk_src: ipv4) (rk_dst: ipv4) u8 u16

datatype session_candidate =
    Transport_Candidate reply_key u8 bool
  | Icmp_Echo_Request reply_key
  | Other_Candidate

text \<open>TCP opens a session with SYN and without ACK, UDP with any packet.\<close>

definition opens_session :: "bytes \<Rightarrow> u8 \<Rightarrow> nat \<Rightarrow> bool" where
  "opens_session p protocol header_len =
     (if protocol = 17 then True
      else if header_len + 14 \<le> length p
      then let flags = p ! (header_len + 13) in and flags 0x02 \<noteq> 0 \<and> and flags 0x10 = 0
      else False)"

definition session_candidate :: "bytes \<Rightarrow> session_candidate option" where
  "session_candidate p =
     (if \<not> is_initial_fragment p then None
      else case ipv4_fields p of
        None \<Rightarrow> None
      | Some (src, dst, protocol, header_len) \<Rightarrow>
          if (protocol = 6 \<or> protocol = 17) \<and> header_len + 4 \<le> length p
          then let src_port = be16 (p ! header_len) (p ! (header_len + 1));
                   dst_port = be16 (p ! (header_len + 2)) (p ! (header_len + 3))
               in Some (Transport_Candidate (Transport_Key dst src protocol dst_port src_port)
                          protocol (opens_session p protocol header_len))
          else if protocol = 1 \<and> header_len + 8 \<le> length p \<and> p ! header_len = 8
          then Some (Icmp_Echo_Request
                       (Icmp_Echo_Key dst src 0 (be16 (p ! (header_len + 4)) (p ! (header_len + 5)))))
          else Some Other_Candidate)"

definition packet_reply_key :: "bytes \<Rightarrow> reply_key option" where
  "packet_reply_key p =
     (if \<not> is_initial_fragment p then None
      else case ipv4_fields p of
        None \<Rightarrow> None
      | Some (src, dst, protocol, header_len) \<Rightarrow>
          if (protocol = 6 \<or> protocol = 17) \<and> header_len + 4 \<le> length p
          then Some (Transport_Key src dst protocol
                       (be16 (p ! header_len) (p ! (header_len + 1)))
                       (be16 (p ! (header_len + 2)) (p ! (header_len + 3))))
          else if protocol = 1 \<and> header_len + 8 \<le> length p \<and> (p ! header_len = 0 \<or> p ! header_len = 8)
          then Some (Icmp_Echo_Key src dst (p ! header_len)
                       (be16 (p ! (header_len + 4)) (p ! (header_len + 5))))
          else None)"

definition fragment_key_of :: "bytes \<Rightarrow> fragment_key option" where
  "fragment_key_of p =
     (case ipv4_fields p of
        None \<Rightarrow> None
      | Some (src, dst, protocol, _) \<Rightarrow>
          Some \<lparr>frag_src = src, frag_dst = dst, frag_protocol = protocol,
                frag_identification = be16 (p ! 4) (p ! 5)\<rparr>)"

section \<open>What the readers agree on\<close>

lemma ipv4_fields_Some:
  assumes "ipv4_fields p = Some (src, dst, protocol, header_len)"
  shows "20 \<le> header_len" and "header_len \<le> 60" and "header_len \<le> length p"
    and "src = ipv4_new (p ! 12) (p ! 13) (p ! 14) (p ! 15)"
    and "dst = ipv4_new (p ! 16) (p ! 17) (p ! 18) (p ! 19)"
proof -
  have "unat (and (p ! 0) 0x0F) \<le> unat (0x0F :: u8)"
    by (simp only: word_le_nat_alt [symmetric] word_and_le1)
  with assms show "20 \<le> header_len" and "header_len \<le> 60" and "header_len \<le> length p"
    and "src = ipv4_new (p ! 12) (p ! 13) (p ! 14) (p ! 15)"
    and "dst = ipv4_new (p ! 16) (p ! 17) (p ! 18) (p ! 19)"
    by (auto simp: ipv4_fields_def Let_def split: if_splits)
qed

text \<open>Every IPv4 packet is a first fragment or a later one.\<close>

lemma fragment_cases:
  assumes "ipv4_fields p \<noteq> None"
  shows "is_non_first_fragment p = (\<not> is_initial_fragment p)"
  using assms by (auto simp: ipv4_fields_def is_non_first_fragment_def is_initial_fragment_def
      Let_def split: if_splits)

lemma later_fragment_no_port:
  "is_non_first_fragment p \<Longrightarrow> packet_fields p = Some (s, d, pr, port) \<Longrightarrow> port = None"
  by (auto simp: packet_fields_def is_non_first_fragment_def is_initial_fragment_def
      split: option.splits if_splits)

text \<open>The addresses of a key are those of the packet.\<close>

lemma packet_reply_key_addrs:
  assumes "packet_reply_key p = Some k" and "packet_fields p = Some (src, dst, protocol, port)"
  shows "rk_src k = src" and "rk_dst k = dst"
  using assms by (auto simp: packet_reply_key_def packet_fields_def
      split: option.splits if_splits prod.splits)

text \<open>The key a packet opens: its own key with the two ends exchanged.\<close>

fun answer_key :: "reply_key \<Rightarrow> reply_key" where
  "answer_key (Transport_Key s d pr sp dp) = Transport_Key d s pr dp sp"
| "answer_key (Icmp_Echo_Key s d kind i) = Icmp_Echo_Key d s 0 i"

lemma candidate_answer_key:
  assumes "session_candidate p = Some c" and "c = Transport_Candidate k pr opens \<or> c = Icmp_Echo_Request k"
  shows "\<exists>own. packet_reply_key p = Some own \<and> k = answer_key own"
  using assms by (auto simp: session_candidate_def packet_reply_key_def Let_def
      split: option.splits if_splits)

lemma candidate_addrs:
  assumes "session_candidate p = Some c" and "c = Transport_Candidate k pr opens \<or> c = Icmp_Echo_Request k"
    and "packet_fields p = Some (src, dst, protocol, port)"
  shows "rk_src k = dst" and "rk_dst k = src"
  using assms by (auto simp: session_candidate_def packet_fields_def Let_def
      split: option.splits if_splits)

lemma candidate_protocol:
  assumes "session_candidate p = Some (Transport_Candidate k pr opens)"
  shows "\<exists>s d sp dp. k = Transport_Key s d pr sp dp" and "pr = 6 \<or> pr = 17"
  using assms by (auto simp: session_candidate_def Let_def split: option.splits if_splits)

lemma icmp_candidate_key:
  assumes "session_candidate p = Some (Icmp_Echo_Request k)"
  shows "\<exists>s d i. k = Icmp_Echo_Key s d 0 i"
  using assms by (auto simp: session_candidate_def Let_def split: option.splits if_splits)

text \<open>What evaluates the readers on a concrete packet.\<close>

lemmas packet_eval = ipv4_fields_def ipv4_new_def be16_def is_initial_fragment_def
  is_non_first_fragment_def has_more_fragments_def packet_fields_def session_candidate_def
  packet_reply_key_def fragment_key_of_def opens_session_def

end
