(* ===== verification/Acl_Policy.thy ===== *)
theory Acl_Policy
  imports Acl_Packet "HOL-Library.Product_Lexorder"
begin

text \<open>
  The access policy of \<^verbatim>\<open>acl.rs\<close>: compiling the \<^verbatim>\<open>[acl]\<close> table of
  \<^verbatim>\<open>host.toml\<close> into a list of resolved rules (\<open>compile\<close>), evaluating it
  (\<open>evaluate\<close>) and the pairs of members that must not talk directly (\<open>force_relay_pairs\<close>).
  The lemmas give \<open>evaluate\<close> as the first matching rule and follow a decision back to the
  configuration.
\<close>

section \<open>Definitions\<close>

record resolved_rule =
  rr_id :: string
  rr_action :: acl_action
  rr_source :: "ipv4net list"
  rr_destination :: "ipv4net list"
  rr_protocol :: acl_protocol
  rr_ports :: "(u16 \<times> u16) list"

record acl_policy =
  pol_default :: acl_action
  pol_rules :: "resolved_rule list"

record acl_decision =
  dec_action :: acl_action
  dec_rule_id :: "string option"

datatype acl_error =
    Bad_Rule_Id
  | Bad_Port string
  | Ports_Need_Transport string
  | Bad_Target_Text
  | Unknown_Member
  | Unknown_Group string
  | Unknown_Service string
  | Cname_Service
  | Service_Without_Port string
  | Service_Member_Missing
  | Service_Unresolved
  | Service_As_Source

text \<open>\<^verbatim>\<open>AclConfig::normalized_deny\<close>.\<close>

definition normalized_deny :: "acl_config \<Rightarrow> (ipv4 \<times> ipv4) list" where
  "normalized_deny acl =
     remdups_adj (sort (map (\<lambda>(a, b). if a \<le> b then (a, b) else (b, a)) (acl_deny acl)))"

definition peer_networks :: "config \<Rightarrow> public_key \<Rightarrow> ipv4net list option" where
  "peer_networks cfg key =
     (case find (\<lambda>p. peer_public_key p = key) (cfg_peers cfg) of
        None \<Rightarrow> None
      | Some p \<Rightarrow> Some (peer_allowed_ips p @ peer_subnets p))"

definition side_networks :: "ipnet_api \<Rightarrow> config \<Rightarrow> ipv4 \<Rightarrow> ipv4net list" where
  "side_networks api cfg ip =
     host_net ip #
     (case find (\<lambda>p. list_ex (\<lambda>n. net_contains api n ip) (peer_allowed_ips p)) (cfg_peers cfg) of
        None \<Rightarrow> []
      | Some p \<Rightarrow> peer_subnets p)"

definition parse_port :: "string \<Rightarrow> acl_error + (u16 \<times> u16)" where
  "parse_port value =
     (let (a, b) = (case split_once (CHR ''-'') value of Some ab \<Rightarrow> ab | None \<Rightarrow> (value, value))
      in case parse_u16 a of
           None \<Rightarrow> Inl (Bad_Port value)
         | Some start \<Rightarrow>
             (case parse_u16 b of
                None \<Rightarrow> Inl (Bad_Port value)
              | Some end_port \<Rightarrow>
                  if start = 0 \<or> end_port < start then Inl (Bad_Port value)
                  else Inr (word_of_nat start, word_of_nat end_port)))"

definition parse_ports :: "string list \<Rightarrow> acl_error + (u16 \<times> u16) list" where
  "parse_ports values = collect_result parse_port values"

definition resolve_group :: "config \<Rightarrow> acl_group \<Rightarrow> ipv4net list" where
  "resolve_group cfg g =
     concat (map (\<lambda>m. case peer_networks cfg m of Some nets \<Rightarrow> nets | None \<Rightarrow> []) (group_members g))"

definition resolve_service :: "config \<Rightarrow> string \<Rightarrow> acl_error + ipv4net list" where
  "resolve_service cfg service =
     (case find (\<lambda>r. rec_id r = Some service) (cfg_dns_records cfg) of
        None \<Rightarrow> Inl (Unknown_Service service)
      | Some r \<Rightarrow>
          if rec_cname r \<noteq> None then Inl Cname_Service
          else if rec_port r = None then Inl (Service_Without_Port service)
          else (case rec_ip r of
                  Some ip \<Rightarrow> Inr [host_net ip]
                | None \<Rightarrow>
                    (case rec_member r of
                       Some (Key key) \<Rightarrow>
                         (case peer_networks cfg key of
                            Some nets \<Rightarrow> Inr (take 1 nets)
                          | None \<Rightarrow> Inl Service_Member_Missing)
                     | _ \<Rightarrow> Inl Service_Unresolved)))"

fun resolve_target :: "config \<Rightarrow> acl_target \<Rightarrow> bool \<Rightarrow> acl_error + ipv4net list" where
  "resolve_target cfg (Any_Target value) dest =
     (if value = ''any'' then Inr [] else Inl Bad_Target_Text)"
| "resolve_target cfg (Member_Target m) dest =
     (case peer_networks cfg m of Some nets \<Rightarrow> Inr nets | None \<Rightarrow> Inl Unknown_Member)"
| "resolve_target cfg (Group_Target g) dest =
     (case find (\<lambda>c. group_id c = g) (acl_groups (cfg_acl cfg)) of
        None \<Rightarrow> Inl (Unknown_Group g)
      | Some grp \<Rightarrow> Inr (resolve_group cfg grp))"
| "resolve_target cfg (Subnet_Target n) dest = Inr [n]"
| "resolve_target cfg (Service_Target s) dest =
     (if dest then resolve_service cfg s else Inl Service_As_Source)"

definition compile_rule :: "config \<Rightarrow> acl_rule \<Rightarrow> acl_error + resolved_rule" where
  "compile_rule cfg r =
     (if trim (rule_id r) = [] \<or> 64 < length (rule_id r) then Inl Bad_Rule_Id
      else case parse_ports (rule_ports r) of
        Inl e \<Rightarrow> Inl e
      | Inr ports \<Rightarrow>
          if ports \<noteq> [] \<and> rule_protocol r \<noteq> Tcp \<and> rule_protocol r \<noteq> Udp
          then Inl (Ports_Need_Transport (rule_id r))
          else (case resolve_target cfg (rule_source r) False of
                  Inl e \<Rightarrow> Inl e
                | Inr src \<Rightarrow>
                    (case resolve_target cfg (rule_destination r) True of
                       Inl e \<Rightarrow> Inl e
                     | Inr dst \<Rightarrow>
                         Inr \<lparr>rr_id = rule_id r, rr_action = rule_action r, rr_source = src,
                              rr_destination = dst, rr_protocol = rule_protocol r, rr_ports = ports\<rparr>)))"

definition legacy_rule :: "ipnet_api \<Rightarrow> config \<Rightarrow> nat \<Rightarrow> ipv4 \<Rightarrow> ipv4 \<Rightarrow> resolved_rule" where
  "legacy_rule api cfg index source destination =
     \<lparr>rr_id = ''legacy-deny-'' @ show_nat index, rr_action = Deny,
      rr_source = side_networks api cfg source, rr_destination = side_networks api cfg destination,
      rr_protocol = Any_Protocol, rr_ports = []\<rparr>"

definition legacy_rules :: "ipnet_api \<Rightarrow> config \<Rightarrow> resolved_rule list" where
  "legacy_rules api cfg =
     concat (map (\<lambda>(index, (a, b)). [legacy_rule api cfg index a b, legacy_rule api cfg index b a])
       (enumerate 0 (normalized_deny (cfg_acl cfg))))"

definition compile :: "ipnet_api \<Rightarrow> config \<Rightarrow> acl_error + acl_policy" where
  "compile api cfg =
     (case collect_result (compile_rule cfg) (filter rule_enabled (acl_rules (cfg_acl cfg))) of
        Inl e \<Rightarrow> Inl e
      | Inr rules \<Rightarrow>
          Inr \<lparr>pol_default = acl_default (cfg_acl cfg), pol_rules = legacy_rules api cfg @ rules\<rparr>)"

definition matches_ip :: "ipnet_api \<Rightarrow> ipv4net list \<Rightarrow> ipv4 \<Rightarrow> bool" where
  "matches_ip api nets ip \<longleftrightarrow> nets = [] \<or> list_ex (\<lambda>n. net_contains api n ip) nets"

definition protocol_matches :: "acl_protocol \<Rightarrow> u8 \<Rightarrow> bool" where
  "protocol_matches expected actual \<longleftrightarrow>
     expected = Any_Protocol \<or> (expected = Tcp \<and> actual = 6) \<or> (expected = Udp \<and> actual = 17)
     \<or> (expected = Icmp \<and> actual = 1)"

fun evaluate_rules :: "ipnet_api \<Rightarrow> acl_action \<Rightarrow> resolved_rule list
    \<Rightarrow> ipv4 \<Rightarrow> ipv4 \<Rightarrow> u8 \<Rightarrow> u16 option \<Rightarrow> acl_decision" where
  "evaluate_rules api default_action [] src dst protocol dst_port =
     \<lparr>dec_action = default_action, dec_rule_id = None\<rparr>"
| "evaluate_rules api default_action (r # rs) src dst protocol dst_port =
     (if \<not> matches_ip api (rr_source r) src \<or> \<not> matches_ip api (rr_destination r) dst
      then evaluate_rules api default_action rs src dst protocol dst_port
      else if \<not> protocol_matches (rr_protocol r) protocol
      then evaluate_rules api default_action rs src dst protocol dst_port
      else if rr_ports r \<noteq> []
        \<and> \<not> (case dst_port of Some port \<Rightarrow> list_ex (\<lambda>(a, b). a \<le> port \<and> port \<le> b) (rr_ports r)
              | None \<Rightarrow> False)
      then evaluate_rules api default_action rs src dst protocol dst_port
      else \<lparr>dec_action = rr_action r, dec_rule_id = Some (rr_id r)\<rparr>)"

definition evaluate :: "ipnet_api \<Rightarrow> acl_policy \<Rightarrow> ipv4 \<Rightarrow> ipv4 \<Rightarrow> u8 \<Rightarrow> u16 option \<Rightarrow> acl_decision" where
  "evaluate api pol src dst protocol dst_port =
     evaluate_rules api (pol_default pol) (pol_rules pol) src dst protocol dst_port"

definition evaluate_ipv4_packet :: "ipnet_api \<Rightarrow> acl_policy \<Rightarrow> bytes \<Rightarrow> acl_decision" where
  "evaluate_ipv4_packet api pol packet =
     (case packet_fields packet of
        None \<Rightarrow> \<lparr>dec_action = pol_default pol, dec_rule_id = None\<rparr>
      | Some (src, dst, protocol, port) \<Rightarrow> evaluate api pol src dst protocol port)"

definition starts_with :: "string \<Rightarrow> string \<Rightarrow> bool" where
  "starts_with pre s \<longleftrightarrow> take (length pre) s = pre"

definition forces_relay :: "ipnet_api \<Rightarrow> acl_policy \<Rightarrow> ipv4 \<Rightarrow> ipv4 \<Rightarrow> bool" where
  "forces_relay api pol a b \<longleftrightarrow>
     pol_default pol = Deny \<or>
     list_ex (\<lambda>r. ((matches_ip api (rr_source r) a \<and> matches_ip api (rr_destination r) b)
                  \<or> (matches_ip api (rr_source r) b \<and> matches_ip api (rr_destination r) a))
                 \<and> \<not> starts_with ''legacy-deny-'' (rr_id r)) (pol_rules pol)"

fun force_relay_pairs :: "ipnet_api \<Rightarrow> acl_policy \<Rightarrow> ipv4 list \<Rightarrow> (ipv4 \<times> ipv4) list" where
  "force_relay_pairs api pol [] = []"
| "force_relay_pairs api pol (a # members) =
     map (Pair a) (filter (forces_relay api pol a) members) @ force_relay_pairs api pol members"

section \<open>The first matching rule decides\<close>

definition rule_applies :: "ipnet_api \<Rightarrow> resolved_rule \<Rightarrow> ipv4 \<Rightarrow> ipv4 \<Rightarrow> u8 \<Rightarrow> u16 option \<Rightarrow> bool" where
  "rule_applies api r src dst protocol dst_port \<longleftrightarrow>
     matches_ip api (rr_source r) src \<and> matches_ip api (rr_destination r) dst
     \<and> protocol_matches (rr_protocol r) protocol
     \<and> (rr_ports r = [] \<or> (\<exists>port. dst_port = Some port \<and> (\<exists>(a, b) \<in> set (rr_ports r). a \<le> port \<and> port \<le> b)))"

lemma evaluate_rules_find:
  "evaluate_rules api d rs src dst pr port =
     (case find (\<lambda>r. rule_applies api r src dst pr port) rs of
        None \<Rightarrow> \<lparr>dec_action = d, dec_rule_id = None\<rparr>
      | Some r \<Rightarrow> \<lparr>dec_action = rr_action r, dec_rule_id = Some (rr_id r)\<rparr>)"
  by (induction rs) (auto simp: rule_applies_def list_ex_iff split: option.splits)

lemma evaluate_find:
  "evaluate api pol src dst pr port =
     (case find (\<lambda>r. rule_applies api r src dst pr port) (pol_rules pol) of
        None \<Rightarrow> \<lparr>dec_action = pol_default pol, dec_rule_id = None\<rparr>
      | Some r \<Rightarrow> \<lparr>dec_action = rr_action r, dec_rule_id = Some (rr_id r)\<rparr>)"
  by (simp add: evaluate_def evaluate_rules_find)

lemma find_append: "find P (xs @ ys) = (case find P xs of None \<Rightarrow> find P ys | Some x \<Rightarrow> Some x)"
  by (induction xs) auto

section \<open>The pair list\<close>

lemma set_normalized_deny:
  "set (normalized_deny acl) = (\<lambda>(a, b). if a \<le> b then (a, b) else (b, a)) ` set (acl_deny acl)"
  by (simp add: normalized_deny_def)

lemma normalized_deny_ordered: "(a, b) \<in> set (normalized_deny acl) \<Longrightarrow> a \<le> b"
  by (auto simp: set_normalized_deny split: if_splits)

lemma normalized_deny_iff:
  "(a, b) \<in> set (normalized_deny acl) \<or> (b, a) \<in> set (normalized_deny acl) \<longleftrightarrow> is_denied acl a b"
proof -
  have "(a, b) \<in> set (normalized_deny acl) \<Longrightarrow> is_denied acl a b" for a b
    by (force simp: set_normalized_deny is_denied_def split: if_splits)
  moreover have "is_denied acl a b \<Longrightarrow> (a, b) \<in> set (normalized_deny acl) \<or> (b, a) \<in> set (normalized_deny acl)"
    using imageI [of "(a, b)" "set (acl_deny acl)" "\<lambda>(a, b). if a \<le> b then (a, b) else (b, a)"]
      imageI [of "(b, a)" "set (acl_deny acl)" "\<lambda>(a, b). if a \<le> b then (a, b) else (b, a)"]
    by (auto simp: set_normalized_deny is_denied_def split: if_splits)
  ultimately show ?thesis using is_denied_sym by blast
qed

lemma legacy_rules_memberI:
  assumes "(a, b) \<in> set (normalized_deny (cfg_acl cfg)) \<or> (b, a) \<in> set (normalized_deny (cfg_acl cfg))"
  shows "\<exists>i. legacy_rule api cfg i a b \<in> set (legacy_rules api cfg)"
proof -
  have ex: "\<exists>i. (i, p) \<in> set (enumerate 0 xs)" if "p \<in> set xs" for p and xs :: "(ipv4 \<times> ipv4) list"
  proof -
    from that obtain i where "i < length xs" and "p = xs ! i" by (auto simp: in_set_conv_nth)
    then have "(i, p) \<in> set (enumerate 0 xs)" by (simp add: in_set_enumerate_eq)
    then show ?thesis ..
  qed
  from assms show ?thesis unfolding legacy_rules_def by (fastforce dest!: ex)
qed

lemma legacy_rules_Deny: "r \<in> set (legacy_rules api cfg) \<Longrightarrow> rr_action r = Deny"
  by (auto simp: legacy_rules_def legacy_rule_def)

lemma legacy_rules_id: "r \<in> set (legacy_rules api cfg) \<Longrightarrow> starts_with ''legacy-deny-'' (rr_id r)"
  by (auto simp: legacy_rules_def legacy_rule_def starts_with_def)

lemma legacy_rules_member:
  assumes "r \<in> set (legacy_rules api cfg)"
  shows "\<exists>i a b. r = legacy_rule api cfg i a b \<and> is_denied (cfg_acl cfg) a b"
proof -
  have "p \<in> set xs" if "(i, p) \<in> set (enumerate 0 xs)" for i p and xs :: "(ipv4 \<times> ipv4) list"
    using that by (auto simp: in_set_enumerate_eq)
  with assms normalized_deny_iff show ?thesis
    unfolding legacy_rules_def by fastforce
qed

section \<open>What compiling guarantees\<close>

lemma compile_Inr:
  assumes "compile api cfg = Inr pol"
  shows "\<exists>rules. collect_result (compile_rule cfg) (filter rule_enabled (acl_rules (cfg_acl cfg))) = Inr rules
    \<and> pol = \<lparr>pol_default = acl_default (cfg_acl cfg), pol_rules = legacy_rules api cfg @ rules\<rparr>"
  using assms by (auto simp: compile_def split: sum.splits)

lemma compile_rule_Inr:
  assumes "compile_rule cfg r = Inr rr"
  shows "rr_id rr = rule_id r" and "rr_action rr = rule_action r" and "rr_protocol rr = rule_protocol r"
    and "parse_ports (rule_ports r) = Inr (rr_ports rr)"
    and "resolve_target cfg (rule_source r) False = Inr (rr_source rr)"
    and "resolve_target cfg (rule_destination r) True = Inr (rr_destination rr)"
    and "rr_ports rr \<noteq> [] \<longrightarrow> rr_protocol rr = Tcp \<or> rr_protocol rr = Udp"
  using assms by (auto simp: compile_rule_def split: if_splits sum.splits)

lemma collect_result_member:
  assumes "collect_result f xs = Inr ys" and "y \<in> set ys"
  shows "\<exists>x \<in> set xs. f x = Inr y"
  using assms by (auto simp: collect_result_Inr list_all2_conv_all_nth in_set_conv_nth) (metis nth_mem)

lemma compile_rules_origin:
  assumes "compile api cfg = Inr pol" and "r \<in> set (pol_rules pol)"
  shows "r \<in> set (legacy_rules api cfg) \<or>
    (\<exists>u \<in> set (acl_rules (cfg_acl cfg)). rule_enabled u \<and> compile_rule cfg u = Inr r)"
  using compile_Inr [OF assms(1)] assms(2) by (auto dest!: collect_result_member)

lemma le_of_nat_u16: "m \<le> n \<Longrightarrow> n \<le> 65535 \<Longrightarrow> (word_of_nat m :: u16) \<le> word_of_nat n"
  by (simp add: word_le_nat_alt unat_of_nat_u16 del: unsigned_of_nat)

lemma parse_u16_lt: "parse_u16 s = Some n \<Longrightarrow> n < 65536"
  using parse_unsigned_bound [of 65535 s n] by (simp add: parse_u16_def)

lemma parse_port_Inr:
  assumes "parse_port v = Inr (a, b)"
  shows "\<exists>m n. a = word_of_nat m \<and> b = word_of_nat n \<and> 0 < m \<and> m \<le> n \<and> n < 65536"
proof -
  obtain s t where st: "(case split_once (CHR ''-'') v of Some ab \<Rightarrow> ab | None \<Rightarrow> (v, v)) = (s, t)"
    by (cases "case split_once (CHR ''-'') v of Some ab \<Rightarrow> ab | None \<Rightarrow> (v, v)")
  with assms obtain m n where "parse_u16 s = Some m" "parse_u16 t = Some n" "m \<noteq> 0" "\<not> n < m"
    "a = word_of_nat m" "b = word_of_nat n"
    by (cases "parse_u16 s"; cases "parse_u16 t") (simp_all add: parse_port_def split: if_splits)
  then show ?thesis using parse_u16_lt [of t n] by (intro exI [of _ m] exI [of _ n]) simp
qed

lemma parse_port_valid:
  assumes "parse_port v = Inr (a, b)"
  shows "0 < unat a" and "a \<le> b"
proof -
  from parse_port_Inr [OF assms] obtain m n where
    mn: "a = word_of_nat m" "b = word_of_nat n" "0 < m" "m \<le> n" "n < 65536" by blast
  then have u: "unat a = m" "unat b = n"
    by (simp_all only: unat_of_nat_u16 le_less_trans)
  with mn show "0 < unat a" by (simp only:)
  from mn u show "a \<le> b" by (simp only: word_le_nat_alt)
qed

section \<open>Deny pairs\<close>

text \<open>The addresses a deny pair covers: the member's own and those of its advertised subnets.\<close>

definition behind :: "ipnet_api \<Rightarrow> config \<Rightarrow> ipv4 \<Rightarrow> ipv4 \<Rightarrow> bool" where
  "behind api cfg a x \<longleftrightarrow> x = a \<or>
     (case find (\<lambda>p. list_ex (\<lambda>n. net_contains api n a) (peer_allowed_ips p)) (cfg_peers cfg) of
        None \<Rightarrow> False
      | Some p \<Rightarrow> list_ex (\<lambda>n. net_contains api n x) (peer_subnets p))"

lemma side_networks_behind:
  assumes "ipnet api"
  shows "matches_ip api (side_networks api cfg a) x \<longleftrightarrow> behind api cfg a x"
  using ipnet.contains_host [OF assms] by (auto simp: matches_ip_def side_networks_def behind_def
      split: option.splits)

lemma legacy_rule_applies:
  assumes "ipnet api"
  shows "rule_applies api (legacy_rule api cfg i a b) x y pr port \<longleftrightarrow> behind api cfg a x \<and> behind api cfg b y"
  using side_networks_behind [OF assms]
  by (auto simp: rule_applies_def legacy_rule_def protocol_matches_def)

lemma legacy_applies_iff:
  assumes "ipnet api"
  shows "(\<exists>r \<in> set (legacy_rules api cfg). rule_applies api r x y pr port) \<longleftrightarrow>
    (\<exists>a b. is_denied (cfg_acl cfg) a b \<and> behind api cfg a x \<and> behind api cfg b y)"
proof
  assume "\<exists>r \<in> set (legacy_rules api cfg). rule_applies api r x y pr port"
  then show "\<exists>a b. is_denied (cfg_acl cfg) a b \<and> behind api cfg a x \<and> behind api cfg b y"
    using legacy_rules_member legacy_rule_applies [OF assms] by metis
next
  assume "\<exists>a b. is_denied (cfg_acl cfg) a b \<and> behind api cfg a x \<and> behind api cfg b y"
  then obtain a b where ab: "is_denied (cfg_acl cfg) a b" "behind api cfg a x" "behind api cfg b y" by blast
  then obtain i where "legacy_rule api cfg i a b \<in> set (legacy_rules api cfg)"
    using legacy_rules_memberI normalized_deny_iff by metis
  with ab legacy_rule_applies [OF assms]
  show "\<exists>r \<in> set (legacy_rules api cfg). rule_applies api r x y pr port" by blast
qed

lemma find_legacy_first:
  assumes "\<exists>r \<in> set ls. P r" and "\<forall>r \<in> set ls. rr_action r = Deny"
  shows "\<exists>r. find P (ls @ rs) = Some r \<and> rr_action r = Deny"
proof -
  from assms(1) obtain r where r: "find P ls = Some r"
    using find_None_set [of P ls] by (cases "find P ls") auto
  with assms(2) find_Some_set [OF r] show ?thesis by (simp add: find_append)
qed

lemma legacy_deny_both:
  assumes "ipnet api" and "compile api cfg = Inr pol" and "is_denied (cfg_acl cfg) a b"
    and "behind api cfg a x" and "behind api cfg b y"
  shows "dec_action (evaluate api pol x y protocol port) = Deny
    \<and> dec_action (evaluate api pol y x protocol port) = Deny"
proof -
  have "dec_action (evaluate api pol u v protocol port) = Deny"
    if "is_denied (cfg_acl cfg) c d" "behind api cfg c u" "behind api cfg d v" for c d u v
  proof -
    have "\<exists>r \<in> set (legacy_rules api cfg). rule_applies api r u v protocol port"
      using that legacy_applies_iff [OF assms(1)] by blast
    from find_legacy_first [OF this] legacy_rules_Deny have "\<exists>r. find (\<lambda>r. rule_applies api r u v
        protocol port) (legacy_rules api cfg @ rules) = Some r \<and> rr_action r = Deny" for rules
      by blast
    with compile_Inr [OF assms(2)] show ?thesis
      by (metis (no_types, lifting) evaluate_find acl_decision.select_convs(1)
          acl_policy.select_convs(2) option.case(2))
  qed
  with assms(3-5) is_denied_sym show ?thesis by blast
qed

text \<open>
  C24: a deny pair cuts both members off from each other. Whatever rules, groups and default action
  the configuration has, after compiling it every packet between the two sides of a
  \<^verbatim>\<open>deny\<close> pair (the member's address or an address of a subnet it advertises) is
  denied, in both directions, for every protocol and port.
\<close>

theorem deny_pair_always_denied:
  assumes "ipnet api" and "compile api cfg = Inr pol" and "is_denied (cfg_acl cfg) a b"
    and "behind api cfg a x" and "behind api cfg b y"
  shows "dec_action (evaluate api pol x y protocol port) = Deny
    \<and> dec_action (evaluate api pol y x protocol port) = Deny"
  using legacy_deny_both [OF assms] by blast

text \<open>
  Without rules, the deny pairs are the whole policy. When no rule is enabled, a packet is
  denied exactly if the default action is deny or its ends lie on the two sides of a deny pair.
\<close>

theorem deny_pairs_only:
  assumes "ipnet api" and "\<forall>r \<in> set (acl_rules (cfg_acl cfg)). \<not> rule_enabled r"
  shows "\<exists>pol. compile api cfg = Inr pol
    \<and> (dec_action (evaluate api pol x y protocol port) = Deny \<longleftrightarrow>
        acl_default (cfg_acl cfg) = Deny
        \<or> (\<exists>a b. is_denied (cfg_acl cfg) a b \<and> behind api cfg a x \<and> behind api cfg b y))"
proof -
  let ?ls = "legacy_rules api cfg"
  let ?pol = "\<lparr>pol_default = acl_default (cfg_acl cfg), pol_rules = ?ls\<rparr>"
  have "compile api cfg = Inr ?pol" using assms(2) by (simp add: compile_def filter_False)
  moreover have "dec_action (evaluate api ?pol x y protocol port) = Deny \<longleftrightarrow>
      acl_default (cfg_acl cfg) = Deny \<or> (\<exists>r \<in> set ?ls. rule_applies api r x y protocol port)"
    using find_None_set [of "\<lambda>r. rule_applies api r x y protocol port" ?ls] legacy_rules_Deny
    by (auto simp: evaluate_find split: option.splits dest: find_Some_set)
  ultimately show ?thesis using legacy_applies_iff [OF assms(1)] by metis
qed

section \<open>Decisions come from the configuration\<close>

lemma evaluate_SomeD:
  assumes "dec_rule_id (evaluate api pol x y pr port) = Some i"
  shows "\<exists>r \<in> set (pol_rules pol). rr_id r = i \<and> rule_applies api r x y pr port
    \<and> rr_action r = dec_action (evaluate api pol x y pr port)"
  using assms by (auto simp: evaluate_find split: option.splits dest: find_Some_set)

lemma evaluate_NoneD:
  "dec_rule_id (evaluate api pol x y pr port) = None \<Longrightarrow>
    dec_action (evaluate api pol x y pr port) = pol_default pol"
  by (simp add: evaluate_find split: option.splits)

text \<open>
  In a default-deny network nothing passes without a written permission. A packet is allowed
  only by an enabled \<^verbatim>\<open>allow\<close> rule of the configuration whose protocol is the
  packet's (or any) and, where the rule lists ports, whose ports include the destination port;
  a port restriction is only ever on a TCP or UDP rule.
\<close>

theorem default_deny_needs_rule:
  assumes "compile api cfg = Inr pol" and "acl_default (cfg_acl cfg) = Deny"
    and "dec_action (evaluate api pol x y protocol port) = Allow"
  shows "\<exists>u \<in> set (acl_rules (cfg_acl cfg)). rule_enabled u \<and> rule_action u = Allow
    \<and> dec_rule_id (evaluate api pol x y protocol port) = Some (rule_id u)
    \<and> protocol_matches (rule_protocol u) protocol
    \<and> (rule_ports u \<noteq> [] \<longrightarrow> (rule_protocol u = Tcp \<or> rule_protocol u = Udp) \<and>
        (\<exists>p ranges. port = Some p \<and> parse_ports (rule_ports u) = Inr ranges
          \<and> (\<exists>(a, b) \<in> set ranges. a \<le> p \<and> p \<le> b)))"
proof -
  let ?d = "evaluate api pol x y protocol port"
  have "pol_default pol = Deny" using compile_Inr [OF assms(1)] assms(2) by auto
  then obtain i where i: "dec_rule_id ?d = Some i"
    using assms(3) evaluate_NoneD [of api pol x y protocol port]
    by (cases "dec_rule_id ?d") auto
  then obtain r where r: "r \<in> set (pol_rules pol)" "rr_id r = i" "rule_applies api r x y protocol port"
      "rr_action r = Allow" using evaluate_SomeD assms(3) by metis
  then obtain u where u: "u \<in> set (acl_rules (cfg_acl cfg))" "rule_enabled u" "compile_rule cfg u = Inr r"
    using compile_rules_origin [OF assms(1) r(1)] legacy_rules_Deny by fastforce
  note c = compile_rule_Inr [OF u(3)]
  have "rr_ports r \<noteq> []" if "rule_ports u \<noteq> []"
    using c(4) that by (auto simp: parse_ports_def collect_result_Inr)
  with c r i u show ?thesis by (auto simp: rule_applies_def intro!: bexI [of _ u])
qed

section \<open>Ports\<close>

text \<open>How a range is written in the configuration: \<open>start-end\<close>, or one number for a single port.\<close>

definition port_text :: "u16 \<times> u16 \<Rightarrow> string" where
  "port_text = (\<lambda>(a, b). if a = b then show_nat (unat a) else show_nat (unat a) @ CHR ''-'' # show_nat (unat b))"

lemma dash_not_in_show_nat: "CHR ''-'' \<notin> set (show_nat n)"
  using show_nat_visible [of "CHR ''-''" n] by (auto simp: is_digit_def)

lemma parse_u16_show: "parse_u16 (show_nat (unat (a :: u16))) = Some (unat a)"
  unfolding parse_u16_def by (rule parse_show_nat) (use unat_u16_lt [of a] in linarith)

lemma parse_port_text:
  assumes "a \<noteq> 0" and "a \<le> b"
  shows "parse_port (port_text (a, b)) = Inr (a, b)"
proof -
  have n: "unat a \<noteq> 0" "\<not> unat b < unat a"
    using assms by (auto simp: word_le_nat_alt unat_eq_0)
  have "split_once (CHR ''-'') (show_nat (unat a)) = None"
    by (simp add: split_once_None dash_not_in_show_nat)
  moreover have "split_once (CHR ''-'') (show_nat (unat a) @ CHR ''-'' # show_nat (unat b)) =
      Some (show_nat (unat a), show_nat (unat b))"
    by (simp add: split_once_Some dash_not_in_show_nat)
  ultimately show ?thesis using n
    by (cases "a = b") (simp_all add: parse_port_def port_text_def parse_u16_show)
qed

lemma list_all2_map_self: "(\<forall>x \<in> set xs. R (f x) x) \<Longrightarrow> list_all2 R (map f xs) xs"
  by (induction xs) auto

definition range_ok :: "u16 \<times> u16 \<Rightarrow> bool" where
  "range_ok = (\<lambda>(a, b). a \<noteq> 0 \<and> a \<le> b)"

text \<open>
  The port syntax is exact. The lists of ranges that some text parses to are exactly the lists
  of ranges that start above zero and do not end before they start, and each of them is read back
  from its own written form.
\<close>

theorem parse_ports_exact:
  "((\<exists>values. parse_ports values = Inr ranges) \<longleftrightarrow> list_all range_ok ranges)
   \<and> (parse_ports (map port_text ranges) = Inr ranges \<longleftrightarrow> list_all range_ok ranges)"
proof -
  have a: "parse_ports (map port_text ranges) = Inr ranges" if "list_all range_ok ranges"
  proof -
    have "parse_port (port_text r) = Inr r" if "r \<in> set ranges" for r
      using that \<open>list_all range_ok ranges\<close> parse_port_text [of "fst r" "snd r"]
      by (auto simp: list_all_iff range_ok_def split_beta)
    then show ?thesis unfolding parse_ports_def collect_result_Inr
      by (intro list_all2_map_self) blast
  qed
  have b: "list_all range_ok ranges" if "parse_ports vs = Inr ranges" for vs
  proof -
    have "range_ok r" if r: "r \<in> set ranges" for r
    proof -
      obtain v where v: "parse_port v = Inr r"
        using collect_result_member [of parse_port vs ranges r] that r \<open>parse_ports vs = Inr ranges\<close>
        unfolding parse_ports_def by blast
      obtain c d where "r = (c, d)" by (cases r)
      with parse_port_valid [of v c d] v show ?thesis by (auto simp: range_ok_def)
    qed
    then show ?thesis by (simp add: list_all_iff)
  qed
  from a b show ?thesis by blast
qed

section \<open>Groups without members\<close>

lemma resolve_group_unregistered:
  assumes "\<forall>m \<in> set (group_members g). peer_networks cfg m = None"
  shows "resolve_group cfg g = []"
  using assms by (auto simp: resolve_group_def)

text \<open>
  A group rule whose group has no registered member applies to everybody. The resolved address
  list of such a group is empty, and an empty list means any address, so a rule from such a group
  to any destination with no protocol or port restriction matches every packet. The comment in
  \<^verbatim>\<open>resolve_target\<close> says the members that cannot be resolved are merely ignored.
\<close>

theorem empty_group_matches_everybody:
  assumes "find (\<lambda>c. group_id c = gid) (acl_groups (cfg_acl cfg)) = Some g"
    and "\<forall>m \<in> set (group_members g). peer_networks cfg m = None"
    and "compile_rule cfg u = Inr r" and "rule_source u = Group_Target gid"
    and "rule_destination u = Any_Target ''any''" and "rule_protocol u = Any_Protocol"
  shows "rule_applies api r x y protocol port"
proof -
  note c = compile_rule_Inr [OF assms(3)]
  have "rr_source r = []" "rr_destination r = []"
    using c(5,6) assms resolve_group_unregistered [OF assms(2)] by simp_all
  moreover have "rr_ports r = []" using c(3,7) assms(6) by auto
  ultimately show ?thesis using c(3) assms(6)
    by (simp add: rule_applies_def matches_ip_def protocol_matches_def)
qed

section \<open>Members that must not talk directly\<close>

lemma two_positions_Cons:
  "(\<exists>i j. i < j \<and> j < length (m # ms) \<and> (m # ms) ! i = a \<and> (m # ms) ! j = b) \<longleftrightarrow>
    (m = a \<and> b \<in> set ms) \<or> (\<exists>i j. i < j \<and> j < length ms \<and> ms ! i = a \<and> ms ! j = b)"
  (is "?L \<longleftrightarrow> ?R")
proof
  assume ?L
  then obtain i j where ij: "i < j" "j < length (m # ms)" "(m # ms) ! i = a" "(m # ms) ! j = b" by blast
  then obtain j' where "j = Suc j'" by (cases j) auto
  with ij show ?R by (cases i) auto
next
  assume ?R
  then consider (head) j where "m = a" "j < length ms" "ms ! j = b"
    | (tail) i j where "i < j" "j < length ms" "ms ! i = a" "ms ! j = b"
    by (auto simp: in_set_conv_nth)
  then show ?L
  proof cases
    case head
    then show ?thesis by (intro exI [of _ 0] exI [of _ "Suc j"]) simp
  next
    case tail
    then show ?thesis by (intro exI [of _ "Suc i"] exI [of _ "Suc j"]) simp
  qed
qed

lemma set_force_relay_pairs:
  "(a, b) \<in> set (force_relay_pairs api pol members) \<longleftrightarrow>
    (\<exists>i j. i < j \<and> j < length members \<and> members ! i = a \<and> members ! j = b) \<and> forces_relay api pol a b"
proof (induction members)
  case (Cons m ms)
  then show ?case unfolding two_positions_Cons by auto
qed simp

text \<open>
  Direct links cannot bypass a rule. If two members of the list are not a forced-relay pair,
  then every packet between them, in either direction, is denied only by a rule with the prefix
  \<^verbatim>\<open>legacy-deny-\<close>, and otherwise allowed: no other rule can tell their packets apart.
\<close>

theorem unforced_pair_unrestricted:
  assumes "i < j" and "j < length members"
    and "(members ! i, members ! j) \<notin> set (force_relay_pairs api pol members)"
    and "{x, y} = {members ! i, members ! j}"
  shows "dec_action (evaluate api pol x y protocol port) = Allow
    \<and> dec_rule_id (evaluate api pol x y protocol port) = None
    \<or> (\<exists>rid. dec_rule_id (evaluate api pol x y protocol port) = Some rid
          \<and> starts_with ''legacy-deny-'' rid)"
proof -
  let ?d = "evaluate api pol x y protocol port"
  have nf: "\<not> forces_relay api pol (members ! i) (members ! j)"
    using assms(1-3) set_force_relay_pairs by blast
  show ?thesis
  proof (cases "dec_rule_id ?d")
    case None
    with evaluate_NoneD [OF None] nf show ?thesis
      by (cases "pol_default pol") (auto simp: forces_relay_def)
  next
    case (Some rid)
    then obtain r where "r \<in> set (pol_rules pol)" "rr_id r = rid" "rule_applies api r x y protocol port"
      using evaluate_SomeD by metis
    with nf assms(4) Some show ?thesis
      by (auto simp: forces_relay_def list_ex_iff rule_applies_def doubleton_eq_iff)
  qed
qed

section \<open>Witnesses\<close>

definition deny_acl :: acl_config where
  "deny_acl = empty_acl\<lparr>acl_deny := [(0x0A000003, 0x0A000002)]\<rparr>"

definition web_rule :: acl_rule where
  "web_rule = \<lparr>rule_id = ''web'', rule_action = Allow, rule_source = Any_Target ''any'',
     rule_destination = Subnet_Target \<lparr>net_addr = 0x0A000000, net_prefix = 24\<rparr>, rule_protocol = Tcp,
     rule_ports = [''80''], rule_enabled = True\<rparr>"

definition ghost_rule :: acl_rule where
  "ghost_rule = \<lparr>rule_id = ''ghosts'', rule_action = Deny, rule_source = Group_Target ''ghosts'',
     rule_destination = Any_Target ''any'', rule_protocol = Any_Protocol,
     rule_ports = [], rule_enabled = True\<rparr>"

definition web_acl :: acl_config where
  "web_acl = \<lparr>acl_deny = [], acl_default = Deny, acl_groups = [], acl_rules = [web_rule]\<rparr>"

definition ghost_acl :: acl_config where
  "ghost_acl = \<lparr>acl_deny = [], acl_default = Allow,
     acl_groups = [\<lparr>group_id = ''ghosts'', group_name = ''Ghosts'', group_members = [[7]]\<rparr>],
     acl_rules = [ghost_rule]\<rparr>"

definition web_resolved :: resolved_rule where
  "web_resolved = \<lparr>rr_id = ''web'', rr_action = Allow, rr_source = [],
     rr_destination = [\<lparr>net_addr = 0x0A000000, net_prefix = 24\<rparr>], rr_protocol = Tcp, rr_ports = [(80, 80)]\<rparr>"

lemma compile_web_rule: "compile_rule cfg web_rule = Inr web_resolved"
proof -
  have "trim ''web'' = ''web''" by (rule trim_visible) (simp_all add: ascii_def)
  moreover have "parse_ports [''80''] = Inr [(80, 80)]"
    by (simp add: parse_ports_def parse_port_def parse_u16_def parse_unsigned_def digits_val_def is_digit_def)
  ultimately show ?thesis by (simp add: compile_rule_def web_rule_def web_resolved_def)
qed

lemma compile_web: "compile cidr_api (sample_config [] web_acl) =
    Inr \<lparr>pol_default = Deny, pol_rules = [web_resolved]\<rparr>"
  using compile_web_rule [of "sample_config [] web_acl"]
  by (simp add: compile_def web_acl_def sample_config_def legacy_rules_def normalized_deny_def
      web_rule_def)

lemma evaluate_web: "dec_action (evaluate cidr_api \<lparr>pol_default = Deny, pol_rules = [web_resolved]\<rparr>
    0x0A000002 0x0A000003 6 (Some 80)) = Allow"
  by (simp add: evaluate_def web_resolved_def matches_ip_def protocol_matches_def cidr_api_def
      cidr_contains_def block_size_def)

theorem deny_pair_always_denied_witness:
  "\<exists>pol. compile cidr_api (sample_config [] deny_acl) = Inr pol
    \<and> dec_action (evaluate cidr_api pol 0x0A000002 0x0A000003 6 (Some 80)) = Deny
    \<and> dec_action (evaluate cidr_api pol 0x0A000003 0x0A000002 6 (Some 80)) = Deny"
proof -
  have c: "\<exists>pol. compile cidr_api (sample_config [] deny_acl) = Inr pol"
    by (simp add: compile_def sample_config_def deny_acl_def empty_acl_def)
  then obtain pol where pol: "compile cidr_api (sample_config [] deny_acl) = Inr pol" ..
  have "dec_action (evaluate cidr_api pol 0x0A000002 0x0A000003 6 (Some 80)) = Deny
      \<and> dec_action (evaluate cidr_api pol 0x0A000003 0x0A000002 6 (Some 80)) = Deny"
    by (rule deny_pair_always_denied [OF cidr.ipnet_axioms pol, where a = "0x0A000002" and b = "0x0A000003"])
      (simp_all add: is_denied_def sample_config_def deny_acl_def empty_acl_def behind_def)
  with pol show ?thesis by blast
qed

theorem deny_pairs_only_witness:
  "\<exists>pol. compile cidr_api (sample_config [] deny_acl) = Inr pol
    \<and> dec_action (evaluate cidr_api pol 0x0A000003 0x0A000002 17 None) = Deny
    \<and> dec_action (evaluate cidr_api pol 0x0A000003 0x0A000004 17 None) = Allow"
proof -
  have n: "\<forall>r \<in> set (acl_rules (cfg_acl (sample_config [] deny_acl))). \<not> rule_enabled r"
    by (simp add: sample_config_def deny_acl_def empty_acl_def)
  note d = deny_pairs_only [OF cidr.ipnet_axioms n]
  have b: "behind cidr_api (sample_config [] deny_acl) u v \<longleftrightarrow> v = u" for u v
    by (simp add: behind_def sample_config_def)
  have c: "is_denied (cfg_acl (sample_config [] deny_acl)) u v \<longleftrightarrow>
      (u = 0x0A000003 \<and> v = 0x0A000002) \<or> (u = 0x0A000002 \<and> v = 0x0A000003)" for u v
    by (auto simp: is_denied_def sample_config_def deny_acl_def empty_acl_def)
  have e: "acl_default (cfg_acl (sample_config [] deny_acl)) = Allow"
    by (simp add: sample_config_def deny_acl_def empty_acl_def)
  obtain pol where p: "compile cidr_api (sample_config [] deny_acl) = Inr pol"
      "dec_action (evaluate cidr_api pol 0x0A000003 0x0A000002 17 None) = Deny"
    using d [of "0x0A000003" "0x0A000002" 17 None] by (auto simp: b c e)
  have "dec_action (evaluate cidr_api pol 0x0A000003 0x0A000004 17 None) \<noteq> Deny"
    using d [of "0x0A000003" "0x0A000004" 17 None] p(1) by (auto simp: b c e)
  then have "dec_action (evaluate cidr_api pol 0x0A000003 0x0A000004 17 None) = Allow"
    by (cases "dec_action (evaluate cidr_api pol 0x0A000003 0x0A000004 17 None)") simp_all
  with p show ?thesis by blast
qed

theorem default_deny_needs_rule_witness:
  "\<exists>u \<in> set (acl_rules (cfg_acl (sample_config [] web_acl))). rule_enabled u \<and> rule_action u = Allow"
proof -
  have "acl_default (cfg_acl (sample_config [] web_acl)) = Deny"
    by (simp add: sample_config_def web_acl_def)
  from default_deny_needs_rule [OF compile_web this evaluate_web] show ?thesis by blast
qed

theorem empty_group_matches_everybody_witness:
  "\<exists>r. compile_rule (sample_config [] ghost_acl) ghost_rule = Inr r \<and> rr_action r = Deny
    \<and> rule_applies cidr_api r 0x0A000002 0x0A000003 6 (Some 80)"
proof -
  let ?cfg = "sample_config [] ghost_acl"
  have "trim ''ghosts'' = ''ghosts''" by (rule trim_visible) (simp_all add: ascii_def)
  then obtain r where r: "compile_rule ?cfg ghost_rule = Inr r"
    by (simp add: compile_rule_def ghost_rule_def sample_config_def ghost_acl_def parse_ports_def)
  have "rule_applies cidr_api r 0x0A000002 0x0A000003 6 (Some 80)"
    by (rule empty_group_matches_everybody [OF _ _ r, of "''ghosts''" "hd (acl_groups ghost_acl)"])
      (simp_all add: sample_config_def ghost_acl_def ghost_rule_def peer_networks_def)
  with r compile_rule_Inr(2) [OF r] show ?thesis by (simp add: ghost_rule_def)
qed

definition open_policy :: acl_policy where
  "open_policy = \<lparr>pol_default = Allow, pol_rules = []\<rparr>"

theorem unforced_pair_unrestricted_witness:
  "dec_action (evaluate cidr_api open_policy 3 2 17 (Some 53)) = Allow
    \<and> dec_rule_id (evaluate cidr_api open_policy 3 2 17 (Some 53)) = None
    \<or> (\<exists>rid. dec_rule_id (evaluate cidr_api open_policy 3 2 17 (Some 53)) = Some rid
          \<and> starts_with ''legacy-deny-'' rid)"
  by (rule unforced_pair_unrestricted [of 0 1 "[2, 3]"])
    (auto simp: open_policy_def forces_relay_def)

end
