(* ===== verification/Config_Check.thy ===== *)
theory Config_Check
  imports Acl_Policy Dns_Zone
begin

text \<open>
  \<^verbatim>\<open>Config::validate\<close> of \<^verbatim>\<open>crates/peercove-core/src/config.rs\<close>,
  section by section in the order of the code, and what a configuration that passes it satisfies.
  The check returns the first error, or nothing.
\<close>

section \<open>The checks\<close>

datatype config_error =
    Prefix_Too_Long nat
  | Reserved_Interface_Address ipv4
  | Mtu_Too_Small u16
  | Bad_Device_Id
  | Empty_Allowed_Ips nat
  | Missing_Invite_Id nat
  | Malformed_Invite_Id nat
  | Missing_Issued_At nat
  | Expires_Before_Issued nat
  | Accepted_Before_Issued nat
  | Bad_Invite_Device nat
  | Incomplete_Join nat
  | Approval_Not_Required nat
  | Approved_Before_Join nat
  | Partial_Invite nat
  | Subnet_Too_Wide nat ipv4net
  | Subnet_Not_Network nat ipv4net
  | Subnet_Overlaps_Virtual nat ipv4net
  | Subnet_Overlaps_Peer nat ipv4net
  | Duplicate_Public_Key
  | Bad_Network_Name string
  | Bad_Display_Name_Length
  | Display_Name_Control
  | Deny_Same_Ip ipv4
  | Deny_Host_Ip ipv4
  | Deny_Outside_Subnet ipv4
  | Bad_Record_Name string
  | Duplicate_Record string
  | Bad_Record_Id string
  | Record_Without_Target string
  | Record_Many_Targets string
  | Bad_Record_Cname string
  | Unknown_Record_Member string
  | Record_Ip_Outside_Subnet string
  | Bad_Record_Scheme string
  | Record_Port_Zero string
  | Health_Needs_Service string
  | Health_External_Needs_Cname string
  | Http_Head_Needs_Http string
  | Bad_Health_Path string
  | Bad_Health_Status string
  | Bad_Group_Id string
  | Bad_Acl_Rule_Id string
  | Acl_Error acl_error

definition network_name :: "config \<Rightarrow> string" where
  "network_name cfg =
     (case if_network_name (cfg_interface cfg) of Some n \<Rightarrow> n | None \<Rightarrow> DEFAULT_NETWORK_NAME)"

definition display_title :: "config \<Rightarrow> string" where
  "display_title cfg =
     (case if_network_display_name (cfg_interface cfg) of Some n \<Rightarrow> n | None \<Rightarrow> network_name cfg)"

definition valid_id :: "string \<Rightarrow> bool" where
  "valid_id value \<longleftrightarrow> length value = 32 \<and> list_all is_hexdigit value"

abbreviation opt_is :: "('a \<Rightarrow> bool) \<Rightarrow> 'a option \<Rightarrow> bool" where
  "opt_is P x \<equiv> (case x of Some a \<Rightarrow> P a | None \<Rightarrow> False)"

definition check_interface :: "ipnet_api \<Rightarrow> interface_config \<Rightarrow> config_error option" where
  "check_interface api itf =
     (let net = if_address itf; ip = net_addr net
      in err_then (err_when (30 < net_prefix net) (Prefix_Too_Long (net_prefix net)))
        (err_then (err_when (ip = net_network api net \<or> ip = net_broadcast api net) (Reserved_Interface_Address ip))
        (err_then (err_when (if_mtu itf < 576) (Mtu_Too_Small (if_mtu itf)))
        (err_when (opt_is (\<lambda>i. \<not> valid_id i) (if_device_id itf)) Bad_Device_Id))))"

definition check_invite_v3 :: "nat \<Rightarrow> peer_config \<Rightarrow> config_error option" where
  "check_invite_v3 i p =
     (case peer_invite_id p of
        None \<Rightarrow> Some (Missing_Invite_Id i)
      | Some invite \<Rightarrow>
          if \<not> valid_id invite then Some (Malformed_Invite_Id i)
          else (case peer_invite_issued_at p of
             None \<Rightarrow> Some (Missing_Issued_At i)
           | Some issued \<Rightarrow>
               err_then (err_when (opt_is (\<lambda>e. e \<le> issued) (peer_invite_expires_at p)) (Expires_Before_Issued i))
               (err_then (err_when (opt_is (\<lambda>a. a < issued) (peer_invite_accepted_at p)) (Accepted_Before_Issued i))
               (err_then (err_when (opt_is (\<lambda>d. \<not> valid_id d) (peer_invite_device_id p)) (Bad_Invite_Device i))
               (err_then (err_when ((peer_invite_device_id p \<noteq> None) \<noteq> (peer_invite_accepted_at p \<noteq> None))
                  (Incomplete_Join i))
               (err_then (err_when (peer_invite_approved_at p \<noteq> None \<and> \<not> peer_invite_requires_approval p)
                  (Approval_Not_Required i))
               (err_when (peer_invite_approved_at p \<noteq> None \<and> peer_invite_accepted_at p = None)
                  (Approved_Before_Join i))))))))"

definition check_peer :: "nat \<times> peer_config \<Rightarrow> config_error option" where
  "check_peer = (\<lambda>(i, p).
     err_then (err_when (peer_allowed_ips p = []) (Empty_Allowed_Ips i))
       (if peer_invite_id p \<noteq> None \<or> peer_invite_issued_at p \<noteq> None then check_invite_v3 i p
        else err_when (peer_invite_expires_at p \<noteq> None \<or> peer_invite_accepted_at p \<noteq> None
               \<or> peer_invite_device_id p \<noteq> None \<or> peer_invite_requires_approval p
               \<or> peer_invite_approved_at p \<noteq> None) (Partial_Invite i)))"

text \<open>One advertised subnet against the virtual subnet and the ones seen before.\<close>

definition overlaps :: "ipnet_api \<Rightarrow> ipv4net \<Rightarrow> ipv4net \<Rightarrow> bool" where
  "overlaps api a b \<longleftrightarrow> net_covers api a b \<or> net_covers api b a"

definition check_subnet :: "ipnet_api \<Rightarrow> ipv4net \<Rightarrow> ipv4net list \<Rightarrow> nat \<Rightarrow> ipv4net \<Rightarrow> config_error option" where
  "check_subnet api virt seen i n =
     err_then (err_when (net_prefix n < 8) (Subnet_Too_Wide i n))
     (err_then (err_when (n \<noteq> net_trunc api n) (Subnet_Not_Network i n))
     (err_then (err_when (overlaps api virt n) (Subnet_Overlaps_Virtual i n))
     (err_when (list_ex (\<lambda>other. overlaps api other n) seen) (Subnet_Overlaps_Peer i n))))"

fun check_subnets :: "ipnet_api \<Rightarrow> ipv4net \<Rightarrow> ipv4net list \<Rightarrow> (nat \<times> ipv4net) list \<Rightarrow> config_error option" where
  "check_subnets api virt seen [] = None"
| "check_subnets api virt seen ((i, n) # rest) =
     err_then (check_subnet api virt seen i n) (check_subnets api virt (seen @ [n]) rest)"

definition all_subnets :: "peer_config list \<Rightarrow> (nat \<times> ipv4net) list" where
  "all_subnets peers = concat (map (\<lambda>(i, p). map (Pair i) (peer_subnets p)) (enumerate 0 peers))"

definition check_keys :: "peer_config list \<Rightarrow> config_error option" where
  "check_keys peers =
     err_when (length (remdups_adj (sort (map peer_public_key peers))) \<noteq> length peers) Duplicate_Public_Key"

definition check_names :: "interface_config \<Rightarrow> config_error option" where
  "check_names itf =
     err_then (case if_network_name itf of
                 Some n \<Rightarrow> err_when (\<not> is_dns_label n) (Bad_Network_Name n)
               | None \<Rightarrow> None)
       (case if_network_display_name itf of
          Some n \<Rightarrow>
            err_then (err_when (trim n = [] \<or> 64 < length (chars n)) Bad_Display_Name_Length)
              (err_when (list_ex is_control (chars n)) Display_Name_Control)
        | None \<Rightarrow> None)"

definition check_deny :: "ipnet_api \<Rightarrow> config \<Rightarrow> ipv4 \<times> ipv4 \<Rightarrow> config_error option" where
  "check_deny api cfg = (\<lambda>(a, b).
     err_then (err_when (a = b) (Deny_Same_Ip a))
       (first_error (\<lambda>ip.
          err_then (err_when (ip = net_addr (if_address (cfg_interface cfg))) (Deny_Host_Ip ip))
            (err_when (\<not> net_contains api (net_trunc api (if_address (cfg_interface cfg))) ip)
               (Deny_Outside_Subnet ip))) [a, b]))"

definition member_exists :: "config \<Rightarrow> member_ref \<Rightarrow> bool" where
  "member_exists cfg m =
     (case m of Host \<Rightarrow> True | Key k \<Rightarrow> list_ex (\<lambda>p. peer_public_key p = k) (cfg_peers cfg))"

definition parent_subnets :: "config \<Rightarrow> member_ref \<Rightarrow> ipv4net list" where
  "parent_subnets cfg m =
     (case m of
        Host \<Rightarrow> []
      | Key k \<Rightarrow>
          (case find (\<lambda>p. peer_public_key p = k) (cfg_peers cfg) of
             Some p \<Rightarrow> peer_subnets p | None \<Rightarrow> []))"

definition check_record_targets :: "ipnet_api \<Rightarrow> config \<Rightarrow> dns_record_config \<Rightarrow> config_error option" where
  "check_record_targets api cfg r =
     (let targets = length (filter id [rec_ip r \<noteq> None, rec_member r \<noteq> None, rec_cname r \<noteq> None])
      in err_then (err_when (targets = 0) (Record_Without_Target (rec_name r)))
        (err_then (err_when (1 < targets) (Record_Many_Targets (rec_name r)))
        (err_then (err_when (opt_is (\<lambda>c. normalize_cname_target c \<noteq> Some c) (rec_cname r)) (Bad_Record_Cname (rec_name r)))
        (err_then (first_error (\<lambda>ref. err_when (\<not> member_exists cfg ref) (Unknown_Record_Member (rec_name r)))
           (somes [rec_member r, rec_under r]))
        (case (rec_ip r, rec_under r) of
           (Some ip, Some parent) \<Rightarrow>
             err_when (\<not> list_ex (\<lambda>n. net_contains api n ip) (parent_subnets cfg parent))
               (Record_Ip_Outside_Subnet (rec_name r))
         | _ \<Rightarrow> None)))))"

definition check_record_service :: "dns_record_config \<Rightarrow> config_error option" where
  "check_record_service r =
     (let health_enabled = (case rec_health_check r of Some b \<Rightarrow> b
                            | None \<Rightarrow> rec_cname r = None \<and> rec_scheme r \<noteq> None \<and> rec_port r \<noteq> None)
      in err_then (err_when (opt_is (\<lambda>s. \<not> is_service_scheme s) (rec_scheme r)) (Bad_Record_Scheme (rec_name r)))
        (err_then (err_when (rec_port r = Some 0) (Record_Port_Zero (rec_name r)))
        (err_then (err_when (health_enabled \<and> (rec_scheme r = None \<or> rec_port r = None)) (Health_Needs_Service (rec_name r)))
        (err_then (err_when (rec_health_external r \<and> rec_cname r = None) (Health_External_Needs_Cname (rec_name r)))
        (err_then (if rec_health_kind r = Some Http_Head then
                     err_then (err_when (rec_scheme r \<noteq> Some ''http'') (Http_Head_Needs_Http (rec_name r)))
                       (let path = (case rec_health_path r of Some p \<Rightarrow> p | None \<Rightarrow> ''/'')
                        in err_when (take 1 path \<noteq> ''/'' \<or> 256 < length path \<or> list_ex is_control (chars path))
                             (Bad_Health_Path (rec_name r)))
                   else None)
        (err_when (opt_is (\<lambda>s. \<not> (100 \<le> s \<and> s \<le> 599)) (rec_health_expect_status r))
           (Bad_Health_Status (rec_name r))))))))"

fun check_records :: "ipnet_api \<Rightarrow> config \<Rightarrow> (string \<times> member_ref option) list \<Rightarrow> string list
    \<Rightarrow> dns_record_config list \<Rightarrow> config_error option" where
  "check_records api cfg seen seen_ids [] = None"
| "check_records api cfg seen seen_ids (r # rs) =
     err_then (err_when (\<not> is_custom_dns_name (rec_name r)) (Bad_Record_Name (rec_name r)))
     (err_then (err_when ((rec_name r, rec_under r) \<in> set seen) (Duplicate_Record (rec_name r)))
     (err_then (case rec_id r of
                  Some i \<Rightarrow> err_when (\<not> is_dns_label i \<or> i \<in> set seen_ids) (Bad_Record_Id i)
                | None \<Rightarrow> None)
     (err_then (check_record_targets api cfg r)
     (err_then (check_record_service r)
     (check_records api cfg ((rec_name r, rec_under r) # seen)
        (case rec_id r of Some i \<Rightarrow> i # seen_ids | None \<Rightarrow> seen_ids) rs)))))"

fun check_ids :: "(string \<Rightarrow> config_error) \<Rightarrow> string list \<Rightarrow> string list \<Rightarrow> config_error option" where
  "check_ids err seen [] = None"
| "check_ids err seen (i # is) =
     err_then (err_when (\<not> is_dns_label i \<or> i \<in> set seen) (err i)) (check_ids err (i # seen) is)"

definition validate :: "ipnet_api \<Rightarrow> config \<Rightarrow> config_error option" where
  "validate api cfg =
     err_then (check_interface api (cfg_interface cfg))
     (err_then (first_error check_peer (enumerate 0 (cfg_peers cfg)))
     (err_then (check_subnets api (net_trunc api (if_address (cfg_interface cfg))) [] (all_subnets (cfg_peers cfg)))
     (err_then (check_keys (cfg_peers cfg))
     (err_then (check_names (cfg_interface cfg))
     (err_then (first_error (check_deny api cfg) (acl_deny (cfg_acl cfg)))
     (err_then (check_records api cfg [] [] (cfg_dns_records cfg))
     (err_then (check_ids Bad_Group_Id [] (map group_id (acl_groups (cfg_acl cfg))))
     (err_then (check_ids Bad_Acl_Rule_Id [] (map rule_id (acl_rules (cfg_acl cfg))))
     (case compile api cfg of Inl e \<Rightarrow> Some (Acl_Error e) | Inr _ \<Rightarrow> None)))))))))"

section \<open>What a validated configuration satisfies\<close>

lemma validate_None:
  assumes "validate api cfg = None"
  shows "check_interface api (cfg_interface cfg) = None"
    and "\<forall>ip \<in> set (enumerate 0 (cfg_peers cfg)). check_peer ip = None"
    and "check_subnets api (net_trunc api (if_address (cfg_interface cfg))) [] (all_subnets (cfg_peers cfg)) = None"
    and "check_keys (cfg_peers cfg) = None"
    and "check_names (cfg_interface cfg) = None"
    and "\<forall>d \<in> set (acl_deny (cfg_acl cfg)). check_deny api cfg d = None"
    and "check_records api cfg [] [] (cfg_dns_records cfg) = None"
    and "check_ids Bad_Group_Id [] (map group_id (acl_groups (cfg_acl cfg))) = None"
    and "check_ids Bad_Acl_Rule_Id [] (map rule_id (acl_rules (cfg_acl cfg))) = None"
    and "\<exists>pol. compile api cfg = Inr pol"
  using assms by (auto simp: validate_def split: sum.splits)

lemma map_snd_all_subnets: "map snd (all_subnets peers) = concat (map peer_subnets peers)"
proof -
  have "map snd (concat (map (\<lambda>(i, p). map (Pair i) (peer_subnets p)) (enumerate k peers)))
      = concat (map peer_subnets peers)" for k
    by (induction peers arbitrary: k) (simp_all add: comp_def)
  then show ?thesis by (simp add: all_subnets_def)
qed

lemma check_subnets_None:
  assumes "check_subnets api virt seen xs = None"
  shows "\<forall>n \<in> set (map snd xs). 8 \<le> net_prefix n \<and> n = net_trunc api n \<and> \<not> overlaps api virt n
      \<and> (\<forall>s \<in> set seen. \<not> overlaps api s n)"
    and "sorted_wrt (\<lambda>a b. \<not> overlaps api a b) (map snd xs)"
  using assms
  by (induction api virt seen xs rule: check_subnets.induct)
    (auto simp: check_subnet_def list_ex_iff)

lemma enumerate_member: "p \<in> set xs \<Longrightarrow> \<exists>i. (i, p) \<in> set (enumerate k xs)"
  by (induction xs arbitrary: k) auto

lemma length_remdups_adj_sorted:
  assumes "sorted xs"
  shows "length (remdups_adj xs) = length xs \<longleftrightarrow> distinct xs"
  using assms
proof (induction xs rule: remdups_adj.induct)
  case (3 x y xs)
  have "length (remdups_adj (x # xs)) \<le> Suc (length xs)"
    using remdups_adj_length [of "x # xs"] by simp
  with 3 show ?case by (cases "x = y") auto
qed simp_all

lemma validated_keys_distinct:
  assumes "validate api cfg = None"
  shows "distinct (map peer_public_key (cfg_peers cfg))"
proof -
  let ?ks = "sort (map peer_public_key (cfg_peers cfg))"
  have "length (remdups_adj ?ks) = length ?ks"
    using validate_None(4) [OF assms] by (simp add: check_keys_def)
  then have "distinct ?ks" using length_remdups_adj_sorted [of ?ks] by (simp only: sorted_sort)
  then show ?thesis by simp
qed

lemma check_ids_None:
  assumes "check_ids err seen xs = None"
  shows "distinct xs" and "\<forall>x \<in> set xs. is_dns_label x" and "set xs \<inter> set seen = {}"
  using assms by (induction err seen xs rule: check_ids.induct) auto

lemma sorted_wrt_concat_pair:
  assumes "sorted_wrt P (concat (map f ps))" and "p \<in> set ps" and "q \<in> set ps" and "p \<noteq> q"
    and "a \<in> set (f p)" and "b \<in> set (f q)"
  shows "P a b \<or> P b a"
  using assms by (induction ps) (auto simp: sorted_wrt_append)

abbreviation advertised :: "config \<Rightarrow> ipv4net list" where
  "advertised cfg \<equiv> concat (map peer_subnets (cfg_peers cfg))"

lemma validated_advertised:
  assumes "validate api cfg = None"
  shows "\<forall>n \<in> set (advertised cfg). 8 \<le> net_prefix n \<and> n = net_trunc api n
      \<and> \<not> overlaps api (net_trunc api (if_address (cfg_interface cfg))) n"
    and "sorted_wrt (\<lambda>a b. \<not> overlaps api a b) (advertised cfg)"
  using check_subnets_None [OF validate_None(3) [OF assms]] unfolding map_snd_all_subnets by auto

lemma overlaps_sym: "overlaps api a b = overlaps api b a"
  by (auto simp: overlaps_def)

lemma not_overlaps_disjoint:
  assumes "ipnet api" and "net_wf N" and "net_wf M" and "\<not> overlaps api N M"
  shows "\<not> (net_contains api N x \<and> net_contains api M x)"
  using ipnet.disjoint_nets [OF assms(1-3)] assms(4) by (simp add: overlaps_def)

lemma validated_prefix:
  "validate api cfg = None \<Longrightarrow> net_prefix (if_address (cfg_interface cfg)) \<le> 30"
  by (drule validate_None(1)) (simp add: check_interface_def Let_def)

lemma validated_outside_virtual:
  assumes "ipnet api" and "validate api cfg = None" and "n \<in> set (advertised cfg)" and "net_wf n"
  shows "\<not> (net_contains api n x \<and> net_contains api (if_address (cfg_interface cfg)) x)"
proof -
  let ?v = "if_address (cfg_interface cfg)"
  have wf: "net_wf ?v" using validated_prefix [OF assms(2)] by (simp add: net_wf_def)
  have "\<not> (net_contains api (net_trunc api ?v) x \<and> net_contains api n x)"
    using validated_advertised(1) [OF assms(2)] assms(3,4) ipnet.trunc_wf [OF assms(1) wf]
    by (intro not_overlaps_disjoint [OF assms(1)]) auto
  then show ?thesis using ipnet.contains_trunc [OF assms(1) wf] by blast
qed

lemma check_records_member:
  assumes "check_records api cfg seen ids rs = None" and "r \<in> set rs"
  shows "is_custom_dns_name (rec_name r)" and "check_record_targets api cfg r = None"
    and "check_record_service r = None" and "(rec_name r, rec_under r) \<notin> set seen"
  using assms by (induction api cfg seen ids rs rule: check_records.induct) auto

lemma check_records_distinct:
  assumes "check_records api cfg seen ids rs = None"
  shows "distinct (map (\<lambda>r. (rec_name r, rec_under r)) rs)"
  using assms
proof (induction api cfg seen ids rs rule: check_records.induct)
  case (2 api cfg seen ids r rs)
  from 2(2) have rest: "check_records api cfg ((rec_name r, rec_under r) # seen)
      (case rec_id r of Some i \<Rightarrow> i # ids | None \<Rightarrow> ids) rs = None" by simp
  have "(rec_name q, rec_under q) \<noteq> (rec_name r, rec_under r)" if "q \<in> set rs" for q
    using check_records_member(4) [OF rest that] by simp
  then have "(rec_name r, rec_under r) \<notin> set (map (\<lambda>r. (rec_name r, rec_under r)) rs)" by fastforce
  with 2(1) [OF rest] show ?case by simp
qed simp

lemma validated_lan_record:
  assumes "validate api cfg = None" and "r \<in> set (cfg_dns_records cfg)"
    and "rec_ip r = Some ip" and "rec_under r = Some m"
  shows "\<exists>p \<in> set (cfg_peers cfg). m = Key (peer_public_key p)
    \<and> (\<exists>n \<in> set (peer_subnets p). net_contains api n ip)"
proof -
  have "check_record_targets api cfg r = None"
    by (rule check_records_member(2) [OF validate_None(7) [OF assms(1)] assms(2)])
  then have "list_ex (\<lambda>n. net_contains api n ip) (parent_subnets cfg m)"
    using assms(3,4) by (simp add: check_record_targets_def Let_def)
  then show ?thesis
    by (auto simp: parent_subnets_def list_ex_iff dest!: find_Some_set [OF sym] split: member_ref.splits option.splits)
qed

lemma validated_peer:
  assumes "validate api cfg = None" and "p \<in> set (cfg_peers cfg)"
  shows "\<exists>i. check_peer (i, p) = None"
  using validate_None(2) [OF assms(1)] enumerate_member [OF assms(2), of 0] by blast

lemma validated_legacy:
  assumes "check_peer (i, p) = None" and "peer_invite_id p = None"
  shows "peer_invite_accepted_at p = None" and "peer_invite_device_id p = None"
    and "\<not> peer_invite_requires_approval p" and "peer_invite_approved_at p = None"
  using assms by (auto simp: check_peer_def check_invite_v3_def split: if_splits)

lemma validated_invite:
  assumes "check_peer (i, p) = None"
  shows "peer_invite_approved_at p \<noteq> None \<Longrightarrow>
      peer_invite_accepted_at p \<noteq> None \<and> peer_invite_requires_approval p"
    and "peer_invite_device_id p \<noteq> None \<longleftrightarrow> peer_invite_accepted_at p \<noteq> None"
    and "peer_invite_issued_at p = Some t \<Longrightarrow> peer_invite_expires_at p = Some e \<Longrightarrow> t < e"
  using assms
  by (auto simp: check_peer_def check_invite_v3_def split: if_splits option.splits)

section \<open>Properties\<close>

text \<open>
  The subnets members advertise never overlap. In a configuration that passes
  \<open>validate\<close>, an address lies in at most one advertised subnet of all members
  together, and in none if it belongs to the virtual network itself; so the routes the host installs
  for them never compete.
\<close>

theorem validated_subnets_disjoint:
  assumes "ipnet api" and "validate api cfg = None" and "\<forall>n \<in> set (advertised cfg). net_wf n"
  shows "i < j \<Longrightarrow> j < length (advertised cfg) \<Longrightarrow>
      \<not> (net_contains api (advertised cfg ! i) x \<and> net_contains api (advertised cfg ! j) x)
      \<and> \<not> (net_contains api (advertised cfg ! j) x \<and> net_contains api (if_address (cfg_interface cfg)) x)"
proof -
  assume ij: "i < j" "j < length (advertised cfg)"
  then have mem: "advertised cfg ! i \<in> set (advertised cfg)" "advertised cfg ! j \<in> set (advertised cfg)"
    by (simp_all del: set_concat)
  have "\<not> overlaps api (advertised cfg ! i) (advertised cfg ! j)"
    by (rule sorted_wrt_nth_less [OF validated_advertised(2) [OF assms(2)] ij])
  then show ?thesis
    using not_overlaps_disjoint [OF assms(1)] validated_outside_virtual [OF assms(1,2)] mem assms(3) by blast
qed

text \<open>
  A LAN device belongs to one member. In a configuration that passes
  \<open>validate\<close>, a DNS record with an address and a parent names a member (never the host) whose
  advertised subnets hold the address, no other member's subnets hold it, and the address is not one of
  the virtual network.
\<close>

theorem lan_record_owner:
  assumes "ipnet api" and "validate api cfg = None" and "\<forall>n \<in> set (advertised cfg). net_wf n"
    and "r \<in> set (cfg_dns_records cfg)" and "rec_ip r = Some ip" and "rec_under r = Some m"
  shows "\<not> net_contains api (if_address (cfg_interface cfg)) ip
    \<and> (\<exists>p \<in> set (cfg_peers cfg). m = Key (peer_public_key p)
        \<and> (\<forall>q \<in> set (cfg_peers cfg). (\<exists>n \<in> set (peer_subnets q). net_contains api n ip) \<longleftrightarrow> q = p))"
proof -
  from validated_lan_record [OF assms(2,4-6)] obtain p n where
    p: "p \<in> set (cfg_peers cfg)" "m = Key (peer_public_key p)"
    and n: "n \<in> set (peer_subnets p)" "net_contains api n ip" by blast
  have wf: "net_wf b" if "q \<in> set (cfg_peers cfg)" "b \<in> set (peer_subnets q)" for q b
    using assms(3) that by auto
  have "q = p" if q: "q \<in> set (cfg_peers cfg)" "b \<in> set (peer_subnets q)" "net_contains api b ip" for q b
  proof (rule ccontr)
    assume "q \<noteq> p"
    from sorted_wrt_concat_pair [OF validated_advertised(2) [OF assms(2)] q(1) p(1) this q(2) n(1)]
    have "\<not> overlaps api b n" using overlaps_sym by blast
    from not_overlaps_disjoint [OF assms(1) wf [OF q(1,2)] wf [OF p(1) n(1)] this] q(3) n(2)
    show False by blast
  qed
  moreover have "\<not> net_contains api (if_address (cfg_interface cfg)) ip"
    using validated_outside_virtual [OF assms(1,2), of n ip] p n wf [OF p(1) n(1)] by auto
  ultimately show ?thesis using p n by blast
qed

text \<open>
  C30: the invitation metadata of a validated configuration is coherent. A member without an
  invitation id is a legacy member, never isolated; an approval exists only for a member who has joined
  and whose invitation asks for one; a member counts as joined exactly when the invitation was accepted
  and no approval is outstanding, and as awaiting approval exactly when it was accepted and one is.
\<close>

theorem validated_invite_lifecycle:
  assumes "validate api cfg = None" and "p \<in> set (cfg_peers cfg)"
  shows "(peer_invite_id p = None \<longrightarrow> invite_state p now = Legacy \<and> \<not> invite_is_isolated p)
    \<and> (peer_invite_approved_at p \<noteq> None \<longrightarrow>
        invite_state p now = Joined \<and> peer_invite_requires_approval p \<and> peer_invite_device_id p \<noteq> None)
    \<and> (invite_state p now = Joined \<longleftrightarrow> peer_invite_accepted_at p \<noteq> None \<and> \<not> invite_is_isolated p)
    \<and> (invite_state p now = Awaiting_Approval \<longleftrightarrow> peer_invite_accepted_at p \<noteq> None \<and> invite_is_isolated p)"
proof -
  from validated_peer [OF assms] obtain i where i: "check_peer (i, p) = None" ..
  show ?thesis
    using validated_legacy [OF i] validated_invite(1,2) [OF i]
    by (auto simp: invite_state_def invite_is_isolated_def)
qed

section \<open>Witnesses\<close>

text \<open>
  Two members with a site behind each, and a printer in the second site.
\<close>

definition site_peer :: "public_key \<Rightarrow> ipv4 \<Rightarrow> ipv4net \<Rightarrow> peer_config" where
  "site_peer key ip net = (sample_peer key ip)\<lparr>peer_subnets := [net]\<rparr>"

definition printer_record :: dns_record_config where
  "printer_record =
     \<lparr>rec_id = None, rec_name = ''printer'', rec_ip = Some 0xC0A80205, rec_member = None, rec_cname = None,
      rec_under = Some (Key [2]), rec_scheme = None, rec_port = None, rec_health_check = None,
      rec_health_kind = None, rec_health_path = None, rec_health_expect_status = None,
      rec_health_external = False\<rparr>"

definition site_config :: config where
  "site_config =
     \<lparr>cfg_interface = sample_interface,
      cfg_peers = [site_peer [1] 0x0A000002 \<lparr>net_addr = 0xC0A80100, net_prefix = 24\<rparr>,
                   site_peer [2] 0x0A000003 \<lparr>net_addr = 0xC0A80200, net_prefix = 24\<rparr>],
      cfg_dns_records = [printer_record], cfg_acl = empty_acl\<rparr>"

lemma printer_name: "is_custom_dns_name ''printer''"
  by code_simp

lemma site_config_valid: "validate cidr_api site_config = None"
  by (simp add: validate_def check_interface_def check_peer_def check_subnet_def all_subnets_def
      overlaps_def check_keys_def check_names_def check_record_targets_def check_record_service_def
      member_exists_def parent_subnets_def compile_def legacy_rules_def normalized_deny_def somes_def
      cidr_api_def cidr_contains_def block_base_def block_size_def site_config_def site_peer_def
      printer_record_def printer_name sample_eval Let_def err_then_def err_when_def)

lemma site_config_nets: "\<forall>n \<in> set (advertised site_config). net_wf n"
  by (simp add: site_config_def site_peer_def net_wf_def)

theorem validated_subnets_disjoint_witness:
  "\<not> (net_contains cidr_api (advertised site_config ! 0) 0xC0A80105
      \<and> net_contains cidr_api (advertised site_config ! 1) 0xC0A80105)"
  using validated_subnets_disjoint [OF cidr.ipnet_axioms site_config_valid site_config_nets, of 0 1 "0xC0A80105"]
  by (simp add: site_config_def site_peer_def)

theorem lan_record_owner_witness:
  "\<not> net_contains cidr_api (if_address (cfg_interface site_config)) 0xC0A80205
    \<and> (\<exists>p \<in> set (cfg_peers site_config). Key [2] = Key (peer_public_key p))"
  using lan_record_owner [OF cidr.ipnet_axioms site_config_valid site_config_nets,
      of printer_record "0xC0A80205" "Key [2]"]
  by (auto simp: site_config_def printer_record_def)

theorem validated_invite_lifecycle_witness:
  "invite_state (site_peer [1] 0x0A000002 \<lparr>net_addr = 0xC0A80100, net_prefix = 24\<rparr>) 7 = Legacy"
  using validated_invite_lifecycle [OF site_config_valid,
      of "site_peer [1] 0x0A000002 \<lparr>net_addr = 0xC0A80100, net_prefix = 24\<rparr>" 7]
  by (simp add: site_config_def site_peer_def sample_peer_def)

end
