(* ===== verification/Config_Store.thy ===== *)
theory Config_Store
  imports Config_Check Token
begin

text \<open>
  The host's configuration file \<^verbatim>\<open>host.toml\<close> as the operations of
  \<^verbatim>\<open>crates/peercove-ops\<close> see it. The file is the \<open>config\<close> its text reads as (comments and
  layout are not modelled). An operation reads it once through \<^verbatim>\<open>Config::load\<close> for its
  checks, takes the lock, reads it again as the document to edit, and writes the edited document if it
  parses and validates. The two reads need not agree, so operations take both: \<open>file\<close>, as read
  before the lock, and \<open>doc\<close>, as read under it.

  Not under \<^verbatim>\<open>src/\<close> and therefore fields of the environment: \<^verbatim>\<open>ipnet\<close>, joining a
  relative path to a directory, the base64 text of a key, and what the TOML reader makes of a Rust
  \<^verbatim>\<open>Debug\<close> string (nothing, if it is not a TOML string).
\<close>

section \<open>Definitions\<close>

record ops_env =
  env_api :: ipnet_api
  env_resolve :: "string \<Rightarrow> string"
  env_key_text :: "public_key \<Rightarrow> string"
  env_debug_string :: "string \<Rightarrow> string option"

datatype ops_error =
    Load_Invalid config_error
  | Result_Invalid config_error
  | Bad_Toml
  | No_Peer_Tables
  | Doc_Peer_Missing
  | No_Such_Peer
  | Ambiguous_Peer
  | Ip_Outside_Subnet ipv4
  | Ip_Is_Host ipv4
  | Key_Registered public_key
  | Ip_Used ipv4 "ipv4 option"
  | Name_Length nat
  | Name_Characters
  | Name_Taken string
  | Dns_Name dns_name_error
  | Dns_Name_Taken string
  | Key_Is_Host
  | Key_In_Use
  | Device_Id_Missing
  | Invite_Used_Elsewhere
  | Invite_Expired
  | Approval_Not_Applicable
  | Join_Not_Received
  | No_Such_Group string
  | Token_Error token_error
  | No_Free_Ip
  | No_Endpoint
  | Clock_Before_Epoch
  | Expiry_Overflow
  | Host_Key_Unreadable
  | Secret_Not_Written
  | Mtu_Range
  | Port_Zero
  | Bad_Endpoint_Text string
  | Network_Name_Length
  | Network_Name_Characters
  | No_Record_Tables
  | No_Such_Record string
  | Bad_Custom_Name string
  | Bad_Scheme string
  | New_Port_Zero
  | Record_Exists string
  | Base_Reserved string
  | Base_Auto_Name string
  | Base_Taken string
  | Parent_Missing
  | Bad_Cname string
  | Record_Id_Missing
  | Not_Delegated
  | Target_Is_Self
  | Target_Is_Host
  | Bad_Cidr string
  | Network_Down
  | Not_A_Member ipv4
  | Target_Count
  | Member_Invites_Off
  | May_Not_Invite
  | Issuer_Without_Id
  | Joined_Peer_Missing

text \<open>\<^verbatim>\<open>Config::load\<close>: the paths are resolved, then the result is validated.\<close>

definition resolve_paths :: "(string \<Rightarrow> string) \<Rightarrow> config \<Rightarrow> config" where
  "resolve_paths f cfg =
     cfg\<lparr>cfg_interface := (cfg_interface cfg)\<lparr>if_private_key_file := f (if_private_key_file (cfg_interface cfg))\<rparr>,
         cfg_peers := map (\<lambda>p. p\<lparr>peer_preshared_key_file := map_option f (peer_preshared_key_file p)\<rparr>) (cfg_peers cfg)\<rparr>"

definition load_config :: "ops_env \<Rightarrow> config \<Rightarrow> ops_error + config" where
  "load_config env file =
     (let cfg = resolve_paths (env_resolve env) file
      in case validate (env_api env) cfg of Some e \<Rightarrow> Inl (Load_Invalid e) | None \<Rightarrow> Inr cfg)"

definition write_validated :: "ops_env \<Rightarrow> config \<Rightarrow> ops_error + config" where
  "write_validated env doc =
     (case validate (env_api env) doc of Some e \<Rightarrow> Inl (Result_Invalid e) | None \<Rightarrow> Inr doc)"

text \<open>A TOML integer is an \<^verbatim>\<open>i64\<close>: a time that does not fit is not read back.\<close>

definition toml_int_ok :: "nat \<Rightarrow> bool" where
  "toml_int_ok t \<longleftrightarrow> t < 2 ^ 63"

subsection \<open>Finding and editing a peer\<close>

datatype selector = Sel_Name string | Sel_Key string | Sel_Ip ipv4

definition first_ip :: "peer_config \<Rightarrow> ipv4 option" where
  "first_ip p = (case peer_allowed_ips p of [] \<Rightarrow> None | n # ns \<Rightarrow> Some (net_addr n))"

fun selects :: "ops_env \<Rightarrow> selector \<Rightarrow> peer_config \<Rightarrow> bool" where
  "selects env (Sel_Name name) p \<longleftrightarrow> peer_name p = Some name"
| "selects env (Sel_Key key) p \<longleftrightarrow> env_key_text env (peer_public_key p) = trim key"
| "selects env (Sel_Ip ip) p \<longleftrightarrow> first_ip p = Some ip"

definition find_peer :: "ops_env \<Rightarrow> config \<Rightarrow> selector \<Rightarrow> ops_error + peer_config" where
  "find_peer env cfg sel =
     (case filter (selects env sel) (cfg_peers cfg) of
        [p] \<Rightarrow> Inr p | [] \<Rightarrow> Inl No_Such_Peer | _ \<Rightarrow> Inl Ambiguous_Peer)"

definition peer_tables :: "config \<Rightarrow> ops_error + peer_config list" where
  "peer_tables doc = (if cfg_peers doc = [] then Inl No_Peer_Tables else Inr (cfg_peers doc))"

text \<open>The loop every editing operation has: change each table with the key, fail if there is none.\<close>

definition edit_peer :: "public_key \<Rightarrow> (peer_config \<Rightarrow> peer_config) \<Rightarrow> config \<Rightarrow> ops_error + config" where
  "edit_peer key f doc =
     and_then (peer_tables doc) (\<lambda>tables.
       bail_if (\<not> list_ex (\<lambda>p. peer_public_key p = key) tables) Doc_Peer_Missing
         (Inr (doc\<lparr>cfg_peers := map (\<lambda>p. if peer_public_key p = key then f p else p) tables\<rparr>)))"

definition peer_display :: "ops_env \<Rightarrow> peer_config \<Rightarrow> string" where
  "peer_display env p = (case peer_name p of Some n \<Rightarrow> n | None \<Rightarrow> env_key_text env (peer_public_key p))"

section \<open>Lemmas\<close>

lemma write_validated_Inr [simp]:
  "write_validated env doc = Inr doc' \<longleftrightarrow> doc' = doc \<and> validate (env_api env) doc = None"
  by (auto simp: write_validated_def split: option.splits)

lemma load_config_Inr [simp]:
  "load_config env file = Inr cfg \<longleftrightarrow>
    cfg = resolve_paths (env_resolve env) file \<and> validate (env_api env) cfg = None"
  by (auto simp: load_config_def Let_def split: option.splits)

lemma peer_tables_Inr [simp]: "peer_tables doc = Inr ts \<longleftrightarrow> ts = cfg_peers doc \<and> ts \<noteq> []"
  by (auto simp: peer_tables_def)

lemma edit_peer_Inr:
  "edit_peer key f doc = Inr doc' \<longleftrightarrow>
    (\<exists>p \<in> set (cfg_peers doc). peer_public_key p = key)
    \<and> doc' = doc\<lparr>cfg_peers := map (\<lambda>p. if peer_public_key p = key then f p else p) (cfg_peers doc)\<rparr>"
  by (auto simp: edit_peer_def list_ex_iff)

lemma find_peer_Inr:
  assumes "find_peer env cfg sel = Inr p"
  shows "p \<in> set (cfg_peers cfg)" and "selects env sel p"
    and "q \<in> set (cfg_peers cfg) \<Longrightarrow> selects env sel q \<Longrightarrow> q = p"
proof -
  have f: "filter (selects env sel) (cfg_peers cfg) = [p]"
    using assms by (auto simp: find_peer_def split: list.splits)
  then have m: "r \<in> set (cfg_peers cfg) \<and> selects env sel r \<longleftrightarrow> r = p" for r
    using set_filter [of "selects env sel" "cfg_peers cfg"] by auto
  then show "p \<in> set (cfg_peers cfg)" and "selects env sel p" by blast+
  show "q = p" if "q \<in> set (cfg_peers cfg)" "selects env sel q" for q
    using that m by blast
qed

text \<open>The fields the operations compare are those of the file.\<close>

abbreviation resolved_peer :: "(string \<Rightarrow> string) \<Rightarrow> peer_config \<Rightarrow> peer_config" where
  "resolved_peer f p \<equiv> p\<lparr>peer_preshared_key_file := map_option f (peer_preshared_key_file p)\<rparr>"

lemma resolve_paths_simps [simp]:
  "cfg_peers (resolve_paths f cfg) = map (resolved_peer f) (cfg_peers cfg)"
  "cfg_dns_records (resolve_paths f cfg) = cfg_dns_records cfg"
  "cfg_acl (resolve_paths f cfg) = cfg_acl cfg"
  "if_address (cfg_interface (resolve_paths f cfg)) = if_address (cfg_interface cfg)"
  "if_require_invite_approval (cfg_interface (resolve_paths f cfg))
     = if_require_invite_approval (cfg_interface cfg)"
  "if_dns_name (cfg_interface (resolve_paths f cfg)) = if_dns_name (cfg_interface cfg)"
  "if_display_name (cfg_interface (resolve_paths f cfg)) = if_display_name (cfg_interface cfg)"
  by (simp_all add: resolve_paths_def)

lemma selects_resolved [simp]: "selects env sel (resolved_peer f p) = selects env sel p"
  by (cases sel) (simp_all add: first_ip_def)

lemma find_peer_resolved:
  "find_peer env (resolve_paths f cfg) sel = (case find_peer env cfg sel of
     Inl e \<Rightarrow> Inl e | Inr p \<Rightarrow> Inr (resolved_peer f p))"
  by (simp add: find_peer_def filter_map comp_def split: list.split)

end
