(* ===== verification/Acl_Ops.thy ===== *)
theory Acl_Ops
  imports Config_Store
begin

text \<open>
  Editing the access policy of \<^verbatim>\<open>host.toml\<close>,
  \<^verbatim>\<open>crates/peercove-ops/src/acl.rs\<close>: the deny pairs, the whole policy, and permission
  groups, which are read through \<open>read_policy\<close> and written back through \<open>write_policy\<close>. The lemmas
  follow what the first such edit does to the deny pairs.
\<close>

section \<open>Definitions\<close>

text \<open>\<^verbatim>\<open>write_deny\<close> replaces the table \<^verbatim>\<open>[acl]\<close>; an absent table reads
  as the default one.\<close>

definition normalize_pairs :: "(ipv4 \<times> ipv4) list \<Rightarrow> (ipv4 \<times> ipv4) list" where
  "normalize_pairs deny = remdups_adj (sort (map (\<lambda>(a, b). if a \<le> b then (a, b) else (b, a)) deny))"

definition write_deny :: "config \<Rightarrow> (ipv4 \<times> ipv4) list \<Rightarrow> config" where
  "write_deny doc deny =
     (let pairs = normalize_pairs deny
      in doc\<lparr>cfg_acl := if pairs = [] then empty_acl else empty_acl\<lparr>acl_deny := pairs\<rparr>\<rparr>)"

definition list_deny :: "ops_env \<Rightarrow> config \<Rightarrow> ops_error + (ipv4 \<times> ipv4) list" where
  "list_deny env file = and_then (load_config env file) (\<lambda>cfg. Inr (normalized_deny (cfg_acl cfg)))"

definition set_deny :: "ops_env \<Rightarrow> config \<Rightarrow> (ipv4 \<times> ipv4) list \<Rightarrow> ops_error + config" where
  "set_deny env doc deny = write_validated env (write_deny doc deny)"

record policy_settings =
  ps_default :: acl_action
  ps_groups :: "acl_group list"
  ps_rules :: "acl_rule list"

text \<open>A deny pair becomes two rules between the two addresses.\<close>

definition migrated_rule :: "nat \<Rightarrow> string \<Rightarrow> ipv4 \<Rightarrow> ipv4 \<Rightarrow> acl_rule" where
  "migrated_rule index suffix source destination =
     \<lparr>rule_id = ''legacy-'' @ show_nat index @ ''-'' @ suffix, rule_action = Deny,
      rule_source = Subnet_Target (host_net source), rule_destination = Subnet_Target (host_net destination),
      rule_protocol = Any_Protocol, rule_ports = [], rule_enabled = True\<rparr>"

definition migrated_rules :: "acl_config \<Rightarrow> acl_rule list" where
  "migrated_rules acl =
     concat (map (\<lambda>(index, (a, b)). [migrated_rule index ''a-b'' a b, migrated_rule index ''b-a'' b a])
       (enumerate 0 (normalized_deny acl)))"

definition read_policy :: "ops_env \<Rightarrow> config \<Rightarrow> ops_error + policy_settings" where
  "read_policy env file =
     and_then (load_config env file) (\<lambda>cfg.
       Inr \<lparr>ps_default = acl_default (cfg_acl cfg), ps_groups = acl_groups (cfg_acl cfg),
            ps_rules = migrated_rules (cfg_acl cfg) @ acl_rules (cfg_acl cfg)\<rparr>)"

text \<open>\<^verbatim>\<open>target_item\<close> writes every text target as \<^verbatim>\<open>"any"\<close>.\<close>

fun target_item :: "acl_target \<Rightarrow> acl_target" where
  "target_item (Any_Target v) = Any_Target ''any''"
| "target_item (Member_Target m) = Member_Target m"
| "target_item (Group_Target g) = Group_Target g"
| "target_item (Subnet_Target n) = Subnet_Target n"
| "target_item (Service_Target s) = Service_Target s"

definition rule_item :: "acl_rule \<Rightarrow> acl_rule" where
  "rule_item r = r\<lparr>rule_source := target_item (rule_source r), rule_destination := target_item (rule_destination r)\<rparr>"

definition write_policy :: "ops_env \<Rightarrow> config \<Rightarrow> policy_settings \<Rightarrow> ops_error + config" where
  "write_policy env doc policy =
     write_validated env (doc\<lparr>cfg_acl :=
       \<lparr>acl_deny = [], acl_default = ps_default policy, acl_groups = ps_groups policy,
        acl_rules = map rule_item (ps_rules policy)\<rparr>\<rparr>)"

subsection \<open>Permission groups\<close>

function show_hex :: "nat \<Rightarrow> string" where
  "show_hex n = (if n < 16 then [hex_digit n] else show_hex (n div 16) @ [hex_digit (n mod 16)])"
  by pat_completeness auto

termination show_hex
  by (relation "measure id") auto

text \<open>The four random bytes of \<^verbatim>\<open>random_group_id\<close>, read as one number, are an argument.\<close>

definition random_group_id :: "u32 \<Rightarrow> string" where
  "random_group_id r = ''group-'' @ show_hex (unat r)"

definition unique_group_id :: "u32 \<Rightarrow> acl_group list \<Rightarrow> string \<Rightarrow> string" where
  "unique_group_id r existing name =
     (let label = (case dns_label name of Some l \<Rightarrow> l | None \<Rightarrow> ''group'');
          base = (if 55 < length label then trim_end_matches hyphen (take 55 label) else label);
          used = (\<lambda>i. list_ex (\<lambda>g. group_id g = i) existing)
      in if \<not> used base then base
         else (case find (\<lambda>c. \<not> used c) (map (\<lambda>n. base @ ''-'' @ show_nat n) [2..<1000]) of
                 Some candidate \<Rightarrow> candidate | None \<Rightarrow> random_group_id r))"

definition perm_group_create :: "ops_env \<Rightarrow> u32 \<Rightarrow> config \<Rightarrow> config \<Rightarrow> string \<Rightarrow> public_key list
    \<Rightarrow> ops_error + (string \<times> config)" where
  "perm_group_create env r file doc name members =
     and_then (read_policy env file) (\<lambda>policy.
       let i = unique_group_id r (ps_groups policy) name;
           g = \<lparr>group_id = i, group_name = trim name, group_members = members\<rparr>
       in and_then (write_policy env doc (policy\<lparr>ps_groups := ps_groups policy @ [g]\<rparr>)) (\<lambda>doc'. Inr (i, doc')))"

text \<open>\<^verbatim>\<open>groups.iter_mut().find(|g| g.id == id)\<close>: the first group with the id is changed.\<close>

fun update_group :: "string \<Rightarrow> (acl_group \<Rightarrow> acl_group) \<Rightarrow> acl_group list \<Rightarrow> ops_error + acl_group list" where
  "update_group i f [] = Inl (No_Such_Group i)"
| "update_group i f (g # gs) =
     (if group_id g = i then Inr (f g # gs) else and_then (update_group i f gs) (\<lambda>gs'. Inr (g # gs')))"

definition perm_group_rename :: "ops_env \<Rightarrow> config \<Rightarrow> config \<Rightarrow> string \<Rightarrow> string \<Rightarrow> ops_error + config" where
  "perm_group_rename env file doc i name =
     and_then (read_policy env file) (\<lambda>policy.
     and_then (update_group i (\<lambda>g. g\<lparr>group_name := trim name\<rparr>) (ps_groups policy)) (\<lambda>groups.
       write_policy env doc (policy\<lparr>ps_groups := groups\<rparr>)))"

definition perm_group_set_members :: "ops_env \<Rightarrow> config \<Rightarrow> config \<Rightarrow> string \<Rightarrow> public_key list
    \<Rightarrow> ops_error + config" where
  "perm_group_set_members env file doc i members =
     and_then (read_policy env file) (\<lambda>policy.
     and_then (update_group i (\<lambda>g. g\<lparr>group_members := members\<rparr>) (ps_groups policy)) (\<lambda>groups.
       write_policy env doc (policy\<lparr>ps_groups := groups\<rparr>)))"

definition target_references_group :: "acl_target \<Rightarrow> string \<Rightarrow> bool" where
  "target_references_group t i \<longleftrightarrow> t = Group_Target i"

definition perm_group_delete :: "ops_env \<Rightarrow> config \<Rightarrow> config \<Rightarrow> string \<Rightarrow> ops_error + config" where
  "perm_group_delete env file doc i =
     and_then (read_policy env file) (\<lambda>policy.
       let groups = filter (\<lambda>g. group_id g \<noteq> i) (ps_groups policy)
       in bail_if (length groups = length (ps_groups policy)) (No_Such_Group i)
            (write_policy env doc (policy\<lparr>ps_groups := groups,
               ps_rules := filter (\<lambda>r. \<not> target_references_group (rule_source r) i
                                     \<and> \<not> target_references_group (rule_destination r) i) (ps_rules policy)\<rparr>)))"

definition import_perm_groups :: "ops_env \<Rightarrow> config \<Rightarrow> config \<Rightarrow> acl_group list \<Rightarrow> ops_error + (bool \<times> config)" where
  "import_perm_groups env file doc groups =
     (if groups = [] then Inr (False, doc)
      else and_then (read_policy env file) (\<lambda>policy.
        if ps_groups policy \<noteq> [] then Inr (False, doc)
        else and_then (write_policy env doc (policy\<lparr>ps_groups := groups\<rparr>)) (\<lambda>doc'. Inr (True, doc'))))"

section \<open>Lemmas\<close>

lemma normalize_pairs_normalized [simp]: "normalize_pairs (acl_deny acl) = normalized_deny acl"
  by (simp add: normalize_pairs_def normalized_deny_def)

lemma write_policy_Inr:
  "write_policy env doc ps = Inr doc' \<longleftrightarrow>
    doc' = doc\<lparr>cfg_acl := \<lparr>acl_deny = [], acl_default = ps_default ps, acl_groups = ps_groups ps,
        acl_rules = map rule_item (ps_rules ps)\<rparr>\<rparr> \<and> validate (env_api env) doc' = None"
  by (auto simp: write_policy_def)

lemma read_policy_Inr:
  "read_policy env file = Inr ps \<longleftrightarrow> validate (env_api env) (resolve_paths (env_resolve env) file) = None
    \<and> ps = \<lparr>ps_default = acl_default (cfg_acl file), ps_groups = acl_groups (cfg_acl file),
            ps_rules = migrated_rules (cfg_acl file) @ acl_rules (cfg_acl file)\<rparr>"
  by (auto simp: read_policy_def)

lemma rule_item_fields [simp]:
  "rule_enabled (rule_item r) = rule_enabled r" "rule_action (rule_item r) = rule_action r"
  "rule_id (rule_item r) = rule_id r" "rule_protocol (rule_item r) = rule_protocol r"
  "rule_ports (rule_item r) = rule_ports r"
  by (simp_all add: rule_item_def)

lemma rule_item_migrated [simp]: "rule_item (migrated_rule i s a b) = migrated_rule i s a b"
  by (simp add: rule_item_def migrated_rule_def)

lemma migrated_rule_fields [simp]:
  "rule_enabled (migrated_rule i s a b)" "rule_action (migrated_rule i s a b) = Deny"
  by (simp_all add: migrated_rule_def)

lemma enumerate_fst: "(i, p) \<in> set (enumerate k xs) \<Longrightarrow> p \<in> set xs"
  by (induction xs arbitrary: k) auto

lemma migrated_rules_iff:
  "(\<exists>i s. migrated_rule i s a b \<in> set (migrated_rules acl)) \<longleftrightarrow> is_denied acl a b"
proof
  assume "\<exists>i s. migrated_rule i s a b \<in> set (migrated_rules acl)"
  then show "is_denied acl a b"
    unfolding normalized_deny_iff [symmetric] migrated_rules_def
    by (auto simp: migrated_rule_def host_net_def dest!: enumerate_fst)
next
  assume "is_denied acl a b"
  then consider "(a, b) \<in> set (normalized_deny acl)" | "(b, a) \<in> set (normalized_deny acl)"
    unfolding normalized_deny_iff [symmetric] by blast
  then show "\<exists>i s. migrated_rule i s a b \<in> set (migrated_rules acl)"
  proof cases
    case 1
    from enumerate_member [OF this, of 0] show ?thesis unfolding migrated_rules_def by force
  next
    case 2
    from enumerate_member [OF this, of 0] show ?thesis unfolding migrated_rules_def by force
  qed
qed

lemma migrated_rules_shape:
  "u \<in> set (migrated_rules acl) \<Longrightarrow> \<exists>i s a b. u = migrated_rule i s a b \<and> is_denied acl a b"
proof -
  assume u: "u \<in> set (migrated_rules acl)"
  then obtain i s a b where "u = migrated_rule i s a b" unfolding migrated_rules_def by auto
  with u migrated_rules_iff show ?thesis by metis
qed

lemma compile_rules_complete:
  assumes "compile api cfg = Inr pol" and "u \<in> set (acl_rules (cfg_acl cfg))" and "rule_enabled u"
  shows "\<exists>r \<in> set (pol_rules pol). compile_rule cfg u = Inr r"
proof -
  from compile_Inr [OF assms(1)] obtain rules where
    rules: "list_all2 (\<lambda>x y. compile_rule cfg x = Inr y) (filter rule_enabled (acl_rules (cfg_acl cfg))) rules"
    and pol: "set rules \<subseteq> set (pol_rules pol)" by (auto simp: collect_result_Inr)
  have "\<exists>y \<in> set ys. P x y" if "list_all2 P xs ys" "x \<in> set xs" for P xs x and ys :: "resolved_rule list"
    using that by (induction rule: list_all2_induct) auto
  from this [OF rules, of u] pol assms(2,3) show ?thesis by auto
qed

lemma compiled_migrated:
  assumes "ipnet api" and "compile_rule cfg (migrated_rule i s a b) = Inr r"
  shows "rule_applies api r x y protocol port \<longleftrightarrow> x = a \<and> y = b"
proof -
  note c = compile_rule_Inr [OF assms(2)]
  have "rr_source r = [host_net a]" "rr_destination r = [host_net b]" "rr_ports r = []"
      "rr_protocol r = Any_Protocol"
    using c(3-6) by (simp_all add: migrated_rule_def parse_ports_def)
  then show ?thesis using ipnet.contains_host [OF assms(1)]
    by (simp add: rule_applies_def matches_ip_def protocol_matches_def)
qed

lemma no_deny_no_legacy: "acl_deny (cfg_acl cfg) = [] \<Longrightarrow> legacy_rules api cfg = []"
  by (simp add: legacy_rules_def normalized_deny_def)

lemma no_double_no_hyphen: "hyphen \<notin> set s \<Longrightarrow> no_double s"
  unfolding no_double_def by (induction s rule: induct_list012) auto

lemma label_ok_trim_take:
  assumes "label_ok l" and "0 < k"
  shows "label_ok (trim_end_matches hyphen (take k l))"
proof -
  let ?u = "take k l" let ?t = "trim_end_matches hyphen ?u"
  have u: "?u \<noteq> []" "hd ?u = hd l" using assms by (auto simp: label_ok_def)
  have t: "?t \<noteq> []"
  proof
    assume "?t = []"
    then have "\<forall>c \<in> set ?u. c = hyphen" by (simp add: trim_end_matches_def)
    with u assms(1) hd_in_set [OF u(1)] show False by (auto simp: label_ok_def)
  qed
  obtain b where b: "?u = ?t @ b" using trim_end_matches_split by metis
  then obtain c where l: "l = ?t @ c" by (metis append_take_drop_id append_assoc)
  have "no_double ?t" "list_all label_char ?t" "length ?t \<le> MAX_LABEL_LEN"
    using assms(1) l no_double_sub [of "[]" ?t c] unfolding label_ok_def
    by (metis append_Nil, metis list_all_append, metis length_append le_add1 order_trans)
  then show ?thesis
    using t u assms(1) trim_end_matches_last [OF t] trim_end_matches_hd [OF t] by (simp add: label_ok_def)
qed

lemma label_ok_suffix:
  assumes "label_ok b" and "s \<noteq> []" and "list_all is_lower_alnum s" and "length b + length s < MAX_LABEL_LEN"
  shows "label_ok (b @ ''-'' @ s)"
proof -
  have nh: "hyphen \<notin> set s"
    using assms(3) by (auto simp: list_all_iff is_lower_alnum_def is_lower_def is_digit_def)
  then have "no_double s" "hd s \<noteq> hyphen" "last s \<noteq> hyphen"
    using assms(2) no_double_no_hyphen by (auto dest: hd_in_set last_in_set)
  moreover have "list_all label_char s" using assms(3) by (auto simp: list_all_iff label_char_def)
  moreover have "no_double (b @ hyphen # s)"
    using assms(1,2) calculation no_double_append [of "[hyphen]" s] no_double_append [of b "hyphen # s"]
    by (auto simp: label_ok_def)
  ultimately show ?thesis using assms by (simp add: label_ok_def label_char_def)
qed

lemma show_nat_alnum: "list_all is_lower_alnum (show_nat n)"
  using show_nat_digits [of n] by (auto simp: list_all_iff is_lower_alnum_def)

lemma length_show_nat: "n < 10 ^ Suc k \<Longrightarrow> length (show_nat n) \<le> Suc k"
proof (induction k arbitrary: n)
  case (Suc k)
  then have "length (show_nat (n div 10)) \<le> Suc k" by (intro Suc.IH) simp
  then show ?case by (subst show_nat.simps) simp
qed (simp add: show_nat.simps)

lemma show_hex_ok: "list_all is_lower_alnum (show_hex n) \<and> show_hex n \<noteq> []"
proof (induction n rule: show_hex.induct)
  case (1 n)
  have d: "is_lower_alnum (hex_digit d)" if "d < 16" for d
    using that by (simp add: hex_digit_def is_lower_alnum_def is_lower_def is_digit_def)
  from 1 d [of n] d [of "n mod 16"] show ?case by (cases "n < 16") simp_all
qed

lemma length_show_hex: "n < 16 ^ Suc k \<Longrightarrow> length (show_hex n) \<le> Suc k"
proof (induction k arbitrary: n)
  case (Suc k)
  then have "length (show_hex (n div 16)) \<le> Suc k" by (intro Suc.IH) simp
  then show ?case by (subst show_hex.simps) simp
qed simp

declare show_hex.simps [simp del]

lemma random_group_id_ok: "label_ok (random_group_id r)"
proof -
  have "length (show_hex (unat r)) \<le> Suc 7"
    by (rule length_show_hex) (use unat_ipv4_lt [of r] in simp)
  then have "label_ok (''group'' @ ''-'' @ show_hex (unat r))"
    using show_hex_ok [of "unat r"]
    by (intro label_ok_suffix)
      (auto simp: MAX_LABEL_LEN_def label_ok_def no_double_no_hyphen label_char_def is_lower_alnum_def is_lower_def)
  then show ?thesis by (simp add: random_group_id_def)
qed

lemma find_suffix_cases:
  assumes "i = (if \<not> used b then b else
      case find (\<lambda>c. \<not> used c) (map (\<lambda>n. b @ ''-'' @ show_nat n) [2..<1000]) of Some c \<Rightarrow> c | None \<Rightarrow> d)"
  shows "i = b \<and> \<not> used b
     \<or> (\<exists>n<1000. i = b @ ''-'' @ show_nat n \<and> \<not> used (b @ ''-'' @ show_nat n))
     \<or> i = d \<and> used b \<and> (\<forall>n \<in> {2..<1000}. used (b @ ''-'' @ show_nat n))"
proof (cases "used b")
  case True
  let ?cs = "map (\<lambda>n. b @ ''-'' @ show_nat n) [2..<1000]"
  show ?thesis
  proof (cases "find (\<lambda>c. \<not> used c) ?cs")
    case None
    then have "\<forall>c \<in> set ?cs. used c" by (simp only: find_None_set not_not)
    then have "\<forall>n \<in> {2..<1000}. used (b @ ''-'' @ show_nat n)" by (simp only: set_map set_upt ball_simps)
    moreover have "i = d" using assms True None by (simp only: not_True_eq_False if_False option.case)
    ultimately show ?thesis using True by blast
  next
    case (Some c)
    from find_Some_set [OF Some] have "c \<in> (\<lambda>n. b @ ''-'' @ show_nat n) ` {2..<1000}" "\<not> used c"
      unfolding set_map set_upt by blast+
    moreover have "i = c" using assms True Some by (simp only: not_True_eq_False if_False option.case)
    ultimately show ?thesis by auto
  qed
qed (use assms in simp)

lemma unique_group_id_cases:
  "\<exists>b. label_ok b \<and> length b \<le> 55 \<and>
    (unique_group_id r existing name = b \<and> b \<notin> group_id ` set existing
     \<or> (\<exists>n<1000. unique_group_id r existing name = b @ ''-'' @ show_nat n
           \<and> b @ ''-'' @ show_nat n \<notin> group_id ` set existing)
     \<or> unique_group_id r existing name = random_group_id r \<and> b \<in> group_id ` set existing
         \<and> (\<forall>n \<in> {2..<1000}. b @ ''-'' @ show_nat n \<in> group_id ` set existing))"
proof -
  let ?l = "case dns_label name of Some l \<Rightarrow> l | None \<Rightarrow> ''group''"
  let ?b = "if 55 < length ?l then trim_end_matches hyphen (take 55 ?l) else ?l"
  have "label_ok ''group''"
    by (simp add: label_ok_def MAX_LABEL_LEN_def no_double_no_hyphen label_char_def is_lower_alnum_def is_lower_def)
  then have "label_ok ?l" by (auto split: option.split dest: dns_label_ok)
  then have ok: "label_ok ?b" using label_ok_trim_take [of ?l 55] by simp
  have "length (trim_end_matches hyphen (take 55 ?l)) \<le> length (take 55 ?l)"
    using trim_end_matches_split [of "take 55 ?l" hyphen] by (metis length_append le_add1)
  then have len: "length ?b \<le> 55" by simp
  have used: "(\<lambda>i. list_ex (\<lambda>g. group_id g = i) existing) = (\<lambda>i. i \<in> group_id ` set existing)"
    by (auto simp: list_ex_iff)
  have "unique_group_id r existing name = (if \<not> ?b \<in> group_id ` set existing then ?b else
      case find (\<lambda>c. \<not> c \<in> group_id ` set existing) (map (\<lambda>n. ?b @ ''-'' @ show_nat n) [2..<1000]) of
        Some c \<Rightarrow> c | None \<Rightarrow> random_group_id r)"
    by (simp only: unique_group_id_def Let_def used)
  from find_suffix_cases [OF this] ok len show ?thesis by blast
qed

lemma all_suffixes_used:
  assumes "b \<in> set ids" and "\<forall>n \<in> {2..<1000::nat}. b @ ''-'' @ show_nat n \<in> set ids"
  shows "999 \<le> length ids"
proof -
  let ?f = "\<lambda>n. b @ ''-'' @ show_nat n"
  have inj: "inj_on ?f {2..<1000}" by (simp add: inj_on_def)
  have "b \<notin> ?f ` {2..<1000}" by auto
  moreover have "card (?f ` {2..<1000}) = 998" by (subst card_image [OF inj]) simp
  ultimately have "card (insert b (?f ` {2..<1000})) = 999" by (subst card_insert_disjoint) auto
  moreover have "card (insert b (?f ` {2..<1000})) \<le> card (set ids)"
    using assms by (intro card_mono) auto
  ultimately show ?thesis using card_length [of ids] by linarith
qed

section \<open>Properties\<close>

text \<open>
  The id of a new permission group is usable. Whatever the name is, the id made from it is a valid
  DNS label, and as long as fewer than 999 groups exist it is the id of none of them.
\<close>

theorem unique_group_id_fresh:
  "is_dns_label (unique_group_id r existing name)
   \<and> (length existing < 999 \<longrightarrow> unique_group_id r existing name \<notin> group_id ` set existing)"
proof -
  let ?i = "unique_group_id r existing name"
  obtain b where b: "label_ok b" "length b \<le> 55" and cs: "?i = b \<and> b \<notin> group_id ` set existing
     \<or> (\<exists>n<1000. ?i = b @ ''-'' @ show_nat n \<and> b @ ''-'' @ show_nat n \<notin> group_id ` set existing)
     \<or> ?i = random_group_id r \<and> b \<in> group_id ` set existing
         \<and> (\<forall>n \<in> {2..<1000}. b @ ''-'' @ show_nat n \<in> group_id ` set existing)"
    using unique_group_id_cases [of r existing name] by blast
  have "label_ok (b @ ''-'' @ show_nat n)" if "n < 1000" for n
    using b that length_show_nat [of n 2]
    by (intro label_ok_suffix) (auto simp: show_nat_alnum MAX_LABEL_LEN_def)
  with cs b random_group_id_ok [of r] have "label_ok ?i" by auto
  moreover have "999 \<le> length existing" if "b \<in> group_id ` set existing"
      "\<forall>n \<in> {2..<1000}. b @ ''-'' @ show_nat n \<in> group_id ` set existing"
    using all_suffixes_used [of b "map group_id existing"] that by simp
  ultimately show ?thesis using cs unfolding is_dns_label_iff by (metis not_less)
qed

text \<open>
  The first edit of a permission group narrows the deny pairs. When a policy is read and
  written back, each pair becomes rules between the two addresses alone: with no enabled rule and the
  default action allow, exactly the packets between the two addresses of a pair are still denied, while
  before (\<open>deny_pairs_only\<close>) the subnets behind both members were cut off as well.
\<close>

theorem migrated_pairs_cover_addresses_only:
  assumes "ipnet (env_api env)" and "read_policy env file = Inr policy"
    and "write_policy env file policy = Inr file'"
    and "\<forall>r \<in> set (acl_rules (cfg_acl file)). \<not> rule_enabled r" and "acl_default (cfg_acl file) = Allow"
  shows "\<exists>pol. compile (env_api env) file' = Inr pol
    \<and> (dec_action (evaluate (env_api env) pol x y protocol port) = Deny \<longleftrightarrow> is_denied (cfg_acl file) x y)"
proof -
  let ?api = "env_api env" let ?m = "migrated_rules (cfg_acl file)"
  from assms(2) have ps: "policy = \<lparr>ps_default = Allow, ps_groups = acl_groups (cfg_acl file),
      ps_rules = ?m @ acl_rules (cfg_acl file)\<rparr>" using assms(5) by (simp add: read_policy_Inr)
  from assms(3) ps have acl: "cfg_acl file' = \<lparr>acl_deny = [], acl_default = Allow,
      acl_groups = acl_groups (cfg_acl file), acl_rules = map rule_item (?m @ acl_rules (cfg_acl file))\<rparr>"
    and "validate ?api file' = None" by (auto simp: write_policy_Inr)
  then obtain pol where pol: "compile ?api file' = Inr pol" using validate_None(10) by blast
  have legacy: "legacy_rules ?api file' = []" using acl by (simp add: no_deny_no_legacy)
  have origin: "\<exists>i s a b. is_denied (cfg_acl file) a b \<and> compile_rule file' (migrated_rule i s a b) = Inr r"
    if r: "r \<in> set (pol_rules pol)" for r
  proof -
    from compile_rules_origin [OF pol r] legacy obtain u where
      u: "u \<in> rule_item ` set (?m @ acl_rules (cfg_acl file))" "rule_enabled u" "compile_rule file' u = Inr r"
      using acl by auto
    then obtain v where v: "v \<in> set ?m" "u = rule_item v" using assms(4) by auto
    from migrated_rules_shape [OF v(1)] obtain i s a b where
      "v = migrated_rule i s a b" "is_denied (cfg_acl file) a b" by blast
    with v(2) u(3) have "is_denied (cfg_acl file) a b \<and> compile_rule file' (migrated_rule i s a b) = Inr r"
      by (simp only: rule_item_migrated)
    then show ?thesis by blast
  qed
  have complete: "\<exists>r \<in> set (pol_rules pol). rule_applies ?api r a b protocol port"
    if d: "is_denied (cfg_acl file) a b" for a b
  proof -
    from d obtain i s where "migrated_rule i s a b \<in> set ?m" using migrated_rules_iff by blast
    then have "migrated_rule i s a b \<in> set (acl_rules (cfg_acl file'))"
      using acl by (auto intro: rev_image_eqI)
    from compile_rules_complete [OF pol this] compiled_migrated [OF assms(1)] show ?thesis by fastforce
  qed
  have "dec_action (evaluate ?api pol x y protocol port) = Deny \<longleftrightarrow>
      (\<exists>r \<in> set (pol_rules pol). rule_applies ?api r x y protocol port)"
  proof -
    have "rr_action r = Deny" if "r \<in> set (pol_rules pol)" for r
      using origin [OF that] compile_rule_Inr(2) by fastforce
    moreover have "pol_default pol = Allow" using compile_Inr [OF pol] acl by auto
    ultimately show ?thesis
      using find_None_set [of "\<lambda>r. rule_applies ?api r x y protocol port" "pol_rules pol"]
      by (auto simp: evaluate_find split: option.splits dest: find_Some_set)
  qed
  also have "\<dots> \<longleftrightarrow> is_denied (cfg_acl file) x y"
    using origin complete [of x y] by (auto simp: compiled_migrated [OF assms(1)]) (metis compiled_migrated [OF assms(1)])
  finally show ?thesis using pol by blast
qed

section \<open>Witnesses\<close>

definition sample_env :: ops_env where
  "sample_env = \<lparr>env_api = cidr_api, env_resolve = (\<lambda>p. p), env_key_text = bytes_str, env_debug_string = Some\<rparr>"

text \<open>The two sites of \<open>site_config\<close>, whose members are a deny pair.\<close>

definition cut_config :: config where
  "cut_config = site_config\<lparr>cfg_acl := empty_acl\<lparr>acl_deny := [(0x0A000003, 0x0A000002)]\<rparr>\<rparr>"

definition cut_policy :: policy_settings where
  "cut_policy = \<lparr>ps_default = Allow, ps_groups = [],
     ps_rules = [migrated_rule 0 ''a-b'' 0x0A000002 0x0A000003, migrated_rule 0 ''b-a'' 0x0A000003 0x0A000002]\<rparr>"

lemmas validate_eval = validate_def check_interface_def check_peer_def check_subnet_def all_subnets_def
  overlaps_def check_keys_def check_names_def check_deny_def check_record_targets_def check_record_service_def
  member_exists_def parent_subnets_def somes_def cidr_api_def cidr_contains_def
  block_base_def block_size_def printer_name sample_eval Let_def err_then_def err_when_def

lemma cut_normalized: "normalized_deny (empty_acl\<lparr>acl_deny := [(0x0A000003, 0x0A000002)]\<rparr>) = [(0x0A000002, 0x0A000003)]"
  by (simp add: normalized_deny_def empty_acl_def)

lemma cut_config_valid: "validate cidr_api (resolve_paths (\<lambda>p. p) cut_config) = None"
  by (simp add: validate_eval compile_def resolve_paths_def site_config_def site_peer_def
      printer_record_def cut_config_def)

lemma legacy_label: "is_dns_label ''legacy-0-a-b''" "is_dns_label ''legacy-0-b-a''"
  by code_simp+

lemma show_nat_0: "show_nat 0 = ''0''"
  by code_simp

definition cut_written :: config where
  "cut_written = cut_config\<lparr>cfg_acl := \<lparr>acl_deny = [], acl_default = Allow, acl_groups = [],
     acl_rules = ps_rules cut_policy\<rparr>\<rparr>"

lemma cut_written_fields:
  "cfg_interface cut_written = cfg_interface site_config" "cfg_peers cut_written = cfg_peers site_config"
  "cfg_dns_records cut_written = [printer_record]"
  "cfg_acl cut_written = \<lparr>acl_deny = [], acl_default = Allow, acl_groups = [], acl_rules = ps_rules cut_policy\<rparr>"
  by (simp_all add: cut_written_def cut_config_def site_config_def)

lemma cut_written_compiles: "\<exists>pol. compile cidr_api cut_written = Inr pol"
proof -
  have "trim ''legacy-0-a-b'' = ''legacy-0-a-b''" "trim ''legacy-0-b-a'' = ''legacy-0-b-a''"
    by (auto intro!: trim_visible simp: ascii_def)
  then show ?thesis
    by (simp add: compile_def cut_written_fields cut_policy_def migrated_rule_def compile_rule_def
        parse_ports_def show_nat_0)
qed

lemma cut_policy_rules: "ps_rules cut_policy =
    [migrated_rule 0 ''a-b'' 0x0A000002 0x0A000003, migrated_rule 0 ''b-a'' 0x0A000003 0x0A000002]"
  by (simp add: cut_policy_def)

lemma cut_written_valid: "validate cidr_api cut_written = None"
proof -
  have ids: "map rule_id (ps_rules cut_policy) = [''legacy-0-a-b'', ''legacy-0-b-a'']"
    by (simp add: cut_policy_rules migrated_rule_def show_nat_0)
  obtain pol where "compile cidr_api cut_written = Inr pol" using cut_written_compiles by blast
  then show ?thesis using legacy_label ids
    by (simp add: cut_written_fields validate_eval site_config_def site_peer_def printer_record_def)
qed

lemma cut_read: "read_policy sample_env cut_config = Inr cut_policy"
  using cut_config_valid cut_normalized
  by (simp add: read_policy_Inr sample_env_def cut_config_def migrated_rules_def cut_policy_def empty_acl_def)

lemma cut_write: "write_policy sample_env cut_config cut_policy = Inr cut_written"
  using cut_written_valid
  by (simp add: write_policy_Inr sample_env_def cut_written_def cut_policy_def)

theorem migrated_pairs_cover_addresses_only_witness:
  "\<exists>pol. compile cidr_api cut_written = Inr pol
    \<and> dec_action (evaluate cidr_api pol 0x0A000002 0x0A000003 6 (Some 80)) = Deny
    \<and> dec_action (evaluate cidr_api pol 0xC0A80105 0x0A000003 6 (Some 80)) = Allow"
proof -
  have n: "\<forall>r \<in> set (acl_rules (cfg_acl cut_config)). \<not> rule_enabled r" "acl_default (cfg_acl cut_config) = Allow"
    by (simp_all add: cut_config_def empty_acl_def)
  have e: "ipnet (env_api sample_env)" "env_api sample_env = cidr_api"
    by (simp_all add: sample_env_def cidr.ipnet_axioms)
  note m = migrated_pairs_cover_addresses_only [OF e(1) cut_read cut_write n, unfolded e(2)]
  from m [of "0x0A000002" "0x0A000003" 6 "Some 80"] obtain pol where pol: "compile cidr_api cut_written = Inr pol"
    and d: "dec_action (evaluate cidr_api pol 0x0A000002 0x0A000003 6 (Some 80)) = Deny"
    by (auto simp: is_denied_def cut_config_def)
  from m [of "0xC0A80105" "0x0A000003" 6 "Some 80"] pol
  have "dec_action (evaluate cidr_api pol 0xC0A80105 0x0A000003 6 (Some 80)) \<noteq> Deny"
    by (auto simp: is_denied_def cut_config_def)
  then have "dec_action (evaluate cidr_api pol 0xC0A80105 0x0A000003 6 (Some 80)) = Allow"
    by (cases "dec_action (evaluate cidr_api pol 0xC0A80105 0x0A000003 6 (Some 80))") simp_all
  with pol d show ?thesis by blast
qed

theorem unique_group_id_fresh_witness:
  "unique_group_id 0 [\<lparr>group_id = ''staff'', group_name = [], group_members = []\<rparr>] ''Staff'' \<noteq> ''staff''"
  using unique_group_id_fresh [of 0 "[\<lparr>group_id = ''staff'', group_name = [], group_members = []\<rparr>]" "''Staff''"]
  by simp

end
