(* ===== verification/Peers.thy ===== *)
theory Peers
  imports Acl_Ops
begin

text \<open>
  Members of \<^verbatim>\<open>host.toml\<close>, \<^verbatim>\<open>crates/peercove-ops/src/peers.rs\<close>: adding,
  removing, renaming, key rotation, names, the life of an invitation. An operation takes the file as
  read before the lock and the document read under it (\<open>Config_Store\<close>) and gives an error or the
  written document with its outcome.
\<close>

section \<open>Adding a member\<close>

record new_peer =
  np_public_key :: public_key
  np_ip :: ipv4
  np_name :: "string option"
  np_dns_name :: "string option"
  np_preshared_key_file :: "string option"
  np_invite_id :: "string option"
  np_invite_issued_at :: "nat option"
  np_invite_expires_at :: "nat option"
  np_invited_by_id :: "string option"
  np_invited_by_name :: "string option"

definition used_ips :: "config \<Rightarrow> ipv4 list" where
  "used_ips cfg =
     net_addr (if_address (cfg_interface cfg))
     # concat (map (\<lambda>p. map net_addr (peer_allowed_ips p)) (cfg_peers cfg))"

text \<open>
  The block of text appended to the file, as the table it is read back as: strings go through
  \<^verbatim>\<open>toml_string\<close> and the TOML reader, times through TOML integers.
\<close>

definition read_back :: "ops_env \<Rightarrow> string option \<Rightarrow> string option option" where
  "read_back env s = (case s of None \<Rightarrow> Some None | Some t \<Rightarrow> map_option Some (env_debug_string env t))"

definition peer_block :: "ops_env \<Rightarrow> config \<Rightarrow> new_peer \<Rightarrow> peer_config option" where
  "peer_block env cfg np =
     Option.bind (read_back env (np_name np)) (\<lambda>name.
     Option.bind (read_back env (np_dns_name np)) (\<lambda>dns_name.
     Option.bind (read_back env (np_invite_id np)) (\<lambda>invite_id.
     Option.bind (read_back env (np_invited_by_id np)) (\<lambda>invited_by_id.
     Option.bind (read_back env (np_invited_by_name np)) (\<lambda>invited_by_name.
     Option.bind (read_back env (np_preshared_key_file np)) (\<lambda>psk.
       if list_all toml_int_ok (somes [np_invite_issued_at np, np_invite_expires_at np]) then
         Some \<lparr>peer_name = name, peer_dns_name = dns_name, peer_invite_id = invite_id,
           peer_invite_issued_at = np_invite_issued_at np, peer_invite_expires_at = np_invite_expires_at np,
           peer_invite_accepted_at = None, peer_invite_device_id = None,
           peer_invite_requires_approval =
             if_require_invite_approval (cfg_interface cfg) \<and> np_invite_id np \<noteq> None,
           peer_invite_approved_at = None, peer_can_invite = False, peer_admin = False,
           peer_invited_by_id = invited_by_id, peer_invited_by_name = invited_by_name,
           peer_control_host = None, peer_public_key = np_public_key np, peer_endpoint = None,
           peer_endpoint_fallbacks = [], peer_allowed_ips = [host_net (np_ip np)], peer_subnets = [],
           peer_persistent_keepalive = None, peer_preshared_key_file = psk\<rparr>
       else None))))))"

definition append_peer :: "ops_env \<Rightarrow> config \<Rightarrow> new_peer \<Rightarrow> ops_error + config" where
  "append_peer env doc np =
     and_then (load_config env doc) (\<lambda>cfg.
       let ip = np_ip np; subnet = net_trunc (env_api env) (if_address (cfg_interface cfg)); used = used_ips cfg
       in bail_if (\<not> net_contains (env_api env) subnet ip) (Ip_Outside_Subnet ip)
         (bail_if (ip = net_addr (if_address (cfg_interface cfg))) (Ip_Is_Host ip)
         (bail_if (list_ex (\<lambda>p. peer_public_key p = np_public_key np) (cfg_peers cfg)) (Key_Registered (np_public_key np))
         (bail_if (ip \<in> set used) (Ip_Used ip (next_free_ip (env_api env) subnet used))
         (case peer_block env cfg np of
            None \<Rightarrow> Inl Bad_Toml
          | Some p \<Rightarrow> write_validated env (doc\<lparr>cfg_peers := cfg_peers doc @ [p]\<rparr>))))))"

section \<open>Removing a member\<close>

record removed_peer =
  rm_display :: string
  rm_public_key :: public_key
  rm_psk_file :: "string option"

text \<open>The clean-up of \<^verbatim>\<open>[acl]\<close>: the deny pairs of the address, read from \<open>cfg\<close>.\<close>

definition remove_deny :: "config \<Rightarrow> ipv4 option \<Rightarrow> config \<Rightarrow> config" where
  "remove_deny cfg removed_ip doc =
     (case removed_ip of
        None \<Rightarrow> doc
      | Some ip \<Rightarrow>
          if list_ex (\<lambda>(a, b). a = ip \<or> b = ip) (acl_deny (cfg_acl cfg))
          then write_deny doc (filter (\<lambda>(a, b). a \<noteq> ip \<and> b \<noteq> ip) (normalized_deny (cfg_acl cfg)))
          else doc)"

definition services_of :: "config \<Rightarrow> public_key \<Rightarrow> string list" where
  "services_of cfg key =
     somes (map rec_id (filter (\<lambda>r. rec_member r = Some (Key key) \<or> rec_under r = Some (Key key))
       (cfg_dns_records cfg)))"

definition removed_groups :: "public_key \<Rightarrow> acl_group list \<Rightarrow> string list" where
  "removed_groups key groups =
     map group_id (filter (\<lambda>g. filter (\<lambda>m. m \<noteq> key) (group_members g) = []) groups)"

definition remove_groups :: "public_key \<Rightarrow> acl_group list \<Rightarrow> acl_group list" where
  "remove_groups key groups =
     filter (\<lambda>g. group_id g \<notin> set (removed_groups key groups))
       (map (\<lambda>g. g\<lparr>group_members := filter (\<lambda>m. m \<noteq> key) (group_members g)\<rparr>) groups)"

definition target_removed :: "public_key \<Rightarrow> string list \<Rightarrow> string list \<Rightarrow> acl_target \<Rightarrow> bool" where
  "target_removed key groups services t =
     (case t of
        Member_Target m \<Rightarrow> m = key
      | Group_Target g \<Rightarrow> g \<in> set groups
      | Service_Target s \<Rightarrow> s \<in> set services
      | _ \<Rightarrow> False)"

definition remove_references :: "config \<Rightarrow> public_key \<Rightarrow> config \<Rightarrow> config" where
  "remove_references cfg key doc =
     (let groups = removed_groups key (acl_groups (cfg_acl doc));
          services = services_of cfg key
      in doc\<lparr>cfg_acl := (cfg_acl doc)
               \<lparr>acl_groups := remove_groups key (acl_groups (cfg_acl doc)),
                acl_rules := filter (\<lambda>r. \<not> target_removed key groups services (rule_source r)
                                        \<and> \<not> target_removed key groups services (rule_destination r))
                              (acl_rules (cfg_acl doc))\<rparr>,
            cfg_dns_records := filter (\<lambda>r. rec_member r \<noteq> Some (Key key) \<and> rec_under r \<noteq> Some (Key key))
                                 (cfg_dns_records doc)\<rparr>)"

text \<open>
  The file with the pre-shared key is named in the outcome; deleting it is a file operation and not
  modelled.
\<close>

definition remove_peer :: "ops_env \<Rightarrow> config \<Rightarrow> config \<Rightarrow> selector \<Rightarrow> ops_error + (removed_peer \<times> config)" where
  "remove_peer env file doc sel =
     and_then (load_config env file) (\<lambda>cfg.
     and_then (find_peer env cfg sel) (\<lambda>target.
     and_then (peer_tables doc) (\<lambda>tables.
       let key = peer_public_key target; kept = filter (\<lambda>p. peer_public_key p \<noteq> key) tables
       in bail_if (length kept \<noteq> length tables - 1) Doc_Peer_Missing
         (and_then (write_validated env
             (remove_references cfg key (remove_deny cfg (first_ip target) (doc\<lparr>cfg_peers := kept\<rparr>)))) (\<lambda>doc'.
           Inr (\<lparr>rm_display = peer_display env target, rm_public_key = key,
                 rm_psk_file = peer_preshared_key_file target\<rparr>, doc'))))))"

section \<open>Editing a member\<close>

definition validate_name :: "string \<Rightarrow> ops_error option" where
  "validate_name name =
     err_then (err_when (name = [] \<or> MAX_NAME_LEN < length name) (Name_Length (length name)))
       (err_when (list_ex (\<lambda>c. is_control c \<or> c = [CHR 0x22] \<or> c = [CHR 0x5C]) (chars name)) Name_Characters)"

definition rename_peer :: "ops_env \<Rightarrow> config \<Rightarrow> config \<Rightarrow> selector \<Rightarrow> string \<Rightarrow> ops_error + config" where
  "rename_peer env file doc sel new_name =
     (case validate_name new_name of
        Some e \<Rightarrow> Inl e
      | None \<Rightarrow>
          and_then (load_config env file) (\<lambda>cfg.
          and_then (find_peer env cfg sel) (\<lambda>target.
            bail_if (list_ex (\<lambda>p. peer_name p = Some new_name \<and> peer_public_key p \<noteq> peer_public_key target)
                       (cfg_peers cfg)) (Name_Taken new_name)
              (and_then (edit_peer (peer_public_key target) (\<lambda>p. p\<lparr>peer_name := Some new_name\<rparr>) doc)
                (write_validated env)))))"

definition set_subnets :: "ops_env \<Rightarrow> config \<Rightarrow> config \<Rightarrow> selector \<Rightarrow> ipv4net list
    \<Rightarrow> ops_error + (string \<times> config)" where
  "set_subnets env file doc sel subnets =
     and_then (load_config env file) (\<lambda>cfg.
     and_then (find_peer env cfg sel) (\<lambda>target.
     and_then (edit_peer (peer_public_key target) (\<lambda>p. p\<lparr>peer_subnets := subnets\<rparr>) doc) (\<lambda>doc'.
     and_then (write_validated env doc') (\<lambda>doc''. Inr (peer_display env target, doc'')))))"

datatype rotate_outcome = Rotated string | Rotation_Unchanged

text \<open>\<^verbatim>\<open>Display\<close> of \<^verbatim>\<open>Ipv4Addr\<close>.\<close>

definition ip_text :: "ipv4 \<Rightarrow> string" where
  "ip_text ip = join ''.'' (map (\<lambda>b. show_nat (unat b)) (octets ip))"

definition rotate_reference :: "public_key \<Rightarrow> public_key \<Rightarrow> member_ref option \<Rightarrow> member_ref option" where
  "rotate_reference old new r = (if r = Some (Key old) then Some (Key new) else r)"

definition rotate_records :: "public_key \<Rightarrow> public_key \<Rightarrow> config \<Rightarrow> config" where
  "rotate_records old new doc =
     doc\<lparr>cfg_dns_records := map (\<lambda>r. r\<lparr>rec_member := rotate_reference old new (rec_member r),
                                        rec_under := rotate_reference old new (rec_under r)\<rparr>)
            (cfg_dns_records doc)\<rparr>"

definition rotate_peer_key :: "ops_env \<Rightarrow> config \<Rightarrow> config \<Rightarrow> ipv4 \<Rightarrow> public_key \<Rightarrow> public_key
    \<Rightarrow> ops_error + (rotate_outcome \<times> config)" where
  "rotate_peer_key env file doc member_ip new_key host_key =
     and_then (load_config env file) (\<lambda>cfg.
     and_then (find_peer env cfg (Sel_Ip member_ip)) (\<lambda>target.
       if peer_public_key target = new_key then Inr (Rotation_Unchanged, doc)
       else bail_if (new_key = host_key) Key_Is_Host
         (bail_if (list_ex (\<lambda>p. peer_public_key p = new_key) (cfg_peers cfg)) Key_In_Use
         (and_then (edit_peer (peer_public_key target) (\<lambda>p. p\<lparr>peer_public_key := new_key\<rparr>) doc) (\<lambda>doc'.
         and_then (write_validated env (rotate_records (peer_public_key target) new_key doc')) (\<lambda>doc''.
           Inr (Rotated (case peer_name target of Some n \<Rightarrow> n | None \<Rightarrow> ip_text member_ip), doc'')))))))"

section \<open>DNS names\<close>

datatype dns_exclude = Exclude_None | Exclude_Host | Exclude_Peer public_key

definition host_dns_label :: "config \<Rightarrow> string" where
  "host_dns_label cfg =
     (case if_dns_name (cfg_interface cfg) of
        Some l \<Rightarrow> l
      | None \<Rightarrow> (case Option.bind (if_display_name (cfg_interface cfg)) dns_label of
                   Some l \<Rightarrow> l | None \<Rightarrow> HOST_DNS_LABEL))"

definition peer_dns_label :: "peer_config \<Rightarrow> string" where
  "peer_dns_label p =
     (case peer_dns_name p of
        Some l \<Rightarrow> l
      | None \<Rightarrow> (case Option.bind (peer_name p) dns_label of
                   Some l \<Rightarrow> l
                 | None \<Rightarrow> ''member-'' @ show_nat (case first_ip p of Some ip \<Rightarrow> last_octet ip | None \<Rightarrow> 0)))"

definition taken_dns_labels :: "config \<Rightarrow> dns_exclude \<Rightarrow> string list" where
  "taken_dns_labels cfg ex =
     (if ex = Exclude_Host then [] else [host_dns_label cfg])
     @ map peer_dns_label (filter (\<lambda>p. ex \<noteq> Exclude_Peer (peer_public_key p)) (cfg_peers cfg))
     @ map rec_name (filter (\<lambda>r. rec_under r = None) (cfg_dns_records cfg))"

datatype dns_name_outcome = Dns_Applied string string | Dns_Unchanged string

definition set_peer_dns_name :: "ops_env \<Rightarrow> config \<Rightarrow> config \<Rightarrow> selector \<Rightarrow> string
    \<Rightarrow> ops_error + (dns_name_outcome \<times> config)" where
  "set_peer_dns_name env file doc sel input =
     (case normalize_dns_name input False of
        Inl e \<Rightarrow> Inl (Dns_Name e)
      | Inr label \<Rightarrow>
          and_then (load_config env file) (\<lambda>cfg.
          and_then (find_peer env cfg sel) (\<lambda>target.
            let display = (case peer_name target of Some n \<Rightarrow> n | None \<Rightarrow> label)
            in if peer_dns_name target = Some label then Inr (Dns_Unchanged label, doc)
               else bail_if (label \<in> set (taken_dns_labels cfg (Exclude_Peer (peer_public_key target)))) (Dns_Name_Taken label)
                 (and_then (edit_peer (peer_public_key target) (\<lambda>p. p\<lparr>peer_dns_name := Some label\<rparr>) doc) (\<lambda>doc'.
                  and_then (write_validated env doc') (\<lambda>doc''. Inr (Dns_Applied display label, doc'')))))))"

definition set_peer_dns_name_by_ip :: "ops_env \<Rightarrow> config \<Rightarrow> config \<Rightarrow> ipv4 \<Rightarrow> string
    \<Rightarrow> ops_error + (dns_name_outcome \<times> config)" where
  "set_peer_dns_name_by_ip env file doc member_ip input =
     set_peer_dns_name env file doc (Sel_Ip member_ip) input"

definition set_peer_display_name_by_ip :: "ops_env \<Rightarrow> config \<Rightarrow> config \<Rightarrow> ipv4 \<Rightarrow> string
    \<Rightarrow> ops_error + (string \<times> config)" where
  "set_peer_display_name_by_ip env file doc member_ip input =
     and_then (rename_peer env file doc (Sel_Ip member_ip) (trim input)) (\<lambda>doc'. Inr (trim input, doc'))"

section \<open>Permissions and invitations\<close>

definition set_peer_can_invite :: "ops_env \<Rightarrow> config \<Rightarrow> config \<Rightarrow> selector \<Rightarrow> bool
    \<Rightarrow> ops_error + (string \<times> config)" where
  "set_peer_can_invite env file doc sel allowed =
     and_then (load_config env file) (\<lambda>cfg.
     and_then (find_peer env cfg sel) (\<lambda>target.
     and_then (edit_peer (peer_public_key target) (\<lambda>p. p\<lparr>peer_can_invite := allowed\<rparr>) doc) (\<lambda>doc'.
     and_then (write_validated env doc') (\<lambda>doc''. Inr (peer_display env target, doc'')))))"

definition set_peer_admin :: "ops_env \<Rightarrow> config \<Rightarrow> config \<Rightarrow> selector \<Rightarrow> bool
    \<Rightarrow> ops_error + (string \<times> config)" where
  "set_peer_admin env file doc sel allowed =
     and_then (load_config env file) (\<lambda>cfg.
     and_then (find_peer env cfg sel) (\<lambda>target.
     and_then (edit_peer (peer_public_key target) (\<lambda>p. p\<lparr>peer_admin := allowed\<rparr>) doc) (\<lambda>doc'.
     and_then (write_validated env doc') (\<lambda>doc''. Inr (peer_display env target, doc'')))))"

text \<open>A time beyond \<^verbatim>\<open>i64::MAX\<close> is written as a negative number, which is not read back.\<close>

definition mark_invite_accepted_by_ip :: "ops_env \<Rightarrow> config \<Rightarrow> config \<Rightarrow> ipv4 \<Rightarrow> nat \<Rightarrow> string option
    \<Rightarrow> ops_error + (bool \<times> config)" where
  "mark_invite_accepted_by_ip env file doc member_ip accepted_at device =
     and_then (load_config env file) (\<lambda>cfg.
     and_then (find_peer env cfg (Sel_Ip member_ip)) (\<lambda>target.
       if peer_invite_id target = None then Inr (False, doc)
       else (case device of
          None \<Rightarrow> Inl Device_Id_Missing
        | Some device_id \<Rightarrow>
            if peer_invite_accepted_at target \<noteq> None then
              (if peer_invite_device_id target = Some device_id then Inr (False, doc) else Inl Invite_Used_Elsewhere)
            else bail_if (\<not> invite_allows_connection target accepted_at) Invite_Expired
              (and_then (edit_peer (peer_public_key target)
                  (\<lambda>p. p\<lparr>peer_invite_accepted_at := Some accepted_at, peer_invite_device_id := Some device_id\<rparr>) doc) (\<lambda>doc'.
               bail_if (\<not> toml_int_ok accepted_at) Bad_Toml
                 (and_then (write_validated env doc') (\<lambda>doc''. Inr (True, doc''))))))))"

text \<open>Here only the first table with the key is changed.\<close>

fun edit_first :: "public_key \<Rightarrow> (peer_config \<Rightarrow> peer_config) \<Rightarrow> peer_config list \<Rightarrow> peer_config list option" where
  "edit_first key f [] = None"
| "edit_first key f (p # ps) =
     (if peer_public_key p = key then Some (f p # ps) else map_option (\<lambda>ps'. p # ps') (edit_first key f ps))"

definition approve_invite :: "ops_env \<Rightarrow> config \<Rightarrow> config \<Rightarrow> selector \<Rightarrow> nat \<Rightarrow> ops_error + config" where
  "approve_invite env file doc sel approved_at =
     and_then (load_config env file) (\<lambda>cfg.
     and_then (find_peer env cfg sel) (\<lambda>target.
       bail_if (\<not> peer_invite_requires_approval target) Approval_Not_Applicable
         (bail_if (peer_invite_accepted_at target = None) Join_Not_Received
         (if peer_invite_approved_at target \<noteq> None then Inr doc
          else and_then (peer_tables doc) (\<lambda>tables.
            case edit_first (peer_public_key target) (\<lambda>p. p\<lparr>peer_invite_approved_at := Some approved_at\<rparr>) tables of
              None \<Rightarrow> Inl Doc_Peer_Missing
            | Some tables' \<Rightarrow>
                bail_if (\<not> toml_int_ok approved_at) Bad_Toml
                  (write_validated env (doc\<lparr>cfg_peers := tables'\<rparr>)))))))"

section \<open>The host's own names\<close>

definition set_host_display_name :: "ops_env \<Rightarrow> config \<Rightarrow> string \<Rightarrow> ops_error + (string \<times> config)" where
  "set_host_display_name env doc input =
     (case validate_name (trim input) of
        Some e \<Rightarrow> Inl e
      | None \<Rightarrow>
          and_then (write_validated env
              (doc\<lparr>cfg_interface := (cfg_interface doc)\<lparr>if_display_name := Some (trim input)\<rparr>\<rparr>)) (\<lambda>doc'.
            Inr (trim input, doc')))"

definition set_host_dns_name :: "ops_env \<Rightarrow> config \<Rightarrow> config \<Rightarrow> string \<Rightarrow> ops_error + (string \<times> config)" where
  "set_host_dns_name env file doc input =
     (case normalize_dns_name input True of
        Inl e \<Rightarrow> Inl (Dns_Name e)
      | Inr label \<Rightarrow>
          and_then (load_config env file) (\<lambda>cfg.
            if if_dns_name (cfg_interface cfg) = Some label then Inr (label, doc)
            else bail_if (label \<in> set (taken_dns_labels cfg Exclude_Host)) (Dns_Name_Taken label)
              (and_then (write_validated env
                  (doc\<lparr>cfg_interface := (cfg_interface doc)\<lparr>if_dns_name := Some label\<rparr>\<rparr>)) (\<lambda>doc'.
                Inr (label, doc')))))"

end
