(* ===== verification/Host_Runs.thy ===== *)
theory Host_Runs
  imports Peers
begin

text \<open>
  The life of \<^verbatim>\<open>host.toml\<close> as a whole: every operation of \<^verbatim>\<open>peers.rs\<close> and
  \<^verbatim>\<open>acl.rs\<close> as one datatype, and the histories they produce. Several processes edit the file:
  an operation edits the current document, but what it checked may be any earlier state of the file.
  Invariants are by induction on the history.
\<close>

section \<open>Operations and histories\<close>

datatype host_op =
    Append new_peer
  | Remove selector
  | Rename selector string
  | Set_Subnets selector "ipv4net list"
  | Rotate ipv4 public_key
  | Set_Dns_Name selector string
  | Set_Can_Invite selector bool
  | Set_Admin selector bool
  | Mark_Joined ipv4 nat "string option"
  | Approve selector nat
  | Set_Host_Name string
  | Set_Host_Dns_Name string
  | Set_Deny "(ipv4 \<times> ipv4) list"
  | Write_Policy policy_settings
  | Group_Create u32 string "public_key list"
  | Group_Rename string string
  | Group_Members string "public_key list"
  | Group_Delete string
  | Group_Import "acl_group list"

definition written :: "'e + ('r \<times> config) \<Rightarrow> 'e + config" where
  "written r = and_then r (\<lambda>(_, doc). Inr doc)"

lemma written_Inr [simp]: "written r = Inr doc \<longleftrightarrow> (\<exists>x. r = Inr (x, doc))"
  by (auto simp: written_def)

fun apply_op :: "ops_env \<Rightarrow> public_key \<Rightarrow> host_op \<Rightarrow> config \<Rightarrow> config \<Rightarrow> ops_error + config" where
  "apply_op env hk (Append np) file doc = append_peer env doc np"
| "apply_op env hk (Remove sel) file doc = written (remove_peer env file doc sel)"
| "apply_op env hk (Rename sel n) file doc = rename_peer env file doc sel n"
| "apply_op env hk (Set_Subnets sel ns) file doc = written (set_subnets env file doc sel ns)"
| "apply_op env hk (Rotate ip k) file doc = written (rotate_peer_key env file doc ip k hk)"
| "apply_op env hk (Set_Dns_Name sel n) file doc = written (set_peer_dns_name env file doc sel n)"
| "apply_op env hk (Set_Can_Invite sel b) file doc = written (set_peer_can_invite env file doc sel b)"
| "apply_op env hk (Set_Admin sel b) file doc = written (set_peer_admin env file doc sel b)"
| "apply_op env hk (Mark_Joined ip t d) file doc = written (mark_invite_accepted_by_ip env file doc ip t d)"
| "apply_op env hk (Approve sel t) file doc = approve_invite env file doc sel t"
| "apply_op env hk (Set_Host_Name n) file doc = written (set_host_display_name env doc n)"
| "apply_op env hk (Set_Host_Dns_Name n) file doc = written (set_host_dns_name env file doc n)"
| "apply_op env hk (Set_Deny ds) file doc = set_deny env doc ds"
| "apply_op env hk (Write_Policy ps) file doc = write_policy env doc ps"
| "apply_op env hk (Group_Create r n ms) file doc = written (perm_group_create env r file doc n ms)"
| "apply_op env hk (Group_Rename i n) file doc = perm_group_rename env file doc i n"
| "apply_op env hk (Group_Members i ms) file doc = perm_group_set_members env file doc i ms"
| "apply_op env hk (Group_Delete i) file doc = perm_group_delete env file doc i"
| "apply_op env hk (Group_Import gs) file doc = written (import_perm_groups env file doc gs)"

inductive history :: "ops_env \<Rightarrow> public_key \<Rightarrow> config \<Rightarrow> host_op list \<Rightarrow> config list \<Rightarrow> bool"
  for env :: ops_env and hk :: public_key and start :: config where
  history_start: "history env hk start [] [start]"
| history_step: "history env hk start ops (doc # past) \<Longrightarrow> file \<in> set (doc # past) \<Longrightarrow>
    apply_op env hk op file doc = Inr doc' \<Longrightarrow> history env hk start (ops @ [op]) (doc' # doc # past)"

inductive_cases history_NilE: "history env hk start ops []"

section \<open>What one operation does to the members\<close>

lemma edit_first_Some:
  assumes "edit_first key f ps = Some ps'"
  shows "\<exists>a p b. ps = a @ p # b \<and> ps' = a @ f p # b \<and> peer_public_key p = key
    \<and> (\<forall>q \<in> set a. peer_public_key q \<noteq> key)"
  using assms
proof (induction ps arbitrary: ps')
  case (Cons p ps)
  show ?case
  proof (cases "peer_public_key p = key")
    case True
    with Cons.prems show ?thesis by (intro exI [of _ "[]"]) auto
  next
    case False
    with Cons.prems obtain qs where "edit_first key f ps = Some qs" "ps' = p # qs" by auto
    moreover from Cons.IH [OF this(1)] obtain a q b where "ps = a @ q # b" "qs = a @ f q # b"
      "peer_public_key q = key" "\<forall>r \<in> set a. peer_public_key r \<noteq> key" by blast
    ultimately show ?thesis using False by (intro exI [of _ "p # a"]) auto
  qed
qed simp

text \<open>
  The member tables of the edited document: kept with their address and invitation, one of them
  possibly changed in other fields; or fewer; or one more.
\<close>

definition same_member :: "bool \<Rightarrow> peer_config \<Rightarrow> peer_config \<Rightarrow> bool" where
  "same_member approving p q \<longleftrightarrow> peer_invite_id q = peer_invite_id p \<and> peer_allowed_ips q = peer_allowed_ips p
     \<and> peer_invite_requires_approval q = peer_invite_requires_approval p
     \<and> (approving \<or> peer_invite_approved_at q = peer_invite_approved_at p)"

lemma same_member_refl [simp]: "same_member b p p"
  by (simp add: same_member_def)

lemma same_members_refl [simp]: "list_all2 (same_member b) ps ps"
  by (simp add: list_all2_same)

definition is_approval :: "host_op \<Rightarrow> bool" where
  "is_approval op \<longleftrightarrow> (\<exists>sel t. op = Approve sel t)"

lemma edit_same_members:
  "(\<And>p. same_member b p (f p)) \<Longrightarrow>
    list_all2 (same_member b) ps (map (\<lambda>p. if peer_public_key p = key then f p else p) ps)"
  by (simp add: list_all2_conv_all_nth)

lemma write_deny_peers [simp]: "cfg_peers (write_deny doc ds) = cfg_peers doc"
    "cfg_interface (write_deny doc ds) = cfg_interface doc"
  by (simp_all add: write_deny_def Let_def)

lemma remove_frame [simp]:
  "cfg_peers (remove_references cfg key doc) = cfg_peers doc"
  "cfg_interface (remove_references cfg key doc) = cfg_interface doc"
  "cfg_peers (remove_deny cfg ip doc) = cfg_peers doc"
  "cfg_interface (remove_deny cfg ip doc) = cfg_interface doc"
  "cfg_peers (rotate_records old new doc) = cfg_peers doc"
  "cfg_interface (rotate_records old new doc) = cfg_interface doc"
  by (simp_all add: remove_references_def remove_deny_def rotate_records_def Let_def split: option.splits)

lemma append_peer_Inr:
  assumes "append_peer env doc np = Inr doc'"
  shows "\<exists>p. peer_block env doc np = Some p \<and> doc' = doc\<lparr>cfg_peers := cfg_peers doc @ [p]\<rparr>
    \<and> validate (env_api env) doc' = None \<and> np_ip np \<notin> set (used_ips doc)
    \<and> net_contains (env_api env) (net_trunc (env_api env) (if_address (cfg_interface doc))) (np_ip np)"
proof -
  have b: "peer_block env (resolve_paths f doc) np = peer_block env doc np" for f
    by (simp add: peer_block_def cong: if_cong)
  have u: "used_ips (resolve_paths f doc) = used_ips doc" for f
    by (simp add: used_ips_def comp_def)
  from assms show ?thesis
    by (auto simp: append_peer_def Let_def b u split: option.splits)
qed

lemma peer_block_fields:
  assumes "peer_block env cfg np = Some p"
  shows "peer_allowed_ips p = [host_net (np_ip np)]" and "peer_invite_approved_at p = None"
    and "peer_public_key p = np_public_key np"
    and "peer_invite_id p \<noteq> None \<Longrightarrow>
      peer_invite_requires_approval p = if_require_invite_approval (cfg_interface cfg)"
  using assms by (auto simp: peer_block_def read_back_def Option.bind_eq_Some_conv split: if_splits option.splits)

lemma write_policy_peers: "write_policy env doc ps = Inr doc' \<Longrightarrow>
    cfg_peers doc' = cfg_peers doc \<and> cfg_interface doc' = cfg_interface doc"
  by (auto simp: write_policy_Inr)

lemmas group_op_defs = perm_group_create_def perm_group_rename_def perm_group_set_members_def
  perm_group_delete_def import_perm_groups_def set_deny_def Let_def

lemmas member_op_defs = rename_peer_def set_subnets_def rotate_peer_key_def set_peer_dns_name_def
  set_peer_can_invite_def set_peer_admin_def mark_invite_accepted_by_ip_def
  set_host_display_name_def set_host_dns_name_def edit_peer_Inr Let_def

lemma edit_first_members:
  assumes "edit_first key f ps = Some qs" and "\<And>p. same_member b p (f p)"
  shows "list_all2 (same_member b) ps qs"
  using assms(1)
proof (induction ps arbitrary: qs)
  case (Cons p ps)
  then show ?case using assms(2) by (cases "peer_public_key p = key") auto
qed simp

lemma approve_invite_Inr:
  assumes "approve_invite env file doc sel t = Inr doc'"
  shows "doc' = doc \<or> (\<exists>key ps. edit_first key (\<lambda>p. p\<lparr>peer_invite_approved_at := Some t\<rparr>) (cfg_peers doc) = Some ps
    \<and> doc' = doc\<lparr>cfg_peers := ps\<rparr> \<and> validate (env_api env) doc' = None)"
proof -
  from assms have "\<exists>target :: peer_config.
     (if peer_invite_approved_at target \<noteq> None then Inr doc
      else and_then (peer_tables doc) (\<lambda>tables.
            case edit_first (peer_public_key target) (\<lambda>p. p\<lparr>peer_invite_approved_at := Some t\<rparr>) tables of
              None \<Rightarrow> Inl Doc_Peer_Missing
            | Some tables' \<Rightarrow>
                bail_if (\<not> toml_int_ok t) Bad_Toml (write_validated env (doc\<lparr>cfg_peers := tables'\<rparr>)))) = Inr doc'"
    unfolding approve_invite_def and_then_Inr bail_if_Inr by blast
  then show ?thesis
  proof (elim exE)
    fix target :: peer_config
    let ?e = "edit_first (peer_public_key target) (\<lambda>p. p\<lparr>peer_invite_approved_at := Some t\<rparr>) (cfg_peers doc)"
    assume "(if peer_invite_approved_at target \<noteq> None then Inr doc
      else and_then (peer_tables doc) (\<lambda>tables.
            case edit_first (peer_public_key target) (\<lambda>p. p\<lparr>peer_invite_approved_at := Some t\<rparr>) tables of
              None \<Rightarrow> Inl Doc_Peer_Missing
            | Some tables' \<Rightarrow>
                bail_if (\<not> toml_int_ok t) Bad_Toml (write_validated env (doc\<lparr>cfg_peers := tables'\<rparr>)))) = Inr doc'"
    then show ?thesis by (cases ?e) (auto split: if_splits)
  qed
qed

lemma approve_invite_members:
  assumes "approve_invite env file doc sel t = Inr doc'"
  shows "list_all2 (same_member True) (cfg_peers doc) (cfg_peers doc') \<and> cfg_interface doc' = cfg_interface doc"
  using approve_invite_Inr [OF assms] by (auto simp: same_member_def intro: edit_first_members)

lemma apply_op_members:
  assumes "apply_op env hk op file doc = Inr doc'"
  shows "list_all2 (same_member (is_approval op)) (cfg_peers doc) (cfg_peers doc')
     \<or> (\<exists>P. cfg_peers doc' = filter P (cfg_peers doc))
     \<or> (\<exists>np p. peer_block env doc np = Some p \<and> cfg_peers doc' = cfg_peers doc @ [p]
          \<and> np_ip np \<notin> set (used_ips doc)
          \<and> net_contains (env_api env) (net_trunc (env_api env) (if_address (cfg_interface doc))) (np_ip np))"
    (is "?same \<or> ?fewer \<or> ?more")
    and "if_address (cfg_interface doc') = if_address (cfg_interface doc)"
    and "if_require_invite_approval (cfg_interface doc') = if_require_invite_approval (cfg_interface doc)"
proof -
  let ?itf = "if_address (cfg_interface doc') = if_address (cfg_interface doc)
    \<and> if_require_invite_approval (cfg_interface doc') = if_require_invite_approval (cfg_interface doc)"
  have edit: "list_all2 (same_member b) ps (map (\<lambda>p. if peer_public_key p = key then f p else p) ps)"
    if "\<And>p. same_member b p (f p)" for b f key ps
    using that by (rule edit_same_members)
  have "(?same \<or> ?fewer \<or> ?more) \<and> ?itf"
  proof (cases op)
    case (Append np)
    with append_peer_Inr [of env doc np doc'] assms show ?thesis by auto
  next
    case (Remove sel)
    with assms have "\<exists>key. cfg_peers doc' = filter (\<lambda>p. peer_public_key p \<noteq> key) (cfg_peers doc)
        \<and> cfg_interface doc' = cfg_interface doc" by (auto simp: remove_peer_def Let_def)
    then show ?thesis by auto
  next
    case (Approve sel t)
    with approve_invite_members assms show ?thesis by (auto simp: is_approval_def)
  qed (use assms in \<open>auto simp: member_op_defs group_op_defs same_member_def
      intro!: edit dest!: write_policy_peers split: if_splits option.splits sum.splits\<close>)
  then show "?same \<or> ?fewer \<or> ?more" and "if_address (cfg_interface doc') = if_address (cfg_interface doc)"
    and "if_require_invite_approval (cfg_interface doc') = if_require_invite_approval (cfg_interface doc)"
    by blast+
qed

section \<open>Histories\<close>

lemma history_hd:
  assumes "history env hk start ops hist"
  shows "hist \<noteq> [] \<and> if_address (cfg_interface (hd hist)) = if_address (cfg_interface start)
    \<and> if_require_invite_approval (cfg_interface (hd hist)) = if_require_invite_approval (cfg_interface start)"
  using assms by induction (auto dest: apply_op_members(2,3))

lemma list_all2_in_right:
  "list_all2 P xs ys \<Longrightarrow> y \<in> set ys \<Longrightarrow> \<exists>x \<in> set xs. P x y"
  by (induction rule: list_all2_induct) auto

text \<open>Where an unisolated member with an invitation comes from.\<close>

definition released :: "config \<Rightarrow> string \<Rightarrow> bool" where
  "released cfg i \<longleftrightarrow> (\<exists>p \<in> set (cfg_peers cfg). peer_invite_id p = Some i \<and> \<not> invite_is_isolated p)"

lemma same_member_released:
  "same_member False p q \<Longrightarrow> invite_is_isolated q = invite_is_isolated p \<and> peer_invite_id q = peer_invite_id p"
  by (simp add: same_member_def invite_is_isolated_def)

lemma apply_op_released:
  assumes "apply_op env hk op file doc = Inr doc'" and "\<not> is_approval op"
    and "if_require_invite_approval (cfg_interface doc)" and "released doc' i"
  shows "released doc i"
  using apply_op_members(1) [OF assms(1)] assms(2)
proof (elim disjE exE conjE)
  assume "list_all2 (same_member (is_approval op)) (cfg_peers doc) (cfg_peers doc')"
  then show ?thesis using assms(2,4) unfolding released_def
    by (auto dest!: list_all2_in_right same_member_released)
next
  fix P
  assume "cfg_peers doc' = filter P (cfg_peers doc)"
  then show ?thesis using assms(4) unfolding released_def by auto
next
  fix np p
  assume p: "peer_block env doc np = Some p" "cfg_peers doc' = cfg_peers doc @ [p]"
  then have "peer_invite_id p = Some i \<Longrightarrow> invite_is_isolated p"
    using peer_block_fields [OF p(1)] assms(3) by (simp add: invite_is_isolated_def)
  with p assms(4) show ?thesis unfolding released_def by auto
qed

lemma used_ips_same: "list_all2 (same_member b) ps qs \<Longrightarrow>
    map (\<lambda>p. map net_addr (peer_allowed_ips p)) qs = map (\<lambda>p. map net_addr (peer_allowed_ips p)) ps"
  by (induction rule: list_all2_induct) (auto simp: same_member_def)

lemma distinct_concat_filter:
  "distinct (concat (map f ps)) \<Longrightarrow> distinct (concat (map f (filter P ps)))"
  by (induction ps) auto

lemma apply_op_used_ips:
  assumes "apply_op env hk op file doc = Inr doc'" and "distinct (used_ips doc)"
  shows "distinct (used_ips doc')"
  using apply_op_members(1) [OF assms(1)]
proof (elim disjE exE conjE)
  note itf = apply_op_members(2) [OF assms(1)]
  assume "list_all2 (same_member (is_approval op)) (cfg_peers doc) (cfg_peers doc')"
  from used_ips_same [OF this] assms(2) itf show ?thesis by (simp add: used_ips_def)
next
  note itf = apply_op_members(2) [OF assms(1)]
  fix P
  assume "cfg_peers doc' = filter P (cfg_peers doc)"
  then show ?thesis using assms(2) itf
    by (auto simp: used_ips_def simp del: distinct_concat_iff intro: distinct_concat_filter)
next
  note itf = apply_op_members(2) [OF assms(1)]
  fix np p
  assume p: "peer_block env doc np = Some p" "cfg_peers doc' = cfg_peers doc @ [p]"
    and new: "np_ip np \<notin> set (used_ips doc)"
  have "used_ips doc' = used_ips doc @ [np_ip np]"
    using p itf peer_block_fields(1) [OF p(1)] by (simp add: used_ips_def)
  then show ?thesis using assms(2) new by simp
qed

lemma apply_op_used_ips_in:
  assumes "apply_op env hk op file doc = Inr doc'" and "ip \<in> set (used_ips doc')"
  shows "ip \<in> set (used_ips doc)
    \<or> net_contains (env_api env) (net_trunc (env_api env) (if_address (cfg_interface doc))) ip"
  using apply_op_members(1) [OF assms(1)]
proof (elim disjE exE conjE)
  note itf = apply_op_members(2) [OF assms(1)]
  assume "list_all2 (same_member (is_approval op)) (cfg_peers doc) (cfg_peers doc')"
  from used_ips_same [OF this] assms(2) itf show ?thesis by (simp add: used_ips_def del: set_concat)
next
  note itf = apply_op_members(2) [OF assms(1)]
  fix P
  assume "cfg_peers doc' = filter P (cfg_peers doc)"
  then show ?thesis using assms(2) itf by (auto simp: used_ips_def)
next
  note itf = apply_op_members(2) [OF assms(1)]
  fix np p
  assume p: "peer_block env doc np = Some p" "cfg_peers doc' = cfg_peers doc @ [p]"
    and "net_contains (env_api env) (net_trunc (env_api env) (if_address (cfg_interface doc))) (np_ip np)"
  then show ?thesis
    using assms(2) itf peer_block_fields(1) [OF p(1)] by (auto simp: used_ips_def)
qed

text \<open>An invariant of the documents of a history: kept by every operation on the current document.\<close>

lemma history_invariant:
  assumes "history env hk start ops hist" and "I start"
    and "\<And>op f doc doc'. op \<in> set ops \<Longrightarrow> apply_op env hk op f doc = Inr doc' \<Longrightarrow> I doc \<Longrightarrow> I doc'"
  shows "\<forall>doc \<in> set hist. I doc"
  using assms
proof induction
  case (history_step ops doc past f op doc')
  have "\<forall>d \<in> set (doc # past). I d"
    using history_step.prems by (intro history_step.IH) auto
  with history_step.prems(2) [of op] history_step.hyps(3) show ?case by fastforce
qed simp

section \<open>Properties of histories\<close>


text \<open>
  C27: addresses are never given twice. If the host and the members have distinct addresses inside the
  virtual subnet, then they have in every document of every history, whatever outdated state of the file
  the operations were checked on.
\<close>

theorem addresses_stay_unique:
  fixes env :: ops_env and start :: config
  defines "inside \<equiv> \<lambda>ip. net_contains (env_api env) (net_trunc (env_api env) (if_address (cfg_interface start))) ip"
  assumes "history env hk start ops hist" and "distinct (used_ips start)"
    and "list_all inside (used_ips start)" and "doc \<in> set hist"
  shows "distinct (used_ips doc) \<and> list_all inside (used_ips doc)"
proof -
  let ?I = "\<lambda>d. if_address (cfg_interface d) = if_address (cfg_interface start)
    \<and> distinct (used_ips d) \<and> list_all inside (used_ips d)"
  have "\<forall>d \<in> set hist. ?I d"
  proof (rule history_invariant [OF assms(2)])
    show "?I start" using assms(3,4) by simp
    fix op f d d'
    assume op: "op \<in> set ops" "apply_op env hk op f d = Inr d'" "?I d"
    have "inside ip" if "ip \<in> set (used_ips d')" for ip
      using apply_op_used_ips_in [OF op(2) that] op(3) by (auto simp: list_all_iff inside_def)
    then show "?I d'" using apply_op_used_ips [OF op(2)] apply_op_members(2) [OF op(2)] op(3)
      by (simp add: list_all_iff)
  qed
  with assms(5) show ?thesis by blast
qed

section \<open>Properties of single operations\<close>

text \<open>
  C25: a removed member leaves no trace. After \<open>remove_peer\<close> the written document is the
  old one without the tables of that key, and no group, no rule target and no DNS record refers to the
  key, whatever was read before the lock; and the document validates.
\<close>

theorem removed_peer_unreferenced:
  assumes "remove_peer env file doc sel = Inr (r, doc')"
  defines "key \<equiv> rm_public_key r"
  shows "cfg_peers doc' = filter (\<lambda>p. peer_public_key p \<noteq> key) (cfg_peers doc)
    \<and> length (cfg_peers doc) = Suc (length (cfg_peers doc'))
    \<and> (\<forall>g \<in> set (acl_groups (cfg_acl doc')). key \<notin> set (group_members g) \<and> group_members g \<noteq> [])
    \<and> (\<forall>u \<in> set (acl_rules (cfg_acl doc')). rule_source u \<noteq> Member_Target key \<and> rule_destination u \<noteq> Member_Target key)
    \<and> (\<forall>d \<in> set (cfg_dns_records doc'). rec_member d \<noteq> Some (Key key) \<and> rec_under d \<noteq> Some (Key key))
    \<and> validate (env_api env) doc' = None"
proof -
  let ?kept = "filter (\<lambda>p. peer_public_key p \<noteq> key) (cfg_peers doc)"
  from assms obtain cfg ip where doc': "doc' = remove_references cfg key (remove_deny cfg ip (doc\<lparr>cfg_peers := ?kept\<rparr>))"
    and len: "length ?kept = length (cfg_peers doc) - 1" "cfg_peers doc \<noteq> []" and v: "validate (env_api env) doc' = None"
    by (auto simp: remove_peer_def Let_def)
  have "group_members g \<noteq> [] \<and> key \<notin> set (group_members g)" if "g \<in> set (remove_groups key gs)" for g gs
    using that by (auto simp: remove_groups_def removed_groups_def)
  then have groups: "\<forall>g \<in> set (acl_groups (cfg_acl doc')). key \<notin> set (group_members g) \<and> group_members g \<noteq> []"
    unfolding doc' remove_references_def Let_def by auto
  have rest: "(\<forall>u \<in> set (acl_rules (cfg_acl doc')). rule_source u \<noteq> Member_Target key \<and> rule_destination u \<noteq> Member_Target key)
      \<and> (\<forall>d \<in> set (cfg_dns_records doc'). rec_member d \<noteq> Some (Key key) \<and> rec_under d \<noteq> Some (Key key))"
    unfolding doc' remove_references_def Let_def by (auto simp: target_removed_def)
  have "cfg_peers doc' = ?kept" by (simp add: doc')
  with groups rest v len show ?thesis by (cases "cfg_peers doc") auto
qed

end
