(* ===== verification/Peers_Laws.thy ===== *)
theory Peers_Laws
  imports Host_Runs
begin

text \<open>
  What single operations of \<^verbatim>\<open>peers.rs\<close> promise (an invitation is used once, a DNS name has
  one owner) and where they fall short: removing a member of a deny pair, rotating a key that a group
  lists, and an invitation accepted on the strength of an outdated read.
\<close>

section \<open>The member an operation works on\<close>

lemma find_peer_loaded:
  assumes "find_peer env (resolve_paths f file) sel = Inr target"
  shows "\<exists>p \<in> set (cfg_peers file). target = resolved_peer f p \<and> selects env sel p
    \<and> (\<forall>q \<in> set (cfg_peers file). selects env sel q \<longrightarrow> q = p)"
proof -
  from assms obtain p where p: "find_peer env file sel = Inr p" and t: "target = resolved_peer f p"
    by (auto simp: find_peer_resolved split: sum.splits)
  from find_peer_Inr [OF p] t show ?thesis by blast
qed

text \<open>The beginning every operation shares: load the file, find the member.\<close>

lemma with_target:
  assumes "and_then (load_config env file) (\<lambda>cfg. and_then (find_peer env cfg sel) (f cfg)) = Inr y"
  shows "\<exists>p \<in> set (cfg_peers file). selects env sel p
    \<and> (\<forall>q \<in> set (cfg_peers file). selects env sel q \<longrightarrow> q = p)
    \<and> validate (env_api env) (resolve_paths (env_resolve env) file) = None
    \<and> f (resolve_paths (env_resolve env) file) (resolved_peer (env_resolve env) p) = Inr y"
proof -
  from assms obtain target where v: "validate (env_api env) (resolve_paths (env_resolve env) file) = None"
    and t: "find_peer env (resolve_paths (env_resolve env) file) sel = Inr target"
    and y: "f (resolve_paths (env_resolve env) file) target = Inr y" by auto
  from find_peer_loaded [OF t] v y show ?thesis by blast
qed

lemma loaded_keys_distinct:
  assumes "validate api (resolve_paths f file) = None"
  shows "distinct (map peer_public_key (cfg_peers file))"
  using validated_keys_distinct [OF assms] by (simp add: comp_def)

lemma distinct_key_eq:
  "distinct (map peer_public_key ps) \<Longrightarrow> p \<in> set ps \<Longrightarrow> q \<in> set ps \<Longrightarrow>
    peer_public_key p = peer_public_key q \<Longrightarrow> p = q"
  by (metis find_distinct_key option.inject)

text \<open>
  Removing a member of a deny pair drops the rest of the policy. The clean-up of
  the pair rewrites the table \<^verbatim>\<open>[acl]\<close> with the remaining pairs alone: the default action falls
  back to allow, and all groups and rules are gone, those that do not concern the member included.
\<close>

theorem remove_denied_member_resets_policy:
  assumes "remove_peer env file doc sel = Inr (r, doc')"
    and "p \<in> set (cfg_peers file)" and "peer_public_key p = rm_public_key r" and "first_ip p = Some ip"
    and "is_denied (cfg_acl file) ip other"
  shows "acl_default (cfg_acl doc') = Allow \<and> acl_groups (cfg_acl doc') = [] \<and> acl_rules (cfg_acl doc') = []"
proof -
  let ?cfg = "resolve_paths (env_resolve env) file"
  let ?kept = "doc\<lparr>cfg_peers := filter (\<lambda>p. peer_public_key p \<noteq> rm_public_key r) (cfg_peers doc)\<rparr>"
  from assms(1) obtain target where v: "validate (env_api env) ?cfg = None"
    and t: "find_peer env ?cfg sel = Inr target" "peer_public_key target = rm_public_key r"
    and doc': "doc' = remove_references ?cfg (rm_public_key r) (remove_deny ?cfg (first_ip target) ?kept)"
    by (auto simp: remove_peer_def Let_def)
  from find_peer_loaded [OF t(1)] obtain q where q: "q \<in> set (cfg_peers file)"
      "target = resolved_peer (env_resolve env) q" by blast
  then have "q = p"
    using distinct_key_eq [OF loaded_keys_distinct [OF v] q(1) assms(2)] t(2) assms(3) by simp
  then have ip: "first_ip target = Some ip" using q assms(4) by (simp add: first_ip_def)
  have "list_ex (\<lambda>(a, b). a = ip \<or> b = ip) (acl_deny (cfg_acl file))"
    using assms(5) by (auto simp: is_denied_def list_ex_iff)
  then have "remove_deny ?cfg (first_ip target) ?kept =
      write_deny ?kept (filter (\<lambda>(a, b). a \<noteq> ip \<and> b \<noteq> ip) (normalized_deny (cfg_acl file)))"
    unfolding ip by (simp add: remove_deny_def)
  then show ?thesis unfolding doc'
    by (simp add: remove_references_def Let_def write_deny_def empty_acl_def remove_groups_def)
qed

section \<open>Rotating a key\<close>

lemma rotate_peer_key_Inr:
  assumes "rotate_peer_key env file doc ip new hk = Inr (Rotated n, doc')"
  shows "\<exists>p \<in> set (cfg_peers file). first_ip p = Some ip \<and> peer_public_key p \<noteq> new \<and> new \<noteq> hk
    \<and> (\<forall>q \<in> set (cfg_peers file). peer_public_key q \<noteq> new)
    \<and> doc' = rotate_records (peer_public_key p) new (doc\<lparr>cfg_peers := map (\<lambda>q. if peer_public_key q = peer_public_key p
          then q\<lparr>peer_public_key := new\<rparr> else q) (cfg_peers doc)\<rparr>)
    \<and> validate (env_api env) doc' = None"
proof -
  let ?upd = "\<lambda>k. map (\<lambda>q. if peer_public_key q = k then q\<lparr>peer_public_key := new\<rparr> else q) (cfg_peers doc)"
  let ?t = "resolved_peer (env_resolve env)"
  from with_target [OF assms [unfolded rotate_peer_key_def]] obtain p where
    p: "p \<in> set (cfg_peers file)" "first_ip p = Some ip"
    and b: "(if peer_public_key (?t p) = new then Inr (Rotation_Unchanged, doc)
       else bail_if (new = hk) Key_Is_Host
         (bail_if (list_ex (\<lambda>p. peer_public_key p = new) (cfg_peers (resolve_paths (env_resolve env) file))) Key_In_Use
         (and_then (edit_peer (peer_public_key (?t p)) (\<lambda>p. p\<lparr>peer_public_key := new\<rparr>) doc) (\<lambda>doc'.
         and_then (write_validated env (rotate_records (peer_public_key (?t p)) new doc')) (\<lambda>doc''.
           Inr (Rotated (case peer_name (?t p) of Some n \<Rightarrow> n | None \<Rightarrow> ip_text ip), doc''))))))
       = Inr (Rotated n, doc')" unfolding selects.simps by meson
  have ne: "peer_public_key p \<noteq> new" using b by (auto split: if_splits)
  from b have "new \<noteq> hk" "\<forall>q \<in> set (cfg_peers file). peer_public_key q \<noteq> new"
      "doc' = rotate_records (peer_public_key p) new (doc\<lparr>cfg_peers := ?upd (peer_public_key p)\<rparr>)"
      "validate (env_api env) doc' = None"
    by (auto simp: ne edit_peer_Inr list_ex_iff)
  with p ne show ?thesis by (intro bexI [of _ p]) (simp_all only: simp_thms)
qed

text \<open>
  A rotated key drops out of its groups. After \<open>rotate_peer_key\<close> the members are those
  from before except for the key, and DNS records follow; but the groups still list the old key, which no
  member has: a group of that key alone resolves to no address at all, and a group rule without addresses
  applies to everybody (\<open>empty_group_matches_everybody\<close>).
\<close>

theorem rotated_key_leaves_groups:
  assumes "rotate_peer_key env file doc ip new hk = Inr (Rotated n, doc')"
  shows "\<exists>old. (\<exists>p \<in> set (cfg_peers file). first_ip p = Some ip \<and> peer_public_key p = old)
    \<and> cfg_acl doc' = cfg_acl doc
    \<and> list_all2 (\<lambda>p q. q = (if peer_public_key p = old then p\<lparr>peer_public_key := new\<rparr> else p)) (cfg_peers doc) (cfg_peers doc')
    \<and> list_all (\<lambda>d. rec_member d \<noteq> Some (Key old) \<and> rec_under d \<noteq> Some (Key old)) (cfg_dns_records doc')
    \<and> peer_networks doc' old = None
    \<and> (\<forall>g. set (group_members g) \<subseteq> {old} \<longrightarrow> resolve_group doc' g = [])"
proof -
  from rotate_peer_key_Inr [OF assms] obtain p where p: "p \<in> set (cfg_peers file)" "first_ip p = Some ip"
      "peer_public_key p \<noteq> new"
    and doc': "doc' = rotate_records (peer_public_key p) new (doc\<lparr>cfg_peers := map (\<lambda>q. if peer_public_key q = peer_public_key p
          then q\<lparr>peer_public_key := new\<rparr> else q) (cfg_peers doc)\<rparr>)" by blast
  let ?old = "peer_public_key p"
  have none: "peer_networks doc' ?old = None"
    using p(3) unfolding peer_networks_def doc' by (auto simp: find_None_set split: option.split dest!: find_Some_set)
  have "resolve_group doc' g = []" if "set (group_members g) \<subseteq> {?old}" for g
    by (rule resolve_group_unregistered) (use that none in auto)
  moreover have "list_all (\<lambda>d. rec_member d \<noteq> Some (Key ?old) \<and> rec_under d \<noteq> Some (Key ?old)) (cfg_dns_records doc')"
    using p(3) by (auto simp: doc' rotate_records_def rotate_reference_def list_all_iff)
  moreover have "cfg_acl doc' = cfg_acl doc" by (simp add: doc' rotate_records_def)
  moreover have "list_all2 (\<lambda>a q. q = (if peer_public_key a = ?old then a\<lparr>peer_public_key := new\<rparr> else a))
      (cfg_peers doc) (cfg_peers doc')"
    by (simp add: doc' list_all2_conv_all_nth)
  ultimately show ?thesis using p(1,2) none by blast
qed

section \<open>Accepting an invitation\<close>

abbreviation accept_peer :: "nat \<Rightarrow> string \<Rightarrow> peer_config \<Rightarrow> peer_config" where
  "accept_peer t d p \<equiv> p\<lparr>peer_invite_accepted_at := Some t, peer_invite_device_id := Some d\<rparr>"

lemma mark_invite_Inr:
  assumes "mark_invite_accepted_by_ip env file doc ip t device = Inr (b, doc')"
  shows "\<exists>p \<in> set (cfg_peers file). first_ip p = Some ip
    \<and> (\<forall>q \<in> set (cfg_peers file). first_ip q = Some ip \<longrightarrow> q = p)
    \<and> (if b then (\<exists>d. device = Some d
          \<and> doc' = doc\<lparr>cfg_peers := map (\<lambda>q. if peer_public_key q = peer_public_key p then accept_peer t d q else q) (cfg_peers doc)\<rparr>)
         \<and> peer_invite_id p \<noteq> None \<and> peer_invite_accepted_at p = None
         \<and> invite_allows_connection p t \<and> validate (env_api env) doc' = None
       else doc' = doc \<and> (peer_invite_id p \<noteq> None \<longrightarrow> peer_invite_accepted_at p \<noteq> None
         \<and> device \<noteq> None \<and> peer_invite_device_id p = device))"
proof -
  let ?t = "resolved_peer (env_resolve env)"
  from with_target [OF assms [unfolded mark_invite_accepted_by_ip_def]] obtain p where
    p: "p \<in> set (cfg_peers file)" "first_ip p = Some ip"
      "\<forall>q \<in> set (cfg_peers file). first_ip q = Some ip \<longrightarrow> q = p"
    and b: "(if peer_invite_id (?t p) = None then Inr (False, doc)
       else (case device of
          None \<Rightarrow> Inl Device_Id_Missing
        | Some device_id \<Rightarrow>
            if peer_invite_accepted_at (?t p) \<noteq> None then
              (if peer_invite_device_id (?t p) = Some device_id then Inr (False, doc) else Inl Invite_Used_Elsewhere)
            else bail_if (\<not> invite_allows_connection (?t p) t) Invite_Expired
              (and_then (edit_peer (peer_public_key (?t p))
                  (\<lambda>p. p\<lparr>peer_invite_accepted_at := Some t, peer_invite_device_id := Some device_id\<rparr>) doc) (\<lambda>doc'.
               bail_if (\<not> toml_int_ok t) Bad_Toml
                 (and_then (write_validated env doc') (\<lambda>doc''. Inr (True, doc''))))))) = Inr (b, doc')"
    unfolding selects.simps by meson
  have conn: "invite_allows_connection (?t p) t = invite_allows_connection p t"
    unfolding invite_allows_connection_def invite_state_def by simp
  have "if b then (\<exists>d. device = Some d
          \<and> doc' = doc\<lparr>cfg_peers := map (\<lambda>q. if peer_public_key q = peer_public_key p then accept_peer t d q else q) (cfg_peers doc)\<rparr>)
         \<and> peer_invite_id p \<noteq> None \<and> peer_invite_accepted_at p = None
         \<and> invite_allows_connection p t \<and> validate (env_api env) doc' = None
       else doc' = doc \<and> (peer_invite_id p \<noteq> None \<longrightarrow> peer_invite_accepted_at p \<noteq> None
         \<and> device \<noteq> None \<and> peer_invite_device_id p = device)"
  proof (cases "peer_invite_id p")
    case None
    with b show ?thesis by simp
  next
    case (Some i)
    note inv = this
    show ?thesis
    proof (cases device)
      case None
      with b inv show ?thesis by simp
    next
      case (Some d)
      note dev = this
      show ?thesis
      proof (cases "peer_invite_accepted_at p")
        case None
        with b dev inv show ?thesis by (auto simp: conn edit_peer_Inr)
      next
        case (Some a)
        with b dev inv show ?thesis by (simp split: if_splits)
      qed
    qed
  qed
  with p show ?thesis by blast
qed


text \<open>The check is only as fresh as the file it read: the written device is that of the last caller.\<close>

lemma stale_check_reassigns_invite:
  assumes "mark_invite_accepted_by_ip env file doc ip t (Some d) = Inr (True, doc')"
  shows "\<exists>p \<in> set (cfg_peers file). first_ip p = Some ip \<and>
    (\<forall>q \<in> set (cfg_peers doc'). peer_public_key q = peer_public_key p \<longrightarrow> peer_invite_device_id q = Some d)"
proof -
  from mark_invite_Inr [OF assms] obtain p where p: "p \<in> set (cfg_peers file)" "first_ip p = Some ip"
    and "doc' = doc\<lparr>cfg_peers := map (\<lambda>q. if peer_public_key q = peer_public_key p then accept_peer t d q else q) (cfg_peers doc)\<rparr>"
    by auto
  then show ?thesis by (intro bexI [of _ p]) auto
qed

section \<open>DNS names of members\<close>

lemma peer_dns_label_resolved: "peer_dns_label (resolved_peer f p) = peer_dns_label p"
  by (simp add: peer_dns_label_def first_ip_def cong: option.case_cong)

text \<open>
  A DNS name given to a member is a valid label that nobody else in the network has: not the host,
  no other member (by its fixed or derived name) and no top-level DNS record.
\<close>

theorem dns_name_has_one_owner:
  assumes "set_peer_dns_name env doc doc sel input = Inr (Dns_Applied name label, doc')"
  shows "is_dns_label label \<and> (\<exists>p \<in> set (cfg_peers doc'). peer_dns_name p = Some label
    \<and> label \<notin> set (taken_dns_labels doc' (Exclude_Peer (peer_public_key p))))"
proof -
  from assms have n: "normalize_dns_name input False = Inr label"
    by (auto simp: set_peer_dns_name_def Let_def split: sum.splits if_splits)
  from assms n have r: "and_then (load_config env doc) (\<lambda>cfg. and_then (find_peer env cfg sel) (\<lambda>target.
      let display = (case peer_name target of Some n \<Rightarrow> n | None \<Rightarrow> label)
      in if peer_dns_name target = Some label then Inr (Dns_Unchanged label, doc)
         else bail_if (label \<in> set (taken_dns_labels cfg (Exclude_Peer (peer_public_key target)))) (Dns_Name_Taken label)
           (and_then (edit_peer (peer_public_key target) (\<lambda>p. p\<lparr>peer_dns_name := Some label\<rparr>) doc) (\<lambda>doc'.
            and_then (write_validated env doc') (\<lambda>doc''. Inr (Dns_Applied display label, doc'')))))) = Inr (Dns_Applied name label, doc')"
    by (simp only: set_peer_dns_name_def sum.case)
  from with_target [OF r] obtain p where p: "p \<in> set (cfg_peers doc)"
    and free: "label \<notin> set (taken_dns_labels (resolve_paths (env_resolve env) doc) (Exclude_Peer (peer_public_key p)))"
    and e: "edit_peer (peer_public_key p) (\<lambda>p. p\<lparr>peer_dns_name := Some label\<rparr>) doc = Inr doc'"
    by (auto simp: Let_def split: if_splits)
  let ?k = "peer_public_key p"
  have host: "host_dns_label doc' = host_dns_label (resolve_paths (env_resolve env) doc)"
    using e unfolding host_dns_label_def edit_peer_Inr resolve_paths_simps by (auto cong: option.case_cong)
  have taken: "taken_dns_labels doc' (Exclude_Peer ?k) = taken_dns_labels (resolve_paths (env_resolve env) doc) (Exclude_Peer ?k)"
  proof -
    have f: "map peer_dns_label (filter (\<lambda>p. ?k \<noteq> peer_public_key p) (map (\<lambda>p. if peer_public_key p = ?k
          then p\<lparr>peer_dns_name := Some label\<rparr> else p) ps))
        = map peer_dns_label (filter (\<lambda>p. ?k \<noteq> peer_public_key p) (map (resolved_peer f) ps))" for f ps
      by (induction ps) (auto simp: peer_dns_label_resolved)
    from e show ?thesis unfolding taken_dns_labels_def host by (auto simp: edit_peer_Inr f)
  qed
  from p have "p\<lparr>peer_dns_name := Some label\<rparr> \<in> set (cfg_peers doc')"
    using e by (auto simp: edit_peer_Inr intro!: rev_image_eqI [of p])
  moreover have "is_dns_label label"
    using n dns_label_ok by (auto simp: normalize_dns_name_def is_dns_label_iff split: option.splits if_splits)
  ultimately show ?thesis using free taken
    by (intro conjI bexI [of _ "p\<lparr>peer_dns_name := Some label\<rparr>"]) simp_all
qed

section \<open>Witnesses\<close>

text \<open>
  A network that asks for approval. Member 2 has an open invitation, member 3 has joined without one
  being required, and the two are a deny pair; a group lists member 2.
\<close>

definition zeros :: string where "zeros = replicate 32 (CHR ''0'')"
definition ones :: string where "ones = replicate 32 (CHR ''1'')"

definition invited_peer :: peer_config where
  "invited_peer = (sample_peer [2] 0x0A000002)\<lparr>peer_invite_id := Some zeros, peer_invite_issued_at := Some 100,
     peer_invite_requires_approval := True\<rparr>"

definition joined_peer :: peer_config where
  "joined_peer = (sample_peer [3] 0x0A000003)\<lparr>peer_invite_id := Some ones, peer_invite_issued_at := Some 100,
     peer_invite_accepted_at := Some 150, peer_invite_device_id := Some ones\<rparr>"

definition life_acl :: acl_config where
  "life_acl = empty_acl\<lparr>acl_deny := [(0x0A000002, 0x0A000003)],
     acl_groups := [\<lparr>group_id = ''staff'', group_name = [], group_members = [[2]]\<rparr>]\<rparr>"

definition life_config :: "peer_config list \<Rightarrow> acl_config \<Rightarrow> config" where
  "life_config ps acl =
     \<lparr>cfg_interface = sample_interface\<lparr>if_require_invite_approval := True\<rparr>,
      cfg_peers = ps, cfg_dns_records = [], cfg_acl = acl\<rparr>"

lemma valid_ids: "valid_id zeros" "valid_id ones"
  by (auto simp: valid_id_def zeros_def ones_def is_hexdigit_def is_digit_def list_all_iff)

lemma staff_label: "is_dns_label ''staff''"
  by code_simp

lemmas life_eval = validate_eval check_invite_v3_def valid_ids staff_label compile_def life_config_def
  life_acl_def invited_peer_def joined_peer_def toml_int_ok_def

abbreviation life :: config where "life \<equiv> life_config [invited_peer, joined_peer] life_acl"
abbreviation life_joined :: config where
  "life_joined \<equiv> life_config [accept_peer 200 ones invited_peer, joined_peer] life_acl"

lemma life_valid: "validate cidr_api life = None" and life_joined_valid: "validate cidr_api life_joined = None"
  by (simp_all add: life_eval)

lemma resolve_paths_ident: "resolve_paths (\<lambda>p. p) cfg = cfg"
  by (simp add: resolve_paths_def option.map_ident)

lemma sample_load: "load_config sample_env cfg = (case validate cidr_api cfg of Some e \<Rightarrow> Inl (Load_Invalid e) | None \<Rightarrow> Inr cfg)"
    and sample_write: "write_validated sample_env cfg = (case validate cidr_api cfg of Some e \<Rightarrow> Inl (Result_Invalid e) | None \<Rightarrow> Inr cfg)"
  by (simp_all add: load_config_def write_validated_def sample_env_def resolve_paths_ident)

lemma life_fields [simp]: "cfg_peers (life_config ps acl) = ps" "cfg_acl (life_config ps acl) = acl"
    "cfg_dns_records (life_config ps acl) = []"
    "(life_config ps acl)\<lparr>cfg_peers := qs\<rparr> = life_config qs acl"
    "(life_config ps acl)\<lparr>cfg_acl := acl'\<rparr> = life_config ps acl'"
  by (simp_all add: life_config_def)

lemma invited_fields [simp]: "peer_public_key invited_peer = [2]" "first_ip invited_peer = Some 0x0A000002"
    "peer_invite_id invited_peer = Some zeros" "peer_invite_accepted_at invited_peer = None"
    "peer_name invited_peer = None" "peer_dns_name invited_peer = None" "peer_invite_device_id invited_peer = None"
    "peer_allowed_ips invited_peer = [host_net 0x0A000002]" "peer_preshared_key_file invited_peer = None"
  by (simp_all add: invited_peer_def sample_peer_def first_ip_def)

lemma joined_fields [simp]: "peer_public_key joined_peer = [3]" "first_ip joined_peer = Some 0x0A000003"
    "peer_name joined_peer = None" "peer_dns_name joined_peer = None"
    "peer_allowed_ips joined_peer = [host_net 0x0A000003]"
  by (simp_all add: joined_peer_def sample_peer_def first_ip_def)

lemma first_ip_accept [simp]: "first_ip (accept_peer t d p) = first_ip p"
  by (simp add: first_ip_def)

lemma invited_open: "invite_allows_connection invited_peer 200"
  by (simp add: invite_allows_connection_def invite_state_def invited_peer_def sample_peer_def)

lemmas ops_run = find_peer_def edit_peer_def peer_tables_def bail_if_def sample_load sample_write

lemma life_mark: "mark_invite_accepted_by_ip sample_env life life 0x0A000002 200 (Some ones) = Inr (True, life_joined)"
  by (simp add: mark_invite_accepted_by_ip_def ops_run life_valid life_joined_valid invited_open toml_int_ok_def)

abbreviation life_taken :: config where
  "life_taken \<equiv> life_config [accept_peer 201 zeros invited_peer, joined_peer] life_acl"


lemma life_taken_valid: "validate cidr_api life_taken = None"
  by (simp add: life_eval)

lemma life_mark_stale: "mark_invite_accepted_by_ip sample_env life life_joined 0x0A000002 201 (Some zeros) = Inr (True, life_taken)"
proof -
  have "invite_allows_connection invited_peer 201"
    by (simp add: invite_allows_connection_def invite_state_def invited_peer_def sample_peer_def)
  then show ?thesis
    by (simp add: mark_invite_accepted_by_ip_def ops_run life_valid life_taken_valid toml_int_ok_def)
qed

text \<open>
  An invitation can be taken twice. A concrete history: two devices join with one invitation, both
  checks having read the file before either write; both joins succeed and the second device replaces the
  first.
\<close>

theorem invitation_joined_twice:
  "history sample_env [9] life [Mark_Joined 0x0A000002 200 (Some ones), Mark_Joined 0x0A000002 201 (Some zeros)]
     [life_taken, life_joined, life]"
proof -
  have "history sample_env [9] life ([] @ [Mark_Joined 0x0A000002 200 (Some ones)]) [life_joined, life]"
    by (rule history_step [OF history_start, of life]) (auto simp: life_mark)
  then have "history sample_env [9] life (([] @ [Mark_Joined 0x0A000002 200 (Some ones)])
      @ [Mark_Joined 0x0A000002 201 (Some zeros)]) [life_taken, life_joined, life]"
    by (rule history_step [of _ _ _ _ _ _ life]) (auto simp: life_mark_stale)
  then show ?thesis by simp
qed

lemma life_history: "history sample_env [9] life [Mark_Joined 0x0A000002 200 (Some ones)] [life_joined, life]"
proof -
  have "history sample_env [9] life ([] @ [Mark_Joined 0x0A000002 200 (Some ones)]) [life_joined, life]"
    by (rule history_step [OF history_start, of life]) (auto simp: life_mark)
  then show ?thesis by simp
qed


theorem addresses_stay_unique_witness:
  "distinct (used_ips life_joined) \<and> list_all (\<lambda>ip. net_contains (env_api sample_env)
     (net_trunc (env_api sample_env) (if_address (cfg_interface life))) ip) (used_ips life_joined)"
  by (rule addresses_stay_unique [OF life_history])
    (simp_all add: used_ips_def life_config_def sample_interface_def sample_env_def cidr_api_def cidr_contains_def
      block_base_def block_size_def)

definition removed_life :: config where
  "removed_life = life_config [joined_peer] empty_acl"

lemma life_remove: "remove_peer sample_env life life (Sel_Ip 0x0A000002) =
    Inr (\<lparr>rm_display = bytes_str [2], rm_public_key = [2], rm_psk_file = None\<rparr>, removed_life)"
proof -
  have v: "validate cidr_api removed_life = None" by (simp add: life_eval removed_life_def)
  have d: "remove_deny life (Some 0x0A000002) (life_config [joined_peer] life_acl) = removed_life"
    by (simp add: remove_deny_def life_acl_def normalized_deny_def write_deny_def normalize_pairs_def
        removed_life_def empty_acl_def)
  have r: "remove_references life [2] removed_life = removed_life"
    by (simp add: remove_references_def removed_life_def remove_groups_def empty_acl_def life_config_def)
  show ?thesis
    by (simp add: remove_peer_def ops_run life_valid Let_def d r v peer_display_def)
      (simp add: sample_env_def)
qed

theorem removed_peer_unreferenced_witness:
  "cfg_peers removed_life = filter (\<lambda>p. peer_public_key p \<noteq> [2]) (cfg_peers life)"
  using removed_peer_unreferenced [OF life_remove] by simp

theorem remove_denied_member_resets_policy_witness:
  "acl_groups (cfg_acl life) \<noteq> [] \<and> acl_groups (cfg_acl removed_life) = []"
proof -
  have "is_denied (cfg_acl life) 0x0A000002 0x0A000003" by (simp add: life_acl_def is_denied_def)
  from remove_denied_member_resets_policy [OF life_remove _ _ _ this, of invited_peer]
  show ?thesis by (simp add: life_acl_def)
qed

abbreviation life_rotated :: config where
  "life_rotated \<equiv> life_config [invited_peer\<lparr>peer_public_key := [4]\<rparr>, joined_peer] life_acl"

lemma life_rotate: "rotate_peer_key sample_env life life 0x0A000002 [4] [9] = Inr (Rotated (ip_text 0x0A000002), life_rotated)"
proof -
  have v: "validate cidr_api life_rotated = None" by (simp add: life_eval)
  have r: "rotate_records old new (life_config ps acl) = life_config ps acl" for old new ps acl
    by (simp add: rotate_records_def life_config_def)
  show ?thesis
    by (simp add: rotate_peer_key_def ops_run life_valid v r)
qed

theorem rotated_key_leaves_groups_witness:
  "\<exists>old. (\<forall>g. set (group_members g) \<subseteq> {old} \<longrightarrow> resolve_group life_rotated g = [])
     \<and> (\<exists>g \<in> set (acl_groups (cfg_acl life_rotated)). group_members g = [old])"
proof -
  from rotated_key_leaves_groups [OF life_rotate] obtain old where
    "\<exists>p \<in> set (cfg_peers life). first_ip p = Some 0x0A000002 \<and> peer_public_key p = old"
    "\<forall>g. set (group_members g) \<subseteq> {old} \<longrightarrow> resolve_group life_rotated g = []" by blast
  moreover then have "old = [2]" by auto
  ultimately show ?thesis by (intro exI [of _ "[2]"]) (simp add: life_acl_def)
qed

abbreviation life_named :: config where
  "life_named \<equiv> life_config [invited_peer\<lparr>peer_dns_name := Some ''alice''\<rparr>, joined_peer] life_acl"

lemma life_name: "set_peer_dns_name sample_env life life (Sel_Ip 0x0A000002) ''Alice'' = Inr (Dns_Applied ''alice'' ''alice'', life_named)"
proof -
  have v: "validate cidr_api life_named = None" by (simp add: life_eval)
  have n: "normalize_dns_name ''Alice'' False = Inr ''alice''" by code_simp
  have t: "''alice'' \<notin> set (taken_dns_labels life (Exclude_Peer [2]))"
    by (simp add: taken_dns_labels_def host_dns_label_def peer_dns_label_def HOST_DNS_LABEL_def)
      (simp add: life_config_def sample_interface_def HOST_DNS_LABEL_def)
  from n t show ?thesis
    by (simp add: set_peer_dns_name_def ops_run life_valid v Let_def)
qed

theorem dns_name_has_one_owner_witness:
  "is_dns_label ''alice'' \<and> (\<exists>p \<in> set (cfg_peers life_named). peer_dns_name p = Some ''alice'')"
  using dns_name_has_one_owner [OF life_name] by blast

end
