(* ===== verification/Acl_Session.thy ===== *)
theory Acl_Session
  imports Acl_Packet
begin

text \<open>
  \<^verbatim>\<open>AclSessionTracker\<close> of \<^verbatim>\<open>acl.rs\<close>: the table of admitted reply
  flows and admitted first fragments behind the Windows relay. Each operation takes the monotonic
  clock reading as an argument. A run is a list of calls; the lemmas show which earlier call any
  entry of the table comes from, how long an entry lives, and that the tables stay in their cap.
\<close>

section \<open>State and operations\<close>

record session =
  expires_at :: instant
  lifetime :: duration

record tracker =
  replies :: "(reply_key, session) hashmap"
  fragments :: "(fragment_key, session) hashmap"
  next_prune :: "instant option"

definition tracker_default :: tracker where
  "tracker_default = \<lparr>replies = [], fragments = [], next_prune = None\<rparr>"

definition TCP_SESSION_LIFETIME :: duration where "TCP_SESSION_LIFETIME = secs (5 * 60)"
definition UDP_SESSION_LIFETIME :: duration where "UDP_SESSION_LIFETIME = secs 30"
definition ICMP_SESSION_LIFETIME :: duration where "ICMP_SESSION_LIFETIME = secs 10"
definition FRAGMENT_LIFETIME :: duration where "FRAGMENT_LIFETIME = secs 15"
definition MAX_ACL_SESSIONS :: nat where "MAX_ACL_SESSIONS = 16384"

definition remove_expired :: "instant \<Rightarrow> tracker \<Rightarrow> tracker" where
  "remove_expired now t =
     (if (case next_prune t of Some next \<Rightarrow> now < next | None \<Rightarrow> False) then t
      else \<lparr>replies = hm_retain (\<lambda>_ s. now < expires_at s) (replies t),
            fragments = hm_retain (\<lambda>_ s. now < expires_at s) (fragments t),
            next_prune = Some (now + secs 1)\<rparr>)"

definition insert_reply :: "reply_key \<Rightarrow> duration \<Rightarrow> instant \<Rightarrow> tracker \<Rightarrow> tracker" where
  "insert_reply key life now t =
     (if MAX_ACL_SESSIONS \<le> hm_len (replies t) \<and> \<not> hm_contains (replies t) key then t
      else t\<lparr>replies := hm_insert key \<lparr>expires_at = now + life, lifetime = life\<rparr> (replies t)\<rparr>)"

definition insert_fragment :: "fragment_key \<Rightarrow> instant \<Rightarrow> tracker \<Rightarrow> tracker" where
  "insert_fragment key now t =
     (if MAX_ACL_SESSIONS \<le> hm_len (fragments t) \<and> \<not> hm_contains (fragments t) key then t
      else t\<lparr>fragments := hm_insert key
               \<lparr>expires_at = now + FRAGMENT_LIFETIME, lifetime = FRAGMENT_LIFETIME\<rparr> (fragments t)\<rparr>)"

definition observe_allowed :: "bytes \<Rightarrow> instant \<Rightarrow> tracker \<Rightarrow> tracker" where
  "observe_allowed packet now t0 =
     (let t = remove_expired now t0
      in case session_candidate packet of
           None \<Rightarrow> t
         | Some (Transport_Candidate reply protocol opens) \<Rightarrow>
             (let life = (if protocol = 6 then TCP_SESSION_LIFETIME else UDP_SESSION_LIFETIME)
              in if opens \<or> hm_contains (replies t) reply then insert_reply reply life now t else t)
         | Some (Icmp_Echo_Request reply) \<Rightarrow> insert_reply reply ICMP_SESSION_LIFETIME now t
         | Some Other_Candidate \<Rightarrow> t)"

definition allows_reply :: "bytes \<Rightarrow> instant \<Rightarrow> tracker \<Rightarrow> bool \<times> tracker" where
  "allows_reply packet now t0 =
     (let t = remove_expired now t0
      in case packet_reply_key packet of
           None \<Rightarrow> (False, t)
         | Some key \<Rightarrow>
             (case hm_get (replies t) key of
                None \<Rightarrow> (False, t)
              | Some s \<Rightarrow>
                  (True, t\<lparr>replies := hm_insert key (s\<lparr>expires_at := now + lifetime s\<rparr>) (replies t)\<rparr>)))"

definition note_forwarded_fragment :: "bytes \<Rightarrow> instant \<Rightarrow> tracker \<Rightarrow> tracker" where
  "note_forwarded_fragment packet now t =
     (if is_initial_fragment packet \<and> has_more_fragments packet
      then (case fragment_key_of packet of Some key \<Rightarrow> insert_fragment key now t | None \<Rightarrow> t)
      else t)"

definition allows_fragment :: "bytes \<Rightarrow> instant \<Rightarrow> tracker \<Rightarrow> bool \<times> tracker" where
  "allows_fragment packet now t0 =
     (let t = remove_expired now t0
      in case fragment_key_of packet of
           None \<Rightarrow> (False, t)
         | Some key \<Rightarrow> (hm_contains (fragments t) key, t))"

definition tracker_clear :: "tracker \<Rightarrow> tracker" where
  "tracker_clear t = \<lparr>replies = [], fragments = [], next_prune = None\<rparr>"

section \<open>Representation invariant\<close>

definition tracker_ok :: "tracker \<Rightarrow> bool" where
  "tracker_ok t \<longleftrightarrow> hm_ok (replies t) \<and> hm_ok (fragments t)
     \<and> hm_len (replies t) \<le> MAX_ACL_SESSIONS \<and> hm_len (fragments t) \<le> MAX_ACL_SESSIONS"

named_theorems tracker_ok

lemma tracker_ok_default [tracker_ok]: "tracker_ok tracker_default"
  by (simp add: tracker_ok_def tracker_default_def hm.ok_empty hm.len_empty)

lemma remove_expired_ok [tracker_ok]: "tracker_ok t \<Longrightarrow> tracker_ok (remove_expired now t)"
  using hm.len_retain [of _ "replies t"] hm.len_retain [of _ "fragments t"]
  by (auto simp: tracker_ok_def remove_expired_def intro: hm.ok_retain order_trans)

lemma insert_reply_ok [tracker_ok]: "tracker_ok t \<Longrightarrow> tracker_ok (insert_reply k life now t)"
  by (auto simp: tracker_ok_def insert_reply_def hm_contains_def not_le
      intro!: hm.ok_insert hm.len_insert_capped)

lemma insert_fragment_ok [tracker_ok]: "tracker_ok t \<Longrightarrow> tracker_ok (insert_fragment k now t)"
  by (auto simp: tracker_ok_def insert_fragment_def hm_contains_def not_le
      intro!: hm.ok_insert hm.len_insert_capped)

lemma observe_allowed_ok [tracker_ok]: "tracker_ok t \<Longrightarrow> tracker_ok (observe_allowed p now t)"
  by (auto simp: observe_allowed_def Let_def intro!: tracker_ok
      split: option.splits session_candidate.splits)

lemma allows_reply_ok [tracker_ok]:
  assumes "tracker_ok t"
  shows "tracker_ok (snd (allows_reply p now t))"
proof -
  have "tracker_ok (remove_expired now t)" using assms by (rule remove_expired_ok)
  then have "tracker_ok ((remove_expired now t)
      \<lparr>replies := hm_insert k v (replies (remove_expired now t))\<rparr>)"
    if "hm_get (replies (remove_expired now t)) k = Some s" for k s v
    using that by (auto simp: tracker_ok_def intro!: hm.ok_insert hm.len_insert_capped)
  with remove_expired_ok [OF assms] show ?thesis
    by (auto simp: allows_reply_def Let_def split: option.splits)
qed

lemma note_forwarded_fragment_ok [tracker_ok]:
  "tracker_ok t \<Longrightarrow> tracker_ok (note_forwarded_fragment p now t)"
  by (auto simp: note_forwarded_fragment_def intro: tracker_ok split: option.splits)

lemma allows_fragment_ok [tracker_ok]: "tracker_ok t \<Longrightarrow> tracker_ok (snd (allows_fragment p now t))"
  by (auto simp: allows_fragment_def Let_def intro: tracker_ok split: option.splits)

lemma tracker_clear_ok [tracker_ok]: "tracker_ok (tracker_clear t)"
  using tracker_ok_default by (simp add: tracker_clear_def tracker_default_def)

section \<open>What one call does to one entry\<close>

lemma remove_expired_get:
  assumes "tracker_ok t" and "hm_get (replies (remove_expired now t)) k = Some s"
  shows "hm_get (replies t) k = Some s"
  using assms by (auto simp: remove_expired_def tracker_ok_def dest: hm.get_retain_SomeD
      split: if_splits)

lemma remove_expired_keeps:
  assumes "tracker_ok t" and "hm_get (replies t) k = Some s" and "now < expires_at s"
  shows "hm_get (replies (remove_expired now t)) k = Some s"
  using assms by (auto simp: remove_expired_def tracker_ok_def hm.get_retain)

lemma remove_expired_fresh:
  assumes "tracker_ok t" and "hm_get (replies (remove_expired now t)) k = Some s"
    and "\<not> (case next_prune t of Some n \<Rightarrow> now < n | None \<Rightarrow> False)"
  shows "now < expires_at s"
  using assms by (auto simp: remove_expired_def tracker_ok_def dest: hm.get_retain_SomeD)

lemma remove_expired_get_frag:
  assumes "tracker_ok t" and "hm_get (fragments (remove_expired now t)) k = Some s"
  shows "hm_get (fragments t) k = Some s"
  using assms by (auto simp: remove_expired_def tracker_ok_def dest: hm.get_retain_SomeD
      split: if_splits)

lemma insert_reply_get:
  "hm_get (replies (insert_reply k life now t)) k' = Some s \<Longrightarrow>
    hm_get (replies t) k' = Some s \<or> k' = k \<and> s = \<lparr>expires_at = now + life, lifetime = life\<rparr>"
  by (auto simp: insert_reply_def hm.get_insert split: if_splits)

lemma insert_reply_other [simp]:
  "fragments (insert_reply k life now t) = fragments t"
  "next_prune (insert_reply k life now t) = next_prune t"
  by (simp_all add: insert_reply_def)

lemma insert_fragment_other [simp]:
  "replies (insert_fragment k now t) = replies t"
  "next_prune (insert_fragment k now t) = next_prune t"
  by (simp_all add: insert_fragment_def)

lemma note_forwarded_fragment_other [simp]:
  "replies (note_forwarded_fragment p now t) = replies t"
  "next_prune (note_forwarded_fragment p now t) = next_prune t"
  by (auto simp: note_forwarded_fragment_def split: option.splits)

text \<open>The lifetime of a flow follows from its key.\<close>

fun key_lifetime :: "reply_key \<Rightarrow> duration" where
  "key_lifetime (Transport_Key s d pr sp dp) =
     (if pr = 6 then TCP_SESSION_LIFETIME else UDP_SESSION_LIFETIME)"
| "key_lifetime (Icmp_Echo_Key s d kind i) = ICMP_SESSION_LIFETIME"

text \<open>The key an observed packet may create or refresh, and whether it may create it.\<close>

definition observed_key :: "bytes \<Rightarrow> (reply_key \<times> bool) option" where
  "observed_key p =
     (case session_candidate p of
        Some (Transport_Candidate k pr opens) \<Rightarrow> Some (k, opens)
      | Some (Icmp_Echo_Request k) \<Rightarrow> Some (k, True)
      | _ \<Rightarrow> None)"

lemma observe_allowed_alt:
  "observe_allowed p now t =
     (case observed_key p of
        None \<Rightarrow> remove_expired now t
      | Some (k, opens) \<Rightarrow>
          if opens \<or> hm_contains (replies (remove_expired now t)) k
          then insert_reply k (key_lifetime k) now (remove_expired now t) else remove_expired now t)"
  using candidate_protocol [of p] icmp_candidate_key [of p]
  by (fastforce simp: observe_allowed_def observed_key_def Let_def
      split: option.splits session_candidate.splits)

section \<open>Runs\<close>

text \<open>
  A run is the list of calls with their clock readings, the newest call first. \<open>since_clear\<close> is
  its part after the last \<^verbatim>\<open>clear()\<close>. \<open>Instant\<close> is monotonic, so clock readings never decrease: \<open>timed\<close>.
\<close>

datatype tracker_op = Observe bytes | Reply bytes | Note_Fragment bytes | Later_Fragment bytes | Clear_All

fun tracker_step :: "instant \<times> tracker_op \<Rightarrow> tracker \<Rightarrow> tracker" where
  "tracker_step (now, Observe p) t = observe_allowed p now t"
| "tracker_step (now, Reply p) t = snd (allows_reply p now t)"
| "tracker_step (now, Note_Fragment p) t = note_forwarded_fragment p now t"
| "tracker_step (now, Later_Fragment p) t = snd (allows_fragment p now t)"
| "tracker_step (now, Clear_All) t = tracker_clear t"

fun tracker_run :: "(instant \<times> tracker_op) list \<Rightarrow> tracker" where
  "tracker_run [] = tracker_default"
| "tracker_run (c # h) = tracker_step c (tracker_run h)"

definition since_clear :: "(instant \<times> tracker_op) list \<Rightarrow> (instant \<times> tracker_op) list" where
  "since_clear h = takeWhile (\<lambda>c. snd c \<noteq> Clear_All) h"

definition timed :: "(instant \<times> tracker_op) list \<Rightarrow> bool" where
  "timed h \<longleftrightarrow> sorted_wrt (\<lambda>newer older. fst older \<le> fst newer) h"

fun touches :: "reply_key \<Rightarrow> tracker_op \<Rightarrow> bool" where
  "touches k (Observe p) \<longleftrightarrow> (case observed_key p of Some (k', _) \<Rightarrow> k' = k | None \<Rightarrow> False)"
| "touches k (Reply p) \<longleftrightarrow> packet_reply_key p = Some k"
| "touches k _ \<longleftrightarrow> False"

definition opens :: "reply_key \<Rightarrow> tracker_op \<Rightarrow> bool" where
  "opens k op \<longleftrightarrow> (\<exists>p. op = Observe p \<and> observed_key p = Some (k, True))"

lemma since_clear_simps [simp]:
  "since_clear [] = []"
  "since_clear ((now, op) # h) = (if op = Clear_All then [] else (now, op) # since_clear h)"
  by (simp_all add: since_clear_def)

lemma timed_Cons: "timed (c # h) \<longleftrightarrow> (\<forall>d \<in> set h. fst d \<le> fst c) \<and> timed h"
  by (simp add: timed_def)

lemma tracker_run_ok [tracker_ok]: "tracker_ok (tracker_run h)"
proof (induction h)
  case (Cons c h)
  then show ?case by (cases c; cases "snd c") (auto intro: tracker_ok)
qed (simp add: tracker_ok)

text \<open>One call changes an entry only by creating, refreshing or dropping it.\<close>

lemma tracker_step_entry:
  assumes "tracker_ok t" and "hm_get (replies (tracker_step (now, op) t)) k = Some s"
  shows "op \<noteq> Clear_All"
    and "hm_get (replies t) k = Some s
      \<or> opens k op \<and> s = \<lparr>expires_at = now + key_lifetime k, lifetime = key_lifetime k\<rparr>
      \<or> touches k op \<and> (\<exists>s'. hm_get (replies t) k = Some s' \<and>
          (s = \<lparr>expires_at = now + key_lifetime k, lifetime = key_lifetime k\<rparr>
           \<or> s = s'\<lparr>expires_at := now + lifetime s'\<rparr>))"
proof -
  show "op \<noteq> Clear_All" using assms(2) by (auto simp: tracker_clear_def hm.get_empty)
  show "hm_get (replies t) k = Some s
      \<or> opens k op \<and> s = \<lparr>expires_at = now + key_lifetime k, lifetime = key_lifetime k\<rparr>
      \<or> touches k op \<and> (\<exists>s'. hm_get (replies t) k = Some s' \<and>
          (s = \<lparr>expires_at = now + key_lifetime k, lifetime = key_lifetime k\<rparr>
           \<or> s = s'\<lparr>expires_at := now + lifetime s'\<rparr>))"
  proof (cases op)
    case (Observe p)
    show ?thesis
    proof (cases "observed_key p")
      case None
      with assms Observe show ?thesis
        by (auto simp: observe_allowed_alt dest: remove_expired_get)
    next
      case (Some ko)
      obtain k' op' where ko: "ko = (k', op')" by (cases ko)
      have "hm_get (replies t) k' \<noteq> None" if "hm_contains (replies (remove_expired now t)) k'"
        using that remove_expired_get [OF assms(1)] by (auto simp: hm_contains_def)
      with assms Observe Some ko show ?thesis
        by (auto simp: observe_allowed_alt opens_def split: if_splits
            dest!: insert_reply_get remove_expired_get [OF assms(1)])
    qed
  next
    case (Reply p)
    with assms show ?thesis
      by (auto simp: allows_reply_def Let_def hm.get_insert split: option.splits if_splits
          dest: remove_expired_get [OF assms(1)])
  next
    case (Later_Fragment p)
    with assms show ?thesis
      by (auto simp: allows_fragment_def Let_def split: option.splits
          dest: remove_expired_get [OF assms(1)])
  qed (use assms in \<open>auto simp: tracker_clear_def hm.get_empty\<close>)
qed

lemma opens_touches: "opens k op \<Longrightarrow> touches k op"
  by (auto simp: opens_def)

lemma entry_origin:
  assumes "hm_get (replies (tracker_run h)) k = Some s"
  shows "lifetime s = key_lifetime k"
    and "\<exists>c \<in> set (since_clear h). opens k (snd c)"
    and "\<exists>c \<in> set (since_clear h). touches k (snd c) \<and> expires_at s = fst c + key_lifetime k"
  using assms
proof (induction h arbitrary: s)
  case Nil
  {
    case 1 then show ?case by (simp add: tracker_default_def hm.get_empty)
  next
    case 2 then show ?case by (simp add: tracker_default_def hm.get_empty)
  next
    case 3 then show ?case by (simp add: tracker_default_def hm.get_empty)
  }
next
  case (Cons c h)
  obtain now op where c: "c = (now, op)" by (cases c)
  have step: "op \<noteq> Clear_All"
    "hm_get (replies (tracker_run h)) k = Some s
      \<or> opens k op \<and> s = \<lparr>expires_at = now + key_lifetime k, lifetime = key_lifetime k\<rparr>
      \<or> touches k op \<and> (\<exists>s'. hm_get (replies (tracker_run h)) k = Some s' \<and>
          (s = \<lparr>expires_at = now + key_lifetime k, lifetime = key_lifetime k\<rparr>
           \<or> s = s'\<lparr>expires_at := now + lifetime s'\<rparr>))"
    if "hm_get (replies (tracker_run (c # h))) k = Some s" for s
    using that tracker_step_entry [of "tracker_run h" now op k s] by (simp_all add: c tracker_ok)
  {
    case 1 then show ?case using step Cons.IH(1) by auto
  next
    case 2 then show ?case using step Cons.IH(2) by (fastforce simp: c)
  next
    case 3 then show ?case using step Cons.IH(1,3) opens_touches by (fastforce simp: c)
  }
qed

section \<open>Expiry\<close>

text \<open>
  The table is scanned at most once a second, so an entry may outlive its deadline, but by less
  than a second: \<open>fresh\<close> is the invariant, \<open>lt\<close> the latest clock reading.
\<close>

definition fresh :: "instant \<Rightarrow> tracker \<Rightarrow> bool" where
  "fresh lt t \<longleftrightarrow>
     (case next_prune t of
        None \<Rightarrow> (\<forall>k. hm_get (replies t) k = None)
      | Some n \<Rightarrow> n \<le> lt + secs 1 \<and> (\<forall>k s. hm_get (replies t) k = Some s \<longrightarrow> n < expires_at s + secs 1))"

definition last_time :: "(instant \<times> tracker_op) list \<Rightarrow> instant" where
  "last_time h = (case h of [] \<Rightarrow> 0 | c # _ \<Rightarrow> fst c)"

lemma key_lifetime_pos [simp]: "0 < key_lifetime k"
  by (cases k) (auto simp: TCP_SESSION_LIFETIME_def UDP_SESSION_LIFETIME_def
      ICMP_SESSION_LIFETIME_def)

lemma fresh_default: "fresh 0 tracker_default"
  by (simp add: fresh_def tracker_default_def hm.get_empty)

lemma remove_expired_pruned:
  assumes "fresh lt t" and "lt \<le> now"
  shows "\<exists>n. next_prune (remove_expired now t) = Some n \<and> n \<le> now + secs 1"
  using assms by (auto simp: fresh_def remove_expired_def split: option.splits)

lemma remove_expired_deadline:
  assumes "tracker_ok t" and "fresh lt t" and "hm_get (replies (remove_expired now t)) k = Some s"
  shows "now < expires_at s + secs 1"
proof (cases "case next_prune t of Some n \<Rightarrow> now < n | None \<Rightarrow> False")
  case True
  with assms remove_expired_get [OF assms(1,3)] show ?thesis
    by (fastforce simp: fresh_def split: option.splits)
next
  case False
  then show ?thesis using remove_expired_fresh [OF assms(1,3)] by simp
qed

lemma fresh_remove_expired:
  assumes "tracker_ok t" and "fresh lt t" and "lt \<le> now"
  shows "fresh now (remove_expired now t)"
proof (cases "case next_prune t of Some n \<Rightarrow> now < n | None \<Rightarrow> False")
  case True
  then have "remove_expired now t = t" by (simp add: remove_expired_def)
  with assms show ?thesis by (fastforce simp: fresh_def split: option.splits)
next
  case False
  then have "next_prune (remove_expired now t) = Some (now + secs 1)"
    by (auto simp: remove_expired_def)
  with remove_expired_fresh [OF assms(1) _ False] show ?thesis
    by (auto simp: fresh_def)
qed

lemma fresh_touch:
  assumes "fresh now t" and "next_prune t = Some n" and "next_prune t' = Some n"
    and "\<And>k s. hm_get (replies t') k = Some s \<Longrightarrow> hm_get (replies t) k = Some s \<or> now < expires_at s"
  shows "fresh now t'"
  using assms by (fastforce simp: fresh_def)

lemma tracker_step_fresh:
  assumes "tracker_ok t" and "fresh lt t" and "lt \<le> now"
    and life: "\<And>k s. hm_get (replies t) k = Some s \<Longrightarrow> lifetime s = key_lifetime k"
  shows "fresh now (tracker_step (now, op) t)"
proof -
  let ?t = "remove_expired now t"
  have f: "fresh now ?t" using assms by (intro fresh_remove_expired)
  obtain n where n: "next_prune ?t = Some n"
    using remove_expired_pruned [OF assms(2,3)] by blast
  show ?thesis
  proof (cases op)
    case (Observe p)
    have "next_prune (observe_allowed p now t) = Some n"
      using n by (auto simp: observe_allowed_alt split: option.splits)
    moreover have "hm_get (replies ?t) k = Some s \<or> now < expires_at s"
      if "hm_get (replies (observe_allowed p now t)) k = Some s" for k s
      using that by (auto simp: observe_allowed_alt split: option.splits if_splits
          dest!: insert_reply_get)
    ultimately show ?thesis using f n Observe by (auto intro: fresh_touch)
  next
    case (Reply p)
    have "next_prune (snd (allows_reply p now t)) = Some n"
      using n by (auto simp: allows_reply_def Let_def split: option.splits)
    moreover have "hm_get (replies ?t) k = Some s \<or> now < expires_at s"
      if "hm_get (replies (snd (allows_reply p now t))) k = Some s" for k s
      using that life remove_expired_get [OF assms(1)]
      by (fastforce simp: allows_reply_def Let_def hm.get_insert split: option.splits if_splits)
    ultimately show ?thesis using f n Reply by (auto intro: fresh_touch)
  next
    case (Note_Fragment p)
    with assms show ?thesis by (fastforce simp: fresh_def split: option.splits)
  next
    case (Later_Fragment p)
    with f show ?thesis by (auto simp: allows_fragment_def Let_def split: option.splits)
  next
    case Clear_All
    then show ?thesis by (simp add: tracker_clear_def fresh_def hm.get_empty)
  qed
qed

lemma tracker_run_fresh:
  assumes "timed h"
  shows "fresh (last_time h) (tracker_run h)"
  using assms
proof (induction h)
  case (Cons c h)
  obtain now op where c: "c = (now, op)" by (cases c)
  have "last_time h \<le> now" using Cons.prems c by (cases h) (auto simp: timed_Cons last_time_def)
  moreover have "fresh (last_time h) (tracker_run h)" using Cons by (simp add: timed_Cons)
  ultimately show ?case
    using tracker_step_fresh [of "tracker_run h" "last_time h" now op] entry_origin(1)
    by (auto simp: c tracker_ok last_time_def)
qed (simp add: fresh_default last_time_def)

section \<open>An opened flow stays open\<close>

lemma insert_reply_room:
  assumes "hm_len (replies t) < MAX_ACL_SESSIONS \<or> hm_contains (replies t) k"
  shows "hm_get (replies (insert_reply k life now t)) k =
    Some \<lparr>expires_at = now + life, lifetime = life\<rparr>"
  using assms by (auto simp: insert_reply_def hm.get_insert)

lemma insert_reply_keeps:
  assumes "hm_get (replies t) k = Some s" and "k' \<noteq> k"
  shows "hm_get (replies (insert_reply k' life now t)) k = Some s"
  using assms by (auto simp: insert_reply_def hm.get_insert)

lemma tracker_step_keeps:
  assumes "tracker_ok t" and "hm_get (replies t) k = Some s" and "lifetime s = key_lifetime k"
    and "now < d" and "d \<le> expires_at s" and "d \<le> now + key_lifetime k" and "op \<noteq> Clear_All"
  shows "\<exists>s'. hm_get (replies (tracker_step (now, op) t)) k = Some s'
    \<and> lifetime s' = key_lifetime k \<and> d \<le> expires_at s'"
proof -
  let ?t = "remove_expired now t"
  have keep: "hm_get (replies ?t) k = Some s"
    using assms by (intro remove_expired_keeps) auto
  show ?thesis
  proof (cases op)
    case (Observe p)
    have "hm_get (replies (insert_reply k' (key_lifetime k') now ?t)) k =
        Some (if k' = k then \<lparr>expires_at = now + key_lifetime k, lifetime = key_lifetime k\<rparr> else s)" for k'
      using keep insert_reply_keeps [OF keep] insert_reply_room [of ?t k]
      by (auto simp: hm_contains_def)
    with Observe keep assms show ?thesis
      by (auto simp: observe_allowed_alt split: option.splits)
  next
    case (Reply p)
    with keep assms show ?thesis
      by (auto simp: allows_reply_def Let_def hm.get_insert split: option.splits)
  next
    case (Later_Fragment p)
    with keep assms show ?thesis
      by (auto simp: allows_fragment_def Let_def split: option.splits)
  qed (use assms in auto)
qed

lemma opened_stays:
  assumes "timed (h2 @ (t, Observe q) # h1)" and "observed_key q = Some (k, True)"
    and "hm_len (replies (tracker_run h1)) < MAX_ACL_SESSIONS"
    and "\<forall>c \<in> set h2. snd c \<noteq> Clear_All \<and> fst c < t + key_lifetime k"
  shows "\<exists>s. hm_get (replies (tracker_run (h2 @ (t, Observe q) # h1))) k = Some s
    \<and> lifetime s = key_lifetime k \<and> t + key_lifetime k \<le> expires_at s"
  using assms
proof (induction h2)
  case Nil
  have "hm_len (replies (remove_expired t (tracker_run h1))) < MAX_ACL_SESSIONS"
    using Nil.prems(3) hm.len_retain [of _ "replies (tracker_run h1)"]
    by (auto simp: remove_expired_def intro: le_less_trans)
  with Nil show ?case by (simp add: observe_allowed_alt insert_reply_room)
next
  case (Cons c h2)
  obtain now op where c: "c = (now, op)" by (cases c)
  have "t \<le> now" and "now < t + key_lifetime k" and "op \<noteq> Clear_All"
    using Cons.prems by (auto simp: c timed_Cons)
  moreover obtain s where "hm_get (replies (tracker_run (h2 @ (t, Observe q) # h1))) k = Some s"
    "lifetime s = key_lifetime k" "t + key_lifetime k \<le> expires_at s"
    using Cons by (auto simp: timed_Cons)
  ultimately show ?case
    using tracker_step_keeps [of "tracker_run (h2 @ (t, Observe q) # h1)" k s now
        "t + key_lifetime k" op] by (simp add: c tracker_ok)
qed

section \<open>Fragments\<close>

text \<open>A later fragment is admitted only behind a forwarded first fragment of its datagram.\<close>

definition leads :: "fragment_key \<Rightarrow> tracker_op \<Rightarrow> bool" where
  "leads k op \<longleftrightarrow> (\<exists>p. op = Note_Fragment p \<and> is_initial_fragment p \<and> has_more_fragments p
     \<and> fragment_key_of p = Some k)"

definition fresh_frag :: "tracker \<Rightarrow> bool" where
  "fresh_frag t \<longleftrightarrow> (\<forall>n k s. next_prune t = Some n \<longrightarrow> hm_get (fragments t) k = Some s \<longrightarrow>
     n < expires_at s + secs 1)"

lemma fresh_le: "fresh lt t \<Longrightarrow> next_prune t = Some n \<Longrightarrow> n \<le> lt + secs 1"
  by (simp add: fresh_def)

lemma fragments_observe [simp]:
  "fragments (observe_allowed p now t) = fragments (remove_expired now t)"
  "next_prune (observe_allowed p now t) = next_prune (remove_expired now t)"
  by (auto simp: observe_allowed_alt split: option.splits)

lemma fragments_reply [simp]:
  "fragments (snd (allows_reply p now t)) = fragments (remove_expired now t)"
  "next_prune (snd (allows_reply p now t)) = next_prune (remove_expired now t)"
  by (auto simp: allows_reply_def Let_def split: option.splits)

lemma snd_allows_fragment [simp]: "snd (allows_fragment p now t) = remove_expired now t"
  by (auto simp: allows_fragment_def Let_def split: option.splits)

lemma note_forwarded_fragment_get:
  assumes "hm_get (fragments (note_forwarded_fragment p now t)) k = Some s"
  shows "hm_get (fragments t) k = Some s
    \<or> leads k (Note_Fragment p) \<and> s = \<lparr>expires_at = now + FRAGMENT_LIFETIME, lifetime = FRAGMENT_LIFETIME\<rparr>"
  using assms by (auto simp: note_forwarded_fragment_def insert_fragment_def leads_def hm.get_insert
      split: if_splits option.splits)

lemma tracker_step_fragment:
  assumes "tracker_ok t" and "hm_get (fragments (tracker_step (now, op) t)) k = Some s"
  shows "op \<noteq> Clear_All"
    and "hm_get (fragments t) k = Some s
      \<or> leads k op \<and> s = \<lparr>expires_at = now + FRAGMENT_LIFETIME, lifetime = FRAGMENT_LIFETIME\<rparr>"
  using assms remove_expired_get_frag [OF assms(1)] note_forwarded_fragment_get [of _ now t k s]
  by (cases op; auto simp: tracker_clear_def hm.get_empty)+

lemma fragment_origin:
  assumes "hm_get (fragments (tracker_run h)) k = Some s"
  shows "\<exists>c \<in> set (since_clear h). leads k (snd c) \<and> expires_at s = fst c + FRAGMENT_LIFETIME"
  using assms
proof (induction h)
  case (Cons c h)
  then show ?case
    using tracker_step_fragment [of "tracker_run h" "fst c" "snd c" k s]
    by (cases c) (auto simp: tracker_ok)
qed (simp add: tracker_default_def hm.get_empty)

lemma remove_expired_fresh_frag:
  assumes "tracker_ok t" and "fresh_frag t"
  shows "fresh_frag (remove_expired now t)"
    and "hm_get (fragments (remove_expired now t)) k = Some s \<Longrightarrow> now < expires_at s + secs 1"
  using assms by (auto simp: fresh_frag_def remove_expired_def tracker_ok_def
      dest: hm.get_retain_SomeD split: if_splits option.splits intro: less_trans)

lemma tracker_run_fresh_frag:
  assumes "timed h"
  shows "fresh_frag (tracker_run h)"
  using assms
proof (induction h)
  case (Cons c h)
  obtain now op where c: "c = (now, op)" by (cases c)
  have IH: "fresh_frag (tracker_run h)" and tm: "timed h" using Cons by (simp_all add: timed_Cons)
  have "last_time h \<le> now" using Cons.prems c by (cases h) (auto simp: timed_Cons last_time_def)
  then have n: "n \<le> now + secs 1" if "next_prune (tracker_run h) = Some n" for n
    using fresh_le [OF tracker_run_fresh [OF tm] that] by simp
  show ?case
  proof (cases op)
    case (Note_Fragment p)
    have "n < expires_at s + secs 1"
      if "next_prune (tracker_run h) = Some n"
        and "hm_get (fragments (note_forwarded_fragment p now (tracker_run h))) k = Some s" for n k s
      using note_forwarded_fragment_get [OF that(2)] n [OF that(1)] IH that(1)
      by (auto simp: fresh_frag_def FRAGMENT_LIFETIME_def secs_def)
    with Note_Fragment show ?thesis by (simp add: c fresh_frag_def)
  qed (use IH remove_expired_fresh_frag(1) [of "tracker_run h" now] in
      \<open>auto simp: c tracker_ok fresh_frag_def tracker_clear_def\<close>)
qed (simp add: fresh_frag_def tracker_default_def)

section \<open>Properties\<close>

text \<open>
  C23: no unsolicited reply. In a run with a monotonic clock, the tracker admits a packet as a reply
  only if, since the last \<^verbatim>\<open>clear()\<close>, the policy allowed a packet that opens exactly
  this flow (a UDP packet, a TCP SYN without ACK or an ICMP echo request with the two ends
  exchanged), and the last packet of the flow that was seen is younger than the lifetime of its
  protocol (five minutes, 30 or 10 seconds) plus the one second between two scans of the table.
\<close>

theorem reply_admitted_only_if_opened:
  assumes "timed ((now, Reply p) # h)" and "fst (allows_reply p now (tracker_run h))"
  shows "\<exists>k. packet_reply_key p = Some k
    \<and> (\<exists>c \<in> set (since_clear h). opens k (snd c))
    \<and> (\<exists>c \<in> set (since_clear h). touches k (snd c) \<and> now < fst c + key_lifetime k + secs 1)"
proof -
  let ?t = "remove_expired now (tracker_run h)"
  from assms(2) obtain k s where k: "packet_reply_key p = Some k" and s: "hm_get (replies ?t) k = Some s"
    by (auto simp: allows_reply_def Let_def split: option.splits)
  have old: "hm_get (replies (tracker_run h)) k = Some s"
    using s by (rule remove_expired_get [OF tracker_run_ok])
  have "now < expires_at s + secs 1"
    using assms(1) s tracker_run_fresh [of h]
    by (intro remove_expired_deadline [OF tracker_run_ok]) (simp_all add: timed_Cons)
  with k entry_origin(2,3) [OF old] show ?thesis by fastforce
qed

text \<open>
  Replies of an allowed flow pass. Once a packet that opens a flow was allowed while the table
  had room, every packet in the answer direction is admitted for the whole lifetime of the flow,
  whatever other packets the tracker sees in between, as long as it is not cleared.
\<close>

theorem opened_flow_admits_reply:
  assumes "timed ((now, Reply p) # h2 @ (t, Observe q) # h1)" and "observed_key q = Some (k, True)"
    and "hm_len (replies (tracker_run h1)) < MAX_ACL_SESSIONS"
    and "\<forall>c \<in> set h2. snd c \<noteq> Clear_All"
    and "packet_reply_key p = Some k" and "now < t + key_lifetime k"
  shows "fst (allows_reply p now (tracker_run (h2 @ (t, Observe q) # h1)))"
proof -
  let ?h = "h2 @ (t, Observe q) # h1"
  have "\<forall>c \<in> set h2. snd c \<noteq> Clear_All \<and> fst c < t + key_lifetime k" and "timed ?h"
    using assms(1,4,6) by (auto simp: timed_Cons intro: le_less_trans)
  then obtain s where "hm_get (replies (tracker_run ?h)) k = Some s"
    and "t + key_lifetime k \<le> expires_at s"
    using opened_stays [of h2 t q h1 k] assms(2,3) by blast
  then have "hm_get (replies (remove_expired now (tracker_run ?h))) k = Some s"
    using assms(6) by (intro remove_expired_keeps tracker_run_ok) auto
  with assms(5) show ?thesis by (simp add: allows_reply_def Let_def)
qed

text \<open>
  A later fragment passes only behind its first fragment. In a run with a monotonic clock, a
  fragment with a non-zero offset is admitted only if a first fragment with the same addresses,
  protocol and identification, and with more to follow, was forwarded less than 16 seconds ago
  and since the last \<^verbatim>\<open>clear()\<close>.
\<close>

theorem fragment_admitted_only_if_led:
  assumes "timed ((now, Later_Fragment p) # h)" and "fst (allows_fragment p now (tracker_run h))"
  shows "\<exists>k. fragment_key_of p = Some k
    \<and> (\<exists>c \<in> set (since_clear h). leads k (snd c) \<and> now < fst c + secs 16)"
proof -
  let ?t = "remove_expired now (tracker_run h)"
  from assms(2) obtain k s where k: "fragment_key_of p = Some k" and s: "hm_get (fragments ?t) k = Some s"
    by (auto simp: allows_fragment_def hm_contains_def Let_def split: option.splits)
  have "now < expires_at s + secs 1"
    using remove_expired_fresh_frag(2) [OF tracker_run_ok tracker_run_fresh_frag s] assms(1)
    by (simp add: timed_Cons)
  with fragment_origin [OF remove_expired_get_frag [OF tracker_run_ok s]] k show ?thesis
    by (auto simp: FRAGMENT_LIFETIME_def secs_def intro!: bexI)
qed

text \<open>
  Bounded memory. Whatever packets arrive, neither table of the tracker ever exceeds 16384
  entries, and no key occurs twice.
\<close>

theorem tracker_bounded:
  "hm_len (replies (tracker_run h)) \<le> 16384 \<and> hm_len (fragments (tracker_run h)) \<le> 16384
    \<and> hm_ok (replies (tracker_run h)) \<and> hm_ok (fragments (tracker_run h))"
  using tracker_run_ok [of h] by (simp add: tracker_ok_def MAX_ACL_SESSIONS_def)

section \<open>Witnesses\<close>

text \<open>A UDP packet 10.0.0.2:1000 to 10.0.0.3:53, its answer, and two fragments.\<close>

definition sample_udp :: bytes where
  "sample_udp = [0x45, 0, 0, 28, 0, 7, 0, 0, 64, 17, 0, 0, 10, 0, 0, 2, 10, 0, 0, 3,
                 3, 232, 0, 53, 0, 8, 0, 0]"

definition sample_answer :: bytes where
  "sample_answer = [0x45, 0, 0, 28, 0, 9, 0, 0, 64, 17, 0, 0, 10, 0, 0, 3, 10, 0, 0, 2,
                    0, 53, 3, 232, 0, 8, 0, 0]"

definition sample_first :: bytes where
  "sample_first = [0x45, 0, 0, 28, 0, 7, 0x20, 0, 64, 17, 0, 0, 10, 0, 0, 2, 10, 0, 0, 3,
                   3, 232, 0, 53, 0, 8, 0, 0]"

definition sample_later :: bytes where
  "sample_later = [0x45, 0, 0, 28, 0, 7, 0, 1, 64, 17, 0, 0, 10, 0, 0, 2, 10, 0, 0, 3,
                   1, 2, 3, 4, 5, 6, 7, 8]"

lemma sample_keys:
  "observed_key sample_udp = Some (Transport_Key 0x0A000003 0x0A000002 17 53 1000, True)"
  "packet_reply_key sample_answer = Some (Transport_Key 0x0A000003 0x0A000002 17 53 1000)"
  by (simp_all add: observed_key_def sample_udp_def sample_answer_def packet_eval)

lemma sample_fragment_keys:
  "fragment_key_of sample_first =
     Some \<lparr>frag_src = 0x0A000002, frag_dst = 0x0A000003, frag_protocol = 17, frag_identification = 7\<rparr>"
  "fragment_key_of sample_later =
     Some \<lparr>frag_src = 0x0A000002, frag_dst = 0x0A000003, frag_protocol = 17, frag_identification = 7\<rparr>"
  "is_initial_fragment sample_first" "has_more_fragments sample_first"
  by (simp_all add: sample_first_def sample_later_def packet_eval)

lemma sample_reply_ok: "fst (allows_reply sample_answer 9 (tracker_run [(5, Observe sample_udp)]))"
  by (simp add: allows_reply_def observe_allowed_alt sample_keys tracker_default_def remove_expired_def
      insert_reply_def hm_len_def hm_insert_def hm_retain_def hm_get_def MAX_ACL_SESSIONS_def
      UDP_SESSION_LIFETIME_def secs_def)

lemma sample_fragment_ok:
  "fst (allows_fragment sample_later 9 (tracker_run [(5, Note_Fragment sample_first)]))"
  by (simp add: allows_fragment_def note_forwarded_fragment_def sample_fragment_keys
      tracker_default_def remove_expired_def insert_fragment_def hm_len_def hm_insert_def
      hm_retain_def hm_contains_def hm_get_def MAX_ACL_SESSIONS_def FRAGMENT_LIFETIME_def secs_def)

theorem reply_admitted_only_if_opened_witness:
  "\<exists>k. packet_reply_key sample_answer = Some k
    \<and> (\<exists>c \<in> set (since_clear [(5, Observe sample_udp)]). opens k (snd c))
    \<and> (\<exists>c \<in> set (since_clear [(5, Observe sample_udp)]).
          touches k (snd c) \<and> 9 < fst c + key_lifetime k + secs 1)"
  by (rule reply_admitted_only_if_opened [OF _ sample_reply_ok]) (simp add: timed_def)

theorem opened_flow_admits_reply_witness:
  "fst (allows_reply sample_answer 9
     (tracker_run ([(7, Later_Fragment sample_later)] @ (5, Observe sample_udp) # [])))"
  by (rule opened_flow_admits_reply [OF _ sample_keys(1) _ _ sample_keys(2)])
    (simp_all add: timed_def tracker_default_def hm_len_def MAX_ACL_SESSIONS_def
      UDP_SESSION_LIFETIME_def secs_def)

theorem fragment_admitted_only_if_led_witness:
  "\<exists>k. fragment_key_of sample_later = Some k
    \<and> (\<exists>c \<in> set (since_clear [(5, Note_Fragment sample_first)]).
          leads k (snd c) \<and> 9 < fst c + secs 16)"
  by (rule fragment_admitted_only_if_led [OF _ sample_fragment_ok]) (simp add: timed_def)

end
