(* ===== verification/Relay.thy ===== *)
theory Relay
  imports Acl_Policy Acl_Session
begin

text \<open>
  The user-space relay of the host,
  \<^verbatim>\<open>crates/peercove-cli/src/backend/windows/device.rs\<close>: the peer table, the
  choice of the peer for a destination, and the delivery of a decrypted packet with isolation and
  access control.

  The WireGuard engine (boringtun) is third party: decapsulating a datagram and the parsers
  \<^verbatim>\<open>Tunn::parse_incoming_packet\<close> and \<^verbatim>\<open>Tunn::dst_address\<close> are
  arguments, and sending is the returned action. An \<^verbatim>\<open>Arc<DevicePeer>\<close> is shared
  by two tables, so the peers live in a store of cells; the address of a cell is the index the peer
  was created with, which is never reused.
\<close>

section \<open>Peers\<close>

record device_peer =
  dp_public_key :: public_key
  dp_allowed_ips :: "ipv4net list"
  dp_index :: nat
  dp_endpoint :: "socket_addr option"

record peer_spec =
  spec_public_key :: public_key
  spec_endpoint :: "socket_addr option"
  spec_allowed_ips :: "ipv4net list"
  spec_persistent_keepalive :: "u16 option"
  spec_preshared_key :: "bytes option"

record peer_table =
  pt_cells :: "nat \<Rightarrow> device_peer"
  pt_by_key :: "(public_key, nat) hashmap"
  pt_by_index :: "(nat, nat) hashmap"
  pt_next_index :: nat

record device =
  dev_peers :: peer_table
  dev_relay :: bool
  dev_policy :: acl_policy
  dev_sessions :: tracker
  dev_isolated :: "ipv4 list"
  dev_isolation_host :: "ipv4 option"

definition virtual_ip :: "device_peer \<Rightarrow> ipv4 option" where
  "virtual_ip p = (case dp_allowed_ips p of [] \<Rightarrow> None | n # _ \<Rightarrow> Some (net_addr n))"

definition allows :: "ipnet_api \<Rightarrow> device_peer \<Rightarrow> ipv4 \<Rightarrow> bool" where
  "allows api p ip \<longleftrightarrow> list_ex (\<lambda>n. net_contains api n ip) (dp_allowed_ips p)"

text \<open>\<^verbatim>\<open>longest_match\<close>: the greatest prefix length among the containing networks.\<close>

definition iter_max :: "nat list \<Rightarrow> nat option" where
  "iter_max xs = (case xs of [] \<Rightarrow> None | x # ys \<Rightarrow> Some (foldl max x ys))"

definition longest_match :: "ipnet_api \<Rightarrow> device_peer \<Rightarrow> ipv4 \<Rightarrow> nat option" where
  "longest_match api p ip =
     iter_max (map net_prefix (filter (\<lambda>n. net_contains api n ip) (dp_allowed_ips p)))"

definition peer_table_default :: "(nat \<Rightarrow> device_peer) \<Rightarrow> peer_table" where
  "peer_table_default cells = \<lparr>pt_cells = cells, pt_by_key = [], pt_by_index = [], pt_next_index = 0\<rparr>"

definition add_peer :: "peer_spec \<Rightarrow> peer_table \<Rightarrow> peer_table" where
  "add_peer spec t =
     (case hm_get (pt_by_key t) (spec_public_key spec) of
        Some i \<Rightarrow>
          t\<lparr>pt_cells := (pt_cells t)(i := (pt_cells t i)\<lparr>dp_allowed_ips := spec_allowed_ips spec\<rparr>)\<rparr>
      | None \<Rightarrow>
          (let index = pt_next_index t;
               peer = \<lparr>dp_public_key = spec_public_key spec, dp_allowed_ips = spec_allowed_ips spec,
                       dp_index = index, dp_endpoint = spec_endpoint spec\<rparr>
           in \<lparr>pt_cells = (pt_cells t)(index := peer),
               pt_by_key = hm_insert (spec_public_key spec) index (pt_by_key t),
               pt_by_index = hm_insert index index (pt_by_index t),
               pt_next_index = index + 1\<rparr>))"

definition remove_device_peer :: "public_key \<Rightarrow> peer_table \<Rightarrow> peer_table" where
  "remove_device_peer key t =
     (case hm_get (pt_by_key t) key of
        None \<Rightarrow> t
      | Some i \<Rightarrow> t\<lparr>pt_by_key := hm_remove key (pt_by_key t),
                    pt_by_index := hm_remove (dp_index (pt_cells t i)) (pt_by_index t)\<rparr>)"

text \<open>
  \<^verbatim>\<open>find_peer_by_dst\<close>: \<^verbatim>\<open>max_by_key\<close> keeps the last maximum in the
  iteration order of the table.
\<close>

definition max_by_key :: "('a \<Rightarrow> nat) \<Rightarrow> 'a list \<Rightarrow> 'a option" where
  "max_by_key f xs =
     (case xs of [] \<Rightarrow> None | x # ys \<Rightarrow> Some (foldl (\<lambda>m y. if f m \<le> f y then y else m) x ys))"

definition find_peer_by_dst :: "ipnet_api \<Rightarrow> peer_table \<Rightarrow> ipv4 \<Rightarrow> nat option" where
  "find_peer_by_dst api t dst =
     map_option snd (max_by_key fst
       (List.map_filter (\<lambda>(_, i). map_option (\<lambda>len. (len, i)) (longest_match api (pt_cells t i) dst))
          (pt_by_key t)))"

text \<open>\<^verbatim>\<open>find_peer_for_datagram\<close>: \<open>init_key\<close> is the outcome of
  \<^verbatim>\<open>parse_handshake_anon\<close>.\<close>

datatype wg_packet = Handshake_Init bytes | Handshake_Response u32 | Cookie_Reply u32 | Packet_Data u32

definition find_peer_for_datagram ::
    "(bytes \<Rightarrow> wg_packet option) \<Rightarrow> (bytes \<Rightarrow> public_key option) \<Rightarrow> peer_table \<Rightarrow> bytes \<Rightarrow> nat option" where
  "find_peer_for_datagram parse init_key t datagram =
     (case parse datagram of
        None \<Rightarrow> None
      | Some (Handshake_Init init) \<Rightarrow>
          (case init_key init of None \<Rightarrow> None | Some k \<Rightarrow> hm_get (pt_by_key t) k)
      | Some (Handshake_Response r) \<Rightarrow> hm_get (pt_by_index t) (unat (drop_bit 8 r))
      | Some (Cookie_Reply r) \<Rightarrow> hm_get (pt_by_index t) (unat (drop_bit 8 r))
      | Some (Packet_Data r) \<Rightarrow> hm_get (pt_by_index t) (unat (drop_bit 8 r)))"

section \<open>Delivery\<close>

definition CONTROL_PORT :: u16 where "CONTROL_PORT = 51821"

definition set_acl :: "acl_policy \<Rightarrow> device \<Rightarrow> device" where
  "set_acl policy d = d\<lparr>dev_policy := policy\<rparr>"

definition set_isolated :: "ipv4 list \<Rightarrow> ipv4 \<Rightarrow> device \<Rightarrow> device" where
  "set_isolated isolated host_ip d = d\<lparr>dev_isolated := isolated, dev_isolation_host := Some host_ip\<rparr>"

definition is_isolated :: "device \<Rightarrow> device_peer \<Rightarrow> bool" where
  "is_isolated d p \<longleftrightarrow> (case virtual_ip p of Some ip \<Rightarrow> ip \<in> set (dev_isolated d) | None \<Rightarrow> False)"

definition is_control_packet :: "bytes \<Rightarrow> bool \<Rightarrow> bool" where
  "is_control_packet p inbound \<longleftrightarrow>
     \<not> (length p < 20 \<or> drop_bit 4 (p ! 0) \<noteq> 4 \<or> p ! 9 \<noteq> 6) \<and>
     (let header_len = unat (and (p ! 0) 0x0F) * 4
      in \<not> (header_len < 20 \<or> length p < header_len + 4) \<and>
         (let src = be16 (p ! header_len) (p ! (header_len + 1));
              dst = be16 (p ! (header_len + 2)) (p ! (header_len + 3))
          in if inbound then dst = CONTROL_PORT else src = CONTROL_PORT))"

datatype drop_reason = From_Isolated | To_Isolated | Stray_Fragment | Acl_Denied

datatype delivery = To_Tun | Relayed nat | Dropped drop_reason

text \<open>The access decision of \<^verbatim>\<open>deliver_inbound\<close> for a packet between two peers.\<close>

definition relay_acl :: "ipnet_api \<Rightarrow> acl_policy \<Rightarrow> bytes \<Rightarrow> instant \<Rightarrow> tracker \<Rightarrow> drop_reason option \<times> tracker" where
  "relay_acl api policy packet now s =
     (if is_non_first_fragment packet
      then (case allows_fragment packet now s of
              (ok, s') \<Rightarrow> (if ok then None else Some Stray_Fragment, s'))
      else
        (let decision = evaluate_ipv4_packet api policy packet;
             (established_reply, s1) =
               (if dec_action decision = Deny then allows_reply packet now s else (False, s))
         in if dec_action decision = Allow
            then (None, note_forwarded_fragment packet now (observe_allowed packet now s1))
            else if established_reply then (None, note_forwarded_fragment packet now s1)
            else (Some Acl_Denied, s1)))"

definition deliver_inbound ::
    "ipnet_api \<Rightarrow> (bytes \<Rightarrow> ipv4 option) \<Rightarrow> nat \<Rightarrow> bytes \<Rightarrow> instant \<Rightarrow> device \<Rightarrow> delivery \<times> device" where
  "deliver_inbound api dst_address from packet now d =
     (case dst_address packet of
        None \<Rightarrow> (To_Tun, d)
      | Some dst \<Rightarrow>
          if is_isolated d (pt_cells (dev_peers d) from)
             \<and> (Some dst \<noteq> dev_isolation_host d \<or> find_peer_by_dst api (dev_peers d) dst \<noteq> None
                \<or> \<not> is_control_packet packet True)
          then (Dropped From_Isolated, d)
          else if dev_relay d
          then (case find_peer_by_dst api (dev_peers d) dst of
                  None \<Rightarrow> (To_Tun, d)
                | Some target \<Rightarrow>
                    if target = from then (To_Tun, d)
                    else if is_isolated d (pt_cells (dev_peers d) target) then (Dropped To_Isolated, d)
                    else (case relay_acl api (dev_policy d) packet now (dev_sessions d) of
                            (Some reason, s) \<Rightarrow> (Dropped reason, d\<lparr>dev_sessions := s\<rparr>)
                          | (None, s) \<Rightarrow> (Relayed target, d\<lparr>dev_sessions := s\<rparr>)))
          else (To_Tun, d))"

text \<open>
  The part of \<^verbatim>\<open>udp_loop\<close> after a datagram of the peer was decrypted to an IPv4
  packet with source \<open>src_ip\<close>.
\<close>

definition accept_decrypted ::
    "ipnet_api \<Rightarrow> (bytes \<Rightarrow> ipv4 option) \<Rightarrow> nat \<Rightarrow> bytes \<Rightarrow> ipv4 \<Rightarrow> instant \<Rightarrow> device \<Rightarrow> delivery option \<times> device" where
  "accept_decrypted api dst_address from packet src_ip now d =
     (if allows api (pt_cells (dev_peers d) from) src_ip
      then (case deliver_inbound api dst_address from packet now d of (r, d') \<Rightarrow> (Some r, d'))
      else (None, d))"

text \<open>Roaming: the sender of an authenticated datagram becomes the peer's endpoint.\<close>

definition learn_endpoint :: "nat \<Rightarrow> socket_addr \<Rightarrow> peer_table \<Rightarrow> peer_table" where
  "learn_endpoint i src t =
     (if dp_endpoint (pt_cells t i) \<noteq> Some src
      then t\<lparr>pt_cells := (pt_cells t)(i := (pt_cells t i)\<lparr>dp_endpoint := Some src\<rparr>)\<rparr> else t)"

text \<open>\<^verbatim>\<open>tun_loop\<close>: the peer an outgoing packet is encrypted for.\<close>

definition is_multicast :: "ipv4 \<Rightarrow> bool" where
  "is_multicast ip \<longleftrightarrow> unat ip div 268435456 = 14"

definition is_broadcast :: "ipv4 \<Rightarrow> bool" where
  "is_broadcast ip \<longleftrightarrow> ip = 0xFFFFFFFF"

definition tun_out :: "ipnet_api \<Rightarrow> (bytes \<Rightarrow> ipv4 option) \<Rightarrow> bytes \<Rightarrow> device \<Rightarrow> nat option" where
  "tun_out api dst_address packet d =
     (case dst_address packet of
        None \<Rightarrow> None
      | Some dst \<Rightarrow>
          if is_multicast dst \<or> is_broadcast dst \<or> last_octet dst = 255 then None
          else (case find_peer_by_dst api (dev_peers d) dst of
                  None \<Rightarrow> None
                | Some i \<Rightarrow>
                    if is_isolated d (pt_cells (dev_peers d) i) \<and> \<not> is_control_packet packet False
                    then None else Some i))"

section \<open>The peer table\<close>

definition table_ok :: "peer_table \<Rightarrow> bool" where
  "table_ok t \<longleftrightarrow> hm_ok (pt_by_key t) \<and> hm_ok (pt_by_index t)
     \<and> (\<forall>k i. hm_get (pt_by_key t) k = Some i \<longrightarrow> i < pt_next_index t
          \<and> dp_public_key (pt_cells t i) = k \<and> dp_index (pt_cells t i) = i
          \<and> hm_get (pt_by_index t) i = Some i)
     \<and> (\<forall>i j. hm_get (pt_by_index t) i = Some j \<longrightarrow>
          j = i \<and> hm_get (pt_by_key t) (dp_public_key (pt_cells t i)) = Some i)"

lemma table_okD:
  assumes "table_ok t"
  shows "hm_ok (pt_by_key t)" and "hm_ok (pt_by_index t)"
    and "hm_get (pt_by_key t) k = Some i \<Longrightarrow> i < pt_next_index t \<and> dp_public_key (pt_cells t i) = k
          \<and> dp_index (pt_cells t i) = i \<and> hm_get (pt_by_index t) i = Some i"
    and "hm_get (pt_by_index t) i = Some j \<Longrightarrow>
          j = i \<and> hm_get (pt_by_key t) (dp_public_key (pt_cells t i)) = Some i"
  using assms by (simp_all add: table_ok_def)

lemma table_ok_default: "table_ok (peer_table_default cells)"
  by (simp add: table_ok_def peer_table_default_def hm.get_empty hm.ok_empty)

lemma table_ok_update_cell:
  assumes "table_ok t" and "dp_public_key p = dp_public_key (pt_cells t i)"
    and "dp_index p = dp_index (pt_cells t i)"
  shows "table_ok (t\<lparr>pt_cells := (pt_cells t)(i := p)\<rparr>)"
  using assms by (auto simp: table_ok_def)

lemma table_okI:
  assumes "hm_ok (pt_by_key t)" and "hm_ok (pt_by_index t)"
    and "\<And>k i. hm_get (pt_by_key t) k = Some i \<Longrightarrow> i < pt_next_index t \<and> dp_public_key (pt_cells t i) = k
          \<and> dp_index (pt_cells t i) = i \<and> hm_get (pt_by_index t) i = Some i"
    and "\<And>i j. hm_get (pt_by_index t) i = Some j \<Longrightarrow>
          j = i \<and> hm_get (pt_by_key t) (dp_public_key (pt_cells t i)) = Some i"
  shows "table_ok t"
  using assms by (simp add: table_ok_def)

lemma table_ok_add_peer:
  assumes "table_ok t"
  shows "table_ok (add_peer spec t)"
proof (cases "hm_get (pt_by_key t) (spec_public_key spec)")
  case None
  note D = table_okD [OF assms]
  have below: "i < pt_next_index t" if "hm_get (pt_by_index t) i = Some j" for i j
    using D(3) D(4) [OF that] by blast
  show ?thesis
  proof (rule table_okI)
    show "hm_ok (pt_by_key (add_peer spec t))" "hm_ok (pt_by_index (add_peer spec t))"
      using None D(1,2) by (simp_all add: add_peer_def Let_def hm.map_laws)
  next
    fix k i
    assume "hm_get (pt_by_key (add_peer spec t)) k = Some i"
    then show "i < pt_next_index (add_peer spec t) \<and> dp_public_key (pt_cells (add_peer spec t) i) = k
        \<and> dp_index (pt_cells (add_peer spec t) i) = i \<and> hm_get (pt_by_index (add_peer spec t)) i = Some i"
      using None D(3) [of k i] by (auto simp: add_peer_def Let_def hm.get_insert split: if_splits)
  next
    fix i j
    assume "hm_get (pt_by_index (add_peer spec t)) i = Some j"
    then show "j = i \<and> hm_get (pt_by_key (add_peer spec t)) (dp_public_key (pt_cells (add_peer spec t) i)) = Some i"
      using None D(4) [of i j] below [of i j]
      by (auto simp: add_peer_def Let_def hm.get_insert split: if_splits)
  qed
next
  case (Some i)
  then show ?thesis using assms by (simp add: add_peer_def table_ok_update_cell)
qed

lemma table_ok_remove_peer:
  assumes "table_ok t"
  shows "table_ok (remove_device_peer key t)"
proof (cases "hm_get (pt_by_key t) key")
  case (Some c)
  note D = table_okD [OF assms]
  have c: "dp_public_key (pt_cells t c) = key" "dp_index (pt_cells t c) = c" using D(3) [OF Some] by auto
  show ?thesis
  proof (rule table_okI)
    show "hm_ok (pt_by_key (remove_device_peer key t))" "hm_ok (pt_by_index (remove_device_peer key t))"
      using Some D(1,2) by (simp_all add: remove_device_peer_def hm.map_laws)
  next
    fix k i
    assume a: "hm_get (pt_by_key (remove_device_peer key t)) k = Some i"
    then have "hm_get (pt_by_key t) k = Some i" "k \<noteq> key"
      using Some by (simp_all add: remove_device_peer_def hm.get_remove split: if_splits)
    with D(3) [of k i] c show "i < pt_next_index (remove_device_peer key t)
        \<and> dp_public_key (pt_cells (remove_device_peer key t) i) = k
        \<and> dp_index (pt_cells (remove_device_peer key t) i) = i
        \<and> hm_get (pt_by_index (remove_device_peer key t)) i = Some i"
      using Some by (auto simp: remove_device_peer_def hm.get_remove)
  next
    fix i j
    assume "hm_get (pt_by_index (remove_device_peer key t)) i = Some j"
    then have ij: "hm_get (pt_by_index t) i = Some j" "i \<noteq> c"
      using Some c by (simp_all add: remove_device_peer_def hm.get_remove split: if_splits)
    from D(4) [OF ij(1)] have "j = i" "hm_get (pt_by_key t) (dp_public_key (pt_cells t i)) = Some i" by auto
    moreover from this ij Some have "dp_public_key (pt_cells t i) \<noteq> key" by auto
    ultimately show "j = i \<and> hm_get (pt_by_key (remove_device_peer key t))
        (dp_public_key (pt_cells (remove_device_peer key t) i)) = Some i"
      using Some by (simp add: remove_device_peer_def hm.get_remove)
  qed
qed (simp add: remove_device_peer_def assms)

lemma table_ok_learn: "table_ok t \<Longrightarrow> table_ok (learn_endpoint i src t)"
  by (simp add: learn_endpoint_def table_ok_update_cell)

section \<open>Longest prefix\<close>

lemma foldl_max_ge: "(m :: nat) \<le> foldl max m xs \<and> (\<forall>x \<in> set xs. x \<le> foldl max m xs)"
proof (induction xs arbitrary: m)
  case (Cons x xs)
  show ?case using Cons [of "max m x"] by auto
qed simp

lemma foldl_max_in: "foldl max m xs = m \<or> foldl max m xs \<in> set (xs :: nat list)"
proof (induction xs arbitrary: m)
  case (Cons x xs)
  show ?case using Cons [of "max m x"] by (auto simp: max_def split: if_splits)
qed simp

lemma iter_max_Some:
  assumes "iter_max xs = Some m"
  shows "m \<in> set xs" and "\<forall>x \<in> set xs. x \<le> m"
proof -
  from assms obtain y ys where "xs = y # ys" and "m = foldl max y ys"
    by (auto simp: iter_max_def split: list.splits)
  with foldl_max_ge [of y ys] foldl_max_in [of y ys] show "m \<in> set xs" and "\<forall>x \<in> set xs. x \<le> m"
    by auto
qed

lemma iter_max_None: "iter_max xs = None \<longleftrightarrow> xs = []"
  by (simp add: iter_max_def split: list.splits)

lemma max_fold:
  "let r = foldl (\<lambda>m y. if f m \<le> (f y :: nat) then y else m) x ys
   in r \<in> insert x (set ys) \<and> (\<forall>y \<in> insert x (set ys). f y \<le> f r)"
proof (induction ys arbitrary: x)
  case (Cons y ys)
  show ?case using Cons [of "if f x \<le> f y then y else x"] by (auto simp: Let_def split: if_splits)
qed simp

lemma max_by_key_Some:
  assumes "max_by_key f xs = Some m"
  shows "m \<in> set xs" and "\<forall>x \<in> set xs. f x \<le> f m"
proof -
  from assms obtain y ys where "xs = y # ys" and "m = foldl (\<lambda>m y. if f m \<le> f y then y else m) y ys"
    by (auto simp: max_by_key_def split: list.splits)
  with max_fold [of f y ys] show "m \<in> set xs" and "\<forall>x \<in> set xs. f x \<le> f m"
    by (auto simp: Let_def)
qed

lemma max_by_key_None: "max_by_key f xs = None \<longleftrightarrow> xs = []"
  by (simp add: max_by_key_def split: list.splits)

lemma longest_match_Some:
  assumes "longest_match api p ip = Some len"
  shows "\<exists>n \<in> set (dp_allowed_ips p). net_contains api n ip \<and> net_prefix n = len"
    and "\<forall>n \<in> set (dp_allowed_ips p). net_contains api n ip \<longrightarrow> net_prefix n \<le> len"
  using iter_max_Some [OF assms [unfolded longest_match_def]] by auto

lemma longest_match_None:
  "longest_match api p ip = None \<longleftrightarrow> \<not> allows api p ip"
  by (auto simp: longest_match_def iter_max_None allows_def list_ex_iff filter_empty_conv)

definition registered :: "peer_table \<Rightarrow> nat \<Rightarrow> bool" where
  "registered t i \<longleftrightarrow> i \<in> snd ` set (pt_by_key t)"

lemma find_peer_candidates:
  "(len, i) \<in> set (List.map_filter (\<lambda>(_, i). map_option (\<lambda>len. (len, i)) (longest_match api (pt_cells t i) dst))
      (pt_by_key t)) \<longleftrightarrow> registered t i \<and> longest_match api (pt_cells t i) dst = Some len"
  by (force simp: set_map_filter registered_def)

text \<open>
  Routing takes the longest prefix. The peer chosen for a destination is a registered peer one
  of whose allowed networks contains it, no registered peer has a containing network with a longer
  prefix, and no peer is chosen only if no registered peer allows the destination.
\<close>

theorem find_peer_longest_prefix:
  "case find_peer_by_dst api t dst of
     Some i \<Rightarrow> registered t i \<and> (\<exists>n \<in> set (dp_allowed_ips (pt_cells t i)). net_contains api n dst
       \<and> \<not> (\<exists>j m. registered t j \<and> m \<in> set (dp_allowed_ips (pt_cells t j))
             \<and> net_contains api m dst \<and> net_prefix n < net_prefix m))
   | None \<Rightarrow> \<not> (\<exists>j. registered t j \<and> allows api (pt_cells t j) dst)"
proof -
  let ?c = "List.map_filter (\<lambda>(_, i). map_option (\<lambda>len. (len, i)) (longest_match api (pt_cells t i) dst))
      (pt_by_key t)"
  show ?thesis
  proof (cases "max_by_key fst ?c")
    case None
    then have "?c = []" by (simp add: max_by_key_None)
    then have "longest_match api (pt_cells t j) dst = None" if "registered t j" for j
      using that find_peer_candidates [of _ j api t dst]
      by (cases "longest_match api (pt_cells t j) dst") auto
    with None show ?thesis by (simp add: find_peer_by_dst_def longest_match_None)
  next
    case (Some li)
    obtain len i where li: "li = (len, i)" by (cases li)
    have i: "registered t i" "longest_match api (pt_cells t i) dst = Some len"
      using max_by_key_Some(1) [OF Some] li find_peer_candidates by blast+
    have "net_prefix m \<le> len" if "registered t j" "m \<in> set (dp_allowed_ips (pt_cells t j))"
      "net_contains api m dst" for j m
    proof -
      have "allows api (pt_cells t j) dst" using that by (auto simp: allows_def list_ex_iff)
      then obtain lj where lj: "longest_match api (pt_cells t j) dst = Some lj"
        using longest_match_None by fastforce
      then have "lj \<le> len"
        using max_by_key_Some(2) [OF Some] li that(1) find_peer_candidates by fastforce
      with longest_match_Some(2) [OF lj] that show ?thesis by fastforce
    qed
    with i longest_match_Some(1) [OF i(2)] Some li show ?thesis
      by (fastforce simp: find_peer_by_dst_def)
  qed
qed

section \<open>Runs of the device\<close>

text \<open>
  A run of the device is the list of its calls, the newest first, from
  \<^verbatim>\<open>Device::new\<close>: an empty table and the policy that allows everything.
\<close>

datatype device_event =
    Deliver nat bytes instant
  | Set_Acl acl_policy
  | Set_Isolated "ipv4 list" ipv4
  | Add_Peer peer_spec
  | Remove_Peer public_key
  | Learn_Endpoint nat socket_addr

definition device_new :: "bool \<Rightarrow> device" where
  "device_new relay =
     \<lparr>dev_peers = peer_table_default (\<lambda>_. \<lparr>dp_public_key = [], dp_allowed_ips = [], dp_index = 0, dp_endpoint = None\<rparr>),
      dev_relay = relay, dev_policy = \<lparr>pol_default = Allow, pol_rules = []\<rparr>,
      dev_sessions = tracker_default, dev_isolated = [], dev_isolation_host = None\<rparr>"

fun device_step :: "ipnet_api \<Rightarrow> (bytes \<Rightarrow> ipv4 option) \<Rightarrow> device_event \<Rightarrow> device \<Rightarrow> device" where
  "device_step api da (Deliver from p now) d = snd (deliver_inbound api da from p now d)"
| "device_step api da (Set_Acl pol) d = set_acl pol d"
| "device_step api da (Set_Isolated ips host) d = set_isolated ips host d"
| "device_step api da (Add_Peer spec) d = d\<lparr>dev_peers := add_peer spec (dev_peers d)\<rparr>"
| "device_step api da (Remove_Peer key) d = d\<lparr>dev_peers := remove_device_peer key (dev_peers d)\<rparr>"
| "device_step api da (Learn_Endpoint i src) d = d\<lparr>dev_peers := learn_endpoint i src (dev_peers d)\<rparr>"

fun device_run :: "ipnet_api \<Rightarrow> (bytes \<Rightarrow> ipv4 option) \<Rightarrow> bool \<Rightarrow> device_event list \<Rightarrow> device" where
  "device_run api da relay [] = device_new relay"
| "device_run api da relay (e # h) = device_step api da e (device_run api da relay h)"

definition relayed :: "delivery \<Rightarrow> bool" where
  "relayed r \<longleftrightarrow> (case r of Relayed _ \<Rightarrow> True | _ \<Rightarrow> False)"

text \<open>
  \<open>opened h k\<close>: somewhere in the run, the policy of that moment allowed a packet that opens the
  flow answered by \<open>k\<close>, and the device relayed it.
\<close>

fun opened :: "ipnet_api \<Rightarrow> (bytes \<Rightarrow> ipv4 option) \<Rightarrow> bool \<Rightarrow> device_event list \<Rightarrow> reply_key \<Rightarrow> bool" where
  "opened api da relay [] k = False"
| "opened api da relay (e # h) k =
     (opened api da relay h k \<or>
      (case e of
         Deliver from p now \<Rightarrow>
           relayed (fst (deliver_inbound api da from p now (device_run api da relay h)))
           \<and> dec_action (evaluate_ipv4_packet api (dev_policy (device_run api da relay h)) p) = Allow
           \<and> observed_key p = Some (k, True)
       | _ \<Rightarrow> False))"

text \<open>The access decision, call by call.\<close>

lemma fst_relay_acl:
  "fst (relay_acl api pol p now s) =
     (if is_non_first_fragment p
      then if fst (allows_fragment p now s) then None else Some Stray_Fragment
      else if dec_action (evaluate_ipv4_packet api pol p) = Allow \<or> fst (allows_reply p now s)
      then None else Some Acl_Denied)"
  by (cases "dec_action (evaluate_ipv4_packet api pol p)")
    (simp_all add: relay_acl_def Let_def split: prod.splits)

lemma snd_relay_acl:
  "snd (relay_acl api pol p now s) =
     (if is_non_first_fragment p then remove_expired now s
      else if dec_action (evaluate_ipv4_packet api pol p) = Allow
      then note_forwarded_fragment p now (observe_allowed p now s)
      else if fst (allows_reply p now s)
      then note_forwarded_fragment p now (snd (allows_reply p now s)) else snd (allows_reply p now s))"
  by (cases "dec_action (evaluate_ipv4_packet api pol p)")
    (simp_all add: relay_acl_def Let_def split_beta)

lemma relay_acl_replies:
  assumes "tracker_ok s" and "hm_get (replies (snd (relay_acl api pol p now s))) k = Some e"
  shows "hm_get (replies s) k \<noteq> None \<or>
    fst (relay_acl api pol p now s) = None \<and> dec_action (evaluate_ipv4_packet api pol p) = Allow
    \<and> observed_key p = Some (k, True)"
proof (cases "is_non_first_fragment p")
  case True
  with assms remove_expired_get [OF assms(1)] show ?thesis by (fastforce simp: snd_relay_acl)
next
  case first: False
  show ?thesis
  proof (cases "dec_action (evaluate_ipv4_packet api pol p)")
    case Allow
    with first assms tracker_step_entry(2) [OF assms(1), of now "Observe p" k e] show ?thesis
      by (auto simp: opens_def fst_relay_acl snd_relay_acl)
  next
    case Deny
    with first have "replies (snd (relay_acl api pol p now s)) = replies (snd (allows_reply p now s))"
      by (simp add: snd_relay_acl)
    with assms tracker_step_entry(2) [OF assms(1), of now "Reply p" k e] show ?thesis
      by (auto simp: opens_def)
  qed
qed

lemma relay_acl_ok: "tracker_ok s \<Longrightarrow> tracker_ok (snd (relay_acl api pol p now s))"
  by (simp add: snd_relay_acl tracker_ok)

text \<open>What a delivery does to the session table: nothing, or the access decision.\<close>

lemma deliver_sessions:
  "dev_sessions (snd (deliver_inbound api da from p now d)) = dev_sessions d \<or>
   dev_sessions (snd (deliver_inbound api da from p now d)) =
     snd (relay_acl api (dev_policy d) p now (dev_sessions d)) \<and>
   (fst (relay_acl api (dev_policy d) p now (dev_sessions d)) = None \<longrightarrow>
     relayed (fst (deliver_inbound api da from p now d)))"
  by (auto simp: deliver_inbound_def relayed_def split: option.splits prod.splits)

lemma deliver_relayed:
  assumes "fst (deliver_inbound api da from p now d) = Relayed i"
  shows "fst (relay_acl api (dev_policy d) p now (dev_sessions d)) = None"
    and "i \<noteq> from" and "\<not> is_isolated d (pt_cells (dev_peers d) i)"
    and "\<exists>dst. da p = Some dst \<and> find_peer_by_dst api (dev_peers d) dst = Some i"
  using assms by (auto simp: deliver_inbound_def split: option.splits prod.splits if_splits)

lemma device_run_tracker_ok: "tracker_ok (dev_sessions (device_run api da relay h))"
proof (induction h)
  case (Cons e h)
  show ?case
  proof (cases e)
    case (Deliver src p now)
    with Cons deliver_sessions [of api da src p now "device_run api da relay h"] relay_acl_ok
    show ?thesis by auto
  qed (use Cons in \<open>simp_all add: set_acl_def set_isolated_def\<close>)
qed (simp add: device_new_def tracker_ok)

lemma device_run_opened:
  assumes "hm_get (replies (dev_sessions (device_run api da relay h))) k = Some s"
  shows "opened api da relay h k"
  using assms
proof (induction h arbitrary: s)
  case (Cons e h)
  let ?d = "device_run api da relay h"
  show ?case
  proof (cases e)
    case (Deliver src p now)
    then consider (same) "hm_get (replies (dev_sessions ?d)) k = Some s"
      | (acl) "hm_get (replies (snd (relay_acl api (dev_policy ?d) p now (dev_sessions ?d)))) k = Some s"
        "fst (relay_acl api (dev_policy ?d) p now (dev_sessions ?d)) = None \<longrightarrow>
          relayed (fst (deliver_inbound api da src p now ?d))"
      using Cons.prems deliver_sessions [of api da src p now ?d] by auto
    then show ?thesis
    proof cases
      case same
      with Cons.IH show ?thesis by simp
    next
      case acl
      from relay_acl_replies [OF device_run_tracker_ok acl(1)] acl(2) Cons.IH Deliver
      show ?thesis by auto
    qed
  qed (use Cons in \<open>simp_all add: set_acl_def set_isolated_def\<close>)
qed (simp add: device_new_def tracker_default_def hm.get_empty)

section \<open>Members that are cut off from each other\<close>

definition cut :: "ipnet_api \<Rightarrow> ipv4 \<Rightarrow> ipv4 \<Rightarrow> acl_policy \<Rightarrow> bool" where
  "cut api x y pol \<longleftrightarrow> (\<forall>u v pr port. {u, v} = {x, y} \<longrightarrow> dec_action (evaluate api pol u v pr port) = Deny)"

text \<open>No admitted flow and no admitted datagram has these two ends.\<close>

definition no_flow :: "ipv4 \<Rightarrow> ipv4 \<Rightarrow> tracker \<Rightarrow> bool" where
  "no_flow x y s \<longleftrightarrow>
     (\<forall>k e. hm_get (replies s) k = Some e \<longrightarrow> {rk_src k, rk_dst k} \<noteq> {x, y})
     \<and> (\<forall>k e. hm_get (fragments s) k = Some e \<longrightarrow> {frag_src k, frag_dst k} \<noteq> {x, y})"

lemma no_flow_default: "no_flow x y tracker_default"
  by (simp add: no_flow_def tracker_default_def hm.get_empty)

lemma fragment_key_addrs:
  assumes "fragment_key_of p = Some k"
  shows "\<exists>pr port. packet_fields p = Some (frag_src k, frag_dst k, pr, port)"
  using assms by (auto simp: fragment_key_of_def packet_fields_def split: option.splits)

lemma observed_key_addrs:
  assumes "observed_key p = Some (k, opn)"
  shows "\<exists>pr port. packet_fields p = Some (rk_dst k, rk_src k, pr, port)"
proof -
  obtain c where c: "session_candidate p = Some c"
    and k: "c = Transport_Candidate k (case c of Transport_Candidate _ pr _ \<Rightarrow> pr | _ \<Rightarrow> 0) opn \<or> c = Icmp_Echo_Request k"
    using assms by (auto simp: observed_key_def split: option.splits session_candidate.splits)
  obtain s d pr port where f: "packet_fields p = Some (s, d, pr, port)"
    using c by (auto simp: session_candidate_def packet_fields_def split: option.splits if_splits)
  with candidate_addrs [OF c k f] show ?thesis by simp
qed

lemma reply_key_addrs:
  assumes "packet_reply_key p = Some k"
  shows "\<exists>pr port. packet_fields p = Some (rk_src k, rk_dst k, pr, port)"
proof -
  obtain s d pr port where f: "packet_fields p = Some (s, d, pr, port)"
    using assms by (auto simp: packet_reply_key_def packet_fields_def split: option.splits if_splits)
  with packet_reply_key_addrs [OF assms f] show ?thesis by simp
qed

lemma cut_packet:
  assumes "cut api x y pol" and "packet_fields p = Some (u, v, pr, port)" and "{u, v} = {x, y}"
  shows "dec_action (evaluate_ipv4_packet api pol p) = Deny"
  using assms by (auto simp: cut_def evaluate_ipv4_packet_def)

lemma allows_reply_key:
  assumes "tracker_ok s" and "fst (allows_reply p now s)"
  shows "\<exists>k e. packet_reply_key p = Some k \<and> hm_get (replies s) k = Some e"
  using assms remove_expired_get [OF assms(1)]
  by (auto simp: allows_reply_def Let_def split: option.splits)

lemma cut_blocks:
  assumes "tracker_ok s" and "no_flow x y s" and "cut api x y pol"
    and "packet_fields p = Some (u, v, pr, port)" and "{u, v} = {x, y}"
  shows "fst (relay_acl api pol p now s) \<noteq> None"
proof -
  have "\<not> fst (allows_reply p now s)"
    using allows_reply_key [OF assms(1)] reply_key_addrs assms(2,4,5) by (fastforce simp: no_flow_def)
  moreover have "\<not> fst (allows_fragment p now s)"
    using fragment_key_addrs assms(2,4,5) remove_expired_get_frag [OF assms(1)]
    by (fastforce simp: no_flow_def allows_fragment_def hm_contains_def Let_def split: option.splits)
  ultimately show ?thesis using cut_packet [OF assms(3-5)] by (simp add: fst_relay_acl)
qed

lemma relay_acl_fragments:
  assumes "tracker_ok s" and "hm_get (fragments (snd (relay_acl api pol p now s))) k = Some e"
  shows "hm_get (fragments s) k \<noteq> None \<or> fst (relay_acl api pol p now s) = None \<and> fragment_key_of p = Some k"
  using assms note_forwarded_fragment_get [of p now "observe_allowed p now s" k e]
    note_forwarded_fragment_get [of p now "snd (allows_reply p now s)" k e]
    remove_expired_get_frag [OF assms(1), of now k e]
  by (auto simp: snd_relay_acl fst_relay_acl leads_def split: if_splits)

lemma relay_acl_no_flow:
  assumes "tracker_ok s" and "no_flow x y s" and "cut api x y pol"
  shows "no_flow x y (snd (relay_acl api pol p now s))"
proof -
  have r: "{rk_src k, rk_dst k} \<noteq> {x, y}"
    if "hm_get (replies (snd (relay_acl api pol p now s))) k = Some e" for k e
    using relay_acl_replies [OF assms(1) that]
  proof
    assume "hm_get (replies s) k \<noteq> None"
    with assms(2) show ?thesis by (auto simp: no_flow_def)
  next
    assume a: "fst (relay_acl api pol p now s) = None \<and> dec_action (evaluate_ipv4_packet api pol p) = Allow
      \<and> observed_key p = Some (k, True)"
    then obtain pr port where f: "packet_fields p = Some (rk_dst k, rk_src k, pr, port)"
      using observed_key_addrs by blast
    have "{rk_dst k, rk_src k} \<noteq> {x, y}" using cut_packet [OF assms(3) f] a by auto
    then show ?thesis by (simp only: insert_commute [of "rk_src k"] not_False_eq_True)
  qed
  have f: "{frag_src k, frag_dst k} \<noteq> {x, y}"
    if "hm_get (fragments (snd (relay_acl api pol p now s))) k = Some e" for k e
    using relay_acl_fragments [OF assms(1) that]
  proof
    assume "hm_get (fragments s) k \<noteq> None"
    with assms(2) show ?thesis by (auto simp: no_flow_def)
  next
    assume a: "fst (relay_acl api pol p now s) = None \<and> fragment_key_of p = Some k"
    then obtain pr port where "packet_fields p = Some (frag_src k, frag_dst k, pr, port)"
      using fragment_key_addrs by blast
    with cut_blocks [OF assms] a show ?thesis by blast
  qed
  from r f show ?thesis by (auto simp: no_flow_def)
qed

definition cut_run :: "ipnet_api \<Rightarrow> ipv4 \<Rightarrow> ipv4 \<Rightarrow> device_event list \<Rightarrow> bool" where
  "cut_run api x y h \<longleftrightarrow> h \<noteq> [] \<and> (\<exists>pol. List.last h = Set_Acl pol)
     \<and> (\<forall>pol. Set_Acl pol \<in> set h \<longrightarrow> cut api x y pol)"

lemma cut_run_state:
  assumes "cut_run api x y h"
  shows "cut api x y (dev_policy (device_run api da relay h)) \<and> no_flow x y (dev_sessions (device_run api da relay h))"
  using assms
proof (induction h)
  case (Cons e h)
  show ?case
  proof (cases "h = []")
    case True
    with Cons.prems show ?thesis
      by (auto simp: cut_run_def set_acl_def device_new_def no_flow_default)
  next
    case False
    with Cons have IH: "cut api x y (dev_policy (device_run api da relay h))"
        "no_flow x y (dev_sessions (device_run api da relay h))"
      by (auto simp: cut_run_def)
    show ?thesis
    proof (cases e)
      case (Deliver src p now)
      have "dev_policy (device_run api da relay (e # h)) = dev_policy (device_run api da relay h)"
        using Deliver by (auto simp: deliver_inbound_def split: option.splits prod.splits)
      with IH Deliver deliver_sessions [of api da src p now "device_run api da relay h"]
        relay_acl_no_flow [OF device_run_tracker_ok IH(2) IH(1)] show ?thesis
        by auto
    qed (use IH Cons.prems in \<open>simp_all add: set_acl_def set_isolated_def cut_run_def\<close>)
  qed
qed (simp add: cut_run_def)

section \<open>Properties\<close>


text \<open>
  A denied packet is relayed only as an answer. If the device relays a packet that the current
  policy denies and that is not a later fragment, then earlier in the run the device relayed, by
  permission of the policy of that moment, a packet that opens exactly the flow this one answers.
\<close>

theorem denied_relay_is_answer:
  assumes "relayed (fst (deliver_inbound api da from p now (device_run api da relay h)))"
    and "dec_action (evaluate_ipv4_packet api (dev_policy (device_run api da relay h)) p) = Deny"
    and "\<not> is_non_first_fragment p"
  shows "\<exists>k. packet_reply_key p = Some k \<and> opened api da relay h k"
proof -
  let ?d = "device_run api da relay h"
  obtain i where "fst (deliver_inbound api da from p now ?d) = Relayed i"
    using assms(1) by (auto simp: relayed_def split: delivery.splits)
  from deliver_relayed(1) [OF this] assms(2,3)
  have "fst (allows_reply p now (dev_sessions ?d))" by (simp add: fst_relay_acl split: if_splits)
  from allows_reply_key [OF device_run_tracker_ok this] device_run_opened show ?thesis by blast
qed

text \<open>
  A device that awaits approval reaches the control port of the host and nothing else. In any
  state of the device, a packet of an isolated peer is dropped or goes to the host's own network
  stack, and then only if its destination is the address of the host, that address is no peer's,
  and it is TCP to the control port. Nothing is ever relayed from or to an isolated peer.
\<close>

theorem isolated_peer_only_control:
  "(is_isolated d (pt_cells (dev_peers d) from) \<and> da p = Some dst \<longrightarrow>
     fst (deliver_inbound api da from p now d) = Dropped From_Isolated
     \<or> fst (deliver_inbound api da from p now d) = To_Tun \<and> dev_isolation_host d = Some dst
        \<and> find_peer_by_dst api (dev_peers d) dst = None \<and> is_control_packet p True)
   \<and> (fst (deliver_inbound api da from p now d) = Relayed i \<longrightarrow>
       i \<noteq> from \<and> \<not> is_isolated d (pt_cells (dev_peers d) from)
       \<and> \<not> is_isolated d (pt_cells (dev_peers d) i))"
proof (intro conjI impI)
  assume iso: "is_isolated d (pt_cells (dev_peers d) from) \<and> da p = Some dst"
  then show "fst (deliver_inbound api da from p now d) = Dropped From_Isolated
     \<or> fst (deliver_inbound api da from p now d) = To_Tun \<and> dev_isolation_host d = Some dst
        \<and> find_peer_by_dst api (dev_peers d) dst = None \<and> is_control_packet p True"
    by (auto simp: deliver_inbound_def)
next
  assume r: "fst (deliver_inbound api da from p now d) = Relayed i"
  note D = deliver_relayed [OF r]
  show "i \<noteq> from" "\<not> is_isolated d (pt_cells (dev_peers d) i)" using D by auto
  show "\<not> is_isolated d (pt_cells (dev_peers d) from)"
    using r D(4) by (auto simp: deliver_inbound_def)
qed

lemma device_run_table_ok: "table_ok (dev_peers (device_run api da relay h))"
proof (induction h)
  case (Cons e h)
  show ?case
  proof (cases e)
    case (Deliver src p now)
    have "dev_peers (device_run api da relay (e # h)) = dev_peers (device_run api da relay h)"
      using Deliver by (auto simp: deliver_inbound_def split: option.splits prod.splits)
    with Cons show ?thesis by simp
  qed (use Cons in \<open>simp_all add: set_acl_def set_isolated_def table_ok_add_peer
      table_ok_remove_peer table_ok_learn\<close>)
qed (simp add: device_new_def table_ok_default)

text \<open>
  A removed peer is gone. In every run of the device, after a peer is removed no datagram is
  attributed to its key any more: not a handshake (looked up by key) and not a data packet, response
  or cookie (looked up by the index the peer had).
\<close>

theorem removed_peer_unreachable:
  assumes "find_peer_for_datagram parse init_key
      (dev_peers (device_run api da relay (Remove_Peer key # h))) datagram = Some i"
  shows "dp_public_key (pt_cells (dev_peers (device_run api da relay (Remove_Peer key # h))) i) \<noteq> key"
proof -
  let ?t = "dev_peers (device_run api da relay (Remove_Peer key # h))"
  note D = table_okD [OF device_run_table_ok [of api da relay "Remove_Peer key # h"]]
  have "\<exists>k. hm_get (pt_by_key ?t) k = Some i"
    using assms D(4) by (fastforce simp: find_peer_for_datagram_def split: option.splits wg_packet.splits)
  then obtain k where k: "hm_get (pt_by_key ?t) k = Some i" ..
  moreover have "k \<noteq> key"
    using k by (auto simp: remove_device_peer_def hm.get_remove split: option.splits)
  ultimately show ?thesis using D(3) by blast
qed

section \<open>Witnesses\<close>

text \<open>
  A host with two members, 10.0.0.2 and 10.0.0.3. \<open>sample_dst\<close> stands for the destination parser of
  the WireGuard engine: the destination of an IPv4 header.
\<close>

definition sample_dst :: "bytes \<Rightarrow> ipv4 option" where
  "sample_dst p = map_option (\<lambda>(src, dst, pr, len). dst) (ipv4_fields p)"

definition sample_spec :: "u8 \<Rightarrow> ipv4 \<Rightarrow> peer_spec" where
  "sample_spec k ip = \<lparr>spec_public_key = [k], spec_endpoint = None, spec_allowed_ips = [host_net ip],
    spec_persistent_keepalive = None, spec_preshared_key = None\<rparr>"

definition one_way_rule :: resolved_rule where
  "one_way_rule = \<lparr>rr_id = ''one-way'', rr_action = Deny, rr_source = [host_net 0x0A000003],
     rr_destination = [host_net 0x0A000002], rr_protocol = Any_Protocol, rr_ports = []\<rparr>"

definition one_way :: acl_policy where
  "one_way = \<lparr>pol_default = Allow, pol_rules = [one_way_rule]\<rparr>"

text \<open>Member 2 asked member 3 a question over UDP; member 3 may not open flows to member 2.\<close>

definition sample_run :: "device_event list" where
  "sample_run = [Deliver 0 sample_udp 5, Set_Acl one_way,
     Add_Peer (sample_spec 2 0x0A000003), Add_Peer (sample_spec 1 0x0A000002)]"

lemmas relay_eval = find_peer_by_dst_def List.map_filter_def longest_match_def iter_max_def
  max_by_key_def add_peer_def Let_def hm_get_def hm_insert_def set_acl_def device_new_def
  peer_table_default_def sample_spec_def is_isolated_def virtual_ip_def net_contains_cidr
  cidr_contains_def block_size_def host_net_def

lemma sample_packets:
  "packet_fields sample_udp = Some (0x0A000002, 0x0A000003, 17, Some 53)"
  "packet_fields sample_answer = Some (0x0A000003, 0x0A000002, 17, Some 1000)"
  "sample_dst sample_udp = Some 0x0A000003" "sample_dst sample_answer = Some 0x0A000002"
  "\<not> is_non_first_fragment sample_udp" "\<not> is_non_first_fragment sample_answer"
  "\<not> has_more_fragments sample_udp" "\<not> has_more_fragments sample_answer"
  by (simp_all add: sample_udp_def sample_answer_def packet_eval sample_dst_def)

lemma sample_decisions:
  "dec_action (evaluate_ipv4_packet cidr_api one_way sample_udp) = Allow"
  "dec_action (evaluate_ipv4_packet cidr_api one_way sample_answer) = Deny"
  by (simp_all add: evaluate_ipv4_packet_def sample_packets evaluate_def one_way_def one_way_rule_def
      matches_ip_def protocol_matches_def cidr_api_def cidr_contains_def block_size_def host_net_def)

definition sample_before :: device where
  "sample_before = device_run cidr_api sample_dst True (tl sample_run)"

lemma sample_before_state:
  "dev_relay sample_before" "dev_policy sample_before = one_way" "dev_isolated sample_before = []"
  "dev_sessions sample_before = tracker_default"
  "find_peer_by_dst cidr_api (dev_peers sample_before) 0x0A000003 = Some 1"
  "find_peer_by_dst cidr_api (dev_peers sample_before) 0x0A000002 = Some 0"
  "hm_get (pt_by_key (dev_peers sample_before)) [1] = Some 0"
  "hm_get (pt_by_index (dev_peers sample_before)) 1 = Some 1"
  "dp_index (pt_cells (dev_peers sample_before) 0) = 0"
  by (simp_all add: sample_before_def sample_run_def relay_eval)

lemma not_isolated_sample: "dev_isolated d = [] \<Longrightarrow> \<not> is_isolated d p"
  by (simp add: is_isolated_def split: option.splits)

lemma sample_question_relayed:
  "deliver_inbound cidr_api sample_dst 0 sample_udp 5 sample_before =
     (Relayed 1, sample_before\<lparr>dev_sessions := observe_allowed sample_udp 5 tracker_default\<rparr>)"
  using sample_decisions(1) sample_before_state
  by (simp add: deliver_inbound_def sample_packets relay_acl_def note_forwarded_fragment_def
      not_isolated_sample)

lemma sample_run_state:
  "device_run cidr_api sample_dst True sample_run =
     sample_before\<lparr>dev_sessions := observe_allowed sample_udp 5 tracker_default\<rparr>"
proof -
  have r: "sample_run = Deliver 0 sample_udp 5 # tl sample_run" by (simp add: sample_run_def)
  show ?thesis
    by (subst r) (simp only: device_run.simps device_step.simps sample_before_def [symmetric]
        sample_question_relayed snd_conv)
qed

lemma sample_answer_relayed:
  "relayed (fst (deliver_inbound cidr_api sample_dst 1 sample_answer 9
     (device_run cidr_api sample_dst True sample_run)))"
proof -
  have "fst (allows_reply sample_answer 9 (observe_allowed sample_udp 5 tracker_default))"
    using sample_reply_ok by simp
  with sample_decisions(2) have "fst (relay_acl cidr_api one_way sample_answer 9
      (observe_allowed sample_udp 5 tracker_default)) = None"
    by (simp add: fst_relay_acl sample_packets)
  with sample_before_state show ?thesis
    unfolding sample_run_state
    by (cases "relay_acl cidr_api one_way sample_answer 9 (observe_allowed sample_udp 5 tracker_default)")
      (simp add: deliver_inbound_def sample_packets not_isolated_sample relayed_def)
qed

theorem denied_relay_is_answer_witness:
  "\<exists>k. packet_reply_key sample_answer = Some k \<and> opened cidr_api sample_dst True sample_run k"
proof (rule denied_relay_is_answer [OF sample_answer_relayed])
  show "dec_action (evaluate_ipv4_packet cidr_api
      (dev_policy (device_run cidr_api sample_dst True sample_run)) sample_answer) = Deny"
    using sample_decisions(2) sample_before_state(2) unfolding sample_run_state by simp
qed (simp add: sample_packets)


definition half_open :: "bytes \<Rightarrow> wg_packet option" where
  "half_open d = Some (Packet_Data 0x100)"

theorem removed_peer_unreachable_witness:
  "dp_public_key (pt_cells (dev_peers (device_run cidr_api sample_dst True (Remove_Peer [1] # sample_run))) 1) \<noteq> [1]"
  by (rule removed_peer_unreachable [where parse = half_open and init_key = "\<lambda>_. None" and datagram = "[]"])
    (use sample_before_state in \<open>simp add: sample_run_state find_peer_for_datagram_def half_open_def
      remove_device_peer_def hm.get_remove\<close>)

theorem isolated_peer_only_control_witness:
  "dev_isolation_host (device_run cidr_api sample_dst True [Set_Isolated [0x0A000002] 1, Add_Peer (sample_spec 1 0x0A000002)]) = Some 1
   \<and> fst (deliver_inbound cidr_api sample_dst 0 sample_udp 9
        (device_run cidr_api sample_dst True
          [Set_Isolated [0x0A000002] 1, Add_Peer (sample_spec 1 0x0A000002)])) = Dropped From_Isolated"
proof -
  let ?d = "device_run cidr_api sample_dst True [Set_Isolated [0x0A000002] 1, Add_Peer (sample_spec 1 0x0A000002)]"
  have "dev_isolation_host ?d = Some 1" "is_isolated ?d (pt_cells (dev_peers ?d) 0)"
    by (simp_all add: set_isolated_def relay_eval)
  then show ?thesis
    using isolated_peer_only_control [of ?d 0 sample_dst sample_udp "0x0A000003" cidr_api 9]
      sample_packets(3) by auto
qed

theorem find_peer_longest_prefix_witness:
  "find_peer_by_dst cidr_api (dev_peers (device_run cidr_api sample_dst True sample_run)) 0x0A000003 = Some 1
   \<and> registered (dev_peers (device_run cidr_api sample_dst True sample_run)) 1"
proof -
  have f: "find_peer_by_dst cidr_api (dev_peers (device_run cidr_api sample_dst True sample_run)) 0x0A000003 = Some 1"
    using sample_before_state(5) by (simp add: sample_run_state)
  with find_peer_longest_prefix [where api = cidr_api and dst = "0x0A000003"
      and t = "dev_peers (device_run cidr_api sample_dst True sample_run)"]
  show ?thesis by simp
qed

end
