(* ===== verification/Backend.thy ===== *)
theory Backend
  imports Relay
begin

text \<open>
  The tunnel behind its interface, \<^verbatim>\<open>crates/peercove-cli/src/backend/mod.rs\<close>. The
  trait \<^verbatim>\<open>WgBackend\<close> is the record \<open>wg_ops\<close> of the operations its clients call; every
  client only logs the error of an operation, so the result is whether it succeeded. The locale \<open>wg_backend\<close>
  states what the trait promises of its peer table (\<^verbatim>\<open>add_peer\<close> upserts the
  AllowedIPs, \<^verbatim>\<open>remove_peer\<close> is idempotent); the Windows backend
  (\<^verbatim>\<open>backend/windows/mod.rs\<close>, on the device of \<open>Relay\<close>) provides it.
\<close>

record 'b wg_ops =
  wg_add_peer :: "peer_spec \<Rightarrow> 'b \<Rightarrow> bool \<times> 'b"
  wg_remove_peer :: "public_key \<Rightarrow> 'b \<Rightarrow> bool \<times> 'b"
  wg_add_route :: "ipv4net \<Rightarrow> 'b \<Rightarrow> bool \<times> 'b"
  wg_remove_route :: "ipv4net \<Rightarrow> 'b \<Rightarrow> bool \<times> 'b"
  wg_sync_acl :: "acl_policy \<Rightarrow> 'b \<Rightarrow> bool \<times> 'b"
  wg_sync_isolation :: "ipv4 list \<Rightarrow> 'b \<Rightarrow> bool \<times> 'b"

type_synonym allowed_table = "public_key \<Rightarrow> ipv4net list option"

locale wg_backend =
  fixes wg :: "'b wg_ops" and ok :: "'b \<Rightarrow> bool" and ips :: "'b \<Rightarrow> allowed_table"
  assumes add: "ok b \<Longrightarrow> wg_add_peer wg spec b = (r, b') \<Longrightarrow>
      ok b' \<and> ips b' = (if r then (ips b)(spec_public_key spec := Some (spec_allowed_ips spec)) else ips b)"
    and remove: "ok b \<Longrightarrow> wg_remove_peer wg key b = (r, b') \<Longrightarrow>
      ok b' \<and> ips b' = (if r then (ips b)(key := None) else ips b)"

text \<open>A backend whose peer operations always succeed.\<close>

locale reliable_backend = wg_backend +
  assumes add_succeeds: "ok b \<Longrightarrow> fst (wg_add_peer wg spec b)"
    and remove_succeeds: "ok b \<Longrightarrow> fst (wg_remove_peer wg key b)"
begin

lemma add_ok:
  assumes "ok b"
  shows "ok (snd (wg_add_peer wg spec b))"
    and "ips (snd (wg_add_peer wg spec b)) = (ips b)(spec_public_key spec := Some (spec_allowed_ips spec))"
  using add [OF assms prod.collapse [symmetric]] add_succeeds [OF assms] by simp_all

lemma remove_ok:
  assumes "ok b"
  shows "ok (snd (wg_remove_peer wg key b))" and "ips (snd (wg_remove_peer wg key b)) = (ips b)(key := None)"
  using remove [OF assms prod.collapse [symmetric]] remove_succeeds [OF assms] by simp_all

end

section \<open>The Windows backend\<close>

record windows_backend =
  wb_running :: "device option"
  wb_host_ip :: ipv4

definition on_device :: "(device \<Rightarrow> device) \<Rightarrow> windows_backend \<Rightarrow> bool \<times> windows_backend" where
  "on_device f w =
     (case wb_running w of
        None \<Rightarrow> (False, w)
      | Some d \<Rightarrow> (True, w\<lparr>wb_running := Some (f d)\<rparr>))"

definition windows_add_peer :: "peer_spec \<Rightarrow> windows_backend \<Rightarrow> bool \<times> windows_backend" where
  "windows_add_peer spec = on_device (\<lambda>d. d\<lparr>dev_peers := add_peer spec (dev_peers d)\<rparr>)"

definition windows_remove_peer :: "public_key \<Rightarrow> windows_backend \<Rightarrow> bool \<times> windows_backend" where
  "windows_remove_peer key = on_device (\<lambda>d. d\<lparr>dev_peers := remove_device_peer key (dev_peers d)\<rparr>)"

definition windows_sync_acl :: "acl_policy \<Rightarrow> windows_backend \<Rightarrow> bool \<times> windows_backend" where
  "windows_sync_acl policy = on_device (set_acl policy)"

definition windows_sync_isolation :: "ipv4 list \<Rightarrow> windows_backend \<Rightarrow> bool \<times> windows_backend" where
  "windows_sync_isolation ips w = on_device (set_isolated ips (wb_host_ip w)) w"

text \<open>Routes are set by the program \<^verbatim>\<open>netsh\<close>; whether it succeeds is the function \<open>netsh\<close>.\<close>

definition windows_ops :: "(string \<Rightarrow> ipv4net \<Rightarrow> bool) \<Rightarrow> windows_backend wg_ops" where
  "windows_ops netsh =
     \<lparr>wg_add_peer = windows_add_peer, wg_remove_peer = windows_remove_peer,
      wg_add_route = (\<lambda>n w. (netsh ''add'' n, w)), wg_remove_route = (\<lambda>n w. (netsh ''delete'' n, w)),
      wg_sync_acl = windows_sync_acl, wg_sync_isolation = windows_sync_isolation\<rparr>"

definition table_ips :: "peer_table \<Rightarrow> allowed_table" where
  "table_ips t key = map_option (\<lambda>i. dp_allowed_ips (pt_cells t i)) (hm_get (pt_by_key t) key)"

definition windows_ips :: "windows_backend \<Rightarrow> allowed_table" where
  "windows_ips w key = Option.bind (wb_running w) (\<lambda>d. table_ips (dev_peers d) key)"

definition windows_ok :: "windows_backend \<Rightarrow> bool" where
  "windows_ok w \<longleftrightarrow> (case wb_running w of None \<Rightarrow> True | Some d \<Rightarrow> table_ok (dev_peers d))"

definition windows_up :: "windows_backend \<Rightarrow> bool" where
  "windows_up w \<longleftrightarrow> wb_running w \<noteq> None \<and> windows_ok w"

lemma table_ips_add:
  assumes "table_ok t"
  shows "table_ips (add_peer spec t) = (table_ips t)(spec_public_key spec := Some (spec_allowed_ips spec))"
proof (cases "hm_get (pt_by_key t) (spec_public_key spec)")
  case None
  have old: "i \<noteq> pt_next_index t" if "hm_get (pt_by_key t) k = Some i" for k i
    using table_okD(3) [OF assms that] by auto
  show ?thesis
  proof
    fix k
    show "table_ips (add_peer spec t) k
        = ((table_ips t)(spec_public_key spec := Some (spec_allowed_ips spec))) k"
      using None old [of k] by (cases "hm_get (pt_by_key t) k")
        (auto simp: table_ips_def add_peer_def Let_def hm.get_insert)
  qed
next
  case (Some i)
  have own: "k = spec_public_key spec" if "hm_get (pt_by_key t) k = Some i" for k
    using table_okD(3) [OF assms that] table_okD(3) [OF assms Some] by simp
  show ?thesis
  proof
    fix k
    show "table_ips (add_peer spec t) k
        = ((table_ips t)(spec_public_key spec := Some (spec_allowed_ips spec))) k"
    proof (cases "k = spec_public_key spec")
      case True
      with Some show ?thesis by (simp add: table_ips_def add_peer_def)
    next
      case False
      with Some own [of k] show ?thesis
        by (cases "hm_get (pt_by_key t) k") (auto simp: table_ips_def add_peer_def)
    qed
  qed
qed

lemma table_ips_remove: "table_ips (remove_device_peer key t) = (table_ips t)(key := None)"
  by (auto simp: table_ips_def remove_device_peer_def hm.get_remove fun_eq_iff split: option.splits)

interpretation windows: wg_backend "windows_ops netsh" windows_ok windows_ips
proof
  fix b b' :: windows_backend and spec key r
  assume ok: "windows_ok b"
  show "wg_add_peer (windows_ops netsh) spec b = (r, b') \<Longrightarrow> windows_ok b' \<and> windows_ips b' =
      (if r then (windows_ips b)(spec_public_key spec := Some (spec_allowed_ips spec)) else windows_ips b)"
    using ok table_ips_add by (auto simp: windows_ops_def windows_add_peer_def on_device_def windows_ok_def
        windows_ips_def table_ok_add_peer fun_eq_iff split: option.splits)
  show "wg_remove_peer (windows_ops netsh) key b = (r, b') \<Longrightarrow> windows_ok b' \<and> windows_ips b' =
      (if r then (windows_ips b)(key := None) else windows_ips b)"
    using ok by (auto simp: windows_ops_def windows_remove_peer_def on_device_def windows_ok_def
        windows_ips_def table_ok_remove_peer table_ips_remove fun_eq_iff split: option.splits)
qed

text \<open>While the tunnel is up its peer operations do not fail.\<close>

interpretation running: reliable_backend "windows_ops netsh" windows_up windows_ips
proof
  fix b b' :: windows_backend and spec key r
  assume up: "windows_up b"
  then have ok: "windows_ok b" by (simp add: windows_up_def)
  show "wg_add_peer (windows_ops netsh) spec b = (r, b') \<Longrightarrow> windows_up b' \<and> windows_ips b' =
      (if r then (windows_ips b)(spec_public_key spec := Some (spec_allowed_ips spec)) else windows_ips b)"
    using windows.add [OF ok] up
    by (auto simp: windows_up_def windows_ops_def windows_add_peer_def on_device_def split: option.splits)
  show "wg_remove_peer (windows_ops netsh) key b = (r, b') \<Longrightarrow> windows_up b' \<and> windows_ips b' =
      (if r then (windows_ips b)(key := None) else windows_ips b)"
    using windows.remove [OF ok] up
    by (auto simp: windows_up_def windows_ops_def windows_remove_peer_def on_device_def split: option.splits)
  show "fst (wg_add_peer (windows_ops netsh) spec b)" "fst (wg_remove_peer (windows_ops netsh) key b)"
    using up by (auto simp: windows_up_def windows_ops_def windows_add_peer_def windows_remove_peer_def
        on_device_def split: option.splits)
qed

text \<open>A tunnel that is up and has no peer yet.\<close>

definition fresh_backend :: windows_backend where
  "fresh_backend = \<lparr>wb_running = Some (device_new False), wb_host_ip = 0x0A000002\<rparr>"

lemma fresh_backend_up: "windows_up fresh_backend" and fresh_backend_ips: "windows_ips fresh_backend k = None"
  by (simp_all add: windows_up_def windows_ok_def fresh_backend_def device_new_def
      table_ok_default [unfolded peer_table_default_def] windows_ips_def table_ips_def peer_table_default_def hm.get_empty)

end
