(* ===== verification/Chat_Groups.thy ===== *)
theory Chat_Groups
  imports Rust_Str Ipnet
begin

text \<open>
  Chat groups, \<^verbatim>\<open>crates/peercove-cli/src/groups.rs\<close>: groups spread from member to
  member as whole copies, and the copy with the greatest revision wins (ties: the greater address of the
  author). The store refines that specification: what a node holds is the greatest copy it has seen,
  in whatever order the copies arrived. The file of the store is the list \<open>saved_groups\<close>; writing it, and
  the warning when that fails, are not modelled, nor are the Japanese sentences that
  \<^verbatim>\<open>system_messages\<close> puts beside each event.
\<close>

section \<open>Definitions\<close>

record group_info =
  gi_id :: string
  gi_name :: string
  gi_members :: "ipv4 list"
  gi_revision :: u64
  gi_updated_by :: ipv4

record group_store =
  gs_groups :: "(string, group_info) hashmap"
  gs_acked :: "(string \<times> ipv4, u64) hashmap"
  gs_last_attempt :: "(string \<times> ipv4, instant) hashmap"

record applied_group =
  ag_previous :: "group_info option"

definition load_groups :: "group_info list \<Rightarrow> group_store" where
  "load_groups gs =
     \<lparr>gs_groups = hm_collect (map (\<lambda>g. (gi_id g, g)) gs), gs_acked = [], gs_last_attempt = []\<rparr>"

definition accepts_update :: "group_store \<Rightarrow> group_info \<Rightarrow> ipv4 \<Rightarrow> bool" where
  "accepts_update s g sender \<longleftrightarrow>
     (case hm_get (gs_groups s) (gi_id g) of
        Some current \<Rightarrow> sender \<in> set (gi_members current)
      | None \<Rightarrow> sender \<in> set (gi_members g))"

definition supersedes :: "group_info \<Rightarrow> group_info \<Rightarrow> bool" where
  "supersedes g current \<longleftrightarrow> gi_revision current < gi_revision g
     \<or> (gi_revision g = gi_revision current \<and> gi_updated_by current < gi_updated_by g)"

definition apply_group :: "group_info \<Rightarrow> group_store \<Rightarrow> applied_group option \<times> group_store" where
  "apply_group g s =
     (let old = hm_get (gs_groups s) (gi_id g);
          newer = (case old of None \<Rightarrow> True | Some current \<Rightarrow> supersedes g current)
      in if \<not> newer then (None, s)
         else (Some \<lparr>ag_previous = old\<rparr>, s\<lparr>gs_groups := hm_insert (gi_id g) g (gs_groups s)\<rparr>))"

definition acked_revision :: "group_store \<Rightarrow> string \<times> ipv4 \<Rightarrow> u64" where
  "acked_revision s key = (case hm_get (gs_acked s) key of Some r \<Rightarrow> r | None \<Rightarrow> 0)"

definition mark_acked :: "string \<Rightarrow> ipv4 \<Rightarrow> u64 \<Rightarrow> group_store \<Rightarrow> group_store" where
  "mark_acked i peer revision s =
     (let entry = acked_revision s (i, peer)
      in s\<lparr>gs_acked := hm_insert (i, peer) (if entry < revision then revision else entry) (gs_acked s)\<rparr>)"

definition sync_targets :: "ipv4 \<Rightarrow> ipv4 option \<Rightarrow> group_info \<Rightarrow> ipv4 list" where
  "sync_targets self_ip host_ip g =
     (let targets = filter (\<lambda>ip. ip \<noteq> self_ip) (gi_members g)
      in case host_ip of
           Some host \<Rightarrow> if host \<noteq> self_ip \<and> host \<notin> set targets then targets @ [host] else targets
         | None \<Rightarrow> targets)"

definition sync_due :: "group_store \<Rightarrow> ipv4 set \<Rightarrow> duration \<Rightarrow> instant \<Rightarrow> group_info \<Rightarrow> ipv4 \<Rightarrow> bool" where
  "sync_due s online retry_after now g peer \<longleftrightarrow>
     peer \<in> online \<and> \<not> gi_revision g \<le> acked_revision s (gi_id g, peer)
     \<and> \<not> (case hm_get (gs_last_attempt s) (gi_id g, peer) of Some at \<Rightarrow> now - at < retry_after | None \<Rightarrow> False)"

definition pending_sync :: "ipv4 \<Rightarrow> ipv4 set \<Rightarrow> duration \<Rightarrow> ipv4 option \<Rightarrow> instant \<Rightarrow> group_store
    \<Rightarrow> (ipv4 \<times> group_info) list \<times> group_store" where
  "pending_sync self_ip online retry_after host_ip now s =
     (let out = concat (map (\<lambda>g. if self_ip \<notin> set (gi_members g) then []
                  else map (\<lambda>p. (p, g)) (filter (sync_due s online retry_after now g) (sync_targets self_ip host_ip g)))
                (hm_values (gs_groups s)))
      in (out, s\<lparr>gs_last_attempt := foldl (\<lambda>m (p, g). hm_insert (gi_id g, p) now m) (gs_last_attempt s) out\<rparr>))"

definition saved_groups :: "group_store \<Rightarrow> group_info list" where
  "saved_groups s = sort_key gi_id (hm_values (gs_groups s))"

definition get_group :: "group_store \<Rightarrow> string \<Rightarrow> group_info option" where
  "get_group s i = hm_get (gs_groups s) i"

text \<open>The revision is a 64-bit counter; in a release build the addition wraps.\<close>

definition prune_departed :: "group_store \<Rightarrow> ipv4 list \<Rightarrow> ipv4 \<Rightarrow> group_info list" where
  "prune_departed s departed self_ip =
     (if departed = [] then []
      else map (\<lambda>g. g\<lparr>gi_members := filter (\<lambda>ip. ip \<notin> set departed) (gi_members g),
                      gi_revision := gi_revision g + 1, gi_updated_by := self_ip\<rparr>)
        (filter (\<lambda>g. self_ip \<in> set (gi_members g) \<and> list_ex (\<lambda>ip. ip \<in> set departed) (gi_members g))
          (hm_values (gs_groups s))))"

definition all_groups :: "group_store \<Rightarrow> group_info list" where
  "all_groups s = sort_key gi_id (hm_values (gs_groups s))"

definition joined_groups :: "group_store \<Rightarrow> ipv4 \<Rightarrow> group_info list" where
  "joined_groups s self_ip =
     sort_key gi_id (filter (\<lambda>g. self_ip \<in> set (gi_members g)) (hm_values (gs_groups s)))"

datatype system_event =
    Group_Created string
  | Added_To_Group string string
  | Group_Renamed string string
  | Members_Added string string "string list"
  | Self_Left_Group
  | Self_Removed_From_Group
  | Members_Left "string list"
  | Members_Removed "string list"
  | Member_Replaced string
  | Member_Invited string string
  | Member_Removed_From_Network string "string option"
  | Chat_History_Cleared
  | File_Receive_Failed string string

definition diff_events :: "group_info \<Rightarrow> group_info \<Rightarrow> ipv4 \<Rightarrow> (ipv4 \<Rightarrow> string) \<Rightarrow> system_event list" where
  "diff_events old new self_ip name_of =
     (let added = filter (\<lambda>ip. ip \<notin> set (gi_members old)) (gi_members new);
          added_names = map name_of (filter (\<lambda>ip. ip \<noteq> self_ip) added);
          removed = filter (\<lambda>ip. ip \<notin> set (gi_members new)) (gi_members old);
          removed_names = map name_of (filter (\<lambda>ip. ip \<noteq> self_ip) removed)
      in (if gi_name old \<noteq> gi_name new then [Group_Renamed (gi_name old) (gi_name new)] else [])
       @ (if self_ip \<in> set added then [Added_To_Group (gi_name new) (name_of (gi_updated_by new))] else [])
       @ (if added_names \<noteq> [] then [Members_Added (gi_name new) (name_of (gi_updated_by new)) added_names] else [])
       @ (if self_ip \<in> set removed
          then (if gi_updated_by new = self_ip then [Self_Left_Group] else [Self_Removed_From_Group]) else [])
       @ (if removed_names \<noteq> []
          then (if gi_updated_by new \<in> set removed then [Members_Left removed_names] else [Members_Removed removed_names])
          else []))"

definition system_messages :: "group_info option \<Rightarrow> group_info \<Rightarrow> ipv4 \<Rightarrow> (ipv4 \<Rightarrow> string) \<Rightarrow> system_event list" where
  "system_messages old new self_ip name_of =
     (case old of
        None \<Rightarrow>
          (if gi_updated_by new = self_ip then [Group_Created (gi_name new)]
           else if self_ip \<in> set (gi_members new) then [Added_To_Group (gi_name new) (name_of (gi_updated_by new))]
           else [])
      | Some previous \<Rightarrow> diff_events previous new self_ip name_of)"

section \<open>The store holds the greatest copy\<close>

definition apply_all :: "group_info list \<Rightarrow> group_store \<Rightarrow> group_store" where
  "apply_all gs s = foldl (\<lambda>s g. snd (apply_group g s)) s gs"

lemma apply_group_get:
  "get_group (snd (apply_group g s)) i =
    (if gi_id g = i \<and> (case get_group s i of None \<Rightarrow> True | Some c \<Rightarrow> supersedes g c) then Some g else get_group s i)"
  by (auto simp: apply_group_def get_group_def hm.get_insert Let_def split: option.splits)

lemma supersedes_trans: "supersedes a b \<Longrightarrow> supersedes b c \<Longrightarrow> supersedes a c"
  by (auto simp: supersedes_def)

lemma supersedes_irrefl [simp]: "\<not> supersedes a a"
  by (simp add: supersedes_def)

lemma not_supersedes_trans: "\<not> supersedes b a \<Longrightarrow> \<not> supersedes c b \<Longrightarrow> \<not> supersedes c a"
  by (auto simp: supersedes_def)

lemma apply_all_snoc: "apply_all (gs @ [g]) s = snd (apply_group g (apply_all gs s))"
  by (simp add: apply_all_def)

definition fresh_store :: group_store where
  "fresh_store = load_groups []"

lemma apply_all_greatest:
  "case get_group (apply_all gs fresh_store) i of
     None \<Rightarrow> \<forall>g \<in> set gs. gi_id g \<noteq> i
   | Some c \<Rightarrow> c \<in> set gs \<and> gi_id c = i \<and> (\<forall>g \<in> set gs. gi_id g = i \<longrightarrow> \<not> supersedes g c)"
proof (induction gs rule: rev_induct)
  case Nil
  show ?case by (simp add: apply_all_def fresh_store_def load_groups_def get_group_def hm.get_empty)
next
  case (snoc g gs)
  let ?old = "get_group (apply_all gs fresh_store) i"
  show ?case
  proof (cases ?old)
    case None
    with snoc show ?thesis unfolding apply_all_snoc apply_group_get by (auto split: option.splits)
  next
    case (Some c)
    with snoc show ?thesis unfolding apply_all_snoc apply_group_get
      by (auto dest: supersedes_trans not_supersedes_trans split: if_splits)
  qed
qed

text \<open>The specification: the last-writer-wins register over a set of copies.\<close>

definition is_latest :: "group_info set \<Rightarrow> string \<Rightarrow> group_info option \<Rightarrow> bool" where
  "is_latest copies i r \<longleftrightarrow>
     (case r of
        None \<Rightarrow> \<forall>g \<in> copies. gi_id g \<noteq> i
      | Some c \<Rightarrow> c \<in> copies \<and> gi_id c = i \<and> (\<forall>g \<in> copies. gi_id g = i \<longrightarrow> \<not> supersedes g c))"

lemma is_latest_unique:
  assumes "is_latest U i r" and "is_latest U i q"
    and "\<forall>a \<in> U. \<forall>b \<in> U. gi_id a = gi_id b \<and> \<not> supersedes a b \<and> \<not> supersedes b a \<longrightarrow> a = b"
  shows "r = q"
  using assms by (cases r; cases q) (auto simp: is_latest_def)

section \<open>Delivery\<close>

lemma set_sync_targets: "p \<in> set (sync_targets self_ip host_ip g) \<longleftrightarrow>
    p \<noteq> self_ip \<and> (p \<in> set (gi_members g) \<or> host_ip = Some p)"
  by (auto simp: sync_targets_def Let_def split: option.splits)

lemma pending_attempts:
  "hm_get (foldl (\<lambda>m (p, g). hm_insert (gi_id g, p) now m) m out) key =
    (if \<exists>(p, g) \<in> set out. key = (gi_id g, p) then Some now else hm_get m key)"
  by (induction out rule: rev_induct) (auto simp: hm.get_insert)

text \<open>Within \<open>retry_after\<close> of an attempt nothing is sent again.\<close>

lemma pending_sync_backoff:
  assumes "(p, g) \<in> set (fst (pending_sync self_ip online retry_after host_ip now s))" and "later - now < retry_after"
    and "gi_id h = gi_id g"
  shows "\<not> sync_due (snd (pending_sync self_ip online retry_after host_ip now s)) online' retry_after later h p"
proof -
  let ?r = "pending_sync self_ip online retry_after host_ip now s"
  have "gs_last_attempt (snd ?r) = foldl (\<lambda>m (p, g). hm_insert (gi_id g, p) now m) (gs_last_attempt s) (fst ?r)"
    by (simp add: pending_sync_def Let_def)
  then have "hm_get (gs_last_attempt (snd ?r)) (gi_id h, p) = Some now"
    using assms(1,3) by (auto simp: pending_attempts)
  then show ?thesis using assms(2) by (simp add: sync_due_def)
qed

lemma mark_acked_get: "acked_revision (mark_acked i peer r s) key =
    (if key = (i, peer) then max r (acked_revision s key) else acked_revision s key)"
proof (cases "key = (i, peer)")
  case True
  then have "acked_revision (mark_acked i peer r s) key
      = (if acked_revision s (i, peer) < r then r else acked_revision s (i, peer))"
    by (simp add: mark_acked_def Let_def acked_revision_def hm.get_insert)
  with True show ?thesis by (auto simp: max_def not_less)
next
  case False
  then show ?thesis by (simp add: mark_acked_def Let_def acked_revision_def hm.get_insert)
qed

section \<open>The file\<close>

lemma collect_by_id_get:
  "hm_get (hm_collect (map (\<lambda>g. (gi_id g, g)) gs)) i = find (\<lambda>g. gi_id g = i) (rev gs)"
proof -
  have "map_of (map (\<lambda>g. (gi_id g, g)) gs) i = find (\<lambda>g. gi_id g = i) gs" for gs
    by (induction gs) auto
  from this [of "rev gs"] show ?thesis by (simp add: hm_collect_get rev_map)
qed

lemma find_distinct_perm:
  assumes "set xs = set ys" and "distinct (map f xs)" and "distinct (map f ys)"
  shows "find (\<lambda>g. f g = i) xs = find (\<lambda>g. f g = i) ys"
proof (cases "find (\<lambda>g. f g = i) xs")
  case None
  then have "find (\<lambda>g. f g = i) ys = None" using assms(1) by (simp add: find_None_set)
  with None show ?thesis by simp
next
  case (Some g)
  then have g: "g \<in> set ys" "f g = i" using find_Some_set [OF Some] assms(1) by auto
  with find_distinct_key [OF assms(3) g(1)] Some show ?thesis by simp
qed

definition store_ok :: "group_store \<Rightarrow> bool" where
  "store_ok s \<longleftrightarrow> hm_ok (gs_groups s) \<and> (\<forall>(i, g) \<in> set (gs_groups s). gi_id g = i)"

lemma store_ok_insert: "hm_ok m \<and> (\<forall>(i, g) \<in> set m. gi_id g = i) \<Longrightarrow>
    hm_ok (hm_insert (gi_id g) g m) \<and> (\<forall>(i, h) \<in> set (hm_insert (gi_id g) g m). gi_id h = i)"
  by (auto simp: hm.ok_insert dest!: hm_set_update)

lemma store_ok_apply: "store_ok s \<Longrightarrow> store_ok (snd (apply_group g s))"
  using store_ok_insert [of "gs_groups s" g] by (simp add: store_ok_def apply_group_def Let_def)

lemma store_ok_load: "store_ok (load_groups gs)"
proof -
  have "\<forall>(i, g) \<in> set (hm_collect (map (\<lambda>g. (gi_id g, g)) gs)). gi_id g = i"
    by (induction gs rule: rev_induct) (auto simp: hm_collect_def dest!: hm_set_update)
  then show ?thesis by (simp add: store_ok_def load_groups_def hm_collect_ok)
qed

lemma saved_groups_set: "set (saved_groups s) = set (hm_values (gs_groups s))"
  by (simp add: saved_groups_def)

lemma store_ok_keys:
  assumes "store_ok s"
  shows "map gi_id (hm_values (gs_groups s)) = map fst (gs_groups s)"
  using assms by (auto simp: store_ok_def hm_values_def)

lemma get_group_find:
  assumes "store_ok s"
  shows "get_group s i = find (\<lambda>g. gi_id g = i) (hm_values (gs_groups s))"
proof -
  have "map_of m i = find (\<lambda>g. gi_id g = i) (map snd m)" if "\<forall>(i, g) \<in> set m. gi_id g = i" for m
    using that by (induction m) auto
  from this [of "gs_groups s"] assms show ?thesis
    by (simp add: store_ok_def get_group_def hm_get_def hm_values_def)
qed

lemma load_saved_get:
  assumes "store_ok s"
  shows "get_group (load_groups (saved_groups s)) i = get_group s i"
proof -
  let ?v = "hm_values (gs_groups s)"
  have d: "distinct (map gi_id ?v)"
    using assms store_ok_keys [OF assms] by (simp add: store_ok_def hm_ok_def)
  then have "distinct (map gi_id (saved_groups s))"
    by (simp add: saved_groups_def distinct_map)
  then have "distinct (map gi_id (rev (saved_groups s)))" by (simp add: distinct_map)
  from find_distinct_perm [OF _ this d]
  have "find (\<lambda>g. gi_id g = i) (rev (saved_groups s)) = find (\<lambda>g. gi_id g = i) ?v"
    by (simp add: saved_groups_set)
  then show ?thesis
    unfolding get_group_find [OF assms]
    by (simp add: get_group_def load_groups_def collect_by_id_get)
qed

section \<open>Properties\<close>

text \<open>
  C18: (\<^verbatim>\<open>GroupStore::apply\<close>, \<^verbatim>\<open>save\<close>, \<^verbatim>\<open>load\<close>)
  the store refines a last-writer-wins register: after any sequence of
  received copies, also across a restart that reads the saved file back, it holds for each id the greatest copy it was given,
  and nothing for an id no copy had.
\<close>

theorem store_refines_latest:
  "is_latest (set gs) i (get_group (apply_all gs fresh_store) i)
   \<and> get_group (load_groups (saved_groups (apply_all gs fresh_store))) i = get_group (apply_all gs fresh_store) i"
proof -
  have "store_ok (apply_all gs fresh_store)"
    by (induction gs rule: rev_induct)
      (simp_all add: apply_all_snoc store_ok_apply, simp add: apply_all_def fresh_store_def store_ok_load)
  then show ?thesis using apply_all_greatest [of gs i] by (simp add: is_latest_def load_saved_get)
qed


definition duo_v1 :: group_info where
  "duo_v1 = \<lparr>gi_id = ''g1'', gi_name = ''raid'', gi_members = [0x0A000001, 0x0A000002],
     gi_revision = 1, gi_updated_by = 0x0A000001\<rparr>"

definition duo_v2 :: group_info where
  "duo_v2 = duo_v1\<lparr>gi_name := ''raid night'', gi_revision := 2, gi_updated_by := 0x0A000002\<rparr>"


text \<open>
  (\<^verbatim>\<open>GroupStore::pending_sync\<close>) a copy is sent to exactly the members online (and the host) that
  have not acknowledged its revision, only by a member, and not again within the retry interval; an
  acknowledgement ends it, and no other delivery is affected.
\<close>

theorem pending_sync_exact:
  "(p, g) \<in> set (fst (pending_sync self_ip online retry_after host_ip now s)) \<longleftrightarrow>
     g \<in> set (hm_values (gs_groups s)) \<and> self_ip \<in> set (gi_members g)
     \<and> p \<noteq> self_ip \<and> (p \<in> set (gi_members g) \<or> host_ip = Some p)
     \<and> p \<in> online \<and> acked_revision s (gi_id g, p) < gi_revision g
     \<and> (case hm_get (gs_last_attempt s) (gi_id g, p) of Some at \<Rightarrow> retry_after \<le> now - at | None \<Rightarrow> True)"
proof -
  have "sync_due s online retry_after now g p \<longleftrightarrow>
      p \<in> online \<and> acked_revision s (gi_id g, p) < gi_revision g
      \<and> (case hm_get (gs_last_attempt s) (gi_id g, p) of Some at \<Rightarrow> retry_after \<le> now - at | None \<Rightarrow> True)"
    by (auto simp: sync_due_def not_le not_less split: option.splits)
  moreover have "(p, g) \<in> set (fst (pending_sync self_ip online retry_after host_ip now s)) \<longleftrightarrow>
      g \<in> set (hm_values (gs_groups s)) \<and> self_ip \<in> set (gi_members g)
      \<and> p \<in> set (sync_targets self_ip host_ip g) \<and> sync_due s online retry_after now g p"
    by (auto simp: pending_sync_def Let_def split: if_splits)
  ultimately show ?thesis by (auto simp: set_sync_targets)
qed

text \<open>
  (\<^verbatim>\<open>GroupStore::prune_departed\<close>) when a member leaves the network, applying the updates a node makes for
  its own groups takes the departed addresses out of every group it is in, for every revision below the last one;
  at revision $2^{64} - 1$ the counter wraps to zero and the update loses against the copy it replaces.
\<close>

theorem pruned_groups_drop_departed:
  assumes "store_ok s" and "g \<in> set (prune_departed s departed self_ip)" and "get_group s (gi_id g) = Some old"
  shows "set (gi_members g) = set (gi_members old) - set departed
    \<and> get_group (snd (apply_group g s)) (gi_id g) = (if gi_revision old = -1 then Some old else Some g)"
proof -
  from assms(2) obtain h where h: "h \<in> set (hm_values (gs_groups s))"
    and g: "g = h\<lparr>gi_members := filter (\<lambda>ip. ip \<notin> set departed) (gi_members h),
                      gi_revision := gi_revision h + 1, gi_updated_by := self_ip\<rparr>"
    by (auto simp: prune_departed_def split: if_splits)
  have d: "distinct (map gi_id (hm_values (gs_groups s)))"
    using assms(1) store_ok_keys [OF assms(1)] by (simp add: store_ok_def hm_ok_def)
  have "get_group s (gi_id h) = Some h"
    unfolding get_group_find [OF assms(1)] by (rule find_distinct_key [OF d h])
  then have old: "old = h" using assms(3) g by simp
  have wrap: "gi_revision h + 1 = 0 \<longleftrightarrow> gi_revision h = - 1" by (simp add: eq_neg_iff_add_eq_0)
  have "supersedes g h \<longleftrightarrow> gi_revision h \<noteq> - 1"
  proof (cases "gi_revision h = - 1")
    case True
    then show ?thesis by (simp add: supersedes_def g wrap)
  next
    case False
    then have "unat (1 + gi_revision h) = Suc (unat (gi_revision h))" using wrap by (simp add: unatSuc add.commute)
    then have "gi_revision h < gi_revision h + 1" by (simp add: word_less_nat_alt add.commute)
    with False show ?thesis by (simp add: supersedes_def g)
  qed
  then show ?thesis using assms(3) old by (auto simp: apply_group_get g)
qed

lemma pruned_groups_drop_departed_witness:
  "set (gi_members (duo_v1\<lparr>gi_members := [0x0A000001], gi_revision := 2\<rparr>)) = {0x0A000001} \<and>
   get_group (snd (apply_group (duo_v1\<lparr>gi_members := [0x0A000001], gi_revision := 2\<rparr>)
     (load_groups [duo_v1]))) ''g1'' = Some (duo_v1\<lparr>gi_members := [0x0A000001], gi_revision := 2\<rparr>)"
proof -
  let ?new = "duo_v1\<lparr>gi_members := [0x0A000001], gi_revision := 2\<rparr>"
  have ok: "store_ok (load_groups [duo_v1])" by (rule store_ok_load)
  have upd: "?new \<in> set (prune_departed (load_groups [duo_v1]) [0x0A000002] 0x0A000001)"
    by (simp add: prune_departed_def load_groups_def duo_v1_def hm_values_def hm_insert_def hm_collect_def)
  have old: "get_group (load_groups [duo_v1]) (gi_id ?new) = Some duo_v1"
    by (simp add: load_groups_def get_group_def hm_collect_get duo_v1_def)
  from pruned_groups_drop_departed [OF ok upd old] show ?thesis
    by (auto simp: duo_v1_def)
qed

text \<open>
  Authorisation: a peer outside a known group cannot change it, and cannot introduce a group it does not list itself in.
\<close>

lemma accepts_update_member:
  "accepts_update s g sender \<Longrightarrow>
    (case get_group s (gi_id g) of Some c \<Rightarrow> sender \<in> set (gi_members c) | None \<Rightarrow> sender \<in> set (gi_members g))"
  by (simp add: accepts_update_def get_group_def split: option.splits)

end
