(* ===== verification/Health.thy ===== *)
theory Health
  imports Dns_Zone
begin

text \<open>
  The health checks of DNS services, \<^verbatim>\<open>crates/peercove-cli/src/health.rs\<close>. The
  monitor decides which records are probed and what a probe means; the probe itself (a TCP connection, perhaps with
  a HEAD request, under a timeout) is an outcome of type \<open>probe\<close>. A batch is its queue of
  jobs and the results so far; its workers finish the jobs in any order.
\<close>

section \<open>Data\<close>

definition CHECK_INTERVAL :: duration where "CHECK_INTERVAL = secs 60"
definition MAX_CONCURRENT :: nat where "MAX_CONCURRENT = 8"

datatype health_target = Target_Ip ipv4 | Target_Name string

record job =
  job_key :: string
  job_fqdn :: string
  job_target :: health_target
  job_port :: u16
  job_kind :: health_check_kind
  job_path :: string
  job_expected_status :: "u16 option"
  job_gated_member_ip :: "ipv4 option"

record batch =
  bt_queue :: "job list"
  bt_results :: "(string, service_health) hashmap"

record health_monitor =
  hm_results :: "(string, service_health) hashmap"
  hm_last_started :: "instant option"
  hm_running :: bool
  hm_force :: bool
  hm_batch :: "batch option"
  hm_online_members :: "ipv4 list"

definition health_default :: health_monitor where
  "health_default = \<lparr>hm_results = [], hm_last_started = None, hm_running = False, hm_force = False,
     hm_batch = None, hm_online_members = []\<rparr>"

definition request_now :: "health_monitor \<Rightarrow> health_monitor" where
  "request_now m = m\<lparr>hm_force := True\<rparr>"

definition health_stop :: "health_monitor \<Rightarrow> health_monitor" where
  "health_stop m = m\<lparr>hm_batch := None, hm_running := False\<rparr>"

definition health_of :: "health_monitor \<Rightarrow> string \<Rightarrow> service_health" where
  "health_of m name =
     (case hm_get (hm_results m) name of Some h \<Rightarrow> h | None \<Rightarrow> service_health_unknown Not_Checked)"

definition enrich :: "health_monitor \<Rightarrow> dns_record list \<Rightarrow> cname_record list
    \<Rightarrow> dns_record list \<times> cname_record list" where
  "enrich m records cnames =
     (map (\<lambda>r. r\<lparr>dr_health := Some (health_of m (dr_name r))\<rparr>) records,
      map (\<lambda>r. r\<lparr>cr_health := Some (health_of m (cr_name r))\<rparr>) cnames)"

section \<open>Which records are probed\<close>

definition disabled_health :: service_health where
  "disabled_health =
     \<lparr>sh_status = Disabled_Health, sh_reason = Health_Off, sh_checked_at_unix_ms = None,
      sh_response_ms = None, sh_http_status = None\<rparr>"

definition offline_health :: "nat option \<Rightarrow> service_health" where
  "offline_health at =
     \<lparr>sh_status = Unknown_Health, sh_reason = Offline, sh_checked_at_unix_ms = at,
      sh_response_ms = None, sh_http_status = None\<rparr>"

text \<open>\<^verbatim>\<open>Ipv4Addr::is_private\<close> (10/8, 172.16/12, 192.168/16) and
  \<^verbatim>\<open>is_loopback\<close> (127/8).\<close>

definition is_internal_ip :: "ipv4 \<Rightarrow> bool" where
  "is_internal_ip ip \<longleftrightarrow>
     (let a = octets ip ! 0; b = octets ip ! 1
      in a = 10 \<or> (a = 172 \<and> 16 \<le> b \<and> b \<le> 31) \<or> (a = 192 \<and> b = 168) \<or> a = 127)"

definition record_name :: "dns_record_config \<Rightarrow> ledger_entry list \<Rightarrow> string" where
  "record_name r ledger = (case resolve_cnames [r] ledger of [] \<Rightarrow> rec_name r | c # _ \<Rightarrow> cr_name c)"

definition reference_offline :: "ledger_entry list \<Rightarrow> member_ref \<Rightarrow> bool" where
  "reference_offline ledger ref =
     (case find (\<lambda>e. case ref of Host \<Rightarrow> le_is_host e | Key k \<Rightarrow> le_public_key e = k) ledger of
        None \<Rightarrow> True
      | Some e \<Rightarrow> \<not> le_online e)"

definition referenced_offline :: "dns_record_config \<Rightarrow> ledger_entry list \<Rightarrow> bool" where
  "referenced_offline r ledger \<longleftrightarrow>
     list_ex (reference_offline ledger) (List.map_filter (\<lambda>x. x) [rec_member r, rec_under r])"

definition record_target :: "dns_record_config \<Rightarrow> ledger_entry list \<Rightarrow> string \<times> health_target" where
  "record_target r ledger =
     (case rec_cname r of
        Some cname \<Rightarrow> (record_name r ledger, Target_Name cname)
      | None \<Rightarrow>
          (case resolve_records [r] ledger of
             d # _ \<Rightarrow> (dr_name d, Target_Ip (dr_ip d))
           | [] \<Rightarrow> (rec_name r, Target_Ip 0)))"

definition health_enabled :: "dns_record_config \<Rightarrow> health_target \<Rightarrow> bool" where
  "health_enabled r target =
     (case rec_health_check r of
        Some b \<Rightarrow> b
      | None \<Rightarrow> rec_cname r = None \<and> rec_scheme r \<noteq> None \<and> rec_port r \<noteq> None
          \<and> (case target of Target_Ip ip \<Rightarrow> is_internal_ip ip | Target_Name _ \<Rightarrow> False))"

definition gated_ip :: "dns_record_config \<Rightarrow> health_target \<Rightarrow> ipv4 option" where
  "gated_ip r target =
     (if rec_member r \<noteq> None \<or> rec_under r \<noteq> None
      then (case target of Target_Ip ip \<Rightarrow> Some ip | Target_Name _ \<Rightarrow> None) else None)"

text \<open>One record: either a result at once, or a job.\<close>

definition plan_record :: "string \<Rightarrow> nat \<Rightarrow> ledger_entry list \<Rightarrow> dns_record_config
    \<Rightarrow> (string \<times> service_health) + job" where
  "plan_record network now ledger r =
     (let (key, target) = record_target r ledger
      in if \<not> health_enabled r target \<or> (rec_cname r \<noteq> None \<and> \<not> rec_health_external r)
         then Inl (key, disabled_health)
         else (case rec_port r of
                 None \<Rightarrow> Inl (key, disabled_health)
               | Some port \<Rightarrow>
                   if referenced_offline r ledger then Inl (key, offline_health (Some now))
                   else Inr \<lparr>job_key = key, job_fqdn = key @ ''.'' @ network @ ''.'' @ DNS_SUFFIX,
                     job_target = target, job_port = port,
                     job_kind = (case rec_health_kind r of Some k \<Rightarrow> k | None \<Rightarrow> Health_Tcp),
                     job_path = (case rec_health_path r of Some p \<Rightarrow> p | None \<Rightarrow> ''/''),
                     job_expected_status = rec_health_expect_status r,
                     job_gated_member_ip = gated_ip r target\<rparr>))"

definition build_jobs :: "string \<Rightarrow> nat \<Rightarrow> config \<Rightarrow> ledger_entry list
    \<Rightarrow> job list \<times> (string, service_health) hashmap" where
  "build_jobs network now cfg ledger =
     (let plans = map (plan_record network now ledger) (cfg_dns_records cfg)
      in (concat (map (\<lambda>p. case p of Inr j \<Rightarrow> [j] | Inl _ \<Rightarrow> []) plans),
          hm_collect (concat (map (\<lambda>p. case p of Inl kv \<Rightarrow> [kv] | Inr _ \<Rightarrow> []) plans))))"

definition schedule :: "instant \<Rightarrow> string \<Rightarrow> nat \<Rightarrow> config \<Rightarrow> ledger_entry list
    \<Rightarrow> health_monitor \<Rightarrow> health_monitor" where
  "schedule now network unix_ms cfg ledger m =
     (let m = m\<lparr>hm_online_members := map le_ip (filter le_online ledger)\<rparr>;
          due = (case hm_last_started m of None \<Rightarrow> True | Some at \<Rightarrow> CHECK_INTERVAL \<le> now - at)
      in if hm_running m \<or> (\<not> hm_force m \<and> \<not> due) then m
         else (let (jobs, immediate) = build_jobs network unix_ms cfg ledger
               in m\<lparr>hm_force := False, hm_running := True, hm_last_started := Some now,
                    hm_batch := Some \<lparr>bt_queue = jobs, bt_results = immediate\<rparr>\<rparr>))"

section \<open>What a probe means\<close>

datatype probe = Timed_Out | Resolution_Failed | Connection_Refused | Answered "u16 option"

definition health_check :: "job \<Rightarrow> probe \<Rightarrow> nat \<Rightarrow> nat \<Rightarrow> service_health" where
  "health_check job outcome response_ms checked_at =
     (case outcome of
        Timed_Out \<Rightarrow>
          \<lparr>sh_status = Unhealthy, sh_reason = Timeout, sh_checked_at_unix_ms = Some checked_at,
           sh_response_ms = Some response_ms, sh_http_status = None\<rparr>
      | Resolution_Failed \<Rightarrow>
          \<lparr>sh_status = Unknown_Health, sh_reason = Name_Resolution_Failed, sh_checked_at_unix_ms = Some checked_at,
           sh_response_ms = Some response_ms, sh_http_status = None\<rparr>
      | Connection_Refused \<Rightarrow>
          \<lparr>sh_status = Unhealthy, sh_reason = Connection_Failed, sh_checked_at_unix_ms = Some checked_at,
           sh_response_ms = Some response_ms, sh_http_status = None\<rparr>
      | Answered http_status \<Rightarrow>
          (let healthy = (case http_status of
                 None \<Rightarrow> True
               | Some actual \<Rightarrow>
                   (case job_expected_status job of
                      Some expected \<Rightarrow> expected = actual
                    | None \<Rightarrow> 200 \<le> actual \<and> actual < 400))
           in \<lparr>sh_status = (if healthy then Healthy else Unhealthy),
               sh_reason = (if healthy then Not_Checked else Unexpected_Status),
               sh_checked_at_unix_ms = Some checked_at,
               sh_response_ms = Some response_ms, sh_http_status = http_status\<rparr>))"

definition worker_result :: "ipv4 list \<Rightarrow> job \<Rightarrow> service_health \<Rightarrow> service_health" where
  "worker_result online job result =
     (if sh_status result = Unhealthy
      then (case job_gated_member_ip job of
              Some ip \<Rightarrow> if ip \<notin> set online then offline_health (sh_checked_at_unix_ms result) else result
            | None \<Rightarrow> result)
      else result)"

text \<open>A worker finishes the job at position \<open>i\<close> of those it and its seven
  siblings have taken; when none is left the batch hands its results over.\<close>

definition finish_job :: "nat \<Rightarrow> probe \<Rightarrow> nat \<Rightarrow> nat \<Rightarrow> health_monitor \<Rightarrow> health_monitor" where
  "finish_job i outcome response_ms checked_at m =
     (case hm_batch m of
        None \<Rightarrow> m
      | Some b \<Rightarrow>
          if i < min MAX_CONCURRENT (length (bt_queue b))
          then (let job = bt_queue b ! i;
                    result = worker_result (hm_online_members m) job (health_check job outcome response_ms checked_at)
                in m\<lparr>hm_batch := Some \<lparr>bt_queue = take i (bt_queue b) @ drop (Suc i) (bt_queue b),
                                     bt_results = hm_insert (job_key job) result (bt_results b)\<rparr>\<rparr>)
          else m)"

definition finish_batch :: "health_monitor \<Rightarrow> health_monitor" where
  "finish_batch m =
     (case hm_batch m of
        None \<Rightarrow> m
      | Some b \<Rightarrow> if bt_queue b = [] then m\<lparr>hm_results := bt_results b, hm_running := False, hm_batch := None\<rparr> else m)"

section \<open>Lemmas\<close>

lemma build_jobs_plan:
  "j \<in> set (fst (build_jobs network now cfg ledger)) \<longleftrightarrow>
    (\<exists>r \<in> set (cfg_dns_records cfg). plan_record network now ledger r = Inr j)"
  by (force simp: build_jobs_def Let_def split: sum.splits)

lemma plan_record_Inr:
  assumes "plan_record network now ledger r = Inr j"
  shows "health_enabled r (job_target j)" and "rec_cname r \<noteq> None \<Longrightarrow> rec_health_external r"
    and "(job_key j, job_target j) = record_target r ledger" and "job_gated_member_ip j = gated_ip r (job_target j)"
    and "\<not> referenced_offline r ledger"
  using assms by (auto simp: plan_record_def Let_def split: prod.splits if_splits option.splits)

lemma record_target_cname: "rec_cname r \<noteq> None \<longleftrightarrow> (\<exists>n. snd (record_target r ledger) = Target_Name n)"
  by (auto simp: record_target_def split: option.splits list.splits)

section \<open>Properties\<close>

text \<open>
  (\<^verbatim>\<open>build_jobs\<close>) no probe leaves the private address ranges unless the record
  asks for it: a record without an explicit \<^verbatim>\<open>health_check = true\<close> is probed only at a
  private or loopback address, and the target of a CNAME only when \<^verbatim>\<open>health_external\<close> is set as well.
\<close>

theorem external_probe_opt_in:
  assumes "j \<in> set (fst (build_jobs network now cfg ledger))"
  shows "\<exists>r \<in> set (cfg_dns_records cfg). plan_record network now ledger r = Inr j \<and>
    (case job_target j of
       Target_Name n \<Rightarrow> rec_health_check r = Some True \<and> rec_health_external r
     | Target_Ip ip \<Rightarrow> rec_health_check r = Some True \<or> is_internal_ip ip)"
proof -
  from assms obtain r where r: "r \<in> set (cfg_dns_records cfg)" and p: "plan_record network now ledger r = Inr j"
    by (auto simp: build_jobs_plan)
  note P = plan_record_Inr [OF p]
  have t: "snd (record_target r ledger) = job_target j" using P(3) by (metis snd_conv)
  show ?thesis
  proof (intro bexI [OF _ r] conjI p, cases "job_target j")
    case (Target_Ip ip)
    then show "case job_target j of Target_Name n \<Rightarrow> rec_health_check r = Some True \<and> rec_health_external r
        | Target_Ip ip \<Rightarrow> rec_health_check r = Some True \<or> is_internal_ip ip"
      using P(1) by (auto simp: health_enabled_def split: option.splits)
  next
    case (Target_Name n)
    then have "rec_cname r \<noteq> None" using t record_target_cname by metis
    then show "case job_target j of Target_Name n \<Rightarrow> rec_health_check r = Some True \<and> rec_health_external r
        | Target_Ip ip \<Rightarrow> rec_health_check r = Some True \<or> is_internal_ip ip"
      using P(1,2) Target_Name by (auto simp: health_enabled_def split: option.splits)
  qed
qed

definition web_record :: dns_record_config where
  "web_record = \<lparr>rec_id = None, rec_name = ''web'', rec_ip = Some 0xC0A80005, rec_member = None, rec_cname = None,
     rec_under = Some Host, rec_scheme = Some ''http'', rec_port = Some 80, rec_health_check = None,
     rec_health_kind = None, rec_health_path = None, rec_health_expect_status = None, rec_health_external = False\<rparr>"

definition host_entry_at :: "ipv4 \<Rightarrow> ledger_entry" where
  "host_entry_at ip = \<lparr>le_name = Some ''host'', le_dns_name = Some ''host'', le_ip = ip, le_public_key = [1],
     le_app_version = None, le_platform = None, le_capabilities = [], le_member_id = None, le_can_invite = False,
     le_is_admin = False, le_invited_by = None, le_invite_status = None, le_invite_expires_at = None,
     le_online = True, le_is_host = True, le_endpoint = None, le_endpoint_age_secs = None, le_subnets = [],
     le_blocked = False, le_force_relay = False, le_acl_rule_id = None\<rparr>"

definition web_job :: job where
  "web_job = \<lparr>job_key = ''web.host'', job_fqdn = ''web.host.home.'' @ DNS_SUFFIX, job_target = Target_Ip 0xC0A80005,
     job_port = 80, job_kind = Health_Tcp, job_path = ''/'', job_expected_status = None,
     job_gated_member_ip = Some 0xC0A80005\<rparr>"

lemma web_internal: "is_internal_ip 0xC0A80005"
  by (simp add: is_internal_ip_def octets_def)

lemma host_label: "is_dns_label ''host''"
  by code_simp

lemma web_resolved: "resolve_records [web_record] [host_entry_at 0x0A000001] =
    [\<lparr>dr_id = None, dr_name = ''web.host'', dr_ip = 0xC0A80005, dr_scheme = Some ''http'', dr_port = Some 80,
      dr_health = None\<rparr>]"
proof -
  have "assign_labels [host_entry_at 0x0A000001] [] = ([''host''], [''host''])"
    by (simp add: assign_labels_def host_entry_at_def host_label uniquify_def Let_def)
  then show ?thesis
    by (simp add: resolve_records_def by_ip_def web_record_def resolve_record_def under_name_def lookup_member_def
        host_entry_at_def List.map_filter_def)
qed

lemma web_plan: "plan_record ''home'' 5 [host_entry_at 0x0A000001] web_record = Inr web_job"
  using web_internal web_resolved
  by (simp add: plan_record_def record_target_def health_enabled_def gated_ip_def web_job_def referenced_offline_def
      reference_offline_def web_record_def host_entry_at_def List.map_filter_def)

definition web_config :: config where
  "web_config = (sample_config [] empty_acl)\<lparr>cfg_dns_records := [web_record]\<rparr>"

lemma external_probe_opt_in_witness:
  "\<exists>r \<in> set (cfg_dns_records web_config). plan_record ''home'' 5 [host_entry_at 0x0A000001] r = Inr web_job \<and>
    (case job_target web_job of
       Target_Name n \<Rightarrow> rec_health_check r = Some True \<and> rec_health_external r
     | Target_Ip ip \<Rightarrow> rec_health_check r = Some True \<or> is_internal_ip ip)"
proof (rule external_probe_opt_in [where network = "''home''" and now = 5])
  show "web_job \<in> set (fst (build_jobs ''home'' 5 web_config [host_entry_at 0x0A000001]))"
    using web_plan by (simp add: build_jobs_plan web_config_def)
qed

text \<open>
  The gate compares the address that is probed with the addresses of the online members. For a record
  \<^verbatim>\<open>under\<close> a member that points elsewhere (a device of the member's LAN) the
  probed address is never a member's, so the service is never reported as unhealthy, although the member is online.
\<close>

lemma lan_service_never_unhealthy:
  assumes "plan_record network now ledger r = Inr j" and "rec_under r \<noteq> None" and "job_target j = Target_Ip ip"
    and "ip \<notin> set online"
  shows "sh_status (worker_result online j (health_check j outcome ms at)) \<noteq> Unhealthy"
proof -
  have "job_gated_member_ip j = Some ip" using plan_record_Inr(4) [OF assms(1)] assms(2,3) by (simp add: gated_ip_def)
  with assms(4) show ?thesis by (simp add: worker_result_def offline_health_def)
qed

lemma web_service_masked:
  "sh_status (health_check web_job Connection_Refused 3 5) = Unhealthy \<and>
   worker_result [0x0A000001] web_job (health_check web_job Connection_Refused 3 5) = offline_health (Some 5)"
  by (simp add: health_check_def worker_result_def web_job_def)

end
