(* ===== verification/Ledger.thy ===== *)
theory Ledger
  imports Relay Acl_Ops Chat_Groups Health
begin

text \<open>
  What the host tells its members: the ledger and the distribution that the supervisor builds every five
  seconds (\<^verbatim>\<open>crates/peercove-cli/src/commands/tunnel.rs\<close>) and the copy that each
  member receives (\<^verbatim>\<open>ledger_message_for\<close> in
  \<^verbatim>\<open>crates/peercove-cli/src/control.rs\<close>). System times are nanoseconds since the
  epoch; the product version and the name of the platform are those of the build, a \<open>build_info\<close>.
  The readings of one clock within a tick are one reading.
\<close>

section \<open>Data\<close>

record peer_stats =
  ps_public_key :: public_key
  ps_endpoint :: "socket_addr option"
  ps_last_handshake :: "nat option"
  ps_tx_bytes :: nat
  ps_rx_bytes :: nat
  ps_allowed_ips :: "ipv4net list"

record build_info =
  build_version :: string
  build_os :: string

record connection_info =
  ci_connection_id :: nat
  ci_app_version :: "string option"
  ci_capabilities :: "string list"
  ci_platform :: "string option"

type_synonym connections = "(ipv4, connection_info) hashmap"

record perm_group_info =
  pg_id :: string
  pg_name :: string
  pg_members :: "ipv4 list"

record distribution =
  dist_members :: "ledger_entry list"
  dist_dns_records :: "dns_record list"
  dist_cname_records :: "cname_record list"
  dist_network_display_name :: "string option"
  dist_deny :: "(ipv4 \<times> ipv4) list"
  dist_force_relay :: "(ipv4 \<times> ipv4 \<times> string) list"
  dist_perm_groups :: "perm_group_info list"

record received_distribution =
  rd_distribution :: distribution
  rd_received_at :: instant

definition ONLINE_THRESHOLD :: duration where "ONLINE_THRESHOLD = secs 180"
definition ENDPOINT_AGE_STEP_SECS :: nat where "ENDPOINT_AGE_STEP_SECS = 60"

definition CURRENT_CAPABILITIES :: "string list" where
  "CURRENT_CAPABILITIES = [''acl_v1'', ''acl_v2'', ''chat'', ''direct'', ''dns_cname'', ''dns_health'',
     ''dns_service_url'', ''file_transfer'', ''key_rotation'', ''shared_memo'', ''subnet_router'']"

section \<open>The ledger\<close>

text \<open>\<^verbatim>\<open>later.duration_since(earlier).ok()\<close>, and \<^verbatim>\<open>as_secs\<close>.\<close>

definition duration_since :: "nat \<Rightarrow> nat \<Rightarrow> duration option" where
  "duration_since later earlier = (if earlier \<le> later then Some (later - earlier) else None)"

definition as_secs :: "duration \<Rightarrow> nat" where
  "as_secs d = d div 1000000000"

definition host_entry :: "build_info \<Rightarrow> config \<Rightarrow> public_key \<Rightarrow> ledger_entry" where
  "host_entry build cfg host_key =
     (let itf = cfg_interface cfg
      in \<lparr>le_name = (case if_display_name itf of Some n \<Rightarrow> Some n | None \<Rightarrow> Some ''host''),
          le_dns_name = if_dns_name itf, le_ip = net_addr (if_address itf), le_public_key = host_key,
          le_app_version = Some (build_version build), le_platform = Some (build_os build),
          le_capabilities = CURRENT_CAPABILITIES, le_member_id = None, le_can_invite = False,
          le_is_admin = False, le_invited_by = None, le_invite_status = None, le_invite_expires_at = None,
          le_online = True, le_is_host = True, le_endpoint = None, le_endpoint_age_secs = None,
          le_subnets = [], le_blocked = False, le_force_relay = False, le_acl_rule_id = None\<rparr>)"

fun status_text :: "invite_state \<Rightarrow> string" where
  "status_text Legacy = ''legacy''"
| "status_text Pending = ''pending''"
| "status_text Joined = ''joined''"
| "status_text Awaiting_Approval = ''awaiting_approval''"
| "status_text Expired = ''expired''"
| "status_text Clock_Invalid = ''clock_invalid''"

definition stats_by_key :: "peer_stats list \<Rightarrow> (public_key, peer_stats) hashmap" where
  "stats_by_key stats = hm_collect (map (\<lambda>s. (ps_public_key s, s)) stats)"

definition handshake_age :: "nat \<Rightarrow> peer_stats option \<Rightarrow> duration option" where
  "handshake_age now s = Option.bind (Option.bind s ps_last_handshake) (duration_since now)"

definition invited_by :: "config \<Rightarrow> peer_config \<Rightarrow> string option" where
  "invited_by cfg peer =
     (case peer_invited_by_id peer of
        None \<Rightarrow> None
      | Some i \<Rightarrow>
          (case Option.bind (find (\<lambda>p. peer_invite_id p = Some i) (cfg_peers cfg)) peer_name of
             Some n \<Rightarrow> Some n
           | None \<Rightarrow> peer_invited_by_name peer))"

definition first_ip :: "peer_config \<Rightarrow> ipv4" where
  "first_ip peer = (case peer_allowed_ips peer of [] \<Rightarrow> 0 | n # _ \<Rightarrow> net_addr n)"

definition member_entry :: "config \<Rightarrow> peer_stats list \<Rightarrow> nat \<Rightarrow> nat \<Rightarrow> peer_config \<Rightarrow> ledger_entry" where
  "member_entry cfg stats now unix_secs peer =
     (let st = hm_get (stats_by_key stats) (peer_public_key peer);
          age = handshake_age now st;
          online = (case age of Some a \<Rightarrow> a \<le> ONLINE_THRESHOLD | None \<Rightarrow> False);
          endpoint = (if online then Option.bind st ps_endpoint else None)
      in \<lparr>le_name = peer_name peer, le_dns_name = peer_dns_name peer, le_ip = first_ip peer,
          le_public_key = peer_public_key peer, le_app_version = None, le_platform = None,
          le_capabilities = [], le_member_id = peer_invite_id peer,
          le_can_invite = (if_member_invites (cfg_interface cfg) \<and> (peer_can_invite peer \<or> peer_admin peer)),
          le_is_admin = peer_admin peer, le_invited_by = invited_by cfg peer,
          le_invite_status = Some (status_text (invite_state peer unix_secs)),
          le_invite_expires_at = peer_invite_expires_at peer, le_online = online, le_is_host = False,
          le_endpoint = endpoint,
          le_endpoint_age_secs = (if endpoint = None then None else
            map_option (\<lambda>a. as_secs a div ENDPOINT_AGE_STEP_SECS * ENDPOINT_AGE_STEP_SECS) age),
          le_subnets = peer_subnets peer, le_blocked = False, le_force_relay = False,
          le_acl_rule_id = None\<rparr>)"

definition build_ledger :: "build_info \<Rightarrow> config \<Rightarrow> public_key \<Rightarrow> peer_stats list \<Rightarrow> nat \<Rightarrow> ledger_entry list" where
  "build_ledger build cfg host_key stats now =
     host_entry build cfg host_key # map (member_entry cfg stats now (as_secs now)) (cfg_peers cfg)"

definition with_connection :: "connections \<Rightarrow> ledger_entry \<Rightarrow> ledger_entry" where
  "with_connection connected e =
     (case hm_get connected (le_ip e) of
        None \<Rightarrow> e
      | Some info \<Rightarrow> e\<lparr>le_app_version := ci_app_version info, le_capabilities := ci_capabilities info,
                      le_platform := ci_platform info\<rparr>)"

section \<open>Permission groups\<close>

definition build_perm_groups :: "config \<Rightarrow> ledger_entry list \<Rightarrow> perm_group_info list" where
  "build_perm_groups cfg ledger =
     (let ip_by_key = hm_collect (map (\<lambda>e. (le_public_key e, le_ip e)) ledger)
      in map (\<lambda>g. \<lparr>pg_id = group_id g, pg_name = group_name g,
                   pg_members = List.map_filter (hm_get ip_by_key) (group_members g)\<rparr>)
           (acl_groups (cfg_acl cfg)))"

definition perm_groups_from_chat_groups :: "group_info list \<Rightarrow> ledger_entry list \<Rightarrow> acl_group list" where
  "perm_groups_from_chat_groups chat ledger =
     (let key_by_ip = hm_collect (map (\<lambda>e. (le_ip e, le_public_key e)) ledger)
      in map (\<lambda>g. \<lparr>group_id = gi_id g, group_name = gi_name g,
                   group_members = List.map_filter (hm_get key_by_ip) (gi_members g)\<rparr>)
           (filter (\<lambda>g. is_dns_label (gi_id g)) chat))"

text \<open>The file that the import rewrites is read again by it: \<open>doc\<close> is its content.\<close>

definition migrate_chat_groups_to_perm_groups :: "ops_env \<Rightarrow> config \<Rightarrow> config \<Rightarrow> ledger_entry list
    \<Rightarrow> group_store \<Rightarrow> config" where
  "migrate_chat_groups_to_perm_groups env doc cfg ledger groups =
     (if acl_groups (cfg_acl cfg) \<noteq> [] then doc
      else let chat = all_groups groups
           in if chat = [] then doc
              else (case import_perm_groups env doc doc (perm_groups_from_chat_groups chat ledger) of
                      Inr (_, doc') \<Rightarrow> doc'
                    | Inl _ \<Rightarrow> doc))"

section \<open>What the supervisor distributes\<close>

definition member_ips :: "config \<Rightarrow> ipv4 list" where
  "member_ips cfg = List.map_filter (\<lambda>p. case peer_allowed_ips p of [] \<Rightarrow> None | n # _ \<Rightarrow> Some (net_addr n)) (cfg_peers cfg)"

definition relay_reason :: "ipnet_api \<Rightarrow> acl_policy \<Rightarrow> ipv4 \<Rightarrow> ipv4 \<Rightarrow> string" where
  "relay_reason api pol a b =
     (case find (\<lambda>r. (matches_ip api (rr_source r) a \<and> matches_ip api (rr_destination r) b)
                  \<or> (matches_ip api (rr_source r) b \<and> matches_ip api (rr_destination r) a)) (pol_rules pol) of
        Some r \<Rightarrow> rr_id r
      | None \<Rightarrow> ''acl-policy'')"

definition control_denied :: "ipnet_api \<Rightarrow> acl_policy \<Rightarrow> ipv4 \<Rightarrow> ipv4 \<Rightarrow> bool" where
  "control_denied api pol a b \<longleftrightarrow>
     dec_action (evaluate api pol a b 6 (Some CONTROL_PORT)) = Deny
     \<and> dec_action (evaluate api pol b a 6 (Some CONTROL_PORT)) = Deny"

fun denied_pairs :: "ipnet_api \<Rightarrow> acl_policy \<Rightarrow> ipv4 list \<Rightarrow> (ipv4 \<times> ipv4) list" where
  "denied_pairs api pol [] = []"
| "denied_pairs api pol (a # ips) =
     map (\<lambda>b. if a \<le> b then (a, b) else (b, a)) (filter (control_denied api pol a) ips)
     @ denied_pairs api pol ips"

text \<open>
  The distribution of one tick. Resolving the target of a CNAME asks the outside world; its answers are the function
  \<open>flatten\<close>.
\<close>

definition make_distribution :: "ipnet_api \<Rightarrow> (string \<Rightarrow> ipv4 option) \<Rightarrow> health_monitor \<Rightarrow> config
    \<Rightarrow> acl_policy \<Rightarrow> ledger_entry list \<Rightarrow> distribution" where
  "make_distribution api flatten health cfg pol members =
     (let dns_records = resolve_records (cfg_dns_records cfg) members;
          cname_records = map (\<lambda>r. r\<lparr>cr_resolved_ip := flatten (cr_target r)\<rparr>)
            (resolve_cnames (cfg_dns_records cfg) members);
          (dns_records, cname_records) = enrich health dns_records cname_records;
          ips = member_ips cfg
      in \<lparr>dist_members = members, dist_dns_records = dns_records, dist_cname_records = cname_records,
          dist_network_display_name = if_network_display_name (cfg_interface cfg),
          dist_deny = remdups_adj (sort (normalized_deny (cfg_acl cfg) @ denied_pairs api pol ips)),
          dist_force_relay = map (\<lambda>(a, b). (a, b, relay_reason api pol a b)) (force_relay_pairs api pol ips),
          dist_perm_groups = build_perm_groups cfg members\<rparr>)"

text \<open>A configuration that compiles is distributed; the supervisor panics on one that does not
  (\<^verbatim>\<open>expect("validated ACL policy")\<close>), which \<open>None\<close> stands for.\<close>

definition supervise_distribution :: "ipnet_api \<Rightarrow> build_info \<Rightarrow> (string \<Rightarrow> ipv4 option) \<Rightarrow> health_monitor
    \<Rightarrow> public_key \<Rightarrow> peer_stats list \<Rightarrow> connections \<Rightarrow> nat \<Rightarrow> config \<Rightarrow> distribution option" where
  "supervise_distribution api build flatten health host_key stats connected now cfg =
     (case compile api cfg of
        Inl _ \<Rightarrow> None
      | Inr pol \<Rightarrow> Some (make_distribution api flatten health cfg pol
          (map (with_connection connected) (build_ledger build cfg host_key stats now))))"

section \<open>The copy of a member\<close>

definition unordered :: "ipv4 \<Rightarrow> ipv4 \<Rightarrow> ipv4 \<Rightarrow> ipv4 \<Rightarrow> bool" where
  "unordered a b x y \<longleftrightarrow> (a = x \<and> b = y) \<or> (a = y \<and> b = x)"

definition entry_for :: "(ipv4 \<times> ipv4) list \<Rightarrow> (ipv4 \<times> ipv4 \<times> string) list \<Rightarrow> ipv4 \<Rightarrow> ledger_entry \<Rightarrow> ledger_entry" where
  "entry_for deny relay member e =
     (let e = (if list_ex (\<lambda>(a, b). unordered a b member (le_ip e)) deny
               then e\<lparr>le_endpoint := None, le_endpoint_age_secs := None, le_blocked := True\<rparr> else e)
      in case find (\<lambda>(a, b, _). unordered a b member (le_ip e)) relay of
           None \<Rightarrow> e
         | Some (_, _, rid) \<Rightarrow> e\<lparr>le_endpoint := None, le_endpoint_age_secs := None, le_force_relay := True,
                                le_acl_rule_id := Some rid\<rparr>)"

definition isolated_ips :: "ledger_entry list \<Rightarrow> ipv4 list" where
  "isolated_ips members = map le_ip (filter (\<lambda>e. le_invite_status e = Some ''awaiting_approval'') members)"

definition isolated_labels :: "ledger_entry list \<Rightarrow> string list" where
  "isolated_labels members =
     List.map_filter le_dns_name (filter (\<lambda>e. le_ip e \<in> set (isolated_ips members)) members)"

definition ledger_message_for :: "distribution \<Rightarrow> ipv4 \<Rightarrow> distribution" where
  "ledger_message_for dist member =
     (let isolated = isolated_ips (dist_members dist);
          labels = isolated_labels (dist_members dist);
          admin = list_ex (\<lambda>e. le_ip e = member \<and> le_is_admin e) (dist_members dist);
          members = (if admin then dist_members dist
                     else filter (\<lambda>e. le_ip e \<notin> set isolated) (dist_members dist))
      in dist\<lparr>dist_members := map (entry_for (dist_deny dist) (dist_force_relay dist) member) members,
              dist_dns_records := filter (\<lambda>r. dr_ip r \<notin> set isolated) (dist_dns_records dist),
              dist_cname_records := filter (\<lambda>r. \<not> list_ex (\<lambda>l. list_ex (\<lambda>p. p = l)
                 (split_on (CHR ''.'') (cr_name r))) labels) (dist_cname_records dist),
              dist_deny := [], dist_force_relay := []\<rparr>)"

text \<open>What of a ledger counts as a change worth a log line.\<close>

definition digest_entry :: "ledger_entry \<Rightarrow> ledger_entry" where
  "digest_entry e = e\<lparr>le_platform := None, le_member_id := None, le_can_invite := False, le_is_admin := False,
     le_invited_by := None, le_invite_status := None, le_invite_expires_at := None,
     le_endpoint := None, le_endpoint_age_secs := None\<rparr>"

definition ledger_digest :: "distribution \<Rightarrow> distribution" where
  "ledger_digest d = d\<lparr>dist_members := map digest_entry (dist_members d), dist_deny := [], dist_force_relay := []\<rparr>"

section \<open>Pairs of members\<close>

lemma two_positions:
  assumes "a \<in> set xs" and "b \<in> set xs" and "a \<noteq> b"
  shows "\<exists>i j. i < j \<and> j < length xs \<and> {xs ! i, xs ! j} = {a, b}"
proof -
  from assms(1,2) obtain i j where i: "i < length xs" "xs ! i = a" and j: "j < length xs" "xs ! j = b"
    by (auto simp: in_set_conv_nth)
  with assms(3) have "i \<noteq> j" by auto
  then consider "i < j" | "j < i" by linarith
  then show ?thesis
  proof cases
    case 1
    with i j show ?thesis by blast
  next
    case 2
    with i j show ?thesis by (metis insert_commute)
  qed
qed

lemma control_denied_sym: "control_denied api pol a b \<longleftrightarrow> control_denied api pol b a"
  by (auto simp: control_denied_def)

lemma forces_relay_sym: "forces_relay api pol a b \<longleftrightarrow> forces_relay api pol b a"
  by (auto simp: forces_relay_def list_ex_iff)

lemma denied_pairs_mem:
  assumes "i < j" and "j < length ips" and "control_denied api pol (ips ! i) (ips ! j)"
  shows "(ips ! i, ips ! j) \<in> set (denied_pairs api pol ips) \<or> (ips ! j, ips ! i) \<in> set (denied_pairs api pol ips)"
  using assms
proof (induction ips arbitrary: i j)
  case (Cons a ips)
  then obtain k where k: "j = Suc k" "k < length ips" by (cases j) auto
  show ?case
  proof (cases i)
    case 0
    then have "ips ! k \<in> set (filter (control_denied api pol a) ips)" using Cons.prems k by simp
    then show ?thesis using 0 k by (auto simp: image_iff)
  next
    case (Suc n)
    then show ?thesis using Cons.IH [of n k] Cons.prems k by auto
  qed
qed simp

lemma entry_for_endpoint:
  assumes "le_endpoint (entry_for deny relay m e) \<noteq> None"
  shows "\<forall>(a, b) \<in> set deny. \<not> unordered a b m (le_ip e)"
    and "\<forall>(a, b, i) \<in> set relay. \<not> unordered a b m (le_ip e)"
  using assms by (auto simp: entry_for_def Let_def list_ex_iff find_None_set split: option.splits if_splits)

lemma entry_for_same [simp]:
  "le_ip (entry_for deny relay m e) = le_ip e" "le_public_key (entry_for deny relay m e) = le_public_key e"
  "le_online (entry_for deny relay m e) = le_online e" "le_is_host (entry_for deny relay m e) = le_is_host e"
  "le_invite_status (entry_for deny relay m e) = le_invite_status e"
  by (auto simp: entry_for_def Let_def split: option.splits)

lemma unordered_doubleton: "unordered a b x y \<longleftrightarrow> {a, b} = {x, y}"
  by (auto simp: unordered_def doubleton_eq_iff)

lemma pair_not_listed:
  assumes "a \<in> set ips" and "b \<in> set ips" and "a \<noteq> b"
    and "\<forall>(x, y) \<in> set (denied_pairs api pol ips). \<not> unordered x y a b"
    and "\<forall>(x, y) \<in> set (force_relay_pairs api pol ips). \<not> unordered x y a b"
  shows "\<not> control_denied api pol a b" and "\<not> forces_relay api pol a b"
proof -
  from two_positions [OF assms(1-3)] obtain i j
    where ij: "i < j" "j < length ips" and p: "{ips ! i, ips ! j} = {a, b}" by blast
  have "\<not> control_denied api pol (ips ! i) (ips ! j)"
  proof
    assume "control_denied api pol (ips ! i) (ips ! j)"
    from denied_pairs_mem [OF ij this] assms(4) p show False
      by (auto simp: unordered_doubleton insert_commute [of "ips ! j"])
  qed
  with p control_denied_sym show "\<not> control_denied api pol a b" by (auto simp: doubleton_eq_iff)
  have "\<not> forces_relay api pol (ips ! i) (ips ! j)"
  proof
    assume "forces_relay api pol (ips ! i) (ips ! j)"
    with ij have "(ips ! i, ips ! j) \<in> set (force_relay_pairs api pol ips)"
      unfolding set_force_relay_pairs by blast
    with assms(5) p show False by (auto simp: unordered_doubleton)
  qed
  with p forces_relay_sym show "\<not> forces_relay api pol a b" by (auto simp: doubleton_eq_iff)
qed

text \<open>The rules a user writes do not borrow the prefix of the compiled deny pairs.\<close>

definition plain_rule_ids :: "config \<Rightarrow> bool" where
  "plain_rule_ids cfg \<longleftrightarrow>
     list_all (\<lambda>r. \<not> starts_with ''legacy-deny-'' (rule_id r)) (filter rule_enabled (acl_rules (cfg_acl cfg)))"

lemma unlisted_pair_unrestricted:
  assumes "ipnet api" and "compile api cfg = Inr pol" and "plain_rule_ids cfg"
    and "\<not> control_denied api pol a b" and "\<not> forces_relay api pol a b" and "{x, y} = {a, b}"
  shows "dec_action (evaluate api pol x y protocol port) = Allow"
proof -
  have none: "\<not> rule_applies api r x y protocol port" if r: "r \<in> set (pol_rules pol)" for r
  proof
    assume ap: "rule_applies api r x y protocol port"
    with assms(5,6) r have pre: "starts_with ''legacy-deny-'' (rr_id r)"
      by (auto simp: forces_relay_def list_ex_iff rule_applies_def doubleton_eq_iff)
    from compile_rules_origin [OF assms(2) r] show False
    proof (elim disjE bexE conjE)
      assume "r \<in> set (legacy_rules api cfg)"
      with ap legacy_applies_iff [OF assms(1), of cfg x y protocol port] obtain c d
        where cd: "is_denied (cfg_acl cfg) c d" "behind api cfg c x" "behind api cfg d y" by blast
      then have "control_denied api pol x y"
        using legacy_deny_both [OF assms(1,2)] by (simp add: control_denied_def)
      with assms(4,6) control_denied_sym show False by (auto simp: doubleton_eq_iff)
    next
      fix u
      assume "u \<in> set (acl_rules (cfg_acl cfg))" "rule_enabled u" "compile_rule cfg u = Inr r"
      with assms(3) pre compile_rule_Inr(1) show False by (auto simp: plain_rule_ids_def list_all_iff)
    qed
  qed
  have "find (\<lambda>r. rule_applies api r x y protocol port) (pol_rules pol) = None"
    using none by (simp add: find_None_set)
  moreover have "pol_default pol = Allow" using assms(5) by (cases "pol_default pol") (auto simp: forces_relay_def)
  ultimately show ?thesis by (simp add: evaluate_find)
qed

lemma distribution_members: "dist_members (make_distribution api flatten health cfg pol members) = members"
  by (simp add: make_distribution_def Let_def split: prod.splits)

lemma distribution_lists:
  shows "set (denied_pairs api pol (member_ips cfg)) \<subseteq> set (dist_deny (make_distribution api flatten health cfg pol members))"
    and "set (normalized_deny (cfg_acl cfg)) \<subseteq> set (dist_deny (make_distribution api flatten health cfg pol members))"
    and "(x, y) \<in> set (force_relay_pairs api pol (member_ips cfg)) \<Longrightarrow>
      \<exists>i. (x, y, i) \<in> set (dist_force_relay (make_distribution api flatten health cfg pol members))"
  by (auto simp: make_distribution_def Let_def split: prod.splits)

lemma ledger_message_member:
  assumes "e \<in> set (dist_members (ledger_message_for dist m))"
  shows "\<exists>e0 \<in> set (dist_members dist). e = entry_for (dist_deny dist) (dist_force_relay dist) m e0"
  using assms by (auto simp: ledger_message_for_def Let_def split: if_splits)

lemma advertised_endpoint_unrestricted:
  assumes "ipnet api" and "compile api cfg = Inr pol" and "plain_rule_ids cfg"
    and "e \<in> set (dist_members (ledger_message_for (make_distribution api flatten health cfg pol members) a))"
    and "le_endpoint e \<noteq> None" and "a \<in> set (member_ips cfg)" and "le_ip e \<in> set (member_ips cfg)" and "a \<noteq> le_ip e"
    and "{x, y} = {a, le_ip e}"
  shows "dec_action (evaluate api pol x y protocol port) = Allow"
proof -
  let ?d = "make_distribution api flatten health cfg pol members"
  from ledger_message_member [OF assms(4)] obtain e0
    where e: "e = entry_for (dist_deny ?d) (dist_force_relay ?d) a e0" by blast
  note clean = entry_for_endpoint [OF assms(5) [unfolded e]]
  have ip: "le_ip e = le_ip e0" by (simp add: e)
  have "\<forall>(x, y) \<in> set (denied_pairs api pol (member_ips cfg)). \<not> unordered x y a (le_ip e)"
    using clean(1) distribution_lists(1) unfolding ip by blast
  moreover have "\<forall>(x, y) \<in> set (force_relay_pairs api pol (member_ips cfg)). \<not> unordered x y a (le_ip e)"
    using clean(2) distribution_lists(3) unfolding ip by blast
  ultimately show ?thesis
    using unlisted_pair_unrestricted [OF assms(1-3) pair_not_listed [OF assms(6-8)] assms(9)] by blast
qed

end
