(* ===== verification/Direct.thy ===== *)
theory Direct
  imports Backend Ledger
begin

text \<open>
  Direct paths between members, \<^verbatim>\<open>crates/peercove-cli/src/direct.rs\<close>. A member
  adds the others of its ledger as probes with empty AllowedIPs, gives them their /32 once a handshake is seen,
  and falls back to the relay when it is not. The manager talks to the tunnel through the operations of
  \<open>Backend\<close>; the log lines, and the flags that only choose their level, are not modelled. Adding the age of an endpoint
  to the time since it was received panics beyond $2^{64}$ seconds, an error value here.
\<close>

section \<open>Data\<close>

definition MAX_ENDPOINT_AGE :: duration where "MAX_ENDPOINT_AGE = secs 300"
definition TRYING_TIMEOUT :: duration where "TRYING_TIMEOUT = secs 45"
definition HANDSHAKE_STALE :: duration where "HANDSHAKE_STALE = secs 180"
definition RETRY_INTERVAL :: duration where "RETRY_INTERVAL = secs 60"
definition DIRECT_KEEPALIVE :: u16 where "DIRECT_KEEPALIVE = 25"

datatype phase = Trying instant bool | Direct_Phase

record direct_state =
  ds_ip :: ipv4
  ds_endpoint :: socket_addr
  ds_phase :: phase

record cooldown =
  cd_endpoint :: socket_addr
  cd_at :: instant

datatype act = Act_Add | Rebind | Establish | Fail | Keep

record direct_manager =
  dm_self_key :: public_key
  dm_subnet :: ipv4net
  dm_states :: "(public_key, direct_state) hashmap"
  dm_cooldown :: "(public_key, cooldown) hashmap"

datatype panic = Duration_Overflow

type_synonym candidate = "public_key \<times> ipv4 \<times> socket_addr"

definition direct_new :: "public_key \<Rightarrow> ipv4net \<Rightarrow> direct_manager" where
  "direct_new self_key subnet = \<lparr>dm_self_key = self_key, dm_subnet = subnet, dm_states = [], dm_cooldown = []\<rparr>"

section \<open>Whom to try\<close>

definition duration_add :: "duration \<Rightarrow> duration \<Rightarrow> panic + duration" where
  "duration_add a b = (if a + b < secs (2 ^ 64) then Inr (a + b) else Inl Duration_Overflow)"

definition candidate_of :: "ipnet_api \<Rightarrow> direct_manager \<Rightarrow> duration \<Rightarrow> ledger_entry \<Rightarrow> panic + candidate option" where
  "candidate_of api m since_receipt e =
     (if le_is_host e \<or> \<not> le_online e \<or> le_blocked e \<or> le_force_relay e then Inr None
      else if le_public_key e = dm_self_key m then Inr None
      else (case le_endpoint e of
              None \<Rightarrow> Inr None
            | Some endpoint \<Rightarrow>
                and_then (duration_add (secs (case le_endpoint_age_secs e of Some a \<Rightarrow> a | None \<Rightarrow> 0)) since_receipt) (\<lambda>age.
                  if MAX_ENDPOINT_AGE < age then Inr None
                  else if \<not> net_contains api (dm_subnet m) (le_ip e) then Inr None
                  else Inr (Some (le_public_key e, le_ip e, endpoint)))))"

definition desired :: "ipnet_api \<Rightarrow> direct_manager \<Rightarrow> instant \<Rightarrow> received_distribution option
    \<Rightarrow> panic + (public_key, ipv4 \<times> socket_addr) hashmap" where
  "desired api m now received =
     (case received of
        None \<Rightarrow> Inr []
      | Some r \<Rightarrow>
          and_then (collect_result (candidate_of api m (now - rd_received_at r)) (dist_members (rd_distribution r)))
            (\<lambda>cs. Inr (hm_collect (List.map_filter (\<lambda>c. c) cs))))"

definition handshake_fresh :: "nat \<Rightarrow> peer_stats list \<Rightarrow> public_key \<Rightarrow> bool" where
  "handshake_fresh wall stats key =
     (case hm_get (hm_collect (map (\<lambda>s. (ps_public_key s,
          case Option.bind (ps_last_handshake s) (duration_since wall) of
            Some age \<Rightarrow> age \<le> HANDSHAKE_STALE | None \<Rightarrow> False)) stats)) key of
        Some b \<Rightarrow> b | None \<Rightarrow> False)"

section \<open>One tick\<close>

definition probe_spec :: "public_key \<Rightarrow> socket_addr \<Rightarrow> peer_spec" where
  "probe_spec key endpoint =
     \<lparr>spec_public_key = key, spec_endpoint = Some endpoint, spec_allowed_ips = [],
      spec_persistent_keepalive = Some DIRECT_KEEPALIVE, spec_preshared_key = None\<rparr>"

definition direct_spec :: "public_key \<Rightarrow> ipv4 \<Rightarrow> peer_spec" where
  "direct_spec key ip =
     \<lparr>spec_public_key = key, spec_endpoint = None, spec_allowed_ips = [host_net ip],
      spec_persistent_keepalive = Some DIRECT_KEEPALIVE, spec_preshared_key = None\<rparr>"

definition try_add :: "'b wg_ops \<Rightarrow> public_key \<Rightarrow> ipv4 \<Rightarrow> socket_addr \<Rightarrow> instant \<Rightarrow> bool
    \<Rightarrow> direct_manager \<times> 'b \<Rightarrow> direct_manager \<times> 'b" where
  "try_add wg key ip endpoint now quiet = (\<lambda>(m, b).
     let (ok, b') = wg_add_peer wg (probe_spec key endpoint) b
     in (if ok then m\<lparr>dm_states := hm_insert key
           \<lparr>ds_ip = ip, ds_endpoint = endpoint, ds_phase = Trying now quiet\<rparr> (dm_states m)\<rparr> else m, b'))"

definition drop_peer :: "'b wg_ops \<Rightarrow> public_key \<Rightarrow> direct_manager \<times> 'b \<Rightarrow> direct_manager \<times> 'b" where
  "drop_peer wg key = (\<lambda>(m, b).
     case hm_get (dm_states m) key of
       None \<Rightarrow> (m, b)
     | Some _ \<Rightarrow> (m\<lparr>dm_states := hm_remove key (dm_states m)\<rparr>, snd (wg_remove_peer wg key b)))"

definition forget_cooldown :: "public_key \<Rightarrow> direct_manager \<Rightarrow> direct_manager" where
  "forget_cooldown key m = m\<lparr>dm_cooldown := hm_remove key (dm_cooldown m)\<rparr>"

definition decide :: "instant \<Rightarrow> bool \<Rightarrow> socket_addr \<Rightarrow> direct_state option \<Rightarrow> cooldown option \<Rightarrow> act" where
  "decide now alive endpoint st cd =
     (case st of
        Some s \<Rightarrow>
          if ds_endpoint s \<noteq> endpoint then Rebind
          else (case ds_phase s of
                  Trying at q \<Rightarrow>
                    if alive then Establish
                    else if TRYING_TIMEOUT < now - at then Fail else Keep
                | Direct_Phase \<Rightarrow> if alive then Keep else Fail)
      | None \<Rightarrow>
          (case cd of
             Some c \<Rightarrow> if cd_endpoint c = endpoint \<and> now - cd_at c < RETRY_INTERVAL then Keep else Act_Add
           | None \<Rightarrow> Act_Add))"

definition perform :: "'b wg_ops \<Rightarrow> instant \<Rightarrow> act \<Rightarrow> candidate \<Rightarrow> direct_manager \<times> 'b \<Rightarrow> direct_manager \<times> 'b" where
  "perform wg now act = (\<lambda>(key, ip, endpoint) (m, b).
     case act of
       Act_Add \<Rightarrow>
         (let quiet = (case hm_get (dm_cooldown m) key of Some c \<Rightarrow> cd_endpoint c = endpoint | None \<Rightarrow> False)
          in try_add wg key ip endpoint now quiet (forget_cooldown key m, b))
     | Rebind \<Rightarrow> try_add wg key ip endpoint now False (drop_peer wg key (forget_cooldown key m, b))
     | Establish \<Rightarrow>
         (let (ok, b') = wg_add_peer wg (direct_spec key ip) b
          in if \<not> ok then (m, b')
             else (case hm_get (dm_states m) key of
                     Some s \<Rightarrow> (forget_cooldown key
                       (m\<lparr>dm_states := hm_insert key (s\<lparr>ds_phase := Direct_Phase\<rparr>) (dm_states m)\<rparr>), b')
                   | None \<Rightarrow> (forget_cooldown key m, b')))
     | Fail \<Rightarrow> drop_peer wg key
         (m\<lparr>dm_cooldown := hm_insert key \<lparr>cd_endpoint = endpoint, cd_at = now\<rparr> (dm_cooldown m)\<rparr>, b)
     | Keep \<Rightarrow> (m, b))"

definition visit :: "'b wg_ops \<Rightarrow> instant \<Rightarrow> (public_key \<Rightarrow> bool) \<Rightarrow> direct_manager \<times> 'b \<Rightarrow> candidate
    \<Rightarrow> direct_manager \<times> 'b" where
  "visit wg now alive mb c =
     (let (key, ip, endpoint) = c; m = fst mb
      in perform wg now (decide now (alive key) endpoint (hm_get (dm_states m) key) (hm_get (dm_cooldown m) key)) c mb)"

definition purge_cooldown :: "instant \<Rightarrow> direct_manager \<Rightarrow> direct_manager" where
  "purge_cooldown now m =
     m\<lparr>dm_cooldown := hm_retain (\<lambda>_ c. now - cd_at c < RETRY_INTERVAL * 2) (dm_cooldown m)\<rparr>"

definition drop_gone :: "'b wg_ops \<Rightarrow> (public_key, ipv4 \<times> socket_addr) hashmap
    \<Rightarrow> direct_manager \<times> 'b \<Rightarrow> direct_manager \<times> 'b" where
  "drop_gone wg wanted mb =
     foldl (\<lambda>mb key. drop_peer wg key mb) mb
       (filter (\<lambda>k. \<not> hm_contains wanted k) (hm_keys (dm_states (fst mb))))"

definition tick :: "ipnet_api \<Rightarrow> 'b wg_ops \<Rightarrow> instant \<Rightarrow> nat \<Rightarrow> bool \<Rightarrow> received_distribution option
    \<Rightarrow> peer_stats list \<Rightarrow> direct_manager \<times> 'b \<Rightarrow> panic + (direct_manager \<times> 'b)" where
  "tick api wg now wall enabled received stats = (\<lambda>(m, b).
     let m = purge_cooldown now m
     in and_then (if enabled then desired api m now received else Inr []) (\<lambda>wanted.
          Inr (foldl (visit wg now (handshake_fresh wall stats)) (drop_gone wg wanted (m, b)) wanted)))"

datatype direct_status = Status_Trying | Status_Direct

definition direct_routes :: "direct_manager \<Rightarrow> (ipv4, direct_status) hashmap" where
  "direct_routes m =
     hm_collect (List.map_filter (\<lambda>s.
       case ds_phase s of
         Trying _ q \<Rightarrow> if q then None else Some (ds_ip s, Status_Trying)
       | Direct_Phase \<Rightarrow> Some (ds_ip s, Status_Direct)) (hm_values (dm_states m)))"

section \<open>Each peer is a machine of its own\<close>

text \<open>
  The specification of a tick: what the manager and the tunnel hold for one key (the state, the
  cooldown and the AllowedIPs) develops by itself, whatever the other keys and the order in which the hash
  map yields them.
\<close>

type_synonym link = "direct_state option \<times> cooldown option \<times> ipv4net list option"

definition link_visit :: "instant \<Rightarrow> bool \<Rightarrow> ipv4 \<Rightarrow> socket_addr \<Rightarrow> link \<Rightarrow> link" where
  "link_visit now alive ip endpoint = (\<lambda>(st, cd, tb).
     case decide now alive endpoint st cd of
       Act_Add \<Rightarrow> (Some \<lparr>ds_ip = ip, ds_endpoint = endpoint,
           ds_phase = Trying now (case cd of Some c \<Rightarrow> cd_endpoint c = endpoint | None \<Rightarrow> False)\<rparr>, None, Some [])
     | Rebind \<Rightarrow> (Some \<lparr>ds_ip = ip, ds_endpoint = endpoint, ds_phase = Trying now False\<rparr>, None, Some [])
     | Establish \<Rightarrow> (map_option (\<lambda>s. s\<lparr>ds_phase := Direct_Phase\<rparr>) st, None, Some [host_net ip])
     | Fail \<Rightarrow> (None, Some \<lparr>cd_endpoint = endpoint, cd_at = now\<rparr>, None)
     | Keep \<Rightarrow> (st, cd, tb))"

definition link_gone :: "link \<Rightarrow> link" where
  "link_gone = (\<lambda>(st, cd, tb). (None, cd, if st = None then tb else None))"

definition link_purge :: "instant \<Rightarrow> link \<Rightarrow> link" where
  "link_purge now = (\<lambda>(st, cd, tb).
     (st, case cd of Some c \<Rightarrow> if now - cd_at c < RETRY_INTERVAL * 2 then Some c else None | None \<Rightarrow> None, tb))"

definition link_tick :: "instant \<Rightarrow> bool \<Rightarrow> (ipv4 \<times> socket_addr) option \<Rightarrow> link \<Rightarrow> link" where
  "link_tick now alive wanted l =
     (case wanted of
        None \<Rightarrow> link_gone (link_purge now l)
      | Some (ip, endpoint) \<Rightarrow> link_visit now alive ip endpoint (link_purge now l))"

definition view :: "('b \<Rightarrow> allowed_table) \<Rightarrow> public_key \<Rightarrow> direct_manager \<times> 'b \<Rightarrow> link" where
  "view ips key = (\<lambda>(m, b). (hm_get (dm_states m) key, hm_get (dm_cooldown m) key, ips b key))"

definition manager_ok :: "direct_manager \<Rightarrow> bool" where
  "manager_ok m \<longleftrightarrow> hm_ok (dm_cooldown m)"

lemmas link_defs = link_visit_def link_gone_def link_purge_def link_tick_def

lemma decide_cases:
  "decide now alive endpoint st cd = Fail \<Longrightarrow> st \<noteq> None"
  "decide now alive endpoint st cd = Establish \<Longrightarrow> st \<noteq> None"
  "decide now alive endpoint st cd = Rebind \<Longrightarrow> st \<noteq> None"
  by (auto simp: decide_def split: option.splits if_splits phase.splits)

context reliable_backend
begin

definition good :: "direct_manager \<times> 'a \<Rightarrow> bool" where
  "good mb \<longleftrightarrow> manager_ok (fst mb) \<and> ok (snd mb)"

lemma try_add_view:
  assumes "good (m, b)"
  shows "good (try_add wg key ip endpoint now quiet (m, b))"
    and "view ips k (try_add wg key ip endpoint now quiet (m, b)) =
      (if k = key then (Some \<lparr>ds_ip = ip, ds_endpoint = endpoint, ds_phase = Trying now quiet\<rparr>,
          hm_get (dm_cooldown m) k, Some []) else view ips k (m, b))"
  using assms add_ok [of b "probe_spec key endpoint"] add_succeeds [of b "probe_spec key endpoint"]
  by (auto simp: good_def try_add_def view_def manager_ok_def probe_spec_def hm.get_insert split: prod.splits)

lemma drop_peer_view:
  assumes "good (m, b)"
  shows "good (drop_peer wg key (m, b))"
    and "view ips k (drop_peer wg key (m, b)) = (if k = key then link_gone (view ips k (m, b)) else view ips k (m, b))"
  using assms remove_ok [of b key]
  by (auto simp: good_def drop_peer_def view_def manager_ok_def link_gone_def hm.get_remove split: option.splits)

lemma forget_view:
  assumes "good (m, b)"
  shows "good (forget_cooldown key m, b)"
    and "view ips k (forget_cooldown key m, b) =
      (hm_get (dm_states m) k, if k = key then None else hm_get (dm_cooldown m) k, ips b k)"
  using assms by (simp_all add: good_def manager_ok_def forget_cooldown_def view_def hm.get_remove hm.ok_remove)

lemma view_fst: "view ips k (m, b) = (st, cd, tb) \<longleftrightarrow> hm_get (dm_states m) k = st \<and> hm_get (dm_cooldown m) k = cd \<and> ips b k = tb"
  by (auto simp: view_def)

lemma perform_add:
  assumes "good (m, b)"
  shows "good (perform wg now Act_Add (key, ip, endpoint) (m, b))"
    and "view ips k (perform wg now Act_Add (key, ip, endpoint) (m, b)) =
      (if k = key then (Some \<lparr>ds_ip = ip, ds_endpoint = endpoint, ds_phase = Trying now
          (case hm_get (dm_cooldown m) key of Some c \<Rightarrow> cd_endpoint c = endpoint | None \<Rightarrow> False)\<rparr>, None, Some [])
       else view ips k (m, b))"
  using try_add_view [OF forget_view(1) [OF assms]] forget_view(2) [OF assms]
  by (simp_all add: perform_def view_def forget_cooldown_def hm.get_remove)

lemma perform_rebind:
  assumes "good (m, b)" and "hm_get (dm_states m) key = Some s"
  shows "good (perform wg now Rebind (key, ip, endpoint) (m, b))"
    and "view ips k (perform wg now Rebind (key, ip, endpoint) (m, b)) =
      (if k = key then (Some \<lparr>ds_ip = ip, ds_endpoint = endpoint, ds_phase = Trying now False\<rparr>, None, Some [])
       else view ips k (m, b))"
proof -
  note forgot = forget_view [OF assms(1), where key = key]
  obtain m' b' where d: "drop_peer wg key (forget_cooldown key m, b) = (m', b')" by force
  note dropped = drop_peer_view [OF forgot(1), where key = key, unfolded d]
  note added = try_add_view [OF dropped(1), where key = key and ip = ip and endpoint = endpoint and now = now and quiet = False]
  have p: "perform wg now Rebind (key, ip, endpoint) (m, b) = try_add wg key ip endpoint now False (m', b')"
    by (simp add: perform_def d)
  show "good (perform wg now Rebind (key, ip, endpoint) (m, b))" unfolding p by (rule added(1))
  have "hm_get (dm_cooldown m') key = None"
    using dropped(2) [of key] forgot(2) [of key] by (simp add: view_def link_gone_def d)
  then show "view ips k (perform wg now Rebind (key, ip, endpoint) (m, b)) =
      (if k = key then (Some \<lparr>ds_ip = ip, ds_endpoint = endpoint, ds_phase = Trying now False\<rparr>, None, Some [])
       else view ips k (m, b))"
    unfolding p added(2) using dropped(2) [of k] forgot(2) [of k] by (simp add: view_def d)
qed

lemma perform_establish:
  assumes "good (m, b)" and "hm_get (dm_states m) key = Some s"
  shows "good (perform wg now Establish (key, ip, endpoint) (m, b))"
    and "view ips k (perform wg now Establish (key, ip, endpoint) (m, b)) =
      (if k = key then (Some (s\<lparr>ds_phase := Direct_Phase\<rparr>), None, Some [host_net ip]) else view ips k (m, b))"
  using assms add_ok [of b "direct_spec key ip"] add_succeeds [of b "direct_spec key ip"]
  by (auto simp: good_def perform_def view_def manager_ok_def direct_spec_def forget_cooldown_def hm.get_insert
      hm.get_remove hm.ok_remove split: prod.splits)

lemma perform_fail:
  assumes "good (m, b)" and "hm_get (dm_states m) key = Some s"
  shows "good (perform wg now Fail (key, ip, endpoint) (m, b))"
    and "view ips k (perform wg now Fail (key, ip, endpoint) (m, b)) =
      (if k = key then (None, Some \<lparr>cd_endpoint = endpoint, cd_at = now\<rparr>, None) else view ips k (m, b))"
proof -
  let ?m = "m\<lparr>dm_cooldown := hm_insert key \<lparr>cd_endpoint = endpoint, cd_at = now\<rparr> (dm_cooldown m)\<rparr>"
  have g: "good (?m, b)" using assms(1) by (simp add: good_def manager_ok_def hm.ok_insert)
  show "good (perform wg now Fail (key, ip, endpoint) (m, b))"
    using drop_peer_view(1) [OF g, of key] by (simp add: perform_def)
  show "view ips k (perform wg now Fail (key, ip, endpoint) (m, b)) =
      (if k = key then (None, Some \<lparr>cd_endpoint = endpoint, cd_at = now\<rparr>, None) else view ips k (m, b))"
    using drop_peer_view(2) [OF g, of k key] assms(2)
    by (simp add: perform_def view_def link_gone_def hm.get_insert)
qed

lemma visit_view:
  assumes "good mb"
  shows "good (visit wg now alive mb (key, ip, endpoint))"
    and "view ips k (visit wg now alive mb (key, ip, endpoint)) =
      (if k = key then link_visit now (alive key) ip endpoint (view ips k mb) else view ips k mb)"
proof -
  obtain m b where mb: "mb = (m, b)" by force
  let ?st = "hm_get (dm_states m) key" and ?cd = "hm_get (dm_cooldown m) key"
  let ?act = "decide now (alive key) endpoint ?st ?cd"
  have v: "visit wg now alive mb (key, ip, endpoint) = perform wg now ?act (key, ip, endpoint) (m, b)"
    by (simp add: visit_def mb)
  have g: "good (m, b)" using assms mb by simp
  have "good (perform wg now ?act (key, ip, endpoint) (m, b)) \<and>
      view ips k (perform wg now ?act (key, ip, endpoint) (m, b)) =
        (if k = key then link_visit now (alive key) ip endpoint (view ips k (m, b)) else view ips k (m, b))"
  proof (cases ?act)
    case Act_Add
    with perform_add [OF g] show ?thesis by (simp add: link_visit_def view_def)
  next
    case Rebind
    with decide_cases obtain s where s: "?st = Some s" by blast
    with Rebind perform_rebind [OF g s] show ?thesis by (simp add: link_visit_def view_def)
  next
    case Establish
    with decide_cases obtain s where s: "?st = Some s" by blast
    with Establish perform_establish [OF g s] show ?thesis by (simp add: link_visit_def view_def)
  next
    case Fail
    with decide_cases obtain s where s: "?st = Some s" by blast
    with Fail perform_fail [OF g s] show ?thesis by (simp add: link_visit_def view_def)
  next
    case Keep
    then show ?thesis using g by (simp add: perform_def link_visit_def view_def)
  qed
  then show "good (visit wg now alive mb (key, ip, endpoint))"
    and "view ips k (visit wg now alive mb (key, ip, endpoint)) =
      (if k = key then link_visit now (alive key) ip endpoint (view ips k mb) else view ips k mb)"
    unfolding v by (simp_all add: mb)
qed

lemma visit_all:
  assumes "good mb" and "distinct (map fst wanted)"
  shows "good (foldl (visit wg now alive) mb wanted) \<and>
    view ips k (foldl (visit wg now alive) mb wanted) =
      (case map_of wanted k of None \<Rightarrow> view ips k mb
       | Some (ip, endpoint) \<Rightarrow> link_visit now (alive k) ip endpoint (view ips k mb))"
  using assms
proof (induction wanted arbitrary: mb)
  case (Cons c wanted)
  obtain key ip endpoint where c: "c = (key, ip, endpoint)" by (cases c)
  note v = visit_view [OF Cons.prems(1), where now = now and alive = alive and key = key and ip = ip and endpoint = endpoint]
  have IH: "good (foldl (visit wg now alive) (visit wg now alive mb c) wanted) \<and>
    view ips k (foldl (visit wg now alive) (visit wg now alive mb c) wanted) =
      (case map_of wanted k of None \<Rightarrow> view ips k (visit wg now alive mb c)
       | Some (ip, endpoint) \<Rightarrow> link_visit now (alive k) ip endpoint (view ips k (visit wg now alive mb c)))"
    using Cons.IH [of "visit wg now alive mb c"] v(1) Cons.prems(2) c by simp
  have "key \<notin> dom (map_of wanted)" using Cons.prems(2) c by (simp add: dom_map_of_conv_image_fst)
  with IH v(2) [of k] c show ?case by (auto split: option.splits)
qed simp

lemma drop_all:
  assumes "good mb"
  shows "good (foldl (\<lambda>mb key. drop_peer wg key mb) mb ks) \<and>
    view ips k (foldl (\<lambda>mb key. drop_peer wg key mb) mb ks) =
      (if k \<in> set ks then link_gone (view ips k mb) else view ips k mb)"
  using assms
proof (induction ks arbitrary: mb)
  case (Cons key ks)
  obtain m b where mb: "mb = (m, b)" by force
  note d = drop_peer_view [OF Cons.prems [unfolded mb], where key = key]
  have "link_gone (link_gone l) = link_gone l" for l by (cases l) (simp add: link_gone_def)
  with Cons.IH [OF d(1)] d(2) [where k = k] show ?case by (cases "k = key") (simp_all add: mb)
qed simp

lemma tick_refines:
  assumes "good (m, b)" and "tick api wg now wall enabled received stats (m, b) = Inr mb'"
  shows "\<exists>wanted. (if enabled then desired api m now received else Inr []) = Inr wanted \<and> good mb' \<and>
    (\<forall>k. view ips k mb' = link_tick now (handshake_fresh wall stats k) (hm_get wanted k) (view ips k (m, b)))"
proof -
  let ?m = "purge_cooldown now m" and ?alive = "handshake_fresh wall stats"
  have "candidate_of api ?m = candidate_of api m"
    unfolding candidate_of_def purge_cooldown_def by (simp cong: option.case_cong if_cong)
  then have same: "desired api ?m now received = desired api m now received" by (simp add: desired_def cong: option.case_cong)
  from assms(2) obtain wanted where w: "(if enabled then desired api m now received else Inr []) = Inr wanted"
    and mb': "mb' = foldl (visit wg now ?alive) (drop_gone wg wanted (?m, b)) wanted"
    by (auto simp: tick_def Let_def same cong: if_cong)
  have d: "distinct (map fst wanted)"
    using w by (auto simp: desired_def hm_collect_ok [unfolded hm_ok_def] split: if_splits option.splits)
  have g: "good (?m, b)" using assms(1) by (simp add: good_def manager_ok_def purge_cooldown_def hm.ok_retain)
  have p: "view ips k (?m, b) = link_purge now (view ips k (m, b))" for k
    using assms(1) by (simp add: view_def link_purge_def purge_cooldown_def good_def manager_ok_def hm.get_retain
        split: option.splits)
  let ?gone = "filter (\<lambda>k. \<not> hm_contains wanted k) (hm_keys (dm_states ?m))"
  have gone: "view ips k (drop_gone wg wanted (?m, b)) =
      (if hm_get wanted k = None then link_gone (link_purge now (view ips k (m, b))) else link_purge now (view ips k (m, b)))" for k
  proof -
    have "k \<in> set ?gone \<longleftrightarrow> hm_get wanted k = None \<and> hm_get (dm_states ?m) k \<noteq> None"
      by (cases "hm_get wanted k") (auto simp: hm_contains_def hm_keys_get)
    moreover have "hm_get (dm_states ?m) k = None \<Longrightarrow> link_gone (view ips k (?m, b)) = view ips k (?m, b)"
      by (simp add: view_def link_gone_def)
    ultimately show ?thesis
      using drop_all [OF g, of ?gone k] p [of k] by (auto simp: drop_gone_def)
  qed
  have gg: "good (drop_gone wg wanted (?m, b))" using drop_all [OF g] by (simp add: drop_gone_def)
  have "good mb'" using visit_all [OF gg d] by (simp add: mb')
  moreover have "view ips k mb' = link_tick now (?alive k) (hm_get wanted k) (view ips k (m, b))" for k
    using visit_all [OF gg d, of now ?alive k] gone [of k]
    by (simp add: mb' link_tick_def hm_get_def split: option.splits)
  ultimately show ?thesis using w by blast
qed

end

section \<open>Who is tried\<close>

definition offered :: "ipnet_api \<Rightarrow> direct_manager \<Rightarrow> ledger_entry \<Rightarrow> bool" where
  "offered api m e \<longleftrightarrow>
     \<not> le_is_host e \<and> le_online e \<and> \<not> le_blocked e \<and> \<not> le_force_relay e
     \<and> le_public_key e \<noteq> dm_self_key m \<and> le_endpoint e \<noteq> None"

definition endpoint_age :: "instant \<Rightarrow> received_distribution \<Rightarrow> ledger_entry \<Rightarrow> duration" where
  "endpoint_age now r e = secs (case le_endpoint_age_secs e of Some a \<Rightarrow> a | None \<Rightarrow> 0) + (now - rd_received_at r)"

definition eligible :: "ipnet_api \<Rightarrow> direct_manager \<Rightarrow> instant \<Rightarrow> received_distribution \<Rightarrow> ledger_entry \<Rightarrow> bool" where
  "eligible api m now r e \<longleftrightarrow> e \<in> set (dist_members (rd_distribution r)) \<and> offered api m e
     \<and> endpoint_age now r e \<le> MAX_ENDPOINT_AGE \<and> net_contains api (dm_subnet m) (le_ip e)"

lemma candidate_cases:
  "candidate_of api m (now - rd_received_at r) e =
    (if \<not> offered api m e then Inr None
     else if secs (2 ^ 64) \<le> endpoint_age now r e then Inl Duration_Overflow
     else if MAX_ENDPOINT_AGE < endpoint_age now r e \<or> \<not> net_contains api (dm_subnet m) (le_ip e) then Inr None
     else Inr (Some (le_public_key e, le_ip e, the (le_endpoint e))))"
  by (cases "le_endpoint e")
    (auto simp: candidate_of_def offered_def endpoint_age_def duration_add_def split: option.splits)

lemma candidate_Some:
  assumes "candidate_of api m (now - rd_received_at r) e = Inr (Some c)" and "e \<in> set (dist_members (rd_distribution r))"
  shows "eligible api m now r e \<and> c = (le_public_key e, le_ip e, the (le_endpoint e))"
  using assms by (auto simp: candidate_cases eligible_def split: if_splits)

lemma desired_get:
  assumes "desired api m now received = Inr wanted" and "hm_get wanted k = Some (ip, endpoint)"
  shows "\<exists>r e. received = Some r \<and> eligible api m now r e \<and> le_public_key e = k \<and> le_ip e = ip
    \<and> le_endpoint e = Some endpoint"
proof -
  from assms obtain r cs where r: "received = Some r"
    and cs: "collect_result (candidate_of api m (now - rd_received_at r)) (dist_members (rd_distribution r)) = Inr cs"
    and w: "wanted = hm_collect (List.map_filter (\<lambda>c. c) cs)"
    by (auto simp: desired_def hm.get_empty split: option.splits)
  from assms(2) have "(k, ip, endpoint) \<in> set (List.map_filter (\<lambda>c. c) cs)"
    unfolding w hm_collect_get by (metis map_of_SomeD set_rev)
  then have "Some (k, ip, endpoint) \<in> set cs" by (auto simp: set_map_filter)
  with collect_result_member [OF cs] obtain e where e: "e \<in> set (dist_members (rd_distribution r))"
    and c: "candidate_of api m (now - rd_received_at r) e = Inr (Some (k, ip, endpoint))" by blast
  from candidate_Some [OF c e] r show ?thesis
    by (auto simp: eligible_def offered_def intro!: exI [of _ e])
qed

lemma collect_result_Inl:
  "collect_result f xs = Inl p \<Longrightarrow> \<exists>x \<in> set xs. f x = Inl p"
  by (induction xs) (auto split: sum.splits)

lemma collect_result_total:
  "(\<exists>ys. collect_result f xs = Inr ys) \<longleftrightarrow> (\<forall>x \<in> set xs. \<exists>y. f x = Inr y)"
  by (induction xs) (auto split: sum.splits)

lemma desired_panics:
  "(\<exists>p. desired api m now received = Inl p) \<longleftrightarrow>
    (\<exists>r e. received = Some r \<and> e \<in> set (dist_members (rd_distribution r)) \<and> offered api m e
      \<and> secs (2 ^ 64) \<le> endpoint_age now r e)"
proof (cases received)
  case None
  then show ?thesis by (simp add: desired_def)
next
  case (Some r)
  let ?f = "candidate_of api m (now - rd_received_at r)"
  have "(\<exists>p. desired api m now received = Inl p) \<longleftrightarrow>
      \<not> (\<exists>ys. collect_result ?f (dist_members (rd_distribution r)) = Inr ys)"
    by (cases "collect_result ?f (dist_members (rd_distribution r))") (auto simp: desired_def Some)
  also have "\<dots> \<longleftrightarrow> (\<exists>e \<in> set (dist_members (rd_distribution r)). \<forall>y. ?f e \<noteq> Inr y)"
    unfolding collect_result_total by blast
  finally show ?thesis using Some by (auto simp: candidate_cases)
qed

section \<open>Invariant of a link\<close>

text \<open>
  For a key with a fixed address: the AllowedIPs in the tunnel are empty while the peer is tried, its /32
  once it is direct, and the tunnel has no such peer otherwise.
\<close>

definition link_inv :: "ipv4 \<Rightarrow> link \<Rightarrow> bool" where
  "link_inv ip = (\<lambda>(st, cd, tb).
     case st of
       None \<Rightarrow> tb = None
     | Some s \<Rightarrow> ds_ip s = ip \<and> tb = Some (case ds_phase s of Trying at q \<Rightarrow> [] | Direct_Phase \<Rightarrow> [host_net ip]))"

lemma link_tick_inv:
  assumes "link_inv ip l" and "wanted = None \<or> (\<exists>endpoint. wanted = Some (ip, endpoint))"
  shows "link_inv ip (link_tick now alive wanted l)"
proof -
  obtain st cd tb where l: "l = (st, cd, tb)" by (cases l)
  from assms(2) show ?thesis
  proof (elim disjE exE)
    assume "wanted = None"
    with assms(1) show ?thesis by (auto simp: l link_defs link_inv_def split: option.splits)
  next
    fix endpoint
    assume "wanted = Some (ip, endpoint)"
    with assms(1) show ?thesis
      by (auto simp: l link_defs link_inv_def decide_def split: option.splits phase.splits act.splits if_splits)
  qed
qed

lemma link_tick_direct:
  assumes "link_inv ip l" and "wanted = None \<or> (\<exists>endpoint. wanted = Some (ip, endpoint))"
    and "link_tick now alive wanted l = (st, cd, Some nets)"
  shows "nets = [] \<or> (nets = [host_net ip] \<and> wanted \<noteq> None \<and> alive)"
proof -
  obtain st0 cd0 tb0 where l: "l = (st0, cd0, tb0)" by (cases l)
  from assms(2) show ?thesis
  proof (elim disjE exE)
    assume "wanted = None"
    with assms(1,3) show ?thesis by (auto simp: l link_defs link_inv_def split: option.splits if_splits)
  next
    fix endpoint
    assume "wanted = Some (ip, endpoint)"
    with assms(1,3) show ?thesis
      by (auto simp: l link_defs link_inv_def decide_def split: option.splits phase.splits act.splits if_splits)
  qed
qed

lemma link_tick_untouched:
  "link_tick now alive None (None, cd, tb) = (None, cd', tb') \<Longrightarrow> tb' = tb"
  by (auto simp: link_defs)

section \<open>Runs\<close>

record tick_input =
  ti_now :: instant
  ti_wall :: nat
  ti_enabled :: bool
  ti_received :: "received_distribution option"
  ti_stats :: "peer_stats list"

definition tick_of :: "ipnet_api \<Rightarrow> 'b wg_ops \<Rightarrow> tick_input \<Rightarrow> direct_manager \<times> 'b \<Rightarrow> panic + (direct_manager \<times> 'b)" where
  "tick_of api wg i = tick api wg (ti_now i) (ti_wall i) (ti_enabled i) (ti_received i) (ti_stats i)"

definition direct_run :: "ipnet_api \<Rightarrow> 'b wg_ops \<Rightarrow> tick_input list \<Rightarrow> direct_manager \<times> 'b
    \<Rightarrow> panic + (direct_manager \<times> 'b)" where
  "direct_run api wg ins mb = foldl (\<lambda>r i. and_then r (tick_of api wg i)) (Inr mb) ins"

text \<open>The ledgers of the run: every key keeps its address, and the key of the host is the host's.\<close>

definition stable_ledgers :: "(public_key \<Rightarrow> ipv4) \<Rightarrow> public_key \<Rightarrow> tick_input list \<Rightarrow> bool" where
  "stable_ledgers addr host ins \<longleftrightarrow>
     list_all (\<lambda>i. case ti_received i of
         None \<Rightarrow> True
       | Some r \<Rightarrow> list_all (\<lambda>e. le_ip e = addr (le_public_key e) \<and> (le_public_key e = host \<longrightarrow> le_is_host e))
           (dist_members (rd_distribution r))) ins"

lemma stable_ledgers_entry:
  assumes "stable_ledgers addr host ins" and "i \<in> set ins" and "ti_received i = Some r"
    and "e \<in> set (dist_members (rd_distribution r))"
  shows "le_ip e = addr (le_public_key e)" and "le_public_key e = host \<Longrightarrow> le_is_host e"
  using assms by (auto simp: stable_ledgers_def list_all_iff)

lemma desired_same_manager:
  "dm_self_key m = dm_self_key m' \<Longrightarrow> dm_subnet m = dm_subnet m' \<Longrightarrow> desired api m now received = desired api m' now received"
  unfolding desired_def candidate_of_def by (simp cong: option.case_cong if_cong)

definition same_manager :: "direct_manager \<Rightarrow> direct_manager \<Rightarrow> bool" where
  "same_manager m m' \<longleftrightarrow> dm_self_key m = dm_self_key m' \<and> dm_subnet m = dm_subnet m'"

lemma visit_same: "same_manager m0 (fst mb) \<Longrightarrow> same_manager m0 (fst (visit wg now alive mb c))"
  by (cases c; cases mb) (auto simp: visit_def perform_def try_add_def drop_peer_def forget_cooldown_def same_manager_def
      split: act.splits option.splits prod.splits)

lemma tick_same:
  assumes "tick api wg now wall enabled received stats (m, b) = Inr (m', b')"
  shows "same_manager m m'"
proof -
  have visits: "same_manager m0 (fst mb) \<Longrightarrow> same_manager m0 (fst (foldl (visit wg now alive) mb cs))" for m0 mb cs alive
    by (induction cs arbitrary: mb) (simp_all add: visit_same)
  have drops: "same_manager m0 (fst mb) \<Longrightarrow> same_manager m0 (fst (foldl (\<lambda>mb key. drop_peer wg key mb) mb ks))" for m0 mb ks
    by (induction ks arbitrary: mb) (auto simp: drop_peer_def same_manager_def split: option.splits prod.splits)
  have "same_manager m (purge_cooldown now m)" by (simp add: same_manager_def purge_cooldown_def)
  then have "same_manager m (fst (drop_gone wg wanted (purge_cooldown now m, b)))" for wanted
    using drops [of m "(purge_cooldown now m, b)"] by (simp add: drop_gone_def)
  from visits [OF this] assms show ?thesis by (auto simp: tick_def Let_def) (metis fst_conv)
qed

context reliable_backend
begin

text \<open>What a tick leaves for each key, when the ledger agrees with the addresses.\<close>

lemma tick_links:
  assumes "good (m, b)" and "tick_of api wg i (m, b) = Inr (m', b')" and "stable_ledgers addr host [i]"
    and "\<forall>k. k \<noteq> host \<longrightarrow> link_inv (addr k) (view ips k (m, b))" and "hm_get (dm_states m) host = None"
  shows "good (m', b') \<and> (\<forall>k. k \<noteq> host \<longrightarrow> link_inv (addr k) (view ips k (m', b')))
    \<and> hm_get (dm_states m') host = None \<and> ips b' host = ips b host
    \<and> (\<forall>k nets. k \<noteq> host \<and> ips b' k = Some nets \<longrightarrow> nets = [] \<or> (nets = [host_net (addr k)]
          \<and> handshake_fresh (ti_wall i) (ti_stats i) k \<and> ti_enabled i
          \<and> (\<exists>r e. ti_received i = Some r \<and> eligible api m (ti_now i) r e \<and> le_public_key e = k)))"
proof -
  let ?alive = "handshake_fresh (ti_wall i) (ti_stats i)"
  from tick_refines [OF assms(1) assms(2) [unfolded tick_of_def]] obtain wanted
    where w: "(if ti_enabled i then desired api m (ti_now i) (ti_received i) else Inr []) = Inr wanted"
      and g: "good (m', b')"
      and v: "view ips k (m', b') = link_tick (ti_now i) (?alive k) (hm_get wanted k) (view ips k (m, b))" for k
    by blast
  have want: "ti_enabled i \<and> ip = addr k \<and> k \<noteq> host \<and>
      (\<exists>r e. ti_received i = Some r \<and> eligible api m (ti_now i) r e \<and> le_public_key e = k)"
    if "hm_get wanted k = Some (ip, endpoint)" for k ip endpoint
  proof -
    from w that have en: "ti_enabled i" and d: "desired api m (ti_now i) (ti_received i) = Inr wanted"
      by (auto simp: hm.get_empty split: if_splits)
    from desired_get [OF d that] obtain r e where r: "ti_received i = Some r" and e: "eligible api m (ti_now i) r e"
        and k: "le_public_key e = k" "le_ip e = ip" by blast
    have "e \<in> set (dist_members (rd_distribution r))" "\<not> le_is_host e"
      using e by (auto simp: eligible_def offered_def)
    with stable_ledgers_entry [OF assms(3) _ r] en r e k show ?thesis by auto
  qed
  have wk: "hm_get wanted k = None \<or> (\<exists>endpoint. hm_get wanted k = Some (addr k, endpoint))" for k
    using want by (cases "hm_get wanted k") auto
  have inv: "link_inv (addr k) (view ips k (m', b'))" if "k \<noteq> host" for k
    unfolding v by (rule link_tick_inv [OF _ wk]) (use assms(4) that in blast)
  have "hm_get wanted host = None" using want [of host] by (cases "hm_get wanted host") auto
  with v [of host] assms(5) have host: "hm_get (dm_states m') host = None" "ips b' host = ips b host"
    by (auto simp: view_def link_defs)
  have "nets = [] \<or> (nets = [host_net (addr k)] \<and> ?alive k \<and> ti_enabled i
      \<and> (\<exists>r e. ti_received i = Some r \<and> eligible api m (ti_now i) r e \<and> le_public_key e = k))"
    if "k \<noteq> host" "ips b' k = Some nets" for k nets
  proof -
    have "link_tick (ti_now i) (?alive k) (hm_get wanted k) (view ips k (m, b))
        = (hm_get (dm_states m') k, hm_get (dm_cooldown m') k, Some nets)"
      using v [of k] that(2) by (simp add: view_def)
    from link_tick_direct [OF _ wk this] assms(4) that(1) want [of k]
    show ?thesis by auto
  qed
  with g inv host show ?thesis by blast
qed

lemma run_links:
  assumes "ok b" and "\<forall>k. k \<noteq> host \<longrightarrow> ips b k = None" and "stable_ledgers addr host ins"
    and "direct_run api wg ins (direct_new self subnet, b) = Inr (m', b')"
  shows "good (m', b') \<and> same_manager (direct_new self subnet) m'
    \<and> (\<forall>k. k \<noteq> host \<longrightarrow> link_inv (addr k) (view ips k (m', b')))
    \<and> hm_get (dm_states m') host = None \<and> ips b' host = ips b host"
  using assms(3,4)
proof (induction ins arbitrary: m' b' rule: rev_induct)
  case Nil
  then have "m' = direct_new self subnet" "b' = b" by (auto simp: direct_run_def)
  with assms(1,2) show ?case
    by (auto simp: good_def manager_ok_def direct_new_def hm.ok_empty hm.get_empty same_manager_def link_inv_def view_def)
next
  case (snoc i ins)
  then obtain m1 b1 where r: "direct_run api wg ins (direct_new self subnet, b) = Inr (m1, b1)"
    and t: "tick_of api wg i (m1, b1) = Inr (m', b')"
    by (auto simp: direct_run_def)
  have st: "stable_ledgers addr host ins" "stable_ledgers addr host [i]"
    using snoc.prems(1) by (simp_all add: stable_ledgers_def)
  from snoc.IH [OF st(1) r] have IH: "good (m1, b1)" "same_manager (direct_new self subnet) m1"
    "\<forall>k. k \<noteq> host \<longrightarrow> link_inv (addr k) (view ips k (m1, b1))" "hm_get (dm_states m1) host = None"
    "ips b1 host = ips b host" by blast+
  have "same_manager (direct_new self subnet) m'"
    using tick_same [OF t [unfolded tick_of_def]] IH(2) by (simp add: same_manager_def)
  with tick_links [OF IH(1) t st(2) IH(3,4)] IH(5) show ?case by simp
qed

end

section \<open>The rhythm of the attempts\<close>

text \<open>
  A peer that never answers, visited every five seconds at a constant endpoint. The comment on
  \<^verbatim>\<open>RETRY_INTERVAL\<close> counts on windows of 45 seconds every 60 seconds, which always
  overlap with those of the other side; the interval is counted from the failure, so the period is 110 seconds.
\<close>

fun attempts :: "instant \<Rightarrow> ipv4 \<Rightarrow> socket_addr \<Rightarrow> nat \<Rightarrow> link" where
  "attempts t0 ip endpoint 0 = link_tick t0 False (Some (ip, endpoint)) (None, None, None)"
| "attempts t0 ip endpoint (Suc n) =
     link_tick (t0 + secs (5 * Suc n)) False (Some (ip, endpoint)) (attempts t0 ip endpoint n)"

definition attempt_state :: "instant \<Rightarrow> ipv4 \<Rightarrow> socket_addr \<Rightarrow> nat \<Rightarrow> link" where
  "attempt_state t0 ip endpoint n =
     (let base = t0 + secs (110 * (n div 22))
      in if n mod 22 < 10
         then (Some \<lparr>ds_ip = ip, ds_endpoint = endpoint, ds_phase = Trying base (22 \<le> n)\<rparr>, None, Some [])
         else (None, Some \<lparr>cd_endpoint = endpoint, cd_at = base + secs 50\<rparr>, None))"

lemma attempts_phase: "attempts t0 ip endpoint n = attempt_state t0 ip endpoint n"
proof (induction n)
  case 0
  show ?case by (simp add: attempt_state_def link_defs decide_def secs_def)
next
  case (Suc n)
  define q r base where "q = n div 22" and "r = n mod 22" and "base = t0 + secs (110 * q)"
  have n: "n = 22 * q + r" and r: "r < 22" by (simp_all add: q_def r_def)
  have at: "t0 + secs (5 * Suc n) = base + secs (5 * Suc r)" by (simp add: n base_def secs_def)
  have prev: "attempts t0 ip endpoint n =
      (if r < 10 then (Some \<lparr>ds_ip = ip, ds_endpoint = endpoint, ds_phase = Trying base (22 \<le> n)\<rparr>, None, Some [])
       else (None, Some \<lparr>cd_endpoint = endpoint, cd_at = base + secs 50\<rparr>, None))"
    using Suc by (simp add: attempt_state_def Let_def base_def q_def r_def)
  note step = attempts.simps(2) [of t0 ip endpoint n, unfolded at prev]
  consider "r < 9" | "r = 9" | "10 \<le> r" "r < 21" | "r = 21" using r by linarith
  then show ?case
  proof cases
    case 1
    then have "Suc n mod 22 = Suc r" "Suc n div 22 = q" "(22 \<le> n) = (22 \<le> Suc n)" unfolding n by (simp, simp, presburger)
    with 1 show ?thesis unfolding step attempt_state_def Let_def
      by (simp add: base_def [symmetric] link_defs decide_def TRYING_TIMEOUT_def) (simp add: secs_def)
  next
    case 2
    then have "Suc n mod 22 = 10" "Suc n div 22 = q" unfolding n by simp_all
    with 2 show ?thesis unfolding step attempt_state_def Let_def
      by (simp add: base_def [symmetric] link_defs decide_def TRYING_TIMEOUT_def) (simp add: secs_def)
  next
    case 3
    then have "Suc n mod 22 = Suc r" "Suc n div 22 = q" unfolding n by simp_all
    with 3 show ?thesis unfolding step attempt_state_def Let_def
      by (simp add: base_def [symmetric] link_defs decide_def RETRY_INTERVAL_def) (simp add: secs_def)
  next
    case 4
    then have "Suc n mod 22 = 0" "Suc n div 22 = Suc q" "22 \<le> Suc n" unfolding n by simp_all
    moreover have "base + secs (5 * Suc r) = t0 + secs (110 * Suc q)" using 4 by (simp add: base_def secs_def)
    ultimately show ?thesis using 4 unfolding step attempt_state_def Let_def
      by (simp add: link_defs decide_def RETRY_INTERVAL_def) (simp add: base_def secs_def)
  qed
qed

text \<open>
  The address of a peer is only compared when it is added: a direct peer whose address changes in the ledger while its
  endpoint stays keeps the /32 of its old address.
\<close>

lemma moved_member_keeps_route:
  assumes "ds_phase s = Direct_Phase" and "ds_endpoint s = endpoint"
  shows "link_tick now True (Some (new_ip, endpoint)) (Some s, None, Some [host_net (ds_ip s)]) =
    (Some s, None, Some [host_net (ds_ip s)])"
  using assms by (simp add: link_defs decide_def)

section \<open>Properties\<close>

text \<open>
  C19: (\<^verbatim>\<open>DirectManager::tick\<close> on the Windows backend) a tick refines one
  independent machine per peer: for every key, the state, the cooldown and the AllowedIPs in the tunnel after the tick are
  those of \<open>link_tick\<close> for this key alone, whatever else the ledger, the manager and the tunnel hold
  and in whatever order the hash maps are visited.
\<close>

theorem tick_refines_links:
  assumes "windows_up b" and "hm_ok (dm_cooldown m)"
    and "tick api (windows_ops netsh) now wall enabled received stats (m, b) = Inr (m', b')"
  shows "\<exists>wanted. (if enabled then desired api m now received else Inr []) = Inr wanted \<and>
    (\<forall>k. view windows_ips k (m', b') =
      link_tick now (handshake_fresh wall stats k) (hm_get wanted k) (view windows_ips k (m, b)))"
proof -
  have "running.good (m, b)" using assms(1,2) by (simp add: running.good_def manager_ok_def)
  from running.tick_refines [OF this assms(3)] show ?thesis by blast
qed

lemma direct_route_facts:
  assumes "windows_up b" and "\<forall>k. k \<noteq> host \<longrightarrow> windows_ips b k = None"
    and "stable_ledgers addr host (ins @ [i])"
    and "direct_run api (windows_ops netsh) (ins @ [i]) (direct_new self subnet, b) = Inr (m', b')"
    and "k \<noteq> host" and "windows_ips b' k = Some nets" and "nets \<noteq> []"
  shows "windows_ips b' host = windows_ips b host \<and> nets = [host_net (addr k)]
    \<and> handshake_fresh (ti_wall i) (ti_stats i) k \<and> ti_enabled i
    \<and> (\<exists>r e. ti_received i = Some r \<and> eligible api (direct_new self subnet) (ti_now i) r e \<and> le_public_key e = k)"
proof -
  let ?wg = "windows_ops netsh"
  from assms(4) obtain m1 b1 where r: "direct_run api ?wg ins (direct_new self subnet, b) = Inr (m1, b1)"
    and t: "tick_of api ?wg i (m1, b1) = Inr (m', b')"
    by (auto simp: direct_run_def)
  have st: "stable_ledgers addr host ins" "stable_ledgers addr host [i]"
    using assms(3) by (simp_all add: stable_ledgers_def)
  note before = running.run_links [OF assms(1,2) st(1) r]
  have same: "eligible api m1 now rd e = eligible api (direct_new self subnet) now rd e" for now rd e
    using before by (simp add: eligible_def offered_def same_manager_def)
  from before have b1: "running.good (m1, b1)" "\<forall>k. k \<noteq> host \<longrightarrow> link_inv (addr k) (view windows_ips k (m1, b1))"
    "hm_get (dm_states m1) host = None" "windows_ips b1 host = windows_ips b host" by blast+
  from running.tick_links [OF b1(1) t st(2) b1(2,3)] assms(5-7) same b1(4) show ?thesis by metis
qed



text \<open>
  C32: (\<^verbatim>\<open>DirectManager::tick\<close>) the only input on which a tick panics is a ledger
  entry that passes the first checks with an endpoint age beyond $2^{64}$ seconds when the time since its receipt is
  added; every other ledger is handled. The age is a number of the host that is not checked on receipt.
\<close>

theorem tick_panics_iff:
  "(\<exists>p. tick api wg now wall enabled received stats (m, b) = Inl p) \<longleftrightarrow>
    enabled \<and> (\<exists>r e. received = Some r \<and> e \<in> set (dist_members (rd_distribution r)) \<and> offered api m e
      \<and> secs (2 ^ 64) \<le> endpoint_age now r e)"
proof -
  let ?m = "purge_cooldown now m"
  have same: "desired api ?m now received = desired api m now received"
    by (rule desired_same_manager) (simp_all add: purge_cooldown_def)
  have "(\<exists>p. tick api wg now wall enabled received stats (m, b) = Inl p) \<longleftrightarrow>
      enabled \<and> (\<exists>p. desired api m now received = Inl p)"
    by (cases enabled; cases "desired api m now received") (simp_all add: tick_def Let_def same)
  then show ?thesis by (simp add: desired_panics)
qed

text \<open>
  (\<^verbatim>\<open>DirectManager::tick\<close>) a tried peer that does not answer is tried for
  50 seconds and then rests for 60 more: with a tick every five seconds it is tried at tick \<open>n\<close> exactly if
  \<open>n mod 22 < 10\<close>. Two members that start 55 seconds apart are therefore never trying at the same time.
\<close>

theorem probes_never_meet:
  "(fst (attempts t0 ip endpoint n) \<noteq> None \<longleftrightarrow> n mod 22 < 10) \<and>
   \<not> (fst (attempts t0 ip endpoint (n + 11)) \<noteq> None \<and> fst (attempts t1 ip' endpoint' n) \<noteq> None)"
proof -
  have tried: "fst (attempts t0 ip endpoint n) \<noteq> None \<longleftrightarrow> n mod 22 < 10" for t0 ip endpoint n
    unfolding attempts_phase attempt_state_def Let_def by simp
  have "\<not> (n + 11) mod 22 < 10" if r: "n mod 22 < 10"
  proof -
    have "(n + 11) mod 22 = (n mod 22 + 11) mod 22" by (simp only: mod_add_left_eq)
    also have "\<dots> = n mod 22 + 11" using r by (intro mod_less) simp
    finally show ?thesis by simp
  qed
  then show ?thesis unfolding tried by blast
qed

section \<open>Witnesses\<close>

definition pair_address :: "public_key \<Rightarrow> ipv4" where
  "pair_address k = (if k = [1] then 0x0A000001 else if k = [2] then 0x0A000002 else 0x0A000003)"

definition pair_config :: config where
  "pair_config = sample_config [sample_peer [2] 0x0A000002, sample_peer [3] 0x0A000003] empty_acl"

definition third_entry :: ledger_entry where
  "third_entry = (host_entry_at 0x0A000003)\<lparr>le_public_key := [3], le_is_host := False,
     le_endpoint := Some (Socket_V4 0xCB007107 51820), le_endpoint_age_secs := Some 60\<rparr>"

definition pair_distribution :: distribution where
  "pair_distribution =
     ledger_message_for (make_distribution cidr_api (\<lambda>_. None) health_default pair_config open_policy [third_entry]) 0x0A000002"

definition pair_received :: received_distribution where
  "pair_received = \<lparr>rd_distribution = pair_distribution, rd_received_at = 0\<rparr>"

definition first_tick :: tick_input where
  "first_tick = \<lparr>ti_now = 0, ti_wall = secs 1000, ti_enabled = True, ti_received = Some pair_received, ti_stats = []\<rparr>"

definition second_tick :: tick_input where
  "second_tick = \<lparr>ti_now = secs 5, ti_wall = secs 1005, ti_enabled = True, ti_received = Some pair_received,
     ti_stats = [\<lparr>ps_public_key = [3], ps_endpoint = None, ps_last_handshake = Some (secs 1003), ps_tx_bytes = 0,
       ps_rx_bytes = 0, ps_allowed_ips = []\<rparr>]\<rparr>"

lemma pair_compile: "compile cidr_api pair_config = Inr open_policy"
  by (simp add: compile_def pair_config_def sample_config_def empty_acl_def open_policy_def legacy_rules_def
      normalized_deny_def)

lemma open_policy_allows: "dec_action (evaluate api open_policy x y pr port) = Allow"
  by (simp add: evaluate_def open_policy_def)

lemma pair_members: "dist_members pair_distribution = [third_entry]"
proof -
  have "member_ips pair_config = [0x0A000002, 0x0A000003]"
    by (simp add: member_ips_def pair_config_def sample_config_def sample_peer_def List.map_filter_def)
  then have "dist_deny (make_distribution cidr_api f h pair_config open_policy ms) = []"
      "dist_force_relay (make_distribution cidr_api f h pair_config open_policy ms) = []" for f h ms
    by (simp_all add: make_distribution_def Let_def control_denied_def open_policy_allows forces_relay_def
        pair_config_def sample_config_def empty_acl_def normalized_deny_def split: prod.splits)
      (simp_all add: open_policy_def)
  then show ?thesis
    by (simp add: pair_distribution_def ledger_message_for_def Let_def distribution_members isolated_ips_def
        third_entry_def host_entry_at_def entry_for_def)
qed

lemma pair_desired:
  assumes "same_manager (direct_new [2] sample_net) m" and "now \<le> secs 10"
  shows "desired cidr_api m now (Some pair_received) = Inr [([3], 0x0A000003, Socket_V4 0xCB007107 51820)]"
proof -
  have "net_contains cidr_api sample_net 0x0A000003"
    by (simp add: net_contains_cidr cidr_contains_def sample_net_def block_size_def)
  moreover have "dm_self_key m = [2]" "dm_subnet m = sample_net"
    using assms(1) by (simp_all add: same_manager_def direct_new_def)
  ultimately show ?thesis using assms(2)
    by (simp add: desired_def candidate_of_def pair_received_def pair_members third_entry_def host_entry_at_def
        duration_add_def secs_def MAX_ENDPOINT_AGE_def hm_collect_def hm_insert_def
        List.map_filter_def)
qed

definition pair_peer :: candidate where
  "pair_peer = ([3], 0x0A000003, Socket_V4 0xCB007107 51820)"

lemma pair_tick:
  assumes "running.good (m, b)" and "same_manager (direct_new [2] sample_net) m" and "now \<le> secs 10"
  shows "\<exists>m' b'. tick cidr_api (windows_ops netsh) now wall True (Some pair_received) stats (m, b) = Inr (m', b')
    \<and> running.good (m', b') \<and> same_manager (direct_new [2] sample_net) m'
    \<and> view windows_ips [3] (m', b') = link_tick now (handshake_fresh wall stats [3])
        (Some (0x0A000003, Socket_V4 0xCB007107 51820)) (view windows_ips [3] (m, b))"
proof -
  let ?t = "tick cidr_api (windows_ops netsh) now wall True (Some pair_received) stats (m, b)"
  have "same_manager (direct_new [2] sample_net) (purge_cooldown now m)"
    using assms(2) by (simp add: same_manager_def purge_cooldown_def)
  from pair_desired [OF this assms(3)] obtain m' b' where t: "?t = Inr (m', b')"
    by (cases ?t) (auto simp: tick_def Let_def)
  have d: "desired cidr_api m now (Some pair_received) = Inr [pair_peer]"
    using pair_desired [OF assms(2,3)] by (simp add: pair_peer_def)
  have same: "same_manager (direct_new [2] sample_net) m'"
    using tick_same [OF t] assms(2) by (simp add: same_manager_def)
  have "hm_get [pair_peer] [3] = Some (0x0A000003, Socket_V4 0xCB007107 51820)"
    by (simp add: hm_get_def pair_peer_def)
  with running.tick_refines [OF assms(1) t] d have "running.good (m', b')"
    "view windows_ips [3] (m', b') = link_tick now (handshake_fresh wall stats [3])
        (Some (0x0A000003, Socket_V4 0xCB007107 51820)) (view windows_ips [3] (m, b))"
    by auto
  with t same show ?thesis by blast
qed

lemma pair_run:
  "\<exists>m b. direct_run cidr_api (windows_ops netsh) ([first_tick] @ [second_tick])
      (direct_new [2] sample_net, fresh_backend) = Inr (m, b) \<and> windows_ips b [3] = Some [host_net 0x0A000003]"
proof -
  let ?m0 = "direct_new [2] sample_net" and ?wg = "windows_ops netsh"
  let ?ep = "Socket_V4 0xCB007107 51820"
  have g0: "running.good (?m0, fresh_backend)"
    using fresh_backend_up by (simp add: running.good_def manager_ok_def direct_new_def hm.ok_empty)
  have v0: "view windows_ips [3] (?m0, fresh_backend) = (None, None, None)"
    by (simp add: view_def direct_new_def hm.get_empty fresh_backend_ips)
  have "same_manager ?m0 ?m0" by (simp add: same_manager_def)
  from pair_tick [OF g0 this, of 0 netsh "secs 1000" "[]"] obtain m1 b1
    where t1: "tick_of cidr_api ?wg first_tick (?m0, fresh_backend) = Inr (m1, b1)" and g1: "running.good (m1, b1)"
      and s1: "same_manager ?m0 m1"
      and v1: "view windows_ips [3] (m1, b1) = link_tick 0 (handshake_fresh (secs 1000) [] [3]) (Some (0x0A000003, ?ep)) (None, None, None)"
    by (auto simp: tick_of_def first_tick_def v0)
  have "secs 5 \<le> secs 10" by (simp add: secs_def)
  from pair_tick [OF g1 s1 this, of netsh "ti_wall second_tick" "ti_stats second_tick"] obtain m2 b2
    where t2: "tick_of cidr_api ?wg second_tick (m1, b1) = Inr (m2, b2)"
      and v2: "view windows_ips [3] (m2, b2) = link_tick (secs 5)
        (handshake_fresh (ti_wall second_tick) (ti_stats second_tick) [3]) (Some (0x0A000003, ?ep)) (view windows_ips [3] (m1, b1))"
    by (auto simp: tick_of_def second_tick_def)
  have a2: "handshake_fresh (ti_wall second_tick) (ti_stats second_tick) [3]"
    by (simp add: second_tick_def handshake_fresh_def hm_collect_get duration_since_def HANDSHAKE_STALE_def secs_def)
  have "view windows_ips [3] (m2, b2) = (Some \<lparr>ds_ip = 0x0A000003, ds_endpoint = ?ep, ds_phase = Direct_Phase\<rparr>,
      None, Some [host_net 0x0A000003])"
    unfolding v2 v1 using a2 by (simp add: link_defs decide_def)
  then have "windows_ips b2 [3] = Some [host_net 0x0A000003]" by (simp add: view_def)
  moreover have "direct_run cidr_api ?wg ([first_tick] @ [second_tick]) (?m0, fresh_backend) = Inr (m2, b2)"
    by (simp add: direct_run_def t1 t2)
  ultimately show ?thesis by blast
qed

lemma pair_stable: "stable_ledgers pair_address [1] ([first_tick] @ [second_tick])"
  by (simp add: stable_ledgers_def first_tick_def second_tick_def pair_received_def pair_members third_entry_def
      host_entry_at_def pair_address_def)

theorem tick_refines_links_witness:
  "\<exists>m b wanted. (if True then desired cidr_api (direct_new [2] sample_net) 0 (Some pair_received) else Inr []) = Inr wanted
    \<and> (\<forall>k. view windows_ips k (m, b) = link_tick 0 (handshake_fresh (secs 1000) [] k) (hm_get wanted k)
        (view windows_ips k (direct_new [2] sample_net, fresh_backend)))"
proof -
  have c: "hm_ok (dm_cooldown (direct_new [2] sample_net))" by (simp add: direct_new_def hm.ok_empty)
  then have "running.good (direct_new [2] sample_net, fresh_backend)"
    using fresh_backend_up by (simp add: running.good_def manager_ok_def)
  from pair_tick [OF this, of 0 "\<lambda>_ _. True" "secs 1000" "[]"] obtain m b
    where "tick cidr_api (windows_ops (\<lambda>_ _. True)) 0 (secs 1000) True (Some pair_received) []
      (direct_new [2] sample_net, fresh_backend) = Inr (m, b)"
    by (auto simp: same_manager_def)
  from tick_refines_links [OF fresh_backend_up c this] show ?thesis by blast
qed



end
