(* ===== verification/Tunnel_Sync.thy ===== *)
theory Tunnel_Sync
  imports Backend Ledger
begin

text \<open>
  How the supervisor keeps the tunnel equal to the configuration,
  \<^verbatim>\<open>crates/peercove-cli/src/commands/tunnel.rs\<close>: the specification of a tunnel, the choice of its interface
  name, the peers, routes, isolation and access policy of a running one. Reading a key file is a function that may fail; a
  failed step is only logged, so errors are not distinguished further.
\<close>

section \<open>Specification of a tunnel\<close>

datatype role = Host_Role | Member_Role

record tunnel_spec =
  ts_private_key :: bytes
  ts_address :: ipv4net
  ts_listen_port :: "u16 option"
  ts_mtu :: u16
  ts_forwarding :: bool
  ts_peers :: "peer_spec list"

datatype spec_error = Bad_Private_Key | No_Host_Peer | Many_Host_Peers | No_Host_Endpoint | Bad_Preshared_Key

definition DEFAULT_IF_NAME :: string where "DEFAULT_IF_NAME = ''peercove0''"

definition build_peer_spec :: "(string \<Rightarrow> bytes option) \<Rightarrow> role \<Rightarrow> peer_config \<Rightarrow> spec_error + peer_spec" where
  "build_peer_spec read_psk role peer =
     and_then (case peer_preshared_key_file peer of
                 None \<Rightarrow> Inr None
               | Some f \<Rightarrow> (case read_psk f of None \<Rightarrow> Inl Bad_Preshared_Key | Some k \<Rightarrow> Inr (Some k))) (\<lambda>psk.
     Inr \<lparr>spec_public_key = peer_public_key peer, spec_endpoint = peer_endpoint peer,
          spec_allowed_ips = peer_allowed_ips peer @ (if role = Host_Role then peer_subnets peer else []),
          spec_persistent_keepalive = (if role = Member_Role \<and> peer_persistent_keepalive peer = None then Some 25
                                       else peer_persistent_keepalive peer),
          spec_preshared_key = psk\<rparr>)"

definition build_spec :: "(string \<Rightarrow> bytes option) \<Rightarrow> (string \<Rightarrow> bytes option) \<Rightarrow> nat \<Rightarrow> config \<Rightarrow> role
    \<Rightarrow> spec_error + tunnel_spec" where
  "build_spec read_key read_psk now cfg role =
     (case read_key (if_private_key_file (cfg_interface cfg)) of
        None \<Rightarrow> Inl Bad_Private_Key
      | Some private_key \<Rightarrow>
          bail_if (role = Member_Role \<and> cfg_peers cfg = []) No_Host_Peer
          (bail_if (role = Member_Role \<and> 1 < length (cfg_peers cfg)) Many_Host_Peers
          (bail_if (role = Member_Role \<and> peer_endpoint (hd (cfg_peers cfg)) = None) No_Host_Endpoint
          (and_then (collect_result (build_peer_spec read_psk role)
             (filter (\<lambda>p. role \<noteq> Host_Role \<or> invite_allows_connection p now) (cfg_peers cfg))) (\<lambda>peers.
           Inr \<lparr>ts_private_key = private_key, ts_address = if_address (cfg_interface cfg),
                ts_listen_port = (if role = Host_Role
                  then Some (case if_listen_port (cfg_interface cfg) of Some p \<Rightarrow> p | None \<Rightarrow> DEFAULT_LISTEN_PORT)
                  else if_listen_port (cfg_interface cfg)),
                ts_mtu = if_mtu (cfg_interface cfg), ts_forwarding = (role = Host_Role), ts_peers = peers\<rparr>)))))"

datatype restart_reason = Listen_Port_Changed | Mtu_Changed | Endpoint_Changed

definition detect_reconfig_restart :: "role \<Rightarrow> tunnel_spec \<Rightarrow> config \<Rightarrow> restart_reason option" where
  "detect_reconfig_restart role spec cfg =
     (let port = (if role = Host_Role
            then Some (case if_listen_port (cfg_interface cfg) of Some p \<Rightarrow> p | None \<Rightarrow> DEFAULT_LISTEN_PORT)
            else if_listen_port (cfg_interface cfg))
      in if port \<noteq> ts_listen_port spec then Some Listen_Port_Changed
         else if if_mtu (cfg_interface cfg) \<noteq> ts_mtu spec then Some Mtu_Changed
         else if role = Member_Role \<and>
             (case cfg_peers cfg of [] \<Rightarrow> None | p # _ \<Rightarrow> peer_endpoint p)
             \<noteq> (case ts_peers spec of [] \<Rightarrow> None | p # _ \<Rightarrow> spec_endpoint p) then Some Endpoint_Changed
         else None)"

section \<open>The interface name\<close>

record start_limits =
  used_subnets :: "(ipv4net \<times> string) list"
  used_if_names :: "string list"

datatype start_error = Subnet_In_Use string | If_Name_In_Use string

definition if_candidate :: "nat \<Rightarrow> string" where
  "if_candidate i = ''peercove'' @ show_nat i"

lemma if_candidate_inject [simp]: "if_candidate i = if_candidate j \<longleftrightarrow> i = j"
  by (simp add: if_candidate_def)

lemma finite_if_taken: "finite {j. i \<le> j \<and> if_candidate j \<in> set used}"
proof (rule finite_subset)
  show "{j. i \<le> j \<and> if_candidate j \<in> set used} \<subseteq> if_candidate -` set used" by auto
  show "finite (if_candidate -` set used)" by (auto intro!: finite_vimageI injI)
qed

text \<open>\<^verbatim>\<open>(0..).map(..).find(..)\<close>: only finitely many names are taken.\<close>

function free_if_name :: "nat \<Rightarrow> string list \<Rightarrow> string" where
  "free_if_name i used = (if if_candidate i \<notin> set used then if_candidate i else free_if_name (i + 1) used)"
  by pat_completeness auto
termination
proof (relation "measure (\<lambda>(i, used). card {j. i \<le> j \<and> if_candidate j \<in> set used})")
  fix i used
  assume "\<not> if_candidate i \<notin> set used"
  then have "i \<in> {j. i \<le> j \<and> if_candidate j \<in> set used}" by simp
  moreover have "{j. i + 1 \<le> j \<and> if_candidate j \<in> set used} = {j. i \<le> j \<and> if_candidate j \<in> set used} - {i}"
    by auto
  ultimately have "card {j. i + 1 \<le> j \<and> if_candidate j \<in> set used} < card {j. i \<le> j \<and> if_candidate j \<in> set used}"
    using finite_if_taken by (metis card_Diff1_less)
  then show "((i + 1, used), i, used) \<in> measure (\<lambda>(i, used). card {j. i \<le> j \<and> if_candidate j \<in> set used})" by simp
qed simp

declare free_if_name.simps [simp del]

definition plan_interface :: "ipnet_api \<Rightarrow> config \<Rightarrow> start_limits \<Rightarrow> start_error + string" where
  "plan_interface api cfg limits =
     (let subnet = net_trunc api (if_address (cfg_interface cfg)); name = if_name (cfg_interface cfg)
      in case find (\<lambda>(used, _). net_contains api used (net_addr subnet) \<or> net_contains api subnet (net_addr used))
               (used_subnets limits) of
           Some (_, network) \<Rightarrow> Inl (Subnet_In_Use network)
         | None \<Rightarrow>
             if name \<noteq> DEFAULT_IF_NAME
             then bail_if (name \<in> set (used_if_names limits)) (If_Name_In_Use name) (Inr name)
             else Inr (free_if_name 0 (used_if_names limits)))"

section \<open>Peers\<close>

record peer_fingerprint =
  fp_ip :: ipv4
  fp_endpoint :: "socket_addr option"
  fp_allowed_ips :: "ipv4net list"
  fp_keepalive :: "u16 option"
  fp_psk :: "bytes option"

definition fingerprint_of :: "peer_spec \<Rightarrow> peer_fingerprint" where
  "fingerprint_of spec =
     \<lparr>fp_ip = (case spec_allowed_ips spec of [] \<Rightarrow> 0 | n # _ \<Rightarrow> net_addr n), fp_endpoint = spec_endpoint spec,
      fp_allowed_ips = spec_allowed_ips spec, fp_keepalive = spec_persistent_keepalive spec,
      fp_psk = spec_preshared_key spec\<rparr>"

record sync_state =
  sy_known :: "(public_key, peer_fingerprint) hashmap"
  sy_pending :: "public_key list"

type_synonym 'b synced = "sync_state \<times> 'b"

definition eligible_peers :: "nat \<Rightarrow> config \<Rightarrow> peer_config list" where
  "eligible_peers now cfg = filter (\<lambda>p. invite_allows_connection p now) (cfg_peers cfg)"

definition config_keys :: "nat \<Rightarrow> config \<Rightarrow> public_key list" where
  "config_keys now cfg = map peer_public_key (eligible_peers now cfg)"

definition takes_over :: "nat \<Rightarrow> config \<Rightarrow> ipv4 \<Rightarrow> bool" where
  "takes_over now cfg ip \<longleftrightarrow>
     list_ex (\<lambda>p. map_option net_addr (case peer_allowed_ips p of [] \<Rightarrow> None | n # _ \<Rightarrow> Some n) = Some ip)
       (eligible_peers now cfg)"

definition forget_peer :: "'b wg_ops \<Rightarrow> public_key \<Rightarrow> 'b synced \<Rightarrow> 'b synced" where
  "forget_peer wg key = (\<lambda>(s, b).
     let (ok, b') = wg_remove_peer wg key b
     in (if ok then s\<lparr>sy_known := hm_remove key (sy_known s), sy_pending := removeAll key (sy_pending s)\<rparr> else s, b'))"

definition remove_rotated :: "'b wg_ops \<Rightarrow> nat \<Rightarrow> config \<Rightarrow> 'b synced \<Rightarrow> 'b synced" where
  "remove_rotated wg now cfg sb =
     foldl (\<lambda>sb key. forget_peer wg key sb) sb
       (map fst (filter (\<lambda>(key, fp). key \<notin> set (config_keys now cfg) \<and> takes_over now cfg (fp_ip fp)) (sy_known (fst sb))))"

definition sync_peer :: "(string \<Rightarrow> bytes option) \<Rightarrow> 'b wg_ops \<Rightarrow> 'b synced \<Rightarrow> peer_config \<Rightarrow> 'b synced" where
  "sync_peer read_psk wg = (\<lambda>(s, b) peer.
     let key = peer_public_key peer
     in case build_peer_spec read_psk Host_Role peer of
          Inl _ \<Rightarrow> (s, b)
        | Inr spec \<Rightarrow>
            let fp = fingerprint_of spec; learned = s\<lparr>sy_known := hm_insert key fp (sy_known s)\<rparr>
            in case hm_get (sy_known s) key of
                 None \<Rightarrow> (let (ok, b') = wg_add_peer wg spec b in (if ok then learned else s, b'))
               | Some current \<Rightarrow>
                   if current \<noteq> fp
                   then (let (removed, b1) = wg_remove_peer wg key b
                         in if \<not> removed then (s, b1)
                            else (let (ok, b2) = wg_add_peer wg spec b1 in (if ok then learned else s, b2)))
                   else (s, b))"

text \<open>The two steps of a removal. The list is that of the members told that they were removed.\<close>

definition retire_peer :: "'b wg_ops \<Rightarrow> connections \<Rightarrow> 'b synced \<times> ipv4 list \<Rightarrow> public_key \<times> ipv4 \<Rightarrow> 'b synced \<times> ipv4 list" where
  "retire_peer wg connections = (\<lambda>((s, b), told) (key, ip).
     if key \<notin> set (sy_pending s)
     then ((s\<lparr>sy_pending := key # sy_pending s\<rparr>, b), if hm_contains connections ip then told @ [ip] else told)
     else (forget_peer wg key (s, b), told))"

definition sync_peers :: "(string \<Rightarrow> bytes option) \<Rightarrow> 'b wg_ops \<Rightarrow> nat \<Rightarrow> config \<Rightarrow> connections \<Rightarrow> 'b synced
    \<Rightarrow> 'b synced \<times> ipv4 list" where
  "sync_peers read_psk wg now cfg connections sb =
     (let sb1 = remove_rotated wg now cfg sb;
          sb2 = foldl (sync_peer read_psk wg) sb1 (eligible_peers now cfg)
      in foldl (retire_peer wg connections) (sb2, [])
           (map (\<lambda>(key, fp). (key, fp_ip fp)) (filter (\<lambda>(key, _). key \<notin> set (config_keys now cfg)) (sy_known (fst sb2)))))"

section \<open>Routes, isolation, access policy\<close>

text \<open>The routes are a \<^verbatim>\<open>BTreeSet\<close>, here a list of which only the elements matter.\<close>

definition sync_routes :: "'b wg_ops \<Rightarrow> ipv4net list \<Rightarrow> ipv4net list \<times> 'b \<Rightarrow> ipv4net list \<times> 'b" where
  "sync_routes wg wanted cb =
     (let cb1 = foldl (\<lambda>(current, b) n. let (ok, b') = wg_add_route wg n b in (if ok then n # current else current, b'))
            cb (filter (\<lambda>n. n \<notin> set (fst cb)) (remdups wanted))
      in foldl (\<lambda>(current, b) n. let (ok, b') = wg_remove_route wg n b in (if ok then removeAll n current else current, b'))
           cb1 (filter (\<lambda>n. n \<notin> set wanted) (remdups (fst cb1))))"

definition invite_isolation :: "config \<Rightarrow> ipv4 list" where
  "invite_isolation cfg =
     remdups_adj (sort (List.map_filter (\<lambda>p. case peer_allowed_ips p of [] \<Rightarrow> None | n # _ \<Rightarrow> Some (net_addr n))
       (filter invite_is_isolated (cfg_peers cfg))))"

text \<open>What was applied last, and whether an error was logged since; the log flag has no effect and is left out.\<close>

definition apply_invite_isolation :: "'b wg_ops \<Rightarrow> config \<Rightarrow> ipv4 list option \<times> 'b \<Rightarrow> bool \<times> ipv4 list option \<times> 'b" where
  "apply_invite_isolation wg cfg = (\<lambda>(applied, b).
     let wanted = invite_isolation cfg
     in if applied = Some wanted then (True, applied, b)
        else (let (ok, b') = wg_sync_isolation wg wanted b
              in if ok then (True, Some wanted, b') else (False, applied, b')))"

definition apply_acl :: "ipnet_api \<Rightarrow> 'b wg_ops \<Rightarrow> config \<Rightarrow> acl_policy option \<times> 'b \<Rightarrow> acl_policy option \<times> 'b" where
  "apply_acl api wg cfg = (\<lambda>(applied, b).
     case compile api cfg of
       Inl _ \<Rightarrow> (applied, b)
     | Inr policy \<Rightarrow>
         if applied = Some policy then (applied, b)
         else (let (ok, b') = wg_sync_acl wg policy b in (if ok then Some policy else applied, b')))"

section \<open>The host's part of a tick\<close>

record host_state =
  ho_sync :: sync_state
  ho_routes :: "ipv4net list"
  ho_isolation :: "ipv4 list option"
  ho_acl :: "acl_policy option"

text \<open>Isolation comes before the peers: a tick whose isolation fails adds nobody.\<close>

definition host_sync :: "(string \<Rightarrow> bytes option) \<Rightarrow> ipnet_api \<Rightarrow> 'b wg_ops \<Rightarrow> nat \<Rightarrow> config \<Rightarrow> connections
    \<Rightarrow> host_state \<times> 'b \<Rightarrow> (host_state \<times> 'b) \<times> ipv4 list" where
  "host_sync read_psk api wg now cfg connections = (\<lambda>(h, b).
     let (ready, isolation, b1) = apply_invite_isolation wg cfg (ho_isolation h, b);
         h = h\<lparr>ho_isolation := isolation\<rparr>
     in if \<not> ready then ((h, b1), [])
        else (let ((sync, b2), told) = sync_peers read_psk wg now cfg connections (ho_sync h, b1);
                  (routes, b3) = sync_routes wg (concat (map peer_subnets (cfg_peers cfg))) (ho_routes h, b2);
                  (acl, b4) = apply_acl api wg cfg (ho_acl h, b3)
              in ((h\<lparr>ho_sync := sync, ho_routes := routes, ho_acl := acl\<rparr>, b4), told)))"

definition rebind_host_peer :: "(string \<Rightarrow> bytes option) \<Rightarrow> 'b wg_ops \<Rightarrow> config \<Rightarrow> ipv4net list \<Rightarrow> 'b \<Rightarrow> bool \<times> 'b" where
  "rebind_host_peer read_psk wg cfg extra b =
     (case cfg_peers cfg of
        [] \<Rightarrow> (False, b)
      | peer # _ \<Rightarrow>
          (case build_peer_spec read_psk Member_Role peer of
             Inl _ \<Rightarrow> (False, b)
           | Inr spec \<Rightarrow>
               (let (removed, b1) = wg_remove_peer wg (peer_public_key peer) b
                in if \<not> removed then (False, b1)
                   else wg_add_peer wg (spec\<lparr>spec_allowed_ips := spec_allowed_ips spec @ extra\<rparr>) b1)))"

section \<open>Each peer of the host is a machine of its own\<close>

text \<open>What the supervisor knows of a key, whether its removal is announced, and its AllowedIPs in the tunnel.\<close>

type_synonym peer_link = "peer_fingerprint option \<times> bool \<times> ipv4net list option"

definition sync_view :: "('b \<Rightarrow> allowed_table) \<Rightarrow> public_key \<Rightarrow> 'b synced \<Rightarrow> peer_link" where
  "sync_view ips key = (\<lambda>(s, b). (hm_get (sy_known s) key, key \<in> set (sy_pending s), ips b key))"

definition specs_readable :: "(string \<Rightarrow> bytes option) \<Rightarrow> nat \<Rightarrow> config \<Rightarrow> bool" where
  "specs_readable read_psk now cfg \<longleftrightarrow>
     list_all (\<lambda>p. build_peer_spec read_psk Host_Role p \<noteq> Inl Bad_Preshared_Key) (eligible_peers now cfg)"

definition wanted_print :: "(string \<Rightarrow> bytes option) \<Rightarrow> nat \<Rightarrow> config \<Rightarrow> public_key \<Rightarrow> peer_fingerprint option" where
  "wanted_print read_psk now cfg key =
     (case find (\<lambda>p. peer_public_key p = key) (eligible_peers now cfg) of
        None \<Rightarrow> None
      | Some p \<Rightarrow> (case build_peer_spec read_psk Host_Role p of Inl _ \<Rightarrow> None | Inr spec \<Rightarrow> Some (fingerprint_of spec)))"

definition peer_link_step :: "peer_fingerprint option \<Rightarrow> (ipv4 \<Rightarrow> bool) \<Rightarrow> peer_link \<Rightarrow> peer_link" where
  "peer_link_step wanted taken = (\<lambda>(known, pending, tb).
     case wanted of
       Some fp \<Rightarrow> (Some fp, pending, if known = Some fp then tb else Some (fp_allowed_ips fp))
     | None \<Rightarrow>
         (case known of
            None \<Rightarrow> (known, pending, tb)
          | Some fp \<Rightarrow> if taken (fp_ip fp) \<or> pending then (None, False, None) else (Some fp, True, tb)))"

lemma build_peer_spec_cases:
  "build_peer_spec read_psk role p = Inl e \<Longrightarrow> e = Bad_Preshared_Key"
  "build_peer_spec read_psk role p = Inr spec \<Longrightarrow> spec_public_key spec = peer_public_key p
     \<and> spec_allowed_ips spec = peer_allowed_ips p @ (if role = Host_Role then peer_subnets p else [])"
  by (auto simp: build_peer_spec_def split: option.splits)

lemma fingerprint_allowed [simp]: "fp_allowed_ips (fingerprint_of spec) = spec_allowed_ips spec"
  by (simp add: fingerprint_of_def)

lemma find_key_None: "find (\<lambda>x. f x = k) xs = None \<longleftrightarrow> k \<notin> f ` set xs"
  by (induction xs) auto

lemma hm_filter_keys:
  assumes "hm_ok m"
  shows "k \<in> set (map fst (filter P m)) \<longleftrightarrow> (\<exists>v. hm_get m k = Some v \<and> P (k, v))"
proof
  assume "k \<in> set (map fst (filter P m))"
  then obtain v where "(k, v) \<in> set m" "P (k, v)" by auto
  with hm_mem_get [OF assms] show "\<exists>v. hm_get m k = Some v \<and> P (k, v)" by blast
next
  assume "\<exists>v. hm_get m k = Some v \<and> P (k, v)"
  then obtain v where "(k, v) \<in> set m" "P (k, v)" using hm_get_mem by metis
  then show "k \<in> set (map fst (filter P m))" by (force intro: rev_image_eqI)
qed

context reliable_backend
begin

definition synced_ok :: "'a synced \<Rightarrow> bool" where
  "synced_ok sb \<longleftrightarrow> hm_ok (sy_known (fst sb)) \<and> ok (snd sb)"

lemma forget_peer_view:
  assumes "synced_ok sb"
  shows "synced_ok (forget_peer wg key sb)"
    and "sync_view ips k (forget_peer wg key sb) = (if k = key then (None, False, None) else sync_view ips k sb)"
  using assms remove_ok [of "snd sb" key] remove_succeeds [of "snd sb" key]
  by (cases sb, auto simp: forget_peer_def synced_ok_def sync_view_def hm.get_remove hm.ok_remove split: prod.splits)+

lemma forget_all:
  assumes "synced_ok sb"
  shows "synced_ok (foldl (\<lambda>sb key. forget_peer wg key sb) sb keys) \<and>
    sync_view ips k (foldl (\<lambda>sb key. forget_peer wg key sb) sb keys) =
      (if k \<in> set keys then (None, False, None) else sync_view ips k sb)"
  using assms
proof (induction keys arbitrary: sb)
  case (Cons key keys)
  note f = forget_peer_view [OF Cons.prems, where key = key]
  from Cons.IH [OF f(1)] f(2) [where k = k] show ?case by auto
qed simp

lemma sync_peer_view:
  assumes "synced_ok sb" and "build_peer_spec read_psk Host_Role p = Inr spec"
  shows "synced_ok (sync_peer read_psk wg sb p)"
    and "sync_view ips k (sync_peer read_psk wg sb p) =
      (if k = peer_public_key p
       then (Some (fingerprint_of spec), fst (snd (sync_view ips k sb)),
             if fst (sync_view ips k sb) = Some (fingerprint_of spec) then snd (snd (sync_view ips k sb))
             else Some (spec_allowed_ips spec))
       else sync_view ips k sb)"
proof -
  obtain s b where sb: "sb = (s, b)" by force
  let ?key = "peer_public_key p"
  have okb: "ok b" and okk: "hm_ok (sy_known s)" using assms(1) by (simp_all add: synced_ok_def sb)
  have key: "spec_public_key spec = ?key" using build_peer_spec_cases(2) [OF assms(2)] by blast
  obtain b1 where rem: "wg_remove_peer wg ?key b = (True, b1)" and b1: "ok b1" "ips b1 = (ips b)(?key := None)"
    using remove_ok [OF okb, of ?key] remove_succeeds [OF okb, of ?key] by (metis prod.collapse)
  obtain b2 where add: "wg_add_peer wg spec b = (True, b2)" and b2: "ok b2" "ips b2 = (ips b)(?key := Some (spec_allowed_ips spec))"
    using add_ok [OF okb, of spec] add_succeeds [OF okb, of spec] key by (metis prod.collapse)
  obtain b3 where add1: "wg_add_peer wg spec b1 = (True, b3)" and b3: "ok b3" "ips b3 = (ips b1)(?key := Some (spec_allowed_ips spec))"
    using add_ok [OF b1(1), of spec] add_succeeds [OF b1(1), of spec] key by (metis prod.collapse)
  note facts = okb okk rem add add1 b1 b2 b3
  show "synced_ok (sync_peer read_psk wg sb p)"
    by (cases "hm_get (sy_known s) ?key") (simp_all add: sb sync_peer_def assms(2) Let_def synced_ok_def facts hm.ok_insert)
  show "sync_view ips k (sync_peer read_psk wg sb p) =
      (if k = peer_public_key p
       then (Some (fingerprint_of spec), fst (snd (sync_view ips k sb)),
             if fst (sync_view ips k sb) = Some (fingerprint_of spec) then snd (snd (sync_view ips k sb))
             else Some (spec_allowed_ips spec))
       else sync_view ips k sb)"
    by (cases "hm_get (sy_known s) ?key")
      (simp_all add: sb sync_peer_def assms(2) Let_def sync_view_def facts hm.get_insert)
qed

lemma sync_all:
  assumes "synced_ok sb" and "distinct (map peer_public_key ps)"
    and "\<forall>p \<in> set ps. \<exists>spec. build_peer_spec read_psk Host_Role p = Inr spec"
  shows "synced_ok (foldl (sync_peer read_psk wg) sb ps) \<and>
    sync_view ips k (foldl (sync_peer read_psk wg) sb ps) =
      (case find (\<lambda>p. peer_public_key p = k) ps of
         None \<Rightarrow> sync_view ips k sb
       | Some p \<Rightarrow> (case build_peer_spec read_psk Host_Role p of
            Inl _ \<Rightarrow> sync_view ips k sb
          | Inr spec \<Rightarrow> (Some (fingerprint_of spec), fst (snd (sync_view ips k sb)),
              if fst (sync_view ips k sb) = Some (fingerprint_of spec) then snd (snd (sync_view ips k sb))
              else Some (spec_allowed_ips spec))))"
  using assms
proof (induction ps arbitrary: sb)
  case (Cons p ps)
  then obtain spec where spec: "build_peer_spec read_psk Host_Role p = Inr spec" by auto
  note v = sync_peer_view [OF Cons.prems(1) spec]
  have IH: "synced_ok (foldl (sync_peer read_psk wg) (sync_peer read_psk wg sb p) ps) \<and>
    sync_view ips k (foldl (sync_peer read_psk wg) (sync_peer read_psk wg sb p) ps) =
      (case find (\<lambda>p. peer_public_key p = k) ps of
         None \<Rightarrow> sync_view ips k (sync_peer read_psk wg sb p)
       | Some q \<Rightarrow> (case build_peer_spec read_psk Host_Role q of
            Inl _ \<Rightarrow> sync_view ips k (sync_peer read_psk wg sb p)
          | Inr spec \<Rightarrow> (Some (fingerprint_of spec), fst (snd (sync_view ips k (sync_peer read_psk wg sb p))),
              if fst (sync_view ips k (sync_peer read_psk wg sb p)) = Some (fingerprint_of spec)
              then snd (snd (sync_view ips k (sync_peer read_psk wg sb p)))
              else Some (spec_allowed_ips spec))))"
    using Cons.IH [OF v(1)] Cons.prems(2,3) by simp
  show ?case
  proof (cases "peer_public_key p = k")
    case True
    then have "find (\<lambda>p. peer_public_key p = k) ps = None"
      using Cons.prems(2) by (simp add: find_key_None)
    with IH v(2) [of k] True spec show ?thesis by simp
  next
    case False
    then have same: "sync_view ips k (sync_peer read_psk wg sb p) = sync_view ips k sb" using v(2) [of k] by simp
    from IH False show ?thesis unfolding same by simp
  qed
qed simp

lemma retire_peer_view:
  assumes "synced_ok (fst st)"
  shows "synced_ok (fst (retire_peer wg connections st (key, ip)))"
    and "sync_view ips k (fst (retire_peer wg connections st (key, ip))) =
      (if k = key then (if fst (snd (sync_view ips k (fst st))) then (None, False, None)
                        else (fst (sync_view ips k (fst st)), True, snd (snd (sync_view ips k (fst st)))))
       else sync_view ips k (fst st))"
  using assms forget_peer_view [OF assms, where key = key]
  by (cases st, cases "fst st", auto simp: retire_peer_def synced_ok_def sync_view_def)+

lemma retire_all:
  assumes "synced_ok (fst st)" and "distinct (map fst kis)"
  shows "synced_ok (fst (foldl (retire_peer wg connections) st kis)) \<and>
    sync_view ips k (fst (foldl (retire_peer wg connections) st kis)) =
      (if k \<in> fst ` set kis then (if fst (snd (sync_view ips k (fst st))) then (None, False, None)
                        else (fst (sync_view ips k (fst st)), True, snd (snd (sync_view ips k (fst st)))))
       else sync_view ips k (fst st))"
  using assms
proof (induction kis arbitrary: st)
  case (Cons ki kis)
  obtain key ip where ki: "ki = (key, ip)" by force
  note v = retire_peer_view [OF Cons.prems(1), where connections = connections and key = key and ip = ip]
  have "distinct (map fst kis)" "key \<notin> fst ` set kis" using Cons.prems(2) ki by auto
  with Cons.IH [OF v(1)] v(2) [where k = k] ki show ?case by auto
qed simp

lemma sync_peers_view:
  assumes "synced_ok sb" and "distinct (config_keys now cfg)" and "specs_readable read_psk now cfg"
  shows "synced_ok (fst (sync_peers read_psk wg now cfg connections sb)) \<and>
    sync_view ips k (fst (sync_peers read_psk wg now cfg connections sb)) =
      peer_link_step (wanted_print read_psk now cfg k) (takes_over now cfg) (sync_view ips k sb)"
proof -
  let ?keys = "map fst (filter (\<lambda>(key, fp). key \<notin> set (config_keys now cfg) \<and> takes_over now cfg (fp_ip fp)) (sy_known (fst sb)))"
  define sb1 where "sb1 = remove_rotated wg now cfg sb"
  define sb2 where "sb2 = foldl (sync_peer read_psk wg) sb1 (eligible_peers now cfg)"
  let ?gone = "map (\<lambda>(key, fp). (key, fp_ip fp)) (filter (\<lambda>(key, _). key \<notin> set (config_keys now cfg)) (sy_known (fst sb2)))"
  have ok0: "hm_ok (sy_known (fst sb))" using assms(1) by (simp add: synced_ok_def)
  have rot: "k \<in> set ?keys \<longleftrightarrow> k \<notin> set (config_keys now cfg) \<and>
      (case fst (sync_view ips k sb) of None \<Rightarrow> False | Some fp \<Rightarrow> takes_over now cfg (fp_ip fp))"
    unfolding hm_filter_keys [OF ok0] by (cases sb) (auto simp: sync_view_def split: option.splits)
  have v1: "synced_ok sb1" "sync_view ips k sb1 = (if k \<in> set ?keys then (None, False, None) else sync_view ips k sb)"
    using forget_all [OF assms(1), where keys = ?keys and k = k] by (simp_all add: sb1_def remove_rotated_def)
  have spec: "\<exists>spec. build_peer_spec read_psk Host_Role p = Inr spec" if "p \<in> set (eligible_peers now cfg)" for p
    using assms(3) that build_peer_spec_cases(1) by (cases "build_peer_spec read_psk Host_Role p")
      (auto simp: specs_readable_def list_all_iff)
  have d: "distinct (map peer_public_key (eligible_peers now cfg))" using assms(2) by (simp add: config_keys_def)
  note v2 = sync_all [OF v1(1) d, where read_psk = read_psk and k = k, folded sb2_def]
  have s2: "synced_ok sb2" using v2 spec by blast
  then have ok2: "hm_ok (sy_known (fst sb2))" by (simp add: synced_ok_def)
  have "map fst ?gone = filter (\<lambda>key. key \<notin> set (config_keys now cfg)) (map fst (sy_known (fst sb2)))"
    by (induction "sy_known (fst sb2)") (auto simp: filter_map comp_def split_def)
  then have dg: "distinct (map fst ?gone)" using ok2 by (simp add: hm_ok_def)
  have "map fst ?gone = map fst (filter (\<lambda>(key, _). key \<notin> set (config_keys now cfg)) (sy_known (fst sb2)))"
    by simp
  then have "fst ` set ?gone = set (map fst (filter (\<lambda>(key, _). key \<notin> set (config_keys now cfg)) (sy_known (fst sb2))))"
    by (metis set_map)
  then have gone: "k \<in> fst ` set ?gone \<longleftrightarrow> k \<notin> set (config_keys now cfg) \<and> fst (sync_view ips k sb2) \<noteq> None"
    by (simp only: hm_filter_keys [OF ok2]) (auto simp: sync_view_def split: prod.splits)
  have fin: "fst (sync_peers read_psk wg now cfg connections sb) = fst (foldl (retire_peer wg connections) (sb2, []) ?gone)"
    by (simp add: sync_peers_def Let_def sb1_def sb2_def)
  have s: "synced_ok (fst (sb2, [] :: ipv4 list))" using s2 by simp
  note v3 = retire_all [OF s dg, where connections = connections and k = k]
  have keyed: "k \<in> set (config_keys now cfg) \<longleftrightarrow> find (\<lambda>p. peer_public_key p = k) (eligible_peers now cfg) \<noteq> None"
    by (simp add: config_keys_def find_key_None)
  show ?thesis
  proof (cases "find (\<lambda>p. peer_public_key p = k) (eligible_peers now cfg)")
    case None
    then have w: "wanted_print read_psk now cfg k = None" and nk: "k \<notin> set (config_keys now cfg)"
      using keyed by (simp_all add: wanted_print_def)
    have "sync_view ips k sb2 = sync_view ips k sb1" using v2 None spec by simp
    with v3 v1(2) rot gone nk show ?thesis unfolding fin w
      by (cases "sync_view ips k sb") (auto simp: peer_link_step_def split: option.splits)
  next
    case (Some p)
    then have nk: "k \<in> set (config_keys now cfg)" using keyed by simp
    from Some find_Some_set [OF Some] spec obtain sp where sp: "build_peer_spec read_psk Host_Role p = Inr sp" by blast
    then have w: "wanted_print read_psk now cfg k = Some (fingerprint_of sp)" by (simp add: wanted_print_def Some)
    have "sync_view ips k sb1 = sync_view ips k sb" using v1(2) rot nk by simp
    with v2 spec Some sp v3 gone nk show ?thesis unfolding fin w
      by (cases "sync_view ips k sb") (auto simp: peer_link_step_def)
  qed
qed

end

section \<open>Interface names\<close>

lemma free_if_name_spec:
  "\<exists>j \<ge> i. free_if_name i used = if_candidate j \<and> if_candidate j \<notin> set used \<and> if_candidate ` {i..<j} \<subseteq> set used"
proof (induction i used rule: free_if_name.induct)
  case (1 i used)
  show ?case
  proof (cases "if_candidate i \<in> set used")
    case True
    with 1 obtain j where j: "i + 1 \<le> j" "free_if_name (i + 1) used = if_candidate j" "if_candidate j \<notin> set used"
      "if_candidate ` {i + 1..<j} \<subseteq> set used" by auto
    then have "{i..<j} = insert i {i + 1..<j}" by auto
    with j True show ?thesis by (intro exI [of _ j]) (auto simp: free_if_name.simps [of i])
  qed (auto simp: free_if_name.simps [of i])
qed

text \<open>
  C33: (\<^verbatim>\<open>plan_interface\<close>) the search for an interface name ends for every set of running
  networks: the plan is an unused name, and for the default name the first free one of
  \<^verbatim>\<open>peercove0, peercove1, ...\<close>, or it is an error that names a running network whose subnet overlaps or the
  configured name that is in use.
\<close>

theorem planned_name_free:
  "case plan_interface api cfg limits of
     Inr name \<Rightarrow> name \<notin> set (used_if_names limits) \<and>
       (if if_name (cfg_interface cfg) \<noteq> DEFAULT_IF_NAME then name = if_name (cfg_interface cfg)
        else \<exists>i. name = if_candidate i \<and> if_candidate ` {..<i} \<subseteq> set (used_if_names limits))
   | Inl (Subnet_In_Use network) \<Rightarrow>
       \<exists>used. (used, network) \<in> set (used_subnets limits) \<and>
         (net_contains api used (net_addr (net_trunc api (if_address (cfg_interface cfg)))) \<or>
          net_contains api (net_trunc api (if_address (cfg_interface cfg))) (net_addr used))
   | Inl (If_Name_In_Use name) \<Rightarrow> name = if_name (cfg_interface cfg) \<and> name \<in> set (used_if_names limits)"
proof -
  let ?subnet = "net_trunc api (if_address (cfg_interface cfg))"
  let ?P = "\<lambda>(used, _). net_contains api used (net_addr ?subnet) \<or> net_contains api ?subnet (net_addr used)"
  show ?thesis
  proof (cases "find ?P (used_subnets limits)")
    case (Some x)
    obtain used network where x: "x = (used, network)" by force
    from find_Some_set [OF Some] have "(used, network) \<in> set (used_subnets limits)" "?P (used, network)" unfolding x by blast+
    then show ?thesis using Some x by (auto simp: plan_interface_def Let_def)
  next
    case None
    from free_if_name_spec [of 0 "used_if_names limits"] obtain j
      where j: "free_if_name 0 (used_if_names limits) = if_candidate j" "if_candidate j \<notin> set (used_if_names limits)"
        "if_candidate ` {..<j} \<subseteq> set (used_if_names limits)" by (auto simp: atLeast0LessThan)
    with None show ?thesis
      by (auto simp: plan_interface_def Let_def bail_if_def)
  qed
qed

section \<open>Peers of the host\<close>

text \<open>The tunnel holds for every known peer the AllowedIPs of its fingerprint, and no other peer.\<close>

definition tunnel_matches :: "sync_state \<Rightarrow> windows_backend \<Rightarrow> bool" where
  "tunnel_matches s b \<longleftrightarrow> (\<forall>k. windows_ips b k = map_option fp_allowed_ips (hm_get (sy_known s) k))"

lemma peer_link_step_matches:
  "tb = map_option fp_allowed_ips known \<Longrightarrow> peer_link_step wanted taken (known, pending, tb) = (known', pending', tb') \<Longrightarrow>
    tb' = map_option fp_allowed_ips known'"
  by (auto simp: peer_link_step_def split: option.splits if_splits)

lemma windows_sync:
  assumes "windows_up b" and "hm_ok (sy_known s)" and "distinct (config_keys now cfg)" and "specs_readable read_psk now cfg"
    and "sync_peers read_psk (windows_ops netsh) now cfg connections (s, b) = ((s', b'), told)"
  shows "windows_up b'" and "hm_ok (sy_known s')"
    and "sync_view windows_ips k (s', b') =
      peer_link_step (wanted_print read_psk now cfg k) (takes_over now cfg) (sync_view windows_ips k (s, b))"
    and "tunnel_matches s b \<Longrightarrow> tunnel_matches s' b'"
proof -
  have ok: "running.synced_ok (s, b)" using assms(1,2) by (simp add: running.synced_ok_def)
  note v = running.sync_peers_view [OF ok assms(3,4), where netsh = netsh and connections = connections, unfolded assms(5) fst_conv]
  show "windows_up b'" "hm_ok (sy_known s')" using v by (simp_all add: running.synced_ok_def)
  show view: "sync_view windows_ips k (s', b') =
      peer_link_step (wanted_print read_psk now cfg k) (takes_over now cfg) (sync_view windows_ips k (s, b))" for k
    using v by blast
  show "tunnel_matches s' b'" if m: "tunnel_matches s b"
    unfolding tunnel_matches_def
  proof
    fix k
    have "peer_link_step (wanted_print read_psk now cfg k) (takes_over now cfg)
        (hm_get (sy_known s) k, k \<in> set (sy_pending s), windows_ips b k)
      = (hm_get (sy_known s') k, k \<in> set (sy_pending s'), windows_ips b' k)"
      using view [of k] by (simp add: sync_view_def)
    from peer_link_step_matches [OF _ this] m
    show "windows_ips b' k = map_option fp_allowed_ips (hm_get (sy_known s') k)" by (simp add: tunnel_matches_def)
  qed
qed

text \<open>
  C20: (\<^verbatim>\<open>sync_peers\<close> on the Windows backend) two ticks after a configuration was
  written, the tunnel holds exactly its admissible peers, each with its addresses and advertised subnets: new and changed
  peers are there after the first tick, and peers that are gone, expired or replaced by a new key are out after the second.
\<close>

theorem peers_converge:
  assumes "windows_up b" and "hm_ok (sy_known s)" and "tunnel_matches s b"
    and "distinct (config_keys now cfg)" and "specs_readable read_psk now cfg"
    and "sync_peers read_psk (windows_ops netsh) now cfg con1 (s, b) = ((s1, b1), told1)"
    and "sync_peers read_psk (windows_ops netsh) now cfg con2 (s1, b1) = ((s2, b2), told2)"
  shows "windows_ips b2 k = map_option fp_allowed_ips (wanted_print read_psk now cfg k)
    \<and> (windows_ips b1 k = windows_ips b2 k
       \<or> (wanted_print read_psk now cfg k = None \<and> windows_ips b1 k = windows_ips b k))"
proof -
  note w1 = windows_sync [OF assms(1,2,4-6)]
  note w2 = windows_sync [OF w1(1,2) assms(4,5,7)]
  from w1(3) [of k] w2(3) [of k] assms(3) w1(4) [OF assms(3)] show ?thesis
    by (auto simp: sync_view_def peer_link_step_def tunnel_matches_def split: option.splits if_splits)
qed

text \<open>
  (\<^verbatim>\<open>sync_peers\<close>) a peer leaves the tunnel in a tick only if another admissible peer has
  taken over its address (a new key) or its removal was pending already; otherwise the first tick without it only marks it.
\<close>

theorem removal_in_two_steps:
  assumes "windows_up b" and "hm_ok (sy_known s)" and "tunnel_matches s b"
    and "distinct (config_keys now cfg)" and "specs_readable read_psk now cfg"
    and "sync_peers read_psk (windows_ops netsh) now cfg connections (s, b) = ((s', b'), told)"
    and "hm_get (sy_known s) k = Some fp" and "windows_ips b' k = None"
  shows "wanted_print read_psk now cfg k = None \<and> (takes_over now cfg (fp_ip fp) \<or> k \<in> set (sy_pending s))"
proof -
  note w = windows_sync [OF assms(1,2,4-6)]
  from w(3) [of k] w(4) [OF assms(3)] assms(3,7,8) show ?thesis
    by (auto simp: sync_view_def peer_link_step_def tunnel_matches_def split: option.splits if_splits)
qed

text \<open>
  The mark survives when the peer comes back: it is cleared only with the peer. A peer that was removed and added again
  before the second tick leaves at the first tick of its next removal, without the notice.
\<close>

lemma returned_peer_stays_marked:
  "peer_link_step (Some fp) taken (Some fp, True, tb) = (Some fp, True, tb)"
  "peer_link_step None taken (Some fp, True, tb) = (None, False, None)"
  by (simp_all add: peer_link_step_def)

text \<open>
  A change is a removal and an addition. If only the addition fails, the supervisor still knows the old fingerprint: when
  the change is taken back, nothing is done and the peer stays out of the tunnel.
\<close>

lemma failed_readd_forgotten:
  assumes "build_peer_spec read_psk Host_Role old = Inr spec_old" and "build_peer_spec read_psk Host_Role new = Inr spec_new"
    and "peer_public_key new = peer_public_key old" and "fingerprint_of spec_new \<noteq> fingerprint_of spec_old"
    and "hm_get (sy_known s) (peer_public_key old) = Some (fingerprint_of spec_old)"
    and "wg_remove_peer wg (peer_public_key old) b = (True, b1)" and "wg_add_peer wg spec_new b1 = (False, b2)"
  shows "sync_peer read_psk wg (sync_peer read_psk wg (s, b) new) old = (s, b2)"
  using assms by (simp add: sync_peer_def Let_def)

section \<open>Isolation\<close>

definition backend_isolated :: "windows_backend \<Rightarrow> ipv4 list option" where
  "backend_isolated w = map_option dev_isolated (wb_running w)"

lemma isolated_kept:
  "backend_isolated (snd (windows_add_peer spec w)) = backend_isolated w"
  "backend_isolated (snd (windows_remove_peer key w)) = backend_isolated w"
  "backend_isolated (snd (windows_sync_acl pol w)) = backend_isolated w"
  by (simp_all add: backend_isolated_def windows_add_peer_def windows_remove_peer_def windows_sync_acl_def on_device_def
      set_acl_def split: option.splits)

lemma isolated_sync_peer:
  "backend_isolated (snd (sync_peer read_psk (windows_ops netsh) sb p)) = backend_isolated (snd sb)"
  using isolated_kept
  by (cases sb) (auto simp: sync_peer_def windows_ops_def Let_def split: sum.splits option.splits prod.splits;
      metis snd_conv)

lemma isolated_forget:
  "backend_isolated (snd (forget_peer (windows_ops netsh) key sb)) = backend_isolated (snd sb)"
  using isolated_kept(2) [of key "snd sb"]
  by (cases sb) (auto simp: forget_peer_def windows_ops_def split: prod.splits)

lemma isolated_retire:
  "backend_isolated (snd (fst (retire_peer (windows_ops netsh) con st ki))) = backend_isolated (snd (fst st))"
  using isolated_forget [of netsh "fst ki" "fst st"]
  by (cases st, cases ki, cases "fst st") (auto simp: retire_peer_def)

lemma foldl_keeps: "(\<And>a x. f (g a x) = f a) \<Longrightarrow> f (foldl g a xs) = f a"
  by (induction xs arbitrary: a) simp_all

lemma isolated_sync_peers:
  "backend_isolated (snd (fst (sync_peers read_psk (windows_ops netsh) now cfg con sb))) = backend_isolated (snd sb)"
proof -
  have "backend_isolated (snd (fst (sync_peers read_psk (windows_ops netsh) now cfg con sb)))
      = backend_isolated (snd (foldl (sync_peer read_psk (windows_ops netsh))
          (remove_rotated (windows_ops netsh) now cfg sb) (eligible_peers now cfg)))"
    unfolding sync_peers_def Let_def
    by (subst foldl_keeps [where f = "\<lambda>st. backend_isolated (snd (fst st))"]) (simp_all add: isolated_retire)
  also have "\<dots> = backend_isolated (snd (remove_rotated (windows_ops netsh) now cfg sb))"
    by (rule foldl_keeps [where f = "\<lambda>sb. backend_isolated (snd sb)"]) (rule isolated_sync_peer)
  also have "\<dots> = backend_isolated (snd sb)"
    unfolding remove_rotated_def
    by (rule foldl_keeps [where f = "\<lambda>sb. backend_isolated (snd sb)"]) (rule isolated_forget)
  finally show ?thesis .
qed

lemma sync_routes_backend: "snd (sync_routes (windows_ops netsh) wanted (current, b)) = b"
proof -
  have "snd (foldl (\<lambda>(current, b) n. let (ok, b') = wg_add_route (windows_ops netsh) n b
      in (if ok then n # current else current, b')) cb ns) = snd cb" for cb and ns :: "ipv4net list"
    by (induction ns arbitrary: cb) (auto simp: windows_ops_def)
  moreover have "snd (foldl (\<lambda>(current, b) n. let (ok, b') = wg_remove_route (windows_ops netsh) n b
      in (if ok then removeAll n current else current, b')) cb ns) = snd cb" for cb and ns :: "ipv4net list"
    by (induction ns arbitrary: cb) (auto simp: windows_ops_def)
  ultimately show ?thesis by (simp add: sync_routes_def Let_def)
qed

lemma windows_isolation_applied:
  assumes "windows_up b" and "applied = None \<or> backend_isolated b = applied"
    and "apply_invite_isolation (windows_ops netsh) cfg (applied, b) = (ready, applied', b')"
  shows "ready \<and> windows_up b' \<and> windows_ips b' = windows_ips b \<and> backend_isolated b' = Some (invite_isolation cfg)
    \<and> applied' = Some (invite_isolation cfg)"
proof -
  obtain d where d: "wb_running b = Some d" "table_ok (dev_peers d)"
    using assms(1) by (auto simp: windows_up_def windows_ok_def split: option.splits)
  then show ?thesis using assms
    by (auto simp: apply_invite_isolation_def Let_def windows_ops_def windows_sync_isolation_def on_device_def set_isolated_def
        windows_up_def windows_ok_def windows_ips_def backend_isolated_def fun_eq_iff split: if_splits)
qed

lemma windows_acl_applied:
  assumes "windows_up b" and "apply_acl api (windows_ops netsh) cfg (applied, b) = (applied', b')"
  shows "windows_up b' \<and> windows_ips b' = windows_ips b \<and> backend_isolated b' = backend_isolated b"
proof -
  obtain d where d: "wb_running b = Some d" "table_ok (dev_peers d)"
    using assms(1) by (auto simp: windows_up_def windows_ok_def split: option.splits)
  then show ?thesis using assms
    by (auto simp: apply_acl_def Let_def windows_ops_def windows_sync_acl_def on_device_def set_acl_def windows_up_def
        windows_ok_def windows_ips_def backend_isolated_def fun_eq_iff split: if_splits sum.splits)
qed

lemma invite_isolation_mem:
  assumes "p \<in> set (cfg_peers cfg)" and "invite_is_isolated p" and "peer_allowed_ips p = n # ns"
  shows "net_addr n \<in> set (invite_isolation cfg)"
  using assms by (force simp: invite_isolation_def set_map_filter)

lemma wanted_print_member:
  assumes "distinct (config_keys now cfg)" and "p \<in> set (cfg_peers cfg)" and "invite_allows_connection p now"
    and "specs_readable read_psk now cfg"
  shows "\<exists>fp. wanted_print read_psk now cfg (peer_public_key p) = Some fp
    \<and> fp_allowed_ips fp = peer_allowed_ips p @ peer_subnets p"
proof -
  have el: "p \<in> set (eligible_peers now cfg)" using assms(2,3) by (simp add: eligible_peers_def)
  have "find (\<lambda>q. peer_public_key q = peer_public_key p) (eligible_peers now cfg) = Some p"
    by (rule find_distinct_key [OF _ el]) (use assms(1) in \<open>simp add: config_keys_def\<close>)
  moreover obtain spec where spec: "build_peer_spec read_psk Host_Role p = Inr spec"
    using assms(4) el build_peer_spec_cases(1) by (cases "build_peer_spec read_psk Host_Role p")
      (auto simp: specs_readable_def list_all_iff)
  ultimately show ?thesis using build_peer_spec_cases(2) [OF spec] by (simp add: wanted_print_def)
qed

lemma windows_ips_cell:
  assumes "wb_running b = Some d" and "hm_get (pt_by_key (dev_peers d)) key = Some i"
  shows "windows_ips b key = Some (dp_allowed_ips (pt_cells (dev_peers d) i))"
  using assms by (simp add: windows_ips_def table_ips_def)

lemma host_sync_parts:
  assumes "windows_up b" and "hm_ok (sy_known (ho_sync h))" and "tunnel_matches (ho_sync h) b"
    and "ho_isolation h = None \<or> backend_isolated b = ho_isolation h"
    and "distinct (config_keys now cfg)" and "specs_readable read_psk now cfg"
    and "host_sync read_psk api (windows_ops netsh) now cfg connections (h, b) = ((h', b'), told)"
  shows "windows_up b'" and "backend_isolated b' = Some (invite_isolation cfg)"
    and "wanted_print read_psk now cfg k = Some fp \<Longrightarrow> windows_ips b' k = Some (fp_allowed_ips fp)"
proof -
  obtain ready applied b1 where iso: "apply_invite_isolation (windows_ops netsh) cfg (ho_isolation h, b) = (ready, applied, b1)"
    using prod_cases3 by blast
  note w1 = windows_isolation_applied [OF assms(1,4) iso]
  obtain s b2 told' where sync: "sync_peers read_psk (windows_ops netsh) now cfg connections (ho_sync h, b1) = ((s, b2), told')"
    by (metis prod.collapse)
  obtain routes b3 where routes: "sync_routes (windows_ops netsh) (concat (map peer_subnets (cfg_peers cfg))) (ho_routes h, b2) = (routes, b3)"
    by force
  obtain acl b4 where acl: "apply_acl api (windows_ops netsh) cfg (ho_acl h, b3) = (acl, b4)" by force
  have m1: "tunnel_matches (ho_sync h) b1" using assms(3) w1 by (simp add: tunnel_matches_def)
  have up1: "windows_up b1" using w1 by blast
  note w2 = windows_sync [OF up1 assms(2,5,6) sync]
  have b3: "b3 = b2" using sync_routes_backend [of netsh] routes by (metis snd_conv)
  note w4 = windows_acl_applied [OF w2(1), of api netsh cfg "ho_acl h" acl b4, OF acl [unfolded b3]]
  have b': "b' = b4" using assms(7) w1 iso sync routes acl by (simp add: host_sync_def)
  show "windows_up b'" using w4 b' by simp
  show "backend_isolated b' = Some (invite_isolation cfg)"
    using w4 w1 isolated_sync_peers [of read_psk netsh now cfg connections "(ho_sync h, b1)"] sync b' by simp
  show "windows_ips b' k = Some (fp_allowed_ips fp)" if "wanted_print read_psk now cfg k = Some fp"
  proof -
    have "hm_get (sy_known s) k = Some fp"
      using w2(3) [of k] that by (simp add: sync_view_def peer_link_step_def)
    then show ?thesis using w2(4) [OF m1] w4 b' by (simp add: tunnel_matches_def)
  qed
qed

text \<open>
  C13: (supervisor and relay together) after every tick of the host, each device that joined with an
  invitation that asks for approval and is not approved yet is isolated in the relay: the device drops everything but its control
  connection. There is no tick in which it is in the tunnel and not isolated.
\<close>

theorem unapproved_peer_isolated:
  assumes "windows_up b" and "hm_ok (sy_known (ho_sync h))" and "tunnel_matches (ho_sync h) b"
    and "ho_isolation h = None \<or> backend_isolated b = ho_isolation h"
    and "distinct (config_keys now cfg)" and "specs_readable read_psk now cfg"
    and "host_sync read_psk api (windows_ops netsh) now cfg connections (h, b) = ((h', b'), told)"
    and "wb_running b' = Some d" and "p \<in> set (cfg_peers cfg)" and "invite_allows_connection p now" and "invite_is_isolated p"
    and "peer_allowed_ips p \<noteq> []" and "hm_get (pt_by_key (dev_peers d)) (peer_public_key p) = Some i"
  shows "is_isolated d (pt_cells (dev_peers d) i)"
proof -
  note parts = host_sync_parts [OF assms(1-7)]
  have di: "dev_isolated d = invite_isolation cfg" using parts(2) assms(8) by (simp add: backend_isolated_def)
  from wanted_print_member [OF assms(5,9,10,6)] obtain fp
    where fp: "wanted_print read_psk now cfg (peer_public_key p) = Some fp" "fp_allowed_ips fp = peer_allowed_ips p @ peer_subnets p" by blast
  have cell: "dp_allowed_ips (pt_cells (dev_peers d) i) = peer_allowed_ips p @ peer_subnets p"
    using parts(3) [OF fp(1)] fp(2) windows_ips_cell [OF assms(8,13)] by simp
  obtain n ns where n: "peer_allowed_ips p = n # ns" using assms(12) by (cases "peer_allowed_ips p") auto
  show ?thesis
    using cell n invite_isolation_mem [OF assms(9,11) n] by (simp add: is_isolated_def virtual_ip_def di)
qed

section \<open>Witnesses\<close>

definition waiting_peer :: peer_config where
  "waiting_peer = (sample_peer [3] 0x0A000003)\<lparr>peer_invite_id := Some ''i3'', peer_invite_accepted_at := Some 50,
     peer_invite_requires_approval := True\<rparr>"

definition waiting_config :: config where
  "waiting_config = sample_config [sample_peer [2] 0x0A000002, waiting_peer] empty_acl"

definition alone_config :: config where
  "alone_config = sample_config [sample_peer [2] 0x0A000002] empty_acl"

definition no_psk :: "string \<Rightarrow> bytes option" where
  "no_psk f = None"

definition first_state :: sync_state where
  "first_state = \<lparr>sy_known = [], sy_pending = []\<rparr>"

definition first_host :: host_state where
  "first_host = \<lparr>ho_sync = first_state, ho_routes = [], ho_isolation = None, ho_acl = None\<rparr>"

lemma waiting_eligible: "eligible_peers 100 waiting_config = [sample_peer [2] 0x0A000002, waiting_peer]"
  by (simp add: eligible_peers_def waiting_config_def sample_config_def invite_allows_connection_def invite_state_def
      waiting_peer_def sample_peer_def)

lemma alone_eligible: "eligible_peers 100 alone_config = [sample_peer [2] 0x0A000002]"
  by (simp add: eligible_peers_def alone_config_def sample_config_def invite_allows_connection_def invite_state_def
      sample_peer_def)

lemma sample_spec_of [simp]:
  "build_peer_spec no_psk Host_Role (sample_peer k ip) = Inr \<lparr>spec_public_key = k, spec_endpoint = None,
     spec_allowed_ips = [host_net ip], spec_persistent_keepalive = None, spec_preshared_key = None\<rparr>"
  "build_peer_spec no_psk Host_Role waiting_peer = Inr \<lparr>spec_public_key = [3], spec_endpoint = None,
     spec_allowed_ips = [host_net 0x0A000003], spec_persistent_keepalive = None, spec_preshared_key = None\<rparr>"
  by (simp_all add: build_peer_spec_def sample_peer_def waiting_peer_def)

lemma sample_peer_keys [simp]: "peer_public_key (sample_peer k ip) = k" "peer_public_key waiting_peer = [3]"
  by (simp_all add: sample_peer_def waiting_peer_def)

lemma waiting_ok:
  "distinct (config_keys 100 waiting_config)" "specs_readable no_psk 100 waiting_config"
  "wanted_print no_psk 100 waiting_config [3] = Some \<lparr>fp_ip = 0x0A000003, fp_endpoint = None,
     fp_allowed_ips = [host_net 0x0A000003], fp_keepalive = None, fp_psk = None\<rparr>"
  by (simp_all add: config_keys_def specs_readable_def waiting_eligible wanted_print_def fingerprint_of_def)

lemma alone_ok:
  "distinct (config_keys 100 alone_config)" "specs_readable no_psk 100 alone_config"
  "wanted_print no_psk 100 alone_config [3] = None" "\<not> takes_over 100 alone_config 0x0A000003"
  by (simp_all add: config_keys_def specs_readable_def alone_eligible wanted_print_def takes_over_def)
    (simp add: sample_peer_def)

lemma first_state_ok: "hm_ok (sy_known first_state)" "tunnel_matches first_state fresh_backend"
  by (simp_all add: first_state_def hm.ok_empty tunnel_matches_def fresh_backend_ips hm.get_empty)

theorem peers_converge_witness:
  "\<exists>b1 b2. windows_ips b2 [3] = Some [host_net 0x0A000003]
    \<and> (windows_ips b1 [3] = windows_ips b2 [3]
       \<or> (wanted_print no_psk 100 waiting_config [3] = None \<and> windows_ips b1 [3] = windows_ips fresh_backend [3]))"
proof -
  let ?sync = "sync_peers no_psk (windows_ops (\<lambda>_ _. True)) 100 waiting_config []"
  obtain s1 b1 told1 where r1: "?sync (first_state, fresh_backend) = ((s1, b1), told1)" by (metis prod.collapse)
  obtain s2 b2 told2 where r2: "?sync (s1, b1) = ((s2, b2), told2)" by (metis prod.collapse)
  from peers_converge [OF fresh_backend_up first_state_ok waiting_ok(1,2) r1 r2, of "[3]"]
  show ?thesis unfolding waiting_ok(3) by auto
qed

theorem removal_in_two_steps_witness:
  "\<exists>s :: sync_state. wanted_print no_psk 100 alone_config [3] = None
    \<and> (takes_over 100 alone_config 0x0A000003 \<or> [3] \<in> set (sy_pending s))"
proof -
  let ?wg = "windows_ops (\<lambda>_ _. True)"
  obtain s1 b1 told1 where r1: "sync_peers no_psk ?wg 100 waiting_config [] (first_state, fresh_backend) = ((s1, b1), told1)"
    by (metis prod.collapse)
  obtain s2 b2 told2 where r2: "sync_peers no_psk ?wg 100 alone_config [] (s1, b1) = ((s2, b2), told2)"
    by (metis prod.collapse)
  obtain s3 b3 told3 where r3: "sync_peers no_psk ?wg 100 alone_config [] (s2, b2) = ((s3, b3), told3)"
    by (metis prod.collapse)
  let ?fp = "\<lparr>fp_ip = 0x0A000003, fp_endpoint = None, fp_allowed_ips = [host_net 0x0A000003], fp_keepalive = None, fp_psk = None\<rparr>"
  note w1 = windows_sync [OF fresh_backend_up first_state_ok(1) waiting_ok(1,2) r1]
  note w2 = windows_sync [OF w1(1,2) alone_ok(1,2) r2]
  note w3 = windows_sync [OF w2(1,2) alone_ok(1,2) r3]
  have v1: "sync_view windows_ips [3] (s1, b1) = (Some ?fp, False, Some [host_net 0x0A000003])"
    unfolding w1(3) waiting_ok(3) by (simp add: sync_view_def first_state_def hm.get_empty peer_link_step_def)
  have v2: "sync_view windows_ips [3] (s2, b2) = (Some ?fp, True, Some [host_net 0x0A000003])"
    unfolding w2(3) v1 alone_ok(3) by (simp add: peer_link_step_def alone_ok(4))
  have v3: "sync_view windows_ips [3] (s3, b3) = (None, False, None)"
    unfolding w3(3) v2 alone_ok(3) by (simp add: peer_link_step_def)
  have known: "hm_get (sy_known s2) [3] = Some ?fp" and gone: "windows_ips b3 [3] = None"
    using v2 v3 by (simp_all add: sync_view_def)
  from removal_in_two_steps [OF w2(1,2) w2(4) [OF w1(4) [OF first_state_ok(2)]] alone_ok(1,2) r3 known gone]
  have "wanted_print no_psk 100 alone_config [3] = None
      \<and> (takes_over 100 alone_config 0x0A000003 \<or> [3] \<in> set (sy_pending s2))" by simp
  then show ?thesis by blast
qed

theorem unapproved_peer_isolated_witness:
  "\<exists>(d :: device) i. hm_get (pt_by_key (dev_peers d)) [3] = Some i \<and> is_isolated d (pt_cells (dev_peers d) i)"
proof -
  let ?wg = "windows_ops (\<lambda>_ _. True)"
  obtain h b told where r: "host_sync no_psk cidr_api ?wg 100 waiting_config [] (first_host, fresh_backend) = ((h, b), told)"
    by (metis prod.collapse)
  have h: "hm_ok (sy_known (ho_sync first_host))" "tunnel_matches (ho_sync first_host) fresh_backend"
    "ho_isolation first_host = None \<or> backend_isolated fresh_backend = ho_isolation first_host"
    using first_state_ok by (simp_all add: first_host_def)
  note parts = host_sync_parts [OF fresh_backend_up h waiting_ok(1,2) r]
  have up: "windows_up b" and k: "windows_ips b [3] = Some [host_net 0x0A000003]"
    using parts(1) parts(3) [OF waiting_ok(3)] by simp_all
  from up obtain d where d: "wb_running b = Some d" by (auto simp: windows_up_def)
  with k obtain i where i: "hm_get (pt_by_key (dev_peers d)) [3] = Some i"
    by (auto simp: windows_ips_def table_ips_def)
  have "is_isolated d (pt_cells (dev_peers d) i)"
    by (rule unapproved_peer_isolated [OF fresh_backend_up h waiting_ok(1,2) r d, where p = waiting_peer])
      (use i in \<open>simp_all add: waiting_config_def sample_config_def
        invite_allows_connection_def invite_state_def invite_is_isolated_def waiting_peer_def sample_peer_def\<close>)
  with i show ?thesis by blast
qed

end
