(* ===== verification/Invite.thy ===== *)
theory Invite
  imports Peers_Laws
begin

text \<open>
  Issuing an invitation, \<^verbatim>\<open>crates/peercove-ops/src/invite.rs\<close>: the member is registered in
  \<^verbatim>\<open>host.toml\<close> and what it needs to join is packed into a token. What comes from outside is a field
  of \<open>invite_env\<close>: the address of the default route, the random bytes of the keys and the identifier, the
  public key of a private key (X25519), the clock, the reader of the host's key file, whether the file of the
  pre-shared key could be written, and the base64url encoder. The result is given together with the
  document that is on disk afterwards, also when the call fails.
\<close>

section \<open>Definitions\<close>

record invite_env =
  iv_lan_ip :: "ipv4 option"
  iv_member_key :: bytes
  iv_psk :: bytes
  iv_id_bytes :: bytes
  iv_public_key :: "bytes \<Rightarrow> public_key"
  iv_clock :: "nat option"
  iv_read_key :: "string \<Rightarrow> bytes option"
  iv_secret_written :: bool
  iv_b64 :: "bytes \<Rightarrow> string"

record invite_options =
  io_name :: "string option"
  io_ip :: "ipv4 option"
  io_extra_endpoints :: "(ipv4 \<times> u16) list"
  io_psk :: bool
  io_expires_in_secs :: "nat option"
  io_invited_by :: "(string \<times> string) option"

record invite_result =
  ir_token :: string
  ir_name :: string
  ir_ip :: ipv4
  ir_endpoints :: "(ipv4 \<times> u16) list"
  ir_psk :: bool
  ir_invite_id :: string
  ir_issued_at :: nat
  ir_expires_at :: "nat option"

definition generate_invite_id :: "invite_env \<Rightarrow> string" where
  "generate_invite_id iv = encode_invite_id (iv_id_bytes iv)"

text \<open>The address in the LAN comes first; repeated addresses are left out.\<close>

definition invite_endpoints :: "ipv4 option \<Rightarrow> u16 \<Rightarrow> (ipv4 \<times> u16) list \<Rightarrow> (ipv4 \<times> u16) list" where
  "invite_endpoints lan_ip listen_port extra =
     fold (\<lambda>ep eps. if ep \<in> set eps then eps else eps @ [ep]) extra
       (case lan_ip of Some ip \<Rightarrow> [(ip, listen_port)] | None \<Rightarrow> [])"

definition invite_dns_name :: "config \<Rightarrow> string \<Rightarrow> ipv4 \<Rightarrow> string" where
  "invite_dns_name cfg name ip =
     uniquify (case normalize_dns_name name False of Inr l \<Rightarrow> l | Inl _ \<Rightarrow> ''member-'' @ show_nat (last_octet ip))
       (last_octet ip) (taken_dns_labels cfg Exclude_None)"

text \<open>Everything up to \<^verbatim>\<open>append_peer\<close>: what the member and the token are made of.\<close>

record invite_draft =
  df_ip :: ipv4
  df_name :: string
  df_endpoints :: "(ipv4 \<times> u16) list"
  df_dns_name :: string
  df_issued_at :: nat
  df_expires_at :: "nat option"

definition invite_expiry :: "nat \<Rightarrow> nat option \<Rightarrow> ops_error + nat option" where
  "invite_expiry issued_at expires_in =
     (case expires_in of
        None \<Rightarrow> Inr None
      | Some s \<Rightarrow> bail_if (2 ^ 64 \<le> issued_at + s) Expiry_Overflow (Inr (Some (issued_at + s))))"

definition pick_ip :: "ops_env \<Rightarrow> config \<Rightarrow> ipv4 option \<Rightarrow> ops_error + ipv4" where
  "pick_ip env cfg wanted =
     (case wanted of
        Some ip \<Rightarrow> Inr ip
      | None \<Rightarrow>
          (case next_free_ip (env_api env) (net_trunc (env_api env) (if_address (cfg_interface cfg))) (used_ips cfg) of
             Some ip \<Rightarrow> Inr ip | None \<Rightarrow> Inl No_Free_Ip))"

definition draft_name :: "invite_options \<Rightarrow> ipv4 \<Rightarrow> string" where
  "draft_name opts ip = (case io_name opts of Some n \<Rightarrow> n | None \<Rightarrow> ''member-'' @ show_nat (last_octet ip))"

definition draft_endpoints :: "invite_env \<Rightarrow> config \<Rightarrow> invite_options \<Rightarrow> (ipv4 \<times> u16) list" where
  "draft_endpoints iv cfg opts =
     invite_endpoints (iv_lan_ip iv)
       (case if_listen_port (cfg_interface cfg) of Some p \<Rightarrow> p | None \<Rightarrow> DEFAULT_LISTEN_PORT)
       (io_extra_endpoints opts)"

definition draft_at :: "invite_env \<Rightarrow> config \<Rightarrow> invite_options \<Rightarrow> ipv4 \<Rightarrow> ops_error + invite_draft" where
  "draft_at iv cfg opts ip =
     (case validate_name (draft_name opts ip) of
        Some e \<Rightarrow> Inl e
      | None \<Rightarrow>
          bail_if (list_ex (\<lambda>p. peer_name p = Some (draft_name opts ip)) (cfg_peers cfg)) (Name_Taken (draft_name opts ip))
          (bail_if (draft_endpoints iv cfg opts = []) No_Endpoint
          (case iv_clock iv of
             None \<Rightarrow> Inl Clock_Before_Epoch
           | Some issued_at \<Rightarrow>
               and_then (invite_expiry issued_at (io_expires_in_secs opts)) (\<lambda>expires_at.
               bail_if (io_psk opts \<and> \<not> iv_secret_written iv) Secret_Not_Written
                 (Inr \<lparr>df_ip = ip, df_name = draft_name opts ip, df_endpoints = draft_endpoints iv cfg opts,
                       df_dns_name = invite_dns_name cfg (draft_name opts ip) ip, df_issued_at = issued_at,
                       df_expires_at = expires_at\<rparr>)))))"

definition draft_invite :: "ops_env \<Rightarrow> invite_env \<Rightarrow> config \<Rightarrow> invite_options \<Rightarrow> ops_error + invite_draft" where
  "draft_invite env iv file opts =
     and_then (load_config env file) (\<lambda>cfg.
     and_then (pick_ip env cfg (io_ip opts)) (draft_at iv cfg opts))"

definition draft_peer :: "invite_env \<Rightarrow> invite_options \<Rightarrow> invite_draft \<Rightarrow> new_peer" where
  "draft_peer iv opts d =
     \<lparr>np_public_key = iv_public_key iv (iv_member_key iv), np_ip = df_ip d, np_name = Some (df_name d),
      np_dns_name = Some (df_dns_name d),
      np_preshared_key_file = (if io_psk opts then Some (''peer-'' @ ip_text (df_ip d) @ ''.psk'') else None),
      np_invite_id = Some (generate_invite_id iv), np_invite_issued_at = Some (df_issued_at d),
      np_invite_expires_at = df_expires_at d, np_invited_by_id = map_option fst (io_invited_by opts),
      np_invited_by_name = map_option snd (io_invited_by opts)\<rparr>"

definition draft_token :: "ops_env \<Rightarrow> invite_env \<Rightarrow> config \<Rightarrow> invite_options \<Rightarrow> bytes \<Rightarrow> invite_draft \<Rightarrow> invite_token" where
  "draft_token env iv cfg opts host_key d =
     \<lparr>tok_member_private_key = iv_member_key iv, tok_host_public_key = iv_public_key iv host_key,
      tok_preshared_key = (if io_psk opts then Some (iv_psk iv) else None),
      tok_member_address = \<lparr>net_addr = df_ip d,
        net_prefix = net_prefix (net_trunc (env_api env) (if_address (cfg_interface cfg)))\<rparr>,
      tok_host_virtual_ip = net_addr (if_address (cfg_interface cfg)), tok_endpoints = df_endpoints d,
      tok_name = df_name d, tok_network = if_network_name (cfg_interface cfg),
      tok_invite_id = Some (generate_invite_id iv), tok_issued_at = Some (word_of_nat (df_issued_at d)),
      tok_expires_at = map_option word_of_nat (df_expires_at d)\<rparr>"

definition finish_invite :: "ops_env \<Rightarrow> invite_env \<Rightarrow> config \<Rightarrow> invite_options \<Rightarrow> invite_draft \<Rightarrow> ops_error + invite_result" where
  "finish_invite env iv cfg opts d =
     (case iv_read_key iv (if_private_key_file (cfg_interface cfg)) of
        None \<Rightarrow> Inl Host_Key_Unreadable
      | Some host_key \<Rightarrow>
          (case encode_token (iv_b64 iv) (draft_token env iv cfg opts host_key d) of
             Inl e \<Rightarrow> Inl (Token_Error e)
           | Inr text \<Rightarrow>
               Inr \<lparr>ir_token = text, ir_name = df_name d, ir_ip = df_ip d, ir_endpoints = df_endpoints d,
                    ir_psk = io_psk opts, ir_invite_id = generate_invite_id iv,
                    ir_issued_at = df_issued_at d, ir_expires_at = df_expires_at d\<rparr>))"

definition invite :: "ops_env \<Rightarrow> invite_env \<Rightarrow> config \<Rightarrow> config \<Rightarrow> invite_options
    \<Rightarrow> (ops_error + invite_result) \<times> config" where
  "invite env iv file doc opts =
     (case draft_invite env iv file opts of
        Inl e \<Rightarrow> (Inl e, doc)
      | Inr d \<Rightarrow>
          (case append_peer env doc (draft_peer iv opts d) of
             Inl e \<Rightarrow> (Inl e, doc)
           | Inr doc' \<Rightarrow> (finish_invite env iv (resolve_paths (env_resolve env) file) opts d, doc')))"

section \<open>Lemmas\<close>

text \<open>
  What a TOML reader makes of a Rust \<^verbatim>\<open>Debug\<close> string: the same string, or an error (an escape TOML
  does not know). Keys are 32 bytes, the identifier 16, names UTF-8, clocks and lifetimes \<^verbatim>\<open>u64\<close>.
\<close>

definition reads_back :: "ops_env \<Rightarrow> bool" where
  "reads_back env \<longleftrightarrow> (\<forall>s t. env_debug_string env s = Some t \<longrightarrow> t = s)"

definition invite_typed :: "invite_env \<Rightarrow> invite_options \<Rightarrow> bool" where
  "invite_typed iv opts \<longleftrightarrow>
     length (iv_member_key iv) = KEY_LEN \<and> length (iv_psk iv) = KEY_LEN \<and> length (iv_id_bytes iv) = INVITE_ID_LEN
     \<and> (\<forall>k. length (iv_public_key iv k) = KEY_LEN)
     \<and> (case io_name opts of Some n \<Rightarrow> utf8_valid n | None \<Rightarrow> True)
     \<and> (case iv_clock iv of Some t \<Rightarrow> t < 2 ^ 64 | None \<Rightarrow> True)"

lemma member_name_ascii: "ascii (''member-'' @ show_nat n)"
  using show_nat_visible [of _ n] by (fastforce simp: ascii_def is_digit_def)

lemma invite_expiry_Inr:
  "invite_expiry t s = Inr e \<longleftrightarrow> e = map_option ((+) t) s \<and> (case e of Some x \<Rightarrow> x < 2 ^ 64 | None \<Rightarrow> True)"
  by (auto simp: invite_expiry_def split: option.splits)

lemma draft_at_cases:
  assumes "draft_at iv cfg opts ip = Inr d"
  obtains issued_at expires_at where "validate_name (draft_name opts ip) = None"
    and "\<forall>p \<in> set (cfg_peers cfg). peer_name p \<noteq> Some (draft_name opts ip)"
    and "iv_clock iv = Some issued_at" and "invite_expiry issued_at (io_expires_in_secs opts) = Inr expires_at"
    and "d = \<lparr>df_ip = ip, df_name = draft_name opts ip, df_endpoints = draft_endpoints iv cfg opts,
      df_dns_name = invite_dns_name cfg (draft_name opts ip) ip, df_issued_at = issued_at, df_expires_at = expires_at\<rparr>"
proof -
  from assms have n: "validate_name (draft_name opts ip) = None"
    by (cases "validate_name (draft_name opts ip)") (simp_all add: draft_at_def)
  from assms obtain t where t: "iv_clock iv = Some t"
    by (cases "iv_clock iv") (simp_all add: draft_at_def n)
  from assms show thesis by (auto simp: draft_at_def n t list_ex_iff intro: that [OF n _ t])
qed

lemma draft_at_Inr:
  assumes "draft_at iv cfg opts ip = Inr d"
  shows "validate_name (df_name d) = None"
    and "\<forall>p \<in> set (cfg_peers cfg). peer_name p \<noteq> Some (df_name d)"
    and "df_name d = draft_name opts (df_ip d)"
    and "iv_clock iv = Some (df_issued_at d)"
    and "df_expires_at d = map_option ((+) (df_issued_at d)) (io_expires_in_secs opts)"
    and "case df_expires_at d of Some e \<Rightarrow> e < 2 ^ 64 | None \<Rightarrow> True"
    and "df_dns_name d = invite_dns_name cfg (df_name d) (df_ip d)"
    and "df_ip d = ip"
proof -
  obtain t e where n: "validate_name (draft_name opts ip) = None"
    and u: "\<forall>p \<in> set (cfg_peers cfg). peer_name p \<noteq> Some (draft_name opts ip)"
    and t: "iv_clock iv = Some t" and e: "invite_expiry t (io_expires_in_secs opts) = Inr e"
    and d: "d = \<lparr>df_ip = ip, df_name = draft_name opts ip, df_endpoints = draft_endpoints iv cfg opts,
      df_dns_name = invite_dns_name cfg (draft_name opts ip) ip, df_issued_at = t, df_expires_at = e\<rparr>"
    using assms by (rule draft_at_cases)
  show "validate_name (df_name d) = None" "\<forall>p \<in> set (cfg_peers cfg). peer_name p \<noteq> Some (df_name d)"
    "df_name d = draft_name opts (df_ip d)" "iv_clock iv = Some (df_issued_at d)"
    "df_dns_name d = invite_dns_name cfg (df_name d) (df_ip d)" "df_ip d = ip"
    using n u t by (simp_all add: d)
  show "df_expires_at d = map_option ((+) (df_issued_at d)) (io_expires_in_secs opts)"
    "case df_expires_at d of Some e \<Rightarrow> e < 2 ^ 64 | None \<Rightarrow> True"
    using e by (auto simp: d invite_expiry_Inr)
qed

lemma draft_invite_Inr:
  assumes "draft_invite env iv file opts = Inr d"
  shows "validate (env_api env) (resolve_paths (env_resolve env) file) = None"
    and "draft_at iv (resolve_paths (env_resolve env) file) opts (df_ip d) = Inr d"
proof -
  from assms obtain ip where v: "validate (env_api env) (resolve_paths (env_resolve env) file) = None"
    and d: "draft_at iv (resolve_paths (env_resolve env) file) opts ip = Inr d"
    by (auto simp: draft_invite_def)
  have "df_ip d = ip" by (rule draft_at_Inr(8) [OF d])
  with v d show "validate (env_api env) (resolve_paths (env_resolve env) file) = None"
    "draft_at iv (resolve_paths (env_resolve env) file) opts (df_ip d) = Inr d" by simp_all
qed

lemma peer_block_invited:
  assumes "peer_block env cfg np = Some p" and "reads_back env"
  shows "peer_invite_id p = np_invite_id np" and "peer_name p = np_name np" and "peer_dns_name p = np_dns_name np"
    and "peer_invited_by_id p = np_invited_by_id np" and "peer_invited_by_name p = np_invited_by_name np"
    and "peer_invite_issued_at p = np_invite_issued_at np" and "peer_invite_expires_at p = np_invite_expires_at np"
    and "\<not> peer_admin p" and "\<not> peer_can_invite p" and "peer_invite_accepted_at p = None"
    and "peer_invite_requires_approval p = (if_require_invite_approval (cfg_interface cfg) \<and> np_invite_id np \<noteq> None)"
    and "peer_preshared_key_file p = np_preshared_key_file np"
proof -
  have r: "t = s" if "read_back env s = Some t" for s t
    using that assms(2) by (cases s) (auto simp: read_back_def reads_back_def)
  from assms(1) obtain a b c d e f where
    "read_back env (np_name np) = Some a" "read_back env (np_dns_name np) = Some b"
    "read_back env (np_invite_id np) = Some c" "read_back env (np_invited_by_id np) = Some d"
    "read_back env (np_invited_by_name np) = Some e" "read_back env (np_preshared_key_file np) = Some f"
    by (auto simp: peer_block_def Option.bind_eq_Some_conv)
  moreover note this [THEN r]
  ultimately have p: "Some p = (if list_all toml_int_ok (somes [np_invite_issued_at np, np_invite_expires_at np]) then
         Some \<lparr>peer_name = np_name np, peer_dns_name = np_dns_name np, peer_invite_id = np_invite_id np,
           peer_invite_issued_at = np_invite_issued_at np, peer_invite_expires_at = np_invite_expires_at np,
           peer_invite_accepted_at = None, peer_invite_device_id = None,
           peer_invite_requires_approval = if_require_invite_approval (cfg_interface cfg) \<and> np_invite_id np \<noteq> None,
           peer_invite_approved_at = None, peer_can_invite = False, peer_admin = False,
           peer_invited_by_id = np_invited_by_id np, peer_invited_by_name = np_invited_by_name np,
           peer_control_host = None, peer_public_key = np_public_key np, peer_endpoint = None,
           peer_endpoint_fallbacks = [], peer_allowed_ips = [host_net (np_ip np)], peer_subnets = [],
           peer_persistent_keepalive = None, peer_preshared_key_file = np_preshared_key_file np\<rparr>
       else None)"
    using assms(1) by (simp add: peer_block_def)
  show "peer_invite_id p = np_invite_id np" "peer_name p = np_name np" "peer_dns_name p = np_dns_name np"
    "peer_invited_by_id p = np_invited_by_id np" "peer_invited_by_name p = np_invited_by_name np"
    "peer_invite_issued_at p = np_invite_issued_at np" "peer_invite_expires_at p = np_invite_expires_at np"
    "\<not> peer_admin p" "\<not> peer_can_invite p" "peer_invite_accepted_at p = None"
    "peer_invite_requires_approval p = (if_require_invite_approval (cfg_interface cfg) \<and> np_invite_id np \<noteq> None)"
    "peer_preshared_key_file p = np_preshared_key_file np"
    using p by (simp_all split: if_splits)
qed

lemma invite_Inr:
  assumes "invite env iv file doc opts = (Inr res, doc')"
  shows "\<exists>d p key. draft_invite env iv file opts = Inr d \<and> peer_block env doc (draft_peer iv opts d) = Some p
    \<and> doc' = doc\<lparr>cfg_peers := cfg_peers doc @ [p]\<rparr> \<and> validate (env_api env) doc' = None
    \<and> df_ip d \<notin> set (used_ips doc)
    \<and> iv_read_key iv (env_resolve env (if_private_key_file (cfg_interface file))) = Some key
    \<and> encode_token (iv_b64 iv) (draft_token env iv (resolve_paths (env_resolve env) file) opts key d) = Inr (ir_token res)
    \<and> ir_invite_id res = generate_invite_id iv \<and> ir_expires_at res = df_expires_at d \<and> ir_issued_at res = df_issued_at d
    \<and> ir_name res = df_name d \<and> ir_ip res = df_ip d"
proof -
  from assms obtain d where d: "draft_invite env iv file opts = Inr d"
    and a: "append_peer env doc (draft_peer iv opts d) = Inr doc'"
    and f: "finish_invite env iv (resolve_paths (env_resolve env) file) opts d = Inr res"
    by (auto simp: invite_def split: sum.splits)
  from append_peer_Inr [OF a] obtain p where p: "peer_block env doc (draft_peer iv opts d) = Some p"
      "doc' = doc\<lparr>cfg_peers := cfg_peers doc @ [p]\<rparr>" "validate (env_api env) doc' = None"
      "df_ip d \<notin> set (used_ips doc)"
    by (auto simp: draft_peer_def)
  have "if_private_key_file (cfg_interface (resolve_paths (env_resolve env) file))
      = env_resolve env (if_private_key_file (cfg_interface file))" by (simp add: resolve_paths_def)
  with f d p show ?thesis by (auto simp: finish_invite_def split: option.splits sum.splits)
qed

lemma draft_token_typed:
  assumes "invite_typed iv opts" and "draft_invite env iv file opts = Inr d"
  shows "token_typed (draft_token env iv cfg opts key d)"
    and "canonical_token (draft_token env iv cfg opts key d) = draft_token env iv cfg opts key d"
proof -
  have "utf8_valid (df_name d)"
    using assms(1) draft_at_Inr(3) [OF draft_invite_Inr(2) [OF assms(2)]] ascii_utf8_valid [OF member_name_ascii [of "last_octet (df_ip d)"]]
    by (auto simp: invite_typed_def draft_name_def split: option.splits)
  with assms(1) show "token_typed (draft_token env iv cfg opts key d)"
    by (auto simp: token_typed_def draft_token_def invite_typed_def)
  have "map ascii_lower (generate_invite_id iv) = generate_invite_id iv"
    using assms(1) by (simp add: generate_invite_id_def invite_typed_def encode_invite_id_lower)
  then show "canonical_token (draft_token env iv cfg opts key d) = draft_token env iv cfg opts key d"
    by (simp add: canonical_token_alt draft_token_def)
qed

lemma unat_u64_of_nat: "n < 2 ^ 64 \<Longrightarrow> unat (word_of_nat n :: u64) = n"
  by (simp add: unsigned_of_nat take_bit_nat_eq_self)

text \<open>The name fixed for the member is one nobody in the checked file has.\<close>

lemma invite_dns_name_free: "invite_dns_name cfg name ip \<notin> set (taken_dns_labels cfg Exclude_None)"
  by (simp add: invite_dns_name_def uniquify_fresh)

section \<open>Properties\<close>

text \<open>
  C10: an invitation and its registration agree. When \<^verbatim>\<open>invite\<close> succeeds, exactly one member was
  added to the file, which validates, and the token parses to what this member needs: the private key of the
  registered public key, its address, the host's address and key, the name, the identifier and the two
  times of the registration.
\<close>

theorem invitation_matches_registration:
  assumes "base64url (iv_b64 iv) unb64" and "reads_back env" and "invite_typed iv opts"
    and "invite env iv file doc opts = (Inr res, doc')"
  shows "\<exists>t p key. parse_token unb64 (ir_token res) = Inr t
    \<and> doc' = doc\<lparr>cfg_peers := cfg_peers doc @ [p]\<rparr> \<and> validate (env_api env) doc' = None
    \<and> peer_public_key p = iv_public_key iv (tok_member_private_key t)
    \<and> peer_allowed_ips p = [host_net (net_addr (tok_member_address t))]
    \<and> net_addr (tok_member_address t) \<notin> set (used_ips doc)
    \<and> tok_host_virtual_ip t = net_addr (if_address (cfg_interface file))
    \<and> iv_read_key iv (env_resolve env (if_private_key_file (cfg_interface file))) = Some key
    \<and> tok_host_public_key t = iv_public_key iv key
    \<and> peer_name p = Some (tok_name t) \<and> peer_invite_id p = tok_invite_id t
    \<and> peer_invite_issued_at p = map_option unat (tok_issued_at t)
    \<and> peer_invite_expires_at p = map_option unat (tok_expires_at t)
    \<and> (peer_preshared_key_file p = None \<longleftrightarrow> tok_preshared_key t = None)"
proof -
  from invite_Inr [OF assms(4)] obtain d p key where d: "draft_invite env iv file opts = Inr d"
    and p: "peer_block env doc (draft_peer iv opts d) = Some p" "doc' = doc\<lparr>cfg_peers := cfg_peers doc @ [p]\<rparr>"
      "validate (env_api env) doc' = None" "df_ip d \<notin> set (used_ips doc)"
    and key: "iv_read_key iv (env_resolve env (if_private_key_file (cfg_interface file))) = Some key"
    and e: "encode_token (iv_b64 iv) (draft_token env iv (resolve_paths (env_resolve env) file) opts key d) = Inr (ir_token res)"
    by blast
  let ?t = "draft_token env iv (resolve_paths (env_resolve env) file) opts key d"
  from e obtain buf where "token_bytes ?t = Inr buf" "ir_token res = TOKEN_PREFIX @ iv_b64 iv buf"
    by (auto simp: encode_token_def split: sum.splits)
  then have t: "parse_token unb64 (ir_token res) = Inr ?t"
    using parse_token_bytes_roundtrip [OF draft_token_typed(1) [OF assms(3) d]] parse_token_encoded [OF assms(1)]
    by (simp add: draft_token_typed(2) [OF assms(3) d])
  note pb = peer_block_invited [OF p(1) assms(2)] peer_block_fields(1,3) [OF p(1)]
  have "df_issued_at d < 2 ^ 64" using assms(3) draft_at_Inr(4) [OF draft_invite_Inr(2) [OF d]] by (simp add: invite_typed_def)
  then have times: "peer_invite_issued_at p = map_option unat (tok_issued_at ?t)"
      "peer_invite_expires_at p = map_option unat (tok_expires_at ?t)"
    using draft_at_Inr(6) [OF draft_invite_Inr(2) [OF d]] pb
    by (auto simp: draft_peer_def draft_token_def unat_u64_of_nat simp del: power_numeral split: option.splits)
  show ?thesis
    by (intro exI [of _ ?t] exI [of _ p] exI [of _ key] conjI t p(2,3) key times)
      (use p(4) pb in \<open>simp_all add: draft_peer_def draft_token_def\<close>)
qed

text \<open>
  An invitation that fails late stays registered. A token holds at most four endpoints; with more of them
  (or when the host's key cannot be read) the call fails after the member was written to the file, without a
  token anybody could join with, and asking again for the same name is refused.
\<close>

theorem failed_invitation_stays_registered:
  assumes "reads_back env" and "draft_invite env iv file opts = Inr d"
    and "append_peer env doc (draft_peer iv opts d) = Inr doc'"
    and "4 < length (df_endpoints d) \<or> iv_read_key iv (env_resolve env (if_private_key_file (cfg_interface file))) = None"
  shows "\<exists>e. invite env iv file doc opts = (Inl e, doc')
    \<and> (\<exists>p. cfg_peers doc' = cfg_peers doc @ [p] \<and> peer_name p = Some (df_name d))
    \<and> (\<forall>iv' doc2 opts' res doc3. io_name opts' = Some (df_name d) \<longrightarrow> invite env iv' doc' doc2 opts' \<noteq> (Inr res, doc3))"
proof -
  let ?cfg = "resolve_paths (env_resolve env) file"
  have k: "if_private_key_file (cfg_interface ?cfg) = env_resolve env (if_private_key_file (cfg_interface file))"
    by (simp add: resolve_paths_def)
  have "\<exists>e. finish_invite env iv ?cfg opts d = Inl e"
  proof (cases "iv_read_key iv (if_private_key_file (cfg_interface ?cfg))")
    case (Some key)
    then have "4 < length (df_endpoints d)" using assms(4) k by auto
    then have "validate_token (draft_token env iv ?cfg opts key d) = Some Bad_Endpoint_Count"
      by (simp add: validate_token_def draft_token_def MAX_ENDPOINTS_def)
    with Some show ?thesis by (simp add: finish_invite_def encode_token_def token_bytes_def)
  qed (simp add: finish_invite_def)
  then obtain e where "invite env iv file doc opts = (Inl e, doc')"
    using assms(2,3) by (auto simp: invite_def)
  moreover from append_peer_Inr [OF assms(3)] obtain p where
    "peer_block env doc (draft_peer iv opts d) = Some p" "doc' = doc\<lparr>cfg_peers := cfg_peers doc @ [p]\<rparr>" by blast
  then have p: "cfg_peers doc' = cfg_peers doc @ [p] \<and> peer_name p = Some (df_name d)"
    using peer_block_invited(2) [OF _ assms(1)] by (auto simp: draft_peer_def)
  moreover have "invite env iv' doc' doc2 opts' \<noteq> (Inr res, doc3)"
    if n: "io_name opts' = Some (df_name d)" for iv' doc2 opts' res doc3
  proof
    assume "invite env iv' doc' doc2 opts' = (Inr res, doc3)"
    from invite_Inr [OF this] obtain d' where "draft_invite env iv' doc' opts' = Inr d'" by blast
    from draft_at_Inr(2,3) [OF draft_invite_Inr(2) [OF this]] n p show False by (auto simp: draft_name_def)
  qed
  ultimately show ?thesis by blast
qed

section \<open>Witnesses\<close>

definition demo_iv :: invite_env where
  "demo_iv = \<lparr>iv_lan_ip = Some 0xC0A80105, iv_member_key = replicate 32 1, iv_psk = replicate 32 3,
     iv_id_bytes = replicate 16 0, iv_public_key = (\<lambda>k. replicate 32 (hd k + 1)), iv_clock = Some 100,
     iv_read_key = (\<lambda>_. Some (replicate 32 7)), iv_secret_written = True, iv_b64 = b64url_encode\<rparr>"

definition demo_opts :: "(ipv4 \<times> u16) list \<Rightarrow> invite_options" where
  "demo_opts extra = \<lparr>io_name = Some ''Alice'', io_ip = Some 0x0A000002, io_extra_endpoints = extra, io_psk = False,
     io_expires_in_secs = Some 60, io_invited_by = None\<rparr>"

abbreviation demo_file :: config where "demo_file \<equiv> sample_config [] empty_acl"

definition demo_draft :: "(ipv4 \<times> u16) list \<Rightarrow> invite_draft" where
  "demo_draft extra = \<lparr>df_ip = 0x0A000002, df_name = ''Alice'',
     df_endpoints = invite_endpoints (Some 0xC0A80105) 51820 extra, df_dns_name = ''alice'',
     df_issued_at = 100, df_expires_at = Some 160\<rparr>"

definition alice :: peer_config where
  "alice = (sample_peer (replicate 32 2) 0x0A000002)\<lparr>peer_name := Some ''Alice'', peer_dns_name := Some ''alice'',
     peer_invite_id := Some zeros, peer_invite_issued_at := Some 100, peer_invite_expires_at := Some 160\<rparr>"

lemma demo_valid: "validate cidr_api demo_file = None" "validate cidr_api (sample_config [alice] empty_acl) = None"
  by (simp_all add: life_eval alice_def)

lemma demo_id: "encode_invite_id (replicate 16 0) = zeros"
proof -
  have "encode_invite_id (replicate n 0) = replicate (2 * n) (CHR ''0'')" for n
  proof (induction n)
    case (Suc n)
    moreover have "char_of (48 :: nat) = CHR ''0''" by code_simp
    ultimately show ?case by (simp add: encode_invite_id_def hex_digit_def)
  qed (simp add: encode_invite_id_def)
  from this [of 16] show ?thesis by (simp add: zeros_def)
qed

lemma demo_fields [simp]:
  "io_name (demo_opts extra) = Some ''Alice''" "io_ip (demo_opts extra) = Some 0x0A000002"
  "io_extra_endpoints (demo_opts extra) = extra" "\<not> io_psk (demo_opts extra)"
  "io_expires_in_secs (demo_opts extra) = Some 60" "io_invited_by (demo_opts extra) = None"
  "iv_lan_ip demo_iv = Some 0xC0A80105" "iv_clock demo_iv = Some 100"
  "cfg_peers demo_file = []" "if_listen_port (cfg_interface demo_file) = None"
  by (simp_all add: demo_opts_def demo_iv_def sample_eval)

lemma invite_endpoints_nonempty: "invite_endpoints (Some ip) p extra \<noteq> []"
proof -
  have "eps \<noteq> [] \<Longrightarrow> fold (\<lambda>ep eps. if ep \<in> set eps then eps else eps @ [ep]) xs eps \<noteq> []" for eps xs :: "(ipv4 \<times> u16) list"
    by (induction xs arbitrary: eps) auto
  then show ?thesis by (simp add: invite_endpoints_def)
qed

lemma demo_label: "normalize_dns_name ''Alice'' False = Inr ''alice''"
  by code_simp

lemma demo_name_valid: "validate_name ''Alice'' = None"
  by code_simp

lemma demo_draft: "draft_invite sample_env demo_iv demo_file (demo_opts extra) = Inr (demo_draft extra)"
proof -
  have l: "load_config sample_env demo_file = Inr demo_file" by (simp add: sample_load demo_valid)
  have n: "invite_dns_name demo_file ''Alice'' 0x0A000002 = ''alice''"
    by (simp add: invite_dns_name_def demo_label uniquify_def taken_dns_labels_def host_dns_label_def sample_eval HOST_DNS_LABEL_def)
  have e: "draft_endpoints demo_iv demo_file (demo_opts extra) = invite_endpoints (Some 0xC0A80105) 51820 extra"
    by (simp add: draft_endpoints_def DEFAULT_LISTEN_PORT_def)
  have "draft_at demo_iv demo_file (demo_opts extra) 0x0A000002 = Inr (demo_draft extra)"
    by (simp add: draft_at_def draft_name_def e n invite_endpoints_nonempty demo_name_valid invite_expiry_def
        bail_if_def demo_draft_def)
  then show ?thesis by (simp add: draft_invite_def l pick_ip_def)
qed

lemma demo_append: "append_peer sample_env demo_file (draft_peer demo_iv (demo_opts extra) (demo_draft extra))
    = Inr (sample_config [alice] empty_acl)"
proof -
  have l: "load_config sample_env demo_file = Inr demo_file" by (simp add: sample_load demo_valid)
  have b: "peer_block sample_env demo_file (draft_peer demo_iv (demo_opts extra) (demo_draft extra)) = Some alice"
    by (simp add: peer_block_def read_back_def draft_peer_def demo_iv_def demo_opts_def demo_draft_def sample_env_def
        generate_invite_id_def demo_id alice_def sample_eval toml_int_ok_def)
  have "demo_file\<lparr>cfg_peers := cfg_peers demo_file @ [alice]\<rparr> = sample_config [alice] empty_acl"
    by (simp add: sample_config_def)
  then have w: "write_validated sample_env (demo_file\<lparr>cfg_peers := cfg_peers demo_file @ [alice]\<rparr>)
      = Inr (sample_config [alice] empty_acl)"
    by (simp only: sample_write demo_valid option.case)
  have n: "net_contains (env_api sample_env) (net_trunc (env_api sample_env) (if_address (cfg_interface demo_file))) 0x0A000002"
    "net_addr (if_address (cfg_interface demo_file)) = 0x0A000001" "used_ips demo_file = [0x0A000001]"
    by (simp_all add: sample_env_def cidr_api_def cidr_contains_def block_base_def block_size_def used_ips_def sample_eval)
  have "np_ip (draft_peer demo_iv (demo_opts extra) (demo_draft extra)) = 0x0A000002"
    by (simp add: draft_peer_def demo_draft_def)
  with n w show ?thesis by (simp add: append_peer_def l b bail_if_def)
qed

theorem failed_invitation_stays_registered_witness:
  "\<exists>e doc'. invite sample_env demo_iv demo_file demo_file (demo_opts [(1, 1), (2, 1), (3, 1), (4, 1)]) = (Inl e, doc')
    \<and> length (cfg_peers doc') = 1"
proof -
  let ?eps = "[(1, 1), (2, 1), (3, 1), (4, 1)]"
  have r: "reads_back sample_env" by (simp add: reads_back_def sample_env_def)
  have "4 < length (df_endpoints (demo_draft ?eps))" by (simp add: demo_draft_def invite_endpoints_def)
  from failed_invitation_stays_registered [OF r demo_draft demo_append disjI1 [OF this]]
  show ?thesis by (auto simp: sample_config_def)
qed

theorem invitation_matches_registration_witness:
  "\<exists>res doc' t. invite sample_env demo_iv demo_file demo_file (demo_opts []) = (Inr res, doc')
    \<and> parse_token b64url_decode (ir_token res) = Inr t \<and> tok_name t = ''Alice'' \<and> tok_expires_at t = Some 160"
proof -
  have r: "reads_back sample_env" by (simp add: reads_back_def sample_env_def)
  have y: "invite_typed demo_iv (demo_opts [])"
    by (simp add: invite_typed_def demo_iv_def demo_opts_def KEY_LEN_def INVITE_ID_LEN_def ascii_utf8_valid ascii_def)
  have b: "base64url (iv_b64 demo_iv) b64url_decode" by (simp add: demo_iv_def rfc4648.base64url_axioms)
  have rp: "resolve_paths (env_resolve sample_env) demo_file = demo_file"
    by (simp add: sample_env_def resolve_paths_ident)
  have "length zeros = 32" "list_all is_hexdigit zeros"
    using valid_ids(1) by (simp_all add: valid_id_def)
  then have "validate_token (draft_token sample_env demo_iv demo_file (demo_opts []) (replicate 32 7) (demo_draft [])) = None"
    by (simp add: validate_token_def draft_token_def demo_iv_def demo_opts_def demo_draft_def invite_endpoints_def
        MAX_ENDPOINTS_def MAX_NAME_LEN_def generate_invite_id_def demo_id decode_invite_id_def INVITE_ID_LEN_def
        sample_env_def cidr_api_def sample_eval)
  from token_bytes_total [OF this] obtain res where
    "finish_invite sample_env demo_iv demo_file (demo_opts []) (demo_draft []) = Inr res"
    by (auto simp: finish_invite_def encode_token_def demo_iv_def)
  then have i: "invite sample_env demo_iv demo_file demo_file (demo_opts []) = (Inr res, sample_config [alice] empty_acl)"
    by (simp add: invite_def demo_draft demo_append rp)
  from invitation_matches_registration [OF b r y i] obtain t p where t: "parse_token b64url_decode (ir_token res) = Inr t"
    and p: "(sample_config [alice] empty_acl) = demo_file\<lparr>cfg_peers := cfg_peers demo_file @ [p]\<rparr>" "peer_name p = Some (tok_name t)"
      "peer_invite_expires_at p = map_option unat (tok_expires_at t)" by blast
  then have "p = alice" by (simp add: sample_config_def)
  with p have "tok_name t = ''Alice''" "map_option unat (tok_expires_at t) = Some 160" by (simp_all add: alice_def)
  moreover from this(2) have "tok_expires_at t = Some 160"
    by (auto simp: word_unat_eq_iff)
  ultimately show ?thesis using i t by blast
qed

end
