(* ===== verification/Settings.thy ===== *)
theory Settings
  imports Peers_Laws
begin

text \<open>
  The settings of a network, \<^verbatim>\<open>crates/peercove-ops/src/settings.rs\<close>: reading the table
  \<^verbatim>\<open>[interface]\<close> for the screen, writing an edited copy back, and taking over the display name the host
  distributes. \<^verbatim>\<open>update\<close> reads the file twice before the lock (to see whether it is a member's file, and
  for the names in use) and once under it, so it takes three configurations. Reading and printing a
  socket address (\<^verbatim>\<open>std::net\<close>) is an argument.
\<close>

section \<open>Definitions\<close>

record addr_text =
  at_parse :: "string \<Rightarrow> socket_addr option"
  at_show :: "socket_addr \<Rightarrow> string"

record settings =
  st_interface_name :: string
  st_display_name :: "string option"
  st_dns_name :: "string option"
  st_network_display_name :: "string option"
  st_address :: ipv4net
  st_listen_port :: "u16 option"
  st_mtu :: u16
  st_host_endpoint :: "string option"
  st_is_member :: bool
  st_direct :: bool
  st_max_recv_file_mb :: nat
  st_require_invite_approval :: bool
  st_member_invites :: bool
  st_auto_connect :: bool

record settings_update =
  su_display_name :: "string option"
  su_dns_name :: "string option"
  su_network_display_name :: "string option"
  su_listen_port :: "u16 option"
  su_mtu :: u16
  su_host_endpoint :: "string option"
  su_direct :: bool
  su_max_recv_file_mb :: nat
  su_require_invite_approval :: bool
  su_member_invites :: bool
  su_auto_connect :: bool

definition restart_required :: "settings \<Rightarrow> settings_update \<Rightarrow> bool" where
  "restart_required st u \<longleftrightarrow> st_listen_port st \<noteq> su_listen_port u \<or> st_mtu st \<noteq> su_mtu u
     \<or> (st_is_member st \<and> st_host_endpoint st \<noteq> su_host_endpoint u)"

text \<open>A file is a member's if it has exactly one peer and that peer has an endpoint.\<close>

definition host_endpoint_of :: "config \<Rightarrow> socket_addr option" where
  "host_endpoint_of cfg = (case cfg_peers cfg of [p] \<Rightarrow> peer_endpoint p | _ \<Rightarrow> None)"

definition settings_of :: "addr_text \<Rightarrow> config \<Rightarrow> settings" where
  "settings_of at cfg =
     (let itf = cfg_interface cfg; host_endpoint = map_option (at_show at) (host_endpoint_of cfg)
      in \<lparr>st_interface_name = if_name itf, st_display_name = if_display_name itf, st_dns_name = if_dns_name itf,
          st_network_display_name = if_network_display_name itf, st_address = if_address itf,
          st_listen_port = if_listen_port itf, st_mtu = if_mtu itf, st_host_endpoint = host_endpoint,
          st_is_member = (host_endpoint \<noteq> None), st_direct = if_direct itf,
          st_max_recv_file_mb = if_max_recv_file_mb itf,
          st_require_invite_approval = if_require_invite_approval itf,
          st_member_invites = if_member_invites itf, st_auto_connect = if_auto_connect itf\<rparr>)"

definition read_settings :: "ops_env \<Rightarrow> addr_text \<Rightarrow> config \<Rightarrow> ops_error + settings" where
  "read_settings env at file = and_then (load_config env file) (\<lambda>cfg. Inr (settings_of at cfg))"

definition MTU_MIN :: u16 where "MTU_MIN = 576"
definition MTU_MAX :: u16 where "MTU_MAX = 1500"

text \<open>\<^verbatim>\<open>as_deref().map(str::trim).filter(|s| !s.is_empty())\<close>.\<close>

definition trimmed :: "string option \<Rightarrow> string option" where
  "trimmed s = Option.bind s (\<lambda>t. if trim t = [] then None else Some (trim t))"

definition checked_display_name :: "string option \<Rightarrow> ops_error + string option" where
  "checked_display_name s =
     (case trimmed s of
        None \<Rightarrow> Inr None
      | Some n \<Rightarrow> (case validate_name n of Some e \<Rightarrow> Inl e | None \<Rightarrow> Inr (Some n)))"

definition checked_endpoint :: "addr_text \<Rightarrow> string option \<Rightarrow> ops_error + socket_addr option" where
  "checked_endpoint at s =
     (case trimmed s of
        None \<Rightarrow> Inr None
      | Some v \<Rightarrow> (case at_parse at v of None \<Rightarrow> Inl (Bad_Endpoint_Text v) | Some a \<Rightarrow> Inr (Some a)))"

definition checked_network_name :: "bool \<Rightarrow> string option \<Rightarrow> ops_error + string option" where
  "checked_network_name is_member s =
     (if is_member then Inr None
      else case trimmed s of
        None \<Rightarrow> Inr None
      | Some n \<Rightarrow>
          bail_if (64 < length (chars n)) Network_Name_Length
            (bail_if (list_ex is_control (chars n)) Network_Name_Characters (Inr (Some n))))"

definition checked_dns_name :: "ops_env \<Rightarrow> bool \<Rightarrow> config \<Rightarrow> string option \<Rightarrow> ops_error + string option" where
  "checked_dns_name env is_member names s =
     (if is_member then Inr None
      else case trimmed s of
        None \<Rightarrow> Inr None
      | Some input \<Rightarrow>
          (case normalize_dns_name input True of
             Inl e \<Rightarrow> Inl (Dns_Name e)
           | Inr label \<Rightarrow>
               and_then (load_config env names) (\<lambda>cfg.
                 bail_if (label \<in> set (taken_dns_labels cfg Exclude_Host)) (Dns_Name_Taken label) (Inr (Some label)))))"

text \<open>A size that is no \<^verbatim>\<open>i64\<close> is written as the greatest one.\<close>

definition edit_interface :: "bool \<Rightarrow> string option \<Rightarrow> string option \<Rightarrow> string option \<Rightarrow> settings_update
    \<Rightarrow> interface_config \<Rightarrow> interface_config" where
  "edit_interface is_member display dns network u itf =
     (let itf1 = itf\<lparr>if_display_name := display, if_listen_port := su_listen_port u, if_mtu := su_mtu u,
            if_direct := su_direct u, if_max_recv_file_mb := min (su_max_recv_file_mb u) (2 ^ 63 - 1),
            if_auto_connect := su_auto_connect u\<rparr>
      in if is_member then itf1
         else itf1\<lparr>if_dns_name := dns, if_network_display_name := network,
                   if_require_invite_approval := su_require_invite_approval u,
                   if_member_invites := su_member_invites u\<rparr>)"

definition set_first_endpoint :: "bool \<Rightarrow> socket_addr option \<Rightarrow> config \<Rightarrow> ops_error + config" where
  "set_first_endpoint is_member endpoint doc =
     (case endpoint of
        None \<Rightarrow> Inr doc
      | Some a \<Rightarrow>
          if \<not> is_member then Inr doc
          else (case cfg_peers doc of
                  [] \<Rightarrow> Inl No_Peer_Tables
                | p # ps \<Rightarrow> Inr (doc\<lparr>cfg_peers := p\<lparr>peer_endpoint := Some a\<rparr> # ps\<rparr>)))"

definition update_settings :: "ops_env \<Rightarrow> addr_text \<Rightarrow> config \<Rightarrow> config \<Rightarrow> config \<Rightarrow> settings_update
    \<Rightarrow> ops_error + config" where
  "update_settings env at cur names doc u =
     bail_if (su_mtu u < MTU_MIN \<or> MTU_MAX < su_mtu u) Mtu_Range
     (bail_if (su_listen_port u = Some 0) Port_Zero
     (and_then (checked_display_name (su_display_name u)) (\<lambda>display.
      and_then (checked_endpoint at (su_host_endpoint u)) (\<lambda>endpoint.
      and_then (read_settings env at cur) (\<lambda>current.
      and_then (checked_network_name (st_is_member current) (su_network_display_name u)) (\<lambda>network.
      and_then (checked_dns_name env (st_is_member current) names (su_dns_name u)) (\<lambda>dns.
      and_then (set_first_endpoint (st_is_member current) endpoint
          (doc\<lparr>cfg_interface := edit_interface (st_is_member current) display dns network u (cfg_interface doc)\<rparr>)) (\<lambda>doc'.
        write_validated env doc'))))))))"

text \<open>\<^verbatim>\<open>settings::apply_network_display_name\<close>: nothing is written when nothing changes.\<close>

definition apply_network_display_name :: "ops_env \<Rightarrow> config \<Rightarrow> config \<Rightarrow> string option \<Rightarrow> ops_error + config" where
  "apply_network_display_name env file doc received =
     and_then (load_config env file) (\<lambda>current.
       if if_network_display_name (cfg_interface current) = trimmed received then Inr doc
       else write_validated env
         (doc\<lparr>cfg_interface := (cfg_interface doc)\<lparr>if_network_display_name := trimmed received\<rparr>\<rparr>))"

text \<open>
  \<^verbatim>\<open>network_settings_update\<close> of \<^verbatim>\<open>control.rs\<close>: an update that changes nothing, in which the caller
  then replaces one item.
\<close>

definition unchanged_update :: "settings \<Rightarrow> settings_update" where
  "unchanged_update st =
     \<lparr>su_display_name = st_display_name st, su_dns_name = st_dns_name st,
      su_network_display_name = st_network_display_name st, su_listen_port = st_listen_port st, su_mtu = st_mtu st,
      su_host_endpoint = st_host_endpoint st, su_direct = st_direct st,
      su_max_recv_file_mb = st_max_recv_file_mb st, su_require_invite_approval = st_require_invite_approval st,
      su_member_invites = st_member_invites st, su_auto_connect = st_auto_connect st\<rparr>"

section \<open>Lemmas\<close>

lemma read_settings_Inr:
  "read_settings env at file = Inr st \<longleftrightarrow> validate (env_api env) (resolve_paths (env_resolve env) file) = None
    \<and> st = settings_of at (resolve_paths (env_resolve env) file)"
  by (auto simp: read_settings_def)

lemma host_endpoint_of_resolved [simp]: "host_endpoint_of (resolve_paths f cfg) = host_endpoint_of cfg"
  by (cases "cfg_peers cfg" rule: list.exhaust; cases "tl (cfg_peers cfg)") (auto simp: host_endpoint_of_def)

lemma settings_of_resolved [simp]: "settings_of at (resolve_paths f cfg) = settings_of at cfg"
  unfolding settings_of_def host_endpoint_of_resolved by (simp add: resolve_paths_def Let_def)

lemma is_member_iff: "st_is_member (settings_of at cfg) \<longleftrightarrow> host_endpoint_of cfg \<noteq> None"
  by (simp add: settings_of_def Let_def)

lemma trimmed_nonempty: "trimmed s = Some t \<Longrightarrow> t \<noteq> []"
  by (auto simp: trimmed_def split: Option.bind_splits if_splits)

lemma checked_display_name_Inr:
  "checked_display_name s = Inr d \<longleftrightarrow> d = trimmed s \<and> (case trimmed s of Some n \<Rightarrow> validate_name n = None | None \<Rightarrow> True)"
  by (auto simp: checked_display_name_def split: option.splits)

lemma checked_network_name_Inr:
  "checked_network_name m s = Inr d \<Longrightarrow> d = (if m then None else trimmed s)"
  by (auto simp: checked_network_name_def bail_if_def split: option.splits if_splits)

lemma checked_dns_name_Inr:
  "checked_dns_name env m names s = Inr (Some l) \<Longrightarrow> \<not> m \<and> is_dns_label l
    \<and> l \<notin> set (taken_dns_labels (resolve_paths (env_resolve env) names) Exclude_Host)"
  using dns_label_ok
  by (auto simp: checked_dns_name_def normalize_dns_name_def is_dns_label_iff bail_if_def
      split: option.splits if_splits sum.splits)

lemma edit_interface_fields:
  "if_name (edit_interface m d l n u itf) = if_name itf"
  "if_network_name (edit_interface m d l n u itf) = if_network_name itf"
  "if_device_id (edit_interface m d l n u itf) = if_device_id itf"
  "if_private_key_file (edit_interface m d l n u itf) = if_private_key_file itf"
  "if_address (edit_interface m d l n u itf) = if_address itf"
  "if_key_source (edit_interface m d l n u itf) = if_key_source itf"
  "if_display_name (edit_interface m d l n u itf) = d"
  "if_listen_port (edit_interface m d l n u itf) = su_listen_port u"
  "if_mtu (edit_interface m d l n u itf) = su_mtu u"
  "if_direct (edit_interface m d l n u itf) = su_direct u"
  "if_max_recv_file_mb (edit_interface m d l n u itf) = min (su_max_recv_file_mb u) (2 ^ 63 - 1)"
  "if_auto_connect (edit_interface m d l n u itf) = su_auto_connect u"
  "if_dns_name (edit_interface m d l n u itf) = (if m then if_dns_name itf else l)"
  "if_network_display_name (edit_interface m d l n u itf) = (if m then if_network_display_name itf else n)"
  "if_require_invite_approval (edit_interface m d l n u itf)
     = (if m then if_require_invite_approval itf else su_require_invite_approval u)"
  "if_member_invites (edit_interface m d l n u itf) = (if m then if_member_invites itf else su_member_invites u)"
  by (simp_all add: edit_interface_def Let_def del: power_Suc)

lemma update_settings_Inr:
  assumes "update_settings env at cur names doc u = Inr doc'"
  obtains dns network where "576 \<le> su_mtu u" and "su_mtu u \<le> 1500" and "su_listen_port u \<noteq> Some 0"
    and "case trimmed (su_display_name u) of Some n \<Rightarrow> validate_name n = None | None \<Rightarrow> True"
    and "network = (if host_endpoint_of cur \<noteq> None then None else trimmed (su_network_display_name u))"
    and "checked_dns_name env (host_endpoint_of cur \<noteq> None) names (su_dns_name u) = Inr dns"
    and "cfg_interface doc' = edit_interface (host_endpoint_of cur \<noteq> None) (trimmed (su_display_name u)) dns network u (cfg_interface doc)"
    and "cfg_dns_records doc' = cfg_dns_records doc" and "cfg_acl doc' = cfg_acl doc"
    and "tl (cfg_peers doc') = tl (cfg_peers doc)" and "host_endpoint_of cur = None \<Longrightarrow> cfg_peers doc' = cfg_peers doc"
    and "validate (env_api env) doc' = None"
proof -
  let ?m = "host_endpoint_of cur \<noteq> None"
  from assms obtain endpoint network dns doc1 where
    mtu: "\<not> (su_mtu u < MTU_MIN \<or> MTU_MAX < su_mtu u)" and port: "su_listen_port u \<noteq> Some 0"
    and d: "checked_display_name (su_display_name u) = Inr (trimmed (su_display_name u))"
    and n: "checked_network_name ?m (su_network_display_name u) = Inr network"
    and l: "checked_dns_name env ?m names (su_dns_name u) = Inr dns"
    and e: "set_first_endpoint ?m endpoint
      (doc\<lparr>cfg_interface := edit_interface ?m (trimmed (su_display_name u)) dns network u (cfg_interface doc)\<rparr>) = Inr doc'"
    and v: "validate (env_api env) doc' = None"
    by (auto simp: update_settings_def read_settings_Inr is_member_iff checked_display_name_Inr)
  have "cfg_interface doc' = edit_interface ?m (trimmed (su_display_name u)) dns network u (cfg_interface doc)
      \<and> cfg_dns_records doc' = cfg_dns_records doc \<and> cfg_acl doc' = cfg_acl doc
      \<and> tl (cfg_peers doc') = tl (cfg_peers doc) \<and> (host_endpoint_of cur = None \<longrightarrow> cfg_peers doc' = cfg_peers doc)"
    using e by (auto simp: set_first_endpoint_def split: option.splits list.splits if_splits)
  then show thesis
    using mtu port d checked_network_name_Inr [OF n] l v
    by (intro that) (auto simp: MTU_MIN_def MTU_MAX_def checked_display_name_Inr not_less)
qed

section \<open>Properties\<close>

text \<open>
  Saving the settings writes what was asked for and nothing else. A successful update keeps addresses, keys,
  records and the access policy, stores exactly the given values (names trimmed), and leaves a valid file. In a
  host's file the members are untouched and the new DNS name of the host is a valid label nobody else had; in a
  member's file the items only a host has are untouched, and no peer but the first can change.
\<close>

theorem settings_update_scope:
  assumes "update_settings env at cur names doc u = Inr doc'"
  shows "validate (env_api env) doc' = None
    \<and> cfg_dns_records doc' = cfg_dns_records doc \<and> cfg_acl doc' = cfg_acl doc
    \<and> if_address (cfg_interface doc') = if_address (cfg_interface doc)
    \<and> if_private_key_file (cfg_interface doc') = if_private_key_file (cfg_interface doc)
    \<and> if_mtu (cfg_interface doc') = su_mtu u \<and> 576 \<le> su_mtu u \<and> su_mtu u \<le> 1500
    \<and> if_listen_port (cfg_interface doc') = su_listen_port u \<and> su_listen_port u \<noteq> Some 0
    \<and> if_display_name (cfg_interface doc') = trimmed (su_display_name u)
    \<and> if_direct (cfg_interface doc') = su_direct u \<and> if_auto_connect (cfg_interface doc') = su_auto_connect u
    \<and> (if host_endpoint_of cur = None
       then cfg_peers doc' = cfg_peers doc
         \<and> if_require_invite_approval (cfg_interface doc') = su_require_invite_approval u
         \<and> if_member_invites (cfg_interface doc') = su_member_invites u
         \<and> if_network_display_name (cfg_interface doc') = trimmed (su_network_display_name u)
         \<and> (\<forall>l. if_dns_name (cfg_interface doc') = Some l \<longrightarrow> is_dns_label l
             \<and> l \<notin> set (taken_dns_labels (resolve_paths (env_resolve env) names) Exclude_Host))
       else tl (cfg_peers doc') = tl (cfg_peers doc)
         \<and> if_require_invite_approval (cfg_interface doc') = if_require_invite_approval (cfg_interface doc)
         \<and> if_member_invites (cfg_interface doc') = if_member_invites (cfg_interface doc)
         \<and> if_network_display_name (cfg_interface doc') = if_network_display_name (cfg_interface doc)
         \<and> if_dns_name (cfg_interface doc') = if_dns_name (cfg_interface doc))"
  using assms
proof (rule update_settings_Inr)
  fix dns network
  assume a: "576 \<le> su_mtu u" "su_mtu u \<le> 1500" "su_listen_port u \<noteq> Some 0"
    "network = (if host_endpoint_of cur \<noteq> None then None else trimmed (su_network_display_name u))"
    "checked_dns_name env (host_endpoint_of cur \<noteq> None) names (su_dns_name u) = Inr dns"
    "cfg_interface doc' = edit_interface (host_endpoint_of cur \<noteq> None) (trimmed (su_display_name u)) dns network u (cfg_interface doc)"
    "cfg_dns_records doc' = cfg_dns_records doc" "cfg_acl doc' = cfg_acl doc" "tl (cfg_peers doc') = tl (cfg_peers doc)"
    "host_endpoint_of cur = None \<Longrightarrow> cfg_peers doc' = cfg_peers doc" "validate (env_api env) doc' = None"
  then show ?thesis
    using checked_dns_name_Inr [of env "host_endpoint_of cur \<noteq> None" names "su_dns_name u"]
    by (cases "host_endpoint_of cur") (simp_all add: edit_interface_fields)
qed

text \<open>
  Two ways an unchanged update does not do what its caller wants: a file with a greater MTU than the screen allows, which
  is valid, refuses every update; and an update based on an earlier read undoes the changes made since.
\<close>

lemma large_mtu_blocks_settings:
  assumes "MTU_MAX < if_mtu (cfg_interface cur)"
  shows "update_settings env at cur2 names doc (unchanged_update (settings_of at cur)\<lparr>su_member_invites := b\<rparr>) = Inl Mtu_Range"
  using assms by (simp add: update_settings_def unchanged_update_def settings_of_def Let_def bail_if_def)

lemma stale_update_reverts:
  assumes "update_settings env at cur names doc (unchanged_update (settings_of at old)\<lparr>su_member_invites := b\<rparr>) = Inr doc'"
  shows "if_listen_port (cfg_interface doc') = if_listen_port (cfg_interface old)
    \<and> if_display_name (cfg_interface doc') = trimmed (if_display_name (cfg_interface old))"
  using assms
  by (rule update_settings_Inr) (simp add: edit_interface_fields unchanged_update_def settings_of_def Let_def)

section \<open>Witnesses\<close>

definition plain_addr :: addr_text where
  "plain_addr = \<lparr>at_parse = (\<lambda>_. None), at_show = (\<lambda>_. ''host'')\<rparr>"

definition plain_update :: settings_update where
  "plain_update = (unchanged_update (settings_of plain_addr life))
     \<lparr>su_display_name := Some '' Office '', su_dns_name := Some ''Office'', su_member_invites := False\<rparr>"

abbreviation office :: config where
  "office \<equiv> life\<lparr>cfg_interface := (cfg_interface life)\<lparr>if_display_name := Some ''Office'', if_dns_name := Some ''office'',
     if_member_invites := False\<rparr>\<rparr>"

lemma office_update: "update_settings sample_env plain_addr life life life plain_update = Inr office"
proof -
  have t: "trim '' Office '' = ''Office''" "trim ''Office'' = ''Office''" "validate_name ''Office'' = None"
    "normalize_dns_name ''Office'' True = Inr ''office''" by code_simp+
  have e: "host_endpoint_of life = None" by (simp add: host_endpoint_of_def)
  have u: "su_mtu plain_update = 1420" "su_listen_port plain_update = None"
    "trimmed (su_display_name plain_update) = Some ''Office''" "trimmed (su_dns_name plain_update) = Some ''Office''"
    "su_network_display_name plain_update = None" "su_host_endpoint plain_update = None"
    "su_direct plain_update" "\<not> su_auto_connect plain_update" "su_max_recv_file_mb plain_update = 100"
    "su_require_invite_approval plain_update" "\<not> su_member_invites plain_update"
    using e by (simp_all add: plain_update_def unchanged_update_def settings_of_def trimmed_def t life_config_def sample_interface_def)
  have n: "checked_dns_name sample_env False life (su_dns_name plain_update) = Inr (Some ''office'')"
    by (simp add: checked_dns_name_def u t sample_load life_valid bail_if_def taken_dns_labels_def peer_dns_label_def)
  have i: "edit_interface False (Some ''Office'') (Some ''office'') None plain_update (cfg_interface life)
      = (cfg_interface life)\<lparr>if_display_name := Some ''Office'', if_dns_name := Some ''office'', if_member_invites := False\<rparr>"
    using u by (simp add: edit_interface_def life_config_def sample_interface_def)
  have w: "write_validated sample_env office = Inr office"
    by (simp add: sample_write life_eval)
  have "su_display_name plain_update = Some '' Office ''" by (simp add: plain_update_def)
  then show ?thesis
    using u n e t(3) w i
    by (simp add: update_settings_def MTU_MIN_def MTU_MAX_def bail_if_def checked_display_name_def checked_endpoint_def
        read_settings_def sample_load life_valid is_member_iff checked_network_name_def set_first_endpoint_def trimmed_def [of None])
qed

theorem settings_update_scope_witness:
  "if_dns_name (cfg_interface office) = Some ''office'' \<and> is_dns_label ''office''
    \<and> ''office'' \<notin> set (taken_dns_labels life Exclude_Host)"
  using settings_update_scope [OF office_update]
  by (simp add: host_endpoint_of_def sample_env_def resolve_paths_ident)

end
