(* ===== verification/Dns_Records.thy ===== *)
theory Dns_Records
  imports Peers_Laws
begin

text \<open>
  Editing the custom DNS records of \<^verbatim>\<open>host.toml\<close>, \<^verbatim>\<open>crates/peercove-ops/src/dns.rs\<close>: listing
  them (which gives the old ones an identifier first), adding, removing, and the settings of their health checks. The
  reads of the file are arguments, in the order of the calls; the document is the last of them. The clock
  in nanoseconds, from which a new identifier is made, is an argument as well.
\<close>

section \<open>Definitions\<close>

datatype record_dest = To_Ip ipv4 | To_Member member_ref | To_Cname string

record new_record =
  nr_name :: string
  nr_target :: record_dest
  nr_under :: "member_ref option"
  nr_scheme :: "string option"
  nr_port :: "u16 option"

record health_settings =
  hs_enabled :: bool
  hs_kind :: health_check_kind
  hs_path :: string
  hs_expected_status :: "u16 option"
  hs_external :: bool

record record_detail =
  dt_id :: "string option"
  dt_name :: string
  dt_under :: "member_ref option"
  dt_relative :: string
  dt_fqdn :: string
  dt_target :: record_dest
  dt_resolved_ip :: "ipv4 option"
  dt_scheme :: "string option"
  dt_port :: "u16 option"
  dt_url :: "string option"
  dt_health :: health_settings

definition peer_with_key :: "config \<Rightarrow> public_key \<Rightarrow> peer_config option" where
  "peer_with_key cfg key = find (\<lambda>p. peer_public_key p = key) (cfg_peers cfg)"

fun label_of :: "config \<Rightarrow> member_ref \<Rightarrow> string option" where
  "label_of cfg Host = Some (host_dns_label cfg)"
| "label_of cfg (Key key) = map_option peer_dns_label (peer_with_key cfg key)"

fun ip_of :: "config \<Rightarrow> member_ref \<Rightarrow> ipv4 option" where
  "ip_of cfg Host = Some (net_addr (if_address (cfg_interface cfg)))"
| "ip_of cfg (Key key) = Option.bind (peer_with_key cfg key) first_ip"

subsection \<open>Listing\<close>

definition service_id :: "nat \<Rightarrow> string" where
  "service_id n = ''svc-'' @ show_nat n"

lemma service_id_inject [simp]: "service_id m = service_id n \<longleftrightarrow> m = n"
  by (simp add: service_id_def)

text \<open>The inner loop: the first number from \<open>serial\<close> on whose identifier is not in use.\<close>

lemma finite_service_ids: "finite {j. serial \<le> j \<and> service_id j \<in> set used}"
proof (rule finite_subset)
  show "{j. serial \<le> j \<and> service_id j \<in> set used} \<subseteq> service_id -` set used" by auto
  show "finite (service_id -` set used)" by (auto intro!: finite_vimageI injI)
qed

function free_service_id :: "nat \<Rightarrow> string list \<Rightarrow> string" where
  "free_service_id serial used =
     (if service_id serial \<notin> set used then service_id serial else free_service_id (serial + 1) used)"
  by pat_completeness auto
termination
proof (relation "measure (\<lambda>(serial, used). card {j. serial \<le> j \<and> service_id j \<in> set used})")
  fix serial used
  assume "\<not> service_id serial \<notin> set used"
  then have i: "serial \<in> {j. serial \<le> j \<and> service_id j \<in> set used}" by simp
  have "{j. serial + 1 \<le> j \<and> service_id j \<in> set used} = {j. serial \<le> j \<and> service_id j \<in> set used} - {serial}"
    by auto
  then show "((serial + 1, used), serial, used) \<in> measure (\<lambda>(serial, used). card {j. serial \<le> j \<and> service_id j \<in> set used})"
    using card_Diff1_less [OF finite_service_ids i] by simp
qed simp

declare free_service_id.simps [simp del]

fun assign_ids :: "nat \<Rightarrow> string list \<Rightarrow> dns_record_config list \<Rightarrow> dns_record_config list" where
  "assign_ids index used [] = []"
| "assign_ids index used (r # rs) =
     (if rec_id r \<noteq> None then r # assign_ids (index + 1) used rs
      else let i = free_service_id (index + 1) used
           in r\<lparr>rec_id := Some i\<rparr> # assign_ids (index + 1) (i # used) rs)"

definition health_of_record :: "dns_record_config \<Rightarrow> health_settings" where
  "health_of_record r =
     \<lparr>hs_enabled = (case rec_health_check r of
          Some b \<Rightarrow> b | None \<Rightarrow> rec_cname r = None \<and> rec_scheme r \<noteq> None \<and> rec_port r \<noteq> None),
      hs_kind = (case rec_health_kind r of Some k \<Rightarrow> k | None \<Rightarrow> Health_Tcp),
      hs_path = (case rec_health_path r of Some p \<Rightarrow> p | None \<Rightarrow> ''/''),
      hs_expected_status = rec_health_expect_status r, hs_external = rec_health_external r\<rparr>"

definition relative_name :: "config \<Rightarrow> dns_record_config \<Rightarrow> string" where
  "relative_name cfg r =
     (case rec_under r of
        None \<Rightarrow> rec_name r
      | Some u \<Rightarrow> (case label_of cfg u of Some l \<Rightarrow> rec_name r @ ''.'' @ l | None \<Rightarrow> rec_name r))"

definition dest_of :: "config \<Rightarrow> dns_record_config \<Rightarrow> record_dest \<times> ipv4 option" where
  "dest_of cfg r =
     (case rec_ip r of
        Some ip \<Rightarrow> (To_Ip ip, Some ip)
      | None \<Rightarrow>
          (case rec_member r of
             Some m \<Rightarrow> (To_Member m, ip_of cfg m)
           | None \<Rightarrow> (case rec_cname r of Some c \<Rightarrow> (To_Cname c, None) | None \<Rightarrow> (To_Ip 0, None))))"

definition detail_of :: "config \<Rightarrow> dns_record_config \<Rightarrow> record_detail" where
  "detail_of cfg r =
     (let relative = relative_name cfg r; (target, resolved) = dest_of cfg r;
          fqdn = relative @ ''.'' @ network_name cfg @ ''.'' @ DNS_SUFFIX
      in \<lparr>dt_id = rec_id r, dt_name = rec_name r, dt_under = rec_under r, dt_relative = relative, dt_fqdn = fqdn,
          dt_target = target, dt_resolved_ip = resolved, dt_scheme = rec_scheme r, dt_port = rec_port r,
          dt_url = service_url fqdn (rec_scheme r) (rec_port r), dt_health = health_of_record r\<rparr>)"

text \<open>
  When a record has no identifier the document is changed and read again (\<open>again\<close>, which is the written document
  unless somebody else was faster). A document without records has no array to go through. When that last
  reading fails, which it cannot do for the document just written, the written document is not part of the result.
\<close>

definition list_records :: "ops_env \<Rightarrow> config \<Rightarrow> config \<Rightarrow> (config \<Rightarrow> config) \<Rightarrow> ops_error + (record_detail list \<times> config)" where
  "list_records env file doc again =
     and_then (load_config env file) (\<lambda>cfg.
       if list_ex (\<lambda>r. rec_id r = None) (cfg_dns_records cfg) then
         bail_if (cfg_dns_records doc = []) No_Record_Tables
           (and_then (write_validated env (doc\<lparr>cfg_dns_records :=
               assign_ids 0 (somes (map rec_id (cfg_dns_records cfg))) (cfg_dns_records doc)\<rparr>)) (\<lambda>doc'.
            and_then (load_config env (again doc')) (\<lambda>cfg'.
              Inr (map (detail_of cfg') (cfg_dns_records cfg'), doc'))))
       else Inr (map (detail_of cfg) (cfg_dns_records cfg), doc))"

subsection \<open>Health settings\<close>

definition put_health :: "health_settings \<Rightarrow> dns_record_config \<Rightarrow> dns_record_config" where
  "put_health hs r =
     r\<lparr>rec_health_check := Some (hs_enabled hs),
       rec_health_kind := (if hs_kind hs = Health_Tcp then None else Some Http_Head),
       rec_health_path := (if hs_path hs = ''/'' then None else Some (hs_path hs)),
       rec_health_expect_status := hs_expected_status hs, rec_health_external := hs_external hs\<rparr>"

fun update_record :: "string \<Rightarrow> member_ref option \<Rightarrow> (dns_record_config \<Rightarrow> dns_record_config) \<Rightarrow> dns_record_config list
    \<Rightarrow> dns_record_config list option" where
  "update_record name parent f [] = None"
| "update_record name parent f (r # rs) =
     (if trim (rec_name r) = name \<and> rec_under r = parent then Some (f r # rs)
      else map_option (\<lambda>rs'. r # rs') (update_record name parent f rs))"

definition set_health :: "ops_env \<Rightarrow> config \<Rightarrow> string \<Rightarrow> member_ref option \<Rightarrow> health_settings \<Rightarrow> ops_error + config" where
  "set_health env doc name parent hs =
     bail_if (cfg_dns_records doc = []) No_Record_Tables
       (case update_record name parent (put_health hs) (cfg_dns_records doc) of
          None \<Rightarrow> Inl (No_Such_Record name)
        | Some rs \<Rightarrow> write_validated env (doc\<lparr>cfg_dns_records := rs\<rparr>))"

subsection \<open>Adding\<close>

definition checked_scheme :: "string option \<Rightarrow> ops_error + string option" where
  "checked_scheme s =
     (case Option.bind s (\<lambda>t. if trim t = [] then None else Some (map ascii_lower (trim t))) of
        None \<Rightarrow> Inr None
      | Some v \<Rightarrow> bail_if (\<not> is_service_scheme v) (Bad_Scheme v) (Inr (Some v)))"

definition check_base :: "config \<Rightarrow> string \<Rightarrow> ops_error option" where
  "check_base cfg name =
     (let base = last (split_on (CHR ''.'') name)
      in err_then (err_when (base \<in> set RESERVED_DNS_LABELS \<or> base = HOST_DNS_LABEL) (Base_Reserved base))
        (err_then (err_when (is_reserved_member_label base) (Base_Auto_Name base))
        (err_when (base \<in> set (taken_dns_labels cfg Exclude_None)) (Base_Taken base))))"

definition record_block :: "nat \<Rightarrow> string \<Rightarrow> string option \<Rightarrow> new_record \<Rightarrow> ops_error + dns_record_config" where
  "record_block nanos name scheme nr =
     (let r = \<lparr>rec_id = Some (''svc-'' @ show_hex nanos), rec_name = name, rec_ip = None, rec_member = None,
        rec_cname = None, rec_under = nr_under nr, rec_scheme = scheme, rec_port = nr_port nr,
        rec_health_check = None, rec_health_kind = None, rec_health_path = None, rec_health_expect_status = None,
        rec_health_external = False\<rparr>
      in case nr_target nr of
           To_Ip ip \<Rightarrow> Inr (r\<lparr>rec_ip := Some ip\<rparr>)
         | To_Member m \<Rightarrow> Inr (r\<lparr>rec_member := Some m\<rparr>)
         | To_Cname domain \<Rightarrow>
             (case normalize_cname_target domain of
                None \<Rightarrow> Inl (Bad_Cname domain)
              | Some t \<Rightarrow> Inr (r\<lparr>rec_cname := Some t\<rparr>)))"

definition add_record :: "ops_env \<Rightarrow> nat \<Rightarrow> config \<Rightarrow> config \<Rightarrow> new_record \<Rightarrow> ops_error + (string \<times> config)" where
  "add_record env nanos file doc nr =
     (case normalize_custom_dns_name (nr_name nr) of
        None \<Rightarrow> Inl (Bad_Custom_Name (nr_name nr))
      | Some name \<Rightarrow>
          and_then (checked_scheme (nr_scheme nr)) (\<lambda>scheme.
          bail_if (nr_port nr = Some 0) New_Port_Zero
          (and_then (load_config env file) (\<lambda>cfg.
          bail_if (list_ex (\<lambda>r. rec_name r = name \<and> rec_under r = nr_under nr) (cfg_dns_records cfg)) (Record_Exists name)
          (case (if nr_under nr = None then check_base cfg name else None) of
             Some e \<Rightarrow> Inl e
           | None \<Rightarrow>
               and_then (case nr_under nr of
                           None \<Rightarrow> Inr name
                         | Some u \<Rightarrow> (case label_of cfg u of
                               Some l \<Rightarrow> Inr (name @ ''.'' @ l) | None \<Rightarrow> Inl Parent_Missing)) (\<lambda>relative.
               and_then (record_block nanos name scheme nr) (\<lambda>r.
               and_then (write_validated env (doc\<lparr>cfg_dns_records := cfg_dns_records doc @ [r]\<rparr>)) (\<lambda>doc'.
                 Inr (relative, doc')))))))))"

subsection \<open>Removing\<close>

definition drop_service_rules :: "string option \<Rightarrow> config \<Rightarrow> config" where
  "drop_service_rules removed_id doc =
     (case removed_id of
        None \<Rightarrow> doc
      | Some i \<Rightarrow> doc\<lparr>cfg_acl := (cfg_acl doc)\<lparr>acl_rules :=
          filter (\<lambda>r. rule_source r \<noteq> Service_Target i \<and> rule_destination r \<noteq> Service_Target i) (acl_rules (cfg_acl doc))\<rparr>\<rparr>)"

definition remove_record :: "ops_env \<Rightarrow> config \<Rightarrow> config \<Rightarrow> string \<Rightarrow> member_ref option \<Rightarrow> ops_error + config" where
  "remove_record env file doc name parent =
     and_then (load_config env file) (\<lambda>cfg.
       let removed_id = Option.bind (find (\<lambda>r. rec_name r = name \<and> rec_under r = parent) (cfg_dns_records cfg)) rec_id;
           kept = filter (\<lambda>r. \<not> (trim (rec_name r) = name \<and> rec_under r = parent)) (cfg_dns_records doc)
       in bail_if (length kept = length (cfg_dns_records doc)) (No_Such_Record name)
            (write_validated env (drop_service_rules removed_id (doc\<lparr>cfg_dns_records := kept\<rparr>))))"

definition find_by_id :: "ops_env \<Rightarrow> config \<Rightarrow> string \<Rightarrow> ops_error + dns_record_config" where
  "find_by_id env file i =
     and_then (load_config env file) (\<lambda>cfg.
       case find (\<lambda>r. rec_id r = Some i) (cfg_dns_records cfg) of None \<Rightarrow> Inl Record_Id_Missing | Some r \<Rightarrow> Inr r)"

definition remove_record_by_id :: "ops_env \<Rightarrow> config \<Rightarrow> config \<Rightarrow> config \<Rightarrow> string \<Rightarrow> ops_error + config" where
  "remove_record_by_id env file0 file doc i =
     and_then (find_by_id env file0 i) (\<lambda>r. remove_record env file doc (rec_name r) (rec_under r))"

definition set_health_by_id :: "ops_env \<Rightarrow> config \<Rightarrow> config \<Rightarrow> string \<Rightarrow> health_settings \<Rightarrow> ops_error + config" where
  "set_health_by_id env file doc i hs =
     and_then (find_by_id env file i) (\<lambda>r. set_health env doc (rec_name r) (rec_under r) hs)"

section \<open>Lemmas\<close>

text \<open>Records of a valid file are told apart by name and parent, and by identifier.\<close>

lemma check_records_ids:
  assumes "check_records api cfg seen ids rs = None"
  shows "distinct (somes (map rec_id rs)) \<and> set (somes (map rec_id rs)) \<inter> set ids = {}"
  using assms
  by (induction api cfg seen ids rs rule: check_records.induct) (auto split: option.splits)

lemma somes_distinct_eq:
  "distinct (somes (map f rs)) \<Longrightarrow> r \<in> set rs \<Longrightarrow> q \<in> set rs \<Longrightarrow> f r = Some i \<Longrightarrow> f q = Some i \<Longrightarrow> r = q"
proof (induction rs)
  case (Cons x rs)
  have m: "y \<in> set rs \<Longrightarrow> f y = Some i \<Longrightarrow> i \<in> set (somes (map f rs))" for y
    by (force simp: somes_def set_map_filter)
  from Cons m show ?case by (cases "f x") auto
qed simp

lemma custom_name_visible: "is_custom_dns_name s \<Longrightarrow> c \<in> set s \<Longrightarrow> 33 \<le> code c \<and> code c < 128"
proof -
  assume s: "is_custom_dns_name s" and c: "c \<in> set s"
  have "set (join ''.'' ps) \<subseteq> {CHR ''.''} \<union> \<Union> (set ` set ps)" for ps
    by (induction "''.''" ps rule: join.induct) auto
  from this [of "split_on (CHR ''.'') s"] c consider "c = CHR ''.''"
    | l where "l \<in> set (split_on (CHR ''.'') s)" "c \<in> set l" by (auto simp: join_split_on)
  then show ?thesis
  proof cases
    case 2
    with s have "l = ''*'' \<or> label_ok l"
      by (auto simp: is_custom_dns_name_def list_all_iff is_dns_label_iff split: list.splits)
    with 2 show ?thesis using label_char_ascii [of c] by (auto simp: label_ok_def list_all_iff)
  qed simp
qed

lemma custom_name_trim: "is_custom_dns_name s \<Longrightarrow> trim s = s"
  using custom_name_visible by (intro trim_visible) (auto simp: ascii_def)

lemma loaded_records:
  assumes "validate api (resolve_paths f doc) = None"
  shows "r \<in> set (cfg_dns_records doc) \<Longrightarrow> trim (rec_name r) = rec_name r"
    and "r \<in> set (cfg_dns_records doc) \<Longrightarrow> q \<in> set (cfg_dns_records doc) \<Longrightarrow>
      rec_name r = rec_name q \<Longrightarrow> rec_under r = rec_under q \<Longrightarrow> r = q"
    and "r \<in> set (cfg_dns_records doc) \<Longrightarrow> q \<in> set (cfg_dns_records doc) \<Longrightarrow>
      rec_id r = Some i \<Longrightarrow> rec_id q = Some i \<Longrightarrow> r = q"
proof -
  note c = validate_None(7) [OF assms, simplified]
  show "r \<in> set (cfg_dns_records doc) \<Longrightarrow> trim (rec_name r) = rec_name r"
    using check_records_member(1) [OF c] custom_name_trim by blast
  show "r \<in> set (cfg_dns_records doc) \<Longrightarrow> q \<in> set (cfg_dns_records doc) \<Longrightarrow>
      rec_name r = rec_name q \<Longrightarrow> rec_under r = rec_under q \<Longrightarrow> r = q"
    using check_records_distinct [OF c] by (auto simp: distinct_map dest: inj_onD)
  show "r \<in> set (cfg_dns_records doc) \<Longrightarrow> q \<in> set (cfg_dns_records doc) \<Longrightarrow>
      rec_id r = Some i \<Longrightarrow> rec_id q = Some i \<Longrightarrow> r = q"
    using somes_distinct_eq [of rec_id "cfg_dns_records doc"] check_records_ids [OF c] by blast
qed

lemma find_by_id_Inr:
  assumes "find_by_id env doc i = Inr r"
  shows "validate (env_api env) (resolve_paths (env_resolve env) doc) = None"
    and "r \<in> set (cfg_dns_records doc)" and "rec_id r = Some i"
  using assms find_Some_set by (fastforce simp: find_by_id_def split: option.splits)+

lemma health_put_get: "health_of_record (put_health hs r) = hs"
  by (cases hs; cases "hs_kind hs") (simp_all add: health_of_record_def put_health_def)

lemma update_record_Some:
  "update_record name parent f rs = Some rs' \<Longrightarrow>
    \<exists>a r b. rs = a @ r # b \<and> rs' = a @ f r # b \<and> trim (rec_name r) = name \<and> rec_under r = parent"
proof (induction rs arbitrary: rs')
  case (Cons x rs)
  show ?case
  proof (cases "trim (rec_name x) = name \<and> rec_under x = parent")
    case True
    with Cons.prems show ?thesis by (intro exI [of _ "[]"]) auto
  next
    case False
    with Cons.prems obtain qs where "update_record name parent f rs = Some qs" "rs' = x # qs" by auto
    moreover from Cons.IH [OF this(1)] obtain a r b where "rs = a @ r # b" "qs = a @ f r # b"
      "trim (rec_name r) = name" "rec_under r = parent" by blast
    ultimately show ?thesis by (intro exI [of _ "x # a"]) auto
  qed
qed simp

lemma assign_ids_complete:
  "list_all2 (\<lambda>r q. rec_id q \<noteq> None \<and> q = r\<lparr>rec_id := rec_id q\<rparr> \<and> (rec_id r \<noteq> None \<longrightarrow> q = r)) rs (assign_ids index used rs)"
  by (induction index used rs rule: assign_ids.induct) (auto simp: Let_def)

lemma assign_ids_done: "\<forall>r \<in> set rs. rec_id r \<noteq> None \<Longrightarrow> assign_ids index used rs = rs"
  by (induction rs arbitrary: index) auto

section \<open>Properties\<close>

text \<open>
  Removing a record leaves no reference to it. Exactly the record with the identifier is gone, with every
  rule that names it as a service; members, groups and the other records stay, and the file is valid.
\<close>

theorem removed_record_unreferenced:
  assumes "remove_record_by_id env doc doc doc i = Inr doc'"
  shows "cfg_dns_records doc' = filter (\<lambda>r. rec_id r \<noteq> Some i) (cfg_dns_records doc)
    \<and> (\<exists>r \<in> set (cfg_dns_records doc). rec_id r = Some i)
    \<and> acl_rules (cfg_acl doc') = filter (\<lambda>r. rule_source r \<noteq> Service_Target i \<and> rule_destination r \<noteq> Service_Target i)
        (acl_rules (cfg_acl doc))
    \<and> acl_groups (cfg_acl doc') = acl_groups (cfg_acl doc) \<and> acl_deny (cfg_acl doc') = acl_deny (cfg_acl doc)
    \<and> cfg_peers doc' = cfg_peers doc \<and> validate (env_api env) doc' = None"
proof -
  from assms obtain r where r: "find_by_id env doc i = Inr r"
    and m: "remove_record env doc doc (rec_name r) (rec_under r) = Inr doc'"
    by (auto simp: remove_record_by_id_def)
  note f = find_by_id_Inr [OF r]
  note l = loaded_records [OF f(1)]
  let ?P = "\<lambda>q. rec_name q = rec_name r \<and> rec_under q = rec_under r"
  have "find ?P (cfg_dns_records doc) = Some r"
  proof (cases "find ?P (cfg_dns_records doc)")
    case None
    then show ?thesis using f(2) by (auto simp: find_None_set)
  next
    case (Some q)
    with find_Some_set [OF Some] l(2) f(2) show ?thesis by blast
  qed
  then have i: "Option.bind (find ?P (cfg_dns_records doc)) rec_id = Some i" using f(3) by simp
  have "\<not> (trim (rec_name q) = rec_name r \<and> rec_under q = rec_under r) \<longleftrightarrow> rec_id q \<noteq> Some i"
    if "q \<in> set (cfg_dns_records doc)" for q
    using l(1) [OF that] l(2,3) [OF that f(2)] f(3) by auto
  then have k: "filter (\<lambda>q. \<not> (trim (rec_name q) = rec_name r \<and> rec_under q = rec_under r)) (cfg_dns_records doc)
      = filter (\<lambda>q. rec_id q \<noteq> Some i) (cfg_dns_records doc)" by (rule filter_cong [OF refl])
  from m have "doc' = drop_service_rules (Some i) (doc\<lparr>cfg_dns_records := filter (\<lambda>q. rec_id q \<noteq> Some i) (cfg_dns_records doc)\<rparr>)"
      "validate (env_api env) doc' = None"
    by (auto simp: remove_record_def Let_def i k simp del: de_Morgan_conj)
  then show ?thesis using f by (auto simp: drop_service_rules_def)
qed

text \<open>
  The settings of a health check are stored and read back. A successful change concerns the record with the
  identifier alone, the settings read from the stored record are the ones that were given, and the
  file is valid.
\<close>

theorem health_settings_stored:
  assumes "set_health_by_id env doc doc i hs = Inr doc'"
  shows "\<exists>a r b. cfg_dns_records doc = a @ r # b \<and> rec_id r = Some i
    \<and> (\<exists>q. cfg_dns_records doc' = a @ q # b \<and> rec_id q = Some i \<and> rec_name q = rec_name r \<and> rec_port q = rec_port r
        \<and> health_of_record q = hs)
    \<and> cfg_peers doc' = cfg_peers doc \<and> cfg_acl doc' = cfg_acl doc \<and> validate (env_api env) doc' = None"
proof -
  from assms obtain r where r: "find_by_id env doc i = Inr r"
    and m: "set_health env doc (rec_name r) (rec_under r) hs = Inr doc'"
    by (auto simp: set_health_by_id_def)
  note f = find_by_id_Inr [OF r]
  from m obtain rs where rs: "update_record (rec_name r) (rec_under r) (put_health hs) (cfg_dns_records doc) = Some rs"
    and doc': "doc' = doc\<lparr>cfg_dns_records := rs\<rparr>" "validate (env_api env) doc' = None"
    by (auto simp: set_health_def split: option.splits)
  from update_record_Some [OF rs] obtain a q b where q: "cfg_dns_records doc = a @ q # b" "rs = a @ put_health hs q # b"
    "trim (rec_name q) = rec_name r" "rec_under q = rec_under r" by blast
  then have "q \<in> set (cfg_dns_records doc)" by simp
  with loaded_records(1,2) [OF f(1)] f(2) q(3,4) have "q = r" by metis
  with q doc' f(3) have "cfg_dns_records doc = a @ r # b \<and> rec_id r = Some i
    \<and> (\<exists>q. cfg_dns_records doc' = a @ q # b \<and> rec_id q = Some i \<and> rec_name q = rec_name r \<and> rec_port q = rec_port r
        \<and> health_of_record q = hs)
    \<and> cfg_peers doc' = cfg_peers doc \<and> cfg_acl doc' = cfg_acl doc \<and> validate (env_api env) doc' = None"
    using health_put_get [of hs r] by (auto simp: put_health_def)
  then show ?thesis by blast
qed

text \<open>
  Listing gives every record an identifier, once. When a listing succeeds all records of the written
  file have identifiers, no two the same; a record that had one keeps it, the rest of the record is as before, and
  listing the written file again writes nothing.
\<close>

theorem listing_completes_ids:
  assumes "list_records env doc doc (\<lambda>d. d) = Inr (details, doc')"
  shows "list_all2 (\<lambda>r q. rec_id q \<noteq> None \<and> q = r\<lparr>rec_id := rec_id q\<rparr> \<and> (rec_id r \<noteq> None \<longrightarrow> q = r))
      (cfg_dns_records doc) (cfg_dns_records doc')
    \<and> map dt_id details = map rec_id (cfg_dns_records doc') \<and> distinct (map rec_id (cfg_dns_records doc'))
    \<and> cfg_peers doc' = cfg_peers doc \<and> cfg_acl doc' = cfg_acl doc
    \<and> list_records env doc' doc' (\<lambda>d. d) = Inr (details, doc')"
proof -
  let ?c = "\<lambda>d. resolve_paths (env_resolve env) d"
  have dt: "map dt_id (map (detail_of c) rs) = map rec_id rs" for c rs
    by (simp add: detail_of_def Let_def split_def)
  have some: "distinct (map rec_id rs)" if "\<forall>r \<in> set rs. rec_id r \<noteq> None" "distinct (somes (map rec_id rs))" for rs
  proof -
    have "map Some (somes xs) = xs" if "\<forall>x \<in> set xs. x \<noteq> None" for xs :: "string option list"
      using that by (induction xs) auto
    with that have "map rec_id rs = map Some (somes (map rec_id rs))" by simp
    with that(2) show ?thesis by (metis distinct_map inj_on_def option.inject)
  qed
  have main: "list_all2 (\<lambda>r q. rec_id q \<noteq> None \<and> q = r\<lparr>rec_id := rec_id q\<rparr> \<and> (rec_id r \<noteq> None \<longrightarrow> q = r))
        (cfg_dns_records doc) (cfg_dns_records doc')
      \<and> validate (env_api env) (?c doc') = None \<and> details = map (detail_of (?c doc')) (cfg_dns_records doc')
      \<and> cfg_peers doc' = cfg_peers doc \<and> cfg_acl doc' = cfg_acl doc"
  proof (cases "list_ex (\<lambda>r. rec_id r = None) (cfg_dns_records doc)")
    case True
    with assms show ?thesis using assign_ids_complete by (auto simp: list_records_def)
  next
    case False
    with assms have "doc' = doc" "validate (env_api env) (?c doc) = None" "details = map (detail_of (?c doc)) (cfg_dns_records doc)"
      by (auto simp: list_records_def)
    with False show ?thesis by (auto simp: list_all2_same list_ex_iff)
  qed
  then have ids: "\<forall>q \<in> set (cfg_dns_records doc'). rec_id q \<noteq> None"
    by (auto simp: list_all2_conv_all_nth in_set_conv_nth)
  have "distinct (somes (map rec_id (cfg_dns_records doc')))"
    using main check_records_ids [OF validate_None(7) [of "env_api env" "?c doc'"]] by simp
  with some ids have "distinct (map rec_id (cfg_dns_records doc'))" by blast
  moreover have "\<not> list_ex (\<lambda>r. rec_id r = None) (cfg_dns_records doc')" using ids by (auto simp: list_ex_iff)
  then have "list_records env doc' doc' (\<lambda>d. d) = Inr (details, doc')"
    using main by (simp add: list_records_def load_config_def Let_def)
  ultimately show ?thesis using main dt by simp
qed

text \<open>
  A new record takes a name nobody has. It is stored under the normal form of its name, with the target that was asked
  for; at the top level the last label is neither reserved nor the name of the host, a member or another record, and
  not of the form reserved for members to come. The result is the name relative to the network.
\<close>

theorem added_record_name_free:
  assumes "add_record env nanos file doc nr = Inr (relative, doc')"
  shows "\<exists>r. cfg_dns_records doc' = cfg_dns_records doc @ [r] \<and> validate (env_api env) doc' = None
    \<and> normalize_custom_dns_name (nr_name nr) = Some (rec_name r) \<and> is_custom_dns_name (rec_name r)
    \<and> rec_under r = nr_under nr \<and> relative = relative_name (resolve_paths (env_resolve env) file) r
    \<and> fst (dest_of c r) = (case nr_target nr of To_Cname d \<Rightarrow> To_Cname (the (normalize_cname_target d)) | t \<Rightarrow> t)
    \<and> (nr_under nr = None \<longrightarrow> check_base (resolve_paths (env_resolve env) file) (rec_name r) = None)
    \<and> (\<forall>q \<in> set (cfg_dns_records doc). (rec_name q, rec_under q) \<noteq> (rec_name r, rec_under r))"
proof -
  from assms obtain name where n: "normalize_custom_dns_name (nr_name nr) = Some name"
    by (cases "normalize_custom_dns_name (nr_name nr)") (auto simp: add_record_def)
  let ?cfg = "resolve_paths (env_resolve env) file"
  from assms n have b: "(if nr_under nr = None then check_base ?cfg name else None) = None"
    by (cases "if nr_under nr = None then check_base ?cfg name else None") (auto simp: add_record_def)
  with assms n obtain scheme r where r: "record_block nanos name scheme nr = Inr r"
    and rel: "(case nr_under nr of None \<Rightarrow> Inr name
        | Some u \<Rightarrow> (case label_of ?cfg u of Some l \<Rightarrow> Inr (name @ ''.'' @ l) | None \<Rightarrow> Inl Parent_Missing)) = Inr relative"
    and doc': "doc' = doc\<lparr>cfg_dns_records := cfg_dns_records doc @ [r]\<rparr>" "validate (env_api env) doc' = None"
    by (auto simp: add_record_def)
  have f: "rec_name r = name" "rec_under r = nr_under nr"
      "fst (dest_of c r) = (case nr_target nr of To_Cname d \<Rightarrow> To_Cname (the (normalize_cname_target d)) | t \<Rightarrow> t)"
    using r by (auto simp: record_block_def Let_def dest_of_def split: record_dest.splits option.splits)
  have "relative = relative_name ?cfg r"
    using rel f(1,2) by (auto simp: relative_name_def split: option.splits)
  moreover have c: "check_records (env_api env) doc' [] [] (cfg_dns_records doc @ [r]) = None"
    using validate_None(7) [OF doc'(2)] doc'(1) by simp
  then have "is_custom_dns_name (rec_name r)" using check_records_member(1) by fastforce
  moreover have "\<forall>q \<in> set (cfg_dns_records doc). (rec_name q, rec_under q) \<noteq> (rec_name r, rec_under r)"
    using check_records_distinct [OF c] by (force simp: image_iff)
  ultimately show ?thesis using n b f doc' by (intro exI [of _ r]) (auto split: if_splits)
qed

section \<open>Witnesses\<close>

definition web_record :: dns_record_config where
  "web_record = printer_record\<lparr>rec_id := Some ''svc-1'', rec_name := ''web'', rec_ip := Some 0x0A000005, rec_under := None,
     rec_scheme := Some ''http'', rec_port := Some 80\<rparr>"

definition old_record :: dns_record_config where
  "old_record = web_record\<lparr>rec_id := None, rec_name := ''old''\<rparr>"

definition web_rule :: acl_rule where
  "web_rule = \<lparr>rule_id = ''web'', rule_action = Deny, rule_source = Any_Target ''any'',
     rule_destination = Service_Target ''svc-1'', rule_protocol = Any_Protocol, rule_ports = [], rule_enabled = True\<rparr>"

abbreviation services :: "dns_record_config list \<Rightarrow> acl_rule list \<Rightarrow> config" where
  "services rs us \<equiv> \<lparr>cfg_interface = sample_interface, cfg_peers = [], cfg_dns_records = rs,
     cfg_acl = empty_acl\<lparr>acl_rules := us\<rparr>\<rparr>"

lemma service_names: "is_custom_dns_name ''web''" "is_custom_dns_name ''old''" "is_dns_label ''svc-1''" "is_dns_label ''svc-2''"
  "is_dns_label ''web''" "is_service_scheme ''http''"
  by code_simp+

lemmas services_eval = validate_eval compile_def web_record_def old_record_def printer_record_def service_names

lemma services_valid: "validate cidr_api (services [web_record] []) = None"
  "validate cidr_api (services [web_record, old_record] []) = None"
  "validate cidr_api (services [web_record, old_record\<lparr>rec_id := Some ''svc-2''\<rparr>] []) = None"
  "validate cidr_api (services [web_record\<lparr>rec_health_check := Some False\<rparr>] []) = None"
  by (simp_all add: services_eval)

lemma web_rule_valid: "validate cidr_api (services [web_record] [web_rule]) = None"
proof -
  have ok: "\<exists>pol. compile cidr_api (services [web_record] [web_rule]) = Inr pol"
    by (simp add: compile_def web_rule_def compile_rule_def resolve_service_def parse_ports_def web_record_def
        printer_record_def trim_visible ascii_def empty_acl_def legacy_rules_def normalized_deny_def side_networks_def)
  then show ?thesis
    by (auto simp: validate_eval web_record_def printer_record_def service_names web_rule_def empty_acl_def)
qed

lemma service_resolve [simp]: "resolve_paths (\<lambda>p. p) cfg = cfg" and sample_resolve [simp]: "env_resolve sample_env = (\<lambda>p. p)"
    "env_api sample_env = cidr_api"
  by (simp_all add: resolve_paths_ident sample_env_def)

lemma web_find: "find_by_id sample_env (services [web_record] us) ''svc-1'' = (case validate cidr_api (services [web_record] us) of
    Some e \<Rightarrow> Inl (Load_Invalid e) | None \<Rightarrow> Inr web_record)"
  by (simp add: find_by_id_def sample_load web_record_def printer_record_def split: option.split)

lemma web_name: "trim ''web'' = ''web''" "rec_name web_record = ''web''" "rec_under web_record = None" "rec_id web_record = Some ''svc-1''"
  by (simp_all add: trim_visible ascii_def web_record_def)

lemma web_removed: "remove_record_by_id sample_env (services [web_record] [web_rule]) (services [web_record] [web_rule])
    (services [web_record] [web_rule]) ''svc-1'' = Inr (services [] [])"
proof -
  have "validate cidr_api (services [] []) = None" by (simp add: services_eval)
  moreover have "drop_service_rules (Some ''svc-1'') (services [] [web_rule]) = services [] []"
    by (simp add: drop_service_rules_def web_rule_def)
  ultimately show ?thesis
    by (simp add: remove_record_by_id_def web_find web_rule_valid remove_record_def sample_load sample_write web_name bail_if_def
        cong: option.case_cong)
qed

theorem removed_record_unreferenced_witness:
  "acl_rules (cfg_acl (services [] [])) = [] \<and> (\<exists>r \<in> set [web_record]. rec_id r = Some ''svc-1'')"
  using removed_record_unreferenced [OF web_removed] by simp

lemma web_health: "set_health_by_id sample_env (services [web_record] []) (services [web_record] []) ''svc-1''
    ((health_of_record web_record)\<lparr>hs_enabled := False\<rparr>) = Inr (services [web_record\<lparr>rec_health_check := Some False\<rparr>] [])"
proof -
  have p: "put_health ((health_of_record web_record)\<lparr>hs_enabled := False\<rparr>) web_record = web_record\<lparr>rec_health_check := Some False\<rparr>"
    by (simp add: put_health_def health_of_record_def web_record_def printer_record_def)
  then show ?thesis
    by (simp add: set_health_by_id_def web_find services_valid set_health_def web_name bail_if_def sample_write)
qed

theorem health_settings_stored_witness:
  "\<exists>q. cfg_dns_records (services [web_record\<lparr>rec_health_check := Some False\<rparr>] []) = [q] \<and> \<not> hs_enabled (health_of_record q)"
  using health_settings_stored [OF web_health] by (auto simp: Cons_eq_append_conv)

lemma old_listed: "\<exists>ds. list_records sample_env (services [web_record, old_record] []) (services [web_record, old_record] []) (\<lambda>d. d)
    = Inr (ds, services [web_record, old_record\<lparr>rec_id := Some ''svc-2''\<rparr>] [])"
proof -
  have s: "service_id (Suc (Suc 0)) = ''svc-2''" by code_simp
  have i: "rec_id web_record = Some ''svc-1''" "rec_id old_record = None"
    by (simp_all add: web_record_def old_record_def)
  have "assign_ids 0 [''svc-1''] [web_record, old_record] = [web_record, old_record\<lparr>rec_id := Some ''svc-2''\<rparr>]"
    by (simp add: i free_service_id.simps [of "Suc (Suc 0)"] s)
  then show ?thesis
    by (simp add: list_records_def sample_load sample_write services_valid i bail_if_def)
qed

theorem listing_completes_ids_witness:
  "\<exists>ds. list_records sample_env (services [web_record, old_record\<lparr>rec_id := Some ''svc-2''\<rparr>] [])
      (services [web_record, old_record\<lparr>rec_id := Some ''svc-2''\<rparr>] []) (\<lambda>d. d)
    = Inr (ds, services [web_record, old_record\<lparr>rec_id := Some ''svc-2''\<rparr>] []) \<and> map dt_id ds = [Some ''svc-1'', Some ''svc-2'']"
proof -
  obtain ds where l: "list_records sample_env (services [web_record, old_record] []) (services [web_record, old_record] []) (\<lambda>d. d)
    = Inr (ds, services [web_record, old_record\<lparr>rec_id := Some ''svc-2''\<rparr>] [])" using old_listed ..
  have "map rec_id [web_record, old_record\<lparr>rec_id := Some ''svc-2''\<rparr>] = [Some ''svc-1'', Some ''svc-2'']"
    by (simp add: web_record_def)
  with listing_completes_ids [OF l] show ?thesis by (intro exI [of _ ds]) simp
qed

definition new_web :: new_record where
  "new_web = \<lparr>nr_name = ''Web'', nr_target = To_Ip 0x0A000005, nr_under = None, nr_scheme = Some ''http'', nr_port = Some 80\<rparr>"

lemma web_added: "add_record sample_env 1 (services [] []) (services [] []) new_web = Inr (''web'', services [web_record] [])"
proof -
  have c: "normalize_custom_dns_name ''Web'' = Some ''web''" "checked_scheme (Some ''http'') = Inr (Some ''http'')"
    "last (split_on (CHR ''.'') ''web'') = ''web''" "\<not> is_reserved_member_label ''web''"
    "\<not> (''web'' \<in> set RESERVED_DNS_LABELS \<or> ''web'' = HOST_DNS_LABEL)" by code_simp+
  have x: "show_hex (Suc 0) = ''1''" 
    by (subst show_hex.simps) (simp, code_simp)
  have v: "validate cidr_api (services [] []) = None" by (simp add: services_eval)
  have b: "check_base (services [] []) ''web'' = None"
    using c(3-5) by (simp add: check_base_def err_then_def err_when_def taken_dns_labels_def host_dns_label_def sample_interface_def HOST_DNS_LABEL_def)
  have "record_block 1 ''web'' (Some ''http'') new_web = Inr web_record"
    by (simp add: record_block_def new_web_def x web_record_def printer_record_def)
  with b c(1,2) v services_valid show ?thesis
    by (simp add: add_record_def new_web_def sample_load sample_write bail_if_def)
qed

theorem added_record_name_free_witness:
  "normalize_custom_dns_name (nr_name new_web) = Some (rec_name web_record) \<and> check_base (services [] []) ''web'' = None"
  using added_record_name_free [OF web_added, of "services [] []"] by (auto simp: new_web_def web_name)

end
