(* ===== verification/Host_Requests.thy ===== *)
theory Host_Requests
  imports Invite Settings Dns_Records Health
begin

text \<open>
  The requests of members the host serves, \<^verbatim>\<open>HostRequests\<close> of
  \<^verbatim>\<open>crates/peercove-cli/src/control.rs\<close>: key rotation, names, invitations, and what a member with
  delegated administration may do. Requests are serialised by a lock of their own, but other processes edit the file
  too, so the successive reads of it are the fields of \<open>host_reads\<close>. A reply is its sequence number and an error or
  the data; the sentences shown to people are left out.
\<close>

section \<open>Requests\<close>

record host_env =
  he_ops :: ops_env
  he_addr :: addr_text
  he_parse_net :: "string \<Rightarrow> ipv4net option"
  he_public_key :: public_key
  he_external_endpoint :: "(ipv4 \<times> u16) option"
  he_random :: u32
  he_nanos :: nat
  he_now :: nat

text \<open>The file as read for the permission, by the operation before it locks, under the lock, and after it wrote.\<close>

record host_reads =
  hr_auth :: config
  hr_first :: config
  hr_second :: config
  hr_third :: config
  hr_doc :: config
  hr_again :: "config \<Rightarrow> config"

definition one_read :: "config \<Rightarrow> host_reads" where
  "one_read doc = \<lparr>hr_auth = doc, hr_first = doc, hr_second = doc, hr_third = doc, hr_doc = doc, hr_again = (\<lambda>d. d)\<rparr>"

datatype admin_request =
    Remove_Member ipv4
  | Rename_Member ipv4 string
  | Approve_Member ipv4
  | Allow_Invites ipv4 bool
  | Set_Member_Dns_Name ipv4 string
  | Read_Network_Settings
  | Set_Require_Approval bool
  | Set_Member_Invites bool
  | Set_Network_Display_Name "string option"
  | Acl_Read
  | Acl_Write policy_settings
  | Set_Member_Subnets ipv4 "string list"
  | Dns_Check_Now
  | Dns_List_Full
  | Perm_Group_Create string "ipv4 list"
  | Perm_Group_Rename string string
  | Perm_Group_Set_Members string "ipv4 list"
  | Perm_Group_Delete string

text \<open>\<^verbatim>\<open>AdminDnsRecord\<close>: the target is spread over three fields.\<close>

record admin_dns_record =
  ad_detail :: record_detail
  ad_ip :: "ipv4 option"
  ad_member :: "member_ref option"
  ad_cname :: "string option"

definition flatten_record :: "record_detail \<Rightarrow> admin_dns_record" where
  "flatten_record d =
     \<lparr>ad_detail = d,
      ad_ip = (case dt_target d of To_Ip ip \<Rightarrow> Some ip | _ \<Rightarrow> None),
      ad_member = (case dt_target d of To_Member m \<Rightarrow> Some m | _ \<Rightarrow> None),
      ad_cname = (case dt_target d of To_Cname c \<Rightarrow> Some c | _ \<Rightarrow> None)\<rparr>"

datatype admin_data =
    Network_Settings_Data bool bool "string option"
  | Acl_Policy_Data policy_settings
  | Dns_Records_Data "admin_dns_record list"

record 'a host_reply =
  reply_seq :: nat
  reply_result :: "ops_error + 'a"

definition accepted :: "('a, 'b) host_reply_scheme \<Rightarrow> bool" where
  "accepted r \<longleftrightarrow> (case reply_result r of Inr _ \<Rightarrow> True | Inl _ \<Rightarrow> False)"

section \<open>Administration\<close>

definition resolve_member_pubkey :: "config \<Rightarrow> public_key \<Rightarrow> ipv4 \<Rightarrow> ops_error + public_key" where
  "resolve_member_pubkey cfg host_key ip =
     (if ip = net_addr (if_address (cfg_interface cfg)) then Inr host_key
      else case find (\<lambda>p. list_ex (\<lambda>n. net_addr n = ip) (peer_allowed_ips p)) (cfg_peers cfg) of
             Some p \<Rightarrow> Inr (peer_public_key p) | None \<Rightarrow> Inl (Not_A_Member ip))"

definition guard_target :: "config \<Rightarrow> ipv4 \<Rightarrow> ipv4 \<Rightarrow> ops_error + 'a \<Rightarrow> ops_error + 'a" where
  "guard_target cfg member_ip ip k =
     bail_if (ip = member_ip) Target_Is_Self
       (bail_if (ip = net_addr (if_address (cfg_interface cfg))) Target_Is_Host k)"

type_synonym admin_effect = "admin_data option \<times> config \<times> health_monitor option"

text \<open>The result of an operation that only writes.\<close>

definition done_writing :: "health_monitor option \<Rightarrow> ops_error + config \<Rightarrow> ops_error + admin_effect" where
  "done_writing health r = and_then r (\<lambda>doc. Inr (None, doc, health))"

definition change_setting :: "host_env \<Rightarrow> host_reads \<Rightarrow> (settings_update \<Rightarrow> settings_update) \<Rightarrow> ops_error + config" where
  "change_setting he rs f =
     and_then (read_settings (he_ops he) (he_addr he) (hr_first rs)) (\<lambda>st.
       update_settings (he_ops he) (he_addr he) (hr_second rs) (hr_third rs) (hr_doc rs) (f (unchanged_update st)))"

definition parse_subnets :: "host_env \<Rightarrow> string list \<Rightarrow> ops_error + ipv4net list" where
  "parse_subnets he =
     collect_result (\<lambda>s. case he_parse_net he (trim s) of Some n \<Rightarrow> Inr n | None \<Rightarrow> Inl (Bad_Cidr s))"

fun perform_admin :: "host_env \<Rightarrow> host_reads \<Rightarrow> health_monitor option \<Rightarrow> config \<Rightarrow> ipv4 \<Rightarrow> admin_request
    \<Rightarrow> ops_error + admin_effect" where
  "perform_admin he rs h cfg me (Remove_Member ip) =
     guard_target cfg me ip (done_writing h (written (remove_peer (he_ops he) (hr_first rs) (hr_doc rs) (Sel_Ip ip))))"
| "perform_admin he rs h cfg me (Rename_Member ip name) =
     guard_target cfg me ip (done_writing h (rename_peer (he_ops he) (hr_first rs) (hr_doc rs) (Sel_Ip ip) (trim name)))"
| "perform_admin he rs h cfg me (Approve_Member ip) =
     guard_target cfg me ip (done_writing h (approve_invite (he_ops he) (hr_first rs) (hr_doc rs) (Sel_Ip ip) (he_now he)))"
| "perform_admin he rs h cfg me (Allow_Invites ip allowed) =
     guard_target cfg me ip
       (done_writing h (written (set_peer_can_invite (he_ops he) (hr_first rs) (hr_doc rs) (Sel_Ip ip) allowed)))"
| "perform_admin he rs h cfg me (Set_Member_Dns_Name ip dns_name) =
     guard_target cfg me ip
       (done_writing h (written (set_peer_dns_name (he_ops he) (hr_first rs) (hr_doc rs) (Sel_Ip ip) (trim dns_name))))"
| "perform_admin he rs h cfg me Read_Network_Settings =
     and_then (read_settings (he_ops he) (he_addr he) (hr_first rs)) (\<lambda>st.
       Inr (Some (Network_Settings_Data (st_require_invite_approval st) (st_member_invites st) (st_network_display_name st)),
         hr_doc rs, h))"
| "perform_admin he rs h cfg me (Set_Require_Approval enabled) =
     done_writing h (change_setting he rs (\<lambda>u. u\<lparr>su_require_invite_approval := enabled\<rparr>))"
| "perform_admin he rs h cfg me (Set_Member_Invites enabled) =
     done_writing h (change_setting he rs (\<lambda>u. u\<lparr>su_member_invites := enabled\<rparr>))"
| "perform_admin he rs h cfg me (Set_Network_Display_Name name) =
     done_writing h (change_setting he rs (\<lambda>u. u\<lparr>su_network_display_name := name\<rparr>))"
| "perform_admin he rs h cfg me Acl_Read =
     and_then (read_policy (he_ops he) (hr_first rs)) (\<lambda>ps. Inr (Some (Acl_Policy_Data ps), hr_doc rs, h))"
| "perform_admin he rs h cfg me (Acl_Write ps) = done_writing h (write_policy (he_ops he) (hr_doc rs) ps)"
| "perform_admin he rs h cfg me (Set_Member_Subnets ip subnets) =
     guard_target cfg me ip
       (and_then (parse_subnets he subnets) (\<lambda>ns.
          done_writing h (written (set_subnets (he_ops he) (hr_first rs) (hr_doc rs) (Sel_Ip ip) ns))))"
| "perform_admin he rs h cfg me Dns_Check_Now =
     (case h of None \<Rightarrow> Inl Network_Down | Some m \<Rightarrow> Inr (None, hr_doc rs, Some (request_now m)))"
| "perform_admin he rs h cfg me Dns_List_Full =
     and_then (list_records (he_ops he) (hr_first rs) (hr_doc rs) (hr_again rs)) (\<lambda>(records, doc).
       Inr (Some (Dns_Records_Data (map flatten_record records)), doc, h))"
| "perform_admin he rs h cfg me (Perm_Group_Create name members) =
     and_then (collect_result (resolve_member_pubkey cfg (he_public_key he)) members) (\<lambda>keys.
       done_writing h (written (perm_group_create (he_ops he) (he_random he) (hr_first rs) (hr_doc rs) name keys)))"
| "perform_admin he rs h cfg me (Perm_Group_Rename i name) =
     done_writing h (perm_group_rename (he_ops he) (hr_first rs) (hr_doc rs) i name)"
| "perform_admin he rs h cfg me (Perm_Group_Set_Members i members) =
     and_then (collect_result (resolve_member_pubkey cfg (he_public_key he)) members) (\<lambda>keys.
       done_writing h (perm_group_set_members (he_ops he) (hr_first rs) (hr_doc rs) i keys))"
| "perform_admin he rs h cfg me (Perm_Group_Delete i) =
     done_writing h (perm_group_delete (he_ops he) (hr_first rs) (hr_doc rs) i)"

text \<open>The check every delegated request begins with.\<close>

definition as_admin :: "host_env \<Rightarrow> config \<Rightarrow> ipv4 \<Rightarrow> (config \<Rightarrow> ops_error + 'a) \<Rightarrow> ops_error + 'a" where
  "as_admin he auth me k =
     and_then (load_config (he_ops he) auth) (\<lambda>cfg.
     and_then (find_peer (he_ops he) cfg (Sel_Ip me)) (\<lambda>actor.
       bail_if (\<not> peer_admin actor) Not_Delegated (k cfg)))"

definition apply_admin_op :: "host_env \<Rightarrow> host_reads \<Rightarrow> health_monitor option \<Rightarrow> ipv4 \<Rightarrow> nat \<Rightarrow> admin_request
    \<Rightarrow> admin_data option host_reply \<times> config \<times> health_monitor option" where
  "apply_admin_op he rs h me seq op =
     (case as_admin he (hr_auth rs) me (\<lambda>cfg. perform_admin he rs h cfg me op) of
        Inl e \<Rightarrow> (\<lparr>reply_seq = seq, reply_result = Inl e\<rparr>, hr_doc rs, h)
      | Inr (data, doc, h') \<Rightarrow> (\<lparr>reply_seq = seq, reply_result = Inr data\<rparr>, doc, h'))"

datatype admin_dns_request =
    Dns_Add string "ipv4 option" "member_ref option" "string option" "member_ref option" "string option" "u16 option"
  | Dns_Remove string
  | Dns_Set_Health string health_settings

fun perform_admin_dns :: "host_env \<Rightarrow> host_reads \<Rightarrow> admin_dns_request \<Rightarrow> ops_error + config" where
  "perform_admin_dns he rs (Dns_Add name ip member cname parent scheme port) =
     (case (case (ip, member, trimmed cname) of
              (Some i, None, None) \<Rightarrow> Some (To_Ip i)
            | (None, Some m, None) \<Rightarrow> Some (To_Member m)
            | (None, None, Some c) \<Rightarrow> Some (To_Cname c)
            | _ \<Rightarrow> None) of
        None \<Rightarrow> Inl Target_Count
      | Some target \<Rightarrow>
          written (add_record (he_ops he) (he_nanos he) (hr_first rs) (hr_doc rs)
            \<lparr>nr_name = trim name, nr_target = target, nr_under = parent, nr_scheme = trimmed scheme, nr_port = port\<rparr>))"
| "perform_admin_dns he rs (Dns_Remove i) = remove_record_by_id (he_ops he) (hr_first rs) (hr_second rs) (hr_doc rs) i"
| "perform_admin_dns he rs (Dns_Set_Health i hs) = set_health_by_id (he_ops he) (hr_first rs) (hr_doc rs) i hs"

definition apply_admin_dns :: "host_env \<Rightarrow> host_reads \<Rightarrow> ipv4 \<Rightarrow> nat \<Rightarrow> admin_dns_request \<Rightarrow> unit host_reply \<times> config" where
  "apply_admin_dns he rs me seq op =
     (case as_admin he (hr_auth rs) me (\<lambda>cfg. perform_admin_dns he rs op) of
        Inl e \<Rightarrow> (\<lparr>reply_seq = seq, reply_result = Inl e\<rparr>, hr_doc rs)
      | Inr doc \<Rightarrow> (\<lparr>reply_seq = seq, reply_result = Inr ()\<rparr>, doc))"

section \<open>Requests about the member itself\<close>

definition apply_rotate_key :: "host_env \<Rightarrow> host_reads \<Rightarrow> ipv4 \<Rightarrow> public_key \<Rightarrow> (ops_error + rotate_outcome) \<times> config" where
  "apply_rotate_key he rs me new_key =
     (case rotate_peer_key (he_ops he) (hr_first rs) (hr_doc rs) me new_key (he_public_key he) of
        Inl e \<Rightarrow> (Inl e, hr_doc rs) | Inr (outcome, doc) \<Rightarrow> (Inr outcome, doc))"

definition apply_dns_name :: "host_env \<Rightarrow> host_reads \<Rightarrow> ipv4 \<Rightarrow> string \<Rightarrow> (ops_error + dns_name_outcome) \<times> config" where
  "apply_dns_name he rs me name =
     (case set_peer_dns_name_by_ip (he_ops he) (hr_first rs) (hr_doc rs) me name of
        Inl e \<Rightarrow> (Inl e, hr_doc rs) | Inr (outcome, doc) \<Rightarrow> (Inr outcome, doc))"

definition apply_display_name :: "host_env \<Rightarrow> host_reads \<Rightarrow> ipv4 \<Rightarrow> string \<Rightarrow> (ops_error + string) \<times> config" where
  "apply_display_name he rs me name =
     (case set_peer_display_name_by_ip (he_ops he) (hr_first rs) (hr_doc rs) me name of
        Inl e \<Rightarrow> (Inl e, hr_doc rs) | Inr (outcome, doc) \<Rightarrow> (Inr outcome, doc))"

definition MAX_EXPIRES_SECS :: nat where "MAX_EXPIRES_SECS = 7 * 24 * 60 * 60"

text \<open>\<^verbatim>\<open>unwrap_or(MAX).clamp(60, MAX)\<close>.\<close>

definition member_expiry :: "nat option \<Rightarrow> nat" where
  "member_expiry s = max 60 (min (case s of Some n \<Rightarrow> n | None \<Rightarrow> MAX_EXPIRES_SECS) MAX_EXPIRES_SECS)"

definition member_invite_options :: "host_env \<Rightarrow> config \<Rightarrow> ipv4 \<Rightarrow> string option \<Rightarrow> nat option \<Rightarrow> ops_error + invite_options" where
  "member_invite_options he auth me name expires_in =
     and_then (load_config (he_ops he) auth) (\<lambda>cfg.
     bail_if (\<not> if_member_invites (cfg_interface cfg)) Member_Invites_Off
     (and_then (find_peer (he_ops he) cfg (Sel_Ip me)) (\<lambda>issuer.
      bail_if (\<not> (peer_can_invite issuer \<or> peer_admin issuer)) May_Not_Invite
      (case peer_invite_id issuer of
         None \<Rightarrow> Inl Issuer_Without_Id
       | Some issuer_id \<Rightarrow>
           Inr \<lparr>io_name = trimmed name, io_ip = None,
                io_extra_endpoints = (case he_external_endpoint he of Some e \<Rightarrow> [e] | None \<Rightarrow> []), io_psk = False,
                io_expires_in_secs = Some (member_expiry expires_in),
                io_invited_by = Some (issuer_id, case peer_name issuer of Some n \<Rightarrow> n | None \<Rightarrow> ''member-'' @ ip_text me)\<rparr>))))"

definition apply_create_invite :: "host_env \<Rightarrow> invite_env \<Rightarrow> host_reads \<Rightarrow> ipv4 \<Rightarrow> string option \<Rightarrow> nat option
    \<Rightarrow> (ops_error + invite_result) \<times> config" where
  "apply_create_invite he iv rs me name expires_in =
     (case member_invite_options he (hr_auth rs) me name expires_in of
        Inl e \<Rightarrow> (Inl e, hr_doc rs)
      | Inr opts \<Rightarrow> invite (he_ops he) iv (hr_first rs) (hr_doc rs) opts)"

text \<open>The first message of a member: the join is recorded, then the file is read again for its isolation.\<close>

definition accept_invite :: "host_env \<Rightarrow> host_reads \<Rightarrow> ipv4 \<Rightarrow> string option \<Rightarrow> (ops_error + bool) \<times> config" where
  "accept_invite he rs me device_id =
     (case mark_invite_accepted_by_ip (he_ops he) (hr_first rs) (hr_doc rs) me (he_now he) device_id of
        Inl e \<Rightarrow> (Inl e, hr_doc rs)
      | Inr (_, doc) \<Rightarrow>
          (and_then (load_config (he_ops he) (hr_again rs doc)) (\<lambda>cfg.
             case find (\<lambda>p. first_ip p = Some me) (cfg_peers cfg) of
               None \<Rightarrow> Inl Joined_Peer_Missing | Some p \<Rightarrow> Inr (invite_is_isolated p)), doc))"

section \<open>What an operation on one member does to the others\<close>

definition same_rank :: "peer_config \<Rightarrow> peer_config \<Rightarrow> bool" where
  "same_rank p q \<longleftrightarrow> peer_public_key q = peer_public_key p \<and> peer_admin q = peer_admin p
     \<and> peer_allowed_ips q = peer_allowed_ips p \<and> peer_invite_id q = peer_invite_id p"

definition same_host :: "config \<Rightarrow> config \<Rightarrow> bool" where
  "same_host doc doc' \<longleftrightarrow> if_address (cfg_interface doc') = if_address (cfg_interface doc)
     \<and> if_private_key_file (cfg_interface doc') = if_private_key_file (cfg_interface doc)"

text \<open>Only the tables with the address \<open>ip\<close> change, and none of them in rank; or they are gone.\<close>

definition confined_to :: "ipv4 \<Rightarrow> config \<Rightarrow> config \<Rightarrow> bool" where
  "confined_to ip doc doc' \<longleftrightarrow> same_host doc doc' \<and>
     (list_all2 (\<lambda>p q. same_rank p q \<and> (first_ip p \<noteq> Some ip \<longrightarrow> q = p)) (cfg_peers doc) (cfg_peers doc')
      \<or> (\<exists>P. cfg_peers doc' = filter P (cfg_peers doc) \<and> (\<forall>p \<in> set (cfg_peers doc). first_ip p \<noteq> Some ip \<longrightarrow> P p)))"

lemma same_rank_refl [simp]: "same_rank p p"
  by (simp add: same_rank_def)

lemma confined_refl: "same_host doc doc' \<Longrightarrow> cfg_peers doc' = cfg_peers doc \<Longrightarrow> confined_to ip doc doc'"
  by (simp add: confined_to_def list_all2_same)

lemma list_all2_in_left:
  "list_all2 P xs ys \<Longrightarrow> x \<in> set xs \<Longrightarrow> \<exists>y \<in> set ys. P x y"
  by (induction rule: list_all2_induct) auto

lemma confined_facts:
  assumes "confined_to ip doc doc'" and "ip \<noteq> me"
  shows "p \<in> set (cfg_peers doc) \<Longrightarrow> first_ip p = Some me \<Longrightarrow> p \<in> set (cfg_peers doc')"
    and "q \<in> set (cfg_peers doc') \<Longrightarrow> \<exists>p \<in> set (cfg_peers doc). same_rank p q"
proof -
  let ?R = "\<lambda>p q. same_rank p q \<and> (first_ip p \<noteq> Some ip \<longrightarrow> q = p)"
  from assms(1) consider "list_all2 ?R (cfg_peers doc) (cfg_peers doc')"
    | P where "cfg_peers doc' = filter P (cfg_peers doc)" "\<forall>p \<in> set (cfg_peers doc). first_ip p \<noteq> Some ip \<longrightarrow> P p"
    unfolding confined_to_def by blast
  then have "(p \<in> set (cfg_peers doc) \<longrightarrow> first_ip p = Some me \<longrightarrow> p \<in> set (cfg_peers doc'))
    \<and> (q \<in> set (cfg_peers doc') \<longrightarrow> (\<exists>p \<in> set (cfg_peers doc). same_rank p q))" for p q
  proof cases
    case 1
    have "p \<in> set (cfg_peers doc')" if p: "p \<in> set (cfg_peers doc)" "first_ip p = Some me"
      using list_all2_in_left [OF 1 p(1)] p(2) assms(2) by auto
    then show ?thesis using list_all2_in_right [OF 1, of q] by blast
  next
    case 2
    then show ?thesis using assms(2) by (auto intro!: bexI [of _ q])
  qed
  then show "p \<in> set (cfg_peers doc) \<Longrightarrow> first_ip p = Some me \<Longrightarrow> p \<in> set (cfg_peers doc')"
    and "q \<in> set (cfg_peers doc') \<Longrightarrow> \<exists>p \<in> set (cfg_peers doc). same_rank p q" by blast+
qed

text \<open>In a valid file the key of the member at an address belongs to no other address.\<close>

lemma key_at_ip:
  assumes "validate api (resolve_paths f doc) = None" and "p \<in> set (cfg_peers doc)" and "first_ip p = Some ip"
    and "q \<in> set (cfg_peers doc)" and "peer_public_key q = peer_public_key p"
  shows "first_ip q = Some ip"
  using distinct_key_eq [OF loaded_keys_distinct [OF assms(1)] assms(4,2,5)] assms(3) by simp

lemma edit_confined:
  assumes "validate api (resolve_paths f doc) = None" and "p \<in> set (cfg_peers doc)" and "first_ip p = Some ip"
    and "edit_peer (peer_public_key p) g doc = Inr doc'" and "\<And>q. same_rank q (g q)"
  shows "confined_to ip doc doc'"
proof -
  have d: "doc' = doc\<lparr>cfg_peers := map (\<lambda>q. if peer_public_key q = peer_public_key p then g q else q) (cfg_peers doc)\<rparr>"
    using assms(4) unfolding edit_peer_Inr by blast
  show ?thesis unfolding d using key_at_ip [OF assms(1-3)] assms(5)
    by (simp add: confined_to_def same_host_def list_all2_conv_all_nth)
qed

lemma with_member:
  assumes "and_then (load_config env file) (\<lambda>cfg. and_then (find_peer env cfg (Sel_Ip ip)) (f cfg)) = Inr y"
  obtains p where "p \<in> set (cfg_peers file)" and "first_ip p = Some ip"
    and "validate (env_api env) (resolve_paths (env_resolve env) file) = None"
    and "f (resolve_paths (env_resolve env) file) (resolved_peer (env_resolve env) p) = Inr y"
  using with_target [OF assms] by auto

lemma written_done [simp]: "done_writing h r = Inr (data, doc', h') \<longleftrightarrow> r = Inr doc' \<and> data = None \<and> h' = h"
  by (auto simp: done_writing_def)

lemma rename_confined: "rename_peer env doc doc (Sel_Ip ip) n = Inr doc' \<Longrightarrow> confined_to ip doc doc'"
proof -
  assume r: "rename_peer env doc doc (Sel_Ip ip) n = Inr doc'"
  then have "validate_name n = None" by (cases "validate_name n") (simp_all add: rename_peer_def)
  from r [unfolded rename_peer_def this option.case] show ?thesis
  proof (rule with_member)
    fix p
    let ?t = "resolved_peer (env_resolve env) p"
    assume p: "p \<in> set (cfg_peers doc)" "first_ip p = Some ip" "validate (env_api env) (resolve_paths (env_resolve env) doc) = None"
    assume "bail_if (list_ex (\<lambda>p. peer_name p = Some n \<and> peer_public_key p \<noteq> peer_public_key ?t)
        (cfg_peers (resolve_paths (env_resolve env) doc))) (Name_Taken n)
      (and_then (edit_peer (peer_public_key ?t) (\<lambda>p. p\<lparr>peer_name := Some n\<rparr>) doc) (write_validated env)) = Inr doc'"
    then have "edit_peer (peer_public_key p) (\<lambda>p. p\<lparr>peer_name := Some n\<rparr>) doc = Inr doc'" by simp
    then show ?thesis by (rule edit_confined [OF p(3,1,2)]) (simp add: same_rank_def)
  qed
qed

lemma can_invite_confined: "set_peer_can_invite env doc doc (Sel_Ip ip) b = Inr (n, doc') \<Longrightarrow> confined_to ip doc doc'"
proof -
  assume r: "set_peer_can_invite env doc doc (Sel_Ip ip) b = Inr (n, doc')"
  from r [unfolded set_peer_can_invite_def] show ?thesis
    by (rule with_member) (auto intro: edit_confined simp: same_rank_def)
qed

lemma subnets_confined: "set_subnets env doc doc (Sel_Ip ip) ns = Inr (n, doc') \<Longrightarrow> confined_to ip doc doc'"
proof -
  assume r: "set_subnets env doc doc (Sel_Ip ip) ns = Inr (n, doc')"
  from r [unfolded set_subnets_def] show ?thesis
    by (rule with_member) (auto intro: edit_confined simp: same_rank_def)
qed

lemma dns_name_confined: "set_peer_dns_name env doc doc (Sel_Ip ip) n = Inr (x, doc') \<Longrightarrow> confined_to ip doc doc'"
proof -
  assume r: "set_peer_dns_name env doc doc (Sel_Ip ip) n = Inr (x, doc')"
  then obtain label where l: "normalize_dns_name n False = Inr label"
    by (cases "normalize_dns_name n False") (simp_all add: set_peer_dns_name_def)
  from r [unfolded set_peer_dns_name_def l sum.case Let_def] show ?thesis
  proof (rule with_member)
    fix p
    let ?t = "resolved_peer (env_resolve env) p"
    assume p: "p \<in> set (cfg_peers doc)" "first_ip p = Some ip" "validate (env_api env) (resolve_paths (env_resolve env) doc) = None"
    assume a: "(if peer_dns_name ?t = Some label then Inr (Dns_Unchanged label, doc)
       else bail_if (label \<in> set (taken_dns_labels (resolve_paths (env_resolve env) doc) (Exclude_Peer (peer_public_key ?t)))) (Dns_Name_Taken label)
        (and_then (edit_peer (peer_public_key ?t) (\<lambda>p. p\<lparr>peer_dns_name := Some label\<rparr>) doc) (\<lambda>doc'.
         and_then (write_validated env doc') (\<lambda>doc''.
           Inr (Dns_Applied (case peer_name ?t of Some n \<Rightarrow> n | None \<Rightarrow> label) label, doc''))))) = Inr (x, doc')"
    show ?thesis
    proof (cases "peer_dns_name p = Some label")
      case True
      with a show ?thesis by (simp add: confined_refl same_host_def)
    next
      case False
      with a have "edit_peer (peer_public_key p) (\<lambda>p. p\<lparr>peer_dns_name := Some label\<rparr>) doc = Inr doc'" by simp
      then show ?thesis by (rule edit_confined [OF p(3,1,2)]) (simp add: same_rank_def)
    qed
  qed
qed

lemma approve_confined: "approve_invite env doc doc (Sel_Ip ip) t = Inr doc' \<Longrightarrow> confined_to ip doc doc'"
proof -
  assume r: "approve_invite env doc doc (Sel_Ip ip) t = Inr doc'"
  let ?f = "\<lambda>p. p\<lparr>peer_invite_approved_at := Some t\<rparr>"
  from r [unfolded approve_invite_def] obtain p where p: "p \<in> set (cfg_peers doc)" "first_ip p = Some ip"
    and v: "validate (env_api env) (resolve_paths (env_resolve env) doc) = None"
    and e: "doc' = doc \<or> (\<exists>ps. edit_first (peer_public_key p) ?f (cfg_peers doc) = Some ps \<and> doc' = doc\<lparr>cfg_peers := ps\<rparr>)"
  proof (rule with_member)
    fix p
    let ?t = "resolved_peer (env_resolve env) p"
    assume p: "p \<in> set (cfg_peers doc)" "first_ip p = Some ip" "validate (env_api env) (resolve_paths (env_resolve env) doc) = None"
    assume a: "bail_if (\<not> peer_invite_requires_approval ?t) Approval_Not_Applicable
        (bail_if (peer_invite_accepted_at ?t = None) Join_Not_Received
         (if peer_invite_approved_at ?t \<noteq> None then Inr doc
          else and_then (peer_tables doc) (\<lambda>tables.
            case edit_first (peer_public_key ?t) ?f tables of
              None \<Rightarrow> Inl Doc_Peer_Missing
            | Some tables' \<Rightarrow>
                bail_if (\<not> toml_int_ok t) Bad_Toml (write_validated env (doc\<lparr>cfg_peers := tables'\<rparr>))))) = Inr doc'"
    show thesis
    proof (rule that [OF p])
      show "doc' = doc \<or> (\<exists>ps. edit_first (peer_public_key p) ?f (cfg_peers doc) = Some ps \<and> doc' = doc\<lparr>cfg_peers := ps\<rparr>)"
        using a by (cases "edit_first (peer_public_key p) ?f (cfg_peers doc)") (auto split: if_splits)
    qed
  qed
  show ?thesis
  proof (cases "doc' = doc")
    case False
    with e obtain ps where "edit_first (peer_public_key p) ?f (cfg_peers doc) = Some ps" and d: "doc' = doc\<lparr>cfg_peers := ps\<rparr>"
      by blast
    from edit_first_Some [OF this(1)] obtain a q b where
      q: "cfg_peers doc = a @ q # b" "ps = a @ ?f q # b" "peer_public_key q = peer_public_key p" by blast
    then have "first_ip q = Some ip" using key_at_ip [OF v p, of q] by simp
    then show ?thesis using q d
      by (simp add: confined_to_def same_host_def same_rank_def list_all2_append list_all2_same)
  qed (simp add: confined_refl same_host_def)
qed

lemma remove_confined: "remove_peer env doc doc (Sel_Ip ip) = Inr (r, doc') \<Longrightarrow> confined_to ip doc doc'"
proof -
  assume r: "remove_peer env doc doc (Sel_Ip ip) = Inr (r, doc')"
  from r [unfolded remove_peer_def Let_def] obtain p where p: "p \<in> set (cfg_peers doc)" "first_ip p = Some ip"
    and v: "validate (env_api env) (resolve_paths (env_resolve env) doc) = None"
    and d: "cfg_peers doc' = filter (\<lambda>q. peer_public_key q \<noteq> peer_public_key p) (cfg_peers doc)"
      "cfg_interface doc' = cfg_interface doc"
    by (rule with_member) auto
  have "peer_public_key q \<noteq> peer_public_key p" if "q \<in> set (cfg_peers doc)" "first_ip q \<noteq> Some ip" for q
    using key_at_ip [OF v p that(1)] that(2) by blast
  with d show ?thesis unfolding confined_to_def same_host_def
    by (intro conjI disjI2 exI [of _ "\<lambda>q. peer_public_key q \<noteq> peer_public_key p"]) auto
qed

section \<open>What the requests change\<close>

lemma guard_target_Inr:
  "guard_target cfg me ip k = Inr y \<longleftrightarrow> ip \<noteq> me \<and> ip \<noteq> net_addr (if_address (cfg_interface cfg)) \<and> k = Inr y"
  by (auto simp: guard_target_def)

lemma one_read_fields [simp]:
  "hr_auth (one_read doc) = doc" "hr_first (one_read doc) = doc" "hr_second (one_read doc) = doc"
  "hr_third (one_read doc) = doc" "hr_doc (one_read doc) = doc" "hr_again (one_read doc) d = d"
  by (simp_all add: one_read_def)

lemma change_setting_frame:
  assumes "change_setting he rs f = Inr doc'" and "host_endpoint_of (hr_second rs) = None"
  shows "same_host (hr_doc rs) doc'" and "cfg_peers doc' = cfg_peers (hr_doc rs)"
proof -
  from assms(1) obtain u where
    u: "update_settings (he_ops he) (he_addr he) (hr_second rs) (hr_third rs) (hr_doc rs) u = Inr doc'"
    unfolding change_setting_def and_then_Inr by blast
  show "same_host (hr_doc rs) doc'" "cfg_peers doc' = cfg_peers (hr_doc rs)"
    by (rule update_settings_Inr [OF u], simp add: same_host_def edit_interface_fields,
        rule update_settings_Inr [OF u], simp add: assms(2))
qed

lemma list_records_frame:
  assumes "list_records env file doc again = Inr (ds, doc')"
  shows "cfg_peers doc' = cfg_peers doc \<and> cfg_interface doc' = cfg_interface doc"
  using assms by (auto simp: list_records_def split: if_splits)

lemma group_ops_frame:
  "perm_group_create env r file doc n ms = Inr (i, doc') \<Longrightarrow> cfg_peers doc' = cfg_peers doc \<and> cfg_interface doc' = cfg_interface doc"
  "perm_group_rename env file doc i n = Inr doc' \<Longrightarrow> cfg_peers doc' = cfg_peers doc \<and> cfg_interface doc' = cfg_interface doc"
  "perm_group_set_members env file doc i ms = Inr doc' \<Longrightarrow> cfg_peers doc' = cfg_peers doc \<and> cfg_interface doc' = cfg_interface doc"
  "perm_group_delete env file doc i = Inr doc' \<Longrightarrow> cfg_peers doc' = cfg_peers doc \<and> cfg_interface doc' = cfg_interface doc"
  by (auto simp: group_op_defs dest!: write_policy_peers)

lemmas confined_ops = rename_confined can_invite_confined subnets_confined dns_name_confined approve_confined remove_confined

lemma perform_admin_confined:
  assumes "perform_admin he (one_read doc) h cfg me op = Inr (data, doc', h')" and "host_endpoint_of doc = None"
  shows "\<exists>ip. ip \<noteq> me \<and> confined_to ip doc doc'"
proof -
  have other: "me + 1 \<noteq> me" by simp
  have same: "\<exists>ip. ip \<noteq> me \<and> confined_to ip doc doc'" if "cfg_peers doc' = cfg_peers doc" "same_host doc doc'"
    using confined_refl [OF that(2,1)] other by blast
  have frame: "\<exists>ip. ip \<noteq> me \<and> confined_to ip doc doc'"
    if "cfg_peers doc' = cfg_peers doc \<and> cfg_interface doc' = cfg_interface doc"
    using that by (intro same) (simp_all add: same_host_def)
  have setting: "\<exists>ip. ip \<noteq> me \<and> confined_to ip doc doc'" if "change_setting he (one_read doc) f = Inr doc'" for f
    using change_setting_frame [OF that] assms(2) by (intro same) simp_all
  show ?thesis
  proof (cases op)
    case (Acl_Write ps)
    then show ?thesis using assms write_policy_peers by (intro frame) auto
  next
    case Read_Network_Settings
    then show ?thesis using assms by (intro frame) (auto simp: and_then_Inr)
  next
    case Acl_Read
    then show ?thesis using assms by (intro frame) (auto simp: and_then_Inr)
  next
    case Dns_Check_Now
    then show ?thesis using assms by (intro frame) (auto split: option.splits)
  next
    case Dns_List_Full
    then show ?thesis using assms list_records_frame by (intro frame) fastforce
  qed (use assms confined_ops in \<open>auto simp: guard_target_Inr intro: setting frame dest: group_ops_frame\<close>)
qed

lemma as_admin_Inr:
  assumes "as_admin he auth me k = Inr y"
  shows "\<exists>p \<in> set (cfg_peers auth). first_ip p = Some me \<and> peer_admin p"
  using assms unfolding as_admin_def by (rule with_member) auto

section \<open>Properties\<close>

text \<open>
  C8: delegated administration stays within its bounds. A request of a member that is not an administrator, or a
  refused one, changes nothing. An accepted one leaves the tables of the requester as they are, adds no member, makes
  nobody an administrator or stops anybody being one, gives nobody another key or address, and leaves the address and the
  key of the host.
\<close>

theorem admin_op_confined:
  assumes "apply_admin_op he (one_read doc) h me seq op = (r, doc', h')" and "host_endpoint_of doc = None"
  shows "reply_seq r = seq \<and>
    (if accepted r
     then (\<exists>p \<in> set (cfg_peers doc). first_ip p = Some me \<and> peer_admin p)
       \<and> (\<forall>p \<in> set (cfg_peers doc). first_ip p = Some me \<longrightarrow> p \<in> set (cfg_peers doc'))
       \<and> (\<forall>q \<in> set (cfg_peers doc'). \<exists>p \<in> set (cfg_peers doc). same_rank p q)
       \<and> same_host doc doc'
     else doc' = doc \<and> h' = h)"
proof (cases "as_admin he doc me (\<lambda>cfg. perform_admin he (one_read doc) h cfg me op)")
  case (Inl e)
  with assms show ?thesis by (auto simp: apply_admin_op_def accepted_def)
next
  case (Inr y)
  then obtain data where y: "as_admin he doc me (\<lambda>cfg. perform_admin he (one_read doc) h cfg me op) = Inr (data, doc', h')"
    and r: "reply_seq r = seq" "accepted r"
    using assms by (cases y) (auto simp: apply_admin_op_def accepted_def)
  then obtain cfg where "perform_admin he (one_read doc) h cfg me op = Inr (data, doc', h')"
    unfolding as_admin_def and_then_Inr bail_if_Inr by blast
  from perform_admin_confined [OF this assms(2)] obtain ip where ip: "ip \<noteq> me" "confined_to ip doc doc'" by blast
  have "same_host doc doc'" using ip(2) by (simp add: confined_to_def)
  with r as_admin_Inr [OF y] confined_facts [OF ip(2,1)] show ?thesis by auto
qed

text \<open>
  C9: what a member may invite. An invitation a member obtains is issued only while the host allows it and the member
  is entitled to it and identified; the new member has no privileges, carries the identity of its issuer,
  waits for approval if the network asks for it, and its invitation ends between one minute and seven days after
  its issue.
\<close>

theorem member_invitation_limited:
  assumes "reads_back (he_ops he)" and "apply_create_invite he iv rs me name expires_in = (Inr res, doc')"
  shows "\<exists>issuer \<in> set (cfg_peers (hr_auth rs)). \<exists>p i. first_ip issuer = Some me \<and> (peer_can_invite issuer \<or> peer_admin issuer)
    \<and> if_member_invites (cfg_interface (hr_auth rs)) \<and> peer_invite_id issuer = Some i
    \<and> cfg_peers doc' = cfg_peers (hr_doc rs) @ [p] \<and> \<not> peer_admin p \<and> \<not> peer_can_invite p
    \<and> peer_invited_by_id p = Some i \<and> peer_preshared_key_file p = None
    \<and> peer_invite_requires_approval p = if_require_invite_approval (cfg_interface (hr_doc rs))
    \<and> (\<exists>t e. peer_invite_issued_at p = Some t \<and> peer_invite_expires_at p = Some e \<and> t + 60 \<le> e \<and> e \<le> t + 7 * 86400)"
proof -
  from assms(2) obtain opts where o: "member_invite_options he (hr_auth rs) me name expires_in = Inr opts"
    and inv: "invite (he_ops he) iv (hr_first rs) (hr_doc rs) opts = (Inr res, doc')"
    by (auto simp: apply_create_invite_def split: sum.splits)
  let ?cfg = "resolve_paths (env_resolve (he_ops he)) (hr_auth rs)"
  from o have inv_on: "if_member_invites (cfg_interface (hr_auth rs))"
    unfolding member_invite_options_def by (auto simp: resolve_paths_def)
  from o obtain t where t: "find_peer (he_ops he) ?cfg (Sel_Ip me) = Inr t" "peer_can_invite t \<or> peer_admin t"
    and i: "(case peer_invite_id t of None \<Rightarrow> Inl Issuer_Without_Id | Some issuer_id \<Rightarrow>
           Inr \<lparr>io_name = trimmed name, io_ip = None,
                io_extra_endpoints = (case he_external_endpoint he of Some e \<Rightarrow> [e] | None \<Rightarrow> []), io_psk = False,
                io_expires_in_secs = Some (member_expiry expires_in),
                io_invited_by = Some (issuer_id, case peer_name t of Some n \<Rightarrow> n | None \<Rightarrow> ''member-'' @ ip_text me)\<rparr>) = Inr opts"
    unfolding member_invite_options_def and_then_Inr bail_if_Inr load_config_Inr by blast
  then obtain i where i: "peer_invite_id t = Some i" and io: "io_psk opts = False" "io_expires_in_secs opts = Some (member_expiry expires_in)"
      "map_option fst (io_invited_by opts) = Some i" by (cases "peer_invite_id t") auto
  from find_peer_loaded [OF t(1)] obtain issuer where
    issuer: "issuer \<in> set (cfg_peers (hr_auth rs))" "t = resolved_peer (env_resolve (he_ops he)) issuer" "first_ip issuer = Some me"
    by auto
  from invite_Inr [OF inv] obtain d p where d: "draft_invite (he_ops he) iv (hr_first rs) opts = Inr d"
    and p: "peer_block (he_ops he) (hr_doc rs) (draft_peer iv opts d) = Some p"
      "doc' = (hr_doc rs)\<lparr>cfg_peers := cfg_peers (hr_doc rs) @ [p]\<rparr>" by blast
  note pb = peer_block_invited [OF p(1) assms(1)]
  have e: "df_expires_at d = Some (df_issued_at d + member_expiry expires_in)"
    using draft_at_Inr(5) [OF draft_invite_Inr(2) [OF d]] io by simp
  have "60 \<le> member_expiry expires_in \<and> member_expiry expires_in \<le> 7 * 86400"
    by (auto simp: member_expiry_def MAX_EXPIRES_SECS_def)
  with pb e io p(2) have "cfg_peers doc' = cfg_peers (hr_doc rs) @ [p] \<and> \<not> peer_admin p \<and> \<not> peer_can_invite p
    \<and> peer_invited_by_id p = Some i \<and> peer_preshared_key_file p = None
    \<and> peer_invite_requires_approval p = if_require_invite_approval (cfg_interface (hr_doc rs))
    \<and> (\<exists>t e. peer_invite_issued_at p = Some t \<and> peer_invite_expires_at p = Some e \<and> t + 60 \<le> e \<and> e \<le> t + 7 * 86400)"
    by (simp add: draft_peer_def)
  with issuer t(2) i inv_on show ?thesis by (intro bexI [of _ issuer] exI [of _ p] exI [of _ i]) simp_all
qed

section \<open>Witnesses\<close>

definition boss :: peer_config where
  "boss = (sample_peer (replicate 32 9) 0x0A000003)\<lparr>peer_name := Some ''Boss'', peer_admin := True,
     peer_invite_id := Some ones, peer_invite_issued_at := Some 10\<rparr>"

abbreviation boss_file :: config where "boss_file \<equiv> sample_config [boss] empty_acl"

definition sample_he :: host_env where
  "sample_he = \<lparr>he_ops = sample_env, he_addr = plain_addr, he_parse_net = (\<lambda>_. None), he_public_key = replicate 32 7,
     he_external_endpoint = Some (0xCB007105, 51820), he_random = 0, he_nanos = 0, he_now = 100\<rparr>"

lemma boss_fields [simp]:
  "peer_public_key boss = replicate 32 9" "first_ip boss = Some 0x0A000003" "peer_admin boss"
  "peer_invite_id boss = Some ones" "peer_name boss = Some ''Boss''" "peer_dns_name boss = None"
  "peer_allowed_ips boss = [host_net 0x0A000003]" "peer_preshared_key_file boss = None"
  by (simp_all add: boss_def sample_peer_def first_ip_def)

lemma other_key [simp]: "([2] :: bytes) \<noteq> replicate 32 9" "replicate 32 9 \<noteq> ([2] :: bytes)"
proof -
  show a: "([2] :: bytes) \<noteq> replicate 32 9" by (rule notI, drule arg_cong [where f = length]) simp
  show "replicate 32 9 \<noteq> ([2] :: bytes)" using a by (rule not_sym)
qed

lemma he_fields [simp]: "he_ops sample_he = sample_env" "he_external_endpoint sample_he = Some (0xCB007105, 51820)"
  by (simp_all add: sample_he_def)

lemma sample_peers [simp]: "cfg_peers (sample_config ps acl) = ps"
  "(sample_config ps acl)\<lparr>cfg_peers := qs\<rparr> = sample_config qs acl"
  "cfg_interface (sample_config ps acl) = sample_interface"
  by (simp_all add: sample_config_def)

definition worker :: peer_config where "worker = sample_peer [2] 0x0A000002"

lemma boss_valid: "validate cidr_api (sample_config [boss, worker] empty_acl) = None"
    "validate cidr_api (sample_config [boss, worker\<lparr>peer_can_invite := True\<rparr>] empty_acl) = None"
    "validate cidr_api boss_file = None" "validate cidr_api (sample_config [boss, alice] empty_acl) = None"
  by (simp_all add: life_eval worker_def boss_def alice_def)

lemma worker_fields [simp]: "peer_public_key worker = [2]" "first_ip worker = Some 0x0A000002"
    "peer_allowed_ips worker = [host_net 0x0A000002]"
  by (simp_all add: worker_def sample_peer_def first_ip_def)

theorem admin_op_confined_witness:
  "\<exists>r doc' h'. apply_admin_op sample_he (one_read (sample_config [boss, worker] empty_acl)) None 0x0A000003 5
     (Allow_Invites 0x0A000002 True) = (r, doc', h') \<and> accepted r \<and> boss \<in> set (cfg_peers doc')
     \<and> doc' = sample_config [boss, worker\<lparr>peer_can_invite := True\<rparr>] empty_acl"
proof -
  let ?doc = "sample_config [boss, worker] empty_acl"
  have a: "if_address sample_interface = \<lparr>net_addr = 0x0A000001, net_prefix = 24\<rparr>" by (simp add: sample_interface_def)
  have "\<exists>n. set_peer_can_invite sample_env ?doc ?doc (Sel_Ip 0x0A000002) True
      = Inr (n, sample_config [boss, worker\<lparr>peer_can_invite := True\<rparr>] empty_acl)"
    by (simp add: set_peer_can_invite_def ops_run boss_valid)
  then obtain n where "set_peer_can_invite sample_env ?doc ?doc (Sel_Ip 0x0A000002) True
      = Inr (n, sample_config [boss, worker\<lparr>peer_can_invite := True\<rparr>] empty_acl)" ..
  then have e: "apply_admin_op sample_he (one_read ?doc) None 0x0A000003 5 (Allow_Invites 0x0A000002 True)
      = (\<lparr>reply_seq = 5, reply_result = Inr None\<rparr>, sample_config [boss, worker\<lparr>peer_can_invite := True\<rparr>] empty_acl, None)"
    by (simp add: apply_admin_op_def as_admin_def ops_run boss_valid guard_target_def a done_writing_def written_def)
  have "host_endpoint_of ?doc = None" by (simp add: host_endpoint_of_def boss_def worker_def sample_peer_def)
  from admin_op_confined [OF e this] show ?thesis using e by (auto simp: accepted_def)
qed

definition issued_opts :: invite_options where
  "issued_opts = \<lparr>io_name = Some ''Alice'', io_ip = None, io_extra_endpoints = [(0xCB007105, 51820)], io_psk = False,
     io_expires_in_secs = Some 604800, io_invited_by = Some (ones, ''Boss'')\<rparr>"

definition issued_draft :: invite_draft where
  "issued_draft = \<lparr>df_ip = 0x0A000002, df_name = ''Alice'',
     df_endpoints = invite_endpoints (Some 0xC0A80105) 51820 [(0xCB007105, 51820)], df_dns_name = ''alice'',
     df_issued_at = 100, df_expires_at = Some 604900\<rparr>"

definition issued_peer :: peer_config where
  "issued_peer = alice\<lparr>peer_invite_expires_at := Some 604900, peer_invited_by_id := Some ones,
     peer_invited_by_name := Some ''Boss''\<rparr>"

lemma issued_opts_eq: "member_invite_options sample_he boss_file 0x0A000003 (Some '' Alice '') None = Inr issued_opts"
proof -
  have t: "trim '' Alice '' = ''Alice''" by code_simp
  have m: "if_member_invites sample_interface" by (simp add: sample_interface_def)
  show ?thesis
    by (simp add: member_invite_options_def ops_run boss_valid m trimmed_def t issued_opts_def member_expiry_def MAX_EXPIRES_SECS_def)
qed

lemma issued_free: "next_free_ip cidr_api (net_trunc cidr_api (if_address sample_interface)) (used_ips boss_file) = Some 0x0A000002"
proof -
  have u: "used_ips boss_file = [0x0A000001, 0x0A000003]"
    by (simp add: used_ips_def sample_interface_def)
  have n: "net_hosts cidr_api (net_trunc cidr_api (if_address sample_interface)) = map of_nat [0x0A000001 ..< 0x0A0000FF]"
    by (simp add: sample_interface_def cidr_api_def cidr_hosts_def block_base_def block_size_def)
  show ?thesis unfolding next_free_ip_def u n by (simp add: upt_conv_Cons)
qed

lemma boss_label: "dns_label ''Boss'' = Some ''boss''"
  by code_simp

lemma no_records: "cfg_dns_records (sample_config ps acl) = []"
  by (simp add: sample_config_def)

lemma issued_drafted: "draft_invite sample_env demo_iv boss_file issued_opts = Inr issued_draft"
proof -
  have n: "invite_dns_name boss_file ''Alice'' 0x0A000002 = ''alice''"
    by (simp add: invite_dns_name_def demo_label uniquify_def taken_dns_labels_def host_dns_label_def sample_interface_def
        HOST_DNS_LABEL_def peer_dns_label_def boss_label no_records)
  have o: "io_name issued_opts = Some ''Alice''" "io_ip issued_opts = None" "\<not> io_psk issued_opts"
    "io_expires_in_secs issued_opts = Some 604800" by (simp_all add: issued_opts_def)
  have e: "draft_endpoints demo_iv boss_file issued_opts = invite_endpoints (Some 0xC0A80105) 51820 [(0xCB007105, 51820)]"
    by (simp add: draft_endpoints_def issued_opts_def sample_interface_def DEFAULT_LISTEN_PORT_def)
  have "draft_at demo_iv boss_file issued_opts 0x0A000002 = Inr issued_draft"
    by (simp add: draft_at_def draft_name_def e n o invite_endpoints_nonempty demo_name_valid invite_expiry_def
        bail_if_def issued_draft_def)
  then show ?thesis by (simp add: draft_invite_def sample_load boss_valid pick_ip_def o issued_free)
qed

theorem member_invitation_limited_witness:
  "\<exists>res. apply_create_invite sample_he demo_iv (one_read boss_file) 0x0A000003 (Some '' Alice '') None
      = (Inr res, sample_config [boss, issued_peer] empty_acl) \<and> \<not> peer_admin issued_peer"
proof -
  have v: "validate cidr_api (sample_config [boss, issued_peer] empty_acl) = None"
    by (simp add: life_eval boss_def issued_peer_def alice_def)
  have b: "peer_block sample_env boss_file (draft_peer demo_iv issued_opts issued_draft) = Some issued_peer"
    by (simp add: peer_block_def read_back_def draft_peer_def demo_iv_def issued_opts_def issued_draft_def sample_env_def
        generate_invite_id_def demo_id alice_def issued_peer_def sample_interface_def sample_peer_def toml_int_ok_def)
  have n: "net_contains cidr_api (net_trunc cidr_api (if_address sample_interface)) 0x0A000002"
    "net_addr (if_address sample_interface) = 0x0A000001"
    by (simp_all add: cidr_api_def cidr_contains_def block_base_def block_size_def sample_interface_def)
  have k: "np_ip (draft_peer demo_iv issued_opts issued_draft) = 0x0A000002"
    "np_public_key (draft_peer demo_iv issued_opts issued_draft) = replicate 32 2"
    by (simp_all add: draft_peer_def issued_draft_def demo_iv_def)
  have d: "(replicate 32 9 :: bytes) \<noteq> replicate 32 2" by simp
  have u: "used_ips boss_file = [0x0A000001, 0x0A000003]" by (simp add: used_ips_def n)
  have a: "append_peer sample_env boss_file (draft_peer demo_iv issued_opts issued_draft)
      = Inr (sample_config [boss, issued_peer] empty_acl)"
    by (simp add: append_peer_def sample_load sample_write boss_valid b k d n u v bail_if_def)
  have "validate_token (draft_token sample_env demo_iv boss_file issued_opts (replicate 32 7) issued_draft) = None"
    using valid_ids(1)
    by (simp add: validate_token_def draft_token_def demo_iv_def issued_opts_def issued_draft_def invite_endpoints_def
        MAX_ENDPOINTS_def MAX_NAME_LEN_def generate_invite_id_def demo_id decode_invite_id_def INVITE_ID_LEN_def
        sample_env_def cidr_api_def sample_interface_def valid_id_def)
  from token_bytes_total [OF this] obtain res where
    "finish_invite sample_env demo_iv boss_file issued_opts issued_draft = Inr res"
    by (auto simp: finish_invite_def encode_token_def demo_iv_def)
  then have i: "apply_create_invite sample_he demo_iv (one_read boss_file) 0x0A000003 (Some '' Alice '') None
      = (Inr res, sample_config [boss, issued_peer] empty_acl)"
    by (simp add: apply_create_invite_def issued_opts_eq invite_def issued_drafted a resolve_paths_ident)
  have r: "reads_back (he_ops sample_he)" by (simp add: reads_back_def) (simp add: sample_env_def)
  from member_invitation_limited [OF r i] show ?thesis using i by auto
qed

end
