(* ===== verification/Control_Link.thy ===== *)
theory Control_Link
  imports Host_Requests Ledger "HOL-Library.Multiset"
begin

text \<open>
  The control channel as a member sees it: its messages (\<^verbatim>\<open>ControlMessage\<close> of
  \<^verbatim>\<open>crates/peercove-core/src/proto.rs\<close>), the pings, and \<^verbatim>\<open>MemberLink\<close> with the reader that fills
  it (\<^verbatim>\<open>crates/peercove-cli/src/control.rs\<close>). The operations, replies and events of the shared memos are type
  parameters; a sentence for people is the error it reports, \<open>None\<close> where none is reported. A \<^verbatim>\<open>oneshot\<close>
  channel is the number of its receiver. The link records what receivers got; a receiver whose number is in
  no field any more and that got nothing reads the end of the connection.
\<close>

section \<open>Messages\<close>

type_synonym reason = "ops_error option"

record invite_reply =
  vr_accepted :: bool
  vr_reason :: reason
  vr_token :: "string option"
  vr_name :: "string option"
  vr_expires_at :: "nat option"

record admin_op_reply =
  ar_accepted :: bool
  ar_reason :: reason
  ar_data :: "admin_data option"

datatype ('q, 'a, 'e) control_message =
    Hello nat "string option" "string option" "string list" "string option" "string option"
  | Ledger_Update distribution
  | Removed
  | Join_Rejected reason
  | Ping nat
  | Pong nat
  | Rotate_Key public_key
  | Rotate_Key_Result bool reason
  | Set_Dns_Name string
  | Set_Dns_Name_Result bool reason
  | Set_Display_Name string
  | Set_Display_Name_Result bool reason
  | Create_Invite "string option" "nat option"
  | Create_Invite_Result invite_reply
  | Memo_Req nat 'q
  | Memo_Resp nat 'a
  | Memo_Event 'e
  | Admin_Dns_Op nat admin_dns_request
  | Admin_Dns_Result nat bool reason
  | Admin_Op nat admin_request
  | Admin_Op_Result nat admin_op_reply

section \<open>Pings\<close>

record ping_state =
  pi_next_nonce :: nat
  pi_outstanding :: "(nat \<times> instant) option"

definition ping_new :: ping_state where
  "ping_new = \<lparr>pi_next_nonce = 0, pi_outstanding = None\<rparr>"

definition ping_issue :: "instant \<Rightarrow> ping_state \<Rightarrow> ('q, 'a, 'e) control_message \<times> ping_state" where
  "ping_issue now p =
     (let nonce = pi_next_nonce p + 1
      in (Ping nonce, \<lparr>pi_next_nonce = nonce, pi_outstanding = Some (nonce, now)\<rparr>))"

text \<open>The round trip; the conversion of a duration to milliseconds is left out.\<close>

definition ping_observe :: "instant \<Rightarrow> nat \<Rightarrow> ping_state \<Rightarrow> duration option \<times> ping_state" where
  "ping_observe now nonce p =
     (case pi_outstanding p of
        Some (sent, at) \<Rightarrow> if sent = nonce then (Some (now - at), p\<lparr>pi_outstanding := None\<rparr>) else (None, p)
      | None \<Rightarrow> (None, p))"

record probe_window =
  pw_connected :: bool
  pw_sent :: u32
  pw_received :: u32
  pw_rtts :: "duration list"

definition probe_window_new :: probe_window where
  "probe_window_new = \<lparr>pw_connected = False, pw_sent = 0, pw_received = 0, pw_rtts = []\<rparr>"

record rtt_state =
  rt_latest :: "(ipv4, duration) hashmap"
  rt_pending :: "(ipv4, probe_window) hashmap"

definition saturating_inc :: "u32 \<Rightarrow> u32" where
  "saturating_inc n = (if n = - 1 then n else n + 1)"

definition with_window :: "ipv4 \<Rightarrow> (probe_window \<Rightarrow> probe_window) \<Rightarrow> rtt_state \<Rightarrow> rtt_state" where
  "with_window ip f r =
     r\<lparr>rt_pending := hm_insert ip (f (case hm_get (rt_pending r) ip of Some w \<Rightarrow> w | None \<Rightarrow> probe_window_new)) (rt_pending r)\<rparr>"

definition drain_probes :: "rtt_state \<Rightarrow> (ipv4, probe_window) hashmap \<times> rtt_state" where
  "drain_probes r =
     (rt_pending r,
      r\<lparr>rt_pending := map (\<lambda>(ip, w). (ip, w\<lparr>pw_sent := 0, pw_received := 0, pw_rtts := []\<rparr>)) (rt_pending r)\<rparr>)"

definition rtt_connected :: "ipv4 \<Rightarrow> rtt_state \<Rightarrow> rtt_state" where
  "rtt_connected ip = with_window ip (\<lambda>w. w\<lparr>pw_connected := True\<rparr>)"

definition rtt_disconnected :: "ipv4 \<Rightarrow> rtt_state \<Rightarrow> rtt_state" where
  "rtt_disconnected ip r =
     with_window ip (\<lambda>w. w\<lparr>pw_connected := False\<rparr>) (r\<lparr>rt_latest := hm_remove ip (rt_latest r)\<rparr>)"

definition rtt_issued :: "ipv4 \<Rightarrow> rtt_state \<Rightarrow> rtt_state" where
  "rtt_issued ip = with_window ip (\<lambda>w. w\<lparr>pw_connected := True, pw_sent := saturating_inc (pw_sent w)\<rparr>)"

definition rtt_observed :: "ipv4 \<Rightarrow> duration \<Rightarrow> rtt_state \<Rightarrow> rtt_state" where
  "rtt_observed ip d r =
     with_window ip (\<lambda>w. w\<lparr>pw_connected := True, pw_received := saturating_inc (pw_received w), pw_rtts := pw_rtts w @ [d]\<rparr>)
       (r\<lparr>rt_latest := hm_insert ip d (rt_latest r)\<rparr>)"

text \<open>\<^verbatim>\<open>handle_ping_pong\<close>: the answer to queue, if any; \<open>None\<close> for a message that is neither.\<close>

fun handle_ping_pong :: "instant \<Rightarrow> ipv4 \<Rightarrow> ('q, 'a, 'e) control_message \<Rightarrow> ping_state \<Rightarrow> rtt_state
    \<Rightarrow> (('q, 'a, 'e) control_message list \<times> ping_state \<times> rtt_state) option" where
  "handle_ping_pong now peer (Ping nonce) p r = Some ([Pong nonce], p, r)"
| "handle_ping_pong now peer (Pong nonce) p r =
     (case ping_observe now nonce p of
        (Some d, p') \<Rightarrow> Some ([], p', rtt_observed peer d r)
      | (None, p') \<Rightarrow> Some ([], p', r))"
| "handle_ping_pong now peer m p r = None"

section \<open>The link of a member\<close>

datatype 'a answer = Plain bool reason | Invited invite_reply | Administered admin_op_reply | Memo_Answer 'a

text \<open>The queue of a connection; it is closed once its writer has ended.\<close>

record ('q, 'a, 'e) outbox =
  ob_open :: bool
  ob_queue :: "('q, 'a, 'e) control_message list"

record ('q, 'a, 'e) member_link =
  ml_session :: nat
  ml_outbox :: "('q, 'a, 'e) outbox option"
  ml_rotate_result :: "(bool \<times> reason) option"
  ml_dns_reply :: "nat option"
  ml_display_reply :: "nat option"
  ml_invite_reply :: "nat option"
  ml_dns_admin_pending :: "(nat, nat) hashmap"
  ml_dns_admin_seq :: nat
  ml_admin_pending :: "(nat, nat) hashmap"
  ml_admin_seq :: nat
  ml_memo_pending :: "(nat, nat) hashmap"
  ml_memo_seq :: nat
  ml_connection_error :: "reason option"
  ml_receivers :: nat
  ml_answers :: "(nat \<times> 'a answer) list"

definition link_new :: "('q, 'a, 'e) member_link" where
  "link_new = \<lparr>ml_session = 0, ml_outbox = None, ml_rotate_result = None, ml_dns_reply = None, ml_display_reply = None,
     ml_invite_reply = None, ml_dns_admin_pending = [], ml_dns_admin_seq = 0, ml_admin_pending = [], ml_admin_seq = 0,
     ml_memo_pending = [], ml_memo_seq = 0, ml_connection_error = None, ml_receivers = 0, ml_answers = []\<rparr>"

definition link_session :: "('q, 'a, 'e) member_link \<Rightarrow> nat option" where
  "link_session l = (if ml_outbox l \<noteq> None then Some (ml_session l) else None)"

text \<open>Sending, \<open>None\<close> when there is no connection or its queue is closed.\<close>

definition link_send :: "('q, 'a, 'e) control_message \<Rightarrow> ('q, 'a, 'e) member_link \<Rightarrow> ('q, 'a, 'e) member_link option" where
  "link_send m l =
     (case ml_outbox l of
        None \<Rightarrow> None
      | Some ob \<Rightarrow> if ob_open ob then Some (l\<lparr>ml_outbox := Some (ob\<lparr>ob_queue := ob_queue ob @ [m]\<rparr>)\<rparr>) else None)"

definition take_rotate_result :: "('q, 'a, 'e) member_link \<Rightarrow> (bool \<times> reason) option \<times> ('q, 'a, 'e) member_link" where
  "take_rotate_result l = (ml_rotate_result l, l\<lparr>ml_rotate_result := None\<rparr>)"

text \<open>A request: the new receiver, or none when it could not be sent; \<open>register\<close> stores the sender.\<close>

definition request_with :: "('q, 'a, 'e) control_message \<Rightarrow> (nat \<Rightarrow> ('q, 'a, 'e) member_link \<Rightarrow> ('q, 'a, 'e) member_link)
    \<Rightarrow> ('q, 'a, 'e) member_link \<Rightarrow> nat option \<times> ('q, 'a, 'e) member_link" where
  "request_with m register l =
     (case link_send m l of
        None \<Rightarrow> (None, l)
      | Some l' \<Rightarrow> (Some (ml_receivers l), register (ml_receivers l) (l'\<lparr>ml_receivers := ml_receivers l + 1\<rparr>)))"

definition request_dns_name :: "string \<Rightarrow> ('q, 'a, 'e) member_link \<Rightarrow> nat option \<times> ('q, 'a, 'e) member_link" where
  "request_dns_name name = request_with (Set_Dns_Name name) (\<lambda>t l. l\<lparr>ml_dns_reply := Some t\<rparr>)"

definition request_display_name :: "string \<Rightarrow> ('q, 'a, 'e) member_link \<Rightarrow> nat option \<times> ('q, 'a, 'e) member_link" where
  "request_display_name name = request_with (Set_Display_Name name) (\<lambda>t l. l\<lparr>ml_display_reply := Some t\<rparr>)"

definition request_create_invite :: "string option \<Rightarrow> nat option \<Rightarrow> ('q, 'a, 'e) member_link
    \<Rightarrow> nat option \<times> ('q, 'a, 'e) member_link" where
  "request_create_invite name expires = request_with (Create_Invite name expires) (\<lambda>t l. l\<lparr>ml_invite_reply := Some t\<rparr>)"

definition request_dns_admin :: "admin_dns_request \<Rightarrow> ('q, 'a, 'e) member_link \<Rightarrow> nat option \<times> ('q, 'a, 'e) member_link" where
  "request_dns_admin op l =
     (let seq = ml_dns_admin_seq l + 1
      in request_with (Admin_Dns_Op seq op) (\<lambda>t l. l\<lparr>ml_dns_admin_pending := hm_insert seq t (ml_dns_admin_pending l)\<rparr>)
           (l\<lparr>ml_dns_admin_seq := seq\<rparr>))"

definition request_admin_op :: "admin_request \<Rightarrow> ('q, 'a, 'e) member_link \<Rightarrow> nat option \<times> ('q, 'a, 'e) member_link" where
  "request_admin_op op l =
     (let seq = ml_admin_seq l + 1
      in request_with (Admin_Op seq op) (\<lambda>t l. l\<lparr>ml_admin_pending := hm_insert seq t (ml_admin_pending l)\<rparr>)
           (l\<lparr>ml_admin_seq := seq\<rparr>))"

definition request_memo :: "'q \<Rightarrow> ('q, 'a, 'e) member_link \<Rightarrow> nat option \<times> ('q, 'a, 'e) member_link" where
  "request_memo op l =
     (let seq = ml_memo_seq l + 1
      in request_with (Memo_Req seq op) (\<lambda>t l. l\<lparr>ml_memo_pending := hm_insert seq t (ml_memo_pending l)\<rparr>)
           (l\<lparr>ml_memo_seq := seq\<rparr>))"

definition deliver :: "nat option \<Rightarrow> 'a answer \<Rightarrow> ('q, 'a, 'e) member_link \<Rightarrow> ('q, 'a, 'e) member_link" where
  "deliver t a l = (case t of None \<Rightarrow> l | Some t \<Rightarrow> l\<lparr>ml_answers := ml_answers l @ [(t, a)]\<rparr>)"

definition put_memo_result :: "nat \<Rightarrow> 'a \<Rightarrow> ('q, 'a, 'e) member_link \<Rightarrow> ('q, 'a, 'e) member_link" where
  "put_memo_result seq a l =
     deliver (hm_get (ml_memo_pending l) seq) (Memo_Answer a) (l\<lparr>ml_memo_pending := hm_remove seq (ml_memo_pending l)\<rparr>)"

definition put_rotate_result :: "bool \<Rightarrow> reason \<Rightarrow> ('q, 'a, 'e) member_link \<Rightarrow> ('q, 'a, 'e) member_link" where
  "put_rotate_result ok n l = l\<lparr>ml_rotate_result := Some (ok, n)\<rparr>"

definition put_dns_result :: "bool \<Rightarrow> reason \<Rightarrow> ('q, 'a, 'e) member_link \<Rightarrow> ('q, 'a, 'e) member_link" where
  "put_dns_result ok n l = deliver (ml_dns_reply l) (Plain ok n) (l\<lparr>ml_dns_reply := None\<rparr>)"

definition put_display_result :: "bool \<Rightarrow> reason \<Rightarrow> ('q, 'a, 'e) member_link \<Rightarrow> ('q, 'a, 'e) member_link" where
  "put_display_result ok n l = deliver (ml_display_reply l) (Plain ok n) (l\<lparr>ml_display_reply := None\<rparr>)"

definition put_invite_result :: "invite_reply \<Rightarrow> ('q, 'a, 'e) member_link \<Rightarrow> ('q, 'a, 'e) member_link" where
  "put_invite_result v l = deliver (ml_invite_reply l) (Invited v) (l\<lparr>ml_invite_reply := None\<rparr>)"

definition put_dns_admin_result :: "nat \<Rightarrow> bool \<Rightarrow> reason \<Rightarrow> ('q, 'a, 'e) member_link \<Rightarrow> ('q, 'a, 'e) member_link" where
  "put_dns_admin_result seq ok n l =
     deliver (hm_get (ml_dns_admin_pending l) seq) (Plain ok n)
       (l\<lparr>ml_dns_admin_pending := hm_remove seq (ml_dns_admin_pending l)\<rparr>)"

definition put_admin_op_result :: "nat \<Rightarrow> admin_op_reply \<Rightarrow> ('q, 'a, 'e) member_link \<Rightarrow> ('q, 'a, 'e) member_link" where
  "put_admin_op_result seq r l =
     deliver (hm_get (ml_admin_pending l) seq) (Administered r) (l\<lparr>ml_admin_pending := hm_remove seq (ml_admin_pending l)\<rparr>)"

text \<open>Every request still waiting is given up.\<close>

definition drop_waiting :: "('q, 'a, 'e) member_link \<Rightarrow> ('q, 'a, 'e) member_link" where
  "drop_waiting l = l\<lparr>ml_dns_reply := None, ml_display_reply := None, ml_invite_reply := None,
     ml_dns_admin_pending := [], ml_admin_pending := [], ml_memo_pending := []\<rparr>"

definition link_attach :: "('q, 'a, 'e) outbox \<Rightarrow> ('q, 'a, 'e) member_link \<Rightarrow> ('q, 'a, 'e) member_link" where
  "link_attach ob l = (drop_waiting l)\<lparr>ml_session := ml_session l + 1, ml_outbox := Some ob,
     ml_rotate_result := None, ml_connection_error := None\<rparr>"

definition link_detach :: "('q, 'a, 'e) member_link \<Rightarrow> ('q, 'a, 'e) member_link" where
  "link_detach l = (drop_waiting l)\<lparr>ml_outbox := None\<rparr>"

definition link_reject :: "reason \<Rightarrow> ('q, 'a, 'e) member_link \<Rightarrow> ('q, 'a, 'e) member_link" where
  "link_reject n l = l\<lparr>ml_connection_error := Some n\<rparr>"

section \<open>The reader of a member\<close>

text \<open>What the reader shares with the tunnel; the events are those handed to the cache of memos.\<close>

record ('q, 'a, 'e) member_view =
  mv_link :: "('q, 'a, 'e) member_link"
  mv_ping :: ping_state
  mv_rtt :: rtt_state
  mv_latest :: "received_distribution option"
  mv_removed :: bool
  mv_memo_supported :: bool
  mv_memo_events :: "'e list"

definition map_link :: "(('q, 'a, 'e) member_link \<Rightarrow> ('q, 'a, 'e) member_link) \<Rightarrow> ('q, 'a, 'e) member_view \<Rightarrow> ('q, 'a, 'e) member_view" where
  "map_link f v = v\<lparr>mv_link := f (mv_link v)\<rparr>"

text \<open>Whether the reader goes on, and what it leaves; an answer to a ping goes to the queue if that is open.\<close>

fun member_handle :: "instant \<Rightarrow> ('q, 'a, 'e) control_message \<Rightarrow> ('q, 'a, 'e) member_view \<Rightarrow> bool \<times> ('q, 'a, 'e) member_view" where
  "member_handle now (Ledger_Update d) v =
     (True, v\<lparr>mv_latest := Some \<lparr>rd_distribution = d\<lparr>dist_deny := [], dist_force_relay := []\<rparr>, rd_received_at = now\<rparr>\<rparr>)"
| "member_handle now Removed v = (False, v\<lparr>mv_latest := None, mv_removed := True\<rparr>)"
| "member_handle now (Join_Rejected n) v = (False, (map_link (link_reject n) v)\<lparr>mv_latest := None\<rparr>)"
| "member_handle now (Rotate_Key_Result ok n) v = (True, map_link (put_rotate_result ok n) v)"
| "member_handle now (Set_Dns_Name_Result ok n) v = (True, map_link (put_dns_result ok n) v)"
| "member_handle now (Set_Display_Name_Result ok n) v = (True, map_link (put_display_result ok n) v)"
| "member_handle now (Create_Invite_Result r) v = (True, map_link (put_invite_result r) v)"
| "member_handle now (Memo_Resp seq a) v = (True, map_link (put_memo_result seq a) v)"
| "member_handle now (Admin_Dns_Result seq ok n) v = (True, map_link (put_dns_admin_result seq ok n) v)"
| "member_handle now (Admin_Op_Result seq r) v = (True, map_link (put_admin_op_result seq r) v)"
| "member_handle now (Memo_Event e) v = (True, v\<lparr>mv_memo_supported := True, mv_memo_events := mv_memo_events v @ [e]\<rparr>)"
| "member_handle now m v = (True, v)"

definition member_read :: "instant \<Rightarrow> ipv4 \<Rightarrow> ('q, 'a, 'e) control_message option \<Rightarrow> ('q, 'a, 'e) member_view
    \<Rightarrow> bool \<times> ('q, 'a, 'e) member_view" where
  "member_read now host_ip line v =
     (case line of
        None \<Rightarrow> (True, v)
      | Some m \<Rightarrow>
          (case handle_ping_pong now host_ip m (mv_ping v) (mv_rtt v) of
             Some (answers, p, r) \<Rightarrow>
               (True, map_link (\<lambda>l. foldl (\<lambda>l m. case link_send m l of Some l' \<Rightarrow> l' | None \<Rightarrow> l) l answers)
                  (v\<lparr>mv_ping := p, mv_rtt := r\<rparr>))
           | None \<Rightarrow> member_handle now m v))"

text \<open>\<^verbatim>\<open>member_session\<close> up to its tasks, and what \<^verbatim>\<open>run_member_client\<close> does when a session has ended.\<close>

definition PROTO_VERSION :: nat where "PROTO_VERSION = 1"

definition member_connect :: "build_info \<Rightarrow> string option \<Rightarrow> string option \<Rightarrow> ipv4 \<Rightarrow> ('q, 'a, 'e) member_view \<Rightarrow> ('q, 'a, 'e) member_view" where
  "member_connect build name device_id host_ip v =
     (map_link (link_attach \<lparr>ob_open = True, ob_queue = [Hello PROTO_VERSION name (Some (build_version build))
         CURRENT_CAPABILITIES device_id (Some (build_os build))]\<rparr>) v)
       \<lparr>mv_rtt := rtt_connected host_ip (mv_rtt v), mv_ping := ping_new\<rparr>"

text \<open>The writer of a member: the head of the queue, or a ping.\<close>

definition member_write :: "('q, 'a, 'e) member_view \<Rightarrow> ('q, 'a, 'e) control_message option \<times> ('q, 'a, 'e) member_view" where
  "member_write v =
     (case ml_outbox (mv_link v) of
        Some ob \<Rightarrow> (case ob_queue ob of
            m # ms \<Rightarrow> (Some m, map_link (\<lambda>l. l\<lparr>ml_outbox := Some (ob\<lparr>ob_queue := ms\<rparr>)\<rparr>) v) | [] \<Rightarrow> (None, v))
      | None \<Rightarrow> (None, v))"

definition member_ping :: "instant \<Rightarrow> ipv4 \<Rightarrow> ('q, 'a, 'e) member_view \<Rightarrow> ('q, 'a, 'e) control_message \<times> ('q, 'a, 'e) member_view" where
  "member_ping now host_ip v =
     (let (m, p) = ping_issue now (mv_ping v) in (m, v\<lparr>mv_ping := p, mv_rtt := rtt_issued host_ip (mv_rtt v)\<rparr>))"

text \<open>True when the client connects again.\<close>

definition session_ended :: "ipv4 \<Rightarrow> ('q, 'a, 'e) member_view \<Rightarrow> bool \<times> ('q, 'a, 'e) member_view" where
  "session_ended host_ip v =
     (ml_connection_error (mv_link v) = None \<and> \<not> mv_removed v,
      (map_link link_detach v)\<lparr>mv_rtt := rtt_disconnected host_ip (mv_rtt v)\<rparr>)"

section \<open>Histories of a link\<close>

datatype ('q, 'a, 'e) link_event =
    Ask_Dns_Name string
  | Ask_Display_Name string
  | Ask_Invite "string option" "nat option"
  | Ask_Dns_Admin admin_dns_request
  | Ask_Admin admin_request
  | Ask_Memo 'q
  | Send_Message "('q, 'a, 'e) control_message"
  | Take_Rotation
  | Message_Read "('q, 'a, 'e) control_message"
  | Attached "('q, 'a, 'e) outbox"
  | Detached
  | Queue_Changed "('q, 'a, 'e) outbox"

text \<open>\<open>Queue_Changed\<close> stands for the writer, which empties the queue or closes it.\<close>

fun link_step :: "('q, 'a, 'e) link_event \<Rightarrow> ('q, 'a, 'e) member_link \<Rightarrow> ('q, 'a, 'e) member_link" where
  "link_step (Ask_Dns_Name n) l = snd (request_dns_name n l)"
| "link_step (Ask_Display_Name n) l = snd (request_display_name n l)"
| "link_step (Ask_Invite n e) l = snd (request_create_invite n e l)"
| "link_step (Ask_Dns_Admin op) l = snd (request_dns_admin op l)"
| "link_step (Ask_Admin op) l = snd (request_admin_op op l)"
| "link_step (Ask_Memo op) l = snd (request_memo op l)"
| "link_step (Send_Message m) l = (case link_send m l of Some l' \<Rightarrow> l' | None \<Rightarrow> l)"
| "link_step Take_Rotation l = snd (take_rotate_result l)"
| "link_step (Message_Read m) l =
     mv_link (snd (member_handle 0 m \<lparr>mv_link = l, mv_ping = ping_new, mv_rtt = \<lparr>rt_latest = [], rt_pending = []\<rparr>,
       mv_latest = None, mv_removed = False, mv_memo_supported = False, mv_memo_events = []\<rparr>))"
| "link_step (Attached ob) l = link_attach ob l"
| "link_step Detached l = link_detach l"
| "link_step (Queue_Changed ob) l = l\<lparr>ml_outbox := map_option (\<lambda>_. ob) (ml_outbox l)\<rparr>"

definition link_run :: "('q, 'a, 'e) link_event list \<Rightarrow> ('q, 'a, 'e) member_link" where
  "link_run es = foldl (\<lambda>l e. link_step e l) link_new es"

lemma link_run_simps [simp]: "link_run [] = link_new" "link_run (es @ [e]) = link_step e (link_run es)"
  by (simp_all add: link_run_def)

text \<open>The reader's part of the link depends on nothing else of the view.\<close>

lemma member_handle_link:
  "mv_link (snd (member_handle now m v)) = link_step (Message_Read m) (mv_link v)"
  by (cases m) (simp_all add: map_link_def)

lemmas link_defs = request_with_def request_dns_name_def request_display_name_def request_create_invite_def
  request_dns_admin_def request_admin_op_def request_memo_def link_send_def take_rotate_result_def deliver_def
  put_memo_result_def put_rotate_result_def put_dns_result_def put_display_result_def put_invite_result_def
  put_dns_admin_result_def put_admin_op_result_def drop_waiting_def link_attach_def link_detach_def link_reject_def map_link_def

definition hangs_up :: "('q, 'a, 'e) link_event \<Rightarrow> bool" where
  "hangs_up e \<longleftrightarrow> e = Detached \<or> (\<exists>ob. e = Attached ob)"

lemma hangs_up_simps [simp]:
  "hangs_up Detached" "hangs_up (Attached ob)" "\<not> hangs_up (Ask_Admin op)" "\<not> hangs_up (Message_Read m)"
  by (simp_all add: hangs_up_def)

lemma hang_up_clears: "hangs_up e \<Longrightarrow> ml_admin_pending (link_step e l) = [] \<and> ml_answers (link_step e l) = ml_answers l"
  by (auto simp: hangs_up_def link_defs)

lemma other_step:
  assumes "\<not> hangs_up e" and "\<And>op. e \<noteq> Ask_Admin op" and "\<And>seq r. e \<noteq> Message_Read (Admin_Op_Result seq r)"
  shows "ml_admin_pending (link_step e l) = ml_admin_pending l"
    and "(t, Administered r) \<in> set (ml_answers (link_step e l)) \<longleftrightarrow> (t, Administered r) \<in> set (ml_answers l)"
proof -
  have "ml_admin_pending (link_step e l) = ml_admin_pending l
    \<and> ((t, Administered r) \<in> set (ml_answers (link_step e l)) \<longleftrightarrow> (t, Administered r) \<in> set (ml_answers l))"
  proof (cases e)
    case (Message_Read m)
    then show ?thesis using assms by (cases m) (auto simp: link_defs split: option.splits)
  qed (use assms in \<open>auto simp: link_defs Let_def split: option.splits\<close>)
  then show "ml_admin_pending (link_step e l) = ml_admin_pending l"
    and "(t, Administered r) \<in> set (ml_answers (link_step e l)) \<longleftrightarrow> (t, Administered r) \<in> set (ml_answers l)" by blast+
qed

text \<open>The request a receiver belongs to is the last one of its number, with the connection kept since.\<close>

definition asked :: "('q, 'a, 'e) link_event list \<Rightarrow> nat \<Rightarrow> nat \<Rightarrow> admin_request \<Rightarrow> bool" where
  "asked es seq t op \<longleftrightarrow> (\<exists>pre mid. es = pre @ Ask_Admin op # mid \<and> fst (request_admin_op op (link_run pre)) = Some t
     \<and> ml_admin_seq (link_run pre) + 1 = seq \<and> (\<forall>e \<in> set mid. \<not> hangs_up e))"

lemma asked_later: "asked es seq t op \<Longrightarrow> \<not> hangs_up e \<Longrightarrow> asked (es @ [e]) seq t op"
proof -
  assume "asked es seq t op" and h: "\<not> hangs_up e"
  then obtain pre mid where "es = pre @ Ask_Admin op # mid" "fst (request_admin_op op (link_run pre)) = Some t"
    "ml_admin_seq (link_run pre) + 1 = seq" "\<forall>e \<in> set mid. \<not> hangs_up e" unfolding asked_def by blast
  with h show ?thesis unfolding asked_def by (intro exI [of _ pre] exI [of _ "mid @ [e]"]) auto
qed

lemma waiting_asked:
  "hm_get (ml_admin_pending (link_run es)) seq = Some t \<Longrightarrow> \<exists>op. asked es seq t op"
proof (induction es rule: rev_induct)
  case (snoc e es)
  consider "hangs_up e" | op where "e = Ask_Admin op" | s r where "e = Message_Read (Admin_Op_Result s r)"
    | "\<not> hangs_up e" "\<And>op. e \<noteq> Ask_Admin op" "\<And>seq r. e \<noteq> Message_Read (Admin_Op_Result seq r)" by blast
  then show ?case
  proof cases
    case 1
    with snoc.prems hang_up_clears [OF 1] show ?thesis by (simp add: hm_get_def)
  next
    case (2 op)
    let ?r = "request_admin_op op (link_run es)"
    show ?thesis
    proof (cases "fst ?r = Some t \<and> ml_admin_seq (link_run es) + 1 = seq")
      case True
      then have "asked (es @ [e]) seq t op" unfolding asked_def 2 by (intro exI [of _ es] exI [of _ "[]"]) simp
      then show ?thesis ..
    next
      case False
      with snoc.prems 2 have "hm_get (ml_admin_pending (link_run es)) seq = Some t"
        by (auto simp: request_admin_op_def request_with_def link_send_def Let_def hm.get_insert split: option.splits if_splits)
      then obtain op' where "asked es seq t op'" using snoc.IH by blast
      from asked_later [OF this, of e] 2 show ?thesis by auto
    qed
  next
    case (3 s r)
    with snoc.prems have "hm_get (ml_admin_pending (link_run es)) seq = Some t"
      by (auto simp: link_defs hm.get_remove split: option.splits if_splits)
    then obtain op where "asked es seq t op" using snoc.IH by blast
    from asked_later [OF this, of e] 3 show ?thesis by auto
  next
    case 4
    with snoc.prems other_step(1) [OF 4] obtain op where "asked es seq t op" using snoc.IH by auto
    from asked_later [OF this 4(1)] show ?thesis by blast
  qed
qed (simp add: link_new_def hm_get_def)

text \<open>
  C16: answers reach the request they answer. Whatever requests are made and whatever is read, in any order and over
  any number of connections, an answer to an administrative request that a receiver gets was read on the connection of
  that request, after it, under its number.
\<close>

theorem admin_answers_match:
  assumes "(t, Administered r) \<in> set (ml_answers (link_run es))"
  shows "\<exists>pre op mid seq post. es = pre @ Ask_Admin op # mid @ Message_Read (Admin_Op_Result seq r) # post
    \<and> fst (request_admin_op op (link_run pre)) = Some t \<and> seq = ml_admin_seq (link_run pre) + 1
    \<and> (\<forall>e \<in> set mid. \<not> hangs_up e)"
  using assms
proof (induction es rule: rev_induct)
  case (snoc e es)
  show ?case
  proof (cases "(t, Administered r) \<in> set (ml_answers (link_run es))")
    case True
    with snoc.IH obtain pre op mid seq post where "es = pre @ Ask_Admin op # mid @ Message_Read (Admin_Op_Result seq r) # post"
      "fst (request_admin_op op (link_run pre)) = Some t" "seq = ml_admin_seq (link_run pre) + 1"
      "\<forall>e \<in> set mid. \<not> hangs_up e" by blast
    then show ?thesis by (intro exI [of _ pre] exI [of _ op] exI [of _ mid] exI [of _ seq] exI [of _ "post @ [e]"]) simp
  next
    case False
    with snoc.prems have h: "\<not> hangs_up e" using hang_up_clears [of e] by (auto simp: hangs_up_def)
    have "\<exists>seq r'. e = Message_Read (Admin_Op_Result seq r')"
    proof (rule ccontr)
      assume n: "\<not> ?thesis"
      have "\<not> (\<exists>op. e = Ask_Admin op)" using False snoc.prems
        by (auto simp: request_admin_op_def request_with_def link_send_def Let_def split: option.splits if_splits)
      with n h False snoc.prems other_step(2) [of e t r "link_run es"] show False by auto
    qed
    then obtain seq r' where e: "e = Message_Read (Admin_Op_Result seq r')" by blast
    with False snoc.prems have "hm_get (ml_admin_pending (link_run es)) seq = Some t" and r: "r' = r"
      by (auto simp: link_defs split: option.splits)
    with waiting_asked obtain op where "asked es seq t op" by blast
    then obtain pre mid where "es = pre @ Ask_Admin op # mid" "fst (request_admin_op op (link_run pre)) = Some t"
      "ml_admin_seq (link_run pre) + 1 = seq" "\<forall>e \<in> set mid. \<not> hangs_up e" unfolding asked_def by blast
    with e r show ?thesis by (intro exI [of _ pre] exI [of _ op] exI [of _ mid] exI [of _ seq] exI [of _ "[]"]) simp
  qed
qed (simp add: link_new_def)

theorem admin_answers_match_witness:
  "\<exists>es r. ml_answers (link_run es :: (unit, unit, unit) member_link) = [(0, Administered r)] \<and> ar_accepted r"
proof -
  let ?ob = "\<lparr>ob_open = True, ob_queue = []\<rparr> :: (unit, unit, unit) outbox"
  let ?r = "\<lparr>ar_accepted = True, ar_reason = None, ar_data = None\<rparr>"
  let ?es = "[Attached ?ob, Ask_Admin Acl_Read, Message_Read (Admin_Op_Result 1 ?r)]"
  have a: "ml_answers (link_run ?es) = [(0, Administered ?r)]"
    by (simp add: link_run_def link_defs Let_def link_new_def hm_get_def hm_insert_def)
  then have "(0, Administered ?r) \<in> set (ml_answers (link_run ?es))" by simp
  from admin_answers_match [OF this] a show ?thesis by (intro exI [of _ ?es] exI [of _ ?r]) simp
qed

section \<open>Receivers\<close>

definition opt_ticket :: "nat option \<Rightarrow> nat multiset" where
  "opt_ticket t = (case t of None \<Rightarrow> {#} | Some t \<Rightarrow> {#t#})"

definition map_tickets :: "(nat, nat) hashmap \<Rightarrow> nat multiset" where
  "map_tickets m = mset (map snd m)"

text \<open>All receivers that wait or were answered, the latter as often as they were.\<close>

definition tickets :: "('q, 'a, 'e) member_link \<Rightarrow> nat multiset" where
  "tickets l = mset (map fst (ml_answers l)) + (opt_ticket (ml_dns_reply l) + (opt_ticket (ml_display_reply l)
     + (opt_ticket (ml_invite_reply l) + (map_tickets (ml_dns_admin_pending l) + (map_tickets (ml_admin_pending l)
     + map_tickets (ml_memo_pending l))))))"

lemma opt_ticket_simps [simp]: "opt_ticket None = {#}" "opt_ticket (Some t) = {#t#}"
  by (simp_all add: opt_ticket_def)

lemma map_tickets_Nil [simp]: "map_tickets [] = {#}"
  by (simp add: map_tickets_def)

lemma map_tickets_insert: "map_tickets (hm_insert k t m) \<subseteq># add_mset t (map_tickets m)"
proof -
  have "mset (map snd (AList.update k t m)) \<subseteq># add_mset t (mset (map snd m))"
    by (induction m) (auto intro: subset_mset.order_trans simp: add_mset_commute)
  then show ?thesis by (simp add: map_tickets_def hm_insert_def)
qed

lemma map_tickets_remove: "opt_ticket (hm_get m k) + map_tickets (hm_remove k m) \<subseteq># map_tickets m"
proof -
  have d: "image_mset snd (mset (AList.delete k m)) \<subseteq># image_mset snd (mset m)" for m :: "(nat, nat) hashmap"
    by (simp add: AList.delete_eq image_mset_subseteq_mono)
  have "opt_ticket (map_of m k) + image_mset snd (mset (AList.delete k m)) \<subseteq># image_mset snd (mset m)"
    by (induction m) (auto simp: d)
  then show ?thesis by (simp add: map_tickets_def hm_remove_def hm_get_def)
qed

lemma tickets_frame [simp]:
  "tickets (l\<lparr>ml_outbox := ob\<rparr>) = tickets l" "tickets (l\<lparr>ml_receivers := n\<rparr>) = tickets l"
  "tickets (l\<lparr>ml_dns_admin_seq := n\<rparr>) = tickets l" "tickets (l\<lparr>ml_admin_seq := n\<rparr>) = tickets l"
  "tickets (l\<lparr>ml_memo_seq := n\<rparr>) = tickets l" "tickets (l\<lparr>ml_rotate_result := r\<rparr>) = tickets l"
  "tickets (l\<lparr>ml_connection_error := c\<rparr>) = tickets l" "tickets (l\<lparr>ml_session := n\<rparr>) = tickets l"
  by (simp_all add: tickets_def)

lemma link_send_tickets: "link_send m l = Some l' \<Longrightarrow> tickets l' = tickets l \<and> ml_receivers l' = ml_receivers l"
  by (auto simp: link_send_def split: option.splits if_splits)

definition grows :: "('q, 'a, 'e) member_link \<Rightarrow> ('q, 'a, 'e) member_link \<Rightarrow> bool" where
  "grows l l' \<longleftrightarrow> tickets l' \<subseteq># tickets l \<and> ml_receivers l' = ml_receivers l
    \<or> tickets l' \<subseteq># add_mset (ml_receivers l) (tickets l) \<and> ml_receivers l' = ml_receivers l + 1"

lemma grows_refl [simp]: "tickets l' = tickets l \<Longrightarrow> ml_receivers l' = ml_receivers l \<Longrightarrow> grows l l'"
  by (simp add: grows_def)

lemma request_grows:
  assumes "\<And>t l. tickets (register t l) \<subseteq># add_mset t (tickets l) \<and> ml_receivers (register t l) = ml_receivers l"
  shows "grows l (snd (request_with m register l))"
proof (cases "link_send m l")
  case (Some l')
  from assms [of "ml_receivers l" "l'\<lparr>ml_receivers := ml_receivers l + 1\<rparr>"] link_send_tickets [OF Some] Some
  show ?thesis by (simp add: request_with_def grows_def)
qed (simp add: request_with_def)

lemma slot_tickets:
  "tickets (l\<lparr>ml_dns_reply := Some t\<rparr>) \<subseteq># add_mset t (tickets l)"
  "tickets (l\<lparr>ml_display_reply := Some t\<rparr>) \<subseteq># add_mset t (tickets l)"
  "tickets (l\<lparr>ml_invite_reply := Some t\<rparr>) \<subseteq># add_mset t (tickets l)"
  "tickets (l\<lparr>ml_dns_admin_pending := hm_insert k t (ml_dns_admin_pending l)\<rparr>) \<subseteq># add_mset t (tickets l)"
  "tickets (l\<lparr>ml_admin_pending := hm_insert k t (ml_admin_pending l)\<rparr>) \<subseteq># add_mset t (tickets l)"
  "tickets (l\<lparr>ml_memo_pending := hm_insert k t (ml_memo_pending l)\<rparr>) \<subseteq># add_mset t (tickets l)"
  by (simp_all add: tickets_def map_tickets_insert)

lemma deliver_grows: "opt_ticket t + tickets l' \<subseteq># tickets l \<Longrightarrow> ml_receivers l' = ml_receivers l \<Longrightarrow> grows l (deliver t a l')"
  by (cases t) (simp_all add: grows_def deliver_def tickets_def ac_simps)

lemma taken_tickets:
  "opt_ticket (ml_dns_reply l) + tickets (l\<lparr>ml_dns_reply := None\<rparr>) \<subseteq># tickets l"
  "opt_ticket (ml_display_reply l) + tickets (l\<lparr>ml_display_reply := None\<rparr>) \<subseteq># tickets l"
  "opt_ticket (ml_invite_reply l) + tickets (l\<lparr>ml_invite_reply := None\<rparr>) \<subseteq># tickets l"
  "opt_ticket (hm_get (ml_dns_admin_pending l) k) + tickets (l\<lparr>ml_dns_admin_pending := hm_remove k (ml_dns_admin_pending l)\<rparr>) \<subseteq># tickets l"
  "opt_ticket (hm_get (ml_admin_pending l) k) + tickets (l\<lparr>ml_admin_pending := hm_remove k (ml_admin_pending l)\<rparr>) \<subseteq># tickets l"
  "opt_ticket (hm_get (ml_memo_pending l) k) + tickets (l\<lparr>ml_memo_pending := hm_remove k (ml_memo_pending l)\<rparr>) \<subseteq># tickets l"
  using map_tickets_remove [of "ml_dns_admin_pending l" k] map_tickets_remove [of "ml_admin_pending l" k]
    map_tickets_remove [of "ml_memo_pending l" k]
  by (simp_all add: tickets_def ac_simps)

lemma drop_waiting_tickets: "tickets (drop_waiting l) \<subseteq># tickets l"
  by (simp add: tickets_def drop_waiting_def)

lemma link_step_grows: "grows l (link_step e l)"
proof (cases e)
  case (Message_Read m)
  then show ?thesis
    by (cases m) (simp_all add: map_link_def put_rotate_result_def link_reject_def put_dns_result_def put_display_result_def
        put_invite_result_def put_memo_result_def put_dns_admin_result_def put_admin_op_result_def deliver_grows taken_tickets)
next
  case (Send_Message m)
  then show ?thesis using link_send_tickets [of m l] by (auto split: option.splits)
next
  case (Attached ob)
  then show ?thesis using drop_waiting_tickets [of l] by (simp add: grows_def link_attach_def) (simp add: drop_waiting_def)
next
  case Detached
  then show ?thesis using drop_waiting_tickets [of l] by (simp add: grows_def link_detach_def) (simp add: drop_waiting_def)
next
  case (Ask_Dns_Admin op)
  let ?l = "l\<lparr>ml_dns_admin_seq := ml_dns_admin_seq l + 1\<rparr>"
  have "grows ?l (link_step e l)" unfolding Ask_Dns_Admin
    by (simp only: link_step.simps request_dns_admin_def Let_def, rule request_grows) (simp add: slot_tickets)
  then show ?thesis by (simp add: grows_def)
next
  case (Ask_Admin op)
  let ?l = "l\<lparr>ml_admin_seq := ml_admin_seq l + 1\<rparr>"
  have "grows ?l (link_step e l)" unfolding Ask_Admin
    by (simp only: link_step.simps request_admin_op_def Let_def, rule request_grows) (simp add: slot_tickets)
  then show ?thesis by (simp add: grows_def)
next
  case (Ask_Memo op)
  let ?l = "l\<lparr>ml_memo_seq := ml_memo_seq l + 1\<rparr>"
  have "grows ?l (link_step e l)" unfolding Ask_Memo
    by (simp only: link_step.simps request_memo_def Let_def, rule request_grows) (simp add: slot_tickets)
  then show ?thesis by (simp add: grows_def)
qed (simp_all add: request_dns_name_def request_display_name_def request_create_invite_def take_rotate_result_def
    request_grows slot_tickets)

text \<open>
  No receiver is answered twice, in any history of the link.
\<close>

theorem receivers_answered_once: "distinct (map fst (ml_answers (link_run es)))"
proof -
  have "(\<forall>t \<in># tickets (link_run es). t < ml_receivers (link_run es)) \<and> (\<forall>t. count (tickets (link_run es)) t \<le> 1)"
  proof (induction es rule: rev_induct)
    case (snoc e es)
    let ?l = "link_run es"
    have n: "count (tickets ?l) (ml_receivers ?l) = 0" using snoc by (auto simp: not_in_iff [symmetric])
    show ?case
    proof (cases "tickets (link_step e ?l) \<subseteq># tickets ?l \<and> ml_receivers (link_step e ?l) = ml_receivers ?l")
      case True
      then show ?thesis using snoc by (auto dest: mset_subset_eqD intro: order_trans mset_subset_eq_count)
    next
      case False
      with link_step_grows [of ?l e, unfolded grows_def] have s: "tickets (link_step e ?l) \<subseteq># add_mset (ml_receivers ?l) (tickets ?l)"
        and r: "ml_receivers (link_step e ?l) = ml_receivers ?l + 1" by blast+
      have "count (tickets (link_step e ?l)) t \<le> 1" for t
        using mset_subset_eq_count [OF s, of t] snoc n by (cases "t = ml_receivers ?l") (auto intro: order_trans)
      moreover have "t < ml_receivers ?l + 1" if "t \<in># tickets (link_step e ?l)" for t
        using mset_subset_eqD [OF s that] snoc by (auto simp: less_Suc_eq)
      ultimately show ?thesis using r by auto
    qed
  qed (simp add: tickets_def link_new_def)
  then have "count (mset (map fst (ml_answers (link_run es)))) t \<le> 1" for t
    unfolding tickets_def by (metis (no_types, lifting) count_union le_add1 order_trans)
  then show ?thesis by (auto simp: distinct_count_atmost_1 le_Suc_eq count_eq_zero_iff)
qed

text \<open>
  A request about a name has no number. A second one takes over the place of the first, as its comment says, but the
  answer that arrives first answers the first request: the second receiver gets it, and the answer to the second request
  is dropped.
\<close>

lemma overtaken_request_gets_first_answer:
  "ml_answers (link_run [Attached \<lparr>ob_open = True, ob_queue = []\<rparr>, Ask_Dns_Name a, Ask_Dns_Name b,
     Message_Read (Set_Dns_Name_Result ok n), Message_Read (Set_Dns_Name_Result ok' n')]) = [(1, Plain ok n)]"
  by (simp add: link_run_def link_defs Let_def link_new_def)

end
