(* ===== verification/Host_Session.thy ===== *)
theory Host_Session
  imports Control_Link
begin

text \<open>
  One connection of a member to the host, \<^verbatim>\<open>handle_member\<close>, \<^verbatim>\<open>host_writer\<close> and \<^verbatim>\<open>host_reader\<close> of
  \<^verbatim>\<open>crates/peercove-cli/src/control.rs\<close>, the table of connections, and what the memo service puts into their queues
  (\<^verbatim>\<open>crates/peercove-cli/src/memoshare.rs\<close>). Reader and writer are tasks that run side by side; a history is a list of
  their steps, of what others push into the queue, and of what others write to the file. The memo service
  answers through a parameter.
\<close>

section \<open>The table of connections\<close>

definition register_connection :: "ipv4 \<Rightarrow> connection_info \<Rightarrow> connections \<Rightarrow> nat option \<times> connections" where
  "register_connection ip info m = (map_option ci_connection_id (hm_get m ip), hm_insert ip info m)"

definition unregister_connection :: "ipv4 \<Rightarrow> nat \<Rightarrow> connections \<Rightarrow> bool \<times> connections" where
  "unregister_connection ip i m =
     (if map_option ci_connection_id (hm_get m ip) = Some i then (True, hm_remove ip m) else (False, m))"

text \<open>The connections that announced the capability, and an event for all of them.\<close>

definition memo_connections :: "connections \<Rightarrow> (ipv4 \<times> connection_info) list" where
  "memo_connections m = filter (\<lambda>(ip, info). ''shared_memo'' \<in> set (ci_capabilities info)) m"

definition broadcast_event :: "'e \<Rightarrow> connections \<Rightarrow> (nat \<times> ('q, 'a, 'e) control_message) list" where
  "broadcast_event e m = map (\<lambda>(ip, info). (ci_connection_id info, Memo_Event e)) (memo_connections m)"

section \<open>A connection\<close>

record ('q, 'a, 'e) host_conn =
  hc_isolated :: bool
  hc_ping :: ping_state
  hc_queue :: "('q, 'a, 'e) control_message list"
  hc_written :: "('q, 'a, 'e) control_message list"
  hc_open :: bool

record ('q, 'a, 'e) host_state =
  hs_file :: config
  hs_health :: "health_monitor option"
  hs_rtt :: rtt_state
  hs_conn :: "('q, 'a, 'e) host_conn"

definition awaits_approval :: "distribution \<Rightarrow> ipv4 \<Rightarrow> bool" where
  "awaits_approval d ip \<longleftrightarrow>
     list_ex (\<lambda>e. le_ip e = ip \<and> le_invite_status e = Some ''awaiting_approval'') (dist_members d)"

text \<open>
  The first message. Of a refused join only the reason is written; otherwise the connection starts, with the current
  ledger written unless the device waits for approval.
\<close>

datatype ('q, 'a, 'e) hello_outcome =
    No_Hello
  | Refused_Join ops_error
  | Session connection_info "('q, 'a, 'e) host_conn"

definition connection_start :: "bool \<Rightarrow> ipv4 \<Rightarrow> distribution \<Rightarrow> ('q, 'a, 'e) host_conn" where
  "connection_start isolated ip snapshot =
     \<lparr>hc_isolated = isolated, hc_ping = ping_new, hc_queue = [],
      hc_written = (if isolated then [] else [Ledger_Update (ledger_message_for snapshot ip)]), hc_open = True\<rparr>"

definition host_hello :: "host_env \<Rightarrow> host_reads \<Rightarrow> nat \<Rightarrow> distribution \<Rightarrow> ipv4 \<Rightarrow> ('q, 'a, 'e) control_message option
    \<Rightarrow> ('q, 'a, 'e) hello_outcome \<times> config" where
  "host_hello he rs next_id snapshot ip line =
     (case line of
        Some (Hello version name app_version capabilities device_id platform) \<Rightarrow>
          (case accept_invite he rs ip device_id of
             (Inl e, doc) \<Rightarrow> (Refused_Join e, doc)
           | (Inr isolated, doc) \<Rightarrow>
               (Session \<lparr>ci_connection_id = next_id, ci_app_version = app_version, ci_capabilities = capabilities,
                         ci_platform = platform\<rparr> (connection_start isolated ip snapshot), doc))
      | _ \<Rightarrow> (No_Hello, hr_doc rs))"

section \<open>The reader\<close>

fun is_request :: "('q, 'a, 'e) control_message \<Rightarrow> bool" where
  "is_request (Rotate_Key k) = True"
| "is_request (Set_Dns_Name n) = True"
| "is_request (Set_Display_Name n) = True"
| "is_request (Create_Invite n e) = True"
| "is_request (Memo_Req s q) = True"
| "is_request (Admin_Dns_Op s op) = True"
| "is_request (Admin_Op s op) = True"
| "is_request m = False"

definition refusal :: "ops_error + 'b \<Rightarrow> reason" where
  "refusal r = (case r of Inl e \<Rightarrow> Some e | Inr _ \<Rightarrow> None)"

definition succeeded :: "ops_error + 'b \<Rightarrow> bool" where
  "succeeded r \<longleftrightarrow> refusal r = None"

definition invite_answer :: "ops_error + invite_result \<Rightarrow> invite_reply" where
  "invite_answer r = \<lparr>vr_accepted = succeeded r, vr_reason = refusal r,
     vr_token = (case r of Inr x \<Rightarrow> Some (ir_token x) | Inl _ \<Rightarrow> None),
     vr_name = (case r of Inr x \<Rightarrow> Some (ir_name x) | Inl _ \<Rightarrow> None),
     vr_expires_at = (case r of Inr x \<Rightarrow> ir_expires_at x | Inl _ \<Rightarrow> None)\<rparr>"

definition admin_answer :: "admin_data option host_reply \<Rightarrow> admin_op_reply" where
  "admin_answer r = \<lparr>ar_accepted = accepted r, ar_reason = refusal (reply_result r),
     ar_data = (case reply_result r of Inr d \<Rightarrow> d | Inl _ \<Rightarrow> None)\<rparr>"

text \<open>The answer to a request, the document, and the health monitor.\<close>

fun host_handle :: "host_env \<Rightarrow> invite_env \<Rightarrow> (ipv4 \<Rightarrow> 'q \<Rightarrow> 'a) \<Rightarrow> host_reads \<Rightarrow> health_monitor option \<Rightarrow> ipv4
    \<Rightarrow> ('q, 'a, 'e) control_message \<Rightarrow> ('q, 'a, 'e) control_message list \<times> config \<times> health_monitor option" where
  "host_handle he iv memo rs h ip (Rotate_Key key) =
     (case apply_rotate_key he rs ip key of (r, doc) \<Rightarrow> ([Rotate_Key_Result (succeeded r) (refusal r)], doc, h))"
| "host_handle he iv memo rs h ip (Set_Dns_Name n) =
     (case apply_dns_name he rs ip n of (r, doc) \<Rightarrow> ([Set_Dns_Name_Result (succeeded r) (refusal r)], doc, h))"
| "host_handle he iv memo rs h ip (Set_Display_Name n) =
     (case apply_display_name he rs ip n of (r, doc) \<Rightarrow> ([Set_Display_Name_Result (succeeded r) (refusal r)], doc, h))"
| "host_handle he iv memo rs h ip (Create_Invite n e) =
     (case apply_create_invite he iv rs ip n e of (r, doc) \<Rightarrow> ([Create_Invite_Result (invite_answer r)], doc, h))"
| "host_handle he iv memo rs h ip (Memo_Req seq q) = ([Memo_Resp seq (memo ip q)], hr_doc rs, h)"
| "host_handle he iv memo rs h ip (Admin_Dns_Op seq op) =
     (case apply_admin_dns he rs ip seq op of (r, doc) \<Rightarrow>
        ([Admin_Dns_Result (reply_seq r) (accepted r) (refusal (reply_result r))], doc, h))"
| "host_handle he iv memo rs h ip (Admin_Op seq op) =
     (case apply_admin_op he rs h ip seq op of (r, doc, h') \<Rightarrow> ([Admin_Op_Result (reply_seq r) (admin_answer r)], doc, h'))"
| "host_handle he iv memo rs h ip m = ([], hr_doc rs, h)"

text \<open>One line, \<open>None\<close> when it is no message. The document is the file of the state.\<close>

definition host_read :: "host_env \<Rightarrow> invite_env \<Rightarrow> (ipv4 \<Rightarrow> 'q \<Rightarrow> 'a) \<Rightarrow> host_reads \<Rightarrow> instant \<Rightarrow> ipv4
    \<Rightarrow> ('q, 'a, 'e) control_message option \<Rightarrow> ('q, 'a, 'e) host_state \<Rightarrow> ('q, 'a, 'e) host_state" where
  "host_read he iv memo rs now ip line s =
     (let c = hs_conn s
      in case line of
           None \<Rightarrow> s
         | Some m \<Rightarrow>
             (case handle_ping_pong now ip m (hc_ping c) (hs_rtt s) of
                Some (answers, p, r) \<Rightarrow> s\<lparr>hs_rtt := r, hs_conn := c\<lparr>hc_ping := p, hc_queue := hc_queue c @ answers\<rparr>\<rparr>
              | None \<Rightarrow>
                  if is_request m \<and> hc_isolated c then s
                  else (case host_handle he iv memo (rs\<lparr>hr_doc := hs_file s\<rparr>) (hs_health s) ip m of
                          (answers, doc, h) \<Rightarrow>
                            s\<lparr>hs_file := doc, hs_health := h, hs_conn := c\<lparr>hc_queue := hc_queue c @ answers\<rparr>\<rparr>)))"

section \<open>The writer\<close>

definition host_ledger :: "ipv4 \<Rightarrow> distribution \<Rightarrow> ('q, 'a, 'e) host_conn \<Rightarrow> ('q, 'a, 'e) host_conn" where
  "host_ledger ip d c =
     (let isolated = awaits_approval d ip
      in c\<lparr>hc_isolated := isolated,
           hc_written := hc_written c @ (if isolated then [] else [Ledger_Update (ledger_message_for d ip)])\<rparr>)"

definition host_dequeue :: "('q, 'a, 'e) host_conn \<Rightarrow> ('q, 'a, 'e) host_conn" where
  "host_dequeue c =
     (case hc_queue c of
        [] \<Rightarrow> c
      | m # ms \<Rightarrow> c\<lparr>hc_queue := ms, hc_written := hc_written c @ [m], hc_open := (m \<noteq> Removed)\<rparr>)"

definition host_ping :: "instant \<Rightarrow> ipv4 \<Rightarrow> ('q, 'a, 'e) host_state \<Rightarrow> ('q, 'a, 'e) host_state" where
  "host_ping now ip s =
     (let c = hs_conn s; (m, p) = ping_issue now (hc_ping c)
      in s\<lparr>hs_rtt := rtt_issued ip (hs_rtt s), hs_conn := c\<lparr>hc_ping := p, hc_written := hc_written c @ [m]\<rparr>\<rparr>)"

section \<open>Histories\<close>

datatype ('q, 'a, 'e) host_event =
    Line_Read host_reads instant "('q, 'a, 'e) control_message option"
  | Ledger_Changed distribution
  | Queue_Step
  | Ping_Due instant
  | Pushed "('q, 'a, 'e) control_message"
  | File_Written config

fun host_step :: "host_env \<Rightarrow> invite_env \<Rightarrow> (ipv4 \<Rightarrow> 'q \<Rightarrow> 'a) \<Rightarrow> ipv4 \<Rightarrow> ('q, 'a, 'e) host_event
    \<Rightarrow> ('q, 'a, 'e) host_state \<Rightarrow> ('q, 'a, 'e) host_state" where
  "host_step he iv memo ip (File_Written doc) s = s\<lparr>hs_file := doc\<rparr>"
| "host_step he iv memo ip (Line_Read rs now line) s =
     (if hc_open (hs_conn s) then host_read he iv memo rs now ip line s else s)"
| "host_step he iv memo ip (Ledger_Changed d) s =
     (if hc_open (hs_conn s) then s\<lparr>hs_conn := host_ledger ip d (hs_conn s)\<rparr> else s)"
| "host_step he iv memo ip Queue_Step s =
     (if hc_open (hs_conn s) then s\<lparr>hs_conn := host_dequeue (hs_conn s)\<rparr> else s)"
| "host_step he iv memo ip (Ping_Due now) s = (if hc_open (hs_conn s) then host_ping now ip s else s)"
| "host_step he iv memo ip (Pushed m) s =
     s\<lparr>hs_conn := (hs_conn s)\<lparr>hc_queue := hc_queue (hs_conn s) @ [m]\<rparr>\<rparr>"

definition host_run :: "host_env \<Rightarrow> invite_env \<Rightarrow> (ipv4 \<Rightarrow> 'q \<Rightarrow> 'a) \<Rightarrow> ipv4 \<Rightarrow> ('q, 'a, 'e) host_event list
    \<Rightarrow> ('q, 'a, 'e) host_state \<Rightarrow> ('q, 'a, 'e) host_state" where
  "host_run he iv memo ip es s = foldl (\<lambda>s e. host_step he iv memo ip e s) s es"

lemma host_run_simps [simp]:
  "host_run he iv memo ip [] s = s"
  "host_run he iv memo ip (e # es) s = host_run he iv memo ip es (host_step he iv memo ip e s)"
  by (simp_all add: host_run_def)

section \<open>A device that waits for approval\<close>

definition probing :: "('q, 'a, 'e) control_message \<Rightarrow> bool" where
  "probing m \<longleftrightarrow> (\<exists>n. m = Ping n \<or> m = Pong n)"

definition pushes :: "('q, 'a, 'e) host_event list \<Rightarrow> ('q, 'a, 'e) control_message set" where
  "pushes es = {m. Pushed m \<in> set es}"

definition file_after :: "('q, 'a, 'e) host_event list \<Rightarrow> config \<Rightarrow> config" where
  "file_after es doc = foldl (\<lambda>d e. case e of File_Written d' \<Rightarrow> d' | _ \<Rightarrow> d) doc es"

lemma file_after_simps [simp]:
  "file_after [] doc = doc" "file_after (File_Written d # es) doc = file_after es d"
  "(\<And>d. e \<noteq> File_Written d) \<Longrightarrow> file_after (e # es) doc = file_after es doc"
  by (auto simp: file_after_def split: host_event.split)

lemma ping_pong_answers:
  "handle_ping_pong now ip m p r = Some (answers, p', r') \<Longrightarrow> list_all probing answers"
  by (cases m) (auto simp: probing_def split: prod.splits option.splits)

lemma handle_other:
  "\<not> is_request m \<Longrightarrow> handle_ping_pong now ip m p r = None \<Longrightarrow> host_handle he iv memo rs h ip m = ([], hr_doc rs, h)"
  by (cases m) (auto split: prod.splits option.splits)

lemma isolated_read:
  assumes "hc_isolated (hs_conn s)"
  shows "\<exists>answers p r. list_all probing answers \<and> host_read he iv memo rs now ip line s =
    s\<lparr>hs_rtt := r, hs_conn := (hs_conn s)\<lparr>hc_ping := p, hc_queue := hc_queue (hs_conn s) @ answers\<rparr>\<rparr>"
proof (cases line)
  case None
  then show ?thesis by (intro exI [of _ "[]"] exI [of _ "hc_ping (hs_conn s)"] exI [of _ "hs_rtt s"]) (simp add: host_read_def)
next
  case (Some m)
  show ?thesis
  proof (cases "handle_ping_pong now ip m (hc_ping (hs_conn s)) (hs_rtt s)")
    case None
    then have "host_read he iv memo rs now ip line s = s" using assms Some handle_other [of m]
      by (cases "is_request m") (simp_all add: host_read_def Let_def)
    then show ?thesis by (intro exI [of _ "[]"] exI [of _ "hc_ping (hs_conn s)"] exI [of _ "hs_rtt s"]) simp
  next
    case (Some y)
    then obtain answers p r where y: "y = (answers, p, r)" by (cases y)
    from ping_pong_answers [OF Some [unfolded y]] \<open>line = Some m\<close> Some y show ?thesis
      by (intro exI [of _ answers] exI [of _ p] exI [of _ r]) (simp add: host_read_def Let_def)
  qed
qed

text \<open>What holds of an isolated connection, with the messages others may have pushed.\<close>

definition quarantined :: "('q, 'a, 'e) control_message set \<Rightarrow> ('q, 'a, 'e) host_conn \<Rightarrow> bool" where
  "quarantined M c \<longleftrightarrow> hc_isolated c \<and> (\<forall>m \<in> set (hc_written c) \<union> set (hc_queue c). probing m \<or> m \<in> M)"

lemma quarantined_step:
  assumes "quarantined M (hs_conn s)" and "\<And>d. e = Ledger_Changed d \<Longrightarrow> awaits_approval d ip"
  shows "quarantined (M \<union> pushes [e]) (hs_conn (host_step he iv memo ip e s))"
    and "hs_health (host_step he iv memo ip e s) = hs_health s"
    and "hs_file (host_step he iv memo ip e s) = file_after [e] (hs_file s)"
proof -
  let ?s = "host_step he iv memo ip e s"
  have "quarantined (M \<union> pushes [e]) (hs_conn ?s) \<and> hs_health ?s = hs_health s \<and> hs_file ?s = file_after [e] (hs_file s)"
  proof (cases e)
    case (Line_Read rs now line)
    have i: "hc_isolated (hs_conn s)" using assms(1) by (simp add: quarantined_def)
    obtain answers p r where "list_all probing answers" and "host_read he iv memo rs now ip line s =
      s\<lparr>hs_rtt := r, hs_conn := (hs_conn s)\<lparr>hc_ping := p, hc_queue := hc_queue (hs_conn s) @ answers\<rparr>\<rparr>"
      using isolated_read [OF i] by blast
    with assms(1) Line_Read show ?thesis by (auto simp: quarantined_def pushes_def list_all_iff)
  next
    case (Ledger_Changed d)
    with assms show ?thesis by (auto simp: quarantined_def pushes_def host_ledger_def)
  next
    case Queue_Step
    with assms show ?thesis by (auto simp: quarantined_def pushes_def host_dequeue_def split: list.splits)
  next
    case (Ping_Due now)
    with assms show ?thesis by (auto simp: quarantined_def pushes_def host_ping_def ping_issue_def Let_def probing_def)
  qed (use assms in \<open>auto simp: quarantined_def pushes_def\<close>)
  then show "quarantined (M \<union> pushes [e]) (hs_conn ?s)" and "hs_health ?s = hs_health s"
    and "hs_file ?s = file_after [e] (hs_file s)" by blast+
qed

lemma quarantined_run:
  assumes "quarantined M (hs_conn s)" and "\<And>d. Ledger_Changed d \<in> set es \<Longrightarrow> awaits_approval d ip"
  shows "quarantined (M \<union> pushes es) (hs_conn (host_run he iv memo ip es s))
    \<and> hs_health (host_run he iv memo ip es s) = hs_health s
    \<and> hs_file (host_run he iv memo ip es s) = file_after es (hs_file s)"
  using assms
proof (induction es arbitrary: s M)
  case (Cons e es)
  note st = quarantined_step [OF Cons.prems(1), of e ip he iv memo]
  have a: "awaits_approval d ip" if "e = Ledger_Changed d" for d using Cons.prems(2) that by simp
  from Cons.IH [OF st(1) [OF a]] Cons.prems(2) have "quarantined (M \<union> pushes [e] \<union> pushes es) (hs_conn (host_run he iv memo ip (e # es) s))
    \<and> hs_health (host_run he iv memo ip (e # es) s) = hs_health s
    \<and> hs_file (host_run he iv memo ip (e # es) s) = file_after es (file_after [e] (hs_file s))"
    using st(2,3) [OF a] by simp
  moreover have "M \<union> pushes [e] \<union> pushes es = M \<union> pushes (e # es)" by (auto simp: pushes_def)
  moreover have "file_after es (file_after [e] doc) = file_after (e # es) doc" for doc by (cases e) simp_all
  ultimately show ?case by simp
qed (simp add: pushes_def)

text \<open>A session starts isolated exactly as the file says after the join was recorded.\<close>

lemma hello_isolation:
  assumes "host_hello he rs i snapshot ip line = (Session info c, doc)" and "hr_again rs doc = doc"
  shows "\<exists>p \<in> set (cfg_peers doc). Config_Store.first_ip p = Some ip \<and> c = connection_start (invite_is_isolated p) ip snapshot"
proof -
  from assms(1) obtain dev b where a: "accept_invite he rs ip dev = (Inr b, doc)" and c: "c = connection_start b ip snapshot"
    by (auto simp: host_hello_def split: option.splits control_message.splits prod.splits sum.splits)
  from a assms(2) obtain q where q: "find (\<lambda>p. Config_Store.first_ip p = Some ip)
      (cfg_peers (resolve_paths (env_resolve (he_ops he)) doc)) = Some q" and b: "b = invite_is_isolated q"
    by (auto simp: accept_invite_def split: sum.splits option.splits)
  from find_Some_set [OF q] obtain p where "p \<in> set (cfg_peers doc)" "q = resolved_peer (env_resolve (he_ops he)) p"
    and "Config_Store.first_ip p = Some ip" by (auto simp: Config_Store.first_ip_def)
  with b c show ?thesis by (auto simp: invite_is_isolated_def)
qed

text \<open>
  C15: a device that waits for approval gets nothing and changes nothing. From its first message on, and as long as every
  ledger that reaches its connection says that it waits, whatever it sends and in whatever order the tasks run: all that is
  written to it are pings, their answers and what other tasks pushed into its queue; the file is what others wrote, and the
  monitor of the health checks is left alone.
\<close>

theorem unapproved_device_gets_nothing:
  assumes "host_hello he rs i snapshot ip line = (Session info c, doc)" and "hr_again rs doc = doc"
    and "\<And>p. p \<in> set (cfg_peers doc) \<Longrightarrow> Config_Store.first_ip p = Some ip \<Longrightarrow> invite_is_isolated p"
    and "\<And>d. Ledger_Changed d \<in> set es \<Longrightarrow> awaits_approval d ip"
  shows "\<forall>s. s = host_run he iv memo ip es \<lparr>hs_file = doc, hs_health = h, hs_rtt = r, hs_conn = c\<rparr> \<longrightarrow>
    (\<forall>m \<in> set (hc_written (hs_conn s)). (\<exists>n. m = Ping n \<or> m = Pong n) \<or> Pushed m \<in> set es)
    \<and> hs_file s = file_after es doc \<and> hs_health s = h"
proof -
  from hello_isolation [OF assms(1,2)] assms(3) have "c = connection_start True ip snapshot" by auto
  then have "quarantined {} (hs_conn \<lparr>hs_file = doc, hs_health = h, hs_rtt = r, hs_conn = c\<rparr>)"
    by (simp add: quarantined_def connection_start_def)
  from quarantined_run [OF this, of es ip he iv memo] assms(4) show ?thesis
    by (auto simp: quarantined_def pushes_def probing_def)
qed

section \<open>Findings\<close>

text \<open>
  The memo service pushes its events to every connection that announced the capability; the writer passes the
  queue on without a look at the isolation. A device that waits for approval therefore gets the events of the
  shared schedules and sheets.
\<close>

lemma isolated_device_gets_memo_events:
  assumes "''shared_memo'' \<in> set (ci_capabilities info)" and "hc_isolated c" and "hc_queue c = []"
  shows "(ci_connection_id info, Memo_Event e) \<in> set (broadcast_event e (snd (register_connection ip info m)))"
    and "hc_written (host_dequeue (c\<lparr>hc_queue := [Memo_Event e]\<rparr>)) = hc_written c @ [Memo_Event e]"
proof -
  have "(ip, info) \<in> set (hm_insert ip info m)"
    using hm.get_insert [of ip info m ip] by (auto intro: hm_get_mem)
  with assms(1) show "(ci_connection_id info, Memo_Event e) \<in> set (broadcast_event e (snd (register_connection ip info m)))"
    by (force simp: broadcast_event_def memo_connections_def register_connection_def)
  show "hc_written (host_dequeue (c\<lparr>hc_queue := [Memo_Event e]\<rparr>)) = hc_written c @ [Memo_Event e]"
    by (simp add: host_dequeue_def)
qed

text \<open>
  The isolation of a connection follows every ledger. One that was built from a file read before the join was
  recorded does not say that the device waits, so it lifts the isolation and is itself written to the device.
\<close>

lemma ledger_of_earlier_file_lifts_isolation:
  assumes "\<And>p. p \<in> set (cfg_peers cfg) \<Longrightarrow> Ledger.first_ip p = ip \<Longrightarrow> peer_invite_accepted_at p = None"
    and "dist_members d = map (with_connection conns) (build_ledger build cfg host_key stats now)"
  shows "\<not> hc_isolated (host_ledger ip d c)"
    and "Ledger_Update (ledger_message_for d ip) \<in> set (hc_written (host_ledger ip d c))"
proof -
  have w: "le_ip (with_connection conns e) = le_ip e \<and> le_invite_status (with_connection conns e) = le_invite_status e" for e
    by (simp add: with_connection_def split: option.split)
  have s: "status_text (invite_state p n) \<noteq> ''awaiting_approval''" if "peer_invite_accepted_at p = None" for p n
    using that by (auto simp: invite_state_def)
  have "\<not> awaits_approval d ip"
    using assms(1) s by (auto simp: awaits_approval_def assms(2) build_ledger_def host_entry_def member_entry_def Let_def w list_ex_iff)
  then show "\<not> hc_isolated (host_ledger ip d c)"
    and "Ledger_Update (ledger_message_for d ip) \<in> set (hc_written (host_ledger ip d c))"
    by (simp_all add: host_ledger_def)
qed

text \<open>A connection that was replaced does not remove its successor.\<close>

lemma successor_kept:
  assumes "ci_connection_id new \<noteq> i"
  shows "unregister_connection ip i (snd (register_connection ip new m)) = (False, snd (register_connection ip new m))"
  using assms by (simp add: unregister_connection_def register_connection_def hm.get_insert)

section \<open>Witnesses\<close>

abbreviation life_met :: config where
  "life_met \<equiv> life_config [accept_peer 100 ones invited_peer, joined_peer] life_acl"

lemma met_valid: "validate cidr_api life_met = None"
  by (simp add: life_eval)

lemma met_accepted: "accept_invite sample_he (one_read life) 0x0A000002 (Some ones) = (Inr True, life_met)"
proof -
  have o: "invite_allows_connection invited_peer 100"
    by (simp add: invite_allows_connection_def invite_state_def invited_peer_def sample_peer_def)
  have n: "he_now sample_he = 100" by (simp add: sample_he_def)
  have "mark_invite_accepted_by_ip sample_env life life 0x0A000002 100 (Some ones) = Inr (True, life_met)"
    by (simp add: mark_invite_accepted_by_ip_def ops_run life_valid met_valid o toml_int_ok_def)
  moreover have "invite_is_isolated (accept_peer 100 ones invited_peer)"
    by (simp add: invite_is_isolated_def invited_peer_def sample_peer_def)
  ultimately show ?thesis by (simp add: accept_invite_def n sample_load met_valid)
qed

theorem unapproved_device_gets_nothing_witness:
  "\<forall>d r. \<exists>info c. host_hello sample_he (one_read life) 0 d 0x0A000002
      (Some (Hello 1 None None [] (Some ones) None) :: (unit, unit, unit) control_message option) = (Session info c, life_met)
    \<and> hc_written (hs_conn (host_run sample_he demo_iv (\<lambda>_ _. ()) 0x0A000002
          [Line_Read (one_read life) 0 (Some (Create_Invite None None)), Ping_Due 3, Queue_Step]
          \<lparr>hs_file = life_met, hs_health = None, hs_rtt = r, hs_conn = c\<rparr>)) = [Ping 1]
    \<and> hs_file (host_run sample_he demo_iv (\<lambda>_ _. ()) 0x0A000002
          [Line_Read (one_read life) 0 (Some (Create_Invite None None)), Ping_Due 3, Queue_Step]
          \<lparr>hs_file = life_met, hs_health = None, hs_rtt = r, hs_conn = c\<rparr>) = life_met"
proof (intro allI, goal_cases)
  case (1 d r)
  let ?es = "[Line_Read (one_read life) 0 (Some (Create_Invite None None)), Ping_Due 3, Queue_Step]
    :: (unit, unit, unit) host_event list"
  let ?info = "\<lparr>ci_connection_id = 0, ci_app_version = None, ci_capabilities = [], ci_platform = None\<rparr>"
  let ?c = "connection_start True 0x0A000002 d :: (unit, unit, unit) host_conn"
  have h: "host_hello sample_he (one_read life) 0 d 0x0A000002
      (Some (Hello 1 None None [] (Some ones) None) :: (unit, unit, unit) control_message option) = (Session ?info ?c, life_met)"
    by (simp add: host_hello_def met_accepted)
  have a: "hr_again (one_read life) life_met = life_met" by simp
  have i: "invite_is_isolated p" if "p \<in> set (cfg_peers life_met)" "Config_Store.first_ip p = Some 0x0A000002" for p
    using that by (auto simp: invite_is_isolated_def invited_peer_def sample_peer_def)
  have l: "awaits_approval d' 0x0A000002" if "Ledger_Changed d' \<in> set ?es" for d' using that by simp
  have "hs_file (host_run sample_he demo_iv (\<lambda>_ _. ()) 0x0A000002 ?es
      \<lparr>hs_file = life_met, hs_health = None, hs_rtt = r, hs_conn = ?c\<rparr>) = file_after ?es life_met"
    using unapproved_device_gets_nothing [OF h a i l, where iv = demo_iv and memo = "\<lambda>_ _. ()" and h = None and r = r] by blast
  moreover have "hc_written (hs_conn (host_run sample_he demo_iv (\<lambda>_ _. ()) 0x0A000002 ?es
      \<lparr>hs_file = life_met, hs_health = None, hs_rtt = r, hs_conn = ?c\<rparr>)) = [Ping 1]"
    by (simp add: host_read_def host_ping_def host_dequeue_def connection_start_def ping_issue_def ping_new_def Let_def)
  ultimately show ?case using h by (intro exI [of _ ?info] exI [of _ ?c]) simp
qed

end
