(* ===== verification/Rotation.thy ===== *)
theory Rotation
  imports Host_Session "HOL-Library.Sublist"
begin

text \<open>
  The rotation of a member's key, \<^verbatim>\<open>crates/peercove-cli/src/rotate.rs\<close> and
  \<^verbatim>\<open>crates/peercove-ops/src/keyfiles.rs\<close>: the key file, the file of the key that waits for the host, and the
  state machine of the supervisor. Outcomes of file operations and the generated key are inputs; log lines, and the flag
  that chooses their level, are left out. A file that cannot be read is \<open>None\<close>.
\<close>

section \<open>Key files\<close>

type_synonym private_key = bytes

record key_files =
  kf_current :: "private_key option"
  kf_pending :: "private_key option"
  kf_self :: bool

text \<open>A write that fails may have destroyed the file.\<close>

datatype write_outcome = Written | Untouched | Damaged

record file_io =
  io_key_write :: write_outcome
  io_pending_write :: write_outcome
  io_removed :: bool
  io_marked :: bool
  io_generated :: private_key

definition load_pending :: "key_files \<Rightarrow> private_key option" where
  "load_pending f = kf_pending f"

definition ensure_pending :: "file_io \<Rightarrow> key_files \<Rightarrow> private_key option \<times> key_files" where
  "ensure_pending io f =
     (case load_pending f of
        Some k \<Rightarrow> (Some k, f)
      | None \<Rightarrow>
          if io_pending_write io = Written then (Some (io_generated io), f\<lparr>kf_pending := Some (io_generated io)\<rparr>)
          else (None, f))"

definition discard_pending :: "file_io \<Rightarrow> key_files \<Rightarrow> key_files" where
  "discard_pending io f = (if io_removed io then f\<lparr>kf_pending := None\<rparr> else f)"

definition commit_pending :: "file_io \<Rightarrow> key_files \<Rightarrow> bool \<times> key_files" where
  "commit_pending io f =
     (case load_pending f of
        None \<Rightarrow> (False, f)
      | Some k \<Rightarrow>
          (case io_key_write io of
             Written \<Rightarrow> (True, (discard_pending io (f\<lparr>kf_current := Some k\<rparr>))\<lparr>kf_self := kf_self f \<or> io_marked io\<rparr>)
           | Untouched \<Rightarrow> (False, f)
           | Damaged \<Rightarrow> (False, f\<lparr>kf_current := None\<rparr>)))"

section \<open>The state machine\<close>

definition DEAD_LINK_TIMEOUT :: duration where "DEAD_LINK_TIMEOUT = secs 45"

record rotation =
  ro_on_pending :: bool
  ro_attempted_session :: "nat option"
  ro_last_rx :: "instant \<times> nat"

definition rotation_new :: "(private_key \<Rightarrow> public_key) \<Rightarrow> key_files \<Rightarrow> private_key \<Rightarrow> instant \<Rightarrow> rotation" where
  "rotation_new pub f current now =
     \<lparr>ro_on_pending = (case load_pending f of Some k \<Rightarrow> pub k = pub current | None \<Rightarrow> False),
      ro_attempted_session = None, ro_last_rx = (now, 0)\<rparr>"

definition received_bytes :: "public_key \<Rightarrow> peer_stats list \<Rightarrow> nat" where
  "received_bytes host_key stats = (case find (\<lambda>s. ps_public_key s = host_key) stats of Some s \<Rightarrow> ps_rx_bytes s | None \<Rightarrow> 0)"

definition note_received :: "instant \<Rightarrow> nat \<Rightarrow> rotation \<Rightarrow> rotation" where
  "note_received now rx ro = (if rx \<noteq> snd (ro_last_rx ro) then ro\<lparr>ro_last_rx := (now, rx)\<rparr> else ro)"

definition link_dead :: "instant \<Rightarrow> rotation \<Rightarrow> bool" where
  "link_dead now ro \<longleftrightarrow> DEAD_LINK_TIMEOUT \<le> now - fst (ro_last_rx ro)"

text \<open>
  What a tick works on. The result of a tick is the request to restart the tunnel, with the pending key or not.
\<close>

record ('q, 'a, 'e) rotation_state =
  rs_rotation :: rotation
  rs_manual :: bool
  rs_link :: "('q, 'a, 'e) member_link"
  rs_files :: key_files

definition answer_tick :: "file_io \<Rightarrow> bool \<Rightarrow> ('q, 'a, 'e) rotation_state \<Rightarrow> bool option \<times> ('q, 'a, 'e) rotation_state" where
  "answer_tick io ok s =
     (if ok then
        (case commit_pending io (rs_files s) of
           (True, f) \<Rightarrow> (Some False, s\<lparr>rs_files := f, rs_manual := False\<rparr>)
         | (False, f) \<Rightarrow> (None, s\<lparr>rs_files := f\<rparr>))
      else (None, s\<lparr>rs_files := discard_pending io (rs_files s), rs_manual := False\<rparr>))"

definition trial_tick :: "file_io \<Rightarrow> instant \<Rightarrow> nat \<Rightarrow> ('q, 'a, 'e) rotation_state
    \<Rightarrow> bool option \<times> ('q, 'a, 'e) rotation_state" where
  "trial_tick io now rx s =
     (if 0 < rx then
        (case commit_pending io (rs_files s) of
           (True, f) \<Rightarrow> (None, s\<lparr>rs_files := f, rs_rotation := (rs_rotation s)\<lparr>ro_on_pending := False\<rparr>\<rparr>)
         | (False, f) \<Rightarrow> (None, s\<lparr>rs_files := f\<rparr>))
      else if link_dead now (rs_rotation s) then (Some False, s)
      else (None, s))"

definition request_tick :: "(private_key \<Rightarrow> public_key) \<Rightarrow> file_io \<Rightarrow> config \<Rightarrow> ('q, 'a, 'e) rotation_state
    \<Rightarrow> ('q, 'a, 'e) rotation_state" where
  "request_tick pub io cfg s =
     (if \<not> (if_key_source (cfg_interface cfg) \<noteq> Some Self_Generated \<or> rs_manual s) then s
      else case link_session (rs_link s) of
        None \<Rightarrow> s
      | Some session \<Rightarrow>
          if ro_attempted_session (rs_rotation s) = Some session then s
          else (case ensure_pending io (rs_files s) of
                  (None, f) \<Rightarrow> s\<lparr>rs_files := f\<rparr>
                | (Some k, f) \<Rightarrow>
                    (case link_send (Rotate_Key (pub k)) (rs_link s) of
                       None \<Rightarrow> s\<lparr>rs_files := f\<rparr>
                     | Some l \<Rightarrow> s\<lparr>rs_files := f, rs_link := l,
                         rs_rotation := (rs_rotation s)\<lparr>ro_attempted_session := Some session\<rparr>\<rparr>)))"

definition rotation_tick :: "(private_key \<Rightarrow> public_key) \<Rightarrow> file_io \<Rightarrow> instant \<Rightarrow> config \<Rightarrow> peer_stats list
    \<Rightarrow> ('q, 'a, 'e) rotation_state \<Rightarrow> bool option \<times> ('q, 'a, 'e) rotation_state" where
  "rotation_tick pub io now cfg stats s =
     (case cfg_peers cfg of
        [] \<Rightarrow> (None, s)
      | host # _ \<Rightarrow>
          (let rx = received_bytes (peer_public_key host) stats;
               s = s\<lparr>rs_rotation := note_received now rx (rs_rotation s)\<rparr>;
               (answer, link) = take_rotate_result (rs_link s);
               s = s\<lparr>rs_link := link\<rparr>
           in case answer of
                Some (ok, _) \<Rightarrow> answer_tick io ok s
              | None \<Rightarrow>
                  if ro_on_pending (rs_rotation s) then trial_tick io now rx s
                  else if link_dead now (rs_rotation s) \<and> load_pending (rs_files s) \<noteq> None then (Some True, s)
                  else (None, request_tick pub io cfg s)))"

section \<open>The member and the host together\<close>

text \<open>
  The key the tunnel runs with, the bytes it received from the host, the requests on their way (with a mark for
  those of the present connection, whose answer can still arrive), the key of the member in \<^verbatim>\<open>host.toml\<close>, and
  the one in the tunnel of the host, which follows it.
\<close>

record ('q, 'a, 'e) rotation_world =
  rw_state :: "('q, 'a, 'e) rotation_state"
  rw_running :: private_key
  rw_received :: nat
  rw_wire :: "(bool \<times> public_key) list"
  rw_host :: public_key
  rw_tunnel :: public_key

definition rotate_key_of :: "('q, 'a, 'e) control_message \<Rightarrow> public_key option" where
  "rotate_key_of m = (case m of Rotate_Key k \<Rightarrow> Some k | _ \<Rightarrow> None)"

definition queued :: "('q, 'a, 'e) member_link \<Rightarrow> public_key list" where
  "queued l = (case ml_outbox l of None \<Rightarrow> [] | Some ob \<Rightarrow> List.map_filter rotate_key_of (ob_queue ob))"

definition hung_up :: "(bool \<times> public_key) list \<Rightarrow> (bool \<times> public_key) list" where
  "hung_up w = map (\<lambda>(_, k). (False, k)) w"

definition with_link :: "('q, 'a, 'e) member_link \<Rightarrow> ('q, 'a, 'e) rotation_world \<Rightarrow> ('q, 'a, 'e) rotation_world" where
  "with_link l w = w\<lparr>rw_state := (rw_state w)\<lparr>rs_link := l\<rparr>\<rparr>"

text \<open>A tunnel that is started anew: the connection ends, a restarted daemon (\<open>fresh_link\<close>) has a new link.\<close>

definition restarted :: "(private_key \<Rightarrow> public_key) \<Rightarrow> instant \<Rightarrow> bool \<Rightarrow> private_key \<Rightarrow> ('q, 'a, 'e) rotation_world
    \<Rightarrow> ('q, 'a, 'e) rotation_world" where
  "restarted pub now fresh_link k w =
     w\<lparr>rw_state := (rw_state w)\<lparr>rs_link := (if fresh_link then link_new else link_detach (rs_link (rw_state w))),
         rs_rotation := rotation_new pub (rs_files (rw_state w)) k now\<rparr>,
       rw_running := k, rw_received := 0, rw_wire := hung_up (rw_wire w)\<rparr>"

text \<open>
  The steps. The host answers a request as \<open>rotate_peer_key\<close> does, when it refuses some keys (\<open>refused\<close>, those of
  others) for good. The requests of a connection are answered in order and before those of a later one, or not at
  all. A key that is generated is not the one the tunnel of the host has.
\<close>

inductive rot_step :: "(private_key \<Rightarrow> public_key) \<Rightarrow> (public_key \<Rightarrow> bool) \<Rightarrow> ('q, 'a, 'e) rotation_world
    \<Rightarrow> ('q, 'a, 'e) rotation_world \<Rightarrow> bool" for pub refused where
  tick: "rotation_tick pub io now cfg stats (rw_state w) = (None, s) \<Longrightarrow>
    (\<And>host ps. cfg_peers cfg = host # ps \<Longrightarrow> received_bytes (peer_public_key host) stats = rw_received w) \<Longrightarrow>
    pub (io_generated io) \<noteq> rw_tunnel w \<Longrightarrow> rot_step pub refused w (w\<lparr>rw_state := s\<rparr>)"
| tick_restart: "rotation_tick pub io now cfg stats (rw_state w) = (Some use_pending, s) \<Longrightarrow>
    (\<And>host ps. cfg_peers cfg = host # ps \<Longrightarrow> received_bytes (peer_public_key host) stats = rw_received w) \<Longrightarrow>
    pub (io_generated io) \<noteq> rw_tunnel w \<Longrightarrow>
    (if use_pending then kf_pending (rs_files s) else kf_current (rs_files s)) = Some k \<Longrightarrow>
    rot_step pub refused w (restarted pub now' False k (w\<lparr>rw_state := s\<rparr>))"
| restart: "kf_current (rs_files (rw_state w)) = Some k \<Longrightarrow> rot_step pub refused w (restarted pub now fresh_link k w)"
| connect: "queued (link_attach ob l) = [] \<Longrightarrow> l = rs_link (rw_state w) \<Longrightarrow>
    rot_step pub refused w ((with_link (link_attach ob l) w)\<lparr>rw_wire := hung_up (rw_wire w)\<rparr>)"
| disconnect: "rot_step pub refused w ((with_link (link_detach (rs_link (rw_state w))) w)\<lparr>rw_wire := hung_up (rw_wire w)\<rparr>)"
| close: "ml_outbox (rs_link (rw_state w)) = Some ob \<Longrightarrow>
    rot_step pub refused w (with_link ((rs_link (rw_state w))\<lparr>ml_outbox := Some (ob\<lparr>ob_open := False\<rparr>)\<rparr>) w)"
| send_other: "rotate_key_of m = None \<Longrightarrow> link_send m (rs_link (rw_state w)) = Some l \<Longrightarrow> rot_step pub refused w (with_link l w)"
| sent: "ml_outbox (rs_link (rw_state w)) = Some ob \<Longrightarrow> ob_queue ob = m # ms \<Longrightarrow>
    rot_step pub refused w ((with_link ((rs_link (rw_state w))\<lparr>ml_outbox := Some (ob\<lparr>ob_queue := ms\<rparr>)\<rparr>) w)
      \<lparr>rw_wire := rw_wire w @ (case rotate_key_of m of Some k \<Rightarrow> [(True, k)] | None \<Rightarrow> [])\<rparr>)"
| lost: "rot_step pub refused w (w\<lparr>rw_wire := filter P (rw_wire w)\<rparr>)"
| handled: "rw_wire w = (live, k) # rest \<Longrightarrow> ok \<longleftrightarrow> k = rw_host w \<or> \<not> refused k \<Longrightarrow>
    l = (if live \<and> delivered then put_rotate_result ok n (rs_link (rw_state w)) else rs_link (rw_state w)) \<Longrightarrow>
    rot_step pub refused w ((with_link l w)\<lparr>rw_wire := rest, rw_host := (if ok then k else rw_host w)\<rparr>)"
| reload: "rot_step pub refused w (w\<lparr>rw_tunnel := rw_host w\<rparr>)"
| receive: "rw_tunnel w = pub (rw_running w) \<Longrightarrow> rot_step pub refused w (w\<lparr>rw_received := n\<rparr>)"
| manual: "rot_step pub refused w (w\<lparr>rw_state := (rw_state w)\<lparr>rs_manual := True\<rparr>\<rparr>)"

text \<open>A member that joined: one key, registered with the host, and no connection yet.\<close>

definition rotation_start :: "(private_key \<Rightarrow> public_key) \<Rightarrow> instant \<Rightarrow> private_key \<Rightarrow> bool \<Rightarrow> ('q, 'a, 'e) rotation_world" where
  "rotation_start pub now k self =
     (let f = \<lparr>kf_current = Some k, kf_pending = None, kf_self = self\<rparr>
      in \<lparr>rw_state = \<lparr>rs_rotation = rotation_new pub f k now, rs_manual = False, rs_link = link_new, rs_files = f\<rparr>,
          rw_running = k, rw_received = 0, rw_wire = [], rw_host = pub k, rw_tunnel = pub k\<rparr>)"

section \<open>The order of the keys\<close>

text \<open>First the committed key, then the pending one, and never back.\<close>

fun chain :: "'k \<Rightarrow> 'k \<Rightarrow> 'k list \<Rightarrow> bool" where
  "chain c p [] = True"
| "chain c p (k # ks) \<longleftrightarrow> k = p \<and> set ks \<subseteq> {p} \<or> k = c \<and> chain c p ks"

lemma chain_all: "chain c p (p # ks) \<Longrightarrow> c \<noteq> p \<Longrightarrow> set ks \<subseteq> {p}"
  by auto

lemma chain_same [simp]: "chain c c ks \<longleftrightarrow> set ks \<subseteq> {c}"
  by (induction ks) auto

lemma chain_only: "set ks \<subseteq> {c} \<Longrightarrow> chain c p ks" "set ks \<subseteq> {p} \<Longrightarrow> chain c p ks"
  by (induction ks) auto

lemma chain_append: "chain c p ks \<Longrightarrow> chain c p (ks @ [p])"
  by (induction ks) auto

lemma chain_set: "chain c p ks \<Longrightarrow> set ks \<subseteq> {c, p}"
  by (induction ks) auto

lemma chain_filter: "chain c p ks \<Longrightarrow> chain c p (filter P ks)"
  by (induction ks) (auto simp: subset_iff intro: chain_only(2))

lemma chain_prefix: "chain c p (ks @ ls) \<Longrightarrow> chain c p ks"
  by (induction ks) auto

lemma chain_subseq_set: "subseq ls ks \<Longrightarrow> set ls \<subseteq> set ks \<and> (chain c p ks \<longrightarrow> chain c p ls)"
proof (induction rule: list_emb.induct)
  case (list_emb_Cons xs ys y)
  have "chain c p xs" if "set ys \<subseteq> {p}" using chain_only(2) [of xs p c] list_emb_Cons.IH that by blast
  with list_emb_Cons.IH show ?case by auto
next
  case (list_emb_Cons2 x y xs ys)
  then show ?case by auto
qed simp

lemma chain_subseq: "subseq ls ks \<Longrightarrow> chain c p ks \<Longrightarrow> chain c p ls"
  by (simp add: chain_subseq_set)

lemma chain_tail: "chain c p (h # k # ks) \<Longrightarrow> chain c p (k # ks)"
  by auto

lemma chain_head_p: "chain c p (p # ks) \<Longrightarrow> set ks \<subseteq> {p} \<or> c = p"
  by auto

section \<open>The invariant\<close>

abbreviation rw_files :: "('q, 'a, 'e) rotation_world \<Rightarrow> key_files" where "rw_files w \<equiv> rs_files (rw_state w)"
abbreviation rw_link :: "('q, 'a, 'e) rotation_world \<Rightarrow> ('q, 'a, 'e) member_link" where "rw_link w \<equiv> rs_link (rw_state w)"
abbreviation rw_rotation :: "('q, 'a, 'e) rotation_world \<Rightarrow> rotation" where "rw_rotation w \<equiv> rs_rotation (rw_state w)"

definition live_requests :: "('q, 'a, 'e) rotation_world \<Rightarrow> public_key list" where
  "live_requests w = queued (rw_link w) @ map snd (filter fst (rw_wire w))"

definition acceptable :: "(public_key \<Rightarrow> bool) \<Rightarrow> ('q, 'a, 'e) rotation_world \<Rightarrow> public_key list" where
  "acceptable refused w = filter (\<lambda>k. \<not> refused k) (map snd (rw_wire w) @ queued (rw_link w))"

text \<open>The keys of the files, committed and pending, bound what the host has and what it may still be told.\<close>

definition keys_bound :: "(private_key \<Rightarrow> public_key) \<Rightarrow> key_files \<Rightarrow> public_key \<Rightarrow> public_key \<Rightarrow> bool" where
  "keys_bound pub f c p \<longleftrightarrow>
     (\<forall>k. kf_current f = Some k \<longrightarrow> c = pub k) \<and> (\<forall>k. kf_pending f = Some k \<longrightarrow> p = pub k)
     \<and> (kf_pending f = None \<longrightarrow> p = c \<and> kf_current f \<noteq> None) \<and> (kf_current f = None \<longrightarrow> c = p)"

definition keys_safe :: "(private_key \<Rightarrow> public_key) \<Rightarrow> (public_key \<Rightarrow> bool) \<Rightarrow> ('q, 'a, 'e) rotation_world \<Rightarrow> bool" where
  "keys_safe pub refused w \<longleftrightarrow>
     (\<exists>c p. keys_bound pub (rw_files w) c p \<and> chain c p (rw_host w # acceptable refused w))"

definition result_safe :: "(private_key \<Rightarrow> public_key) \<Rightarrow> (public_key \<Rightarrow> bool) \<Rightarrow> ('q, 'a, 'e) rotation_world \<Rightarrow> bool" where
  "result_safe pub refused w \<longleftrightarrow> (\<forall>ok n. ml_rotate_result (rw_link w) = Some (ok, n) \<longrightarrow>
     live_requests w = [] \<and> (\<forall>k. kf_pending (rw_files w) = Some k \<longrightarrow>
       (if ok then rw_host w = pub k else refused (pub k) \<and> rw_host w \<noteq> pub k)))"

definition requests_safe :: "(private_key \<Rightarrow> public_key) \<Rightarrow> ('q, 'a, 'e) rotation_world \<Rightarrow> bool" where
  "requests_safe pub w \<longleftrightarrow> length (live_requests w) \<le> 1
     \<and> (\<forall>r \<in> set (live_requests w). \<exists>k. kf_pending (rw_files w) = Some k \<and> r = pub k)
     \<and> (live_requests w \<noteq> [] \<longrightarrow> ro_attempted_session (rw_rotation w) = Some (ml_session (rw_link w))
          \<and> \<not> ro_on_pending (rw_rotation w))"

definition trial_safe :: "(private_key \<Rightarrow> public_key) \<Rightarrow> ('q, 'a, 'e) rotation_world \<Rightarrow> bool" where
  "trial_safe pub w \<longleftrightarrow> (\<forall>k. kf_pending (rw_files w) = Some k \<longrightarrow>
     (rw_tunnel w = pub k \<longrightarrow> rw_host w = pub k)
     \<and> (ro_on_pending (rw_rotation w) \<longrightarrow> pub k = pub (rw_running w) \<and> (0 < rw_received w \<longrightarrow> rw_host w = pub k)))"

definition rot_safe :: "(private_key \<Rightarrow> public_key) \<Rightarrow> (public_key \<Rightarrow> bool) \<Rightarrow> ('q, 'a, 'e) rotation_world \<Rightarrow> bool" where
  "rot_safe pub refused w \<longleftrightarrow> keys_safe pub refused w \<and> result_safe pub refused w \<and> requests_safe pub w \<and> trial_safe pub w"

lemmas safe_defs = keys_safe_def result_safe_def requests_safe_def trial_safe_def

lemma queued_simps [simp]:
  "queued link_new = []" "queued (link_detach l) = []" "queued (l\<lparr>ml_rotate_result := r\<rparr>) = queued l"
  "queued (put_rotate_result ok n l) = queued l"
  by (simp_all add: queued_def link_new_def link_detach_def put_rotate_result_def)

lemma link_result_simps [simp]:
  "ml_rotate_result link_new = None" "ml_rotate_result (link_detach l) = ml_rotate_result l"
  "ml_rotate_result (link_attach ob l) = None"
  by (simp_all add: link_new_def link_detach_def link_attach_def drop_waiting_def)

lemma hung_up_simps [simp]: "map snd (hung_up w) = map snd w" "filter fst (hung_up w) = []"
  by (induction w) (auto simp: hung_up_def)

lemma rotation_new_fields [simp]:
  "ro_attempted_session (rotation_new pub f k now) = None"
  "ro_on_pending (rotation_new pub f k now) \<longleftrightarrow> (\<exists>p. kf_pending f = Some p \<and> pub p = pub k)"
  by (simp_all add: rotation_new_def load_pending_def split: option.split)

lemma keys_safe_mono:
  assumes "keys_safe pub refused w" and "rw_files w' = rw_files w"
    and "\<And>c p. chain c p (rw_host w # acceptable refused w) \<Longrightarrow> chain c p (rw_host w' # acceptable refused w')"
  shows "keys_safe pub refused w'"
proof -
  from assms(1) obtain c p where "keys_bound pub (rw_files w) c p" "chain c p (rw_host w # acceptable refused w)"
    unfolding keys_safe_def by blast
  with assms(3) show ?thesis unfolding keys_safe_def assms(2) by (intro exI [of _ c] exI [of _ p] conjI)
qed

text \<open>Ending the connection leaves less on the way.\<close>

lemma hang_up_safe:
  assumes "rot_safe pub refused w" and "rw_files w' = rw_files w" and "rw_host w' = rw_host w" and "rw_tunnel w' = rw_tunnel w"
    and "rw_wire w' = hung_up (rw_wire w)" and "queued (rw_link w') = []"
    and "ml_rotate_result (rw_link w') = None \<or> ml_rotate_result (rw_link w') = ml_rotate_result (rw_link w)"
    and "ro_on_pending (rw_rotation w') \<Longrightarrow> (\<forall>k. kf_pending (rw_files w) = Some k \<longrightarrow> pub k = pub (rw_running w'))
      \<and> (rw_received w' = 0 \<or> ro_on_pending (rw_rotation w) \<and> rw_received w' = rw_received w)"
  shows "rot_safe pub refused w'"
proof -
  have l: "live_requests w' = []" using assms(5,6) by (simp add: live_requests_def)
  have "rw_host w # acceptable refused w = (rw_host w' # acceptable refused w') @ filter (\<lambda>k. \<not> refused k) (queued (rw_link w))"
    using assms(3,5,6) by (simp add: acceptable_def)
  then have "chain c p (rw_host w # acceptable refused w) \<Longrightarrow> chain c p (rw_host w' # acceptable refused w')" for c p
    using chain_prefix by metis
  then have "keys_safe pub refused w'" using keys_safe_mono [OF _ assms(2)] assms(1) by (simp only: rot_safe_def)
  moreover have "result_safe pub refused w'" using assms(1-3,7) l by (auto simp: rot_safe_def result_safe_def)
  moreover have "requests_safe pub w'" using l by (simp add: requests_safe_def)
  moreover have "trial_safe pub w'"
  proof -
    have t: "trial_safe pub w" using assms(1) by (simp add: rot_safe_def)
    show ?thesis unfolding trial_safe_def assms(2-4)
    proof (intro allI impI conjI)
      fix k assume k: "kf_pending (rw_files w) = Some k"
      show "rw_host w = pub k" if "rw_tunnel w = pub k" using t k that by (simp add: trial_safe_def)
      assume p: "ro_on_pending (rw_rotation w')"
      show "pub k = pub (rw_running w')" using assms(8) [OF p] k by blast
      show "rw_host w = pub k" if "0 < rw_received w'" using assms(8) [OF p] k t that by (simp add: trial_safe_def)
    qed
  qed
  ultimately show ?thesis by (simp add: rot_safe_def)
qed

lemma restarted_safe:
  assumes "rot_safe pub refused w" and "kf_current (rw_files w) = Some k \<or> kf_pending (rw_files w) = Some k"
  shows "rot_safe pub refused (restarted pub now fresh_link k w)"
  using assms(1) by (rule hang_up_safe)
    (auto simp: restarted_def)

section \<open>A tick keeps it\<close>

lemma keys_safe_chain:
  assumes "keys_safe pub refused w" and "kf_pending (rw_files w) = Some k"
  shows "rw_host w = pub k \<Longrightarrow> set (acceptable refused w) \<subseteq> {pub k}"
    and "rw_host w \<noteq> pub k \<Longrightarrow> refused (pub k) \<Longrightarrow>
      \<exists>j. kf_current (rw_files w) = Some j \<and> rw_host w = pub j \<and> set (acceptable refused w) \<subseteq> {pub j}"
proof -
  from assms obtain c where c: "keys_bound pub (rw_files w) c (pub k)" "chain c (pub k) (rw_host w # acceptable refused w)"
    unfolding keys_safe_def keys_bound_def by auto
  show "set (acceptable refused w) \<subseteq> {pub k}" if "rw_host w = pub k" using c(2) that by auto
  assume h: "rw_host w \<noteq> pub k" and r: "refused (pub k)"
  then have "rw_host w = c" using c(2) by auto
  moreover have "set (acceptable refused w) \<subseteq> {c}"
    using chain_set [OF c(2)] r by (auto simp: acceptable_def)
  moreover obtain j where "kf_current (rw_files w) = Some j" "c = pub j"
    using c(1) \<open>rw_host w = c\<close> h by (cases "kf_current (rw_files w)") (auto simp: keys_bound_def)
  ultimately show "\<exists>j. kf_current (rw_files w) = Some j \<and> rw_host w = pub j \<and> set (acceptable refused w) \<subseteq> {pub j}" by blast
qed

lemma keys_safe_one:
  "keys_bound pub (rw_files w) c c \<Longrightarrow> rw_host w = c \<Longrightarrow> set (acceptable refused w) \<subseteq> {c} \<Longrightarrow> keys_safe pub refused w"
  unfolding keys_safe_def by (intro exI [of _ c]) simp

lemma quiet_safe:
  assumes "live_requests w = []" and "ml_rotate_result (rw_link w) = None" and "keys_safe pub refused w" and "trial_safe pub w"
  shows "rot_safe pub refused w"
  using assms by (simp add: rot_safe_def result_safe_def requests_safe_def)

lemma commit_safe:
  assumes "rot_safe pub refused w" and "live_requests w = []" and "ml_rotate_result (rw_link w') = None"
    and "\<And>k. kf_pending (rw_files w) = Some k \<Longrightarrow> rw_host w = pub k"
    and "rw_files w' = snd (commit_pending io (rw_files w))" and "queued (rw_link w') = queued (rw_link w)"
    and "rw_wire w' = rw_wire w" "rw_host w' = rw_host w" "rw_tunnel w' = rw_tunnel w" "rw_running w' = rw_running w"
    and "ro_on_pending (rw_rotation w') \<longrightarrow> ro_on_pending (rw_rotation w)"
  shows "rot_safe pub refused w'"
proof (rule quiet_safe)
  have a: "acceptable refused w' = acceptable refused w" "live_requests w' = live_requests w"
    using assms(6,7) by (simp_all add: acceptable_def live_requests_def)
  then show "live_requests w' = []" using assms(2) by simp
  show "ml_rotate_result (rw_link w') = None" by (rule assms(3))
  have s: "keys_safe pub refused w" "trial_safe pub w" using assms(1) by (simp_all add: rot_safe_def)
  show "keys_safe pub refused w'"
  proof (cases "kf_pending (rw_files w)")
    case None
    then have "rw_files w' = rw_files w" using assms(5) by (simp add: commit_pending_def load_pending_def)
    from keys_safe_mono [OF s(1) this] show ?thesis using a assms(8) by simp
  next
    case (Some k)
    note h = assms(4) [OF Some]
    show ?thesis
    proof (cases "io_key_write io = Untouched")
      case True
      then have "rw_files w' = rw_files w" using assms(5) Some by (simp add: commit_pending_def load_pending_def)
      from keys_safe_mono [OF s(1) this] show ?thesis using a assms(8) by simp
    next
      case False
      then have "keys_bound pub (rw_files w') (pub k) (pub k)"
        using assms(5) Some by (cases "io_key_write io")
          (auto simp: commit_pending_def load_pending_def discard_pending_def keys_bound_def)
      then show ?thesis using keys_safe_chain(1) [OF s(1) Some h] a assms(8) h by (intro keys_safe_one) simp_all
    qed
  qed
  have "kf_pending (rw_files w') = None \<or> kf_pending (rw_files w') = kf_pending (rw_files w)"
    using assms(5) by (auto simp: commit_pending_def load_pending_def discard_pending_def split: option.splits write_outcome.splits)
  then show "trial_safe pub w'" using s(2) assms(4,8-11) unfolding trial_safe_def by auto
qed

lemma discard_safe:
  assumes "rot_safe pub refused w" and "ml_rotate_result (rw_link w) = Some (False, n)" and "ml_rotate_result (rw_link w') = None"
    and "rw_files w' = discard_pending io (rw_files w)" and "queued (rw_link w') = queued (rw_link w)"
    and "rw_wire w' = rw_wire w" "rw_host w' = rw_host w" "rw_tunnel w' = rw_tunnel w" "rw_running w' = rw_running w"
    "rw_received w' = rw_received w" and "ro_on_pending (rw_rotation w') = ro_on_pending (rw_rotation w)"
  shows "rot_safe pub refused w'"
proof (rule quiet_safe)
  have a: "acceptable refused w' = acceptable refused w" "live_requests w' = live_requests w"
    using assms(5,6) by (simp_all add: acceptable_def live_requests_def)
  have s: "keys_safe pub refused w" "trial_safe pub w" "result_safe pub refused w" using assms(1) by (simp_all add: rot_safe_def)
  then show "live_requests w' = []" using a assms(2) by (auto simp: result_safe_def)
  show "ml_rotate_result (rw_link w') = None" by (rule assms(3))
  show "keys_safe pub refused w'"
  proof (cases "kf_pending (rw_files w) = None \<or> \<not> io_removed io")
    case True
    then have "rw_files w' = rw_files w" using assms(4) by (auto simp: discard_pending_def)
    from keys_safe_mono [OF s(1) this] show ?thesis using a assms(7) by simp
  next
    case False
    then obtain k where k: "kf_pending (rw_files w) = Some k" by auto
    have "refused (pub k) \<and> rw_host w \<noteq> pub k" using s(3) assms(2) k unfolding result_safe_def by auto
    then obtain j where "kf_current (rw_files w) = Some j" "rw_host w = pub j" "set (acceptable refused w) \<subseteq> {pub j}"
      using keys_safe_chain(2) [OF s(1) k] by blast
    then show ?thesis using False a assms(4,7)
      by (intro keys_safe_one [of _ _ "pub j"]) (simp_all add: keys_bound_def discard_pending_def)
  qed
  show "trial_safe pub w'" using s(2) assms(4,7-11) by (auto simp: trial_safe_def discard_pending_def)
qed

lemma ensure_safe:
  assumes "rot_safe pub refused w" and "ml_rotate_result (rw_link w) = None" and "\<not> ro_on_pending (rw_rotation w)"
    and "pub (io_generated io) \<noteq> rw_tunnel w"
  shows "rot_safe pub refused (w\<lparr>rw_state := (rw_state w)\<lparr>rs_files := snd (ensure_pending io (rw_files w))\<rparr>\<rparr>)"
proof (cases "kf_pending (rw_files w) = None \<and> io_pending_write io = Written")
  case True
  let ?g = "io_generated io"
  let ?w = "w\<lparr>rw_state := (rw_state w)\<lparr>rs_files := (rw_files w)\<lparr>kf_pending := Some ?g\<rparr>\<rparr>\<rparr>"
  have s: "keys_safe pub refused w" "requests_safe pub w" using assms(1) by (simp_all add: rot_safe_def)
  have n: "kf_pending (rw_files w) = None" using True by blast
  obtain c where c: "keys_bound pub (rw_files w) c c" "chain c c (rw_host w # acceptable refused w)"
    using s(1) n unfolding keys_safe_def by (auto simp: keys_bound_def)
  have "chain c (pub ?g) (rw_host w # acceptable refused w)" using c(2) by (intro chain_only(1)) simp
  moreover have "keys_bound pub (rw_files ?w) c (pub ?g)" using c(1) n by (auto simp: keys_bound_def)
  ultimately have "keys_safe pub refused ?w" unfolding keys_safe_def
    by (intro exI [of _ c] exI [of _ "pub ?g"]) (simp add: acceptable_def)
  moreover have "live_requests ?w = live_requests w" by (simp add: live_requests_def)
  moreover have "live_requests w = []" using s(2) n by (cases "live_requests w") (auto simp: requests_safe_def)
  moreover have "trial_safe pub ?w" using assms(3,4) by (auto simp: trial_safe_def)
  ultimately have "rot_safe pub refused ?w" using assms(2) by (intro quiet_safe) simp_all
  then show ?thesis using True by (simp add: ensure_pending_def load_pending_def)
next
  case False
  then have "snd (ensure_pending io (rw_files w)) = rw_files w"
    by (auto simp: ensure_pending_def load_pending_def split: option.split)
  then show ?thesis using assms(1) by simp
qed

lemma map_filter_append: "List.map_filter f (xs @ ys) = List.map_filter f xs @ List.map_filter f ys"
  by (simp add: List.map_filter_def)

lemma link_send_fields:
  assumes "link_send m l = Some l'"
  shows "queued l' = queued l @ (case rotate_key_of m of Some k \<Rightarrow> [k] | None \<Rightarrow> [])"
    and "ml_rotate_result l' = ml_rotate_result l" and "ml_session l' = ml_session l"
  using assms by (auto simp: link_send_def queued_def map_filter_append List.map_filter_simps split: option.splits if_splits)

lemma ask_safe:
  assumes "rot_safe pub refused w" and "ml_rotate_result (rw_link w) = None" and "\<not> ro_on_pending (rw_rotation w)"
    and "kf_pending (rw_files w) = Some k" and "live_requests w = []" and "link_send (Rotate_Key (pub k)) (rw_link w) = Some l"
  shows "rot_safe pub refused (w\<lparr>rw_state := (rw_state w)\<lparr>rs_link := l,
     rs_rotation := (rw_rotation w)\<lparr>ro_attempted_session := Some (ml_session (rw_link w))\<rparr>\<rparr>\<rparr>)" (is "rot_safe pub refused ?w")
proof -
  note l = link_send_fields [OF assms(6)]
  have q: "queued l = queued (rw_link w) @ [pub k]" using l(1) by (simp add: rotate_key_of_def)
  have s: "keys_safe pub refused w" "trial_safe pub w" using assms(1) by (simp_all add: rot_safe_def)
  have "acceptable refused ?w = acceptable refused w @ (if refused (pub k) then [] else [pub k])"
    by (simp add: acceptable_def q)
  moreover obtain c where "keys_bound pub (rw_files w) c (pub k)" "chain c (pub k) (rw_host w # acceptable refused w)"
    using s(1) assms(4) unfolding keys_safe_def keys_bound_def by auto
  ultimately have "keys_safe pub refused ?w" using chain_append [of c "pub k" "rw_host w # acceptable refused w"]
    unfolding keys_safe_def by (intro exI [of _ c] exI [of _ "pub k"]) (simp del: chain.simps)
  moreover have "live_requests ?w = [pub k]" using assms(5) by (simp add: live_requests_def q)
  ultimately show ?thesis using s(2) assms(2-4) l(2,3)
    by (simp add: rot_safe_def result_safe_def requests_safe_def trial_safe_def)
qed

lemma request_safe:
  assumes "rot_safe pub refused w" and "ml_rotate_result (rw_link w) = None" and "\<not> ro_on_pending (rw_rotation w)"
    and "pub (io_generated io) \<noteq> rw_tunnel w"
  shows "rot_safe pub refused (w\<lparr>rw_state := request_tick pub io cfg (rw_state w)\<rparr>)"
proof -
  let ?f = "snd (ensure_pending io (rw_files w))"
  let ?w = "w\<lparr>rw_state := (rw_state w)\<lparr>rs_files := ?f\<rparr>\<rparr>"
  note e = ensure_safe [OF assms]
  let ?l = "link_session (rw_link w)"
  note d = request_tick_def [of pub io cfg "rw_state w"]
  show ?thesis
  proof (cases "\<not> (if_key_source (cfg_interface cfg) \<noteq> Some Self_Generated \<or> rs_manual (rw_state w)) \<or> ?l = None
      \<or> ro_attempted_session (rw_rotation w) = ?l")
    case True
    then have "request_tick pub io cfg (rw_state w) = rw_state w" by (auto simp: d split: option.split)
    then show ?thesis using assms(1) by simp
  next
    case go: False
    then have l: "?l = Some (ml_session (rw_link w))" by (cases "ml_outbox (rw_link w)") (auto simp: link_session_def)
    with go have r: "request_tick pub io cfg (rw_state w) = (case ensure_pending io (rw_files w) of
        (None, f) \<Rightarrow> (rw_state w)\<lparr>rs_files := f\<rparr>
      | (Some k, f) \<Rightarrow> (case link_send (Rotate_Key (pub k)) (rw_link w) of
            None \<Rightarrow> (rw_state w)\<lparr>rs_files := f\<rparr>
          | Some l \<Rightarrow> (rw_state w)\<lparr>rs_files := f, rs_link := l,
              rs_rotation := (rw_rotation w)\<lparr>ro_attempted_session := Some (ml_session (rw_link w))\<rparr>\<rparr>))"
      by (auto simp: d)
    show ?thesis
    proof (cases "fst (ensure_pending io (rw_files w)) = None
        \<or> (\<exists>k. fst (ensure_pending io (rw_files w)) = Some k \<and> link_send (Rotate_Key (pub k)) (rw_link w) = None)")
      case True
      then have "request_tick pub io cfg (rw_state w) = (rw_state w)\<lparr>rs_files := ?f\<rparr>"
        unfolding r by (cases "ensure_pending io (rw_files w)") (auto split: option.split)
      then show ?thesis using e by simp
    next
      case False
      then obtain k l' where k: "fst (ensure_pending io (rw_files w)) = Some k" and l': "link_send (Rotate_Key (pub k)) (rw_link w) = Some l'"
        by auto
      then have t: "request_tick pub io cfg (rw_state w) = (rw_state w)\<lparr>rs_files := ?f, rs_link := l',
          rs_rotation := (rw_rotation w)\<lparr>ro_attempted_session := Some (ml_session (rw_link w))\<rparr>\<rparr>"
        unfolding r by (cases "ensure_pending io (rw_files w)") simp
      have p: "kf_pending (rw_files ?w) = Some k" using k
        by (auto simp: ensure_pending_def load_pending_def split: option.splits if_splits)
      have "requests_safe pub w" using assms(1) by (simp add: rot_safe_def)
      then have "live_requests w = []" using go l by (auto simp: requests_safe_def)
      then have "live_requests ?w = []" by (simp add: live_requests_def)
      from ask_safe [OF e _ _ p this, of l'] assms(2,3) l' t show ?thesis by simp
    qed
  qed
qed

lemma tick_safe:
  assumes "rot_safe pub refused w" and "rotation_tick pub io now cfg stats (rw_state w) = (r, s)"
    and "\<And>host ps. cfg_peers cfg = host # ps \<Longrightarrow> received_bytes (peer_public_key host) stats = rw_received w"
    and "pub (io_generated io) \<noteq> rw_tunnel w"
  shows "rot_safe pub refused (w\<lparr>rw_state := s\<rparr>)"
proof (cases "cfg_peers cfg")
  case Nil
  then show ?thesis using assms(1,2) by (auto simp: rotation_tick_def)
next
  case (Cons host ps)
  let ?s = "(rw_state w)\<lparr>rs_rotation := note_received now (rw_received w) (rw_rotation w),
    rs_link := (rw_link w)\<lparr>ml_rotate_result := None\<rparr>\<rparr>"
  let ?w = "w\<lparr>rw_state := ?s\<rparr>"
  have n: "ro_on_pending (note_received now (rw_received w) (rw_rotation w)) = ro_on_pending (rw_rotation w)"
    "ro_attempted_session (note_received now (rw_received w) (rw_rotation w)) = ro_attempted_session (rw_rotation w)"
    by (simp_all add: note_received_def)
  have tick: "(case ml_rotate_result (rw_link w) of
      Some (ok, _) \<Rightarrow> answer_tick io ok ?s
    | None \<Rightarrow> if ro_on_pending (rw_rotation w) then trial_tick io now (rw_received w) ?s
        else if link_dead now (rs_rotation ?s) \<and> load_pending (rw_files w) \<noteq> None then (Some True, ?s)
        else (None, request_tick pub io cfg ?s)) = (r, s)"
    using assms(2) assms(3) [OF Cons] Cons n
    by (simp add: rotation_tick_def take_rotate_result_def Let_def split del: if_split cong: if_cong option.case_cong)
  show ?thesis
  proof (cases "ml_rotate_result (rw_link w)")
    case (Some a)
    then obtain ok m where a: "ml_rotate_result (rw_link w) = Some (ok, m)" by (cases a) auto
    have res: "result_safe pub refused w" using assms(1) by (simp add: rot_safe_def)
    have l: "live_requests w = []" using res a unfolding result_safe_def by blast
    show ?thesis
    proof (cases ok)
      case True
      have h: "rw_host w = pub k" if "kf_pending (rw_files w) = Some k" for k
        using res a True that unfolding result_safe_def by auto
      from tick a True have s: "rs_files s = snd (commit_pending io (rw_files w))" "rs_link s = (rw_link w)\<lparr>ml_rotate_result := None\<rparr>"
        "rs_rotation s = rs_rotation ?s"
        by (auto simp: answer_tick_def split: prod.splits bool.splits)
      show ?thesis by (rule commit_safe [OF assms(1) l _ h]) (use s n in simp_all)
    next
      case False
      from tick a False have s: "rs_files s = discard_pending io (rw_files w)" "rs_link s = (rw_link w)\<lparr>ml_rotate_result := None\<rparr>"
        "rs_rotation s = rs_rotation ?s"
        by (auto simp: answer_tick_def)
      show ?thesis by (rule discard_safe [OF assms(1), of m]) (use a False s n in simp_all)
    qed
  next
    case None
    have w: "rot_safe pub refused ?w" using assms(1) None n
      by (simp add: rot_safe_def safe_defs acceptable_def live_requests_def)
    show ?thesis
    proof (cases "ro_on_pending (rw_rotation w)")
      case True
      have l: "live_requests w = []" using assms(1) True by (auto simp: rot_safe_def requests_safe_def)
      show ?thesis
      proof (cases "0 < rw_received w")
        case rx: True
        have h: "rw_host w = pub k" if "kf_pending (rw_files w) = Some k" for k
          using assms(1) True rx that by (simp add: rot_safe_def trial_safe_def)
        from tick None True rx have s: "rs_files s = snd (commit_pending io (rw_files w))"
          "rs_link s = (rw_link w)\<lparr>ml_rotate_result := None\<rparr>" "ro_on_pending (rs_rotation s) \<longrightarrow> ro_on_pending (rw_rotation w)"
          by (auto simp: trial_tick_def split: prod.splits bool.splits)
        show ?thesis by (rule commit_safe [OF assms(1) l _ h]) (use s in simp_all)
      next
        case False
        with tick None True have "s = ?s" by (auto simp: trial_tick_def split: if_splits)
        with w show ?thesis by simp
      qed
    next
      case False
      have "rot_safe pub refused (?w\<lparr>rw_state := request_tick pub io cfg (rw_state ?w)\<rparr>)"
        by (rule request_safe [OF w]) (use False n assms(4) in simp_all)
      with tick None False w show ?thesis by (auto split: if_splits)
    qed
  qed
qed

section \<open>The steps keep it\<close>

lemma frame_safe:
  assumes "rot_safe pub refused w" and "rw_files w' = rw_files w" and "rw_host w' = rw_host w" and "rw_tunnel w' = rw_tunnel w"
    and "rw_running w' = rw_running w" and "rw_received w' = rw_received w" and "rw_rotation w' = rw_rotation w"
    and "ml_rotate_result (rw_link w') = ml_rotate_result (rw_link w)" and "ml_session (rw_link w') = ml_session (rw_link w)"
    and "subseq (acceptable refused w') (acceptable refused w)"
    and "length (live_requests w') \<le> length (live_requests w)" and "set (live_requests w') \<subseteq> set (live_requests w)"
  shows "rot_safe pub refused w'"
proof -
  have "chain c p (rw_host w' # acceptable refused w')" if "chain c p (rw_host w # acceptable refused w)" for c p
    by (rule chain_subseq [OF _ that]) (simp add: assms(3,10))
  then have "keys_safe pub refused w'" using keys_safe_mono [OF _ assms(2)] assms(1) by (simp only: rot_safe_def)
  moreover have "result_safe pub refused w'" using assms(1) unfolding rot_safe_def result_safe_def assms(2,3,8)
    using assms(11) by auto
  moreover have "requests_safe pub w'" using assms(1) unfolding rot_safe_def requests_safe_def assms(2,7,9)
    using assms(11,12) by auto
  moreover have "trial_safe pub w'" using assms(1) unfolding rot_safe_def trial_safe_def assms(2-7) by blast
  ultimately show ?thesis by (simp add: rot_safe_def)
qed

lemma subseq_filter_all: "subseq ls ks \<Longrightarrow> subseq (filter P ls) (filter P ks)"
  by (rule subseq_filter)

lemma handled_safe:
  assumes "rot_safe pub refused w" and "rw_wire w = (live, k) # rest" and "ok \<longleftrightarrow> k = rw_host w \<or> \<not> refused k"
    and "l = (if live \<and> delivered then put_rotate_result ok n (rw_link w) else rw_link w)"
  shows "rot_safe pub refused ((with_link l w)\<lparr>rw_wire := rest, rw_host := (if ok then k else rw_host w)\<rparr>)"
    (is "rot_safe pub refused ?w")
proof -
  have s: "keys_safe pub refused w" "result_safe pub refused w" "requests_safe pub w" "trial_safe pub w"
    using assms(1) by (simp_all add: rot_safe_def)
  have a: "acceptable refused w = (if refused k then [] else [k]) @ acceptable refused ?w"
    using assms(2,4) by (simp add: acceptable_def with_link_def)
  have "keys_safe pub refused ?w"
  proof (rule keys_safe_mono [OF s(1)])
    show "rw_files ?w = rw_files w" by (simp add: with_link_def)
    fix c p assume c: "chain c p (rw_host w # acceptable refused w)"
    show "chain c p (rw_host ?w # acceptable refused ?w)"
    proof (cases "refused k")
      case True
      then have "rw_host ?w = rw_host w" "acceptable refused ?w = acceptable refused w" using assms(3) a by auto
      with c show ?thesis by (simp only:)
    next
      case False
      then show ?thesis using c a assms(3) chain_tail [of c p "rw_host w" k] by (simp add: with_link_def del: chain.simps)
    qed
  qed
  have lv: "live_requests w = queued (rw_link w) @ (if live then [k] else []) @ map snd (filter fst rest)"
    "live_requests ?w = queued (rw_link w) @ map snd (filter fst rest)"
    using assms(2,4) by (simp_all add: live_requests_def with_link_def)
  text \<open>The host keeps the pending key once it has it, and never takes a refused one.\<close>
  have keep: "rw_host ?w = pub j" if "kf_pending (rw_files w) = Some j" "rw_host w = pub j" for j
    using keys_safe_chain(1) [OF s(1) that] a assms(3) that by (cases "refused k") auto
  have never: "rw_host ?w \<noteq> pub j" if "refused (pub j)" "rw_host w \<noteq> pub j" for j
    using that assms(3) by (auto simp: with_link_def)
  have "trial_safe pub ?w" using s(4) keep unfolding trial_safe_def by (simp add: with_link_def)
  moreover have "requests_safe pub ?w" using s(3) lv unfolding requests_safe_def
    by (auto simp: with_link_def assms(4) put_rotate_result_def split: if_splits)
  moreover have "result_safe pub refused ?w"
  proof (cases "live \<and> delivered")
    case True
    then have "live_requests ?w = []" and "\<And>j. kf_pending (rw_files w) = Some j \<Longrightarrow> k = pub j"
      using s(3) lv by (auto simp: requests_safe_def)
    then show ?thesis using True assms(3,4) by (auto simp: result_safe_def with_link_def put_rotate_result_def)
  next
    case False
    then have r: "ml_rotate_result (rw_link ?w) = ml_rotate_result (rw_link w)" "rw_files ?w = rw_files w"
      using assms(4) False by (auto simp: with_link_def)
    show ?thesis unfolding result_safe_def r
    proof (intro allI impI conjI)
      fix b m assume m: "ml_rotate_result (rw_link w) = Some (b, m)"
      show "live_requests ?w = []" using s(2) m lv unfolding result_safe_def by auto
      fix j assume j: "kf_pending (rw_files w) = Some j"
      show "if b then rw_host ?w = pub j else refused (pub j) \<and> rw_host ?w \<noteq> pub j"
        using s(2) m j keep [OF j] never [of j] unfolding result_safe_def by (cases b) auto
    qed
  qed
  ultimately show ?thesis using \<open>keys_safe pub refused ?w\<close> by (simp add: rot_safe_def)
qed

lemma rot_step_safe:
  assumes "rot_step pub refused w w'" and "rot_safe pub refused w"
  shows "rot_safe pub refused w'"
  using assms
proof (induction rule: rot_step.induct)
  case (tick io now cfg stats w s)
  from tick_safe [OF tick(4) tick(1,2,3)] show ?case by simp
next
  case (tick_restart io now cfg stats w use_pending s k now')
  from tick_safe [OF tick_restart(5) tick_restart(1,2,3)] have "rot_safe pub refused (w\<lparr>rw_state := s\<rparr>)" by simp
  from restarted_safe [OF this, of k now' False] tick_restart(4) show ?case by (cases use_pending) simp_all
next
  case (restart w k now fresh_link)
  then show ?case by (intro restarted_safe) simp_all
next
  case (connect ob l w)
  have t: "trial_safe pub w" using connect(3) by (simp add: rot_safe_def)
  show ?case by (rule hang_up_safe [OF connect(3)]) (use connect t in \<open>auto simp: with_link_def trial_safe_def\<close>)
next
  case (disconnect w)
  have t: "trial_safe pub w" using disconnect by (simp add: rot_safe_def)
  show ?case by (rule hang_up_safe [OF disconnect]) (use t in \<open>auto simp: with_link_def trial_safe_def\<close>)
next
  case (close w ob)
  have "queued ((rw_link w)\<lparr>ml_outbox := Some (ob\<lparr>ob_open := False\<rparr>)\<rparr>) = queued (rw_link w)"
    using close(1) by (simp add: queued_def)
  then show ?case by (intro frame_safe [OF close(2)]) (simp_all add: with_link_def acceptable_def live_requests_def)
next
  case (send_other m w l)
  note f = link_send_fields [OF send_other(2)]
  have "queued l = queued (rw_link w)" using f(1) send_other(1) by simp
  with f(2,3) show ?case by (intro frame_safe [OF send_other(3)]) (simp_all add: with_link_def acceptable_def live_requests_def)
next
  case (sent w ob m ms)
  have q: "queued (rw_link w) = (case rotate_key_of m of Some k \<Rightarrow> [k] | None \<Rightarrow> [])
      @ queued ((rw_link w)\<lparr>ml_outbox := Some (ob\<lparr>ob_queue := ms\<rparr>)\<rparr>)"
    using sent(1,2) by (simp add: queued_def List.map_filter_simps split: option.split)
  show ?case by (rule frame_safe [OF sent(3)])
    (auto simp: with_link_def acceptable_def live_requests_def q split: option.split)
next
  case (lost w P)
  have "subseq (map snd (filter P (rw_wire w))) (map snd (rw_wire w))"
    by (simp add: subseq_map)
  then have "subseq (map snd (filter P (rw_wire w)) @ queued (rw_link w)) (map snd (rw_wire w) @ queued (rw_link w))"
    by (simp add: list_emb_append_mono)
  moreover have "length (filter (\<lambda>x. P x \<and> fst x) xs) \<le> length (filter fst xs)" for xs
    by (induction xs) auto
  ultimately show ?case by (intro frame_safe [OF lost])
    (auto simp: acceptable_def live_requests_def subseq_filter simp del: filter_append)
next
  case (handled w live k rest ok l delivered n)
  from handled_safe [OF handled(4) handled(1-3)] show ?case .
next
  case (reload w)
  then show ?case by (simp add: rot_safe_def safe_defs acceptable_def live_requests_def)
next
  case (receive w n)
  then show ?case by (auto simp: rot_safe_def safe_defs acceptable_def live_requests_def)
next
  case (manual w)
  then show ?case by (simp add: rot_safe_def safe_defs acceptable_def live_requests_def)
qed

lemma rot_reach_safe: "(rot_step pub refused)\<^sup>*\<^sup>* w w' \<Longrightarrow> rot_safe pub refused w \<Longrightarrow> rot_safe pub refused w'"
  by (induction rule: rtranclp_induct) (auto intro: rot_step_safe)

lemma rotation_start_safe: "rot_safe pub refused (rotation_start pub now k self)"
  by (simp add: rot_safe_def safe_defs rotation_start_def keys_bound_def acceptable_def live_requests_def load_pending_def Let_def)

section \<open>The running key\<close>

definition running_safe :: "(private_key \<Rightarrow> public_key) \<Rightarrow> ('q, 'a, 'e) rotation_world \<Rightarrow> bool" where
  "running_safe pub w \<longleftrightarrow> (\<not> ro_on_pending (rw_rotation w) \<longrightarrow>
     (\<forall>k. kf_current (rw_files w) = Some k \<longrightarrow> pub k = pub (rw_running w)))"

lemma request_tick_frame:
  "kf_current (rs_files (request_tick pub io cfg s)) = kf_current (rs_files s)"
  "ro_on_pending (rs_rotation (request_tick pub io cfg s)) = ro_on_pending (rs_rotation s)"
  by (auto simp: request_tick_def ensure_pending_def load_pending_def split: option.split)

lemma note_received_frame [simp]: "ro_on_pending (note_received now rx ro) = ro_on_pending ro"
  by (simp add: note_received_def)

lemma commit_current:
  "kf_current (snd (commit_pending io f)) = Some k \<Longrightarrow> fst (commit_pending io f) \<and> kf_pending f = Some k
    \<or> \<not> fst (commit_pending io f) \<and> kf_current f = Some k"
  by (auto simp: commit_pending_def load_pending_def discard_pending_def split: option.splits write_outcome.splits if_splits)

lemma tick_running:
  assumes "rotation_tick pub io now cfg stats (rw_state w) = (None, s)" and "trial_safe pub w" and "running_safe pub w"
  shows "running_safe pub (w\<lparr>rw_state := s\<rparr>)"
proof (cases "cfg_peers cfg")
  case Nil
  with assms(1,3) show ?thesis by (auto simp: rotation_tick_def)
next
  case (Cons host ps)
  let ?rx = "received_bytes (peer_public_key host) stats"
  let ?s = "(rw_state w)\<lparr>rs_rotation := note_received now ?rx (rw_rotation w), rs_link := (rw_link w)\<lparr>ml_rotate_result := None\<rparr>\<rparr>"
  have tick: "(case ml_rotate_result (rw_link w) of
      Some (ok, _) \<Rightarrow> answer_tick io ok ?s
    | None \<Rightarrow> if ro_on_pending (rw_rotation w) then trial_tick io now ?rx ?s
        else if link_dead now (rs_rotation ?s) \<and> load_pending (rw_files w) \<noteq> None then (Some True, ?s)
        else (None, request_tick pub io cfg ?s)) = (None, s)"
    using assms(1) Cons
    by (simp add: rotation_tick_def take_rotate_result_def Let_def split del: if_split cong: if_cong option.case_cong)
  show ?thesis
  proof (cases "ml_rotate_result (rw_link w)")
    case (Some a)
    then obtain ok m where a: "ml_rotate_result (rw_link w) = Some (ok, m)" by (cases a) auto
    have "rs_rotation s = rs_rotation ?s \<and> (\<forall>k. kf_current (rs_files s) = Some k \<longrightarrow> kf_current (rw_files w) = Some k)"
    proof (cases ok)
      case True
      with tick a have "\<not> fst (commit_pending io (rw_files w))" "rs_files s = snd (commit_pending io (rw_files w))"
        "rs_rotation s = rs_rotation ?s"
        by (auto simp: answer_tick_def split: prod.splits bool.splits)
      then show ?thesis using commit_current [of io "rw_files w"] by auto
    next
      case False
      with tick a show ?thesis by (auto simp: answer_tick_def discard_pending_def split: if_splits)
    qed
    then show ?thesis using assms(3) by (simp add: running_safe_def)
  next
    case None
    show ?thesis
    proof (cases "ro_on_pending (rw_rotation w)")
      case True
      show ?thesis
      proof (cases "0 < ?rx \<and> fst (commit_pending io (rw_files w))")
        case c: True
        with tick None True have s: "rs_files s = snd (commit_pending io (rw_files w))"
          by (auto simp: trial_tick_def split: prod.splits bool.splits)
        show ?thesis using commit_current [of io "rw_files w"] c True assms(2)
          by (auto simp: running_safe_def s trial_safe_def)
      next
        case False
        with tick None True have "ro_on_pending (rs_rotation s)"
          by (auto simp: trial_tick_def split: prod.splits bool.splits if_splits)
        then show ?thesis by (simp add: running_safe_def)
      qed
    next
      case False
      with tick None have "s = request_tick pub io cfg ?s" by (auto split: if_splits)
      then show ?thesis using False assms(3) by (simp add: running_safe_def request_tick_frame)
    qed
  qed
qed

lemma running_step:
  assumes "rot_step pub refused w w'" and "rot_safe pub refused w" and "running_safe pub w"
  shows "running_safe pub w'"
  using assms
proof (induction rule: rot_step.induct)
  case (tick io now cfg stats w s)
  then show ?case by (intro tick_running) (simp_all add: rot_safe_def)
next
  case (tick_restart io now cfg stats w use_pending s k now')
  then show ?case by (cases use_pending) (auto simp: running_safe_def restarted_def)
qed (auto simp: running_safe_def restarted_def with_link_def)

lemma rot_reach_running:
  "(rot_step pub refused)\<^sup>*\<^sup>* w w' \<Longrightarrow> rot_safe pub refused w \<Longrightarrow> running_safe pub w \<Longrightarrow> running_safe pub w'"
proof (induction rule: rtranclp_induct)
  case (step y z)
  from rot_reach_safe [OF step(1,4)] step show ?case by (blast intro: running_step)
qed

section \<open>Properties\<close>

lemma keys_safe_host:
  assumes "keys_safe pub refused w"
  shows "\<exists>j. (kf_current (rw_files w) = Some j \<or> kf_pending (rw_files w) = Some j) \<and> pub j = rw_host w"
proof -
  from assms obtain c p where b: "keys_bound pub (rw_files w) c p" and "chain c p (rw_host w # acceptable refused w)"
    unfolding keys_safe_def by blast
  then have h: "rw_host w = p \<or> rw_host w = c" by auto
  show ?thesis
  proof (cases "kf_pending (rw_files w)")
    case None
    with b h show ?thesis by (auto simp: keys_bound_def)
  next
    case p: (Some k)
    show ?thesis
    proof (cases "kf_current (rw_files w)")
      case None
      with b h p show ?thesis by (auto simp: keys_bound_def)
    next
      case (Some j)
      with b h p show ?thesis by (auto simp: keys_bound_def)
    qed
  qed
qed

text \<open>
  A history: the key is asked to be changed by hand, the member connects, generates a key and sends it, the host
  registers it, and the answer is lost.
\<close>

definition demo_io :: file_io where
  "demo_io = \<lparr>io_key_write = Written, io_pending_write = Written, io_removed = True, io_marked = True, io_generated = [2]\<rparr>"

definition demo_member :: config where
  "demo_member = sample_config [sample_peer [9] 1] empty_acl"

definition demo_asked :: "(nat, nat, nat) rotation_world" where
  "demo_asked = (let w = rotation_start id 0 [1] True in w\<lparr>rw_state := (rw_state w)\<lparr>rs_manual := True\<rparr>\<rparr>)"

definition demo_connected :: "(nat, nat, nat) rotation_world" where
  "demo_connected = (with_link (link_attach \<lparr>ob_open = True, ob_queue = []\<rparr> (rw_link demo_asked)) demo_asked)\<lparr>rw_wire := []\<rparr>"

definition demo_requested :: "(nat, nat, nat) rotation_world" where
  "demo_requested = demo_connected\<lparr>rw_state := snd (rotation_tick id demo_io 0 demo_member [] (rw_state demo_connected))\<rparr>"

definition demo_sent :: "(nat, nat, nat) rotation_world" where
  "demo_sent = (with_link ((rw_link demo_requested)\<lparr>ml_outbox := Some \<lparr>ob_open = True, ob_queue = []\<rparr>\<rparr>) demo_requested)
     \<lparr>rw_wire := [(True, [2])]\<rparr>"

definition demo_lost :: "(nat, nat, nat) rotation_world" where
  "demo_lost = demo_sent\<lparr>rw_wire := [], rw_host := [2]\<rparr>"

lemmas demo_defs = demo_io_def demo_member_def demo_asked_def demo_connected_def demo_requested_def demo_sent_def demo_lost_def
  rotation_start_def rotation_new_def load_pending_def with_link_def link_new_def link_attach_def drop_waiting_def
  rotation_tick_def take_rotate_result_def received_bytes_def note_received_def link_dead_def DEAD_LINK_TIMEOUT_def
  request_tick_def link_session_def ensure_pending_def link_send_def sample_config_def sample_peer_def sample_interface_def

lemma demo_steps:
  "rot_step id (\<lambda>_. False) (rotation_start id 0 [1] True) demo_asked"
  "rot_step id (\<lambda>_. False) demo_asked demo_connected"
  "rot_step id (\<lambda>_. False) demo_connected demo_requested"
  "rot_step id (\<lambda>_. False) demo_requested demo_sent"
  "rot_step id (\<lambda>_. False) demo_sent demo_lost"
proof -
  show "rot_step id (\<lambda>_. False) (rotation_start id 0 [1] True) demo_asked"
    unfolding demo_asked_def Let_def by (rule rot_step.manual)
  show "rot_step id (\<lambda>_. False) demo_asked demo_connected"
    using rot_step.connect [of "\<lparr>ob_open = True, ob_queue = []\<rparr>" "rw_link demo_asked" demo_asked id "\<lambda>_. False"]
    by (simp add: demo_connected_def queued_def link_attach_def hung_up_def List.map_filter_simps) (simp add: demo_defs)
  show "rot_step id (\<lambda>_. False) demo_connected demo_requested"
    unfolding demo_requested_def by (rule rot_step.tick [where io = demo_io and cfg = demo_member and stats = "[]" and now = 0])
      (simp_all add: demo_defs Let_def)
  show "rot_step id (\<lambda>_. False) demo_requested demo_sent"
    using rot_step.sent [of demo_requested "\<lparr>ob_open = True, ob_queue = [Rotate_Key [2]]\<rparr>" "Rotate_Key [2]" "[]" id "\<lambda>_. False"]
    by (simp add: demo_defs Let_def rotate_key_of_def)
  show "rot_step id (\<lambda>_. False) demo_sent demo_lost"
    using rot_step.handled [of demo_sent True "[2]" "[]" True "\<lambda>_. False" "rw_link demo_sent" False undefined id]
    by (simp add: demo_lost_def with_link_def) (simp add: demo_sent_def with_link_def)
qed

lemma demo_reached: "(rot_step id (\<lambda>_. False))\<^sup>*\<^sup>* (rotation_start id 0 [1] True) demo_lost"
  using demo_steps by (meson rtranclp.rtrancl_into_rtrancl rtranclp.rtrancl_refl)

lemma demo_values:
  "kf_current (rw_files demo_lost) = Some [1]" "kf_pending (rw_files demo_lost) = Some [2]" "rw_host demo_lost = [2]"
  "rw_running demo_lost = [1]" "rw_received demo_lost = 0" "ml_rotate_result (rw_link demo_lost) = None"
  "ro_last_rx (rw_rotation demo_lost) = (0, 0)" "\<not> ro_on_pending (rw_rotation demo_lost)"
  by (simp_all add: demo_defs Let_def)





section \<open>What the host does with a request\<close>

text \<open>The answers of the model of the host are those of the handler.\<close>

lemma rotate_answers:
  "apply_rotate_key he (one_read doc) ip key = (Inl e, doc') \<Longrightarrow> doc' = doc"
  "apply_rotate_key he (one_read doc) ip key = (Inr outcome, doc') \<Longrightarrow>
     \<exists>p \<in> set (cfg_peers doc'). Config_Store.first_ip p = Some ip \<and> peer_public_key p = key"
proof -
  show "apply_rotate_key he (one_read doc) ip key = (Inl e, doc') \<Longrightarrow> doc' = doc"
    by (auto simp: apply_rotate_key_def split: sum.splits prod.splits)
  assume "apply_rotate_key he (one_read doc) ip key = (Inr outcome, doc')"
  then have r: "rotate_peer_key (he_ops he) doc doc ip key (he_public_key he) = Inr (outcome, doc')"
    by (auto simp: apply_rotate_key_def split: sum.splits prod.splits)
  from r [unfolded rotate_peer_key_def]
  show "\<exists>p \<in> set (cfg_peers doc'). Config_Store.first_ip p = Some ip \<and> peer_public_key p = key"
  proof (rule with_member)
    fix p
    let ?t = "resolved_peer (env_resolve (he_ops he)) p"
    assume p: "p \<in> set (cfg_peers doc)" "Config_Store.first_ip p = Some ip"
    assume a: "(if peer_public_key ?t = key then Inr (Rotation_Unchanged, doc)
       else bail_if (key = he_public_key he) Key_Is_Host
        (bail_if (list_ex (\<lambda>p. peer_public_key p = key) (cfg_peers (resolve_paths (env_resolve (he_ops he)) doc))) Key_In_Use
        (and_then (edit_peer (peer_public_key ?t) (\<lambda>p. p\<lparr>peer_public_key := key\<rparr>) doc) (\<lambda>doc'.
         and_then (write_validated (he_ops he) (rotate_records (peer_public_key ?t) key doc')) (\<lambda>doc''.
           Inr (Rotated (case peer_name ?t of Some n \<Rightarrow> n | None \<Rightarrow> ip_text ip), doc'')))))) = Inr (outcome, doc')"
    show ?thesis
    proof (cases "peer_public_key p = key")
      case True
      with a p show ?thesis by auto
    next
      case False
      with a obtain d where "edit_peer (peer_public_key p) (\<lambda>p. p\<lparr>peer_public_key := key\<rparr>) doc = Inr d"
        and "cfg_peers doc' = cfg_peers d" by (auto simp: rotate_records_def)
      then have "cfg_peers doc' = map (\<lambda>q. if peer_public_key q = peer_public_key p then q\<lparr>peer_public_key := key\<rparr> else q) (cfg_peers doc)"
        by (simp add: edit_peer_Inr)
      moreover have "Config_Store.first_ip (p\<lparr>peer_public_key := key\<rparr>) = Some ip" using p(2) by (simp add: Config_Store.first_ip_def)
      ultimately show ?thesis using p(1) by force
    qed
  qed
qed

section \<open>Findings\<close>

text \<open>
  The handler refuses also when it cannot read its file, whatever the key. A member that gets such a refusal for a key
  registered before, because the first answer was lost, deletes that key.
\<close>

lemma refusal_deletes_registered_key:
  assumes "load_config (he_ops he) (hr_first rs) = Inl e" and "cfg_peers cfg = host # ps"
    and "ml_rotate_result (rw_link w) = Some (False, n)" and "io_removed io"
    and "kf_pending (rw_files w) = Some j" and "pub j = rw_host w"
  shows "apply_rotate_key he rs ip (pub j) = (Inl e, hr_doc rs)"
    and "kf_pending (rs_files (snd (rotation_tick pub io now cfg stats (rw_state w)))) = None"
    and "kf_current (rs_files (snd (rotation_tick pub io now cfg stats (rw_state w)))) = kf_current (rw_files w)"
  using assms
  by (simp_all add: apply_rotate_key_def rotate_peer_key_def rotation_tick_def take_rotate_result_def answer_tick_def discard_pending_def Let_def)

text \<open>A rotation that was asked for by hand and completes on the pending key is started a second time.\<close>

lemma trial_commit_keeps_request:
  assumes "cfg_peers cfg = host # ps" and "received_bytes (peer_public_key host) stats = rx" and "0 < rx"
    and "ml_rotate_result (rs_link s) = None" and "ro_on_pending (rs_rotation s)" and "rs_manual s"
  shows "rs_manual (snd (rotation_tick pub io now cfg stats s))"
  using assms
  by (auto simp: rotation_tick_def take_rotate_result_def trial_tick_def Let_def split: prod.splits bool.splits)

end
