(* ===== verification/Memo_Text.thy ===== *)
theory Memo_Text
  imports Rust_Str "HOL-Library.Sublist"
begin

text \<open>
  Texts of memos: the helpers of \<^verbatim>\<open>crates/peercove-core/src/memo.rs\<close> (progress of a checklist, excerpt,
  name of an exported file) and of \<^verbatim>\<open>crates/peercove-memo/src/lib.rs\<close> (limits of titles and bodies, tags,
  the folding of kana for the search, and the difference of two versions by lines).
\<close>

section \<open>Lines\<close>

text \<open>\<^verbatim>\<open>str::lines\<close>: a line ends at a line feed, with the carriage return before it.\<close>

definition strip_cr :: "string \<Rightarrow> string" where
  "strip_cr s = (if s \<noteq> [] \<and> last s = CHR 0x0D then butlast s else s)"

definition lines :: "string \<Rightarrow> string list" where
  "lines s = (let ps = split_on CHR 0x0A s in map strip_cr (butlast ps) @ (if last ps = [] then [] else [last ps]))"

definition after_prefix :: "string \<Rightarrow> string \<Rightarrow> string option" where
  "after_prefix p s = (if prefix p s then Some (drop (length p) s) else None)"

definition trim_start :: "string \<Rightarrow> string" where
  "trim_start s = concat (trim_start_chars is_whitespace (chars s))"

section \<open>Helpers of the user interface\<close>

definition list_item :: "string \<Rightarrow> string option" where
  "list_item t =
     (case after_prefix ''- '' t of
        Some r \<Rightarrow> Some r
      | None \<Rightarrow> case after_prefix ''* '' t of
          Some r \<Rightarrow> Some r
        | None \<Rightarrow> case after_prefix ''+ '' t of
            Some r \<Rightarrow> Some r
          | None \<Rightarrow>
              (let digits = takeWhile is_digit t
               in if digits = [] then None else after_prefix ''. '' (drop (length digits) t)))"

definition count_item :: "string \<Rightarrow> nat \<times> nat \<Rightarrow> nat \<times> nat" where
  "count_item line counts =
     (case list_item (trim_start line) of
        None \<Rightarrow> counts
      | Some r \<Rightarrow>
          if prefix ''[ ] '' r \<or> r = ''[ ]'' then (fst counts, snd counts + 1)
          else if prefix ''[x] '' r \<or> prefix ''[X] '' r \<or> r = ''[x]'' \<or> r = ''[X]'' then (fst counts + 1, snd counts + 1)
          else counts)"

definition checklist_progress :: "string \<Rightarrow> nat \<times> nat" where
  "checklist_progress body = foldl (\<lambda>c line. count_item line c) (0, 0) (lines body)"

definition EXCERPT_CHARS :: nat where "EXCERPT_CHARS = 120"

definition ellipsis :: string where "ellipsis = map char_of [0xE2, 0x80, 0xA6 :: nat]"

definition heading_mark :: "string \<Rightarrow> bool" where
  "heading_mark ch \<longleftrightarrow> ch = ''#'' \<or> ch = ''>''"

definition excerpt_line :: "string \<Rightarrow> string" where
  "excerpt_line line = trim_start (concat (trim_start_chars heading_mark (chars (trim line))))"

fun excerpt_lines :: "nat \<Rightarrow> string list \<Rightarrow> string \<Rightarrow> string" where
  "excerpt_lines n [] out = out"
| "excerpt_lines n (l # ls) out =
     (let t = excerpt_line l
      in if t = [] then excerpt_lines n ls out
         else (let out = (if out = [] then t else out @ '' '' @ t)
               in if n \<le> length (chars out) then out else excerpt_lines n ls out))"

definition excerpt :: "string \<Rightarrow> nat \<Rightarrow> string" where
  "excerpt body n =
     (let out = excerpt_lines n (lines body) []
      in if n < length (chars out) then concat (take n (chars out)) @ ellipsis else out)"

definition bad_file_char :: "string \<Rightarrow> bool" where
  "bad_file_char ch \<longleftrightarrow> is_control ch \<or> ch \<in> {[CHR 0x5C], ''/'', '':'', ''*'', ''?'', [CHR 0x22], ''<'', ''>'', ''|''}"

definition trim_dots :: "string \<Rightarrow> string" where
  "trim_dots s = concat (trim_end_chars (\<lambda>ch. ch = ''.'') (chars s))"

definition reserved_file :: "string \<Rightarrow> bool" where
  "reserved_file s =
     (let u = map ascii_upper s
      in u \<in> {''CON'', ''PRN'', ''AUX'', ''NUL''}
       \<or> length u = 4 \<and> (prefix ''COM'' u \<or> prefix ''LPT'' u) \<and> list_all is_digit (drop 3 u))"

text \<open>The name of a memo without a title is the word for memo.\<close>

definition default_file :: string where
  "default_file = map char_of [0xE3, 0x83, 0xA1, 0xE3, 0x83, 0xA2 :: nat]"

definition sanitize_filename :: "string \<Rightarrow> string" where
  "sanitize_filename title =
     (let out = trim (trim_dots (trim (concat (map (\<lambda>ch. if bad_file_char ch then ''_'' else ch) (chars title)))))
      in if out = [] then default_file
         else (let out = (if reserved_file out then out @ ''_'' else out)
               in if 80 < length (chars out) then concat (take 80 (chars out)) else out))"

section \<open>Limits, tags and search\<close>

datatype text_error = Title_Too_Long | Body_Too_Long | Folder_Name_Empty | Folder_Name_Too_Long | Tag_Too_Long | Too_Many_Tags

definition MAX_TITLE_CHARS :: nat where "MAX_TITLE_CHARS = 200"

definition validate_title :: "string \<Rightarrow> text_error option" where
  "validate_title title = err_when (MAX_TITLE_CHARS < length (chars title)) Title_Too_Long"

definition validate_body_bytes :: "string \<Rightarrow> nat \<Rightarrow> text_error option" where
  "validate_body_bytes body n = err_when (n < length body) Body_Too_Long"

definition validate_folder_name :: "string \<Rightarrow> text_error + string" where
  "validate_folder_name name =
     (let n = trim name
      in bail_if (n = []) Folder_Name_Empty (bail_if (60 < length (chars n)) Folder_Name_Too_Long (Inr n)))"

definition MAX_TAG_CHARS :: nat where "MAX_TAG_CHARS = 50"

definition MAX_TAGS_PER_MEMO :: nat where "MAX_TAGS_PER_MEMO = 30"

fun collect_tags :: "string list \<Rightarrow> string list \<Rightarrow> text_error + string list" where
  "collect_tags [] out = Inr out"
| "collect_tags (t # ts) out =
     (let t = trim t
      in if t = [] \<or> t \<in> set out then collect_tags ts out
         else bail_if (MAX_TAG_CHARS < length (chars t)) Tag_Too_Long (collect_tags ts (out @ [t])))"

definition normalize_tags :: "string list \<Rightarrow> text_error + string list" where
  "normalize_tags tags =
     and_then (collect_tags tags []) (\<lambda>out. bail_if (MAX_TAGS_PER_MEMO < length out) Too_Many_Tags (Inr out))"

text \<open>Katakana, U+30A1 to U+30F6, become hiragana. All of these code points take three bytes.\<close>

definition code_point :: "string \<Rightarrow> nat" where
  "code_point ch =
     (case map code ch of [a, b, c] \<Rightarrow> (a - 224) * 4096 + (b - 128) * 64 + (c - 128) | _ \<Rightarrow> 0)"

definition three_bytes :: "nat \<Rightarrow> string" where
  "three_bytes n = map char_of [224 + n div 4096, 128 + n div 64 mod 64, 128 + n mod 64]"

definition kana_fold :: "string \<Rightarrow> string" where
  "kana_fold s = concat (map (\<lambda>ch. if 0x30A1 \<le> code_point ch \<and> code_point ch \<le> 0x30F6
     then three_bytes (code_point ch - 0x60) else ch) (chars s))"

definition escape_like :: "string \<Rightarrow> string" where
  "escape_like s = concat (map (\<lambda>c. if c = CHR 0x5C \<or> c = CHR ''%'' \<or> c = CHR ''_'' then [CHR 0x5C, c] else [c]) s)"

section \<open>Differences\<close>

datatype diff_kind = Line_Same | Line_Added | Line_Removed

type_synonym diff_line = "diff_kind \<times> string"

text \<open>The table of the lengths of longest common subsequences, filled from the last line to the first.\<close>

fun lcs_row :: "'a \<Rightarrow> 'a list \<Rightarrow> nat list \<Rightarrow> nat list" where
  "lcs_row x [] below = [0]"
| "lcs_row x (y # ys) below =
     (let r = lcs_row x ys (tl below)
      in (if x = y then hd (tl below) + 1 else max (hd below) (hd r)) # r)"

fun lcs_table :: "'a list \<Rightarrow> 'a list \<Rightarrow> nat list list" where
  "lcs_table [] ys = [replicate (length ys + 1) 0]"
| "lcs_table (x # xs) ys = (let t = lcs_table xs ys in lcs_row x ys (hd t) # t)"

function lcs_walk :: "nat list list \<Rightarrow> string list \<Rightarrow> string list \<Rightarrow> nat \<Rightarrow> nat \<Rightarrow> diff_line list" where
  "lcs_walk dp xs ys i j =
     (if i < length xs \<and> j < length ys then
        if xs ! i = ys ! j then (Line_Same, xs ! i) # lcs_walk dp xs ys (i + 1) (j + 1)
        else if dp ! i ! (j + 1) \<le> dp ! (i + 1) ! j then (Line_Removed, xs ! i) # lcs_walk dp xs ys (i + 1) j
        else (Line_Added, ys ! j) # lcs_walk dp xs ys i (j + 1)
      else map (Pair Line_Removed) (drop i xs) @ map (Pair Line_Added) (drop j ys))"
  by pat_completeness auto
termination
  by (relation "measure (\<lambda>(_, xs, ys, i, j). (length xs - i) + (length ys - j))") auto

declare lcs_walk.simps [simp del]

definition lcs_diff :: "string list \<Rightarrow> string list \<Rightarrow> diff_line list" where
  "lcs_diff xs ys = lcs_walk (lcs_table xs ys) xs ys 0 0"

text \<open>The number of equal elements at the front, at most \<open>n\<close>.\<close>

fun common_front :: "nat \<Rightarrow> 'a list \<Rightarrow> 'a list \<Rightarrow> nat" where
  "common_front (Suc n) (x # xs) (y # ys) = (if x = y then Suc (common_front n xs ys) else 0)"
| "common_front _ _ _ = 0"

definition diff_middle :: "string list \<Rightarrow> string list \<Rightarrow> diff_line list" where
  "diff_middle xs ys =
     (if 4000000 < length xs * length ys then map (Pair Line_Removed) xs @ map (Pair Line_Added) ys else lcs_diff xs ys)"

definition diff_of :: "string list \<Rightarrow> string list \<Rightarrow> diff_line list" where
  "diff_of xs ys =
     (let m = min (length xs) (length ys);
          p = common_front m xs ys;
          s = common_front (m - p) (rev xs) (rev ys)
      in map (Pair Line_Same) (take p xs)
       @ diff_middle (drop p (take (length xs - s) xs)) (drop p (take (length ys - s) ys))
       @ map (Pair Line_Same) (drop (length xs - s) xs))"

definition diff_lines :: "string \<Rightarrow> string \<Rightarrow> diff_line list" where
  "diff_lines old new = diff_of (lines old) (lines new)"

section \<open>A difference shows both versions\<close>

definition old_side :: "diff_line list \<Rightarrow> string list" where
  "old_side d = map snd (filter (\<lambda>l. fst l \<noteq> Line_Added) d)"

definition new_side :: "diff_line list \<Rightarrow> string list" where
  "new_side d = map snd (filter (\<lambda>l. fst l \<noteq> Line_Removed) d)"

definition kept :: "diff_line list \<Rightarrow> nat" where
  "kept d = length (filter (\<lambda>l. fst l = Line_Same) d)"

lemma sides_Nil [simp]: "old_side [] = []" "new_side [] = []" "kept [] = 0"
  by (simp_all add: old_side_def new_side_def kept_def)

lemma sides_Cons [simp]:
  "old_side ((k, t) # d) = (if k = Line_Added then old_side d else t # old_side d)"
  "new_side ((k, t) # d) = (if k = Line_Removed then new_side d else t # new_side d)"
  "kept ((k, t) # d) = (if k = Line_Same then Suc (kept d) else kept d)"
  by (simp_all add: old_side_def new_side_def kept_def)

lemma sides_append [simp]:
  "old_side (d @ e) = old_side d @ old_side e" "new_side (d @ e) = new_side d @ new_side e" "kept (d @ e) = kept d + kept e"
  by (simp_all add: old_side_def new_side_def kept_def)

lemma sides_map [simp]:
  "old_side (map (Pair k) ls) = (if k = Line_Added then [] else ls)"
  "new_side (map (Pair k) ls) = (if k = Line_Removed then [] else ls)"
  "kept (map (Pair k) ls) = (if k = Line_Same then length ls else 0)"
  by (simp_all add: old_side_def new_side_def kept_def filter_map comp_def)

lemma walk_sides:
  "old_side (lcs_walk dp xs ys i j) = drop i xs \<and> new_side (lcs_walk dp xs ys i j) = drop j ys"
proof (induction dp xs ys i j rule: lcs_walk.induct)
  case (1 dp xs ys i j)
  show ?case
  proof (cases "i < length xs \<and> j < length ys")
    case True
    then have "drop i xs = xs ! i # drop (i + 1) xs" "drop j ys = ys ! j # drop (j + 1) ys"
      by (simp_all add: Cons_nth_drop_Suc)
    with 1 True show ?thesis by (subst (1 2) lcs_walk.simps) auto
  next
    case False
    then show ?thesis by (subst (1 2) lcs_walk.simps) auto
  qed
qed

lemma middle_sides [simp]: "old_side (diff_middle xs ys) = xs" "new_side (diff_middle xs ys) = ys"
  by (simp_all add: diff_middle_def lcs_diff_def walk_sides)

lemma common_front:
  "common_front n xs ys \<le> n" "common_front n xs ys \<le> length xs" "common_front n xs ys \<le> length ys"
  "take (common_front n xs ys) xs = take (common_front n xs ys) ys"
  by (induction n xs ys rule: common_front.induct) auto

lemma common_back:
  assumes "s = common_front n (rev xs) (rev ys)"
  shows "drop (length xs - s) xs = drop (length ys - s) ys"
proof -
  have "rev (take s (rev xs)) = rev (take s (rev ys))" using common_front(4) [of n "rev xs" "rev ys"] assms by simp
  then show ?thesis by (simp add: rev_take)
qed

lemma split3: "p \<le> q \<Longrightarrow> take p xs @ drop p (take q xs) @ drop q xs = xs"
proof -
  assume "p \<le> q"
  then have "take p xs @ drop p (take q xs) = take q xs"
    using append_take_drop_id [of p "take q xs"] by (simp add: min_absorb1)
  then show ?thesis by (metis append_assoc append_take_drop_id)
qed

lemma diff_of_parts:
  assumes "m = min (length xs) (length ys)" and "p = common_front m xs ys" and "s = common_front (m - p) (rev xs) (rev ys)"
  shows "p \<le> length xs - s" "p \<le> length ys - s" "take p xs = take p ys"
    and "drop (length xs - s) xs = drop (length ys - s) ys"
proof -
  have "p \<le> m" using common_front(1) [of m xs ys] assms(2) by simp
  moreover have "s \<le> m - p" using common_front(1) [of "m - p" "rev xs" "rev ys"] assms(3) by simp
  ultimately show "p \<le> length xs - s" "p \<le> length ys - s" using assms(1) by linarith+
  show "take p xs = take p ys" using common_front(4) assms(2) by blast
  show "drop (length xs - s) xs = drop (length ys - s) ys" by (rule common_back [OF assms(3)])
qed

text \<open>
  C34: the difference of two versions shows both. Without the added lines it is the old text, without the removed ones
  the new text, also when the texts are so large that no table is made.
\<close>

theorem diff_shows_both: "old_side (diff_lines old new) = lines old \<and> new_side (diff_lines old new) = lines new"
proof -
  define xs ys where "xs = lines old" and "ys = lines new"
  define m where "m = min (length xs) (length ys)"
  define p where "p = common_front m xs ys"
  define s where "s = common_front (m - p) (rev xs) (rev ys)"
  note parts = diff_of_parts [OF m_def p_def s_def]
  have d: "diff_lines old new = map (Pair Line_Same) (take p xs)
       @ diff_middle (drop p (take (length xs - s) xs)) (drop p (take (length ys - s) ys))
       @ map (Pair Line_Same) (drop (length xs - s) xs)"
    by (simp add: diff_lines_def diff_of_def Let_def xs_def ys_def m_def p_def s_def)
  have "old_side (diff_lines old new) = xs"
    using split3 [OF parts(1), of xs] by (simp add: d)
  moreover have "new_side (diff_lines old new) = ys"
    using split3 [OF parts(2), of ys] by (simp add: d parts(3,4))
  ultimately show ?thesis by (simp add: xs_def ys_def)
qed

section \<open>A difference is least\<close>

text \<open>\<open>k\<close> bounds the length of every common subsequence.\<close>

definition bounds_common :: "nat \<Rightarrow> 'a list \<Rightarrow> 'a list \<Rightarrow> bool" where
  "bounds_common k xs ys \<longleftrightarrow> (\<forall>cs. subseq cs xs \<and> subseq cs ys \<longrightarrow> length cs \<le> k)"

lemma bounds_Nil [simp]: "bounds_common k [] ys" "bounds_common k xs []"
  by (auto simp: bounds_common_def dest: list_emb_Nil2)

lemma bounds_same:
  assumes "bounds_common k xs ys"
  shows "bounds_common (Suc k) (x # xs) (x # ys)"
  unfolding bounds_common_def
proof (intro allI impI)
  fix cs
  assume cs: "subseq cs (x # xs) \<and> subseq cs (x # ys)"
  show "length cs \<le> Suc k"
  proof (cases cs)
    case (Cons c ds)
    with cs have "subseq ds xs" "subseq ds ys"
      by (metis subseq_Cons2_iff subseq_Cons')+
    with assms Cons show ?thesis by (simp add: bounds_common_def)
  qed simp
qed

lemma bounds_other:
  assumes "bounds_common k xs (y # ys)" and "bounds_common k (x # xs) ys" and "x \<noteq> y"
  shows "bounds_common k (x # xs) (y # ys)"
  unfolding bounds_common_def
proof (intro allI impI)
  fix cs
  assume cs: "subseq cs (x # xs) \<and> subseq cs (y # ys)"
  show "length cs \<le> k"
  proof (cases cs)
    case (Cons c ds)
    with cs assms(3) have "subseq cs xs \<or> subseq cs ys" by (auto simp: subseq_Cons2_iff split: if_splits)
    with cs assms(1,2) show ?thesis by (auto simp: bounds_common_def)
  qed simp
qed

lemma subseq_reverse: "subseq xs ys \<Longrightarrow> subseq (rev xs) (rev ys)"
  by (induction rule: list_emb.induct) (auto intro: subseq_rev_drop_many list_emb_append_mono)

lemma bounds_rev: "bounds_common k (rev xs) (rev ys) \<longleftrightarrow> bounds_common k xs ys"
  unfolding bounds_common_def by (metis length_rev rev_rev_ident subseq_reverse)

lemma bounds_prefix: "bounds_common k xs ys \<Longrightarrow> bounds_common (length zs + k) (zs @ xs) (zs @ ys)"
  by (induction zs) (auto intro: bounds_same)

lemma bounds_suffix:
  assumes "bounds_common k xs ys"
  shows "bounds_common (k + length zs) (xs @ zs) (ys @ zs)"
proof -
  have "bounds_common (length (rev zs) + k) (rev zs @ rev xs) (rev zs @ rev ys)"
    using assms by (intro bounds_prefix) (simp add: bounds_rev)
  then show ?thesis using bounds_rev [of _ "xs @ zs" "ys @ zs"] by (simp add: add.commute)
qed

text \<open>The entries of the table.\<close>

fun lcs :: "'a list \<Rightarrow> 'a list \<Rightarrow> nat" where
  "lcs [] ys = 0"
| "lcs (x # xs) [] = 0"
| "lcs (x # xs) (y # ys) = (if x = y then lcs xs ys + 1 else max (lcs xs (y # ys)) (lcs (x # xs) ys))"

lemma lcs_Nil [simp]: "lcs xs [] = 0"
  by (cases xs) auto

lemma lcs_bounds: "bounds_common (lcs xs ys) xs ys"
proof (induction xs ys rule: lcs.induct)
  case (3 x xs y ys)
  have mono: "bounds_common k as bs \<Longrightarrow> k \<le> l \<Longrightarrow> bounds_common l as bs" for k l :: nat and as bs :: "'a list"
    by (auto simp: bounds_common_def intro: le_trans)
  show ?case
  proof (cases "x = y")
    case True
    with 3 show ?thesis by (auto intro: bounds_same)
  next
    case False
    with 3 show ?thesis by (auto intro!: bounds_other intro: mono)
  qed
qed auto

definition lcs_suffixes :: "'a list \<Rightarrow> 'a list \<Rightarrow> nat list" where
  "lcs_suffixes xs ys = map (\<lambda>j. lcs xs (drop j ys)) [0..<length ys + 1]"

lemma suffixes_Cons: "lcs_suffixes xs (y # ys) = lcs xs (y # ys) # lcs_suffixes xs ys"
proof -
  have "[0..<length (y # ys) + 1] = 0 # map Suc [0..<length ys + 1]" by (simp add: upt_conv_Cons map_Suc_upt del: upt_Suc)
  then show ?thesis by (simp add: lcs_suffixes_def comp_def del: upt_Suc)
qed

lemma row_is: "lcs_row x ys (lcs_suffixes xs ys) = lcs_suffixes (x # xs) ys"
proof (induction ys)
  case Nil
  then show ?case by (simp add: lcs_suffixes_def)
next
  case (Cons y ys)
  have h: "hd (lcs_suffixes zs ys) = lcs zs ys" for zs :: "'a list" by (cases ys) (simp_all add: suffixes_Cons, simp add: lcs_suffixes_def)
  show ?case using Cons by (simp add: suffixes_Cons h Let_def)
qed

lemma table_is: "lcs_table xs ys = map (\<lambda>i. lcs_suffixes (drop i xs) ys) [0..<length xs + 1]"
proof (induction xs)
  case Nil
  show ?case by (simp add: lcs_suffixes_def map_replicate_const del: upt_Suc)
next
  case (Cons x xs)
  have u: "[0..<length (x # xs) + 1] = 0 # map Suc [0..<length xs + 1]" by (simp add: upt_conv_Cons map_Suc_upt del: upt_Suc)
  have h: "hd (lcs_table xs ys) = lcs_suffixes xs ys" using Cons by (simp add: hd_map upt_conv_Cons del: upt_Suc)
  show ?case unfolding u using Cons h by (simp add: row_is Let_def comp_def del: upt_Suc)
qed

lemma table_entry:
  assumes "i \<le> length xs" and "j \<le> length ys"
  shows "lcs_table xs ys ! i ! j = lcs (drop i xs) (drop j ys)"
  using assms by (simp add: table_is lcs_suffixes_def del: upt_Suc)

lemma walk_kept: "dp = lcs_table xs ys \<Longrightarrow> kept (lcs_walk dp xs ys i j) = lcs (drop i xs) (drop j ys)"
proof (induction dp xs ys i j rule: lcs_walk.induct)
  case (1 dp xs ys i j)
  show ?case
  proof (cases "i < length xs \<and> j < length ys")
    case True
    then have d: "drop i xs = xs ! i # drop (i + 1) xs" "drop j ys = ys ! j # drop (j + 1) ys"
      by (simp_all add: Cons_nth_drop_Suc)
    have e: "lcs_table xs ys ! i ! Suc j = lcs (xs ! i # drop (i + 1) xs) (drop (j + 1) ys)"
      "lcs_table xs ys ! Suc i ! j = lcs (drop (i + 1) xs) (ys ! j # drop (j + 1) ys)"
      using True table_entry [of i xs "j + 1" ys] table_entry [of "i + 1" xs j ys] by (simp_all add: d)
    show ?thesis using 1 True by (subst lcs_walk.simps) (auto simp: d e max_def)
  next
    case False
    then show ?thesis by (subst lcs_walk.simps) auto
  qed
qed

lemma middle_least:
  assumes "length xs * length ys \<le> 4000000"
  shows "bounds_common (kept (diff_middle xs ys)) xs ys"
  using assms lcs_bounds [of xs ys] by (simp add: diff_middle_def lcs_diff_def walk_kept)

text \<open>
  C35: the difference is least. While the table is not too large, no sequence of lines that occurs in both texts
  in order is longer than the lines shown as unchanged.
\<close>

theorem diff_is_least:
  assumes "length (lines old) * length (lines new) \<le> 4000000"
    and "subseq cs (lines old)" and "subseq cs (lines new)"
  shows "length cs \<le> kept (diff_lines old new)"
proof -
  define xs ys where "xs = lines old" and "ys = lines new"
  define m where "m = min (length xs) (length ys)"
  define p where "p = common_front m xs ys"
  define s where "s = common_front (m - p) (rev xs) (rev ys)"
  define a b where "a = drop p (take (length xs - s) xs)" and "b = drop p (take (length ys - s) ys)"
  note parts = diff_of_parts [OF m_def p_def s_def]
  have d: "diff_lines old new = map (Pair Line_Same) (take p xs) @ diff_middle a b @ map (Pair Line_Same) (drop (length xs - s) xs)"
    by (simp add: diff_lines_def diff_of_def Let_def xs_def ys_def m_def p_def s_def a_def b_def)
  have "length a * length b \<le> length xs * length ys" by (simp add: a_def b_def mult_le_mono)
  then have "bounds_common (kept (diff_middle a b)) a b"
    using assms(1) by (intro middle_least) (simp add: xs_def ys_def)
  then have "bounds_common (length (take p xs) + (kept (diff_middle a b) + length (drop (length xs - s) xs)))
      (take p xs @ a @ drop (length xs - s) xs) (take p xs @ b @ drop (length xs - s) xs)"
    by (intro bounds_prefix bounds_suffix)
  then have "bounds_common (kept (diff_lines old new)) xs ys"
    using split3 [OF parts(1), of xs] split3 [OF parts(2), of ys] by (simp add: d a_def b_def parts(3,4))
  then show ?thesis using assms(2,3) by (simp add: bounds_common_def xs_def ys_def)
qed

theorem diff_is_least_witness:
  "length [''a'', ''c''] \<le> kept (diff_lines [CHR ''a'', CHR 0x0A, CHR ''b'', CHR 0x0A, CHR ''c''] [CHR ''a'', CHR 0x0A, CHR ''c''])"
  by (rule diff_is_least) (simp_all add: lines_def strip_cr_def)

section \<open>Characters of edited texts\<close>

text \<open>A list of characters that are those of their concatenation: only the first may begin inside a character.\<close>

definition units :: "string list \<Rightarrow> bool" where
  "units us \<longleftrightarrow> (\<forall>u \<in> set us. u \<noteq> [] \<and> list_all is_cont (tl u)) \<and> (\<forall>u \<in> set (tl us). \<not> is_cont (hd u))"

lemma units_Cons: "units (u # us) \<longleftrightarrow> u \<noteq> [] \<and> list_all is_cont (tl u) \<and> units us \<and> (us \<noteq> [] \<longrightarrow> \<not> is_cont (hd (hd us)))"
  by (cases us) (auto simp: units_def)

lemma units_Nil [simp]: "units []"
  by (simp add: units_def)

lemma chars_concat: "units us \<Longrightarrow> chars (concat us) = us"
proof (induction us)
  case (Cons u us)
  then obtain c t where u: "u = c # t" by (cases u) (auto simp: units_Cons)
  have t: "list_all is_cont t" "us \<noteq> [] \<longrightarrow> \<not> is_cont (hd (hd us))" "units us" using Cons.prems u by (auto simp: units_Cons)
  have "takeWhile is_cont (concat us) = [] \<and> dropWhile is_cont (concat us) = concat us"
  proof (cases us)
    case us: (Cons v vs)
    then obtain d w where "v = d # w" "\<not> is_cont d" using t by (cases v) (auto simp: units_Cons)
    then show ?thesis by (simp add: us)
  qed simp
  then have "takeWhile is_cont (t @ concat us) = t" "dropWhile is_cont (t @ concat us) = concat us"
    using t(1) by (simp_all add: takeWhile_append2 dropWhile_append2 list_all_iff)
  then show ?case using Cons.IH t(3) u by simp
qed simp

lemma units_chars: "units (chars s)"
proof (induction s rule: chars.induct)
  case (2 c s)
  have "chars (dropWhile is_cont s) \<noteq> [] \<longrightarrow> \<not> is_cont (hd (hd (chars (dropWhile is_cont s))))"
  proof (cases "dropWhile is_cont s")
    case (Cons d t)
    then show ?thesis using hd_dropWhile [of is_cont s] by auto
  next
    case Nil
    then show ?thesis by (simp only: chars.simps) simp
  qed
  moreover have "list_all is_cont (takeWhile is_cont s)" by (auto simp: list_all_iff dest: set_takeWhileD)
  ultimately show ?case using 2 by (simp add: units_Cons)
qed simp

lemma units_append: "units (us @ vs) \<Longrightarrow> units us \<and> units vs"
  by (cases us; cases vs) (auto simp: units_def)

lemma units_take: "units us \<Longrightarrow> units (take n us)"
  by (metis append_take_drop_id units_append)

lemma units_snoc: "units us \<Longrightarrow> \<not> is_cont c \<Longrightarrow> units (us @ [[c]])"
  by (cases us) (auto simp: units_def)

lemma units_trim_start: "units us \<Longrightarrow> units (trim_start_chars P us)"
  unfolding trim_start_chars_def by (metis takeWhile_dropWhile_id units_append)

lemma trim_end_append: "\<exists>vs. us = trim_end_chars P us @ vs"
  unfolding trim_end_chars_def by (metis rev_append rev_rev_ident takeWhile_dropWhile_id)

lemma units_trim_end: "units us \<Longrightarrow> units (trim_end_chars P us)"
  by (metis trim_end_append units_append)

lemma units_map:
  assumes "units us" and "\<And>u. f u = u \<or> (\<exists>c. f u = [c] \<and> \<not> is_cont c)"
  shows "units (map f us)"
proof -
  have "f u \<noteq> [] \<and> list_all is_cont (tl (f u))" if "u \<noteq> []" "list_all is_cont (tl u)" for u using assms(2) [of u] that by auto
  moreover have "\<not> is_cont (hd (f u))" if "\<not> is_cont (hd u)" for u using assms(2) [of u] that by auto
  ultimately show ?thesis using assms(1) by (auto simp: units_def map_tl [symmetric])
qed

lemma set_trim: "set (trim_start_chars P us) \<subseteq> set us" "set (trim_end_chars P us) \<subseteq> set us"
  by (auto simp: trim_start_chars_def trim_end_chars_def dest: set_dropWhileD)

lemma chars_trim: "chars (trim s) = trim_end_chars is_whitespace (trim_start_chars is_whitespace (chars s))"
  by (simp add: trim_def chars_concat units_trim_start units_trim_end units_chars)

lemma set_chars_trim: "set (chars (trim s)) \<subseteq> set (chars s)"
  using set_trim by (fastforce simp: chars_trim)

lemma chars_trim_dots: "chars (trim_dots s) = trim_end_chars (\<lambda>ch. ch = ''.'') (chars s)"
  by (simp add: trim_dots_def chars_concat units_trim_end units_chars)

lemma trim_end_trimmed: "trim_end_chars P us \<noteq> [] \<Longrightarrow> \<not> P (last (trim_end_chars P us))"
  unfolding trim_end_chars_def by (metis hd_dropWhile last_rev rev_is_Nil_conv)

lemma trim_end_head: "us \<noteq> [] \<Longrightarrow> \<not> P (hd us) \<Longrightarrow> trim_end_chars P us \<noteq> [] \<and> hd (trim_end_chars P us) = hd us"
proof -
  assume us: "us \<noteq> []" "\<not> P (hd us)"
  obtain vs where vs: "us = trim_end_chars P us @ vs" using trim_end_append by blast
  have "trim_end_chars P us \<noteq> []"
    using us by (auto simp: trim_end_chars_def dropWhile_eq_Nil_conv)
  with vs show ?thesis by (metis hd_append2)
qed

lemma trim_idem [simp]: "trim (trim s) = trim s"
proof -
  define us where "us = trim_start_chars is_whitespace (chars s)"
  define vs where "vs = trim_end_chars is_whitespace us"
  have c: "chars (trim s) = vs" by (simp add: chars_trim us_def vs_def)
  have "trim_start_chars is_whitespace vs = vs \<and> trim_end_chars is_whitespace vs = vs"
  proof (cases "us = []")
    case True
    then show ?thesis by (simp add: vs_def trim_start_chars_def trim_end_chars_def)
  next
    case False
    then have "\<not> is_whitespace (hd us)" unfolding us_def trim_start_chars_def by (rule hd_dropWhile)
    with False have h: "vs \<noteq> []" "hd vs = hd us" unfolding vs_def using trim_end_head by blast+
    have l: "\<not> is_whitespace (last vs)" using trim_end_trimmed h(1) unfolding vs_def by blast
    have "trim_start_chars is_whitespace vs = vs"
      using h \<open>\<not> is_whitespace (hd us)\<close> by (cases vs) (auto simp: trim_start_chars_def)
    moreover have "trim_end_chars is_whitespace vs = vs"
      using h(1) l by (cases vs rule: rev_cases) (auto simp: trim_end_chars_def)
    ultimately show ?thesis by simp
  qed
  then have "trim (trim s) = concat vs" by (simp only: trim_def [of "trim s"] c)
  also have "\<dots> = trim s" using c by (metis concat_chars)
  finally show ?thesis .
qed

section \<open>File names, excerpts, tags\<close>

lemma reserved_length: "reserved_file s \<Longrightarrow> length s = 3 \<or> length s = 4"
  unfolding reserved_file_def Let_def by (auto dest: arg_cong [where f = length])

lemma reserved_mark: "reserved_file s \<Longrightarrow> \<not> reserved_file (s @ ''_'')"
proof
  assume r: "reserved_file s" "reserved_file (s @ ''_'')"
  have "length (s @ ''_'') = 3 \<or> length (s @ ''_'') = 4" using reserved_length r(2) by blast
  then have "length s = 3" using reserved_length [OF r(1)] by auto
  then have u: "map ascii_upper s \<in> {''CON'', ''PRN'', ''AUX'', ''NUL''}"
    using r(1) by (auto simp: reserved_file_def Let_def)
  with r(2) show False by (auto simp: reserved_file_def Let_def)
qed

text \<open>
  The name of an exported file is safe. It is not empty, has no character that a system refuses, at most 80
  characters, and is no reserved name of a device.
\<close>

theorem file_name_safe:
  "sanitize_filename title \<noteq> [] \<and> list_all (\<lambda>ch. \<not> bad_file_char ch) (chars (sanitize_filename title))
    \<and> length (chars (sanitize_filename title)) \<le> 80 \<and> \<not> reserved_file (sanitize_filename title)"
proof -
  define us where "us = map (\<lambda>ch. if bad_file_char ch then ''_'' else ch) (chars title)"
  define out where "out = trim (trim_dots (trim (concat us)))"
  have mark: "\<not> is_cont CHR ''_''" "\<not> bad_file_char ''_''" by (simp_all add: is_cont_def bad_file_char_def is_control_def)
  have "units us" unfolding us_def by (rule units_map [OF units_chars]) (use mark in auto)
  then have "chars (concat us) = us" by (rule chars_concat)
  then have "set (chars out) \<subseteq> set us"
    using set_chars_trim [of "trim_dots (trim (concat us))"] set_chars_trim [of "concat us"] set_trim(2)
    unfolding out_def chars_trim_dots by (metis (no_types, lifting) subset_trans chars_trim_dots)
  then have good: "list_all (\<lambda>ch. \<not> bad_file_char ch) (chars out)" using mark(2) by (auto simp: us_def list_all_iff)
  show ?thesis
  proof (cases "out = []")
    case True
    then have "sanitize_filename title = default_file" by (simp add: sanitize_filename_def Let_def out_def us_def)
    then show ?thesis
      by (simp add: default_file_def is_cont_def bad_file_char_def is_control_def reserved_file_def Let_def)
  next
    case False
    define named where "named = (if reserved_file out then out @ ''_'' else out)"
    have cn: "chars named = (if reserved_file out then chars out @ [''_''] else chars out)"
      using chars_concat [OF units_snoc [OF units_chars mark(1), of out]] by (simp add: named_def)
    have n: "named \<noteq> []" "\<not> reserved_file named" using False by (auto simp: named_def reserved_mark)
    have f: "sanitize_filename title = (if 80 < length (chars named) then concat (take 80 (chars named)) else named)"
      using False by (simp add: sanitize_filename_def Let_def out_def us_def named_def)
    have g: "list_all (\<lambda>ch. \<not> bad_file_char ch) (chars named)" using good mark(2) by (simp add: cn)
    show ?thesis
    proof (cases "80 < length (chars named)")
      case True
      have c: "chars (concat (take 80 (chars named))) = take 80 (chars named)"
        by (simp add: chars_concat units_take units_chars)
      have "length us \<le> length (concat us)" if "units us" for us
        using that by (induction us) (auto simp: units_Cons Suc_le_eq neq_Nil_conv intro: le_trans)
      from this [OF units_take [OF units_chars, of 80 named]] True have "80 \<le> length (concat (take 80 (chars named)))" by simp
      then have "\<not> reserved_file (concat (take 80 (chars named)))" "concat (take 80 (chars named)) \<noteq> []"
        using reserved_length by force+
      then show ?thesis using True g by (simp only: f c if_True) (auto simp: list_all_iff dest: in_set_takeD)
    next
      case False
      then show ?thesis using g n by (simp add: f)
    qed
  qed
qed

lemma excerpt_short: "length (chars (excerpt body n)) \<le> n + 1"
proof -
  have "chars (concat (take n us) @ ellipsis) = take n us @ [ellipsis]" if "units us" for us
    using chars_concat [of "take n us @ [ellipsis]"] that units_take [OF that, of n]
    by (cases "take n us") (auto simp: units_def ellipsis_def is_cont_def)
  then show ?thesis using units_chars by (auto simp: excerpt_def Let_def)
qed

definition tag_ok :: "string \<Rightarrow> bool" where
  "tag_ok t \<longleftrightarrow> t \<noteq> [] \<and> trim t = t \<and> length (chars t) \<le> MAX_TAG_CHARS"

lemma collect_tags_ok:
  "collect_tags ts out = Inr res \<Longrightarrow> distinct out \<Longrightarrow> \<forall>t \<in> set out. tag_ok t \<Longrightarrow> distinct res \<and> (\<forall>t \<in> set res. tag_ok t)"
proof (induction ts out rule: collect_tags.induct)
  case (2 t ts out)
  show ?case
  proof (cases "trim t = [] \<or> trim t \<in> set out")
    case True
    with 2 show ?thesis by simp
  next
    case False
    with 2(3) have "collect_tags ts (out @ [trim t]) = Inr res" "\<not> MAX_TAG_CHARS < length (chars (trim t))"
      by (auto simp: Let_def)
    moreover from this(2) False have "tag_ok (trim t)" by (simp add: tag_ok_def)
    ultimately show ?thesis using 2(2) [of "trim t"] 2(4,5) False by simp
  qed
qed simp

lemma collect_tags_id:
  "distinct (out @ ts) \<Longrightarrow> \<forall>t \<in> set ts. tag_ok t \<Longrightarrow> collect_tags ts out = Inr (out @ ts)"
proof (induction ts arbitrary: out)
  case (Cons t ts)
  then have t: "trim t = t" "t \<noteq> []" "\<not> MAX_TAG_CHARS < length (chars t)" by (auto simp: tag_ok_def)
  show ?case using Cons t(2,3) by (simp add: t(1) bail_if_def)
qed simp

text \<open>Normalised tags are normalised again to themselves.\<close>

lemma tags_normal: "normalize_tags ts = Inr res \<Longrightarrow> normalize_tags res = Inr res \<and> distinct res \<and> length res \<le> MAX_TAGS_PER_MEMO"
  using collect_tags_ok [of ts "[]" res] collect_tags_id [of "[]" res]
  by (auto simp: normalize_tags_def bail_if_def split: if_splits)

text \<open>Dots are trimmed once only: a name can still end in a dot, which Windows drops.\<close>

lemma is_whitespace_single: "is_whitespace [c] \<longleftrightarrow> 9 \<le> code c \<and> code c \<le> 13 \<or> code c = 32"
proof -
  have "[n] \<in> set ([[9], [10], [11], [12], [13], [32], [194, 133], [194, 160], [225, 154, 128],
      [226, 128, 168], [226, 128, 169], [226, 128, 175], [226, 129, 159], [227, 128, 128]]
      @ map (\<lambda>n. [226, 128, n]) [128, 129, 130, 131, 132, 133, 134, 135, 136, 137, 138 :: nat])
    \<longleftrightarrow> n \<in> {9, 10, 11, 12, 13, 32}" for n :: nat by simp
  then have "is_whitespace [c] \<longleftrightarrow> code c \<in> {9, 10, 11, 12, 13, 32}" unfolding is_whitespace_def list.map .
  moreover have "n \<in> {9, 10, 11, 12, 13, 32} \<longleftrightarrow> 9 \<le> n \<and> n \<le> 13 \<or> n = 32" for n :: nat by (simp, presburger)
  ultimately show ?thesis by blast
qed

lemma file_name_keeps_dot: "sanitize_filename ''a. .'' = ''a.''"
proof -
  have c: "chars [CHR ''a'', CHR ''.'', CHR '' '', CHR ''.''] = [''a'', ''.'', '' '', ''.'']"
    "chars [CHR ''a'', CHR ''.'', CHR '' ''] = [''a'', ''.'', '' '']" "chars [CHR ''a'', CHR ''.''] = [''a'', ''.'']"
    by (simp_all add: is_cont_def)
  have b: "\<not> bad_file_char ''a''" "\<not> bad_file_char ''.''" "\<not> bad_file_char '' ''"
    by (simp_all add: bad_file_char_def is_control_def)
  have r: "\<not> reserved_file ''a.''" using reserved_length [of "''a.''"] by auto
  show ?thesis
    by (simp add: sanitize_filename_def c b r trim_def trim_dots_def trim_start_chars_def trim_end_chars_def
        is_whitespace_single del: chars.simps)
qed

end
