(* ===== verification/Memo_Store.thy ===== *)
theory Memo_Store
  imports Memo_Text "HOL-Library.Product_Lexorder"
begin

text \<open>
  The store of shared memos on the host, \<^verbatim>\<open>SharedStore\<close> of \<^verbatim>\<open>crates/peercove-memo/src/shared.rs\<close>, with the
  types of \<^verbatim>\<open>crates/peercove-core/src/memo.rs\<close>: permissions, revisions, history, trash, comments, folders and
  limits. A table is the list of its rows; each SQL statement of the source is the function on lists it stands for, and
  rows that an order leaves equal keep the order of the table. Times are milliseconds, one reading per operation;
  generated identifiers are inputs. Failures of the database itself are left out.
\<close>

section \<open>Permissions and actors\<close>

datatype perm_level = Perm_None | Viewer | Editor

fun perm_rank :: "perm_level \<Rightarrow> nat" where
  "perm_rank Perm_None = 0" | "perm_rank Viewer = 1" | "perm_rank Editor = 2"

instantiation perm_level :: linorder
begin

definition less_eq_perm_level :: "perm_level \<Rightarrow> perm_level \<Rightarrow> bool" where
  "less_eq_perm_level a b \<longleftrightarrow> perm_rank a \<le> perm_rank b"

definition less_perm_level :: "perm_level \<Rightarrow> perm_level \<Rightarrow> bool" where
  "less_perm_level a b \<longleftrightarrow> perm_rank a < perm_rank b"

instance
proof
  fix a b c :: perm_level
  show "a < b \<longleftrightarrow> a \<le> b \<and> \<not> b \<le> a" "a \<le> a" "a \<le> b \<or> b \<le> a"
    by (auto simp: less_eq_perm_level_def less_perm_level_def)
  show "a \<le> b \<Longrightarrow> b \<le> c \<Longrightarrow> a \<le> c" by (simp add: less_eq_perm_level_def)
  show "a \<le> b \<Longrightarrow> b \<le> a \<Longrightarrow> a = b" by (cases a; cases b; simp add: less_eq_perm_level_def)
qed

end

text \<open>The text of a level in the database, and how it is read.\<close>

fun level_to_str :: "perm_level \<Rightarrow> string" where
  "level_to_str Perm_None = ''none''" | "level_to_str Viewer = ''viewer''" | "level_to_str Editor = ''editor''"

definition level_from_str :: "string \<Rightarrow> perm_level" where
  "level_from_str s = (if s = ''editor'' then Editor else if s = ''none'' then Perm_None else Viewer)"

lemma level_text [simp]: "level_from_str (level_to_str l) = l"
  by (cases l) (simp_all add: level_from_str_def)

record actor =
  ac_member :: "string option"
  ac_name :: string
  ac_groups :: "string list"
  ac_admin :: bool

definition actor_host :: "string \<Rightarrow> actor" where
  "actor_host n = \<lparr>ac_member = None, ac_name = n, ac_groups = [], ac_admin = True\<rparr>"

definition actor_member :: "string \<Rightarrow> string \<Rightarrow> actor" where
  "actor_member i n = \<lparr>ac_member = Some i, ac_name = n, ac_groups = [], ac_admin = False\<rparr>"

definition with_groups :: "string list \<Rightarrow> actor \<Rightarrow> actor" where
  "with_groups gs a = a\<lparr>ac_groups := gs\<rparr>"

definition with_admin :: "bool \<Rightarrow> actor \<Rightarrow> actor" where
  "with_admin b a = a\<lparr>ac_admin := b\<rparr>"

definition is_host :: "actor \<Rightarrow> bool" where "is_host a \<longleftrightarrow> ac_member a = None"

definition owner_id :: "actor \<Rightarrow> string" where "owner_id a = (case ac_member a of Some i \<Rightarrow> i | None \<Rightarrow> [])"

section \<open>Limits\<close>

record memo_limits =
  lm_body_bytes :: nat
  lm_memo_count :: nat
  lm_total_bytes :: nat
  lm_versions :: nat
  lm_history_days :: nat
  lm_trash_days :: nat

definition default_limits :: memo_limits where
  "default_limits = \<lparr>lm_body_bytes = 256 * 1024, lm_memo_count = 10000, lm_total_bytes = 100 * 1024 * 1024,
     lm_versions = 100, lm_history_days = 30, lm_trash_days = 30\<rparr>"

datatype limit_error = Body_Bytes_Range | Memo_Count_Range | Total_Bytes_Range | Versions_Range | History_Days_Range | Trash_Days_Range

definition validate_limits :: "memo_limits \<Rightarrow> limit_error option" where
  "validate_limits l =
     err_then (err_when (\<not> (1024 \<le> lm_body_bytes l \<and> lm_body_bytes l \<le> 256 * 1024)) Body_Bytes_Range)
    (err_then (err_when (\<not> (1 \<le> lm_memo_count l \<and> lm_memo_count l \<le> 100000)) Memo_Count_Range)
    (err_then (err_when (\<not> (1024 * 1024 \<le> lm_total_bytes l \<and> lm_total_bytes l \<le> 1024 * 1024 * 1024)) Total_Bytes_Range)
    (err_then (err_when (\<not> (1 \<le> lm_versions l \<and> lm_versions l \<le> 1000)) Versions_Range)
    (err_then (err_when (\<not> (1 \<le> lm_history_days l \<and> lm_history_days l \<le> 365)) History_Days_Range)
       (err_when (\<not> (1 \<le> lm_trash_days l \<and> lm_trash_days l \<le> 365)) Trash_Days_Range)))))"

section \<open>Tables\<close>

record memo_row =
  mr_id :: string
  mr_title :: string
  mr_body :: string
  mr_folder :: "string option"
  mr_revision :: nat
  mr_owner_id :: string
  mr_owner_name :: string
  mr_created :: int
  mr_updated :: int
  mr_updated_by :: "string option"
  mr_everyone :: perm_level
  mr_deleted :: "int option"

record folder_row =
  fo_id :: string
  fo_name :: string
  fo_created :: int

text \<open>A permission of a member or of a group for a memo.\<close>

record perm_row =
  pr_memo :: string
  pr_who :: string
  pr_name :: string
  pr_level :: perm_level

record history_row =
  ht_hid :: nat
  ht_memo :: string
  ht_revision :: nat
  ht_kind :: string
  ht_saved_by :: string
  ht_title :: string
  ht_body :: string
  ht_created :: int

record comment_row =
  cm_id :: string
  cm_memo :: string
  cm_author_id :: string
  cm_author_name :: string
  cm_body :: string
  cm_created :: int

record memo_db =
  db_memos :: "memo_row list"
  db_folders :: "folder_row list"
  db_perms :: "perm_row list"
  db_group_perms :: "perm_row list"
  db_history :: "history_row list"
  db_next_hid :: nat
  db_comments :: "comment_row list"
  db_settings :: "(string \<times> string) list"
  db_deleted :: "(string \<times> int) list"

definition empty_memo_db :: memo_db where
  "empty_memo_db = \<lparr>db_memos = [], db_folders = [], db_perms = [], db_group_perms = [], db_history = [], db_next_hid = 1,
     db_comments = [], db_settings = [], db_deleted = []\<rparr>"

datatype memo_error =
    Memo_Not_Found | Memo_Not_Visible | Memo_Not_Editable | Competing_Edit | Bad_Text text_error | Too_Many_Memos
  | Capacity_Full | Folder_Not_Found | History_Not_Found | Not_Manager | Not_In_Trash | Comment_Empty | Comment_Too_Long
  | Too_Many_Comments | Comment_Not_Found | Comment_Not_Own | Not_Admin | Folder_Exists | Bad_Limit limit_error
  | Id_Exists | Locked_By string | Lock_Missing

section \<open>What an actor may do\<close>

record perm_context =
  pc_levels :: "(string, perm_level) hashmap"
  pc_names :: "(string, string) hashmap"
  pc_group_levels :: "(string, perm_level) hashmap"
  pc_groups :: "perm_row list"

definition by_name :: "perm_row list \<Rightarrow> perm_row list" where
  "by_name = sort_key (\<lambda>p. (pr_name p, pr_who p))"

definition perms_of :: "memo_db \<Rightarrow> string \<Rightarrow> (string, perm_level) hashmap \<times> (string, string) hashmap" where
  "perms_of db i =
     (let ps = filter (\<lambda>p. pr_memo p = i) (db_perms db)
      in (hm_collect (map (\<lambda>p. (pr_who p, pr_level p)) ps), hm_collect (map (\<lambda>p. (pr_who p, pr_name p)) ps)))"

definition group_perms_of :: "memo_db \<Rightarrow> string \<Rightarrow> (string, perm_level) hashmap \<times> perm_row list" where
  "group_perms_of db i =
     (let ps = filter (\<lambda>p. pr_memo p = i) (db_group_perms db)
      in (hm_collect (map (\<lambda>p. (pr_who p, pr_level p)) ps), by_name ps))"

definition perm_context :: "memo_db \<Rightarrow> string \<Rightarrow> perm_context" where
  "perm_context db i =
     (let (levels, names) = perms_of db i; (groups, list) = group_perms_of db i
      in \<lparr>pc_levels = levels, pc_names = names, pc_group_levels = groups, pc_groups = list\<rparr>)"

definition memo_ids_with_group_perms :: "memo_db \<Rightarrow> string list" where
  "memo_ids_with_group_perms db = remdups (map pr_memo (db_group_perms db))"

definition effective_level :: "memo_row \<Rightarrow> actor \<Rightarrow> perm_context \<Rightarrow> perm_level" where
  "effective_level r a ctx =
     (case hm_get (pc_levels ctx) (owner_id a) of
        Some l \<Rightarrow> l
      | None \<Rightarrow>
          (case List.map_filter (hm_get (pc_group_levels ctx)) (ac_groups a) of
             [] \<Rightarrow> mr_everyone r
           | l # ls \<Rightarrow> foldl max l ls))"

definition visible_to :: "memo_row \<Rightarrow> actor \<Rightarrow> perm_context \<Rightarrow> bool" where
  "visible_to r a ctx \<longleftrightarrow>
     is_host a \<or> ac_admin a \<or> mr_owner_id r = owner_id a
     \<or> mr_deleted r = None \<and> effective_level r a ctx \<noteq> Perm_None"

definition can_edit :: "memo_row \<Rightarrow> actor \<Rightarrow> perm_context \<Rightarrow> bool" where
  "can_edit r a ctx \<longleftrightarrow>
     mr_deleted r = None \<and> (is_host a \<or> mr_owner_id r = owner_id a \<or> effective_level r a ctx = Editor)"

definition can_manage :: "memo_row \<Rightarrow> actor \<Rightarrow> bool" where
  "can_manage r a \<longleftrightarrow> is_host a \<or> ac_admin a \<or> mr_owner_id r = owner_id a"

section \<open>What an actor gets to see\<close>

record memo_summary =
  sm_id :: string
  sm_title :: string
  sm_excerpt :: string
  sm_folder :: "string option"
  sm_revision :: nat
  sm_created :: int
  sm_updated :: int
  sm_updated_by :: "string option"
  sm_owner_id :: string
  sm_owner_name :: string
  sm_deleted :: "int option"
  sm_can_edit :: bool
  sm_can_manage :: bool
  sm_locked_by :: "string option"
  sm_checklist :: "nat \<times> nat"
  sm_comments :: nat

record memo_detail =
  sd_id :: string
  sd_title :: string
  sd_body :: string
  sd_folder :: "string option"
  sd_revision :: nat
  sd_created :: int
  sd_updated :: int
  sd_updated_by :: "string option"
  sd_owner_id :: string
  sd_owner_name :: string
  sd_deleted :: "int option"
  sd_can_edit :: bool
  sd_can_manage :: bool
  sd_locked_by :: "string option"
  sd_everyone :: "perm_level option"
  sd_members :: "(string \<times> string \<times> perm_level) list"
  sd_groups :: "(string \<times> string \<times> perm_level) list"
  sd_comments :: nat

definition comment_count :: "memo_db \<Rightarrow> string \<Rightarrow> nat" where
  "comment_count db i = length (filter (\<lambda>c. cm_memo c = i) (db_comments db))"

definition summary :: "memo_db \<Rightarrow> memo_row \<Rightarrow> actor \<Rightarrow> perm_context \<Rightarrow> memo_summary" where
  "summary db r a ctx =
     \<lparr>sm_id = mr_id r, sm_title = mr_title r, sm_excerpt = excerpt (mr_body r) EXCERPT_CHARS, sm_folder = mr_folder r,
      sm_revision = mr_revision r, sm_created = mr_created r, sm_updated = mr_updated r, sm_updated_by = mr_updated_by r,
      sm_owner_id = mr_owner_id r, sm_owner_name = mr_owner_name r, sm_deleted = mr_deleted r,
      sm_can_edit = can_edit r a ctx, sm_can_manage = can_manage r a, sm_locked_by = None,
      sm_checklist = checklist_progress (mr_body r), sm_comments = comment_count db (mr_id r)\<rparr>"

definition member_perms :: "perm_context \<Rightarrow> (string \<times> string \<times> perm_level) list" where
  "member_perms ctx =
     sort_key (\<lambda>(i, n, _). (n, i))
       (map (\<lambda>(i, l). (i, (case hm_get (pc_names ctx) i of Some n \<Rightarrow> n | None \<Rightarrow> []), l)) (pc_levels ctx))"

definition detail :: "memo_db \<Rightarrow> memo_row \<Rightarrow> actor \<Rightarrow> perm_context \<Rightarrow> memo_detail" where
  "detail db r a ctx =
     (let manage = can_manage r a
      in \<lparr>sd_id = mr_id r, sd_title = mr_title r, sd_body = mr_body r, sd_folder = mr_folder r,
          sd_revision = mr_revision r, sd_created = mr_created r, sd_updated = mr_updated r, sd_updated_by = mr_updated_by r,
          sd_owner_id = mr_owner_id r, sd_owner_name = mr_owner_name r, sd_deleted = mr_deleted r,
          sd_can_edit = can_edit r a ctx, sd_can_manage = manage, sd_locked_by = None,
          sd_everyone = (if manage then Some (mr_everyone r) else None),
          sd_members = (if manage then member_perms ctx else []),
          sd_groups = (if manage then map (\<lambda>p. (pr_who p, pr_name p, pr_level p)) (pc_groups ctx) else []),
          sd_comments = comment_count db (mr_id r)\<rparr>)"

section \<open>Reading\<close>

definition memo_of :: "memo_db \<Rightarrow> string \<Rightarrow> memo_error + memo_row" where
  "memo_of db i = (case find (\<lambda>r. mr_id r = i) (db_memos db) of Some r \<Rightarrow> Inr r | None \<Rightarrow> Inl Memo_Not_Found)"

definition visible_memo :: "memo_db \<Rightarrow> actor \<Rightarrow> string \<Rightarrow> memo_error + memo_row" where
  "visible_memo db a i =
     and_then (memo_of db i) (\<lambda>r. bail_if (\<not> visible_to r a (perm_context db i)) Memo_Not_Visible (Inr r))"

text \<open>What SQLite does with texts: a search for a quoted phrase, and \<^verbatim>\<open>LIKE\<close> with its escape.\<close>

record sql_text =
  fts_match :: "string \<Rightarrow> string \<Rightarrow> string \<Rightarrow> bool"
  sql_like :: "string \<Rightarrow> string \<Rightarrow> bool"

definition search_hit :: "sql_text \<Rightarrow> string \<Rightarrow> string \<Rightarrow> string \<Rightarrow> bool" where
  "search_hit tx q title body =
     (let q = kana_fold q
      in if 3 \<le> length (chars q) then
           fts_match tx (CHR 0x22 # concat (map (\<lambda>c. if c = CHR 0x22 then [CHR 0x22, CHR 0x22] else [c]) q) @ [CHR 0x22])
             (kana_fold title) (kana_fold body)
         else (let p = ''%'' @ escape_like q @ ''%''
               in sql_like tx p (kana_fold title) \<or> sql_like tx p (kana_fold body)))"

record memo_query =
  mq_trash :: bool
  mq_folder :: "string option"
  mq_search :: "string option"

record memo_folder =
  mf_id :: string
  mf_name :: string
  mf_count :: nat

definition list_folders :: "memo_db \<Rightarrow> memo_folder list" where
  "list_folders db =
     map (\<lambda>f. \<lparr>mf_id = fo_id f, mf_name = fo_name f,
           mf_count = length (filter (\<lambda>r. mr_folder r = Some (fo_id f) \<and> mr_deleted r = None) (db_memos db))\<rparr>)
       (sort_key (\<lambda>f. map ascii_lower (fo_name f)) (db_folders db))"

definition selected :: "sql_text \<Rightarrow> memo_query \<Rightarrow> memo_row \<Rightarrow> bool" where
  "selected tx q r \<longleftrightarrow>
     (mr_deleted r \<noteq> None) = mq_trash q
     \<and> (case mq_folder q of None \<Rightarrow> True | Some f \<Rightarrow> mr_folder r = Some f)
     \<and> (case mq_search q of None \<Rightarrow> True | Some t \<Rightarrow> trim t = [] \<or> search_hit tx (trim t) (mr_title r) (mr_body r))"

definition memo_time :: "memo_query \<Rightarrow> memo_row \<Rightarrow> int" where
  "memo_time q r = (if mq_trash q then (case mr_deleted r of Some t \<Rightarrow> t | None \<Rightarrow> 0) else mr_updated r)"

definition list_memos :: "sql_text \<Rightarrow> memo_db \<Rightarrow> actor \<Rightarrow> memo_query \<Rightarrow> memo_summary list \<times> memo_folder list" where
  "list_memos tx db a q =
     (List.map_filter (\<lambda>r. let ctx = perm_context db (mr_id r) in if visible_to r a ctx then Some (summary db r a ctx) else None)
        (sort_key (\<lambda>r. - memo_time q r) (filter (selected tx q) (db_memos db))),
      list_folders db)"

definition get_memo :: "memo_db \<Rightarrow> actor \<Rightarrow> string \<Rightarrow> memo_error + memo_detail" where
  "get_memo db a i = and_then (visible_memo db a i) (\<lambda>r. Inr (detail db r a (perm_context db i)))"

definition detail_if_visible :: "memo_db \<Rightarrow> actor \<Rightarrow> string \<Rightarrow> memo_detail option" where
  "detail_if_visible db a i =
     (case memo_of db i of
        Inl _ \<Rightarrow> None
      | Inr r \<Rightarrow>
          if mr_deleted r \<noteq> None then None
          else if \<not> visible_to r a (perm_context db i) then None
          else Some (detail db r a (perm_context db i)))"

definition titled :: "memo_db \<Rightarrow> string \<Rightarrow> memo_row option" where
  "titled db t =
     (case sort_key (\<lambda>r. - mr_updated r) (filter (\<lambda>r. mr_title r = t \<and> mr_deleted r = None) (db_memos db)) of
        [] \<Rightarrow> None | r # _ \<Rightarrow> Some r)"

definition resolve_title :: "memo_db \<Rightarrow> actor \<Rightarrow> string list \<times> (string, string) hashmap \<Rightarrow> string
    \<Rightarrow> string list \<times> (string, string) hashmap" where
  "resolve_title db a = (\<lambda>(seen, out) t.
     if t = [] \<or> t \<in> set seen then (seen, out)
     else (t # seen,
           (case titled db t of
              None \<Rightarrow> out
            | Some r \<Rightarrow> if visible_to r a (perm_context db (mr_id r)) then hm_insert t (mr_id r) out else out)))"

definition resolve_titles :: "memo_db \<Rightarrow> actor \<Rightarrow> string list \<Rightarrow> (string, string) hashmap" where
  "resolve_titles db a ts = snd (foldl (resolve_title db a) ([], []) ts)"

definition backlinks :: "sql_text \<Rightarrow> memo_db \<Rightarrow> actor \<Rightarrow> string \<Rightarrow> memo_error + memo_summary list" where
  "backlinks tx db a i =
     and_then (visible_memo db a i) (\<lambda>target.
       if mr_title target = [] then Inr []
       else (let p = ''%[['' @ escape_like (mr_title target) @ '']]%''
             in Inr (List.map_filter
                  (\<lambda>r. let ctx = perm_context db (mr_id r) in if visible_to r a ctx then Some (summary db r a ctx) else None)
                  (sort_key (\<lambda>r. - mr_updated r)
                    (filter (\<lambda>r. mr_deleted r = None \<and> mr_id r \<noteq> i \<and> sql_like tx p (mr_body r)) (db_memos db))))))"

section \<open>Limits in the database\<close>

text \<open>The six settings as numbers in decimal; what does not parse is ignored.\<close>

definition u64_max :: nat where "u64_max = 2 ^ 64 - 1"

definition u32_max :: nat where "u32_max = 2 ^ 32 - 1"

definition read_setting :: "string \<times> string \<Rightarrow> memo_limits \<Rightarrow> memo_limits" where
  "read_setting kv l =
     (case kv of (k, v) \<Rightarrow>
        if k = ''max_body_bytes'' then (case parse_unsigned u64_max v of Some n \<Rightarrow> l\<lparr>lm_body_bytes := n\<rparr> | None \<Rightarrow> l)
        else if k = ''max_memo_count'' then (case parse_unsigned u32_max v of Some n \<Rightarrow> l\<lparr>lm_memo_count := n\<rparr> | None \<Rightarrow> l)
        else if k = ''max_total_bytes'' then (case parse_unsigned u64_max v of Some n \<Rightarrow> l\<lparr>lm_total_bytes := n\<rparr> | None \<Rightarrow> l)
        else if k = ''max_versions'' then (case parse_unsigned u32_max v of Some n \<Rightarrow> l\<lparr>lm_versions := n\<rparr> | None \<Rightarrow> l)
        else if k = ''history_days'' then (case parse_unsigned u32_max v of Some n \<Rightarrow> l\<lparr>lm_history_days := n\<rparr> | None \<Rightarrow> l)
        else if k = ''trash_days'' then (case parse_unsigned u32_max v of Some n \<Rightarrow> l\<lparr>lm_trash_days := n\<rparr> | None \<Rightarrow> l)
        else l)"

definition limits_of :: "memo_db \<Rightarrow> memo_limits" where
  "limits_of db = fold read_setting (db_settings db) default_limits"

definition limit_settings :: "memo_limits \<Rightarrow> (string \<times> string) list" where
  "limit_settings l =
     [(''max_body_bytes'', show_nat (lm_body_bytes l)), (''max_memo_count'', show_nat (lm_memo_count l)),
      (''max_total_bytes'', show_nat (lm_total_bytes l)), (''max_versions'', show_nat (lm_versions l)),
      (''history_days'', show_nat (lm_history_days l)), (''trash_days'', show_nat (lm_trash_days l))]"

definition is_manager :: "actor \<Rightarrow> bool" where "is_manager a \<longleftrightarrow> is_host a \<or> ac_admin a"

definition set_limits :: "actor \<Rightarrow> memo_limits \<Rightarrow> memo_db \<Rightarrow> memo_error + memo_db" where
  "set_limits a l db =
     bail_if (\<not> is_manager a) Not_Admin
       (case validate_limits l of
          Some e \<Rightarrow> Inl (Bad_Limit e)
        | None \<Rightarrow> Inr (db\<lparr>db_settings := fold (\<lambda>(k, v). hm_insert k v) (limit_settings l) (db_settings db)\<rparr>))"

definition total_body_bytes :: "memo_db \<Rightarrow> nat" where
  "total_body_bytes db =
     sum_list (map (\<lambda>r. length (mr_body r)) (db_memos db)) + sum_list (map (\<lambda>h. length (ht_body h)) (db_history db))"

definition over_capacity :: "memo_db \<Rightarrow> memo_limits \<Rightarrow> nat \<Rightarrow> bool" where
  "over_capacity db l added \<longleftrightarrow> lm_total_bytes l < total_body_bytes db + added"

section \<open>History\<close>

definition DAY_MS :: int where "DAY_MS = 24 * 60 * 60 * 1000"

definition SHARED_HISTORY_INTERVAL_MS :: int where "SHARED_HISTORY_INTERVAL_MS = 10 * 60 * 1000"

definition TOMBSTONE_RETENTION_MS :: int where "TOMBSTONE_RETENTION_MS = 90 * 24 * 60 * 60 * 1000"

definition newest_first :: "history_row list \<Rightarrow> history_row list" where
  "newest_first = sort_key (\<lambda>h. (- ht_created h, - int (ht_hid h)))"

definition history_of :: "memo_db \<Rightarrow> string \<Rightarrow> history_row list" where
  "history_of db i = newest_first (filter (\<lambda>h. ht_memo h = i) (db_history db))"

definition trim_history :: "int \<Rightarrow> memo_limits \<Rightarrow> string \<Rightarrow> memo_db \<Rightarrow> memo_db" where
  "trim_history now l i db =
     (let top = map ht_hid (take (lm_versions l) (history_of db i));
          kept = filter (\<lambda>h. \<not> (ht_memo h = i \<and> ht_hid h \<notin> set top)) (db_history db);
          cutoff = now - int (lm_history_days l) * DAY_MS
      in db\<lparr>db_history := filter (\<lambda>h. \<not> (ht_memo h = i \<and> ht_created h < cutoff)) kept\<rparr>)"

definition snapshot_history :: "int \<Rightarrow> string \<Rightarrow> memo_row \<Rightarrow> memo_db \<Rightarrow> memo_db" where
  "snapshot_history now kind r db =
     trim_history now (limits_of db) (mr_id r)
       (db\<lparr>db_history := db_history db @
             [\<lparr>ht_hid = db_next_hid db, ht_memo = mr_id r, ht_revision = mr_revision r, ht_kind = kind,
               ht_saved_by = (case mr_updated_by r of Some n \<Rightarrow> n | None \<Rightarrow> mr_owner_name r),
               ht_title = mr_title r, ht_body = mr_body r, ht_created = now\<rparr>],
           db_next_hid := db_next_hid db + 1\<rparr>)"

definition maybe_auto_snapshot :: "int \<Rightarrow> memo_row \<Rightarrow> memo_db \<Rightarrow> memo_db" where
  "maybe_auto_snapshot now r db =
     (case history_of db (mr_id r) of
        [] \<Rightarrow> snapshot_history now ''auto'' r db
      | h # _ \<Rightarrow> if SHARED_HISTORY_INTERVAL_MS < now - ht_created h then snapshot_history now ''auto'' r db else db)"

definition snapshot_if_revision_changed :: "int \<Rightarrow> string \<Rightarrow> nat \<Rightarrow> memo_db \<Rightarrow> memo_error + memo_db" where
  "snapshot_if_revision_changed now i since db =
     and_then (memo_of db i) (\<lambda>r. Inr (if mr_revision r \<noteq> since then snapshot_history now ''close'' r db else db))"

definition save_version :: "int \<Rightarrow> actor \<Rightarrow> string \<Rightarrow> memo_db \<Rightarrow> memo_error + memo_db" where
  "save_version now a i db =
     and_then (memo_of db i) (\<lambda>r.
     bail_if (\<not> can_edit r a (perm_context db i)) Memo_Not_Editable
       (Inr (if \<exists>h hs. history_of db i = h # hs \<and> ht_revision h = mr_revision r then db
             else snapshot_history now ''manual'' r db)))"

record history_entry =
  he_hid :: nat
  he_revision :: nat
  he_kind :: string
  he_saved_by :: string
  he_created :: int
  he_title :: string
  he_body_bytes :: nat

definition entry_of :: "history_row \<Rightarrow> history_entry" where
  "entry_of h = \<lparr>he_hid = ht_hid h, he_revision = ht_revision h, he_kind = ht_kind h, he_saved_by = ht_saved_by h,
     he_created = ht_created h, he_title = ht_title h, he_body_bytes = length (ht_body h)\<rparr>"

definition history_list :: "memo_db \<Rightarrow> actor \<Rightarrow> string \<Rightarrow> memo_error + history_entry list" where
  "history_list db a i = and_then (visible_memo db a i) (\<lambda>_. Inr (map entry_of (history_of db i)))"

definition version_of :: "memo_db \<Rightarrow> string \<Rightarrow> nat \<Rightarrow> memo_error + history_row" where
  "version_of db i hid =
     (case find (\<lambda>h. ht_hid h = hid \<and> ht_memo h = i) (db_history db) of Some h \<Rightarrow> Inr h | None \<Rightarrow> Inl History_Not_Found)"

definition history_get :: "memo_db \<Rightarrow> actor \<Rightarrow> string \<Rightarrow> nat \<Rightarrow> memo_error + history_entry \<times> string" where
  "history_get db a i hid =
     and_then (visible_memo db a i) (\<lambda>_. and_then (version_of db i hid) (\<lambda>h. Inr (entry_of h, ht_body h)))"

definition history_diff :: "memo_db \<Rightarrow> actor \<Rightarrow> string \<Rightarrow> nat \<Rightarrow> nat option \<Rightarrow> memo_error + diff_line list" where
  "history_diff db a i from_hid to_hid =
     and_then (visible_memo db a i) (\<lambda>r.
     and_then (version_of db i from_hid) (\<lambda>h.
     and_then (case to_hid of Some hid \<Rightarrow> and_then (version_of db i hid) (\<lambda>h. Inr (ht_body h)) | None \<Rightarrow> Inr (mr_body r)) (\<lambda>t.
       Inr (diff_lines (ht_body h) t))))"

section \<open>Writing memos\<close>

definition update_memo :: "string \<Rightarrow> (memo_row \<Rightarrow> memo_row) \<Rightarrow> memo_db \<Rightarrow> memo_db" where
  "update_memo i f db = db\<lparr>db_memos := map (\<lambda>r. if mr_id r = i then f r else r) (db_memos db)\<rparr>"

text \<open>The statement that both an update and a restored version end with.\<close>

definition write_text :: "int \<Rightarrow> actor \<Rightarrow> string \<Rightarrow> string \<Rightarrow> string \<Rightarrow> memo_db \<Rightarrow> memo_db" where
  "write_text now a i title body =
     update_memo i (\<lambda>r. r\<lparr>mr_title := title, mr_body := body, mr_revision := mr_revision r + 1,
       mr_updated := now, mr_updated_by := Some (ac_name a)\<rparr>)"

definition text_check :: "text_error option \<Rightarrow> memo_error + 'a \<Rightarrow> memo_error + 'a" where
  "text_check e r = (case e of Some e \<Rightarrow> Inl (Bad_Text e) | None \<Rightarrow> r)"

definition new_memo :: "int \<Rightarrow> string \<Rightarrow> actor \<Rightarrow> string \<Rightarrow> string \<Rightarrow> string option \<Rightarrow> memo_row" where
  "new_memo now i a title body folder =
     \<lparr>mr_id = i, mr_title = title, mr_body = body, mr_folder = folder, mr_revision = 1, mr_owner_id = owner_id a,
      mr_owner_name = ac_name a, mr_created = now, mr_updated = now, mr_updated_by = Some (ac_name a),
      mr_everyone = Viewer, mr_deleted = None\<rparr>"

text \<open>An operation that returns a memo reads it back from the database it wrote.\<close>

definition with_detail :: "actor \<Rightarrow> string \<Rightarrow> memo_db \<Rightarrow> memo_error + memo_detail \<times> memo_db" where
  "with_detail a i db = and_then (get_memo db a i) (\<lambda>d. Inr (d, db))"

definition create_memo :: "int \<Rightarrow> string \<Rightarrow> actor \<Rightarrow> string \<Rightarrow> string \<Rightarrow> string option \<Rightarrow> memo_db
    \<Rightarrow> memo_error + memo_detail \<times> memo_db" where
  "create_memo now new_id a title body folder db =
     text_check (validate_title title)
    (text_check (validate_body_bytes body (lm_body_bytes (limits_of db)))
    (bail_if (lm_memo_count (limits_of db) \<le> length (db_memos db)) Too_Many_Memos
    (bail_if (over_capacity db (limits_of db) (length body)) Capacity_Full
    (bail_if (case folder of Some f \<Rightarrow> f \<notin> fo_id ` set (db_folders db) | None \<Rightarrow> False) Folder_Not_Found
    (bail_if (new_id \<in> mr_id ` set (db_memos db)) Id_Exists
      (with_detail a new_id (db\<lparr>db_memos := db_memos db @ [new_memo now new_id a title body folder]\<rparr>)))))))"

definition update_text :: "int \<Rightarrow> actor \<Rightarrow> string \<Rightarrow> nat \<Rightarrow> string \<Rightarrow> string \<Rightarrow> memo_db \<Rightarrow> memo_error + memo_detail \<times> memo_db" where
  "update_text now a i base title body db =
     text_check (validate_title title)
    (text_check (validate_body_bytes body (lm_body_bytes (limits_of db)))
    (and_then (visible_memo db a i) (\<lambda>r.
     bail_if (\<not> can_edit r a (perm_context db i)) Memo_Not_Editable
    (bail_if (mr_revision r \<noteq> base) Competing_Edit
    (bail_if (over_capacity db (limits_of db) (length body)) Capacity_Full
      (with_detail a i (write_text now a i title body (maybe_auto_snapshot now r db))))))))"

definition history_restore :: "int \<Rightarrow> actor \<Rightarrow> string \<Rightarrow> nat \<Rightarrow> memo_db \<Rightarrow> memo_error + memo_detail \<times> memo_db" where
  "history_restore now a i hid db =
     and_then (visible_memo db a i) (\<lambda>r.
     bail_if (\<not> can_edit r a (perm_context db i)) Memo_Not_Editable
    (and_then (version_of db i hid) (\<lambda>h.
     text_check (validate_title (ht_title h))
    (text_check (validate_body_bytes (ht_body h) (lm_body_bytes (limits_of db)))
    (bail_if (over_capacity db (limits_of db) (length (ht_body h))) Capacity_Full
      (with_detail a i (write_text now a i (ht_title h) (ht_body h) (snapshot_history now ''restore'' r db))))))))"

section \<open>Trash\<close>

definition purge_memo :: "int \<Rightarrow> string \<Rightarrow> memo_db \<Rightarrow> memo_db" where
  "purge_memo now i db =
     db\<lparr>db_history := filter (\<lambda>h. ht_memo h \<noteq> i) (db_history db),
        db_group_perms := filter (\<lambda>p. pr_memo p \<noteq> i) (db_group_perms db),
        db_comments := filter (\<lambda>c. cm_memo c \<noteq> i) (db_comments db),
        db_memos := filter (\<lambda>r. mr_id r \<noteq> i) (db_memos db),
        db_perms := filter (\<lambda>p. pr_memo p \<noteq> i) (db_perms db),
        db_deleted := hm_insert i now (db_deleted db)\<rparr>"

definition purge_expired :: "int \<Rightarrow> memo_db \<Rightarrow> nat \<times> memo_db" where
  "purge_expired now db =
     (let cutoff = now - int (lm_trash_days (limits_of db)) * DAY_MS;
          ids = map mr_id (filter (\<lambda>r. case mr_deleted r of Some t \<Rightarrow> t < cutoff | None \<Rightarrow> False) (db_memos db));
          db = fold (purge_memo now) ids db
      in (length ids, db\<lparr>db_deleted := filter (\<lambda>(_, t). \<not> t < now - TOMBSTONE_RETENTION_MS) (db_deleted db)\<rparr>))"

definition managed_memo :: "memo_db \<Rightarrow> actor \<Rightarrow> string \<Rightarrow> memo_error + memo_row" where
  "managed_memo db a i = and_then (memo_of db i) (\<lambda>r. bail_if (\<not> can_manage r a) Not_Manager (Inr r))"

definition trash_memo :: "int \<Rightarrow> actor \<Rightarrow> string \<Rightarrow> memo_db \<Rightarrow> memo_error + memo_db" where
  "trash_memo now a i db =
     and_then (managed_memo db a i) (\<lambda>_.
       Inr (update_memo i (\<lambda>r. if mr_deleted r = None then r\<lparr>mr_deleted := Some now\<rparr> else r) db))"

definition restore_memo :: "actor \<Rightarrow> string \<Rightarrow> memo_db \<Rightarrow> memo_error + memo_db" where
  "restore_memo a i db = and_then (managed_memo db a i) (\<lambda>_. Inr (update_memo i (\<lambda>r. r\<lparr>mr_deleted := None\<rparr>) db))"

definition delete_forever :: "int \<Rightarrow> actor \<Rightarrow> string \<Rightarrow> memo_db \<Rightarrow> memo_error + memo_db" where
  "delete_forever now a i db =
     and_then (managed_memo db a i) (\<lambda>r. bail_if (mr_deleted r = None) Not_In_Trash (Inr (purge_memo now i db)))"

section \<open>Permissions, comments, folders\<close>

definition put_perm :: "perm_row \<Rightarrow> perm_row list \<Rightarrow> perm_row list" where
  "put_perm p ps = filter (\<lambda>q. \<not> (pr_memo q = pr_memo p \<and> pr_who q = pr_who p)) ps @ [p]"

definition replace_perms :: "string \<Rightarrow> (string \<times> string \<times> perm_level) list \<Rightarrow> perm_row list \<Rightarrow> perm_row list" where
  "replace_perms i new ps =
     fold (\<lambda>(who, n, l). if who = [] then id else put_perm \<lparr>pr_memo = i, pr_who = who, pr_name = n, pr_level = l\<rparr>)
       new (filter (\<lambda>p. pr_memo p \<noteq> i) ps)"

definition set_perms :: "actor \<Rightarrow> string \<Rightarrow> perm_level \<Rightarrow> (string \<times> string \<times> perm_level) list
    \<Rightarrow> (string \<times> string \<times> perm_level) list option \<Rightarrow> memo_db \<Rightarrow> memo_error + memo_detail \<times> memo_db" where
  "set_perms a i everyone members groups db =
     and_then (managed_memo db a i) (\<lambda>_.
       (let db = update_memo i (\<lambda>r. r\<lparr>mr_everyone := everyone\<rparr>) db;
            db = db\<lparr>db_perms := replace_perms i members (db_perms db)\<rparr>;
            db = (case groups of None \<Rightarrow> db | Some gs \<Rightarrow> db\<lparr>db_group_perms := replace_perms i gs (db_group_perms db)\<rparr>)
        in with_detail a i db))"

definition MAX_COMMENT_BODY_BYTES :: nat where "MAX_COMMENT_BODY_BYTES = 4 * 1024"

definition MAX_COMMENTS_PER_MEMO :: nat where "MAX_COMMENTS_PER_MEMO = 500"

definition comment_list :: "memo_db \<Rightarrow> actor \<Rightarrow> string \<Rightarrow> memo_error + comment_row list" where
  "comment_list db a i =
     and_then (visible_memo db a i) (\<lambda>_.
       Inr (sort_key (\<lambda>c. (cm_created c, cm_id c)) (filter (\<lambda>c. cm_memo c = i) (db_comments db))))"

definition comment_add :: "int \<Rightarrow> string \<Rightarrow> actor \<Rightarrow> string \<Rightarrow> string \<Rightarrow> memo_db \<Rightarrow> memo_error + comment_row \<times> memo_db" where
  "comment_add now new_id a i body db =
     and_then (visible_memo db a i) (\<lambda>_.
       (let body = trim body;
            c = \<lparr>cm_id = new_id, cm_memo = i, cm_author_id = owner_id a, cm_author_name = ac_name a, cm_body = body, cm_created = now\<rparr>
        in bail_if (body = []) Comment_Empty
          (bail_if (MAX_COMMENT_BODY_BYTES < length body) Comment_Too_Long
          (bail_if (MAX_COMMENTS_PER_MEMO \<le> comment_count db i) Too_Many_Comments
          (bail_if (new_id \<in> cm_id ` set (db_comments db)) Id_Exists
            (Inr (c, db\<lparr>db_comments := db_comments db @ [c]\<rparr>)))))))"

definition comment_delete :: "actor \<Rightarrow> string \<Rightarrow> string \<Rightarrow> memo_db \<Rightarrow> memo_error + memo_db" where
  "comment_delete a i cid db =
     and_then (visible_memo db a i) (\<lambda>r.
       (case find (\<lambda>c. cm_id c = cid \<and> cm_memo c = i) (db_comments db) of
          None \<Rightarrow> Inl Comment_Not_Found
        | Some c \<Rightarrow>
            bail_if (cm_author_id c \<noteq> owner_id a \<and> \<not> can_manage r a) Comment_Not_Own
              (Inr (db\<lparr>db_comments := filter (\<lambda>c. \<not> (cm_id c = cid \<and> cm_memo c = i)) (db_comments db)\<rparr>))))"

definition folder_name :: "string \<Rightarrow> memo_error + string" where
  "folder_name n = (case validate_folder_name n of Inl e \<Rightarrow> Inl (Bad_Text e) | Inr n \<Rightarrow> Inr n)"

definition folder_create :: "int \<Rightarrow> string \<Rightarrow> actor \<Rightarrow> string \<Rightarrow> memo_db \<Rightarrow> memo_error + memo_folder \<times> memo_db" where
  "folder_create now new_id a n db =
     bail_if (\<not> is_manager a) Not_Admin
    (and_then (folder_name n) (\<lambda>n.
     bail_if (n \<in> fo_name ` set (db_folders db)) Folder_Exists
    (bail_if (new_id \<in> fo_id ` set (db_folders db)) Id_Exists
      (Inr (\<lparr>mf_id = new_id, mf_name = n, mf_count = 0\<rparr>,
            db\<lparr>db_folders := db_folders db @ [\<lparr>fo_id = new_id, fo_name = n, fo_created = now\<rparr>]\<rparr>)))))"

definition folder_rename :: "actor \<Rightarrow> string \<Rightarrow> string \<Rightarrow> memo_db \<Rightarrow> memo_error + memo_db" where
  "folder_rename a i n db =
     bail_if (\<not> is_manager a) Not_Admin
    (and_then (folder_name n) (\<lambda>n.
     bail_if (i \<notin> fo_id ` set (db_folders db)) Folder_Not_Found
      (Inr (db\<lparr>db_folders := map (\<lambda>f. if fo_id f = i then f\<lparr>fo_name := n\<rparr> else f) (db_folders db)\<rparr>))))"

definition folder_delete :: "actor \<Rightarrow> string \<Rightarrow> memo_db \<Rightarrow> memo_error + memo_db" where
  "folder_delete a i db =
     bail_if (\<not> is_manager a) Not_Admin
    (bail_if (i \<notin> fo_id ` set (db_folders db)) Folder_Not_Found
      (Inr (db\<lparr>db_memos := map (\<lambda>r. if mr_folder r = Some i then r\<lparr>mr_folder := None\<rparr> else r) (db_memos db),
               db_folders := filter (\<lambda>f. fo_id f \<noteq> i) (db_folders db)\<rparr>)))"

section \<open>Frames\<close>

text \<open>What the operations leave alone.\<close>

lemma trim_frame [simp]:
  "db_memos (trim_history now l i db) = db_memos db" "db_folders (trim_history now l i db) = db_folders db"
  "db_perms (trim_history now l i db) = db_perms db" "db_group_perms (trim_history now l i db) = db_group_perms db"
  "db_comments (trim_history now l i db) = db_comments db" "db_settings (trim_history now l i db) = db_settings db"
  "db_deleted (trim_history now l i db) = db_deleted db" "db_next_hid (trim_history now l i db) = db_next_hid db"
  by (simp_all add: trim_history_def Let_def)

lemma snapshot_frame [simp]:
  "db_memos (snapshot_history now k r db) = db_memos db" "db_folders (snapshot_history now k r db) = db_folders db"
  "db_perms (snapshot_history now k r db) = db_perms db" "db_group_perms (snapshot_history now k r db) = db_group_perms db"
  "db_comments (snapshot_history now k r db) = db_comments db" "db_settings (snapshot_history now k r db) = db_settings db"
  "db_deleted (snapshot_history now k r db) = db_deleted db" "db_next_hid (snapshot_history now k r db) = db_next_hid db + 1"
  by (simp_all add: snapshot_history_def)

lemma auto_frame [simp]:
  "db_memos (maybe_auto_snapshot now r db) = db_memos db" "db_folders (maybe_auto_snapshot now r db) = db_folders db"
  "db_perms (maybe_auto_snapshot now r db) = db_perms db" "db_group_perms (maybe_auto_snapshot now r db) = db_group_perms db"
  "db_comments (maybe_auto_snapshot now r db) = db_comments db" "db_settings (maybe_auto_snapshot now r db) = db_settings db"
  "db_deleted (maybe_auto_snapshot now r db) = db_deleted db"
  by (simp_all add: maybe_auto_snapshot_def split: list.split)

lemma update_frame [simp]:
  "db_folders (update_memo i f db) = db_folders db" "db_perms (update_memo i f db) = db_perms db"
  "db_group_perms (update_memo i f db) = db_group_perms db" "db_history (update_memo i f db) = db_history db"
  "db_comments (update_memo i f db) = db_comments db" "db_settings (update_memo i f db) = db_settings db"
  "db_deleted (update_memo i f db) = db_deleted db" "db_next_hid (update_memo i f db) = db_next_hid db"
  by (simp_all add: update_memo_def)

lemma limits_cong: "db_settings db = db_settings db' \<Longrightarrow> limits_of db = limits_of db'"
  by (simp add: limits_of_def)

lemma perm_context_cong:
  "db_perms db = db_perms db' \<Longrightarrow> db_group_perms db = db_group_perms db' \<Longrightarrow> perm_context db i = perm_context db' i"
  by (simp add: perm_context_def perms_of_def group_perms_of_def)

lemma memo_of_Inr: "memo_of db i = Inr r \<Longrightarrow> r \<in> set (db_memos db) \<and> mr_id r = i"
  by (auto simp: memo_of_def split: option.splits dest: find_Some_set)

lemma memo_of_cong: "db_memos db = db_memos db' \<Longrightarrow> memo_of db i = memo_of db' i"
  by (simp add: memo_of_def)

lemma find_map_same_key:
  assumes "\<And>r. mr_id (f r) = mr_id r"
  shows "find (\<lambda>r. mr_id r = i) (map f rs) = map_option f (find (\<lambda>r. mr_id r = i) rs)"
  by (induction rs) (simp_all add: assms)

lemma memo_of_update:
  assumes "\<And>r. mr_id (f r) = mr_id r"
  shows "memo_of (update_memo i f db) j = (case memo_of db j of Inl e \<Rightarrow> Inl e | Inr r \<Rightarrow> Inr (if j = i then f r else r))"
proof -
  have "find (\<lambda>r. mr_id r = j) (map (\<lambda>r. if mr_id r = i then f r else r) rs)
      = map_option (\<lambda>r. if mr_id r = i then f r else r) (find (\<lambda>r. mr_id r = j) rs)" for rs
    by (rule find_map_same_key) (simp add: assms)
  then show ?thesis by (auto simp: memo_of_def update_memo_def split: option.splits dest: find_Some_set)
qed

lemma visible_Inr:
  "visible_memo db a i = Inr r \<longleftrightarrow> memo_of db i = Inr r \<and> visible_to r a (perm_context db i)"
  by (auto simp: visible_memo_def)

lemma managed_Inr: "managed_memo db a i = Inr r \<longleftrightarrow> memo_of db i = Inr r \<and> can_manage r a"
  by (auto simp: managed_memo_def)

lemma manage_visible: "can_manage r a \<Longrightarrow> visible_to r a ctx"
  by (auto simp: can_manage_def visible_to_def)

lemma edit_visible: "can_edit r a ctx \<Longrightarrow> visible_to r a ctx"
  by (auto simp: can_edit_def visible_to_def)

text \<open>Who may see and edit a memo before an operation may still do so after it.\<close>

lemma level_cong: "mr_everyone r = mr_everyone r' \<Longrightarrow> effective_level r a ctx = effective_level r' a ctx"
  by (simp add: effective_level_def split: option.split list.split)

lemma visible_cong:
  assumes "mr_everyone r = mr_everyone r'" "mr_owner_id r = mr_owner_id r'" "mr_deleted r = mr_deleted r'"
  shows "visible_to r a ctx = visible_to r' a ctx" "can_edit r a ctx = can_edit r' a ctx" "can_manage r a = can_manage r' a"
  using level_cong [OF assms(1)] assms(2,3) by (simp_all add: visible_to_def can_edit_def can_manage_def)

section \<open>Operations that return a memo\<close>

text \<open>The reading at the end of such an operation succeeds: no operation fails after its first write.\<close>

lemma write_text_memo:
  "memo_of (write_text now a i title body db) j =
     (case memo_of db j of Inl e \<Rightarrow> Inl e
      | Inr r \<Rightarrow> Inr (if j = i then r\<lparr>mr_title := title, mr_body := body, mr_revision := mr_revision r + 1,
           mr_updated := now, mr_updated_by := Some (ac_name a)\<rparr> else r))"
  unfolding write_text_def by (rule memo_of_update) simp

lemma write_text_frame [simp]:
  "db_folders (write_text now a i t b db) = db_folders db" "db_perms (write_text now a i t b db) = db_perms db"
  "db_group_perms (write_text now a i t b db) = db_group_perms db" "db_history (write_text now a i t b db) = db_history db"
  "db_comments (write_text now a i t b db) = db_comments db" "db_settings (write_text now a i t b db) = db_settings db"
  "db_deleted (write_text now a i t b db) = db_deleted db" "db_next_hid (write_text now a i t b db) = db_next_hid db"
  by (simp_all add: write_text_def)

lemma written_visible:
  assumes "memo_of db i = Inr r" and "visible_to r a (perm_context db i)"
    and "db_memos db' = db_memos db" and "db_perms db' = db_perms db" and "db_group_perms db' = db_group_perms db"
  shows "with_detail a i (write_text now a i t b db')
    = Inr (detail (write_text now a i t b db') (r\<lparr>mr_title := t, mr_body := b, mr_revision := mr_revision r + 1,
        mr_updated := now, mr_updated_by := Some (ac_name a)\<rparr>) a (perm_context db i), write_text now a i t b db')"
proof -
  have m: "memo_of db' i = Inr r" using assms(1,3) by (simp add: memo_of_def)
  have c: "perm_context (write_text now a i t b db') i = perm_context db i"
    using assms(4,5) by (intro perm_context_cong) simp_all
  have "visible_to (r\<lparr>mr_title := t, mr_body := b, mr_revision := mr_revision r + 1, mr_updated := now,
      mr_updated_by := Some (ac_name a)\<rparr>) a (perm_context db i)"
    using assms(2) visible_cong(1) [of r "r\<lparr>mr_title := t, mr_body := b, mr_revision := mr_revision r + 1, mr_updated := now,
      mr_updated_by := Some (ac_name a)\<rparr>"] by simp
  then show ?thesis by (simp add: with_detail_def get_memo_def visible_memo_def write_text_memo m c bail_if_def)
qed

lemma created_visible:
  assumes "new_id \<notin> mr_id ` set (db_memos db)"
  shows "\<exists>d. with_detail a new_id (db\<lparr>db_memos := db_memos db @ [new_memo now new_id a title body folder]\<rparr>)
    = Inr (d, db\<lparr>db_memos := db_memos db @ [new_memo now new_id a title body folder]\<rparr>)"
proof -
  have "find (\<lambda>r. mr_id r = new_id) (db_memos db) = None" using assms by (auto simp: find_None_iff)
  moreover have "find P (xs @ [x]) = (case find P xs of None \<Rightarrow> if P x then Some x else None | Some y \<Rightarrow> Some y)" for P xs and x :: memo_row
    by (induction xs) auto
  ultimately have m: "memo_of (db\<lparr>db_memos := db_memos db @ [new_memo now new_id a title body folder]\<rparr>) new_id
      = Inr (new_memo now new_id a title body folder)" by (simp add: memo_of_def new_memo_def)
  have "visible_to (new_memo now new_id a title body folder) a ctx" for ctx by (simp add: visible_to_def new_memo_def)
  with m show ?thesis by (simp add: with_detail_def get_memo_def visible_memo_def bail_if_def)
qed

lemma perms_set_visible:
  assumes "memo_of db i = Inr r" and "can_manage r a"
  shows "\<exists>d db'. set_perms a i everyone members groups db = Inr (d, db')
    \<and> memo_of db' = (\<lambda>j. case memo_of db j of Inl e \<Rightarrow> Inl e | Inr r \<Rightarrow> Inr (if j = i then r\<lparr>mr_everyone := everyone\<rparr> else r))"
proof -
  define db1 where "db1 = update_memo i (\<lambda>r. r\<lparr>mr_everyone := everyone\<rparr>) db"
  define db2 where "db2 = db1\<lparr>db_perms := replace_perms i members (db_perms db1)\<rparr>"
  define db3 where "db3 = (case groups of None \<Rightarrow> db2 | Some gs \<Rightarrow> db2\<lparr>db_group_perms := replace_perms i gs (db_group_perms db2)\<rparr>)"
  have m: "memo_of db3 = memo_of db1" by (auto simp: memo_of_def db3_def db2_def split: option.split)
  have u: "memo_of db1 j = (case memo_of db j of Inl e \<Rightarrow> Inl e | Inr r \<Rightarrow> Inr (if j = i then r\<lparr>mr_everyone := everyone\<rparr> else r))" for j
    unfolding db1_def by (rule memo_of_update) simp
  have "can_manage (r\<lparr>mr_everyone := everyone\<rparr>) a" using assms(2) by (simp add: can_manage_def)
  then have "visible_to (r\<lparr>mr_everyone := everyone\<rparr>) a ctx" for ctx by (rule manage_visible)
  then obtain d where d: "with_detail a i db3 = Inr (d, db3)"
    using u [of i] assms(1) by (auto simp: with_detail_def get_memo_def visible_memo_def m bail_if_def)
  have "set_perms a i everyone members groups db = with_detail a i db3"
    using assms by (cases groups) (simp_all add: set_perms_def managed_memo_def bail_if_def Let_def db1_def db2_def db3_def)
  with d m u show ?thesis by (intro exI [of _ d] exI [of _ db3]) (simp add: fun_eq_iff)
qed

end
