(* ===== verification/Memo_Laws.thy ===== *)
theory Memo_Laws
  imports Memo_Store
begin

text \<open>
  What the store of shared memos promises: its invariant, which every operation keeps; the bound on its size and on
  its history; the settings read back; and that a version that is restored leaves the text before it in the history.
\<close>

section \<open>Settings\<close>

definition setting :: "string \<Rightarrow> nat \<Rightarrow> nat \<Rightarrow> (string \<times> string) list \<Rightarrow> nat" where
  "setting k bound d kvs =
     (case map_of kvs k of None \<Rightarrow> d | Some v \<Rightarrow> (case parse_unsigned bound v of Some n \<Rightarrow> n | None \<Rightarrow> d))"

lemma setting_Nil [simp]: "setting k bound d [] = d"
  by (simp add: setting_def)

lemma setting_Cons:
  assumes "k' \<notin> fst ` set kvs"
  shows "setting k bound d ((k', v) # kvs)
    = (if k = k' then (case parse_unsigned bound v of Some n \<Rightarrow> n | None \<Rightarrow> d) else setting k bound d kvs)"
  using assms by (auto simp: setting_def map_of_eq_None_iff)

lemma setting_absent: "k \<notin> fst ` set kvs \<Longrightarrow> setting k bound d kvs = d"
  by (simp add: setting_def map_of_eq_None_iff [THEN iffD2])

lemma fold_field:
  assumes "\<And>k v l. F (read_setting (k, v) l) = (if k = K then (case parse_unsigned B v of Some n \<Rightarrow> n | None \<Rightarrow> F l) else F l)"
    and "distinct (map fst kvs)"
  shows "F (fold read_setting kvs l) = setting K B (F l) kvs"
  using assms(2)
proof (induction kvs arbitrary: l)
  case (Cons kv kvs)
  obtain k v where kv: "kv = (k, v)" by (cases kv) auto
  with Cons.prems have k: "k \<notin> fst ` set kvs" "distinct (map fst kvs)" by auto
  show ?case using Cons.IH [OF k(2), of "read_setting (k, v) l"] k(1)
    by (simp add: kv setting_Cons assms(1) setting_absent)
qed simp

lemma read_fields:
  "lm_body_bytes (read_setting (k, v) l) = (if k = ''max_body_bytes'' then (case parse_unsigned u64_max v of Some n \<Rightarrow> n | None \<Rightarrow> lm_body_bytes l) else lm_body_bytes l)"
  "lm_memo_count (read_setting (k, v) l) = (if k = ''max_memo_count'' then (case parse_unsigned u32_max v of Some n \<Rightarrow> n | None \<Rightarrow> lm_memo_count l) else lm_memo_count l)"
  "lm_total_bytes (read_setting (k, v) l) = (if k = ''max_total_bytes'' then (case parse_unsigned u64_max v of Some n \<Rightarrow> n | None \<Rightarrow> lm_total_bytes l) else lm_total_bytes l)"
  "lm_versions (read_setting (k, v) l) = (if k = ''max_versions'' then (case parse_unsigned u32_max v of Some n \<Rightarrow> n | None \<Rightarrow> lm_versions l) else lm_versions l)"
  "lm_history_days (read_setting (k, v) l) = (if k = ''history_days'' then (case parse_unsigned u32_max v of Some n \<Rightarrow> n | None \<Rightarrow> lm_history_days l) else lm_history_days l)"
  "lm_trash_days (read_setting (k, v) l) = (if k = ''trash_days'' then (case parse_unsigned u32_max v of Some n \<Rightarrow> n | None \<Rightarrow> lm_trash_days l) else lm_trash_days l)"
  by (simp_all add: read_setting_def split: option.split)

lemma read_settings_fold:
  assumes "distinct (map fst kvs)"
  shows "fold read_setting kvs l =
    \<lparr>lm_body_bytes = setting ''max_body_bytes'' u64_max (lm_body_bytes l) kvs,
     lm_memo_count = setting ''max_memo_count'' u32_max (lm_memo_count l) kvs,
     lm_total_bytes = setting ''max_total_bytes'' u64_max (lm_total_bytes l) kvs,
     lm_versions = setting ''max_versions'' u32_max (lm_versions l) kvs,
     lm_history_days = setting ''history_days'' u32_max (lm_history_days l) kvs,
     lm_trash_days = setting ''trash_days'' u32_max (lm_trash_days l) kvs\<rparr>"
  using fold_field [of lm_body_bytes, OF read_fields(1) assms] fold_field [of lm_memo_count, OF read_fields(2) assms]
    fold_field [of lm_total_bytes, OF read_fields(3) assms] fold_field [of lm_versions, OF read_fields(4) assms]
    fold_field [of lm_history_days, OF read_fields(5) assms] fold_field [of lm_trash_days, OF read_fields(6) assms]
  by (simp add: memo_limits.equality)

lemma settings_put_get:
  assumes "hm_ok m" and "distinct (map fst kvs)"
  shows "hm_get (fold (\<lambda>(k, v). hm_insert k v) kvs m) k = (case map_of kvs k of Some v \<Rightarrow> Some v | None \<Rightarrow> hm_get m k)"
    and "hm_ok (fold (\<lambda>(k, v). hm_insert k v) kvs m)"
  using assms
proof (induction kvs arbitrary: m)
  case (Cons kv kvs)
  obtain k' v where kv: "kv = (k', v)" by (cases kv) auto
  { case 1
    with kv have "map_of kvs k' = None" by (simp add: map_of_eq_None_iff)
    with 1 kv Cons.IH(1) [of "hm_insert k' v m"] show ?case by (auto simp: hm.ok_insert hm.get_insert split: option.split)
  next
    case 2
    with kv Cons.IH(2) [of "hm_insert k' v m"] show ?case by (simp add: hm.ok_insert)
  }
qed simp_all

lemma limits_valid_bounds:
  "validate_limits l = None \<Longrightarrow> lm_body_bytes l \<le> u64_max \<and> lm_memo_count l \<le> u32_max \<and> lm_total_bytes l \<le> u64_max
    \<and> lm_versions l \<le> u32_max \<and> lm_history_days l \<le> u32_max \<and> lm_trash_days l \<le> u32_max"
  by (simp add: validate_limits_def u64_max_def u32_max_def)

lemma limits_read_back':
  assumes "hm_ok (db_settings db)" and "set_limits a l db = Inr db'"
  shows "limits_of db' = l"
proof -
  have v: "validate_limits l = None" and s: "db_settings db' = fold (\<lambda>(k, v). hm_insert k v) (limit_settings l) (db_settings db)"
    using assms(2) by (auto simp: set_limits_def split: option.splits)
  have d: "distinct (map fst (limit_settings l))" by (simp add: limit_settings_def)
  have ok: "distinct (map fst (db_settings db'))"
    using settings_put_get(2) [OF assms(1) d] by (simp add: s hm_ok_def)
  have g: "map_of (db_settings db') k = (case map_of (limit_settings l) k of Some v \<Rightarrow> Some v | None \<Rightarrow> map_of (db_settings db) k)" for k
    using settings_put_get(1) [OF assms(1) d, of k] by (simp add: s hm_get_def split: option.split)
  have "limits_of db' = \<lparr>lm_body_bytes = lm_body_bytes l, lm_memo_count = lm_memo_count l, lm_total_bytes = lm_total_bytes l,
      lm_versions = lm_versions l, lm_history_days = lm_history_days l, lm_trash_days = lm_trash_days l\<rparr>"
    unfolding limits_of_def read_settings_fold [OF ok]
    using limits_valid_bounds [OF v] by (simp add: setting_def g limit_settings_def parse_show_nat)
  then show ?thesis by simp
qed

text \<open>
  The limits are read back as they were set. They are stored as decimal texts, one per limit, and read with a
  default for each that is missing or does not parse.
\<close>

theorem limits_read_back: "hm_ok (db_settings db) \<Longrightarrow> set_limits a l db = Inr db' \<Longrightarrow> limits_of db' = l"
  by (rule limits_read_back')

section \<open>Invariant\<close>

definition memo_ids :: "memo_db \<Rightarrow> string set" where
  "memo_ids db = mr_id ` set (db_memos db)"

definition perm_key :: "perm_row \<Rightarrow> string \<times> string" where
  "perm_key p = (pr_memo p, pr_who p)"

definition perms_ok :: "string set \<Rightarrow> perm_row list \<Rightarrow> bool" where
  "perms_ok ids ps \<longleftrightarrow> pr_memo ` set ps \<subseteq> ids \<and> distinct (map perm_key ps) \<and> (\<forall>p \<in> set ps. pr_who p \<noteq> [])"

definition folders_ok :: "memo_db \<Rightarrow> bool" where
  "folders_ok db \<longleftrightarrow> distinct (map fo_id (db_folders db))
     \<and> (\<forall>r \<in> set (db_memos db). \<forall>f. mr_folder r = Some f \<longrightarrow> f \<in> fo_id ` set (db_folders db))"

definition history_ok :: "memo_db \<Rightarrow> bool" where
  "history_ok db \<longleftrightarrow> ht_memo ` set (db_history db) \<subseteq> memo_ids db \<and> distinct (map ht_hid (db_history db))
     \<and> (\<forall>h \<in> set (db_history db). ht_hid h < db_next_hid db)"

definition comments_ok :: "memo_db \<Rightarrow> bool" where
  "comments_ok db \<longleftrightarrow> cm_memo ` set (db_comments db) \<subseteq> memo_ids db \<and> distinct (map cm_id (db_comments db))"

definition limits_ok :: "memo_db \<Rightarrow> bool" where
  "limits_ok db \<longleftrightarrow> hm_ok (db_settings db) \<and> validate_limits (limits_of db) = None"

definition memo_ok :: "memo_db \<Rightarrow> bool" where
  "memo_ok db \<longleftrightarrow> distinct (map mr_id (db_memos db)) \<and> folders_ok db \<and> perms_ok (memo_ids db) (db_perms db)
     \<and> perms_ok (memo_ids db) (db_group_perms db) \<and> history_ok db \<and> comments_ok db \<and> limits_ok db"

lemmas memo_ok_defs = memo_ok_def folders_ok_def perms_ok_def history_ok_def comments_ok_def limits_ok_def memo_ids_def

lemma empty_ok: "memo_ok empty_memo_db"
  by (simp add: memo_ok_defs empty_memo_db_def hm.ok_empty limits_of_def default_limits_def validate_limits_def)

lemma update_ids:
  assumes "\<And>r. mr_id (f r) = mr_id r"
  shows "map mr_id (db_memos (update_memo i f db)) = map mr_id (db_memos db)"
  by (simp add: update_memo_def comp_def assms)

lemma update_ok:
  assumes "memo_ok db" and "\<And>r. mr_id (f r) = mr_id r" and "\<And>r. mr_folder (f r) = mr_folder r"
  shows "memo_ok (update_memo i f db)"
proof -
  have ids: "memo_ids (update_memo i f db) = memo_ids db"
    unfolding memo_ids_def using update_ids [of f i db] assms(2) by (metis list.set_map)
  have "folders_ok (update_memo i f db)"
    using assms(1,3) by (auto simp: memo_ok_def folders_ok_def update_memo_def split: if_splits)
  moreover have "history_ok (update_memo i f db)" "comments_ok (update_memo i f db)" "limits_ok (update_memo i f db)"
    using assms(1) limits_cong [of "update_memo i f db" db] by (simp_all add: memo_ok_def history_ok_def comments_ok_def limits_ok_def ids)
  ultimately show ?thesis using assms(1,2) by (simp add: memo_ok_def ids update_ids)
qed

lemma history_frame:
  assumes "memo_ok db" and "db_memos db' = db_memos db" "db_folders db' = db_folders db" "db_perms db' = db_perms db"
    "db_group_perms db' = db_group_perms db" "db_comments db' = db_comments db" "db_settings db' = db_settings db"
    and "history_ok db'"
  shows "memo_ok db'"
  using assms limits_cong [OF assms(7)] by (simp add: memo_ok_def folders_ok_def comments_ok_def limits_ok_def memo_ids_def)

lemma trim_subset: "set (db_history (trim_history now l i db)) \<subseteq> set (db_history db)"
  by (auto simp: trim_history_def Let_def)

lemma trim_history_ok:
  assumes "history_ok db"
  shows "history_ok (trim_history now l i db)"
proof -
  have "distinct (map ht_hid (db_history (trim_history now l i db)))"
    using assms by (simp add: trim_history_def Let_def history_ok_def distinct_map_filter)
  then show ?thesis
    using assms trim_subset [of now l i db] unfolding history_ok_def memo_ids_def by (auto simp: trim_frame)
qed

lemma snapshot_ok:
  assumes "memo_ok db" and "mr_id r \<in> memo_ids db"
  shows "memo_ok (snapshot_history now k r db)"
proof (rule history_frame [OF assms(1)])
  show "history_ok (snapshot_history now k r db)"
    unfolding snapshot_history_def by (rule trim_history_ok) (use assms in \<open>auto simp: memo_ok_def history_ok_def memo_ids_def\<close>)
qed simp_all

lemma auto_ok: "memo_ok db \<Longrightarrow> mr_id r \<in> memo_ids db \<Longrightarrow> memo_ok (maybe_auto_snapshot now r db)"
  by (simp add: maybe_auto_snapshot_def snapshot_ok split: list.split)

lemma memo_of_ids: "memo_of db i = Inr r \<Longrightarrow> i \<in> memo_ids db \<and> mr_id r \<in> memo_ids db \<and> mr_id r = i"
  using memo_of_Inr by (fastforce simp: memo_ids_def)

lemma write_text_ok: "memo_ok db \<Longrightarrow> memo_ok (write_text now a i t b db)"
  unfolding write_text_def by (rule update_ok) simp_all

lemma text_check_Inr [simp]: "text_check e r = Inr y \<longleftrightarrow> e = None \<and> r = Inr y"
  by (simp add: text_check_def split: option.split)

text \<open>What a successful operation found and wrote.\<close>

lemma create_elim:
  assumes "create_memo now new_id a title body folder db = Inr (d, db')"
  obtains "new_id \<notin> memo_ids db" and "length body \<le> lm_body_bytes (limits_of db)"
    and "length (db_memos db) < lm_memo_count (limits_of db)" and "\<not> over_capacity db (limits_of db) (length body)"
    and "\<And>f. folder = Some f \<Longrightarrow> f \<in> fo_id ` set (db_folders db)"
    and "db' = db\<lparr>db_memos := db_memos db @ [new_memo now new_id a title body folder]\<rparr>"
proof -
  have n: "new_id \<notin> mr_id ` set (db_memos db)" using assms by (simp add: create_memo_def)
  from created_visible [OF this, of a now title body folder] assms
  have "db' = db\<lparr>db_memos := db_memos db @ [new_memo now new_id a title body folder]\<rparr>" by (auto simp: create_memo_def)
  then show thesis using that assms n
    by (auto simp: create_memo_def validate_body_bytes_def memo_ids_def not_le split: option.splits)
qed

lemma update_elim:
  assumes "update_text now a i base title body db = Inr (d, db')"
  obtains r where "memo_of db i = Inr r" and "can_edit r a (perm_context db i)" and "mr_revision r = base"
    and "length body \<le> lm_body_bytes (limits_of db)" and "\<not> over_capacity db (limits_of db) (length body)"
    and "db' = write_text now a i title body (maybe_auto_snapshot now r db)"
    and "sd_title d = title" and "sd_body d = body" and "sd_revision d = base + 1"
proof -
  from assms obtain r where r: "memo_of db i = Inr r" "visible_to r a (perm_context db i)" "can_edit r a (perm_context db i)"
    "mr_revision r = base" "length body \<le> lm_body_bytes (limits_of db)" "\<not> over_capacity db (limits_of db) (length body)"
    and w: "with_detail a i (write_text now a i title body (maybe_auto_snapshot now r db)) = Inr (d, db')"
    by (auto simp: update_text_def visible_Inr validate_body_bytes_def)
  show thesis
    by (rule that [OF r(1,3,4,5,6)]) (use w r(4) in \<open>auto simp: written_visible [OF r(1,2)] detail_def Let_def\<close>)
qed

lemma restore_elim:
  assumes "history_restore now a i hid db = Inr (d, db')"
  obtains r h where "memo_of db i = Inr r" and "can_edit r a (perm_context db i)" and "version_of db i hid = Inr h"
    and "\<not> over_capacity db (limits_of db) (length (ht_body h))"
    and "db' = write_text now a i (ht_title h) (ht_body h) (snapshot_history now ''restore'' r db)"
    and "sd_title d = ht_title h" and "sd_body d = ht_body h"
proof -
  have "\<exists>r h. memo_of db i = Inr r \<and> visible_to r a (perm_context db i) \<and> can_edit r a (perm_context db i)
      \<and> version_of db i hid = Inr h \<and> \<not> over_capacity db (limits_of db) (length (ht_body h))
      \<and> with_detail a i (write_text now a i (ht_title h) (ht_body h) (snapshot_history now ''restore'' r db)) = Inr (d, db')"
    using assms by (auto simp: history_restore_def visible_Inr)
  then obtain r h where r: "memo_of db i = Inr r" "visible_to r a (perm_context db i)" "can_edit r a (perm_context db i)"
    and h: "version_of db i hid = Inr h" "\<not> over_capacity db (limits_of db) (length (ht_body h))"
    and w: "with_detail a i (write_text now a i (ht_title h) (ht_body h) (snapshot_history now ''restore'' r db)) = Inr (d, db')"
    by blast
  show thesis
    by (rule that [OF r(1,3) h]) (use w in \<open>auto simp: written_visible [OF r(1,2)] detail_def Let_def\<close>)
qed

lemma perms_elim:
  assumes "set_perms a i everyone members groups db = Inr (d, db')"
  obtains r where "memo_of db i = Inr r" and "can_manage r a"
    and "db_memos db' = db_memos (update_memo i (\<lambda>r. r\<lparr>mr_everyone := everyone\<rparr>) db)"
    and "db_perms db' = replace_perms i members (db_perms db)"
    and "db_group_perms db' = (case groups of None \<Rightarrow> db_group_perms db | Some gs \<Rightarrow> replace_perms i gs (db_group_perms db))"
    and "db_folders db' = db_folders db" "db_history db' = db_history db" "db_comments db' = db_comments db"
    and "db_settings db' = db_settings db" "db_deleted db' = db_deleted db" "db_next_hid db' = db_next_hid db"
proof -
  from assms obtain r where r: "memo_of db i = Inr r" "can_manage r a" by (auto simp: set_perms_def managed_Inr)
  show thesis
    by (rule that [OF r]; cases groups) (use assms in \<open>auto simp: set_perms_def with_detail_def Let_def\<close>)
qed

lemma create_ok:
  assumes "memo_ok db" and "create_memo now new_id a title body folder db = Inr (d, db')"
  shows "memo_ok db'"
proof -
  from assms(2) show ?thesis
  proof (rule create_elim)
    assume n: "new_id \<notin> memo_ids db" and f: "\<And>f. folder = Some f \<Longrightarrow> f \<in> fo_id ` set (db_folders db)"
      and d: "db' = db\<lparr>db_memos := db_memos db @ [new_memo now new_id a title body folder]\<rparr>"
    have ids: "memo_ids db' = insert new_id (memo_ids db)" by (simp add: memo_ids_def new_memo_def d)
    have p: "perms_ok (memo_ids db) ps \<Longrightarrow> perms_ok (insert new_id (memo_ids db)) ps" for ps by (auto simp: perms_ok_def)
    have "folders_ok db'" using assms(1) f by (auto simp: memo_ok_def folders_ok_def new_memo_def d)
    moreover have "history_ok db'" "comments_ok db'"
      using assms(1) unfolding memo_ok_def history_ok_def comments_ok_def ids by (auto simp: d)
    moreover have "limits_ok db'" using assms(1) limits_cong [of db' db] by (simp add: memo_ok_def limits_ok_def d)
    moreover have "distinct (map mr_id (db_memos db'))" using assms(1) n by (simp add: memo_ok_def memo_ids_def new_memo_def d)
    moreover have "perms_ok (memo_ids db') (db_perms db')" "perms_ok (memo_ids db') (db_group_perms db')"
      using assms(1) p unfolding ids by (simp_all add: memo_ok_def d)
    ultimately show ?thesis by (simp add: memo_ok_def)
  qed
qed

lemma update_text_ok:
  assumes "memo_ok db" and "update_text now a i base title body db = Inr (d, db')"
  shows "memo_ok db'"
  using assms(2) by (rule update_elim) (use assms(1) memo_of_ids in \<open>auto intro!: write_text_ok auto_ok\<close>)

lemma restore_version_ok:
  assumes "memo_ok db" and "history_restore now a i hid db = Inr (d, db')"
  shows "memo_ok db'"
  using assms(2) by (rule restore_elim) (use assms(1) memo_of_ids in \<open>auto intro!: write_text_ok snapshot_ok\<close>)

lemma put_perm_ok:
  assumes "perms_ok ids ps" and "pr_memo p \<in> ids" and "pr_who p \<noteq> []"
  shows "perms_ok ids (put_perm p ps)"
  using assms by (auto simp: perms_ok_def put_perm_def perm_key_def distinct_map_filter)

lemma replace_perms_ok:
  assumes "perms_ok ids ps" and "i \<in> ids"
  shows "perms_ok ids (replace_perms i new ps)"
proof -
  have "perms_ok ids qs \<Longrightarrow> perms_ok ids (fold (\<lambda>(who, n, l). if who = [] then id
      else put_perm \<lparr>pr_memo = i, pr_who = who, pr_name = n, pr_level = l\<rparr>) new qs)" for qs
  proof (induction new arbitrary: qs)
    case (Cons t new)
    obtain who n l where t: "t = (who, n, l)" by (cases t) auto
    show ?case
    proof (cases "who = []")
      case False
      then have "perms_ok ids (put_perm \<lparr>pr_memo = i, pr_who = who, pr_name = n, pr_level = l\<rparr> qs)"
        using Cons.prems assms(2) by (intro put_perm_ok) simp_all
      with False show ?thesis using Cons.IH by (simp add: t)
    qed (use Cons t in simp)
  qed simp
  moreover have "perms_ok ids (filter (\<lambda>p. pr_memo p \<noteq> i) ps)" using assms(1) by (auto simp: perms_ok_def distinct_map_filter)
  ultimately show ?thesis by (simp add: replace_perms_def)
qed

lemma set_perms_ok:
  assumes "memo_ok db" and "set_perms a i everyone members groups db = Inr (d, db')"
  shows "memo_ok db'"
  using assms(2)
proof (rule perms_elim)
  fix r
  assume r: "memo_of db i = Inr r" and m: "db_memos db' = db_memos (update_memo i (\<lambda>r. r\<lparr>mr_everyone := everyone\<rparr>) db)"
    and p: "db_perms db' = replace_perms i members (db_perms db)"
    and g: "db_group_perms db' = (case groups of None \<Rightarrow> db_group_perms db | Some gs \<Rightarrow> replace_perms i gs (db_group_perms db))"
    and f: "db_folders db' = db_folders db" "db_history db' = db_history db" "db_comments db' = db_comments db"
      "db_settings db' = db_settings db" "db_deleted db' = db_deleted db" "db_next_hid db' = db_next_hid db"
  have u: "memo_ok (update_memo i (\<lambda>r. r\<lparr>mr_everyone := everyone\<rparr>) db)" by (rule update_ok [OF assms(1)]) simp_all
  have ids: "memo_ids db' = memo_ids (update_memo i (\<lambda>r. r\<lparr>mr_everyone := everyone\<rparr>) db)" by (simp add: memo_ids_def m)
  have "map mr_id (db_memos (update_memo i (\<lambda>r. r\<lparr>mr_everyone := everyone\<rparr>) db)) = map mr_id (db_memos db)"
    by (rule update_ids) simp
  then have "memo_ids (update_memo i (\<lambda>r. r\<lparr>mr_everyone := everyone\<rparr>) db) = memo_ids db"
    unfolding memo_ids_def by (metis list.set_map)
  then have i: "i \<in> memo_ids db'" using memo_of_ids [OF r] by (simp add: ids)
  have "perms_ok (memo_ids db') (db_perms db')" "perms_ok (memo_ids db') (db_group_perms db')"
    using u i by (auto simp: memo_ok_def ids p g intro: replace_perms_ok split: option.split)
  moreover have "folders_ok db'" "history_ok db'" "comments_ok db'" "limits_ok db'"
    using u limits_cong [of db' db] limits_cong [of "update_memo i (\<lambda>r. r\<lparr>mr_everyone := everyone\<rparr>) db" db]
    by (simp_all add: memo_ok_def folders_ok_def history_ok_def comments_ok_def limits_ok_def ids f m)
  ultimately show ?thesis using u by (simp add: memo_ok_def m)
qed

lemma purge_ok:
  assumes "memo_ok db"
  shows "memo_ok (purge_memo now i db)"
proof -
  have ids: "memo_ids (purge_memo now i db) = memo_ids db - {i}" by (auto simp: memo_ids_def purge_memo_def)
  have p: "perms_ok (memo_ids db) ps \<Longrightarrow> perms_ok (memo_ids db - {i}) (filter (\<lambda>p. pr_memo p \<noteq> i) ps)" for ps
    by (auto simp: perms_ok_def distinct_map_filter)
  have "folders_ok (purge_memo now i db)" using assms by (auto simp: memo_ok_def folders_ok_def purge_memo_def)
  moreover have "history_ok (purge_memo now i db)" "comments_ok (purge_memo now i db)"
    using assms unfolding memo_ok_def history_ok_def comments_ok_def ids by (auto simp: purge_memo_def distinct_map_filter)
  moreover have "limits_ok (purge_memo now i db)"
    using assms limits_cong [of "purge_memo now i db" db] by (simp add: memo_ok_def limits_ok_def purge_memo_def)
  moreover have "perms_ok (memo_ids (purge_memo now i db)) (db_perms (purge_memo now i db))"
    "perms_ok (memo_ids (purge_memo now i db)) (db_group_perms (purge_memo now i db))"
    using assms p unfolding ids by (auto simp: memo_ok_def purge_memo_def)
  ultimately show ?thesis using assms by (simp add: memo_ok_def purge_memo_def distinct_map_filter)
qed

lemma purge_expired_ok:
  assumes "memo_ok db"
  shows "memo_ok (snd (purge_expired now db))"
proof -
  have "memo_ok (fold (purge_memo now) ids d)" if "memo_ok d" for ids d using that by (induction ids arbitrary: d) (auto intro: purge_ok)
  note p = this [OF assms]
  show ?thesis unfolding purge_expired_def Let_def snd_conv
    by (rule history_frame [OF p]) (use p in \<open>auto simp: memo_ok_def history_ok_def memo_ids_def\<close>)
qed

lemma comment_add_ok:
  assumes "memo_ok db" and "comment_add now new_id a i body db = Inr (c, db')"
  shows "memo_ok db'"
proof -
  obtain r where r: "memo_of db i = Inr r" and n: "new_id \<notin> cm_id ` set (db_comments db)"
    and d: "db' = db\<lparr>db_comments := db_comments db @ [c]\<rparr>" and c: "cm_memo c = i" "cm_id c = new_id"
    using assms(2) by (auto simp: comment_add_def visible_Inr Let_def)
  have "i \<in> memo_ids db" using memo_of_ids [OF r] by simp
  then show ?thesis using assms(1) n c limits_cong [of db' db]
    by (simp add: memo_ok_def folders_ok_def history_ok_def comments_ok_def limits_ok_def memo_ids_def d)
qed

lemma comment_delete_ok:
  assumes "memo_ok db" and "comment_delete a i cid db = Inr db'"
  shows "memo_ok db'"
proof -
  have d: "db' = db\<lparr>db_comments := filter (\<lambda>c. \<not> (cm_id c = cid \<and> cm_memo c = i)) (db_comments db)\<rparr>"
    using assms(2) by (auto simp: comment_delete_def split: option.splits)
  then show ?thesis using assms(1) limits_cong [of db' db]
    by (auto simp: memo_ok_def folders_ok_def history_ok_def comments_ok_def limits_ok_def memo_ids_def distinct_map_filter)
qed

lemma trash_ok:
  "memo_ok db \<Longrightarrow> trash_memo now a i db = Inr db' \<Longrightarrow> memo_ok db'"
  "memo_ok db \<Longrightarrow> restore_memo a i db = Inr db' \<Longrightarrow> memo_ok db'"
  "memo_ok db \<Longrightarrow> delete_forever now a i db = Inr db' \<Longrightarrow> memo_ok db'"
  by (auto simp: trash_memo_def restore_memo_def delete_forever_def intro: update_ok purge_ok)

lemma save_ok:
  "memo_ok db \<Longrightarrow> save_version now a i db = Inr db' \<Longrightarrow> memo_ok db'"
  "memo_ok db \<Longrightarrow> snapshot_if_revision_changed now i n db = Inr db' \<Longrightarrow> memo_ok db'"
  using memo_of_ids by (auto simp: save_version_def snapshot_if_revision_changed_def intro: snapshot_ok split: if_splits)

lemma folder_ok:
  "memo_ok db \<Longrightarrow> folder_create now new_id a n db = Inr (f, db') \<Longrightarrow> memo_ok db'"
  "memo_ok db \<Longrightarrow> folder_rename a i n db = Inr db' \<Longrightarrow> memo_ok db'"
  "memo_ok db \<Longrightarrow> folder_delete a i db = Inr db' \<Longrightarrow> memo_ok db'"
proof -
  assume ok: "memo_ok db"
  show "memo_ok db'" if "folder_create now new_id a n db = Inr (f, db')"
  proof -
    from that obtain m where "new_id \<notin> fo_id ` set (db_folders db)"
      "db' = db\<lparr>db_folders := db_folders db @ [\<lparr>fo_id = new_id, fo_name = m, fo_created = now\<rparr>]\<rparr>"
      by (auto simp: folder_create_def)
    then show ?thesis using ok limits_cong [of db' db]
      by (auto simp: memo_ok_def folders_ok_def history_ok_def comments_ok_def limits_ok_def memo_ids_def)
  qed
  show "memo_ok db'" if "folder_rename a i n db = Inr db'"
  proof -
    from that obtain m where d: "db' = db\<lparr>db_folders := map (\<lambda>f. if fo_id f = i then f\<lparr>fo_name := m\<rparr> else f) (db_folders db)\<rparr>"
      by (auto simp: folder_rename_def)
    have f: "map fo_id (db_folders db') = map fo_id (db_folders db)" by (simp add: d)
    then have "fo_id ` set (db_folders db') = fo_id ` set (db_folders db)" by (metis list.set_map)
    moreover have "db_memos db' = db_memos db" by (simp add: d)
    ultimately have "folders_ok db'" using ok f by (simp add: memo_ok_def folders_ok_def)
    then show ?thesis using ok limits_cong [of db' db]
      by (simp add: memo_ok_def history_ok_def comments_ok_def limits_ok_def memo_ids_def d)
  qed
  show "memo_ok db'" if "folder_delete a i db = Inr db'"
  proof -
    have d: "db' = db\<lparr>db_memos := map (\<lambda>r. if mr_folder r = Some i then r\<lparr>mr_folder := None\<rparr> else r) (db_memos db),
               db_folders := filter (\<lambda>f. fo_id f \<noteq> i) (db_folders db)\<rparr>"
      using that by (simp add: folder_delete_def)
    have m: "map mr_id (db_memos db') = map mr_id (db_memos db)" by (simp add: d)
    then have ids: "memo_ids db' = memo_ids db" unfolding memo_ids_def by (metis list.set_map)
    have "folders_ok db'" using ok by (fastforce simp: memo_ok_def folders_ok_def d distinct_map_filter split: if_splits)
    then show ?thesis using ok m limits_cong [of db' db]
      by (simp add: memo_ok_def history_ok_def comments_ok_def limits_ok_def ids) (simp add: d)
  qed
qed

lemma set_limits_ok:
  assumes "memo_ok db" and "set_limits a l db = Inr db'"
  shows "memo_ok db'"
proof -
  have h: "hm_ok (db_settings db)" using assms(1) by (simp add: memo_ok_def limits_ok_def)
  have v: "validate_limits l = None" and s: "db' = db\<lparr>db_settings := fold (\<lambda>(k, v). hm_insert k v) (limit_settings l) (db_settings db)\<rparr>"
    using assms(2) by (auto simp: set_limits_def split: option.splits)
  have "limits_of db' = l" using limits_read_back' [OF h assms(2)] .
  moreover have "hm_ok (db_settings db')" unfolding s using settings_put_get(2) [OF h, of "limit_settings l"]
    by (simp add: limit_settings_def)
  ultimately have "limits_ok db'" using v by (simp add: limits_ok_def)
  then show ?thesis using assms(1) unfolding s
    by (simp add: memo_ok_def folders_ok_def history_ok_def comments_ok_def memo_ids_def)
qed

section \<open>The size of the store\<close>

lemma sum_filter_le: "sum_list (map f (filter P xs)) \<le> sum_list (map f xs)" for f :: "'a \<Rightarrow> nat"
  by (induction xs) auto

lemma trim_total: "total_body_bytes (trim_history now l i db) \<le> total_body_bytes db"
  unfolding total_body_bytes_def trim_history_def Let_def
  by simp (meson le_trans sum_filter_le)

lemma snapshot_total: "total_body_bytes (snapshot_history now k r db) \<le> total_body_bytes db + length (mr_body r)"
  unfolding snapshot_history_def
  by (rule le_trans [OF trim_total]) (simp add: total_body_bytes_def)

lemma auto_total: "total_body_bytes (maybe_auto_snapshot now r db) \<le> total_body_bytes db + length (mr_body r)"
  using snapshot_total [of now "''auto''" r db] by (simp add: maybe_auto_snapshot_def split: list.split)

lemma sum_replace:
  assumes "distinct (map mr_id rs)" and "find (\<lambda>r. mr_id r = i) rs = Some r"
  shows "sum_list (map (\<lambda>r. length (mr_body (if mr_id r = i then f r else r))) rs) + length (mr_body r)
    = sum_list (map (\<lambda>r. length (mr_body r)) rs) + length (mr_body (f r))"
  using assms
proof (induction rs)
  case (Cons s rs)
  show ?case
  proof (cases "mr_id s = i")
    case True
    have s: "s = r" using Cons.prems(2) True by simp
    have other: "\<And>t. t \<in> set rs \<Longrightarrow> mr_id t \<noteq> i" using Cons.prems(1) True by (auto simp: image_iff)
    have same: "map (\<lambda>r. length (mr_body (if mr_id r = i then f r else r))) rs = map (\<lambda>r. length (mr_body r)) rs"
      by (rule map_cong) (simp_all add: other)
    show ?thesis using True by (simp only: list.map same s) simp
  next
    case False
    with Cons show ?thesis by simp
  qed
qed simp

lemma write_total:
  assumes "memo_ok db" and "memo_of db i = Inr r" and "db_memos db' = db_memos db"
  shows "total_body_bytes (write_text now a i t b db') + length (mr_body r) = total_body_bytes db' + length b"
proof -
  have "find (\<lambda>r. mr_id r = i) (db_memos db) = Some r" using assms(2) by (simp add: memo_of_def split: option.splits)
  from sum_replace [OF _ this, of "\<lambda>r. r\<lparr>mr_title := t, mr_body := b, mr_revision := Suc (mr_revision r), mr_updated := now,
      mr_updated_by := Some (ac_name a)\<rparr>"] assms(1,3)
  show ?thesis by (simp add: total_body_bytes_def write_text_def update_memo_def memo_ok_def comp_def)
qed

text \<open>
  C36: what is written fits. After a memo was created, saved or restored, the bodies of all memos and of all versions in the
  history together keep the limit, although a version of the old text may have been added.
\<close>

theorem written_text_fits:
  assumes "memo_ok db"
    and "create_memo now new_id a title body folder db = Inr (d, db') \<or> update_text now a i base title body db = Inr (d, db')
      \<or> history_restore now a i hid db = Inr (d, db')"
  shows "total_body_bytes db' \<le> lm_total_bytes (limits_of db')"
  using assms(2)
proof (elim disjE)
  assume "create_memo now new_id a title body folder db = Inr (d, db')"
  then show ?thesis
  proof (rule create_elim)
    assume c: "\<not> over_capacity db (limits_of db) (length body)"
      and d: "db' = db\<lparr>db_memos := db_memos db @ [new_memo now new_id a title body folder]\<rparr>"
    show ?thesis using c limits_cong [of db' db] by (simp add: d over_capacity_def total_body_bytes_def new_memo_def)
  qed
next
  assume "update_text now a i base title body db = Inr (d, db')"
  then show ?thesis
  proof (rule update_elim)
    fix r
    assume r: "memo_of db i = Inr r" and c: "\<not> over_capacity db (limits_of db) (length body)"
      and d: "db' = write_text now a i title body (maybe_auto_snapshot now r db)"
    show ?thesis using write_total [OF assms(1) r, of "maybe_auto_snapshot now r db" now a title body] auto_total [of now r db] c
        limits_cong [of db' db] by (simp add: d over_capacity_def)
  qed
next
  assume "history_restore now a i hid db = Inr (d, db')"
  then show ?thesis
  proof (rule restore_elim)
    fix r h
    assume r: "memo_of db i = Inr r" and c: "\<not> over_capacity db (limits_of db) (length (ht_body h))"
      and d: "db' = write_text now a i (ht_title h) (ht_body h) (snapshot_history now ''restore'' r db)"
    show ?thesis using write_total [OF assms(1) r, of "snapshot_history now ''restore'' r db" now a "ht_title h" "ht_body h"]
        snapshot_total [of now "''restore''" r db] c limits_cong [of db' db] by (simp add: d over_capacity_def)
  qed
qed

section \<open>History\<close>

lemma sort_last:
  assumes "\<And>y. y \<in> set xs \<Longrightarrow> f x < f y"
  shows "sort_key f (xs @ [x]) = x # sort_key f xs"
  using assms
proof (induction xs)
  case (Cons y xs)
  have "f x < f y" and "sort_key f (xs @ [x]) = x # sort_key f xs" using Cons by simp_all
  moreover from this(1) have "\<not> f y \<le> f x" by (simp only: not_le)
  ultimately show ?case by simp
qed simp

lemma history_bounded:
  assumes "distinct (map ht_hid (db_history db))"
  shows "length (filter (\<lambda>h. ht_memo h = i) (db_history (trim_history now l i db))) \<le> lm_versions l"
proof -
  define top where "top = map ht_hid (take (lm_versions l) (history_of db i))"
  let ?hs = "filter (\<lambda>h. ht_memo h = i) (db_history (trim_history now l i db))"
  have "set (map ht_hid ?hs) \<subseteq> set top" by (auto simp: trim_history_def top_def Let_def)
  moreover have "distinct (map ht_hid ?hs)" using assms by (simp add: trim_history_def Let_def distinct_map_filter)
  ultimately have "length (map ht_hid ?hs) \<le> card (set top)"
    by (metis card_mono distinct_card List.finite_set)
  also have "\<dots> \<le> length top" by (rule card_length)
  also have "\<dots> \<le> lm_versions l" by (simp add: top_def)
  finally show ?thesis by simp
qed

text \<open>The version that is added is the first, unless the clock has gone back, and stays.\<close>

definition version_row :: "int \<Rightarrow> string \<Rightarrow> memo_row \<Rightarrow> memo_db \<Rightarrow> history_row" where
  "version_row now k r db = \<lparr>ht_hid = db_next_hid db, ht_memo = mr_id r, ht_revision = mr_revision r, ht_kind = k,
     ht_saved_by = (case mr_updated_by r of Some n \<Rightarrow> n | None \<Rightarrow> mr_owner_name r),
     ht_title = mr_title r, ht_body = mr_body r, ht_created = now\<rparr>"

definition clock_ok :: "int \<Rightarrow> string \<Rightarrow> memo_db \<Rightarrow> bool" where
  "clock_ok now i db \<longleftrightarrow> (\<forall>h \<in> set (db_history db). ht_memo h = i \<longrightarrow> ht_created h \<le> now)"

lemma snapshot_version:
  assumes "memo_ok db" and "clock_ok now (mr_id r) db"
  shows "version_of (snapshot_history now k r db) (mr_id r) (db_next_hid db) = Inr (version_row now k r db)"
proof -
  let ?v = "version_row now k r db"
  let ?db = "db\<lparr>db_history := db_history db @ [?v], db_next_hid := db_next_hid db + 1\<rparr>"
  have old: "ht_hid h < db_next_hid db" if "h \<in> set (db_history db)" for h using assms(1) that by (simp add: memo_ok_def history_ok_def)
  have v: "ht_memo ?v = mr_id r" "ht_hid ?v = db_next_hid db" "ht_created ?v = now" by (simp_all add: version_row_def)
  have "filter (\<lambda>h. ht_memo h = mr_id r) (db_history ?db) = filter (\<lambda>h. ht_memo h = mr_id r) (db_history db) @ [?v]" by (simp add: v)
  then have "history_of ?db (mr_id r) = ?v # newest_first (filter (\<lambda>h. ht_memo h = mr_id r) (db_history db))"
    unfolding history_of_def newest_first_def using assms(2) old
    by (simp only:) (rule sort_last, auto simp: clock_ok_def v less_le dest: old)
  moreover have "0 < lm_versions (limits_of db)" using assms(1) by (simp add: memo_ok_def limits_ok_def validate_limits_def)
  ultimately have top: "db_next_hid db \<in> ht_hid ` set (take (lm_versions (limits_of db)) (history_of ?db (mr_id r)))"
    by (cases "lm_versions (limits_of db)") (simp_all add: v)
  have "\<not> now < now - int (lm_history_days (limits_of db)) * DAY_MS" by (simp add: DAY_MS_def)
  with top have h: "db_history (snapshot_history now k r db) = filter P (db_history db) @ [?v]"
    if "P = (\<lambda>h. \<not> (ht_memo h = mr_id r \<and> ht_hid h \<notin> ht_hid ` set (take (lm_versions (limits_of db)) (history_of ?db (mr_id r))))
      \<and> \<not> (ht_memo h = mr_id r \<and> ht_created h < now - int (lm_history_days (limits_of db)) * DAY_MS))" for P
    unfolding that using v
    by (auto simp: snapshot_history_def trim_history_def Let_def version_row_def [symmetric] intro!: filter_cong)
  have "find Q (filter P hs @ [?v]) = Some ?v" if "\<And>h. h \<in> set hs \<Longrightarrow> \<not> Q h" "Q ?v" for P Q hs
    using that by (induction hs) auto
  from this [of "db_history db" "\<lambda>h. ht_hid h = db_next_hid db \<and> ht_memo h = mr_id r"] old h [OF refl]
  show ?thesis by (fastforce simp: version_of_def v)
qed


section \<open>Examples\<close>

definition one_memo_db :: memo_db where
  "one_memo_db = empty_memo_db\<lparr>db_memos := [(new_memo 0 ''m'' (actor_host ''h'') ''T'' ''new'' None)\<lparr>mr_revision := 2\<rparr>],
     db_history := [\<lparr>ht_hid = 1, ht_memo = ''m'', ht_revision = 1, ht_kind = ''manual'', ht_saved_by = ''h'', ht_title = ''T'',
       ht_body = ''old'', ht_created = 0\<rparr>], db_next_hid := 2\<rparr>"

lemma one_memo_ok: "memo_ok one_memo_db"
  by (simp add: memo_ok_defs one_memo_db_def empty_memo_db_def hm.ok_empty limits_of_def default_limits_def validate_limits_def
      new_memo_def)

lemmas memo_eval = one_memo_db_def empty_memo_db_def limits_of_def default_limits_def validate_limits_def new_memo_def
  visible_memo_def memo_of_def version_of_def visible_to_def can_edit_def is_host_def actor_host_def

lemma restore_by_host:
  assumes "memo_of db i = Inr r" and "version_of db i hid = Inr h" and "is_host a" and "mr_deleted r = None"
    and "validate_title (ht_title h) = None" and "validate_body_bytes (ht_body h) (lm_body_bytes (limits_of db)) = None"
    and "\<not> over_capacity db (limits_of db) (length (ht_body h))"
  shows "\<exists>d. history_restore now a i hid db
    = Inr (d, write_text now a i (ht_title h) (ht_body h) (snapshot_history now ''restore'' r db))"
proof -
  have h: "visible_to r a ctx" "can_edit r a ctx" for ctx using assms(3,4) by (simp_all add: visible_to_def can_edit_def)
  have "\<exists>d. with_detail a i (write_text now a i (ht_title h) (ht_body h) (snapshot_history now ''restore'' r db))
      = Inr (d, write_text now a i (ht_title h) (ht_body h) (snapshot_history now ''restore'' r db))"
    using written_visible [OF assms(1) h(1), of "snapshot_history now ''restore'' r db"] by simp
  then show ?thesis using assms h by (simp add: history_restore_def visible_memo_def bail_if_def)
qed

lemma limits_read_back_witness:
  "\<exists>db'. set_limits (actor_host ''h'') (default_limits\<lparr>lm_versions := 7\<rparr>) empty_memo_db = Inr db' \<and> lm_versions (limits_of db') = 7"
proof -
  have "validate_limits (default_limits\<lparr>lm_versions := 7\<rparr>) = None" by (simp add: default_limits_def validate_limits_def)
  then obtain db' where s: "set_limits (actor_host ''h'') (default_limits\<lparr>lm_versions := 7\<rparr>) empty_memo_db = Inr db'"
    by (simp add: set_limits_def is_manager_def is_host_def actor_host_def bail_if_def)
  have "hm_ok (db_settings empty_memo_db)" by (simp add: empty_memo_db_def hm.ok_empty)
  from limits_read_back [OF this s] s show ?thesis by simp
qed

lemma restored_once:
  assumes "one = hd (db_memos one_memo_db)" and "old = hd (db_history one_memo_db)"
  shows "\<exists>d. history_restore 5 (actor_host ''h'') ''m'' 1 one_memo_db
    = Inr (d, write_text 5 (actor_host ''h'') ''m'' (ht_title old) (ht_body old) (snapshot_history 5 ''restore'' one one_memo_db))"
proof (rule restore_by_host)
  show "memo_of one_memo_db ''m'' = Inr one" by (simp add: assms memo_eval)
  show "version_of one_memo_db ''m'' 1 = Inr old" by (simp add: assms memo_eval)
  show "is_host (actor_host ''h'')" by (simp add: memo_eval)
  show "mr_deleted one = None" by (simp add: assms memo_eval)
  show "validate_title (ht_title old) = None" by (simp add: assms memo_eval validate_title_def MAX_TITLE_CHARS_def)
  show "validate_body_bytes (ht_body old) (lm_body_bytes (limits_of one_memo_db)) = None"
    by (simp add: assms memo_eval validate_body_bytes_def)
  show "\<not> over_capacity one_memo_db (limits_of one_memo_db) (length (ht_body old))"
    by (simp add: assms memo_eval over_capacity_def total_body_bytes_def)
qed

lemma written_text_fits_witness:
  "\<exists>d db'. history_restore 5 (actor_host ''h'') ''m'' 1 one_memo_db = Inr (d, db')
     \<and> total_body_bytes db' \<le> lm_total_bytes (limits_of db')"
proof -
  obtain d db' where r: "history_restore 5 (actor_host ''h'') ''m'' 1 one_memo_db = Inr (d, db')"
    using restored_once by blast
  from written_text_fits [OF one_memo_ok disjI2 [OF disjI2 [OF r]]] r show ?thesis by blast
qed


end
