(* ===== verification/Memo_Schedule.thy ===== *)
theory Memo_Schedule
  imports Memo_Store
begin

text \<open>
  The shared schedule: the table of events of \<^verbatim>\<open>shared.rs\<close> with its operations and the handler of the
  requests in \<^verbatim>\<open>memoshare.rs\<close>. Everybody sees and adds events; changes are for the creator and the administrators.
  Times come as \<^verbatim>\<open>u64\<close> and are stored as \<^verbatim>\<open>i64\<close>, by which the list is sorted.
\<close>

section \<open>Rows by their keys\<close>

lemma find_map_key:
  assumes "\<And>r. key (f r) = key r"
  shows "find (\<lambda>r. key r = k) (map f rs) = map_option f (find (\<lambda>r. key r = k) rs)"
  by (induction rs) (simp_all add: assms)

lemma find_app: "find P (xs @ ys) = (case find P xs of Some x \<Rightarrow> Some x | None \<Rightarrow> find P ys)"
  by (induction xs) simp_all

lemma find_filter_key: "find (\<lambda>r. key r = k) (filter (\<lambda>r. key r \<noteq> j) rs) = (if k = j then None else find (\<lambda>r. key r = k) rs)"
  by (induction rs) auto

section \<open>Events\<close>

definition MAX_SCHEDULE_TITLE_CHARS :: nat where "MAX_SCHEDULE_TITLE_CHARS = 200"
definition MAX_SCHEDULE_NOTE_BYTES :: nat where "MAX_SCHEDULE_NOTE_BYTES = 4 * 1024"
definition MAX_SCHEDULE_EVENTS :: nat where "MAX_SCHEDULE_EVENTS = 10000"
definition MAX_SCHEDULE_PARTICIPANTS :: nat where "MAX_SCHEDULE_PARTICIPANTS = 50"

record schedule_row =
  sc_id :: string
  sc_title :: string
  sc_note :: string
  sc_start :: u64
  sc_end :: "u64 option"
  sc_all_day :: bool
  sc_owner_id :: string
  sc_owner_name :: string
  sc_updated_by :: string
  sc_participants :: "(string \<times> string) list"
  sc_revision :: nat
  sc_created :: int
  sc_updated :: int

text \<open>What a receiver gets: the row, and whether the receiver may change it.\<close>

type_synonym schedule_event = "schedule_row \<times> bool"

datatype schedule_error =
    Schedule_Title_Empty | Schedule_Title_Too_Long | Schedule_Note_Too_Long | Schedule_Range | Schedule_Participants
  | Schedule_Full | Schedule_Not_Found | Schedule_Not_Owner | Schedule_Competing | Schedule_Id_Exists

definition validate_schedule_title :: "string \<Rightarrow> schedule_error option" where
  "validate_schedule_title t =
     err_then (err_when (trim t = []) Schedule_Title_Empty)
       (err_when (MAX_SCHEDULE_TITLE_CHARS < length (chars t)) Schedule_Title_Too_Long)"

definition validate_schedule_note :: "string \<Rightarrow> schedule_error option" where
  "validate_schedule_note n = err_when (MAX_SCHEDULE_NOTE_BYTES < length n) Schedule_Note_Too_Long"

definition validate_schedule_range :: "u64 \<Rightarrow> u64 option \<Rightarrow> schedule_error option" where
  "validate_schedule_range s e = (case e of Some t \<Rightarrow> err_when (t < s) Schedule_Range | None \<Rightarrow> None)"

definition validate_schedule_participants :: "(string \<times> string) list \<Rightarrow> schedule_error option" where
  "validate_schedule_participants ps = err_when (MAX_SCHEDULE_PARTICIPANTS < length ps) Schedule_Participants"

text \<open>What is written of an event: title, note, start, end, whether it takes the day, participants.\<close>

record schedule_entry =
  sn_title :: string
  sn_note :: string
  sn_start :: u64
  sn_end :: "u64 option"
  sn_all_day :: bool
  sn_participants :: "(string \<times> string) list"

definition schedule_checks :: "schedule_entry \<Rightarrow> schedule_error option" where
  "schedule_checks n =
     err_then (validate_schedule_title (sn_title n)) (err_then (validate_schedule_note (sn_note n))
       (err_then (validate_schedule_range (sn_start n) (sn_end n)) (validate_schedule_participants (sn_participants n))))"

definition schedule_check :: "schedule_entry \<Rightarrow> schedule_error + 'a \<Rightarrow> schedule_error + 'a" where
  "schedule_check n r = (case schedule_checks n of Some e \<Rightarrow> Inl e | None \<Rightarrow> r)"

section \<open>Operations\<close>

definition may_change :: "actor \<Rightarrow> string \<Rightarrow> bool" where
  "may_change a owner \<longleftrightarrow> is_host a \<or> ac_admin a \<or> owner = owner_id a"

definition into_event :: "actor \<Rightarrow> schedule_row \<Rightarrow> schedule_event" where
  "into_event a r = (r, may_change a (sc_owner_id r))"

definition schedule_of :: "schedule_row list \<Rightarrow> string \<Rightarrow> schedule_error + schedule_row" where
  "schedule_of es i = (case find (\<lambda>e. sc_id e = i) es of Some e \<Rightarrow> Inr e | None \<Rightarrow> Inl Schedule_Not_Found)"

definition schedule_list :: "actor \<Rightarrow> schedule_row list \<Rightarrow> schedule_event list" where
  "schedule_list a es = map (into_event a) (sort_key (\<lambda>e. (sint (sc_start e), sc_id e)) es)"

definition schedule_get :: "actor \<Rightarrow> string \<Rightarrow> schedule_row list \<Rightarrow> schedule_error + schedule_event" where
  "schedule_get a i es = and_then (schedule_of es i) (\<lambda>e. Inr (into_event a e))"

definition new_event :: "int \<Rightarrow> string \<Rightarrow> actor \<Rightarrow> schedule_entry \<Rightarrow> schedule_row" where
  "new_event now i a n =
     \<lparr>sc_id = i, sc_title = sn_title n, sc_note = sn_note n, sc_start = sn_start n, sc_end = sn_end n,
      sc_all_day = sn_all_day n, sc_owner_id = owner_id a, sc_owner_name = ac_name a, sc_updated_by = ac_name a,
      sc_participants = sn_participants n, sc_revision = 1, sc_created = now, sc_updated = now\<rparr>"

definition write_event :: "int \<Rightarrow> actor \<Rightarrow> schedule_entry \<Rightarrow> schedule_row \<Rightarrow> schedule_row" where
  "write_event now a n e =
     e\<lparr>sc_title := sn_title n, sc_note := sn_note n, sc_start := sn_start n, sc_end := sn_end n,
       sc_all_day := sn_all_day n, sc_updated_by := ac_name a, sc_participants := sn_participants n,
       sc_revision := sc_revision e + 1, sc_updated := now\<rparr>"

definition read_event :: "actor \<Rightarrow> string \<Rightarrow> schedule_row list \<Rightarrow> schedule_error + schedule_event \<times> schedule_row list" where
  "read_event a i es = and_then (schedule_get a i es) (\<lambda>e. Inr (e, es))"

definition schedule_create :: "int \<Rightarrow> string \<Rightarrow> actor \<Rightarrow> schedule_entry \<Rightarrow> schedule_row list
    \<Rightarrow> schedule_error + schedule_event \<times> schedule_row list" where
  "schedule_create now new_id a n es =
     schedule_check n
    (bail_if (MAX_SCHEDULE_EVENTS \<le> length es) Schedule_Full
    (bail_if (new_id \<in> sc_id ` set es) Schedule_Id_Exists
      (read_event a new_id (es @ [new_event now new_id a n]))))"

definition schedule_update :: "int \<Rightarrow> actor \<Rightarrow> string \<Rightarrow> nat \<Rightarrow> schedule_entry \<Rightarrow> schedule_row list
    \<Rightarrow> schedule_error + schedule_event \<times> schedule_row list" where
  "schedule_update now a i base n es =
     schedule_check n
    (and_then (schedule_of es i) (\<lambda>e.
     bail_if (\<not> may_change a (sc_owner_id e)) Schedule_Not_Owner
    (bail_if (sc_revision e \<noteq> base) Schedule_Competing
      (read_event a i (map (\<lambda>x. if sc_id x = i then write_event now a n x else x) es)))))"

definition schedule_delete :: "actor \<Rightarrow> string \<Rightarrow> schedule_row list \<Rightarrow> schedule_error + schedule_row list" where
  "schedule_delete a i es =
     and_then (schedule_of es i) (\<lambda>e.
     bail_if (\<not> may_change a (sc_owner_id e)) Schedule_Not_Owner (Inr (filter (\<lambda>x. sc_id x \<noteq> i) es)))"

section \<open>Requests\<close>

datatype schedule_op =
    Schedule_List
  | Schedule_Create schedule_entry
  | Schedule_Update string nat schedule_entry
  | Schedule_Delete string

datatype schedule_reply = Schedule_Events "schedule_event list" | Schedule_Event schedule_event | Schedule_Done

datatype schedule_notice = Schedule_Changed schedule_event | Schedule_Removed string

text \<open>The reply, the notice to the others with a new generation, and the table.\<close>

definition handle_schedule :: "int \<Rightarrow> string \<Rightarrow> actor \<Rightarrow> schedule_op \<Rightarrow> schedule_row list
    \<Rightarrow> schedule_error + schedule_reply \<times> schedule_notice option \<times> schedule_row list" where
  "handle_schedule now new_id a op es =
     (case op of
        Schedule_List \<Rightarrow> Inr (Schedule_Events (schedule_list a es), None, es)
      | Schedule_Create n \<Rightarrow>
          and_then (schedule_create now new_id a n es) (\<lambda>(e, es). Inr (Schedule_Event e, Some (Schedule_Changed e), es))
      | Schedule_Update i base n \<Rightarrow>
          and_then (schedule_update now a i base n es) (\<lambda>(e, es). Inr (Schedule_Event e, Some (Schedule_Changed e), es))
      | Schedule_Delete i \<Rightarrow>
          and_then (schedule_delete a i es) (\<lambda>es. Inr (Schedule_Done, Some (Schedule_Removed i), es)))"

text \<open>The notice as it goes to one receiver.\<close>

definition schedule_notice_for :: "actor \<Rightarrow> schedule_notice \<Rightarrow> schedule_notice" where
  "schedule_notice_for a n =
     (case n of Schedule_Changed (e, _) \<Rightarrow> Schedule_Changed (into_event a e) | Schedule_Removed i \<Rightarrow> Schedule_Removed i)"

section \<open>What holds of the table\<close>

definition event_entry :: "schedule_row \<Rightarrow> schedule_entry" where
  "event_entry e = \<lparr>sn_title = sc_title e, sn_note = sc_note e, sn_start = sc_start e, sn_end = sc_end e,
     sn_all_day = sc_all_day e, sn_participants = sc_participants e\<rparr>"

definition schedule_ok :: "schedule_row list \<Rightarrow> bool" where
  "schedule_ok es \<longleftrightarrow> distinct (map sc_id es) \<and> length es \<le> MAX_SCHEDULE_EVENTS
     \<and> (\<forall>e \<in> set es. schedule_checks (event_entry e) = None)"

lemma schedule_check_Inr [simp]: "schedule_check n r = Inr y \<longleftrightarrow> schedule_checks n = None \<and> r = Inr y"
  by (auto simp: schedule_check_def split: option.splits)

lemma event_entry_simps [simp]:
  "event_entry (new_event now i a n) = n" "event_entry (write_event now a n e) = n"
  "sc_id (new_event now i a n) = i" "sc_id (write_event now a n e) = sc_id e"
  by (simp_all add: event_entry_def new_event_def write_event_def)

lemma schedule_of_Inr: "schedule_of es i = Inr e \<Longrightarrow> e \<in> set es \<and> sc_id e = i"
  by (auto simp: schedule_of_def split: option.splits dest: find_Some_set)

lemma read_event_Inr [simp]:
  "read_event a i es = Inr (v, es') \<longleftrightarrow> es' = es \<and> (\<exists>e. schedule_of es i = Inr e \<and> v = into_event a e)"
  by (auto simp: read_event_def schedule_get_def into_event_def)

text \<open>The four requests that succeed.\<close>

lemma handle_schedule_cases:
  assumes "handle_schedule now new_id a op es = Inr (rep, n, es')"
  obtains "op = Schedule_List" "es' = es" "n = None"
    | k where "op = Schedule_Create k" "schedule_checks k = None" "length es < MAX_SCHEDULE_EVENTS"
        "new_id \<notin> sc_id ` set es" "es' = es @ [new_event now new_id a k]"
    | i k e where "schedule_of es i = Inr e" "op = Schedule_Update i (sc_revision e) k" "schedule_checks k = None"
        "may_change a (sc_owner_id e)" "es' = map (\<lambda>x. if sc_id x = i then write_event now a k x else x) es"
    | i e where "schedule_of es i = Inr e" "op = Schedule_Delete i" "may_change a (sc_owner_id e)"
        "es' = filter (\<lambda>x. sc_id x \<noteq> i) es"
  using assms
proof (cases op)
  case (Schedule_Update i base k)
  with assms that(3) show ?thesis by (auto simp: handle_schedule_def schedule_update_def)
next
  case (Schedule_Create k)
  with assms that(2) show ?thesis by (auto simp: handle_schedule_def schedule_create_def not_le)
next
  case (Schedule_Delete i)
  with assms that(4) show ?thesis by (auto simp: handle_schedule_def schedule_delete_def)
qed (use that(1) in \<open>simp add: handle_schedule_def\<close>)

lemma schedule_ok_step:
  assumes "schedule_ok es" and "handle_schedule now new_id a op es = Inr (rep, n, es')"
  shows "schedule_ok es'"
  using assms(2)
proof (cases rule: handle_schedule_cases)
  case (2 k)
  then show ?thesis using assms(1) by (auto simp: schedule_ok_def)
next
  case (3 i k e)
  have "map sc_id es' = map sc_id es" using 3 by (auto simp: comp_def)
  then show ?thesis using 3 assms(1) by (auto simp: schedule_ok_def simp del: map_eq_conv)
next
  case (4 i e)
  then show ?thesis using assms(1)
    by (auto simp: schedule_ok_def distinct_map_filter intro: le_trans [OF length_filter_le])
qed (use assms(1) in simp)

text \<open>
  An event changes only at the hands of its creator or an administrator, and only from the revision they read.
  Whatever request succeeds, each event of the table is afterwards the same, or was replaced by a valid entry with the
  next revision, or is gone; for the latter two the actor is entitled and has named it, the replacement with its current
  revision. The table stays coherent.
\<close>

theorem schedule_change_authorised:
  assumes "schedule_ok es" and "handle_schedule now new_id a op es = Inr (rep, n, es')" and "e \<in> set es"
  shows "schedule_ok es' \<and>
    (schedule_of es' (sc_id e) = Inr e
     \<or> may_change a (sc_owner_id e)
       \<and> (op = Schedule_Delete (sc_id e) \<and> schedule_of es' (sc_id e) = Inl Schedule_Not_Found
          \<or> (\<exists>k. op = Schedule_Update (sc_id e) (sc_revision e) k \<and> schedule_checks k = None
                \<and> schedule_of es' (sc_id e) = Inr (write_event now a k e))))"
proof (intro conjI schedule_ok_step [OF assms(1,2)])
  have find: "find (\<lambda>x. sc_id x = sc_id e) es = Some e"
    using assms(1,3) by (simp add: schedule_ok_def find_distinct_key)
  have same: "schedule_of es (sc_id e) = Inr e" using find by (simp add: schedule_of_def)
  from assms(2) show "schedule_of es' (sc_id e) = Inr e
     \<or> may_change a (sc_owner_id e)
       \<and> (op = Schedule_Delete (sc_id e) \<and> schedule_of es' (sc_id e) = Inl Schedule_Not_Found
          \<or> (\<exists>k. op = Schedule_Update (sc_id e) (sc_revision e) k \<and> schedule_checks k = None
                \<and> schedule_of es' (sc_id e) = Inr (write_event now a k e)))"
  proof (cases rule: handle_schedule_cases)
    case (2 k)
    then show ?thesis using find by (simp add: schedule_of_def find_app)
  next
    case (3 i k x)
    have "find (\<lambda>y. sc_id y = sc_id e) (map (\<lambda>y. if sc_id y = i then write_event now a k y else y) es)
        = Some (if sc_id e = i then write_event now a k e else e)"
      using find_map_key [of sc_id "\<lambda>y. if sc_id y = i then write_event now a k y else y"] find by simp
    then show ?thesis using 3 same by (cases "sc_id e = i") (auto simp: schedule_of_def)
  next
    case (4 i x)
    then show ?thesis using same find_filter_key [of sc_id "sc_id e" i es] find by (cases "sc_id e = i") (auto simp: schedule_of_def)
  qed (use same in simp)
qed

definition sample_events :: "schedule_row list" where
  "sample_events = [new_event 0 ''e'' (actor_member ''m'' ''Mia'')
     \<lparr>sn_title = ''T'', sn_note = [], sn_start = 10, sn_end = Some 20, sn_all_day = False, sn_participants = []\<rparr>]"

lemma schedule_change_authorised_witness:
  "\<exists>rep n es'. handle_schedule 5 ''x'' (actor_host ''h'') (Schedule_Delete ''e'') sample_events = Inr (rep, n, es')
     \<and> schedule_ok es' \<and> schedule_of es' ''e'' = Inl Schedule_Not_Found"
proof -
  have ok: "schedule_ok sample_events"
    by (simp add: schedule_ok_def sample_events_def MAX_SCHEDULE_EVENTS_def schedule_checks_def validate_schedule_title_def
        validate_schedule_note_def validate_schedule_range_def validate_schedule_participants_def err_then_def err_when_def
        MAX_SCHEDULE_TITLE_CHARS_def trim_visible ascii_def)
  have e: "hd sample_events \<in> set sample_events" "sc_id (hd sample_events) = ''e''" by (simp_all add: sample_events_def)
  have h: "handle_schedule 5 ''x'' (actor_host ''h'') (Schedule_Delete ''e'') sample_events
      = Inr (Schedule_Done, Some (Schedule_Removed ''e''), [])"
    by (simp add: handle_schedule_def schedule_delete_def sample_events_def schedule_of_def may_change_def is_host_def
        actor_host_def bail_if_def)
  from schedule_change_authorised [OF ok h e(1)] h show ?thesis by (simp add: e(2) schedule_of_def)
qed

end
