(* ===== verification/Memo_Sheet.thy ===== *)
theory Memo_Sheet
  imports Memo_Schedule
begin

text \<open>
  The shared sheets: the tables of \<^verbatim>\<open>shared.rs\<close> with their operations and the types of \<^verbatim>\<open>sheet.rs\<close>. A cell
  is written against the revision the writer has read; a batch is one transaction. Rows, columns and spans are the
  \<^verbatim>\<open>u32\<close> values of a request; after \<^verbatim>\<open>validate_merge\<close> no sum of them wraps. A format is stored as the value it
  parses to. Everybody edits cells; names and removal are for the creator and the administrators.
\<close>

section \<open>Cells, formats and areas\<close>

definition MAX_SHEET_NAME_CHARS :: nat where "MAX_SHEET_NAME_CHARS = 100"
definition MAX_CELL_VALUE_BYTES :: nat where "MAX_CELL_VALUE_BYTES = 4 * 1024"
definition MAX_SHEETS :: nat where "MAX_SHEETS = 100"
definition MAX_SHEET_CELLS :: nat where "MAX_SHEET_CELLS = 10000"
definition MAX_SHEET_ROWS :: nat where "MAX_SHEET_ROWS = 1024"
definition MAX_SHEET_COLS :: nat where "MAX_SHEET_COLS = 200"
definition MIN_FONT_SIZE :: nat where "MIN_FONT_SIZE = 8"
definition MAX_FONT_SIZE :: nat where "MAX_FONT_SIZE = 36"
definition MIN_COL_WIDTH :: nat where "MIN_COL_WIDTH = 20"
definition MAX_COL_WIDTH :: nat where "MAX_COL_WIDTH = 600"
definition MIN_ROW_HEIGHT :: nat where "MIN_ROW_HEIGHT = 16"
definition MAX_ROW_HEIGHT :: nat where "MAX_ROW_HEIGHT = 400"

record cell_format =
  cf_bold :: bool
  cf_italic :: bool
  cf_underline :: bool
  cf_strike :: bool
  cf_font_size :: "nat option"
  cf_color :: "string option"
  cf_bg :: "string option"
  cf_align :: "string option"
  cf_border_top :: bool
  cf_border_bottom :: bool
  cf_border_left :: bool
  cf_border_right :: bool

definition default_format :: cell_format where
  "default_format = \<lparr>cf_bold = False, cf_italic = False, cf_underline = False, cf_strike = False, cf_font_size = None,
     cf_color = None, cf_bg = None, cf_align = None, cf_border_top = False, cf_border_bottom = False,
     cf_border_left = False, cf_border_right = False\<rparr>"

definition is_default_format :: "cell_format \<Rightarrow> bool" where
  "is_default_format f \<longleftrightarrow>
     \<not> cf_bold f \<and> \<not> cf_italic f \<and> \<not> cf_underline f \<and> \<not> cf_strike f \<and> cf_font_size f = None \<and> cf_color f = None
     \<and> cf_bg f = None \<and> cf_align f = None \<and> \<not> cf_border_top f \<and> \<not> cf_border_bottom f \<and> \<not> cf_border_left f
     \<and> \<not> cf_border_right f"

record merge_area =
  ma_row :: nat
  ma_col :: nat
  ma_row_span :: nat
  ma_col_span :: nat

definition area_contains :: "merge_area \<Rightarrow> nat \<Rightarrow> nat \<Rightarrow> bool" where
  "area_contains m r c \<longleftrightarrow>
     ma_row m \<le> r \<and> r < ma_row m + ma_row_span m \<and> ma_col m \<le> c \<and> c < ma_col m + ma_col_span m"

definition area_overlaps :: "merge_area \<Rightarrow> merge_area \<Rightarrow> bool" where
  "area_overlaps m n \<longleftrightarrow>
     ma_row m < ma_row n + ma_row_span n \<and> ma_row n < ma_row m + ma_row_span m
     \<and> ma_col m < ma_col n + ma_col_span n \<and> ma_col n < ma_col m + ma_col_span m"

record sheet_cell =
  ce_row :: nat
  ce_col :: nat
  ce_value :: string
  ce_revision :: nat
  ce_by :: string
  ce_at :: int
  ce_format :: cell_format

record cell_write =
  cw_row :: nat
  cw_col :: nat
  cw_value :: string
  cw_base :: nat
  cw_format :: "cell_format option"

record sheet_row =
  sh_id :: string
  sh_name :: string
  sh_owner_id :: string
  sh_owner_name :: string
  sh_created :: int
  sh_updated :: int
  sh_gridlines :: bool
  sh_freeze_rows :: nat
  sh_freeze_cols :: nat

type_synonym sheet_meta = "sheet_row \<times> bool"

datatype size_kind = Col_Size | Row_Size

text \<open>The tables: the sheets, the cells and areas with the sheet they belong to, and the sizes by sheet, kind and index.\<close>

record sheet_db =
  st_sheets :: "sheet_row list"
  st_cells :: "(string \<times> sheet_cell) list"
  st_layout :: "(string \<times> size_kind \<times> nat, nat) hashmap"
  st_merges :: "(string \<times> merge_area) list"

definition empty_sheet_db :: sheet_db where
  "empty_sheet_db = \<lparr>st_sheets = [], st_cells = [], st_layout = [], st_merges = []\<rparr>"

datatype sheet_error =
    Sheet_Name_Empty | Sheet_Name_Too_Long | Too_Many_Sheets | Sheet_Not_Found | Sheet_Not_Owner | Sheet_Id_Exists
  | Col_Out_Of_Range | Row_Out_Of_Range | Col_Width_Range | Row_Height_Range
  | Area_Empty | Area_Single | Area_Out_Of_Range | Area_Overlaps | No_Area_Here | Freeze_Out_Of_Range
  | Cell_Out_Of_Range | Cell_Too_Long | Font_Size_Range | Bad_Color | Bad_Align | Too_Many_Cells

section \<open>Checks\<close>

definition validate_sheet_name :: "string \<Rightarrow> sheet_error option" where
  "validate_sheet_name n =
     err_then (err_when (trim n = []) Sheet_Name_Empty)
       (err_when (MAX_SHEET_NAME_CHARS < length (chars n)) Sheet_Name_Too_Long)"

definition hex_color :: "string \<Rightarrow> bool" where
  "hex_color v \<longleftrightarrow> length v = 7 \<and> (case v of [] \<Rightarrow> False | c # cs \<Rightarrow> c = CHR ''#'' \<and> list_all is_hexdigit cs)"

definition validate_hex_color :: "string \<Rightarrow> sheet_error option" where
  "validate_hex_color v = err_when (\<not> hex_color v) Bad_Color"

definition validate_cell_format :: "cell_format \<Rightarrow> sheet_error option" where
  "validate_cell_format f =
     err_then (case cf_font_size f of
                 Some n \<Rightarrow> err_when (\<not> (MIN_FONT_SIZE \<le> n \<and> n \<le> MAX_FONT_SIZE)) Font_Size_Range | None \<Rightarrow> None)
    (err_then (case cf_color f of Some c \<Rightarrow> validate_hex_color c | None \<Rightarrow> None)
    (err_then (case cf_bg f of Some c \<Rightarrow> validate_hex_color c | None \<Rightarrow> None)
      (case cf_align f of Some al \<Rightarrow> err_when (al \<notin> {''left'', ''center'', ''right''}) Bad_Align | None \<Rightarrow> None)))"

definition validate_col_width :: "nat \<Rightarrow> sheet_error option" where
  "validate_col_width w = err_when (\<not> (MIN_COL_WIDTH \<le> w \<and> w \<le> MAX_COL_WIDTH)) Col_Width_Range"

definition validate_row_height :: "nat \<Rightarrow> sheet_error option" where
  "validate_row_height h = err_when (\<not> (MIN_ROW_HEIGHT \<le> h \<and> h \<le> MAX_ROW_HEIGHT)) Row_Height_Range"

definition validate_merge :: "merge_area \<Rightarrow> sheet_error option" where
  "validate_merge m =
     err_then (err_when (ma_row_span m = 0 \<or> ma_col_span m = 0) Area_Empty)
    (err_then (err_when (ma_row_span m * ma_col_span m < 2) Area_Single)
      (err_when (MAX_SHEET_ROWS < ma_row m + ma_row_span m \<or> MAX_SHEET_COLS < ma_col m + ma_col_span m) Area_Out_Of_Range))"

definition sheet_check :: "sheet_error option \<Rightarrow> sheet_error + 'a \<Rightarrow> sheet_error + 'a" where
  "sheet_check c r = (case c of Some e \<Rightarrow> Inl e | None \<Rightarrow> r)"

section \<open>Sheets\<close>

definition into_meta :: "actor \<Rightarrow> sheet_row \<Rightarrow> sheet_meta" where
  "into_meta a s = (s, may_change a (sh_owner_id s))"

definition sheet_of :: "sheet_db \<Rightarrow> string \<Rightarrow> sheet_error + sheet_row" where
  "sheet_of db i = (case find (\<lambda>s. sh_id s = i) (st_sheets db) of Some s \<Rightarrow> Inr s | None \<Rightarrow> Inl Sheet_Not_Found)"

definition sheet_list :: "actor \<Rightarrow> sheet_db \<Rightarrow> sheet_meta list" where
  "sheet_list a db = map (into_meta a) (sort_key (\<lambda>s. (sh_created s, sh_id s)) (st_sheets db))"

definition sheet_get :: "actor \<Rightarrow> string \<Rightarrow> sheet_db \<Rightarrow> sheet_error + sheet_meta" where
  "sheet_get a i db = and_then (sheet_of db i) (\<lambda>s. Inr (into_meta a s))"

definition cells_in :: "sheet_db \<Rightarrow> string \<Rightarrow> sheet_cell list" where
  "cells_in db i = map snd (filter (\<lambda>(j, _). j = i) (st_cells db))"

definition sheet_cells :: "string \<Rightarrow> sheet_db \<Rightarrow> sheet_error + sheet_cell list" where
  "sheet_cells i db = and_then (sheet_of db i) (\<lambda>_. Inr (sort_key (\<lambda>c. (ce_row c, ce_col c)) (cells_in db i)))"

definition with_meta :: "actor \<Rightarrow> string \<Rightarrow> sheet_db \<Rightarrow> sheet_error + sheet_meta \<times> sheet_db" where
  "with_meta a i db = and_then (sheet_get a i db) (\<lambda>m. Inr (m, db))"

definition update_sheet :: "string \<Rightarrow> (sheet_row \<Rightarrow> sheet_row) \<Rightarrow> sheet_db \<Rightarrow> sheet_db" where
  "update_sheet i f db = db\<lparr>st_sheets := map (\<lambda>s. if sh_id s = i then f s else s) (st_sheets db)\<rparr>"

definition new_sheet :: "int \<Rightarrow> string \<Rightarrow> actor \<Rightarrow> string \<Rightarrow> sheet_row" where
  "new_sheet now i a name =
     \<lparr>sh_id = i, sh_name = name, sh_owner_id = owner_id a, sh_owner_name = ac_name a, sh_created = now, sh_updated = now,
      sh_gridlines = True, sh_freeze_rows = 0, sh_freeze_cols = 0\<rparr>"

definition sheet_create :: "int \<Rightarrow> string \<Rightarrow> actor \<Rightarrow> string \<Rightarrow> sheet_db \<Rightarrow> sheet_error + sheet_meta \<times> sheet_db" where
  "sheet_create now new_id a name db =
     sheet_check (validate_sheet_name name)
    (bail_if (MAX_SHEETS \<le> length (st_sheets db)) Too_Many_Sheets
    (bail_if (new_id \<in> sh_id ` set (st_sheets db)) Sheet_Id_Exists
      (with_meta a new_id (db\<lparr>st_sheets := st_sheets db @ [new_sheet now new_id a name]\<rparr>))))"

definition sheet_rename :: "int \<Rightarrow> actor \<Rightarrow> string \<Rightarrow> string \<Rightarrow> sheet_db \<Rightarrow> sheet_error + sheet_meta \<times> sheet_db" where
  "sheet_rename now a i name db =
     sheet_check (validate_sheet_name name)
    (and_then (sheet_of db i) (\<lambda>s.
     bail_if (\<not> may_change a (sh_owner_id s)) Sheet_Not_Owner
      (with_meta a i (update_sheet i (\<lambda>s. s\<lparr>sh_name := name, sh_updated := now\<rparr>) db))))"

definition sheet_delete :: "actor \<Rightarrow> string \<Rightarrow> sheet_db \<Rightarrow> sheet_error + sheet_db" where
  "sheet_delete a i db =
     and_then (sheet_of db i) (\<lambda>s.
     bail_if (\<not> may_change a (sh_owner_id s)) Sheet_Not_Owner
      (Inr \<lparr>st_sheets = filter (\<lambda>s. sh_id s \<noteq> i) (st_sheets db), st_cells = filter (\<lambda>(j, _). j \<noteq> i) (st_cells db),
            st_layout = hm_retain (\<lambda>(j, _) _. j \<noteq> i) (st_layout db), st_merges = filter (\<lambda>(j, _). j \<noteq> i) (st_merges db)\<rparr>))"

definition sheet_set_settings :: "actor \<Rightarrow> string \<Rightarrow> bool \<Rightarrow> nat \<Rightarrow> nat \<Rightarrow> sheet_db \<Rightarrow> sheet_error + sheet_meta \<times> sheet_db" where
  "sheet_set_settings a i grid rows cols db =
     and_then (sheet_of db i) (\<lambda>_.
     bail_if (MAX_SHEET_ROWS \<le> rows \<or> MAX_SHEET_COLS \<le> cols) Freeze_Out_Of_Range
      (with_meta a i (update_sheet i (\<lambda>s. s\<lparr>sh_gridlines := grid, sh_freeze_rows := rows, sh_freeze_cols := cols\<rparr>) db)))"

section \<open>Sizes\<close>

definition put_size :: "string \<times> size_kind \<times> nat \<Rightarrow> nat option \<Rightarrow> sheet_db \<Rightarrow> sheet_db" where
  "put_size k n db =
     db\<lparr>st_layout := (case n of Some v \<Rightarrow> hm_insert k v (st_layout db) | None \<Rightarrow> hm_remove k (st_layout db))\<rparr>"

definition sheet_set_col_width :: "string \<Rightarrow> nat \<Rightarrow> nat option \<Rightarrow> sheet_db \<Rightarrow> sheet_error + sheet_db" where
  "sheet_set_col_width i col w db =
     and_then (sheet_of db i) (\<lambda>_.
     bail_if (MAX_SHEET_COLS \<le> col) Col_Out_Of_Range
    (sheet_check (case w of Some w \<Rightarrow> validate_col_width w | None \<Rightarrow> None) (Inr (put_size (i, Col_Size, col) w db))))"

definition sheet_set_row_height :: "string \<Rightarrow> nat \<Rightarrow> nat option \<Rightarrow> sheet_db \<Rightarrow> sheet_error + sheet_db" where
  "sheet_set_row_height i r h db =
     and_then (sheet_of db i) (\<lambda>_.
     bail_if (MAX_SHEET_ROWS \<le> r) Row_Out_Of_Range
    (sheet_check (case h of Some h \<Rightarrow> validate_row_height h | None \<Rightarrow> None) (Inr (put_size (i, Row_Size, r) h db))))"

definition read_sheet_layout_kind :: "sheet_db \<Rightarrow> string \<Rightarrow> size_kind \<Rightarrow> (nat \<times> nat) list" where
  "read_sheet_layout_kind db i k =
     sort_key fst (List.map_filter (\<lambda>((j, l, n), v). if j = i \<and> l = k then Some (n, v) else None) (st_layout db))"

definition sheet_layout :: "string \<Rightarrow> sheet_db \<Rightarrow> sheet_error + (nat \<times> nat) list \<times> (nat \<times> nat) list" where
  "sheet_layout i db =
     and_then (sheet_of db i) (\<lambda>_. Inr (read_sheet_layout_kind db i Col_Size, read_sheet_layout_kind db i Row_Size))"

section \<open>Merged areas\<close>

definition areas_in :: "sheet_db \<Rightarrow> string \<Rightarrow> merge_area list" where
  "areas_in db i = map snd (filter (\<lambda>(j, _). j = i) (st_merges db))"

definition read_sheet_merges :: "sheet_db \<Rightarrow> string \<Rightarrow> merge_area list" where
  "read_sheet_merges db i = sort_key (\<lambda>m. (ma_row m, ma_col m)) (areas_in db i)"

definition sheet_merges :: "string \<Rightarrow> sheet_db \<Rightarrow> sheet_error + merge_area list" where
  "sheet_merges i db = and_then (sheet_of db i) (\<lambda>_. Inr (read_sheet_merges db i))"

definition cell_of :: "(string \<times> sheet_cell) list \<Rightarrow> string \<Rightarrow> nat \<Rightarrow> nat \<Rightarrow> sheet_cell option" where
  "cell_of cs i r c = map_option snd (find (\<lambda>(j, e). (j, ce_row e, ce_col e) = (i, r, c)) cs)"

definition drop_cell :: "string \<Rightarrow> nat \<Rightarrow> nat \<Rightarrow> (string \<times> sheet_cell) list \<Rightarrow> (string \<times> sheet_cell) list" where
  "drop_cell i r c = filter (\<lambda>(j, e). (j, ce_row e, ce_col e) \<noteq> (i, r, c))"

definition area_cells :: "merge_area \<Rightarrow> (nat \<times> nat) list" where
  "area_cells m = [(r, c). r \<leftarrow> [ma_row m..<ma_row m + ma_row_span m], c \<leftarrow> [ma_col m..<ma_col m + ma_col_span m],
     \<not> (r = ma_row m \<and> c = ma_col m)]"

definition erased :: "int \<Rightarrow> actor \<Rightarrow> sheet_cell \<Rightarrow> sheet_cell" where
  "erased now a e = \<lparr>ce_row = ce_row e, ce_col = ce_col e, ce_value = [], ce_revision = ce_revision e + 1,
     ce_by = ac_name a, ce_at = now, ce_format = default_format\<rparr>"

definition erase_cell :: "int \<Rightarrow> actor \<Rightarrow> string \<Rightarrow> nat \<times> nat
    \<Rightarrow> (string \<times> sheet_cell) list \<times> sheet_cell list \<Rightarrow> (string \<times> sheet_cell) list \<times> sheet_cell list" where
  "erase_cell now a i p s =
     (case cell_of (fst s) i (fst p) (snd p) of
        None \<Rightarrow> s
      | Some e \<Rightarrow> (drop_cell i (fst p) (snd p) (fst s), snd s @ [erased now a e]))"

definition touch_sheet :: "int \<Rightarrow> string \<Rightarrow> bool \<Rightarrow> sheet_db \<Rightarrow> sheet_db" where
  "touch_sheet now i b db = (if b then update_sheet i (\<lambda>s. s\<lparr>sh_updated := now\<rparr>) db else db)"

definition sheet_merge :: "int \<Rightarrow> actor \<Rightarrow> string \<Rightarrow> merge_area \<Rightarrow> sheet_db
    \<Rightarrow> sheet_error + (merge_area list \<times> sheet_cell list) \<times> sheet_db" where
  "sheet_merge now a i m db =
     and_then (sheet_of db i) (\<lambda>_.
     sheet_check (validate_merge m)
    (bail_if (\<exists>n \<in> set (read_sheet_merges db i). area_overlaps n m) Area_Overlaps
      (let (cells, changed) = fold (erase_cell now a i) (area_cells m) (st_cells db, []);
           db' = touch_sheet now i (changed \<noteq> []) (db\<lparr>st_merges := st_merges db @ [(i, m)], st_cells := cells\<rparr>)
       in Inr ((read_sheet_merges db' i, changed), db'))))"

definition sheet_unmerge :: "string \<Rightarrow> nat \<Rightarrow> nat \<Rightarrow> sheet_db \<Rightarrow> sheet_error + merge_area list \<times> sheet_db" where
  "sheet_unmerge i r c db =
     and_then (sheet_of db i) (\<lambda>_.
     (case find (\<lambda>m. area_contains m r c) (read_sheet_merges db i) of
        None \<Rightarrow> Inl No_Area_Here
      | Some m \<Rightarrow>
          (let db' = db\<lparr>st_merges := filter (\<lambda>(j, n). (j, ma_row n, ma_col n) \<noteq> (i, ma_row m, ma_col m)) (st_merges db)\<rparr>
           in Inr (read_sheet_merges db' i, db'))))"

section \<open>Writing cells\<close>

text \<open>What a batch has done so far: the table, the number of cells of the sheet, and the three results.\<close>

record write_state =
  ws_cells :: "(string \<times> sheet_cell) list"
  ws_count :: nat
  ws_applied :: nat
  ws_conflicts :: "sheet_cell list"
  ws_changed :: "sheet_cell list"

definition check_write :: "cell_write \<Rightarrow> sheet_error option" where
  "check_write w =
     err_then (err_when (MAX_SHEET_ROWS \<le> cw_row w \<or> MAX_SHEET_COLS \<le> cw_col w) Cell_Out_Of_Range)
    (err_then (err_when (MAX_CELL_VALUE_BYTES < length (cw_value w)) Cell_Too_Long)
      (case cw_format w of Some f \<Rightarrow> validate_cell_format f | None \<Rightarrow> None))"

definition written_cell :: "int \<Rightarrow> actor \<Rightarrow> cell_write \<Rightarrow> nat \<Rightarrow> cell_format \<Rightarrow> sheet_cell" where
  "written_cell now a w v f = \<lparr>ce_row = cw_row w, ce_col = cw_col w, ce_value = cw_value w, ce_revision = v,
     ce_by = ac_name a, ce_at = now, ce_format = f\<rparr>"

definition absent_cell :: "cell_write \<Rightarrow> sheet_cell" where
  "absent_cell w = \<lparr>ce_row = cw_row w, ce_col = cw_col w, ce_value = [], ce_revision = 0, ce_by = [], ce_at = 0,
     ce_format = default_format\<rparr>"

definition replace_cell :: "string \<Rightarrow> sheet_cell \<Rightarrow> (string \<times> sheet_cell) list \<Rightarrow> (string \<times> sheet_cell) list" where
  "replace_cell i n = map (\<lambda>(j, e). if (j, ce_row e, ce_col e) = (i, ce_row n, ce_col n) then (j, n) else (j, e))"

definition write_existing :: "int \<Rightarrow> actor \<Rightarrow> string \<Rightarrow> cell_write \<Rightarrow> sheet_cell \<Rightarrow> write_state \<Rightarrow> write_state" where
  "write_existing now a i w e s =
     (if ce_revision e \<noteq> cw_base w then s\<lparr>ws_conflicts := ws_conflicts s @ [e]\<rparr>
      else
        (let f = (case cw_format w of Some f \<Rightarrow> f | None \<Rightarrow> ce_format e);
             n = written_cell now a w (ce_revision e + 1) f;
             s' = (if cw_value w = [] \<and> is_default_format f
                   then s\<lparr>ws_cells := drop_cell i (cw_row w) (cw_col w) (ws_cells s), ws_count := ws_count s - 1\<rparr>
                   else s\<lparr>ws_cells := replace_cell i n (ws_cells s)\<rparr>)
         in s'\<lparr>ws_changed := ws_changed s @ [n], ws_applied := ws_applied s + 1\<rparr>))"

definition write_new :: "int \<Rightarrow> actor \<Rightarrow> string \<Rightarrow> cell_write \<Rightarrow> write_state \<Rightarrow> sheet_error + write_state" where
  "write_new now a i w s =
     (if cw_base w \<noteq> 0 then Inr (s\<lparr>ws_conflicts := ws_conflicts s @ [absent_cell w]\<rparr>)
      else
        (let f = (case cw_format w of Some f \<Rightarrow> f | None \<Rightarrow> default_format);
             n = written_cell now a w 1 f
         in if cw_value w = [] \<and> is_default_format f then Inr (s\<lparr>ws_applied := ws_applied s + 1\<rparr>)
            else bail_if (MAX_SHEET_CELLS \<le> ws_count s) Too_Many_Cells
              (Inr (s\<lparr>ws_cells := ws_cells s @ [(i, n)], ws_count := ws_count s + 1, ws_changed := ws_changed s @ [n],
                     ws_applied := ws_applied s + 1\<rparr>))))"

definition write_cell :: "int \<Rightarrow> actor \<Rightarrow> string \<Rightarrow> cell_write \<Rightarrow> write_state \<Rightarrow> sheet_error + write_state" where
  "write_cell now a i w s =
     sheet_check (check_write w)
       (case cell_of (ws_cells s) i (cw_row w) (cw_col w) of
          Some e \<Rightarrow> Inr (write_existing now a i w e s)
        | None \<Rightarrow> write_new now a i w s)"

fun write_cells :: "int \<Rightarrow> actor \<Rightarrow> string \<Rightarrow> cell_write list \<Rightarrow> write_state \<Rightarrow> sheet_error + write_state" where
  "write_cells now a i [] s = Inr s"
| "write_cells now a i (w # ws) s = and_then (write_cell now a i w s) (write_cells now a i ws)"

definition write_start :: "string \<Rightarrow> sheet_db \<Rightarrow> write_state" where
  "write_start i db = \<lparr>ws_cells = st_cells db, ws_count = length (cells_in db i), ws_applied = 0, ws_conflicts = [],
     ws_changed = []\<rparr>"

definition sheet_write :: "int \<Rightarrow> actor \<Rightarrow> string \<Rightarrow> cell_write list \<Rightarrow> sheet_db
    \<Rightarrow> sheet_error + (nat \<times> sheet_cell list \<times> sheet_cell list) \<times> sheet_db" where
  "sheet_write now a i ws db =
     and_then (sheet_of db i) (\<lambda>_.
     if ws = [] then Inr ((0, [], []), db)
     else and_then (write_cells now a i ws (write_start i db)) (\<lambda>s.
       Inr ((ws_applied s, ws_conflicts s, ws_changed s),
         touch_sheet now i (ws_changed s \<noteq> []) (db\<lparr>st_cells := ws_cells s\<rparr>))))"

section \<open>Requests\<close>

datatype sheet_op =
    Sheet_List
  | Sheet_Cells string
  | Sheet_Create string
  | Sheet_Rename string string
  | Sheet_Delete string
  | Sheet_Write string "cell_write list"
  | Set_Col_Width string nat "nat option"
  | Set_Row_Height string nat "nat option"
  | Merge_Cells string merge_area
  | Unmerge_Cells string nat nat
  | Set_Sheet_Settings string bool nat nat
  | Sheet_Presence string nat nat

text \<open>Who looks at which cell; kept in memory for ten seconds.\<close>

record presence_entry =
  pe_sheet :: string
  pe_row :: nat
  pe_col :: nat
  pe_name :: string
  pe_seen :: instant

type_synonym presence_peer = "string \<times> nat \<times> nat"

definition SHEET_PRESENCE_TTL :: duration where "SHEET_PRESENCE_TTL = secs 10"

record sheet_service =
  sv_sheets :: sheet_db
  sv_presence :: "(string, presence_entry) hashmap"

datatype sheet_reply =
    Sheets "sheet_meta list"
  | Cells_Data string "sheet_cell list" "(nat \<times> nat) list" "(nat \<times> nat) list" "merge_area list" "presence_peer list"
  | Sheet sheet_meta
  | Write_Result nat "sheet_cell list"
  | Sheet_Done

text \<open>What goes to the other connections. A change of sizes is sent with the sizes that are read when it is sent.\<close>

datatype sheet_notice =
    Sheet_Changed sheet_meta
  | Sheet_Removed string
  | Cells_Changed string "sheet_cell list"
  | Layout_Due string
  | Layout string "(nat \<times> nat) list" "(nat \<times> nat) list"
  | Merges string "merge_area list"
  | Presence "string option" string "presence_peer list"

definition sheet_presence_for :: "instant \<Rightarrow> string \<Rightarrow> string option \<Rightarrow> (string, presence_entry) hashmap \<Rightarrow> presence_peer list" where
  "sheet_presence_for t i excl ps =
     map (\<lambda>(_, e). (pe_name e, pe_row e, pe_col e))
       (filter (\<lambda>(k, e). pe_sheet e = i \<and> t - pe_seen e \<le> SHEET_PRESENCE_TTL \<and> excl \<noteq> Some k) ps)"

definition lock_key :: "actor \<Rightarrow> string" where
  "lock_key a = (case ac_member a of Some i \<Rightarrow> i | None \<Rightarrow> [])"

text \<open>The reply, the notices, whether the generation advances, and the state.\<close>

type_synonym sheet_result = "sheet_reply \<times> sheet_notice list \<times> bool \<times> sheet_service"

definition sheet_done :: "sheet_reply \<Rightarrow> sheet_notice list \<Rightarrow> sheet_service \<Rightarrow> sheet_db \<Rightarrow> sheet_error + sheet_result" where
  "sheet_done rep ns s db = Inr (rep, ns, True, s\<lparr>sv_sheets := db\<rparr>)"

definition read_cells :: "instant \<Rightarrow> actor \<Rightarrow> string \<Rightarrow> sheet_service \<Rightarrow> sheet_error + sheet_result" where
  "read_cells t a i s =
     and_then (sheet_cells i (sv_sheets s)) (\<lambda>cells.
     and_then (sheet_layout i (sv_sheets s)) (\<lambda>(cols, rows).
     and_then (sheet_merges i (sv_sheets s)) (\<lambda>ms.
       Inr (Cells_Data i cells cols rows ms (sheet_presence_for t i (Some (lock_key a)) (sv_presence s)), [], False, s))))"

definition note_presence :: "instant \<Rightarrow> actor \<Rightarrow> string \<Rightarrow> nat \<Rightarrow> nat \<Rightarrow> sheet_service \<Rightarrow> sheet_result" where
  "note_presence t a i r c s =
     (let moved = (case hm_get (sv_presence s) (lock_key a) of
                     Some e \<Rightarrow> pe_sheet e \<noteq> i \<or> pe_row e \<noteq> r \<or> pe_col e \<noteq> c | None \<Rightarrow> True);
          ps = hm_insert (lock_key a) \<lparr>pe_sheet = i, pe_row = r, pe_col = c, pe_name = ac_name a, pe_seen = t\<rparr> (sv_presence s)
      in (Sheet_Done, [Presence (Some (lock_key a)) i (sheet_presence_for t i None ps)], moved, s\<lparr>sv_presence := ps\<rparr>))"

definition handle_sheet :: "int \<Rightarrow> instant \<Rightarrow> string \<Rightarrow> actor \<Rightarrow> sheet_op \<Rightarrow> sheet_service \<Rightarrow> sheet_error + sheet_result" where
  "handle_sheet now t new_id a op s =
     (case op of
        Sheet_List \<Rightarrow> Inr (Sheets (sheet_list a (sv_sheets s)), [], False, s)
      | Sheet_Cells i \<Rightarrow> read_cells t a i s
      | Sheet_Create n \<Rightarrow>
          and_then (sheet_create now new_id a n (sv_sheets s)) (\<lambda>(m, db). sheet_done (Sheet m) [Sheet_Changed m] s db)
      | Sheet_Rename i n \<Rightarrow>
          and_then (sheet_rename now a i n (sv_sheets s)) (\<lambda>(m, db). sheet_done (Sheet m) [Sheet_Changed m] s db)
      | Sheet_Delete i \<Rightarrow>
          and_then (sheet_delete a i (sv_sheets s)) (\<lambda>db. sheet_done Sheet_Done [Sheet_Removed i] s db)
      | Sheet_Write i ws \<Rightarrow>
          and_then (sheet_write now a i ws (sv_sheets s)) (\<lambda>((n, conflicts, changed), db).
            Inr (Write_Result n conflicts, if 0 < n \<and> changed \<noteq> [] then [Cells_Changed i changed] else [], 0 < n, s\<lparr>sv_sheets := db\<rparr>))
      | Set_Col_Width i c w \<Rightarrow>
          and_then (sheet_set_col_width i c w (sv_sheets s)) (\<lambda>db. sheet_done Sheet_Done [Layout_Due i] s db)
      | Set_Row_Height i r h \<Rightarrow>
          and_then (sheet_set_row_height i r h (sv_sheets s)) (\<lambda>db. sheet_done Sheet_Done [Layout_Due i] s db)
      | Merge_Cells i m \<Rightarrow>
          and_then (sheet_merge now a i m (sv_sheets s)) (\<lambda>((ms, gone), db).
            sheet_done Sheet_Done (Merges i ms # (if gone \<noteq> [] then [Cells_Changed i gone] else [])) s db)
      | Unmerge_Cells i r c \<Rightarrow>
          and_then (sheet_unmerge i r c (sv_sheets s)) (\<lambda>(ms, db). sheet_done Sheet_Done [Merges i ms] s db)
      | Set_Sheet_Settings i g r c \<Rightarrow>
          and_then (sheet_set_settings a i g r c (sv_sheets s)) (\<lambda>(m, db). sheet_done (Sheet m) [Sheet_Changed m] s db)
      | Sheet_Presence i r c \<Rightarrow> Inr (note_presence t a i r c s))"

definition layout_notice :: "sheet_db \<Rightarrow> string \<Rightarrow> sheet_notice option" where
  "layout_notice db i = (case sheet_layout i db of Inr (cols, rows) \<Rightarrow> Some (Layout i cols rows) | Inl _ \<Rightarrow> None)"

text \<open>One notice for one receiver; the sender's own presence is not sent back.\<close>

definition sheet_notice_for :: "actor \<Rightarrow> sheet_notice \<Rightarrow> sheet_notice option" where
  "sheet_notice_for a n =
     (case n of
        Sheet_Changed (s, _) \<Rightarrow> Some (Sheet_Changed (into_meta a s))
      | Presence k i ps \<Rightarrow> if k = Some (lock_key a) then None else Some n
      | _ \<Rightarrow> Some n)"

text \<open>The sweep of the supervisor. The order of the affected sheets is that of a hash set.\<close>

definition sweep_sheet_presence :: "instant \<Rightarrow> sheet_service \<Rightarrow> sheet_notice list \<times> bool \<times> sheet_service" where
  "sweep_sheet_presence t s =
     (let old = filter (\<lambda>(_, e). SHEET_PRESENCE_TTL < t - pe_seen e) (sv_presence s);
          affected = remdups (map (pe_sheet \<circ> snd) old);
          ps = hm_retain (\<lambda>_ e. t - pe_seen e \<le> SHEET_PRESENCE_TTL) (sv_presence s)
      in (map (\<lambda>i. Presence None i (sheet_presence_for t i None ps)) affected, affected \<noteq> [], s\<lparr>sv_presence := ps\<rparr>))"

end
