(* ===== verification/Sheet_Laws.thy ===== *)
theory Sheet_Laws
  imports Memo_Sheet
begin

text \<open>
  What the shared sheets promise. A batch of writes refines a register per cell that is written by compare and set, an
  absent cell having the revision zero; and the tables stay coherent under every request: cells inside the sheet and
  within the limits, merged areas inside the sheet and apart from each other.
\<close>

section \<open>The cells as registers\<close>

type_synonym cell_view = "nat \<times> nat \<Rightarrow> (nat \<times> string \<times> cell_format) option"

definition cell_view :: "(string \<times> sheet_cell) list \<Rightarrow> string \<Rightarrow> cell_view" where
  "cell_view cs i = (\<lambda>(r, c). map_option (\<lambda>e. (ce_revision e, ce_value e, ce_format e)) (cell_of cs i r c))"

definition revision_at :: "cell_view \<Rightarrow> nat \<times> nat \<Rightarrow> nat" where
  "revision_at m p = (case m p of Some (v, _, _) \<Rightarrow> v | None \<Rightarrow> 0)"

definition format_at :: "cell_view \<Rightarrow> nat \<times> nat \<Rightarrow> cell_format" where
  "format_at m p = (case m p of Some (_, _, f) \<Rightarrow> f | None \<Rightarrow> default_format)"

text \<open>Compare and set: a write with an old revision does nothing; empty text in the default format clears the register.\<close>

definition register_write :: "cell_write \<Rightarrow> cell_view \<Rightarrow> cell_view" where
  "register_write w m =
     (let p = (cw_row w, cw_col w);
          f = (case cw_format w of Some f \<Rightarrow> f | None \<Rightarrow> format_at m p)
      in if revision_at m p \<noteq> cw_base w then m
         else m(p := if cw_value w = [] \<and> is_default_format f then None else Some (revision_at m p + 1, cw_value w, f)))"

text \<open>The writes of a batch that come too late.\<close>

fun refused :: "cell_write list \<Rightarrow> cell_view \<Rightarrow> cell_write list" where
  "refused [] m = []"
| "refused (w # ws) m =
     (if revision_at m (cw_row w, cw_col w) \<noteq> cw_base w then [w] else []) @ refused ws (register_write w m)"

lemma cell_of_Nil [simp]: "cell_of [] i r c = None"
  by (simp add: cell_of_def)

lemma cell_of_drop:
  "cell_of (drop_cell i r c cs) j r' c' = (if (j, r', c') = (i, r, c) then None else cell_of cs j r' c')"
  by (induction cs) (auto simp: cell_of_def drop_cell_def split: prod.splits if_splits)

lemma cell_of_replace:
  "cell_of (replace_cell i n cs) j r c
    = (if (j, r, c) = (i, ce_row n, ce_col n) then map_option (\<lambda>_. n) (cell_of cs j r c) else cell_of cs j r c)"
  by (induction cs) (auto simp: cell_of_def replace_cell_def split: prod.splits if_splits)

lemma cell_of_snoc:
  "cell_of (cs @ [(i, n)]) j r c
    = (case cell_of cs j r c of Some e \<Rightarrow> Some e | None \<Rightarrow> if (j, r, c) = (i, ce_row n, ce_col n) then Some n else None)"
  by (auto simp: cell_of_def find_app split: option.splits)

lemma cell_of_key: "cell_of cs i r c = Some e \<Longrightarrow> ce_row e = r \<and> ce_col e = c \<and> (i, e) \<in> set cs"
  by (auto simp: cell_of_def dest!: find_Some_set)

lemma written_cell_simps [simp]:
  "ce_row (written_cell now a w v f) = cw_row w" "ce_col (written_cell now a w v f) = cw_col w"
  "ce_revision (written_cell now a w v f) = v" "ce_value (written_cell now a w v f) = cw_value w"
  "ce_format (written_cell now a w v f) = f"
  by (simp_all add: written_cell_def)

text \<open>One write: the register it names is written, every other stays, and it is counted once.\<close>

lemma write_cell_cases:
  assumes "write_cell now a i w s = Inr s'"
  obtains e where "cell_of (ws_cells s) i (cw_row w) (cw_col w) = Some e" "s' = write_existing now a i w e s"
    | "cell_of (ws_cells s) i (cw_row w) (cw_col w) = None" "write_new now a i w s = Inr s'"
  using assms by (auto simp: write_cell_def sheet_check_def split: option.splits)

lemma write_cell_view:
  assumes "write_cell now a i w s = Inr s'"
  shows "cell_view (ws_cells s') j = (if j = i then register_write w (cell_view (ws_cells s) i) else cell_view (ws_cells s) j)"
  using assms
proof (cases rule: write_cell_cases)
  case (1 e)
  then show ?thesis
    by (auto simp: fun_eq_iff cell_view_def register_write_def revision_at_def format_at_def write_existing_def Let_def
        cell_of_drop cell_of_replace split: option.split)
next
  case 2
  then show ?thesis
    by (auto simp: fun_eq_iff cell_view_def register_write_def revision_at_def format_at_def write_new_def Let_def
        cell_of_snoc split: if_splits option.splits)
qed

lemma write_cell_counts:
  assumes "write_cell now a i w s = Inr s'"
  shows "if revision_at (cell_view (ws_cells s) i) (cw_row w, cw_col w) \<noteq> cw_base w
         then ws_applied s' = ws_applied s \<and> (\<exists>e. ws_conflicts s' = ws_conflicts s @ [e] \<and> ce_row e = cw_row w \<and> ce_col e = cw_col w)
         else ws_applied s' = ws_applied s + 1 \<and> ws_conflicts s' = ws_conflicts s"
  using assms
proof (cases rule: write_cell_cases)
  case (1 e)
  then show ?thesis using cell_of_key [OF 1(1)] by (auto simp: revision_at_def cell_view_def write_existing_def Let_def)
next
  case 2
  then show ?thesis by (auto simp: revision_at_def cell_view_def write_new_def Let_def absent_cell_def split: if_splits)
qed

lemma write_cells_view:
  assumes "write_cells now a i ws s = Inr s'"
  shows "cell_view (ws_cells s') j
    = (if j = i then fold register_write ws (cell_view (ws_cells s) i) else cell_view (ws_cells s) j)"
  using assms
proof (induction ws arbitrary: s)
  case (Cons w ws)
  then obtain t where t: "write_cell now a i w s = Inr t" "write_cells now a i ws t = Inr s'" by auto
  show ?case using Cons.IH [OF t(2)] write_cell_view [OF t(1), of j] write_cell_view [OF t(1), of i] by simp
qed simp

lemma write_cells_counts:
  assumes "write_cells now a i ws s = Inr s'"
  shows "map (\<lambda>e. (ce_row e, ce_col e)) (ws_conflicts s') = map (\<lambda>e. (ce_row e, ce_col e)) (ws_conflicts s)
      @ map (\<lambda>w. (cw_row w, cw_col w)) (refused ws (cell_view (ws_cells s) i))"
    and "ws_applied s' + length (refused ws (cell_view (ws_cells s) i)) = ws_applied s + length ws"
proof -
  have "map (\<lambda>e. (ce_row e, ce_col e)) (ws_conflicts s') = map (\<lambda>e. (ce_row e, ce_col e)) (ws_conflicts s)
      @ map (\<lambda>w. (cw_row w, cw_col w)) (refused ws (cell_view (ws_cells s) i))
    \<and> ws_applied s' + length (refused ws (cell_view (ws_cells s) i)) = ws_applied s + length ws"
    using assms
  proof (induction ws arbitrary: s)
    case (Cons w ws)
    then obtain t where t: "write_cell now a i w s = Inr t" "write_cells now a i ws t = Inr s'" by auto
    show ?case using Cons.IH [OF t(2)] write_cell_counts [OF t(1)] write_cell_view [OF t(1), of i]
      by (auto split: if_splits)
  qed simp
  then show "map (\<lambda>e. (ce_row e, ce_col e)) (ws_conflicts s') = map (\<lambda>e. (ce_row e, ce_col e)) (ws_conflicts s)
      @ map (\<lambda>w. (cw_row w, cw_col w)) (refused ws (cell_view (ws_cells s) i))"
    and "ws_applied s' + length (refused ws (cell_view (ws_cells s) i)) = ws_applied s + length ws" by simp_all
qed

lemma sheet_check_Inr [simp]: "sheet_check c r = Inr y \<longleftrightarrow> c = None \<and> r = Inr y"
  by (simp add: sheet_check_def split: option.splits)

lemma touch_simps [simp]:
  "st_cells (touch_sheet now i b db) = st_cells db" "st_merges (touch_sheet now i b db) = st_merges db"
  "st_layout (touch_sheet now i b db) = st_layout db"
  "map sh_id (st_sheets (touch_sheet now i b db)) = map sh_id (st_sheets db)"
  by (simp_all add: touch_sheet_def update_sheet_def comp_def if_distrib cong: if_cong)

text \<open>
  C6: a batch of writes refines compare and set, register by register. If the batch succeeds, the cells of the sheet are
  those that the writes, one after the other, leave in the registers; the writes reported as conflicts are exactly
  those whose revision was old at their turn, in their order, and all others are counted as applied. No other sheet
  changes. If it fails, the database is the one before it.
\<close>

theorem batch_refines_registers:
  assumes "sheet_write now a i ws db = Inr ((n, conflicts, changed), db')"
  shows "cell_view (st_cells db') i = fold register_write ws (cell_view (st_cells db) i)
    \<and> map (\<lambda>e. (ce_row e, ce_col e)) conflicts = map (\<lambda>w. (cw_row w, cw_col w)) (refused ws (cell_view (st_cells db) i))
    \<and> n + length conflicts = length ws
    \<and> (\<forall>j. j \<noteq> i \<longrightarrow> cell_view (st_cells db') j = cell_view (st_cells db) j)"
proof (cases "ws = []")
  case True
  then show ?thesis using assms by (simp add: sheet_write_def)
next
  case False
  with assms obtain s where s: "write_cells now a i ws (write_start i db) = Inr s"
    and r: "n = ws_applied s" "conflicts = ws_conflicts s" "st_cells db' = ws_cells s"
    by (auto simp: sheet_write_def)
  have start: "ws_cells (write_start i db) = st_cells db" "ws_conflicts (write_start i db) = []" "ws_applied (write_start i db) = 0"
    by (simp_all add: write_start_def)
  have "length conflicts = length (refused ws (cell_view (st_cells db) i))"
    using arg_cong [OF write_cells_counts(1) [OF s], of length] by (simp add: start r)
  then show ?thesis using write_cells_view [OF s] write_cells_counts [OF s] start r by simp
qed

section \<open>The tables stay coherent\<close>

definition cell_key :: "string \<times> sheet_cell \<Rightarrow> string \<times> nat \<times> nat" where
  "cell_key x = (fst x, ce_row (snd x), ce_col (snd x))"

definition cell_fits :: "sheet_cell \<Rightarrow> bool" where
  "cell_fits e \<longleftrightarrow> ce_row e < MAX_SHEET_ROWS \<and> ce_col e < MAX_SHEET_COLS \<and> length (ce_value e) \<le> MAX_CELL_VALUE_BYTES
     \<and> validate_cell_format (ce_format e) = None \<and> \<not> (ce_value e = [] \<and> is_default_format (ce_format e)) \<and> 1 \<le> ce_revision e"

definition cells_ok :: "string set \<Rightarrow> (string \<times> sheet_cell) list \<Rightarrow> bool" where
  "cells_ok ids cs \<longleftrightarrow> fst ` set cs \<subseteq> ids \<and> distinct (map cell_key cs) \<and> (\<forall>x \<in> set cs. cell_fits (snd x))
     \<and> (\<forall>i. length (filter (\<lambda>x. fst x = i) cs) \<le> MAX_SHEET_CELLS)"

definition apart :: "string \<times> merge_area \<Rightarrow> string \<times> merge_area \<Rightarrow> bool" where
  "apart x y \<longleftrightarrow> (fst x = fst y \<longrightarrow> \<not> area_overlaps (snd x) (snd y))"

definition areas_ok :: "string set \<Rightarrow> (string \<times> merge_area) list \<Rightarrow> bool" where
  "areas_ok ids ms \<longleftrightarrow> fst ` set ms \<subseteq> ids \<and> (\<forall>x \<in> set ms. validate_merge (snd x) = None) \<and> sorted_wrt apart ms"

definition size_ok :: "(string \<times> size_kind \<times> nat) \<times> nat \<Rightarrow> bool" where
  "size_ok x = (case x of ((i, k, n), v) \<Rightarrow>
     (case k of Col_Size \<Rightarrow> n < MAX_SHEET_COLS \<and> validate_col_width v = None
      | Row_Size \<Rightarrow> n < MAX_SHEET_ROWS \<and> validate_row_height v = None))"

definition layout_ok :: "string set \<Rightarrow> (string \<times> size_kind \<times> nat, nat) hashmap \<Rightarrow> bool" where
  "layout_ok ids l \<longleftrightarrow> hm_ok l \<and> (fst \<circ> fst) ` set l \<subseteq> ids \<and> (\<forall>x \<in> set l. size_ok x)"

definition sheet_ids :: "sheet_db \<Rightarrow> string set" where
  "sheet_ids db = set (map sh_id (st_sheets db))"

definition sheets_ok :: "sheet_db \<Rightarrow> bool" where
  "sheets_ok db \<longleftrightarrow> distinct (map sh_id (st_sheets db)) \<and> length (st_sheets db) \<le> MAX_SHEETS
     \<and> cells_ok (sheet_ids db) (st_cells db) \<and> areas_ok (sheet_ids db) (st_merges db) \<and> layout_ok (sheet_ids db) (st_layout db)"

lemma sheets_ok_empty: "sheets_ok empty_sheet_db"
  by (simp add: sheets_ok_def empty_sheet_db_def cells_ok_def areas_ok_def layout_ok_def hm.ok_empty)

lemma sheet_of_Inr: "sheet_of db i = Inr s \<Longrightarrow> s \<in> set (st_sheets db) \<and> sh_id s = i \<and> i \<in> sheet_ids db"
  by (auto simp: sheet_of_def sheet_ids_def split: option.splits dest!: find_Some_set)

lemma cells_in_filter: "length (cells_in db i) = length (filter (\<lambda>x. fst x = i) (st_cells db))"
proof -
  have "(\<lambda>(j, _). j = i) = (\<lambda>x :: string \<times> sheet_cell. fst x = i)" by auto
  then show ?thesis by (simp add: cells_in_def)
qed

lemma filter_cells_ok:
  assumes "cells_ok ids cs" and "\<And>x. x \<in> set cs \<Longrightarrow> Q x \<Longrightarrow> fst x \<in> ids'"
  shows "cells_ok ids' (filter Q cs)"
proof -
  have "length (filter (\<lambda>x. fst x = i) (filter Q cs)) \<le> MAX_SHEET_CELLS" for i
  proof -
    have "filter (\<lambda>x. fst x = i) (filter Q cs) = filter Q (filter (\<lambda>x. fst x = i) cs)" by (simp add: conj_commute)
    then have "length (filter (\<lambda>x. fst x = i) (filter Q cs)) \<le> length (filter (\<lambda>x. fst x = i) cs)"
      by (simp only: length_filter_le)
    also have "\<dots> \<le> MAX_SHEET_CELLS" using assms(1) by (simp add: cells_ok_def)
    finally show ?thesis .
  qed
  moreover have "fst ` set (filter Q cs) \<subseteq> ids'" using assms(2) by auto
  ultimately show ?thesis using assms(1) by (simp add: cells_ok_def distinct_map_filter)
qed

lemma drop_cell_ok: "cells_ok ids cs \<Longrightarrow> cells_ok ids (drop_cell i r c cs)"
  unfolding drop_cell_def by (rule filter_cells_ok) (auto simp: cells_ok_def)

lemma count_fst: "length (filter (\<lambda>x. fst x = j) xs) = length (filter (\<lambda>k. k = j) (map fst xs))"
  by (induction xs) simp_all

lemma replace_cell_fst: "map fst (replace_cell i n cs) = map fst cs"
  by (auto simp: replace_cell_def)

lemma replace_cell_keys: "map cell_key (replace_cell i n cs) = map cell_key cs"
  by (auto simp: replace_cell_def cell_key_def)

lemma replace_cell_ok:
  assumes "cells_ok ids cs" and "cell_fits n"
  shows "cells_ok ids (replace_cell i n cs)"
proof -
  have "length (filter (\<lambda>x. fst x = j) (replace_cell i n cs)) = length (filter (\<lambda>x. fst x = j) cs)" for j
    by (simp only: count_fst replace_cell_fst)
  moreover have "fst ` set (replace_cell i n cs) = fst ` set cs"
    using arg_cong [OF replace_cell_fst, of set i n cs] by (simp only: list.set_map)
  moreover have "cell_fits (snd x)" if "x \<in> set (replace_cell i n cs)" for x
    using that assms by (auto simp: replace_cell_def cells_ok_def split: if_splits)
  ultimately show ?thesis using assms(1) by (simp add: cells_ok_def replace_cell_keys)
qed

lemma cell_of_None: "cell_of cs i r c = None \<longleftrightarrow> (i, r, c) \<notin> cell_key ` set cs"
  by (force simp: cell_of_def find_None_set cell_key_def)

lemma snoc_cell_ok:
  assumes "cells_ok ids cs" and "i \<in> ids" and "cell_fits n" and "cell_of cs i (ce_row n) (ce_col n) = None"
    and "length (filter (\<lambda>x. fst x = i) cs) < MAX_SHEET_CELLS"
  shows "cells_ok ids (cs @ [(i, n)])"
  using assms by (auto simp: cells_ok_def cell_of_None cell_key_def)

text \<open>The count that a batch keeps is the number of cells of the sheet.\<close>

definition batch_ok :: "string set \<Rightarrow> string \<Rightarrow> write_state \<Rightarrow> bool" where
  "batch_ok ids i s \<longleftrightarrow> cells_ok ids (ws_cells s) \<and> ws_count s = length (filter (\<lambda>x. fst x = i) (ws_cells s))"

lemma check_write_fits:
  assumes "check_write w = None" and "cw_format w = Some f \<or> validate_cell_format f = None" and "1 \<le> v"
    and "\<not> (cw_value w = [] \<and> is_default_format f)"
  shows "cell_fits (written_cell now a w v f)"
  using assms by (auto simp: check_write_def cell_fits_def not_le not_less)

lemma default_format_valid [simp]: "validate_cell_format default_format = None"
  by (simp add: validate_cell_format_def default_format_def)

lemma drop_cell_count:
  assumes "distinct (map cell_key cs)" and "cell_of cs i r c = Some e"
  shows "length (filter (\<lambda>x. fst x = i) (drop_cell i r c cs)) = length (filter (\<lambda>x. fst x = i) cs) - 1"
proof -
  have "Suc (length (filter (\<lambda>x. fst x = i) (drop_cell i r c cs))) = length (filter (\<lambda>x. fst x = i) cs)"
    using assms
  proof (induction cs)
    case (Cons x cs)
    show ?case
    proof (cases "cell_key x = (i, r, c)")
      case True
      then have "\<forall>y \<in> set cs. cell_key y \<noteq> (i, r, c)" using Cons.prems(1) by force
      then have "drop_cell i r c cs = cs" by (auto simp: drop_cell_def cell_key_def filter_id_conv)
      then show ?thesis using True by (auto simp: drop_cell_def cell_key_def)
    next
      case False
      then have "cell_of cs i r c = Some e" using Cons.prems(2) by (auto simp: cell_of_def cell_key_def split: if_splits prod.splits)
      with Cons False show ?thesis by (auto simp: drop_cell_def cell_key_def)
    qed
  qed simp
  then show ?thesis by simp
qed

lemma write_cell_ok:
  assumes "batch_ok ids i s" and "i \<in> ids" and "write_cell now a i w s = Inr s'"
  shows "batch_ok ids i s'"
proof -
  have w: "check_write w = None" using assms(3) by (simp add: write_cell_def)
  have ok: "cells_ok ids (ws_cells s)" and n: "ws_count s = length (filter (\<lambda>x. fst x = i) (ws_cells s))"
    using assms(1) by (simp_all add: batch_ok_def)
  from assms(3) show ?thesis
  proof (cases rule: write_cell_cases)
    case (1 e)
    define f where "f = (case cw_format w of Some f \<Rightarrow> f | None \<Rightarrow> ce_format e)"
    define m where "m = written_cell now a w (ce_revision e + 1) f"
    have "cell_fits e" using cell_of_key [OF 1(1)] ok by (force simp: cells_ok_def)
    then have f: "cw_format w = Some f \<or> validate_cell_format f = None" by (auto simp: f_def cell_fits_def split: option.split)
    show ?thesis
    proof (cases "ce_revision e \<noteq> cw_base w")
      case True
      then show ?thesis using assms(1) 1(2) by (simp add: write_existing_def batch_ok_def)
    next
      case same: False
      show ?thesis
      proof (cases "cw_value w = [] \<and> is_default_format f")
        case True
        then have "ws_cells s' = drop_cell i (cw_row w) (cw_col w) (ws_cells s)" "ws_count s' = ws_count s - 1"
          using 1(2) same by (simp_all add: write_existing_def Let_def f_def [symmetric])
        then show ?thesis using drop_cell_ok [OF ok] drop_cell_count [OF _ 1(1)] ok n by (simp add: batch_ok_def cells_ok_def)
      next
        case False
        then have "ws_cells s' = replace_cell i m (ws_cells s)" "ws_count s' = ws_count s"
          using 1(2) same by (auto simp: write_existing_def Let_def f_def [symmetric] m_def)
        moreover have "cell_fits m" unfolding m_def by (rule check_write_fits [OF w f _ False]) simp
        moreover have "length (filter (\<lambda>x. fst x = i) (replace_cell i m (ws_cells s))) = length (filter (\<lambda>x. fst x = i) (ws_cells s))"
          by (simp only: count_fst replace_cell_fst)
        ultimately show ?thesis using replace_cell_ok [OF ok] n by (simp add: batch_ok_def)
      qed
    qed
  next
    case 2
    define f where "f = (case cw_format w of Some f \<Rightarrow> f | None \<Rightarrow> default_format)"
    define m where "m = written_cell now a w 1 f"
    have f: "cw_format w = Some f \<or> validate_cell_format f = None" by (auto simp: f_def split: option.split)
    show ?thesis
    proof (cases "cw_base w \<noteq> 0 \<or> cw_value w = [] \<and> is_default_format f")
      case True
      then show ?thesis using assms(1) 2(2) by (auto simp: write_new_def Let_def f_def [symmetric] batch_ok_def split: if_splits)
    next
      case False
      then have "ws_cells s' = ws_cells s @ [(i, m)]" "ws_count s' = ws_count s + 1" "ws_count s < MAX_SHEET_CELLS"
        using 2(2) by (auto simp: write_new_def Let_def f_def [symmetric] m_def split: if_splits)
      moreover have "cell_fits m" unfolding m_def by (rule check_write_fits [OF w f]) (use False in auto)
      ultimately show ?thesis using snoc_cell_ok [OF ok assms(2), of m] 2(1) n by (simp add: batch_ok_def m_def)
    qed
  qed
qed

lemma write_cells_ok:
  "batch_ok ids i s \<Longrightarrow> i \<in> ids \<Longrightarrow> write_cells now a i ws s = Inr s' \<Longrightarrow> batch_ok ids i s'"
  by (induction ws arbitrary: s) (auto intro: write_cell_ok)

subsection \<open>Merged areas\<close>

lemma area_overlaps_sym: "area_overlaps m n \<longleftrightarrow> area_overlaps n m"
  by (auto simp: area_overlaps_def)

text \<open>Areas overlap exactly if they share a cell.\<close>

lemma area_overlaps_iff:
  assumes "validate_merge m = None" and "validate_merge n = None"
  shows "area_overlaps m n \<longleftrightarrow> (\<exists>r c. area_contains m r c \<and> area_contains n r c)"
proof
  assume "area_overlaps m n"
  with assms have "area_contains m (max (ma_row m) (ma_row n)) (max (ma_col m) (ma_col n))
      \<and> area_contains n (max (ma_row m) (ma_row n)) (max (ma_col m) (ma_col n))"
    by (auto simp: area_overlaps_def area_contains_def validate_merge_def)
  then show "\<exists>r c. area_contains m r c \<and> area_contains n r c" by blast
qed (auto simp: area_overlaps_def area_contains_def)

lemma erase_cell_ok:
  "cells_ok ids (fst s) \<Longrightarrow> cells_ok ids (fst (erase_cell now a i p s))"
  by (simp add: erase_cell_def drop_cell_ok split: option.split)

lemma erase_cells_ok: "cells_ok ids (fst s) \<Longrightarrow> cells_ok ids (fst (fold (erase_cell now a i) ps s))"
  by (induction ps arbitrary: s) (simp_all add: erase_cell_ok)

lemma erase_cells_view:
  "cell_of (fst (fold (erase_cell now a i) ps s)) j r c = (if j = i \<and> (r, c) \<in> set ps then None else cell_of (fst s) j r c)"
proof (induction ps arbitrary: s)
  case (Cons p ps)
  have "cell_of (fst (erase_cell now a i p s)) j r c = (if j = i \<and> (r, c) = p then None else cell_of (fst s) j r c)"
    by (cases p) (auto simp: erase_cell_def cell_of_drop split: option.split)
  then show ?case by (auto simp: Cons.IH)
qed simp

lemma areas_in_alt: "areas_in db i = map snd (filter (\<lambda>x. fst x = i) (st_merges db))"
proof -
  have "(\<lambda>(j, _). j = i) = (\<lambda>x :: string \<times> merge_area. fst x = i)" by auto
  then show ?thesis by (simp add: areas_in_def)
qed

lemma in_read_merges: "m \<in> set (read_sheet_merges db i) \<longleftrightarrow> (i, m) \<in> set (st_merges db)"
  by (force simp: read_sheet_merges_def areas_in_def)

lemma snoc_area_ok:
  assumes "areas_ok ids ms" and "i \<in> ids" and "validate_merge m = None" and "\<And>n. (i, n) \<in> set ms \<Longrightarrow> \<not> area_overlaps n m"
  shows "areas_ok ids (ms @ [(i, m)])"
  using assms by (auto simp: areas_ok_def sorted_wrt_append apart_def)

lemma filter_areas_ok:
  assumes "areas_ok ids ms" and "\<And>x. x \<in> set ms \<Longrightarrow> Q x \<Longrightarrow> fst x \<in> ids'"
  shows "areas_ok ids' (filter Q ms)"
  using assms by (auto simp: areas_ok_def sorted_wrt_filter)

subsection \<open>Every request\<close>

lemma put_size_ok:
  assumes "layout_ok ids (st_layout db)" and "i \<in> ids" and "\<And>v. n = Some v \<Longrightarrow> size_ok ((i, k, x), v)"
  shows "layout_ok ids (st_layout (put_size (i, k, x) n db))"
proof (cases n)
  case None
  then show ?thesis using assms(1) hm.ok_remove [of "st_layout db" "(i, k, x)"]
    by (auto simp: layout_ok_def put_size_def hm_remove_def AList.delete_eq)
next
  case (Some v)
  have "y = ((i, k, x), v) \<or> y \<in> set (st_layout db)" if "y \<in> set (hm_insert (i, k, x) v (st_layout db))" for y
    using hm_set_update [OF that] by simp
  with Some assms show ?thesis by (fastforce simp: layout_ok_def put_size_def hm.ok_insert)
qed

lemma put_size_frame [simp]:
  "st_sheets (put_size k n db) = st_sheets db" "st_cells (put_size k n db) = st_cells db" "st_merges (put_size k n db) = st_merges db"
  "sheet_ids (put_size k n db) = sheet_ids db"
  by (simp_all add: put_size_def sheet_ids_def)

lemma update_sheet_frame:
  assumes "\<And>s. sh_id (f s) = sh_id s"
  shows "map sh_id (st_sheets (update_sheet i f db)) = map sh_id (st_sheets db)"
  using assms by (simp add: update_sheet_def comp_def if_distrib cong: if_cong)

lemma update_sheet_tables [simp]:
  "st_cells (update_sheet i f db) = st_cells db" "st_merges (update_sheet i f db) = st_merges db"
  "st_layout (update_sheet i f db) = st_layout db"
  by (simp_all add: update_sheet_def)

lemma same_ids_ok:
  assumes "sheets_ok db" and "map sh_id (st_sheets db') = map sh_id (st_sheets db)"
    and "cells_ok (sheet_ids db) (st_cells db')" and "areas_ok (sheet_ids db) (st_merges db')" and "layout_ok (sheet_ids db) (st_layout db')"
  shows "sheets_ok db'"
proof -
  have "length (st_sheets db') = length (st_sheets db)" using assms(2) by (metis length_map)
  then show ?thesis using assms by (simp add: sheets_ok_def sheet_ids_def del: set_map)
qed

lemma sheet_write_ok:
  assumes "sheets_ok db" and "sheet_write now a i ws db = Inr (r, db')"
  shows "sheets_ok db'"
proof (cases "ws = []")
  case True
  then show ?thesis using assms by (auto simp: sheet_write_def)
next
  case False
  with assms(2) obtain x s where x: "sheet_of db i = Inr x" and s: "write_cells now a i ws (write_start i db) = Inr s"
    and db': "db' = touch_sheet now i (ws_changed s \<noteq> []) (db\<lparr>st_cells := ws_cells s\<rparr>)"
    by (auto simp: sheet_write_def)
  have "batch_ok (sheet_ids db) i (write_start i db)"
    using assms(1) by (simp add: batch_ok_def write_start_def sheets_ok_def cells_in_filter)
  from write_cells_ok [OF this _ s] sheet_of_Inr [OF x] have "cells_ok (sheet_ids db) (ws_cells s)" by (simp add: batch_ok_def)
  then show ?thesis by (intro same_ids_ok [OF assms(1)]) (use assms(1) in \<open>simp_all add: db' sheets_ok_def\<close>)
qed

lemma sheet_merge_ok:
  assumes "sheets_ok db" and "sheet_merge now a i m db = Inr (r, db')"
  shows "sheets_ok db'"
proof -
  obtain x cells changed where x: "sheet_of db i = Inr x" and v: "validate_merge m = None"
    and o: "\<And>n. n \<in> set (read_sheet_merges db i) \<Longrightarrow> \<not> area_overlaps n m"
    and c: "fold (erase_cell now a i) (area_cells m) (st_cells db, []) = (cells, changed)"
    and db': "db' = touch_sheet now i (changed \<noteq> []) (db\<lparr>st_merges := st_merges db @ [(i, m)], st_cells := cells\<rparr>)"
    using assms(2) by (auto simp: sheet_merge_def Let_def split: prod.splits)
  have "cells_ok (sheet_ids db) cells"
    using erase_cells_ok [of "sheet_ids db" "(st_cells db, [])" now a i "area_cells m"] assms(1) c by (simp add: sheets_ok_def)
  moreover have "areas_ok (sheet_ids db) (st_merges db @ [(i, m)])"
    using snoc_area_ok [OF _ _ v] sheet_of_Inr [OF x] o assms(1) by (simp add: sheets_ok_def in_read_merges)
  ultimately show ?thesis by (intro same_ids_ok [OF assms(1)]) (use assms(1) in \<open>simp_all add: db' sheets_ok_def\<close>)
qed

lemma sheet_unmerge_ok:
  assumes "sheets_ok db" and "sheet_unmerge i r c db = Inr (ms, db')"
  shows "sheets_ok db'"
proof -
  obtain Q where db': "db' = db\<lparr>st_merges := filter Q (st_merges db)\<rparr>"
    using assms(2) by (auto simp: sheet_unmerge_def Let_def split: option.splits)
  have m: "st_merges db' = filter Q (st_merges db)" by (simp add: db')
  have "areas_ok (sheet_ids db) (st_merges db')"
    unfolding m by (rule filter_areas_ok) (use assms(1) in \<open>auto simp: sheets_ok_def areas_ok_def\<close>)
  then show ?thesis by (intro same_ids_ok [OF assms(1)]) (use assms(1) in \<open>simp_all add: db' sheets_ok_def\<close>)
qed

lemma sheet_delete_ok:
  assumes "sheets_ok db" and "sheet_delete a i db = Inr db'"
  shows "sheets_ok db'"
proof -
  have db': "db' = \<lparr>st_sheets = filter (\<lambda>s. sh_id s \<noteq> i) (st_sheets db), st_cells = filter (\<lambda>(j, _). j \<noteq> i) (st_cells db),
      st_layout = hm_retain (\<lambda>(j, _) _. j \<noteq> i) (st_layout db), st_merges = filter (\<lambda>(j, _). j \<noteq> i) (st_merges db)\<rparr>"
    using assms(2) by (auto simp: sheet_delete_def)
  have ids: "sheet_ids db' = sheet_ids db - {i}" by (auto simp: db' sheet_ids_def)
  have "cells_ok (sheet_ids db') (st_cells db')"
    unfolding db' sheet_db.simps
    by (rule filter_cells_ok [of "sheet_ids db"]) (use assms(1) in \<open>auto simp: ids [unfolded db'] sheets_ok_def cells_ok_def\<close>)
  moreover have "areas_ok (sheet_ids db') (st_merges db')"
    unfolding db' sheet_db.simps
    by (rule filter_areas_ok [of "sheet_ids db"]) (use assms(1) in \<open>auto simp: ids [unfolded db'] sheets_ok_def areas_ok_def\<close>)
  moreover have "layout_ok (sheet_ids db') (st_layout db')"
  proof -
    have "st_layout db' = hm_retain (\<lambda>(j, _) _. j \<noteq> i) (st_layout db)" by (simp add: db')
    then show ?thesis using assms(1) hm.ok_retain [of "st_layout db"]
      by (auto simp: ids sheets_ok_def layout_ok_def hm_retain_def)
  qed
  moreover have "length (st_sheets db') \<le> MAX_SHEETS"
    using assms(1) by (auto simp: db' sheets_ok_def intro: le_trans [OF length_filter_le])
  ultimately show ?thesis using assms(1) by (simp add: sheets_ok_def db' distinct_map_filter)
qed

lemma with_meta_Inr: "with_meta a i db = Inr (m, db') \<Longrightarrow> db' = db"
  by (auto simp: with_meta_def)

lemma sheet_meta_ok:
  assumes "sheets_ok db"
  shows "sheet_create now new_id a n db = Inr (m, db') \<Longrightarrow> sheets_ok db'"
    and "sheet_rename now a i n db = Inr (m, db') \<Longrightarrow> sheets_ok db'"
    and "sheet_set_settings a i g r c db = Inr (m, db') \<Longrightarrow> sheets_ok db'"
proof -
  assume c: "sheet_create now new_id a n db = Inr (m, db')"
  then have db': "db' = db\<lparr>st_sheets := st_sheets db @ [new_sheet now new_id a n]\<rparr>" "length (st_sheets db) < MAX_SHEETS"
    "new_id \<notin> sh_id ` set (st_sheets db)"
    by (auto simp: sheet_create_def not_le dest: with_meta_Inr)
  have "sheet_ids db \<subseteq> sheet_ids db'" by (auto simp: db' sheet_ids_def)
  with assms db'(2,3) show "sheets_ok db'"
    by (auto simp: db'(1) sheets_ok_def new_sheet_def cells_ok_def areas_ok_def layout_ok_def)
next
  assume "sheet_rename now a i n db = Inr (m, db')"
  then have "db' = update_sheet i (\<lambda>s. s\<lparr>sh_name := n, sh_updated := now\<rparr>) db"
    by (auto simp: sheet_rename_def dest: with_meta_Inr)
  then show "sheets_ok db'" 
    by (intro same_ids_ok [OF assms]) (use assms in \<open>simp_all add: update_sheet_frame sheets_ok_def\<close>)
next
  assume "sheet_set_settings a i g r c db = Inr (m, db')"
  then have "db' = update_sheet i (\<lambda>s. s\<lparr>sh_gridlines := g, sh_freeze_rows := r, sh_freeze_cols := c\<rparr>) db"
    by (auto simp: sheet_set_settings_def dest: with_meta_Inr)
  then show "sheets_ok db'" 
    by (intro same_ids_ok [OF assms]) (use assms in \<open>simp_all add: update_sheet_frame sheets_ok_def\<close>)
qed

lemma sheet_size_ok:
  assumes "sheets_ok db"
  shows "sheet_set_col_width i x n db = Inr db' \<Longrightarrow> sheets_ok db'"
    and "sheet_set_row_height i x n db = Inr db' \<Longrightarrow> sheets_ok db'"
proof -
  assume "sheet_set_col_width i x n db = Inr db'"
  then have "db' = put_size (i, Col_Size, x) n db" "i \<in> sheet_ids db" "\<And>v. n = Some v \<Longrightarrow> size_ok ((i, Col_Size, x), v)"
    by (auto simp: sheet_set_col_width_def size_ok_def dest: sheet_of_Inr)
  then show "sheets_ok db'" using assms put_size_ok by (simp add: sheets_ok_def)
next
  assume "sheet_set_row_height i x n db = Inr db'"
  then have "db' = put_size (i, Row_Size, x) n db" "i \<in> sheet_ids db" "\<And>v. n = Some v \<Longrightarrow> size_ok ((i, Row_Size, x), v)"
    by (auto simp: sheet_set_row_height_def size_ok_def dest: sheet_of_Inr)
  then show "sheets_ok db'" using assms put_size_ok by (simp add: sheets_ok_def)
qed

lemma handle_sheet_ok:
  assumes "sheets_ok (sv_sheets s)" and "handle_sheet now t new_id a op s = Inr (rep, ns, b, s')"
  shows "sheets_ok (sv_sheets s')"
  using assms sheet_meta_ok [OF assms(1)] sheet_delete_ok [OF assms(1)] sheet_write_ok [OF assms(1)] sheet_size_ok [OF assms(1)]
    sheet_merge_ok [OF assms(1)] sheet_unmerge_ok [OF assms(1)]
  by (cases op) (auto simp: handle_sheet_def sheet_done_def read_cells_def note_presence_def Let_def)

text \<open>Histories of requests, from the empty tables, with the sweep of the supervisor in between.\<close>

inductive sheet_reach :: "sheet_service \<Rightarrow> bool" where
  start: "sheet_reach \<lparr>sv_sheets = empty_sheet_db, sv_presence = []\<rparr>"
| request: "sheet_reach s \<Longrightarrow> handle_sheet now t new_id a op s = Inr (rep, ns, b, s') \<Longrightarrow> sheet_reach s'"
| sweep: "sheet_reach s \<Longrightarrow> sheet_reach (snd (snd (sweep_sheet_presence t s)))"

lemma sheet_reach_ok: "sheet_reach s \<Longrightarrow> sheets_ok (sv_sheets s)"
proof (induction rule: sheet_reach.induct)
  case (sweep s t)
  then show ?case by (simp add: sweep_sheet_presence_def Let_def)
qed (auto intro: sheets_ok_empty handle_sheet_ok)


section \<open>Examples and what the registers leave open\<close>

definition plain_write :: "nat \<Rightarrow> nat \<Rightarrow> nat \<Rightarrow> string \<Rightarrow> cell_write" where
  "plain_write r c base v = \<lparr>cw_row = r, cw_col = c, cw_value = v, cw_base = base, cw_format = None\<rparr>"

definition one_sheet_db :: sheet_db where
  "one_sheet_db = empty_sheet_db\<lparr>st_sheets := [new_sheet 0 ''s'' (actor_host ''h'') ''S'']\<rparr>"

lemmas sheet_eval = sheet_write_def sheet_of_def write_start_def cells_in_def write_cell_def check_write_def write_existing_def
  write_new_def written_cell_def absent_cell_def cell_of_def drop_cell_def replace_cell_def sheet_check_def err_then_def
  err_when_def bail_if_def plain_write_def default_format_def is_default_format_def touch_sheet_def update_sheet_def
  new_sheet_def MAX_SHEET_ROWS_def MAX_SHEET_COLS_def MAX_CELL_VALUE_BYTES_def MAX_SHEET_CELLS_def actor_host_def actor_member_def

lemma batch_refines_registers_witness:
  "\<exists>n conflicts changed db'.
     sheet_write 5 (actor_host ''h'') ''s'' [plain_write 0 0 0 ''x'', plain_write 0 0 0 ''y''] one_sheet_db
       = Inr ((n, conflicts, changed), db')
     \<and> cell_view (st_cells db') ''s'' = (\<lambda>_. None)((0, 0) := Some (1, ''x'', default_format)) \<and> length conflicts = 1"
proof -
  let ?ws = "[plain_write 0 0 0 ''x'', plain_write 0 0 0 ''y'']"
  obtain n conflicts changed db' where w: "sheet_write 5 (actor_host ''h'') ''s'' ?ws one_sheet_db = Inr ((n, conflicts, changed), db')"
    by (simp add: one_sheet_db_def empty_sheet_db_def sheet_eval Let_def del: and_then_Inr sheet_check_Inr bail_if_Inr)
  have none: "cell_view (st_cells one_sheet_db) ''s'' = (\<lambda>_. None)"
    by (simp add: one_sheet_db_def empty_sheet_db_def cell_view_def fun_eq_iff)
  have f: "fold register_write ?ws (\<lambda>_. None) = (\<lambda>_. None)((0, 0) := Some (1, ''x'', default_format))"
    and r: "refused ?ws (\<lambda>_. None) = [plain_write 0 0 0 ''y'']"
    by (simp_all add: register_write_def revision_at_def format_at_def plain_write_def)
  note b = batch_refines_registers [OF w, unfolded none f r]
  have "length conflicts = 1" using b [THEN conjunct2, THEN conjunct1, THEN arg_cong [of _ _ length]] by simp
  with b w show ?thesis by blast
qed


text \<open>
  The revision of a cell is forgotten with the cell. A writer who read a text with revision one is not warned when the
  cell was cleared and filled by another in between.
\<close>

lemma cleared_cell_forgets:
  assumes "m (r, c) = Some (1, v, default_format)" and "mine \<noteq> []" and "theirs \<noteq> []"
  shows "fold register_write [plain_write r c 1 [], plain_write r c 0 theirs, plain_write r c 1 mine] m
    = m((r, c) := Some (2, mine, default_format))"
  using assms by (auto simp: register_write_def revision_at_def format_at_def plain_write_def is_default_format_def
      default_format_def)

end
