(* ===== verification/Memo_Service.thy ===== *)
theory Memo_Service
  imports Memo_Laws Sheet_Laws Peers
begin

text \<open>
  The service of shared memos on the host, \<^verbatim>\<open>MemoService\<close> of \<^verbatim>\<open>memoshare.rs\<close>: who a request comes from, the
  locks of editors, a handler per request, what is sent to the others, and the periodic work. The store is the database of
  \<^verbatim>\<open>Memo_Store\<close>, the schedule and the sheets are those of their theories. A request is one step; the sending of a
  changed memo is a task of its own, which looks at the state of its time. Inputs of a request are the clocks, a fresh
  identifier, the configuration as it is read now (absent if it cannot be read) and the texts SQLite compares.
\<close>

section \<open>Who asks\<close>

definition peer_at :: "config \<Rightarrow> ipv4 \<Rightarrow> peer_config option" where
  "peer_at cfg ip = find (\<lambda>p. first_ip p = Some ip) (cfg_peers cfg)"

definition group_ids_for :: "config \<Rightarrow> ipv4 \<Rightarrow> string list" where
  "group_ids_for cfg ip =
     (case peer_at cfg ip of
        None \<Rightarrow> []
      | Some p \<Rightarrow> map group_id (filter (\<lambda>g. peer_public_key p \<in> set (group_members g)) (acl_groups (cfg_acl cfg))))"

definition host_name_default :: string where
  "host_name_default = map char_of [0xE3, 0x83, 0x9B, 0xE3, 0x82, 0xB9, 0xE3, 0x83, 0x88 :: nat]"

definition host_actor :: "config \<Rightarrow> actor" where
  "host_actor cfg = actor_host (case if_display_name (cfg_interface cfg) of Some n \<Rightarrow> n | None \<Rightarrow> host_name_default)"

definition actor_for_ip :: "config \<Rightarrow> ipv4 \<Rightarrow> actor option" where
  "actor_for_ip cfg ip =
     (case peer_at cfg ip of
        None \<Rightarrow> None
      | Some p \<Rightarrow>
          Some (with_admin (peer_admin p)
            (actor_member (case peer_invite_id p of Some i \<Rightarrow> i | None \<Rightarrow> ''legacy-'' @ ip_text ip)
              (case peer_name p of Some n \<Rightarrow> n | None \<Rightarrow> ''member-'' @ ip_text ip))))"

definition receiver_for_ip :: "config \<Rightarrow> ipv4 \<Rightarrow> actor option" where
  "receiver_for_ip cfg ip = map_option (with_groups (group_ids_for cfg ip)) (actor_for_ip cfg ip)"

text \<open>The names of groups in a detail follow the configuration.\<close>

definition apply_group_names :: "config \<Rightarrow> memo_detail \<Rightarrow> memo_detail" where
  "apply_group_names cfg m =
     m\<lparr>sd_groups := map (\<lambda>(g, n, l).
         (g, case find (\<lambda>x. group_id x = g) (acl_groups (cfg_acl cfg)) of Some x \<Rightarrow> group_name x | None \<Rightarrow> n, l)) (sd_groups m)\<rparr>"

definition refresh_group_names :: "config option \<Rightarrow> memo_detail \<Rightarrow> memo_detail" where
  "refresh_group_names c m =
     (case c of
        None \<Rightarrow> m
      | Some cfg \<Rightarrow>
          m\<lparr>sd_groups := map (\<lambda>(g, n, l).
              (g, case hm_get (hm_collect (map (\<lambda>x. (group_id x, group_name x)) (acl_groups (cfg_acl cfg)))) g of
                    Some n \<Rightarrow> n | None \<Rightarrow> n, l)) (sd_groups m)\<rparr>)"

section \<open>Locks\<close>

definition LOCK_TTL :: duration where "LOCK_TTL = secs 120"

definition MAINTENANCE_INTERVAL :: duration where "MAINTENANCE_INTERVAL = secs (10 * 60)"

record lock_info =
  li_key :: string
  li_name :: string
  li_last :: instant
  li_revision :: nat

type_synonym locks = "(string, lock_info) hashmap"

definition prune_expired :: "instant \<Rightarrow> locks \<Rightarrow> locks" where
  "prune_expired t = hm_retain (\<lambda>_ l. t - li_last l \<le> LOCK_TTL)"

definition lock_holder :: "instant \<Rightarrow> string \<Rightarrow> locks \<Rightarrow> string option \<times> locks" where
  "lock_holder t i ls = (let ls = prune_expired t ls in (map_option li_name (hm_get ls i), ls))"

definition inject_lock_summaries :: "instant \<Rightarrow> memo_summary list \<Rightarrow> locks \<Rightarrow> memo_summary list \<times> locks" where
  "inject_lock_summaries t ms ls =
     (let ls = prune_expired t ls in (map (\<lambda>m. m\<lparr>sm_locked_by := map_option li_name (hm_get ls (sm_id m))\<rparr>) ms, ls))"

text \<open>A save needs the lock, and keeps it alive.\<close>

definition lock_for_update :: "instant \<Rightarrow> string \<Rightarrow> string \<Rightarrow> locks \<Rightarrow> memo_error + locks" where
  "lock_for_update t key i ls =
     (let ls = prune_expired t ls
      in case hm_get ls i of
           None \<Rightarrow> Inl Lock_Missing
         | Some l \<Rightarrow> if li_key l = key then Inr (hm_insert i (l\<lparr>li_last := t\<rparr>) ls) else Inl (Locked_By (li_name l)))"

text \<open>Restoring a version needs no lock, but nobody else may hold it.\<close>

definition lock_for_restore :: "instant \<Rightarrow> string \<Rightarrow> string \<Rightarrow> locks \<Rightarrow> memo_error + locks" where
  "lock_for_restore t key i ls =
     (let ls = prune_expired t ls
      in case hm_get ls i of
           Some l \<Rightarrow> if li_key l \<noteq> key then Inl (Locked_By (li_name l)) else Inr ls
         | None \<Rightarrow> Inr ls)"

definition take_lock :: "instant \<Rightarrow> actor \<Rightarrow> string \<Rightarrow> nat \<Rightarrow> locks \<Rightarrow> memo_error + locks" where
  "take_lock t a i since ls =
     (let ls = prune_expired t ls;
          l = \<lparr>li_key = lock_key a, li_name = ac_name a, li_last = t, li_revision = since\<rparr>
      in case hm_get ls i of
           Some l' \<Rightarrow> if li_key l' \<noteq> lock_key a then Inl (Locked_By (li_name l')) else Inr (hm_insert i l ls)
         | None \<Rightarrow> Inr (hm_insert i l ls))"

section \<open>State, requests and answers\<close>

record memo_service =
  ms_db :: memo_db
  ms_events :: "schedule_row list"
  ms_sheets :: sheet_service
  ms_locks :: locks
  ms_seq :: nat
  ms_group_sig :: "(string \<times> u64) list option"
  ms_last_maintenance :: "instant option"

definition memo_service_new :: "memo_db \<Rightarrow> schedule_row list \<Rightarrow> sheet_db \<Rightarrow> memo_service" where
  "memo_service_new db es sh = \<lparr>ms_db = db, ms_events = es, ms_sheets = \<lparr>sv_sheets = sh, sv_presence = []\<rparr>, ms_locks = [],
     ms_seq = 1, ms_group_sig = None, ms_last_maintenance = None\<rparr>"

type_synonym perm_entry = "string \<times> string \<times> perm_level"

datatype memo_op =
    Op_List memo_query | Op_Get string | Op_Resolve_Titles "string list" | Op_Backlinks string
  | Op_Create string string "string option" | Op_Update string nat string string
  | Op_Acquire_Lock string | Op_Release_Lock string | Op_Force_Unlock string
  | Op_Trash string | Op_Restore string | Op_Delete_Forever string
  | Op_Set_Perms string perm_level "perm_entry list" "perm_entry list option"
  | Op_Folder_Create string | Op_Folder_Rename string string | Op_Folder_Delete string
  | Op_History_List string | Op_History_Get string nat | Op_History_Diff string nat "nat option"
  | Op_Save_Version string | Op_History_Restore string nat
  | Op_Get_Limits | Op_Set_Limits memo_limits
  | Op_Comment_List string | Op_Comment_Add string string | Op_Comment_Delete string string
  | Op_Schedule schedule_op | Op_Sheet sheet_op | Op_Perm_Group_List

datatype memo_reply =
    Reply_Memos "memo_summary list" "memo_folder list" | Reply_Memo memo_detail | Reply_Titles "(string, string) hashmap"
  | Reply_Done | Reply_History "history_entry list" | Reply_History_Detail history_entry string | Reply_Diff "diff_line list"
  | Reply_Limits memo_limits | Reply_Comments "comment_row list" | Reply_Comment comment_row
  | Reply_Schedule schedule_reply | Reply_Sheet sheet_reply | Reply_Perm_Groups "(string \<times> string \<times> ipv4 list) list"

datatype memo_failure =
    Memo_Failure memo_error | Schedule_Failure schedule_error | Sheet_Failure sheet_error
  | Not_Unlocker | Not_Lister | Unknown_Sender | No_Config

text \<open>What goes to the others: at once, or as a task that looks at the state when it runs.\<close>

datatype memo_event =
    Memo_Changed memo_detail | Memo_Removed string | Memo_Lock string "string option" | Memo_Folders "memo_folder list"
  | Memo_Schedule schedule_notice | Memo_Sheet sheet_notice

datatype memo_task = Changed_Due string | Folders_Due | Send_All memo_event

record memo_env =
  mo_now :: int
  mo_instant :: instant
  mo_new_id :: string
  mo_sql :: sql_text
  mo_config :: "config option"

type_synonym memo_result = "memo_failure + memo_reply \<times> memo_task list \<times> memo_service"

section \<open>Handlers\<close>

definition bump :: "memo_service \<Rightarrow> memo_service" where
  "bump s = s\<lparr>ms_seq := ms_seq s + 1\<rparr>"

definition of_store :: "memo_error + 'a \<Rightarrow> ('a \<Rightarrow> memo_failure + 'b) \<Rightarrow> memo_failure + 'b" where
  "of_store r f = (case r of Inl e \<Rightarrow> Inl (Memo_Failure e) | Inr x \<Rightarrow> f x)"

definition reading :: "memo_service \<Rightarrow> memo_error + memo_reply \<Rightarrow> memo_result" where
  "reading s r = of_store r (\<lambda>rep. Inr (rep, [], s))"

text \<open>A detail on its way out: who edits the memo now, and the names of its groups.\<close>

definition finish_detail :: "memo_env \<Rightarrow> memo_detail \<Rightarrow> memo_service \<Rightarrow> memo_detail \<times> memo_service" where
  "finish_detail v m s =
     (let (h, ls) = lock_holder (mo_instant v) (sd_id m) (ms_locks s)
      in (refresh_group_names (mo_config v) (m\<lparr>sd_locked_by := h\<rparr>), s\<lparr>ms_locks := ls\<rparr>))"

definition changed_memo :: "memo_env \<Rightarrow> string \<Rightarrow> memo_detail \<Rightarrow> memo_db \<Rightarrow> memo_service \<Rightarrow> memo_result" where
  "changed_memo v i m db s =
     (let (m, s) = finish_detail v m (s\<lparr>ms_db := db\<rparr>) in Inr (Reply_Memo m, [Changed_Due i], bump s))"

definition snapshot_after_unlock :: "memo_env \<Rightarrow> string \<Rightarrow> nat \<Rightarrow> memo_service \<Rightarrow> memo_service" where
  "snapshot_after_unlock v i since s =
     (case snapshot_if_revision_changed (mo_now v) i since (ms_db s) of Inr db \<Rightarrow> s\<lparr>ms_db := db\<rparr> | Inl _ \<Rightarrow> s)"

definition unlock :: "memo_env \<Rightarrow> string \<Rightarrow> lock_info \<Rightarrow> memo_service \<Rightarrow> memo_result" where
  "unlock v i l s =
     Inr (Reply_Done, [Send_All (Memo_Lock i None)],
       bump (snapshot_after_unlock v i (li_revision l) (s\<lparr>ms_locks := hm_remove i (ms_locks s)\<rparr>)))"

definition list_request :: "memo_env \<Rightarrow> actor \<Rightarrow> memo_query \<Rightarrow> memo_service \<Rightarrow> memo_result" where
  "list_request v a q s =
     (let (memos, folders) = list_memos (mo_sql v) (ms_db s) a q;
          (memos, ls) = inject_lock_summaries (mo_instant v) memos (ms_locks s)
      in Inr (Reply_Memos memos folders, [], s\<lparr>ms_locks := ls\<rparr>))"

definition get_request :: "memo_env \<Rightarrow> actor \<Rightarrow> string \<Rightarrow> memo_service \<Rightarrow> memo_result" where
  "get_request v a i s =
     of_store (get_memo (ms_db s) a i) (\<lambda>m. let (m, s) = finish_detail v m s in Inr (Reply_Memo m, [], s))"

definition create_request :: "memo_env \<Rightarrow> actor \<Rightarrow> string \<Rightarrow> string \<Rightarrow> string option \<Rightarrow> memo_service \<Rightarrow> memo_result" where
  "create_request v a title body folder s =
     of_store (create_memo (mo_now v) (mo_new_id v) a title body folder (ms_db s)) (\<lambda>(m, db).
       Inr (Reply_Memo m, [Changed_Due (sd_id m)], bump (s\<lparr>ms_db := db\<rparr>)))"

definition update_request :: "memo_env \<Rightarrow> actor \<Rightarrow> string \<Rightarrow> nat \<Rightarrow> string \<Rightarrow> string \<Rightarrow> memo_service \<Rightarrow> memo_result" where
  "update_request v a i base title body s =
     of_store (lock_for_update (mo_instant v) (lock_key a) i (ms_locks s)) (\<lambda>ls.
     of_store (update_text (mo_now v) a i base title body (ms_db s)) (\<lambda>(m, db).
       changed_memo v i m db (s\<lparr>ms_locks := ls\<rparr>)))"

definition acquire_request :: "memo_env \<Rightarrow> actor \<Rightarrow> string \<Rightarrow> memo_service \<Rightarrow> memo_result" where
  "acquire_request v a i s =
     of_store (get_memo (ms_db s) a i) (\<lambda>m.
     bail_if (\<not> sd_can_edit m) (Memo_Failure Memo_Not_Editable)
    (of_store (take_lock (mo_instant v) a i (sd_revision m) (ms_locks s)) (\<lambda>ls.
       Inr (Reply_Memo (refresh_group_names (mo_config v) (m\<lparr>sd_locked_by := Some (ac_name a)\<rparr>)),
         [Send_All (Memo_Lock i (Some (ac_name a)))], bump (s\<lparr>ms_locks := ls\<rparr>)))))"

definition release_request :: "memo_env \<Rightarrow> actor \<Rightarrow> string \<Rightarrow> memo_service \<Rightarrow> memo_result" where
  "release_request v a i s =
     (case hm_get (ms_locks s) i of
        Some l \<Rightarrow> if li_key l = lock_key a then unlock v i l s else Inr (Reply_Done, [], s)
      | None \<Rightarrow> Inr (Reply_Done, [], s))"

definition force_unlock_request :: "memo_env \<Rightarrow> actor \<Rightarrow> string \<Rightarrow> memo_service \<Rightarrow> memo_result" where
  "force_unlock_request v a i s =
     bail_if (\<not> is_manager a) Not_Unlocker
       (case hm_get (ms_locks s) i of Some l \<Rightarrow> unlock v i l s | None \<Rightarrow> Inr (Reply_Done, [], s))"

definition trash_request :: "memo_env \<Rightarrow> actor \<Rightarrow> string \<Rightarrow> memo_service \<Rightarrow> memo_result" where
  "trash_request v a i s =
     of_store (trash_memo (mo_now v) a i (ms_db s)) (\<lambda>db.
       Inr (Reply_Done, [Send_All (Memo_Removed i)], bump (s\<lparr>ms_db := db, ms_locks := hm_remove i (ms_locks s)\<rparr>)))"

definition restore_request :: "actor \<Rightarrow> string \<Rightarrow> memo_service \<Rightarrow> memo_result" where
  "restore_request a i s =
     of_store (restore_memo a i (ms_db s)) (\<lambda>db. Inr (Reply_Done, [Changed_Due i], bump (s\<lparr>ms_db := db\<rparr>)))"

definition delete_request :: "memo_env \<Rightarrow> actor \<Rightarrow> string \<Rightarrow> memo_service \<Rightarrow> memo_result" where
  "delete_request v a i s =
     of_store (delete_forever (mo_now v) a i (ms_db s)) (\<lambda>db.
       Inr (Reply_Done, [Send_All (Memo_Removed i)], bump (s\<lparr>ms_db := db\<rparr>)))"

definition set_perms_request :: "memo_env \<Rightarrow> actor \<Rightarrow> string \<Rightarrow> perm_level \<Rightarrow> perm_entry list \<Rightarrow> perm_entry list option
    \<Rightarrow> memo_service \<Rightarrow> memo_result" where
  "set_perms_request v a i everyone members groups s =
     of_store (set_perms a i everyone members groups (ms_db s)) (\<lambda>(m, db). changed_memo v i m db s)"

definition folder_request :: "memo_error + memo_db \<Rightarrow> memo_service \<Rightarrow> memo_result" where
  "folder_request r s = of_store r (\<lambda>db. Inr (Reply_Done, [Folders_Due], bump (s\<lparr>ms_db := db\<rparr>)))"

definition quiet_request :: "memo_error + memo_db \<Rightarrow> memo_service \<Rightarrow> memo_result" where
  "quiet_request r s = of_store r (\<lambda>db. Inr (Reply_Done, [], s\<lparr>ms_db := db\<rparr>))"

definition history_restore_request :: "memo_env \<Rightarrow> actor \<Rightarrow> string \<Rightarrow> nat \<Rightarrow> memo_service \<Rightarrow> memo_result" where
  "history_restore_request v a i hid s =
     of_store (lock_for_restore (mo_instant v) (lock_key a) i (ms_locks s)) (\<lambda>ls.
     of_store (history_restore (mo_now v) a i hid (ms_db s)) (\<lambda>(m, db). changed_memo v i m db (s\<lparr>ms_locks := ls\<rparr>)))"

definition comment_add_request :: "memo_env \<Rightarrow> actor \<Rightarrow> string \<Rightarrow> string \<Rightarrow> memo_service \<Rightarrow> memo_result" where
  "comment_add_request v a i body s =
     of_store (comment_add (mo_now v) (mo_new_id v) a i body (ms_db s)) (\<lambda>(c, db).
       Inr (Reply_Comment c, [Changed_Due i], bump (s\<lparr>ms_db := db\<rparr>)))"

definition comment_delete_request :: "actor \<Rightarrow> string \<Rightarrow> string \<Rightarrow> memo_service \<Rightarrow> memo_result" where
  "comment_delete_request a i cid s =
     of_store (comment_delete a i cid (ms_db s)) (\<lambda>db. Inr (Reply_Done, [Changed_Due i], bump (s\<lparr>ms_db := db\<rparr>)))"

definition schedule_request :: "memo_env \<Rightarrow> actor \<Rightarrow> schedule_op \<Rightarrow> memo_service \<Rightarrow> memo_result" where
  "schedule_request v a op s =
     (case handle_schedule (mo_now v) (mo_new_id v) a op (ms_events s) of
        Inl e \<Rightarrow> Inl (Schedule_Failure e)
      | Inr (rep, n, es) \<Rightarrow>
          (let s = s\<lparr>ms_events := es\<rparr>
           in Inr (Reply_Schedule rep, (case n of None \<Rightarrow> [] | Some n \<Rightarrow> [Send_All (Memo_Schedule n)]),
                   if n = None then s else bump s)))"

definition sheet_request :: "memo_env \<Rightarrow> actor \<Rightarrow> sheet_op \<Rightarrow> memo_service \<Rightarrow> memo_result" where
  "sheet_request v a op s =
     (case handle_sheet (mo_now v) (mo_instant v) (mo_new_id v) a op (ms_sheets s) of
        Inl e \<Rightarrow> Inl (Sheet_Failure e)
      | Inr (rep, ns, b, sh) \<Rightarrow>
          (let s = s\<lparr>ms_sheets := sh\<rparr>
           in Inr (Reply_Sheet rep, map (Send_All \<circ> Memo_Sheet) ns, if b then bump s else s)))"

definition perm_groups_of :: "config \<Rightarrow> (string \<times> string \<times> ipv4 list) list" where
  "perm_groups_of cfg =
     (let ips = hm_collect (List.map_filter (\<lambda>p. map_option (Pair (peer_public_key p)) (first_ip p)) (cfg_peers cfg))
      in map (\<lambda>g. (group_id g, group_name g, List.map_filter (hm_get ips) (group_members g))) (acl_groups (cfg_acl cfg)))"

definition perm_group_request :: "memo_env \<Rightarrow> actor \<Rightarrow> memo_service \<Rightarrow> memo_result" where
  "perm_group_request v a s =
     bail_if (\<not> is_manager a) Not_Lister
       (Inr (Reply_Perm_Groups (case mo_config v of Some cfg \<Rightarrow> perm_groups_of cfg | None \<Rightarrow> []), [], s))"

fun handle_memo :: "memo_env \<Rightarrow> actor \<Rightarrow> memo_op \<Rightarrow> memo_service \<Rightarrow> memo_result" where
  "handle_memo v a (Op_List q) s = list_request v a q s"
| "handle_memo v a (Op_Get i) s = get_request v a i s"
| "handle_memo v a (Op_Resolve_Titles ts) s = Inr (Reply_Titles (resolve_titles (ms_db s) a ts), [], s)"
| "handle_memo v a (Op_Backlinks i) s =
     reading s (and_then (backlinks (mo_sql v) (ms_db s) a i) (\<lambda>ms. Inr (Reply_Memos ms [])))"
| "handle_memo v a (Op_Create title body folder) s = create_request v a title body folder s"
| "handle_memo v a (Op_Update i base title body) s = update_request v a i base title body s"
| "handle_memo v a (Op_Acquire_Lock i) s = acquire_request v a i s"
| "handle_memo v a (Op_Release_Lock i) s = release_request v a i s"
| "handle_memo v a (Op_Force_Unlock i) s = force_unlock_request v a i s"
| "handle_memo v a (Op_Trash i) s = trash_request v a i s"
| "handle_memo v a (Op_Restore i) s = restore_request a i s"
| "handle_memo v a (Op_Delete_Forever i) s = delete_request v a i s"
| "handle_memo v a (Op_Set_Perms i everyone members groups) s = set_perms_request v a i everyone members groups s"
| "handle_memo v a (Op_Folder_Create n) s =
     folder_request (and_then (folder_create (mo_now v) (mo_new_id v) a n (ms_db s)) (\<lambda>(_, db). Inr db)) s"
| "handle_memo v a (Op_Folder_Rename i n) s = folder_request (folder_rename a i n (ms_db s)) s"
| "handle_memo v a (Op_Folder_Delete i) s = folder_request (folder_delete a i (ms_db s)) s"
| "handle_memo v a (Op_History_List i) s = reading s (and_then (history_list (ms_db s) a i) (\<lambda>h. Inr (Reply_History h)))"
| "handle_memo v a (Op_History_Get i hid) s =
     reading s (and_then (history_get (ms_db s) a i hid) (\<lambda>(h, b). Inr (Reply_History_Detail h b)))"
| "handle_memo v a (Op_History_Diff i from_hid to_hid) s =
     reading s (and_then (history_diff (ms_db s) a i from_hid to_hid) (\<lambda>d. Inr (Reply_Diff d)))"
| "handle_memo v a (Op_Save_Version i) s = quiet_request (save_version (mo_now v) a i (ms_db s)) s"
| "handle_memo v a (Op_History_Restore i hid) s = history_restore_request v a i hid s"
| "handle_memo v a Op_Get_Limits s = Inr (Reply_Limits (limits_of (ms_db s)), [], s)"
| "handle_memo v a (Op_Set_Limits l) s = quiet_request (set_limits a l (ms_db s)) s"
| "handle_memo v a (Op_Comment_List i) s = reading s (and_then (comment_list (ms_db s) a i) (\<lambda>cs. Inr (Reply_Comments cs)))"
| "handle_memo v a (Op_Comment_Add i body) s = comment_add_request v a i body s"
| "handle_memo v a (Op_Comment_Delete i cid) s = comment_delete_request a i cid s"
| "handle_memo v a (Op_Schedule op) s = schedule_request v a op s"
| "handle_memo v a (Op_Sheet op) s = sheet_request v a op s"
| "handle_memo v a Op_Perm_Group_List s = perm_group_request v a s"

text \<open>A failed handler leaves the database as it was, but the locks may have been renewed or pruned.\<close>

definition locks_after_failure :: "memo_env \<Rightarrow> actor \<Rightarrow> memo_op \<Rightarrow> memo_service \<Rightarrow> memo_service" where
  "locks_after_failure v a op s =
     (case op of
        Op_Update i _ _ _ \<Rightarrow>
          s\<lparr>ms_locks := (case lock_for_update (mo_instant v) (lock_key a) i (ms_locks s) of
             Inr ls \<Rightarrow> ls | Inl _ \<Rightarrow> prune_expired (mo_instant v) (ms_locks s))\<rparr>
      | Op_History_Restore _ _ \<Rightarrow> s\<lparr>ms_locks := prune_expired (mo_instant v) (ms_locks s)\<rparr>
      | Op_Acquire_Lock i \<Rightarrow>
          (case get_memo (ms_db s) a i of
             Inr m \<Rightarrow> if sd_can_edit m then s\<lparr>ms_locks := prune_expired (mo_instant v) (ms_locks s)\<rparr> else s
           | Inl _ \<Rightarrow> s)
      | _ \<Rightarrow> s)"

definition memo_step :: "memo_env \<Rightarrow> actor \<Rightarrow> memo_op \<Rightarrow> memo_service
    \<Rightarrow> (memo_failure + memo_reply) \<times> memo_task list \<times> memo_service" where
  "memo_step v a op s =
     (case handle_memo v a op s of
        Inl e \<Rightarrow> (Inl e, [], locks_after_failure v a op s)
      | Inr (rep, ts, s') \<Rightarrow> (Inr rep, ts, s'))"

definition handle_for_member :: "memo_env \<Rightarrow> ipv4 \<Rightarrow> memo_op \<Rightarrow> memo_service
    \<Rightarrow> (memo_failure + memo_reply) \<times> memo_task list \<times> memo_service" where
  "handle_for_member v ip op s =
     (case mo_config v of
        None \<Rightarrow> (Inl No_Config, [], s)
      | Some cfg \<Rightarrow>
          (case receiver_for_ip cfg ip of
             None \<Rightarrow> (Inl Unknown_Sender, [], s)
           | Some a \<Rightarrow> memo_step v a op s))"

definition handle_for_host :: "memo_env \<Rightarrow> memo_op \<Rightarrow> memo_service
    \<Rightarrow> (memo_failure + memo_reply) \<times> memo_task list \<times> memo_service" where
  "handle_for_host v op s =
     (case mo_config v of None \<Rightarrow> (Inl No_Config, [], s) | Some cfg \<Rightarrow> memo_step v (host_actor cfg) op s)"

section \<open>Sending to the others\<close>

text \<open>The connections that announced the capability, by address.\<close>

type_synonym memo_targets = "ipv4 list"

definition broadcast_changed :: "instant \<Rightarrow> config option \<Rightarrow> memo_targets \<Rightarrow> string \<Rightarrow> memo_service
    \<Rightarrow> (ipv4 \<times> memo_event) list \<times> memo_service" where
  "broadcast_changed t c targets i s =
     (case c of
        None \<Rightarrow> ([], s)
      | Some cfg \<Rightarrow>
          if targets = [] then ([], s)
          else (let (h, ls) = lock_holder t i (ms_locks s)
                in (List.map_filter (\<lambda>ip. map_option (\<lambda>a.
                      (ip, case detail_if_visible (ms_db s) a i of
                             Some m \<Rightarrow> Memo_Changed (apply_group_names cfg (m\<lparr>sd_locked_by := h\<rparr>))
                           | None \<Rightarrow> Memo_Removed i)) (receiver_for_ip cfg ip)) targets,
                    s\<lparr>ms_locks := ls\<rparr>)))"

definition broadcast_folders :: "memo_targets \<Rightarrow> memo_service \<Rightarrow> (ipv4 \<times> memo_event) list" where
  "broadcast_folders targets s = map (\<lambda>ip. (ip, Memo_Folders (list_folders (ms_db s)))) targets"

text \<open>Schedules and sheets are recomputed for each receiver; everything else goes as it is.\<close>

definition event_for :: "config option \<Rightarrow> ipv4 \<Rightarrow> memo_event \<Rightarrow> memo_event option" where
  "event_for c ip e =
     (case e of
        Memo_Schedule (Schedule_Changed x) \<Rightarrow>
          Option.bind c (\<lambda>cfg. map_option (\<lambda>a. Memo_Schedule (schedule_notice_for a (Schedule_Changed x))) (actor_for_ip cfg ip))
      | Memo_Sheet (Sheet_Changed x) \<Rightarrow>
          Option.bind c (\<lambda>cfg. Option.bind (actor_for_ip cfg ip) (\<lambda>a. map_option Memo_Sheet (sheet_notice_for a (Sheet_Changed x))))
      | Memo_Sheet (Presence k i ps) \<Rightarrow>
          Option.bind c (\<lambda>cfg. Option.bind (actor_for_ip cfg ip) (\<lambda>a. map_option Memo_Sheet (sheet_notice_for a (Presence k i ps))))
      | _ \<Rightarrow> Some e)"

definition send_all :: "config option \<Rightarrow> memo_targets \<Rightarrow> memo_event \<Rightarrow> memo_service \<Rightarrow> (ipv4 \<times> memo_event) list" where
  "send_all c targets e s =
     (case e of
        Memo_Sheet (Layout_Due i) \<Rightarrow>
          (case layout_notice (sv_sheets (ms_sheets s)) i of
             Some n \<Rightarrow> map (\<lambda>ip. (ip, Memo_Sheet n)) targets | None \<Rightarrow> [])
      | _ \<Rightarrow> List.map_filter (\<lambda>ip. map_option (Pair ip) (event_for c ip e)) targets)"

definition run_task :: "instant \<Rightarrow> config option \<Rightarrow> memo_targets \<Rightarrow> memo_task \<Rightarrow> memo_service
    \<Rightarrow> (ipv4 \<times> memo_event) list \<times> memo_service" where
  "run_task t c targets k s =
     (case k of
        Changed_Due i \<Rightarrow> broadcast_changed t c targets i s
      | Folders_Due \<Rightarrow> (broadcast_folders targets s, s)
      | Send_All e \<Rightarrow> (send_all c targets e s, s))"

section \<open>Periodic work\<close>

definition snapshot_closed :: "int \<Rightarrow> (string \<times> nat) list \<Rightarrow> memo_db \<Rightarrow> memo_db" where
  "snapshot_closed now released db =
     fold (\<lambda>(i, since) db. case snapshot_if_revision_changed now i since db of Inr db \<Rightarrow> db | Inl _ \<Rightarrow> db) released db"

definition drop_locks :: "(lock_info \<Rightarrow> bool) \<Rightarrow> int \<Rightarrow> memo_service \<Rightarrow> memo_task list \<times> memo_service" where
  "drop_locks P now s =
     (let gone = map (\<lambda>(i, l). (i, li_revision l)) (filter (\<lambda>(_, l). P l) (ms_locks s))
      in (map (\<lambda>(i, _). Send_All (Memo_Lock i None)) gone,
          s\<lparr>ms_locks := fold (\<lambda>(i, _). hm_remove i) gone (ms_locks s), ms_db := snapshot_closed now gone (ms_db s),
            ms_seq := ms_seq s + length gone\<rparr>))"

definition release_locks_for_ip :: "int \<Rightarrow> config option \<Rightarrow> ipv4 \<Rightarrow> memo_service \<Rightarrow> memo_task list \<times> memo_service" where
  "release_locks_for_ip now c ip s =
     (case Option.bind c (\<lambda>cfg. actor_for_ip cfg ip) of
        None \<Rightarrow> ([], s)
      | Some a \<Rightarrow> drop_locks (\<lambda>l. li_key l = lock_key a) now s)"

definition sweep_expired_locks :: "int \<Rightarrow> instant \<Rightarrow> memo_service \<Rightarrow> memo_task list \<times> memo_service" where
  "sweep_expired_locks now t s = drop_locks (\<lambda>l. LOCK_TTL < t - li_last l) now s"

definition maintain :: "int \<Rightarrow> instant \<Rightarrow> bool \<Rightarrow> memo_service \<Rightarrow> memo_service" where
  "maintain now t db_exists s =
     (if \<not> db_exists then s
      else if (case ms_last_maintenance s of Some u \<Rightarrow> MAINTENANCE_INTERVAL \<le> t - u | None \<Rightarrow> True)
      then s\<lparr>ms_last_maintenance := Some t, ms_db := snd (purge_expired now (ms_db s))\<rparr>
      else s)"

definition watch_groups :: "(acl_group \<Rightarrow> u64) \<Rightarrow> config \<Rightarrow> bool \<Rightarrow> memo_service \<Rightarrow> memo_task list \<times> memo_service" where
  "watch_groups hash cfg db_exists s =
     (let new_sig = sort_key (\<lambda>(i, h). (i, unat h)) (map (\<lambda>g. (group_id g, hash g)) (acl_groups (cfg_acl cfg)));
          changed = ms_group_sig s \<noteq> Some new_sig;
          s = s\<lparr>ms_group_sig := Some new_sig\<rparr>;
          ids = (if changed \<and> db_exists then memo_ids_with_group_perms (ms_db s) else [])
      in (map Changed_Due ids, s\<lparr>ms_seq := ms_seq s + length ids\<rparr>))"

definition sweep_presence :: "instant \<Rightarrow> memo_service \<Rightarrow> memo_task list \<times> memo_service" where
  "sweep_presence t s =
     (let (ns, b, sh) = sweep_sheet_presence t (ms_sheets s); s = s\<lparr>ms_sheets := sh\<rparr>
      in (map (Send_All \<circ> Memo_Sheet) ns, if b then bump s else s))"

end
