(* ===== verification/Memo_Cache.thy ===== *)
theory Memo_Cache
  imports Memo_Service
begin

text \<open>
  The copy of the shared memos on a member: \<^verbatim>\<open>CacheStore\<close> of \<^verbatim>\<open>shared.rs\<close>, \<^verbatim>\<open>MemberMemoCache\<close> of
  \<^verbatim>\<open>memoshare.rs\<close>, and the synchronisation of \<^verbatim>\<open>control.rs\<close> at the start of a connection. Rows keep the order
  in which they were inserted, which decides between equal keys.
\<close>

section \<open>Tables\<close>

record cache_db =
  ca_memos :: "memo_detail list"
  ca_folders :: "memo_folder list"
  ca_events :: "schedule_event list"
  ca_sheets :: "sheet_meta list"
  ca_cells :: "(string \<times> sheet_cell) list"
  ca_layout :: "(string \<times> size_kind \<times> nat, nat) hashmap"
  ca_merges :: "(string \<times> merge_area) list"

definition empty_cache_db :: cache_db where
  "empty_cache_db = \<lparr>ca_memos = [], ca_folders = [], ca_events = [], ca_sheets = [], ca_cells = [], ca_layout = [], ca_merges = []\<rparr>"

text \<open>\<^verbatim>\<open>INSERT ... ON CONFLICT DO UPDATE\<close>: the row is replaced in its place, or added.\<close>

definition put_row :: "('a \<Rightarrow> 'k) \<Rightarrow> 'a \<Rightarrow> 'a list \<Rightarrow> 'a list" where
  "put_row key x xs = (if key x \<in> key ` set xs then map (\<lambda>y. if key y = key x then x else y) xs else xs @ [x])"

section \<open>Memos\<close>

definition CACHE_MAX_BYTES :: nat where "CACHE_MAX_BYTES = 50 * 1024 * 1024"

text \<open>What the table keeps of a detail; reading gives the defaults for the rest.\<close>

definition cached :: "memo_detail \<Rightarrow> memo_detail" where
  "cached m = m\<lparr>sd_deleted := None, sd_everyone := None, sd_members := [], sd_groups := []\<rparr>"

definition cached_bytes :: "memo_detail list \<Rightarrow> nat" where
  "cached_bytes ms = sum_list (map (length \<circ> sd_body) ms)"

definition drop_oldest :: "memo_detail list \<Rightarrow> memo_detail list" where
  "drop_oldest ms = (case sort_key sd_updated ms of [] \<Rightarrow> ms | m # _ \<Rightarrow> filter (\<lambda>x. sd_id x \<noteq> sd_id m) ms)"

lemma drop_oldest_less: "ms \<noteq> [] \<Longrightarrow> length (drop_oldest ms) < length ms"
proof -
  assume "ms \<noteq> []"
  then obtain m k where s: "sort_key sd_updated ms = m # k" by (metis length_0_conv length_sort neq_Nil_conv)
  then have "m \<in> set ms" by (metis list.set_intros(1) set_sort)
  then show ?thesis by (auto simp: drop_oldest_def s intro: length_filter_less)
qed

function enforce_limit_with :: "nat \<Rightarrow> memo_detail list \<Rightarrow> nat \<times> memo_detail list" where
  "enforce_limit_with cap ms =
     (if cached_bytes ms \<le> cap \<or> length ms \<le> 1 then (0, ms)
      else (let (n, ms) = enforce_limit_with cap (drop_oldest ms) in (n + 1, ms)))"
  by pat_completeness auto
termination
  by (relation "measure (\<lambda>(cap, ms). length ms)") (auto intro!: drop_oldest_less)

declare enforce_limit_with.simps [simp del]

definition enforce_limit :: "cache_db \<Rightarrow> cache_db" where
  "enforce_limit c = c\<lparr>ca_memos := snd (enforce_limit_with CACHE_MAX_BYTES (ca_memos c))\<rparr>"

definition cache_upsert :: "memo_detail \<Rightarrow> cache_db \<Rightarrow> cache_db" where
  "cache_upsert m c = enforce_limit (c\<lparr>ca_memos := put_row sd_id (cached m) (ca_memos c)\<rparr>)"

definition cache_remove :: "string \<Rightarrow> cache_db \<Rightarrow> cache_db" where
  "cache_remove i c = c\<lparr>ca_memos := filter (\<lambda>m. sd_id m \<noteq> i) (ca_memos c)\<rparr>"

definition cache_retain :: "string list \<Rightarrow> cache_db \<Rightarrow> cache_db" where
  "cache_retain ids c = enforce_limit (c\<lparr>ca_memos := filter (\<lambda>m. sd_id m \<in> set ids) (ca_memos c)\<rparr>)"

definition cache_set_lock :: "string \<Rightarrow> string option \<Rightarrow> cache_db \<Rightarrow> cache_db" where
  "cache_set_lock i h c = c\<lparr>ca_memos := map (\<lambda>m. if sd_id m = i then m\<lparr>sd_locked_by := h\<rparr> else m) (ca_memos c)\<rparr>"

text \<open>The identifier of a folder is its key: a list that names one twice is refused as a whole.\<close>

definition replace_folders :: "memo_folder list \<Rightarrow> cache_db \<Rightarrow> cache_db option" where
  "replace_folders fs c =
     (if distinct (map mf_id fs) then Some (c\<lparr>ca_folders := map (\<lambda>f. f\<lparr>mf_count := 0\<rparr>) fs\<rparr>) else None)"

definition cache_memo :: "cache_db \<Rightarrow> string \<Rightarrow> memo_detail option" where
  "cache_memo c i = find (\<lambda>m. sd_id m = i) (ca_memos c)"

definition cache_revision :: "cache_db \<Rightarrow> string \<Rightarrow> nat option" where
  "cache_revision c i = map_option sd_revision (cache_memo c i)"

definition cache_summary :: "memo_detail \<Rightarrow> memo_summary" where
  "cache_summary m =
     \<lparr>sm_id = sd_id m, sm_title = sd_title m, sm_excerpt = excerpt (sd_body m) EXCERPT_CHARS, sm_folder = sd_folder m,
      sm_revision = sd_revision m, sm_created = sd_created m, sm_updated = sd_updated m, sm_updated_by = sd_updated_by m,
      sm_owner_id = sd_owner_id m, sm_owner_name = sd_owner_name m, sm_deleted = None, sm_can_edit = sd_can_edit m,
      sm_can_manage = sd_can_manage m, sm_locked_by = sd_locked_by m, sm_checklist = checklist_progress (sd_body m),
      sm_comments = sd_comments m\<rparr>"

definition cache_list :: "sql_text \<Rightarrow> memo_query \<Rightarrow> cache_db \<Rightarrow> memo_summary list \<times> memo_folder list" where
  "cache_list tx q c =
     (map cache_summary (sort_key (\<lambda>m. - sd_updated m)
        (filter (\<lambda>m. (case mq_folder q of None \<Rightarrow> True | Some f \<Rightarrow> sd_folder m = Some f)
            \<and> (case mq_search q of None \<Rightarrow> True | Some t \<Rightarrow> trim t = [] \<or> search_hit tx (trim t) (sd_title m) (sd_body m)))
          (ca_memos c))),
      ca_folders c)"

definition cache_get :: "cache_db \<Rightarrow> string \<Rightarrow> memo_error + memo_detail" where
  "cache_get c i = (case cache_memo c i of Some m \<Rightarrow> Inr m | None \<Rightarrow> Inl Memo_Not_Found)"

definition cache_titled :: "cache_db \<Rightarrow> string \<Rightarrow> memo_detail option" where
  "cache_titled c t = (case sort_key (\<lambda>m. - sd_updated m) (filter (\<lambda>m. sd_title m = t) (ca_memos c)) of
     [] \<Rightarrow> None | m # _ \<Rightarrow> Some m)"

definition cache_resolve_titles :: "cache_db \<Rightarrow> string list \<Rightarrow> (string, string) hashmap" where
  "cache_resolve_titles c ts =
     snd (foldl (\<lambda>(seen, out) t.
       if t = [] \<or> t \<in> set seen then (seen, out)
       else (t # seen, case cache_titled c t of Some m \<Rightarrow> hm_insert t (sd_id m) out | None \<Rightarrow> out)) ([], []) ts)"

definition cache_backlinks :: "sql_text \<Rightarrow> cache_db \<Rightarrow> string \<Rightarrow> memo_error + memo_summary list" where
  "cache_backlinks tx c i =
     and_then (cache_get c i) (\<lambda>target.
       if sd_title target = [] then Inr []
       else (let p = ''%[['' @ escape_like (sd_title target) @ '']]%''
             in Inr (map cache_summary (sort_key (\<lambda>m. - sd_updated m)
                  (filter (\<lambda>m. sd_id m \<noteq> i \<and> sql_like tx p (sd_body m)) (ca_memos c))))))"

section \<open>Schedule\<close>

definition event_id :: "schedule_event \<Rightarrow> string" where
  "event_id e = sc_id (fst e)"

definition schedule_upsert :: "schedule_event \<Rightarrow> cache_db \<Rightarrow> cache_db" where
  "schedule_upsert e c = c\<lparr>ca_events := put_row event_id e (ca_events c)\<rparr>"

definition schedule_replace_all :: "schedule_event list \<Rightarrow> cache_db \<Rightarrow> cache_db" where
  "schedule_replace_all es c = c\<lparr>ca_events := fold (put_row event_id) es []\<rparr>"

definition schedule_remove :: "string \<Rightarrow> cache_db \<Rightarrow> cache_db" where
  "schedule_remove i c = c\<lparr>ca_events := filter (\<lambda>e. event_id e \<noteq> i) (ca_events c)\<rparr>"

definition cache_schedule_list :: "cache_db \<Rightarrow> schedule_event list" where
  "cache_schedule_list c = sort_key (\<lambda>e. (sint (sc_start (fst e)), event_id e)) (ca_events c)"

definition cache_schedule_get :: "cache_db \<Rightarrow> string \<Rightarrow> schedule_error + schedule_event" where
  "cache_schedule_get c i =
     (case find (\<lambda>e. event_id e = i) (ca_events c) of Some e \<Rightarrow> Inr e | None \<Rightarrow> Inl Schedule_Not_Found)"

section \<open>Sheets\<close>

definition meta_id :: "sheet_meta \<Rightarrow> string" where
  "meta_id m = sh_id (fst m)"

definition sheet_upsert :: "sheet_meta \<Rightarrow> cache_db \<Rightarrow> cache_db" where
  "sheet_upsert m c = c\<lparr>ca_sheets := put_row meta_id m (ca_sheets c)\<rparr>"

text \<open>The list of the host replaces the sheets; what belonged to others goes.\<close>

definition sheet_replace_all :: "sheet_meta list \<Rightarrow> cache_db \<Rightarrow> cache_db" where
  "sheet_replace_all ms c =
     (let ids = meta_id ` set ms
      in c\<lparr>ca_sheets := fold (put_row meta_id) ms [], ca_cells := filter (\<lambda>(j, _). j \<in> ids) (ca_cells c),
           ca_layout := hm_retain (\<lambda>(j, _) _. j \<in> ids) (ca_layout c), ca_merges := filter (\<lambda>(j, _). j \<in> ids) (ca_merges c)\<rparr>)"

definition sheet_remove :: "string \<Rightarrow> cache_db \<Rightarrow> cache_db" where
  "sheet_remove i c =
     c\<lparr>ca_sheets := filter (\<lambda>m. meta_id m \<noteq> i) (ca_sheets c), ca_cells := filter (\<lambda>(j, _). j \<noteq> i) (ca_cells c),
       ca_layout := hm_retain (\<lambda>(j, _) _. j \<noteq> i) (ca_layout c), ca_merges := filter (\<lambda>(j, _). j \<noteq> i) (ca_merges c)\<rparr>"

definition cache_sheet_list :: "cache_db \<Rightarrow> sheet_meta list" where
  "cache_sheet_list c = sort_key (\<lambda>m. (sh_created (fst m), meta_id m)) (ca_sheets c)"

definition cached_cell_key :: "string \<times> sheet_cell \<Rightarrow> string \<times> nat \<times> nat" where
  "cached_cell_key x = (fst x, ce_row (snd x), ce_col (snd x))"

definition put_cell :: "string \<Rightarrow> sheet_cell \<Rightarrow> (string \<times> sheet_cell) list \<Rightarrow> (string \<times> sheet_cell) list" where
  "put_cell i e = put_row cached_cell_key (i, e)"

definition sheet_cells_replace_all :: "string \<Rightarrow> sheet_cell list \<Rightarrow> cache_db \<Rightarrow> cache_db" where
  "sheet_cells_replace_all i es c = c\<lparr>ca_cells := fold (put_cell i) es (filter (\<lambda>(j, _). j \<noteq> i) (ca_cells c))\<rparr>"

definition apply_cell :: "string \<Rightarrow> sheet_cell \<Rightarrow> (string \<times> sheet_cell) list \<Rightarrow> (string \<times> sheet_cell) list" where
  "apply_cell i e cs =
     (if ce_value e = [] \<and> is_default_format (ce_format e) then drop_cell i (ce_row e) (ce_col e) cs else put_cell i e cs)"

definition sheet_cells_apply :: "string \<Rightarrow> sheet_cell list \<Rightarrow> cache_db \<Rightarrow> cache_db" where
  "sheet_cells_apply i es c = c\<lparr>ca_cells := fold (apply_cell i) es (ca_cells c)\<rparr>"

text \<open>The tables of sizes and areas have the form of those of the host, and are read as there.\<close>

definition cache_tables :: "cache_db \<Rightarrow> sheet_db" where
  "cache_tables c = \<lparr>st_sheets = map fst (ca_sheets c), st_cells = ca_cells c, st_layout = ca_layout c, st_merges = ca_merges c\<rparr>"

definition cache_sheet_cells :: "cache_db \<Rightarrow> string \<Rightarrow> sheet_cell list" where
  "cache_sheet_cells c i = sort_key (\<lambda>e. (ce_row e, ce_col e)) (cells_in (cache_tables c) i)"

definition cache_sheet_layout :: "cache_db \<Rightarrow> string \<Rightarrow> (nat \<times> nat) list \<times> (nat \<times> nat) list" where
  "cache_sheet_layout c i =
     (read_sheet_layout_kind (cache_tables c) i Col_Size, read_sheet_layout_kind (cache_tables c) i Row_Size)"

definition cache_sheet_merges :: "cache_db \<Rightarrow> string \<Rightarrow> merge_area list" where
  "cache_sheet_merges c i = read_sheet_merges (cache_tables c) i"

text \<open>Plain insertions, one by one and without a transaction: a key that occurs twice ends them with an error.\<close>

fun insert_sizes :: "string \<Rightarrow> size_kind \<Rightarrow> (nat \<times> nat) list \<Rightarrow> (string \<times> size_kind \<times> nat, nat) hashmap
    \<Rightarrow> bool \<times> (string \<times> size_kind \<times> nat, nat) hashmap" where
  "insert_sizes i k [] m = (True, m)"
| "insert_sizes i k ((n, v) # xs) m = (if hm_contains m (i, k, n) then (False, m) else insert_sizes i k xs (hm_insert (i, k, n) v m))"

definition replace_sheet_layout :: "string \<Rightarrow> (nat \<times> nat) list \<Rightarrow> (nat \<times> nat) list \<Rightarrow> cache_db \<Rightarrow> bool \<times> cache_db" where
  "replace_sheet_layout i cols rows c =
     (let (ok, m) = insert_sizes i Col_Size cols (hm_retain (\<lambda>(j, _) _. j \<noteq> i) (ca_layout c));
          (ok, m) = (if ok then insert_sizes i Row_Size rows m else (ok, m))
      in (ok, c\<lparr>ca_layout := m\<rparr>))"

fun insert_areas :: "string \<Rightarrow> merge_area list \<Rightarrow> (string \<times> merge_area) list \<Rightarrow> bool \<times> (string \<times> merge_area) list" where
  "insert_areas i [] ms = (True, ms)"
| "insert_areas i (a # as) ms =
     (if \<exists>x \<in> set ms. (fst x, ma_row (snd x), ma_col (snd x)) = (i, ma_row a, ma_col a) then (False, ms)
      else insert_areas i as (ms @ [(i, a)]))"

definition replace_sheet_merges :: "string \<Rightarrow> merge_area list \<Rightarrow> cache_db \<Rightarrow> bool \<times> cache_db" where
  "replace_sheet_merges i as c =
     (let (ok, ms) = insert_areas i as (filter (\<lambda>(j, _). j \<noteq> i) (ca_merges c)) in (ok, c\<lparr>ca_merges := ms\<rparr>))"

section \<open>The cache of a member\<close>

record member_cache =
  mc_db :: cache_db
  mc_generation :: nat
  mc_supported :: bool
  mc_presence :: "(string, presence_peer list) hashmap"

definition member_cache_new :: "cache_db \<Rightarrow> member_cache" where
  "member_cache_new c = \<lparr>mc_db = c, mc_generation = 1, mc_supported = False, mc_presence = []\<rparr>"

definition cache_bump :: "member_cache \<Rightarrow> member_cache" where
  "cache_bump k = k\<lparr>mc_generation := mc_generation k + 1\<rparr>"

text \<open>A write and whether it succeeded; a failed one is only reported.\<close>

definition stored :: "bool \<times> cache_db \<Rightarrow> member_cache \<Rightarrow> bool \<times> member_cache" where
  "stored r k = (fst r, k\<lparr>mc_db := snd r\<rparr>)"

definition cache_write :: "(cache_db \<Rightarrow> cache_db) \<Rightarrow> member_cache \<Rightarrow> bool \<times> member_cache" where
  "cache_write f k = stored (True, f (mc_db k)) k"

definition store_event :: "memo_event \<Rightarrow> member_cache \<Rightarrow> bool \<times> member_cache" where
  "store_event e k =
     (case e of
        Memo_Changed m \<Rightarrow> cache_write (cache_upsert m) k
      | Memo_Removed i \<Rightarrow> cache_write (cache_remove i) k
      | Memo_Lock i h \<Rightarrow> cache_write (cache_set_lock i h) k
      | Memo_Folders fs \<Rightarrow>
          (case replace_folders fs (mc_db k) of Some c \<Rightarrow> stored (True, c) k | None \<Rightarrow> (False, k))
      | Memo_Schedule (Schedule_Changed e) \<Rightarrow> cache_write (schedule_upsert e) k
      | Memo_Schedule (Schedule_Removed i) \<Rightarrow> cache_write (schedule_remove i) k
      | Memo_Sheet (Sheet_Changed m) \<Rightarrow> cache_write (sheet_upsert m) k
      | Memo_Sheet (Sheet_Removed i) \<Rightarrow> cache_write (sheet_remove i) k
      | Memo_Sheet (Cells_Changed i es) \<Rightarrow> cache_write (sheet_cells_apply i es) k
      | Memo_Sheet (Layout_Due i) \<Rightarrow> (True, k)
      | Memo_Sheet (Layout i cols rows) \<Rightarrow> stored (replace_sheet_layout i cols rows (mc_db k)) k
      | Memo_Sheet (Merges i as) \<Rightarrow> stored (replace_sheet_merges i as (mc_db k)) k
      | Memo_Sheet (Presence _ i ps) \<Rightarrow> (True, k\<lparr>mc_presence := hm_insert i ps (mc_presence k)\<rparr>))"

definition apply_event :: "memo_event \<Rightarrow> member_cache \<Rightarrow> member_cache" where
  "apply_event e k = (let (ok, k) = store_event e k in if ok then cache_bump k else k)"

text \<open>The list of the host against the cache: what is gone goes, and what has another revision is to be fetched.\<close>

definition sync_memo :: "memo_summary \<Rightarrow> string list \<times> cache_db \<Rightarrow> string list \<times> cache_db" where
  "sync_memo m s =
     (if cache_revision (snd s) (sm_id m) = Some (sm_revision m)
      then (fst s, cache_set_lock (sm_id m) (sm_locked_by m) (snd s))
      else (fst s @ [sm_id m], snd s))"

definition sync_from_list :: "memo_summary list \<Rightarrow> memo_folder list \<Rightarrow> member_cache \<Rightarrow> string list option \<times> member_cache" where
  "sync_from_list ms fs k =
     (let (stale, c) = fold sync_memo ms ([], cache_retain (map sm_id ms) (mc_db k))
      in case replace_folders fs c of
           Some c \<Rightarrow> (Some stale, cache_bump (k\<lparr>mc_db := c\<rparr>))
         | None \<Rightarrow> (None, k\<lparr>mc_db := c\<rparr>))"

definition member_upsert :: "memo_detail \<Rightarrow> member_cache \<Rightarrow> member_cache" where
  "member_upsert m k = cache_bump (snd (cache_write (cache_upsert m) k))"

definition schedule_sync_from_list :: "schedule_event list \<Rightarrow> member_cache \<Rightarrow> member_cache" where
  "schedule_sync_from_list es k = cache_bump (snd (cache_write (schedule_replace_all es) k))"

definition sheet_sync_from_list :: "sheet_meta list \<Rightarrow> member_cache \<Rightarrow> member_cache" where
  "sheet_sync_from_list ms k = cache_bump (snd (cache_write (sheet_replace_all ms) k))"

definition sheet_sync_cells :: "string \<Rightarrow> sheet_cell list \<Rightarrow> (nat \<times> nat) list \<Rightarrow> (nat \<times> nat) list \<Rightarrow> merge_area list
    \<Rightarrow> member_cache \<Rightarrow> bool \<times> member_cache" where
  "sheet_sync_cells i es cols rows as k =
     (let (ok, c) = replace_sheet_layout i cols rows (sheet_cells_replace_all i es (mc_db k));
          (ok, c) = (if ok then replace_sheet_merges i as c else (ok, c));
          k = k\<lparr>mc_db := c\<rparr>
      in (ok, if ok then cache_bump k else k))"

definition member_sheet_presence :: "member_cache \<Rightarrow> string \<Rightarrow> presence_peer list" where
  "member_sheet_presence k i = (case hm_get (mc_presence k) i of Some ps \<Rightarrow> ps | None \<Rightarrow> [])"

section \<open>The synchronisation of a new connection\<close>

text \<open>What becomes of a request: no link, no answer in time, or the answer.\<close>

datatype asked = No_Link | No_Answer | In_Time memo_reply

type_synonym asking = "memo_op \<Rightarrow> asked"

definition SHEET_SYNC_LIMIT :: nat where "SHEET_SYNC_LIMIT = 10"

fun sync_details :: "asking \<Rightarrow> string list \<Rightarrow> member_cache \<Rightarrow> bool \<times> member_cache" where
  "sync_details ask [] k = (True, k)"
| "sync_details ask (i # is) k =
     (case ask (Op_Get i) of
        No_Link \<Rightarrow> (False, k)
      | In_Time (Reply_Memo m) \<Rightarrow> sync_details ask is (member_upsert m k)
      | _ \<Rightarrow> sync_details ask is k)"

definition sync_schedule :: "asking \<Rightarrow> member_cache \<Rightarrow> bool \<times> member_cache" where
  "sync_schedule ask k =
     (case ask (Op_Schedule Schedule_List) of
        No_Link \<Rightarrow> (False, k)
      | In_Time (Reply_Schedule (Schedule_Events es)) \<Rightarrow> (True, schedule_sync_from_list es k)
      | _ \<Rightarrow> (True, k))"

fun sync_cells :: "asking \<Rightarrow> sheet_meta list \<Rightarrow> member_cache \<Rightarrow> member_cache" where
  "sync_cells ask [] k = k"
| "sync_cells ask (m # ms) k =
     (case ask (Op_Sheet (Sheet_Cells (meta_id m))) of
        No_Link \<Rightarrow> k
      | In_Time (Reply_Sheet (Cells_Data i es cols rows as _)) \<Rightarrow> sync_cells ask ms (snd (sheet_sync_cells i es cols rows as k))
      | _ \<Rightarrow> sync_cells ask ms k)"

definition sync_sheets :: "asking \<Rightarrow> member_cache \<Rightarrow> member_cache" where
  "sync_sheets ask k =
     (case ask (Op_Sheet Sheet_List) of
        In_Time (Reply_Sheet (Sheets ms)) \<Rightarrow> sync_cells ask (take SHEET_SYNC_LIMIT ms) (sheet_sync_from_list ms k)
      | _ \<Rightarrow> k)"

definition all_memos :: memo_query where
  "all_memos = \<lparr>mq_trash = False, mq_folder = None, mq_search = None\<rparr>"

definition memo_sync :: "asking \<Rightarrow> member_cache \<Rightarrow> member_cache" where
  "memo_sync ask k =
     (case ask (Op_List all_memos) of
        In_Time (Reply_Memos ms fs) \<Rightarrow>
          (case sync_from_list ms fs k of
             (None, k) \<Rightarrow> k
           | (Some stale, k) \<Rightarrow>
               (let (go, k) = sync_details ask stale (k\<lparr>mc_supported := True\<rparr>);
                    (go, k) = (if go then sync_schedule ask k else (go, k))
                in if go then sync_sheets ask k else k))
      | _ \<Rightarrow> k)"

end
