(* ===== verification/Service_Laws.thy ===== *)
theory Service_Laws
  imports Memo_Service
begin

text \<open>
  What the service of shared memos promises: a memo changes only at the hands of those entitled to the change, and a text
  only from the revision its writer read; the invariant of the store holds in every history; what a receiver gets.
\<close>

section \<open>Who may change a memo\<close>

definition written_row :: "int \<Rightarrow> actor \<Rightarrow> string \<Rightarrow> string \<Rightarrow> memo_row \<Rightarrow> memo_row" where
  "written_row now a t b r = r\<lparr>mr_title := t, mr_body := b, mr_revision := mr_revision r + 1, mr_updated := now,
     mr_updated_by := Some (ac_name a)\<rparr>"

definition lock_at :: "instant \<Rightarrow> memo_service \<Rightarrow> string \<Rightarrow> lock_info option" where
  "lock_at t s i = hm_get (prune_expired t (ms_locks s)) i"

definition holds_lock :: "instant \<Rightarrow> memo_service \<Rightarrow> actor \<Rightarrow> string \<Rightarrow> bool" where
  "holds_lock t s a i \<longleftrightarrow> map_option li_key (lock_at t s i) = Some (lock_key a)"

definition locked_out :: "instant \<Rightarrow> memo_service \<Rightarrow> actor \<Rightarrow> string \<Rightarrow> bool" where
  "locked_out t s a i \<longleftrightarrow> (case lock_at t s i of Some l \<Rightarrow> li_key l \<noteq> lock_key a | None \<Rightarrow> False)"

text \<open>The changes of a memo a request may make; \<open>None\<close> is that it is gone.\<close>

definition allowed_change :: "memo_env \<Rightarrow> actor \<Rightarrow> memo_op \<Rightarrow> memo_service \<Rightarrow> memo_row \<Rightarrow> memo_row option \<Rightarrow> bool" where
  "allowed_change v a op s r r' \<longleftrightarrow>
     (case op of
        Op_Update i base t b \<Rightarrow>
          i = mr_id r \<and> base = mr_revision r \<and> can_edit r a (perm_context (ms_db s) i) \<and> holds_lock (mo_instant v) s a i
          \<and> r' = Some (written_row (mo_now v) a t b r)
      | Op_History_Restore i hid \<Rightarrow>
          i = mr_id r \<and> can_edit r a (perm_context (ms_db s) i) \<and> \<not> locked_out (mo_instant v) s a i
          \<and> (case version_of (ms_db s) i hid of
               Inr h \<Rightarrow> r' = Some (written_row (mo_now v) a (ht_title h) (ht_body h) r) | Inl _ \<Rightarrow> False)
      | Op_Trash i \<Rightarrow> i = mr_id r \<and> can_manage r a \<and> r' = Some (r\<lparr>mr_deleted := Some (mo_now v)\<rparr>)
      | Op_Restore i \<Rightarrow> i = mr_id r \<and> can_manage r a \<and> r' = Some (r\<lparr>mr_deleted := None\<rparr>)
      | Op_Delete_Forever i \<Rightarrow> i = mr_id r \<and> can_manage r a \<and> mr_deleted r \<noteq> None \<and> r' = None
      | Op_Set_Perms i everyone _ _ \<Rightarrow> i = mr_id r \<and> can_manage r a \<and> r' = Some (r\<lparr>mr_everyone := everyone\<rparr>)
      | Op_Folder_Delete f \<Rightarrow> is_manager a \<and> mr_folder r = Some f \<and> r' = Some (r\<lparr>mr_folder := None\<rparr>)
      | _ \<Rightarrow> False)"

definition memo_at :: "memo_service \<Rightarrow> string \<Rightarrow> memo_row option" where
  "memo_at s i = (case memo_of (ms_db s) i of Inr r \<Rightarrow> Some r | Inl _ \<Rightarrow> None)"

lemma memo_at_Some: "memo_at s i = Some r \<longleftrightarrow> memo_of (ms_db s) i = Inr r"
  by (simp add: memo_at_def split: sum.split)

lemma of_store_Inr [simp]: "of_store r f = Inr y \<longleftrightarrow> (\<exists>x. r = Inr x \<and> f x = Inr y)"
  by (simp add: of_store_def split: sum.split)

lemma bump_simps [simp]:
  "ms_db (bump s) = ms_db s" "ms_locks (bump s) = ms_locks s" "ms_events (bump s) = ms_events s" "ms_sheets (bump s) = ms_sheets s"
  by (simp_all add: bump_def)

lemma finish_detail_db [simp]: "ms_db (snd (finish_detail v m s)) = ms_db s"
  by (simp add: finish_detail_def lock_holder_def Let_def)

lemma changed_memo_db: "changed_memo v i m db s = Inr (rep, ts, s') \<Longrightarrow> ms_db s' = db"
  by (auto simp: changed_memo_def finish_detail_def lock_holder_def Let_def)

lemma locks_after_failure_db [simp]: "ms_db (locks_after_failure v a op s) = ms_db s"
  by (simp add: locks_after_failure_def split: memo_op.split sum.split)

lemma snapshot_after_unlock_memos [simp]: "db_memos (ms_db (snapshot_after_unlock v i n s)) = db_memos (ms_db s)"
  by (auto simp: snapshot_after_unlock_def snapshot_if_revision_changed_def split: sum.split)

lemma update_lock: "lock_for_update t key i (ms_locks s) = Inr ls \<Longrightarrow> lock_key a = key \<Longrightarrow> holds_lock t s a i"
  by (auto simp: lock_for_update_def holds_lock_def lock_at_def Let_def split: option.splits if_splits)

lemma restore_lock: "lock_for_restore t key i (ms_locks s) = Inr ls \<Longrightarrow> lock_key a = key \<Longrightarrow> \<not> locked_out t s a i"
  by (auto simp: lock_for_restore_def locked_out_def lock_at_def Let_def split: option.splits if_splits)

lemma same_memos: "db_memos db = db_memos db' \<Longrightarrow> memo_of db = memo_of db'"
  by (simp add: memo_of_def fun_eq_iff)

text \<open>Requests that leave every memo as it is.\<close>

lemma handle_sheet_frame: "sheet_request v a op s = Inr (rep, ts, s') \<Longrightarrow> ms_db s' = ms_db s \<and> ms_locks s' = ms_locks s"
  by (auto simp: sheet_request_def Let_def split: sum.splits if_splits)

lemma handle_schedule_frame: "schedule_request v a op s = Inr (rep, ts, s') \<Longrightarrow> ms_db s' = ms_db s \<and> ms_locks s' = ms_locks s"
  by (auto simp: schedule_request_def Let_def split: sum.splits if_splits)

lemma reading_Inr [simp]: "reading s r = Inr (rep, ts, s') \<longleftrightarrow> r = Inr rep \<and> ts = [] \<and> s' = s"
  by (auto simp: reading_def)

lemma quiet_memos:
  assumes "handle_memo v a op s = Inr (rep, ts, s')"
    and "case op of Op_Create _ _ _ \<Rightarrow> False | Op_Update _ _ _ _ \<Rightarrow> False | Op_History_Restore _ _ \<Rightarrow> False | Op_Trash _ \<Rightarrow> False
      | Op_Restore _ \<Rightarrow> False | Op_Delete_Forever _ \<Rightarrow> False | Op_Set_Perms _ _ _ _ \<Rightarrow> False | Op_Folder_Delete _ \<Rightarrow> False | _ \<Rightarrow> True"
  shows "db_memos (ms_db s') = db_memos (ms_db s)"
proof (cases op)
  case (Op_Save_Version i)
  then show ?thesis using assms(1) by (auto simp: quiet_request_def save_version_def split: if_splits)
next
  case (Op_Schedule x)
  then show ?thesis using assms(1) handle_schedule_frame by simp
next
  case (Op_Sheet x)
  then show ?thesis using assms(1) handle_sheet_frame by simp
next
  case (Op_Comment_Delete i c)
  then show ?thesis using assms(1) by (auto simp: comment_delete_request_def comment_delete_def split: option.splits)
qed (use assms in \<open>auto simp: list_request_def inject_lock_summaries_def get_request_def finish_detail_def lock_holder_def
   acquire_request_def release_request_def force_unlock_request_def unlock_def folder_request_def folder_create_def
   folder_rename_def quiet_request_def set_limits_def comment_add_request_def comment_add_def perm_group_request_def
   Let_def split: option.splits if_splits prod.splits\<close>)

lemma memo_of_filter: "memo_of (db\<lparr>db_memos := filter (\<lambda>r. mr_id r \<noteq> j) (db_memos db)\<rparr>) i
    = (if i = j then Inl Memo_Not_Found else memo_of db i)"
  using find_filter_key [of mr_id i j "db_memos db"] by (simp add: memo_of_def)

lemma memo_of_snoc: "memo_of (db\<lparr>db_memos := db_memos db @ [x]\<rparr>) i
    = (case memo_of db i of Inr r \<Rightarrow> Inr r | Inl e \<Rightarrow> if mr_id x = i then Inr x else Inl Memo_Not_Found)"
  by (auto simp: memo_of_def find_app split: option.split)

lemma allowed_changes:
  assumes "memo_step v a op s = (res, ts, s')" and "memo_at s i = Some r" and "memo_at s' i \<noteq> Some r"
  shows "allowed_change v a op s r (memo_at s' i)"
proof -
  have r: "memo_of (ms_db s) i = Inr r" and i: "mr_id r = i" using assms(2) memo_of_Inr by (auto simp: memo_at_Some)
  have "ms_db s' = ms_db s" if "handle_memo v a op s = Inl e" for e using that assms(1) by (auto simp: memo_step_def)
  then have "\<not> (\<exists>e. handle_memo v a op s = Inl e)" using assms(2,3) by (auto simp: memo_at_def)
  then obtain rep ts' where h: "handle_memo v a op s = Inr (rep, ts', s')"
    using assms(1) by (auto simp: memo_step_def split: sum.splits)
  have quiet: thesis if "db_memos (ms_db s') = db_memos (ms_db s)" for thesis
    using that assms(2,3) same_memos [OF that] by (simp add: memo_at_def)
  show ?thesis
  proof (cases op)
    case (Op_Create t b f)
    with h obtain d db' where c: "create_memo (mo_now v) (mo_new_id v) a t b f (ms_db s) = Inr (d, db')" and s': "ms_db s' = db'"
      by (auto simp: create_request_def)
    from c have "memo_of db' i = memo_of (ms_db s) i" by (rule create_elim) (simp add: memo_of_snoc r)
    then show ?thesis using assms(2,3) s' by (simp add: memo_at_def)
  next
    case (Op_Update j base t b)
    with h obtain ls d db' where l: "lock_for_update (mo_instant v) (lock_key a) j (ms_locks s) = Inr ls"
      and u: "update_text (mo_now v) a j base t b (ms_db s) = Inr (d, db')" and s': "ms_db s' = db'"
      by (auto simp: update_request_def dest: changed_memo_db)
    from u show ?thesis
    proof (rule update_elim)
      fix x
      assume x: "memo_of (ms_db s) j = Inr x" "can_edit x a (perm_context (ms_db s) j)" "mr_revision x = base"
        and db': "db' = write_text (mo_now v) a j t b (maybe_auto_snapshot (mo_now v) x (ms_db s))"
      have m: "memo_of db' i = Inr (if i = j then written_row (mo_now v) a t b r else r)"
        using r same_memos [of "maybe_auto_snapshot (mo_now v) x (ms_db s)" "ms_db s"]
        by (simp add: db' write_text_memo written_row_def)
      have "i = j" using m assms(2,3) s' by (auto simp: memo_at_Some split: if_splits)
      then show ?thesis using m x r i update_lock [OF l refl]
        by (simp add: Op_Update allowed_change_def s' memo_at_def)
    qed
  next
    case (Op_History_Restore j hid)
    with h obtain ls d db' where l: "lock_for_restore (mo_instant v) (lock_key a) j (ms_locks s) = Inr ls"
      and u: "history_restore (mo_now v) a j hid (ms_db s) = Inr (d, db')" and s': "ms_db s' = db'"
      by (auto simp: history_restore_request_def dest: changed_memo_db)
    from u show ?thesis
    proof (rule restore_elim)
      fix x y
      assume x: "memo_of (ms_db s) j = Inr x" "can_edit x a (perm_context (ms_db s) j)" "version_of (ms_db s) j hid = Inr y"
        and db': "db' = write_text (mo_now v) a j (ht_title y) (ht_body y) (snapshot_history (mo_now v) ''restore'' x (ms_db s))"
      have m: "memo_of db' i = Inr (if i = j then written_row (mo_now v) a (ht_title y) (ht_body y) r else r)"
        using r same_memos [of "snapshot_history (mo_now v) ''restore'' x (ms_db s)" "ms_db s"]
        by (simp add: db' write_text_memo written_row_def)
      have "i = j" using m assms(2,3) s' by (auto simp: memo_at_Some split: if_splits)
      then show ?thesis using m x r i restore_lock [OF l refl]
        by (simp add: Op_History_Restore allowed_change_def s' memo_at_def)
    qed
  next
    case (Op_Trash j)
    with h obtain x where x: "memo_of (ms_db s) j = Inr x" "can_manage x a"
      and s': "ms_db s' = update_memo j (\<lambda>r. if mr_deleted r = None then r\<lparr>mr_deleted := Some (mo_now v)\<rparr> else r) (ms_db s)"
      by (auto simp: trash_request_def trash_memo_def managed_Inr)
    show ?thesis using assms(3) r i x
      by (auto simp: memo_at_def s' memo_of_update Op_Trash allowed_change_def split: if_splits)
  next
    case (Op_Restore j)
    with h obtain x where x: "memo_of (ms_db s) j = Inr x" "can_manage x a"
      and s': "ms_db s' = update_memo j (\<lambda>r. r\<lparr>mr_deleted := None\<rparr>) (ms_db s)"
      by (auto simp: restore_request_def restore_memo_def managed_Inr)
    show ?thesis using assms(3) r i x
      by (auto simp: memo_at_def s' memo_of_update Op_Restore allowed_change_def split: if_splits)
  next
    case (Op_Delete_Forever j)
    with h obtain x where x: "memo_of (ms_db s) j = Inr x" "can_manage x a" "mr_deleted x \<noteq> None"
      and s': "ms_db s' = purge_memo (mo_now v) j (ms_db s)"
      by (auto simp: delete_request_def delete_forever_def managed_Inr)
    have "memo_of (ms_db s') i = (if i = j then Inl Memo_Not_Found else memo_of (ms_db s) i)"
      using memo_of_filter [of j "ms_db s" i] by (simp add: s' purge_memo_def memo_of_def)
    then show ?thesis using assms(3) r i x by (auto simp: memo_at_def Op_Delete_Forever allowed_change_def split: if_splits)
  next
    case (Op_Set_Perms j e ms gs)
    with h obtain d db' where p: "set_perms a j e ms gs (ms_db s) = Inr (d, db')" and s': "ms_db s' = db'"
      by (auto simp: set_perms_request_def dest: changed_memo_db)
    from p show ?thesis
    proof (rule perms_elim)
      fix x
      assume x: "memo_of (ms_db s) j = Inr x" "can_manage x a"
        and d: "db_memos db' = db_memos (update_memo j (\<lambda>r. r\<lparr>mr_everyone := e\<rparr>) (ms_db s))"
      show ?thesis using assms(3) r i x same_memos [OF d]
        by (auto simp: memo_at_def s' memo_of_update Op_Set_Perms allowed_change_def split: if_splits)
    qed
  next
    case (Op_Folder_Delete f)
    with h have a: "is_manager a" and m: "db_memos (ms_db s') = map (\<lambda>r. if mr_folder r = Some f then r\<lparr>mr_folder := None\<rparr> else r) (db_memos (ms_db s))"
      by (auto simp: folder_request_def folder_delete_def)
    have "memo_of (ms_db s') i = Inr (if mr_folder r = Some f then r\<lparr>mr_folder := None\<rparr> else r)"
      using r find_map_key [of mr_id "\<lambda>r. if mr_folder r = Some f then r\<lparr>mr_folder := None\<rparr> else r" i "db_memos (ms_db s)"]
      by (simp add: memo_of_def m split: option.splits)
    then show ?thesis using assms(3) a by (auto simp: memo_at_def Op_Folder_Delete allowed_change_def split: if_splits)
  qed (rule quiet, rule quiet_memos [OF h], simp)+
qed


section \<open>The store and the locks in every history\<close>

definition lock_fits :: "memo_service \<Rightarrow> string \<Rightarrow> nat \<Rightarrow> bool" where
  "lock_fits s i n \<longleftrightarrow> (case memo_at s i of Some r \<Rightarrow> mr_deleted r = None \<and> n \<le> mr_revision r | None \<Rightarrow> False)"

definition service_ok :: "memo_service \<Rightarrow> bool" where
  "service_ok s \<longleftrightarrow> memo_ok (ms_db s) \<and> hm_ok (ms_locks s)
     \<and> (\<forall>i. case hm_get (ms_locks s) i of Some l \<Rightarrow> lock_fits s i (li_revision l) | None \<Rightarrow> True)"

text \<open>Fewer locks on the same memos.\<close>

lemma service_ok_weaken:
  assumes "service_ok s" and "memo_ok (ms_db s')" and "db_memos (ms_db s') = db_memos (ms_db s)" and "hm_ok (ms_locks s')"
    and "\<And>i l. hm_get (ms_locks s') i = Some l \<Longrightarrow> \<exists>l0. hm_get (ms_locks s) i = Some l0 \<and> li_revision l0 = li_revision l"
  shows "service_ok s'"
proof -
  have m: "memo_at s' = memo_at s" using same_memos [OF assms(3)] by (simp add: memo_at_def fun_eq_iff)
  have "lock_fits s' i (li_revision l)" if l: "hm_get (ms_locks s') i = Some l" for i l
  proof -
    obtain l0 where "hm_get (ms_locks s) i = Some l0" "li_revision l0 = li_revision l" using assms(5) [OF l] by blast
    moreover from this assms(1) have "lock_fits s i (li_revision l0)" by (force simp: service_ok_def split: option.splits)
    ultimately show ?thesis by (simp add: lock_fits_def m)
  qed
  then show ?thesis using assms(2,4) by (simp add: service_ok_def split: option.split)
qed

lemma prune_get: "hm_ok ls \<Longrightarrow> hm_get (prune_expired t ls) i = Some l \<Longrightarrow> hm_get ls i = Some l"
  by (simp add: prune_expired_def hm.get_retain split: option.splits if_splits)

lemma prune_ok: "hm_ok ls \<Longrightarrow> hm_ok (prune_expired t ls)"
  by (simp add: prune_expired_def hm.ok_retain)

lemma update_lock_get:
  assumes "lock_for_update t key j ls = Inr ls'" and "hm_ok ls"
  shows "hm_ok ls' \<and> (hm_get ls' i = Some l \<longrightarrow> (\<exists>l0. hm_get ls i = Some l0 \<and> li_revision l0 = li_revision l))"
  using assms prune_get [OF assms(2)] prune_ok [OF assms(2)]
  by (auto simp: lock_for_update_def Let_def hm.get_insert hm.ok_insert split: option.splits if_splits)

lemma restore_lock_get:
  assumes "lock_for_restore t key j ls = Inr ls'" and "hm_ok ls"
  shows "hm_ok ls' \<and> (hm_get ls' i = Some l \<longrightarrow> hm_get ls i = Some l)"
  using assms prune_get [OF assms(2)] prune_ok [OF assms(2)]
  by (auto simp: lock_for_restore_def Let_def split: option.splits if_splits)

lemma finish_detail_locks [simp]:
  "ms_locks (snd (finish_detail v m s)) = prune_expired (mo_instant v) (ms_locks s)"
  by (simp add: finish_detail_def lock_holder_def Let_def)

lemma changed_memo_locks:
  "changed_memo v i m db s = Inr (rep, ts, s') \<Longrightarrow> ms_locks s' = prune_expired (mo_instant v) (ms_locks s)"
  by (auto simp: changed_memo_def Let_def split: prod.splits dest: arg_cong [of _ _ "\<lambda>x. ms_locks (snd x)"])

lemma memo_ok_step:
  assumes "memo_ok (ms_db s)" and "handle_memo v a op s = Inr (rep, ts, s')"
  shows "memo_ok (ms_db s')"
proof (cases op)
  case (Op_Schedule x)
  then show ?thesis using assms handle_schedule_frame by simp
next
  case (Op_Sheet x)
  then show ?thesis using assms handle_sheet_frame by simp
next
  case (Op_Release_Lock i)
  then show ?thesis using assms save_ok(2) [OF assms(1)]
    by (auto simp: release_request_def unlock_def snapshot_after_unlock_def split: option.splits if_splits sum.splits)
next
  case (Op_Force_Unlock i)
  then show ?thesis using assms save_ok(2) [OF assms(1)]
    by (auto simp: force_unlock_request_def unlock_def snapshot_after_unlock_def split: option.splits if_splits sum.splits)
next
  case (Op_Update i base t b)
  then show ?thesis using assms update_text_ok [OF assms(1)] by (auto simp: update_request_def dest!: changed_memo_db)
next
  case (Op_History_Restore i hid)
  then show ?thesis using assms restore_version_ok [OF assms(1)] by (auto simp: history_restore_request_def dest!: changed_memo_db)
next
  case (Op_Set_Perms i e ms gs)
  then show ?thesis using assms set_perms_ok [OF assms(1)] by (auto simp: set_perms_request_def dest!: changed_memo_db)
qed (use assms create_ok [OF assms(1)] trash_ok [OF assms(1)] folder_ok [OF assms(1)] save_ok(1) [OF assms(1)] set_limits_ok [OF assms(1)]
    comment_add_ok [OF assms(1)] comment_delete_ok [OF assms(1)] in
   \<open>auto simp: list_request_def inject_lock_summaries_def get_request_def finish_detail_def lock_holder_def create_request_def
     acquire_request_def trash_request_def restore_request_def delete_request_def folder_request_def quiet_request_def
     comment_add_request_def comment_delete_request_def perm_group_request_def Let_def split: prod.splits\<close>)

text \<open>Where the locks after a request come from.\<close>

definition lock_origin :: "memo_service \<Rightarrow> memo_op \<Rightarrow> string \<Rightarrow> lock_info \<Rightarrow> bool" where
  "lock_origin s op i l \<longleftrightarrow>
     op \<noteq> Op_Trash i \<and> map_option li_revision (hm_get (ms_locks s) i) = Some (li_revision l)
     \<or> op = Op_Acquire_Lock i \<and> (case memo_at s i of Some r \<Rightarrow> mr_deleted r = None \<and> mr_revision r = li_revision l | None \<Rightarrow> False)"

lemma unlock_locks: "unlock v i l s = Inr (rep, ts, s') \<Longrightarrow> ms_locks s' = hm_remove i (ms_locks s)"
  by (auto simp: unlock_def snapshot_after_unlock_def split: sum.splits)

lemma locks_step:
  assumes ok: "hm_ok (ms_locks s)" and h: "handle_memo v a op s = Inr (rep, ts, s')"
  shows "hm_ok (ms_locks s')" and "hm_get (ms_locks s') i = Some l \<Longrightarrow> lock_origin s op i l"
proof -
  have "hm_ok (ms_locks s') \<and> (hm_get (ms_locks s') i = Some l \<longrightarrow> lock_origin s op i l)"
  proof (cases op)
    case (Op_Schedule x)
    then show ?thesis using h ok handle_schedule_frame by (auto simp: lock_origin_def)
  next
    case (Op_Sheet x)
    then show ?thesis using h ok handle_sheet_frame by (auto simp: lock_origin_def)
  next
    case (Op_Release_Lock j)
    then show ?thesis using h ok
      by (auto simp: release_request_def lock_origin_def hm.ok_remove hm.get_remove dest!: unlock_locks split: option.splits if_splits)
  next
    case (Op_Force_Unlock j)
    then show ?thesis using h ok
      by (auto simp: force_unlock_request_def lock_origin_def hm.ok_remove hm.get_remove dest!: unlock_locks split: option.splits if_splits)
  next
    case (Op_Update j base t b)
    then obtain ls where "lock_for_update (mo_instant v) (lock_key a) j (ms_locks s) = Inr ls"
      and "ms_locks s' = prune_expired (mo_instant v) ls"
      using h by (auto simp: update_request_def dest!: changed_memo_locks)
    then show ?thesis using update_lock_get [OF _ ok] prune_ok prune_get [of ls "mo_instant v" i l]
      by (auto simp: Op_Update lock_origin_def)
  next
    case (Op_History_Restore j hid)
    then obtain ls where "lock_for_restore (mo_instant v) (lock_key a) j (ms_locks s) = Inr ls"
      and "ms_locks s' = prune_expired (mo_instant v) ls"
      using h by (auto simp: history_restore_request_def dest!: changed_memo_locks)
    then show ?thesis using restore_lock_get [OF _ ok] prune_ok prune_get [of ls "mo_instant v" i l]
      by (auto simp: Op_History_Restore lock_origin_def)
  next
    case (Op_Set_Perms j e ms gs)
    then have "ms_locks s' = prune_expired (mo_instant v) (ms_locks s)"
      using h by (auto simp: set_perms_request_def dest!: changed_memo_locks)
    then show ?thesis using prune_ok [OF ok] prune_get [OF ok] by (simp add: Op_Set_Perms lock_origin_def)
  next
    case (Op_Acquire_Lock j)
    then obtain m ls where m: "get_memo (ms_db s) a j = Inr m" "sd_can_edit m"
      and t: "take_lock (mo_instant v) a j (sd_revision m) (ms_locks s) = Inr ls" and s': "ms_locks s' = ls"
      using h by (auto simp: acquire_request_def)
    from m obtain r where r: "memo_at s j = Some r" "mr_deleted r = None" "mr_revision r = sd_revision m"
      by (auto simp: get_memo_def visible_Inr detail_def Let_def memo_at_Some can_edit_def)
    from t have "ls = hm_insert j \<lparr>li_key = lock_key a, li_name = ac_name a, li_last = mo_instant v, li_revision = sd_revision m\<rparr>
        (prune_expired (mo_instant v) (ms_locks s))"
      by (auto simp: take_lock_def Let_def split: option.splits if_splits)
    then show ?thesis using r prune_ok [OF ok] prune_get [OF ok]
      by (auto simp: s' Op_Acquire_Lock lock_origin_def hm.get_insert hm.ok_insert)
  next
    case (Op_Trash j)
    then show ?thesis using h ok by (auto simp: trash_request_def lock_origin_def hm.get_remove hm.ok_remove split: if_splits)
  next
    case (Op_List q)
    then show ?thesis using h prune_ok [OF ok] prune_get [OF ok]
      by (cases "list_memos (mo_sql v) (ms_db s) a q") (auto simp: list_request_def inject_lock_summaries_def lock_origin_def Let_def)
  next
    case (Op_Get j)
    then show ?thesis using h prune_ok [OF ok] prune_get [OF ok]
      by (auto simp: get_request_def finish_detail_def lock_holder_def lock_origin_def Let_def)
  qed (use h ok in \<open>auto simp: create_request_def restore_request_def delete_request_def folder_request_def quiet_request_def
     comment_add_request_def comment_delete_request_def perm_group_request_def lock_origin_def\<close>)
  then show "hm_ok (ms_locks s')" and "hm_get (ms_locks s') i = Some l \<Longrightarrow> lock_origin s op i l" by auto
qed

lemma allowed_lock:
  assumes "allowed_change v a op s r x" and "mr_deleted r = None" and "op \<noteq> Op_Trash (mr_id r)"
  shows "\<exists>r'. x = Some r' \<and> mr_deleted r' = None \<and> mr_revision r \<le> mr_revision r'"
  using assms by (auto simp: allowed_change_def written_row_def split: memo_op.splits sum.splits)

lemma service_ok_step:
  assumes "service_ok s" and h: "handle_memo v a op s = Inr (rep, ts, s')"
  shows "service_ok s'"
proof -
  have ok: "hm_ok (ms_locks s)" and m: "memo_ok (ms_db s)" using assms(1) by (simp_all add: service_ok_def)
  have "lock_fits s' i (li_revision l)" if l: "hm_get (ms_locks s') i = Some l" for i l
  proof -
    from locks_step(2) [OF ok h l] have o: "lock_origin s op i l" .
    have "lock_fits s i (li_revision l) \<and> op \<noteq> Op_Trash i"
    proof (cases "op = Op_Acquire_Lock i \<and> (case memo_at s i of Some r \<Rightarrow> mr_deleted r = None \<and> mr_revision r = li_revision l | None \<Rightarrow> False)")
      case True
      then show ?thesis by (simp add: lock_fits_def split: option.splits)
    next
      case False
      with o obtain l0 where l0: "hm_get (ms_locks s) i = Some l0" "li_revision l0 = li_revision l" "op \<noteq> Op_Trash i"
        unfolding lock_origin_def by auto
      have "lock_fits s i (li_revision l0)" using assms(1) l0(1) by (simp add: service_ok_def split: option.splits)
      then show ?thesis using l0 by simp
    qed
    then obtain r where r: "memo_at s i = Some r" "mr_deleted r = None" "li_revision l \<le> mr_revision r" "op \<noteq> Op_Trash i"
      by (auto simp: lock_fits_def split: option.splits)
    have i: "mr_id r = i" using r(1) memo_of_Inr by (auto simp: memo_at_Some)
    have step: "memo_step v a op s = (Inr rep, ts, s')" using h by (simp add: memo_step_def)
    show ?thesis
    proof (cases "memo_at s' i = Some r")
      case True
      then show ?thesis using r by (simp add: lock_fits_def)
    next
      case False
      from allowed_lock [OF allowed_changes [OF step r(1) False] r(2)] r(4) i
      obtain r' where "memo_at s' i = Some r'" "mr_deleted r' = None" "mr_revision r \<le> mr_revision r'" by auto
      then show ?thesis using r(3) by (simp add: lock_fits_def)
    qed
  qed
  then show ?thesis using locks_step(1) [OF ok h] memo_ok_step [OF m h] by (simp add: service_ok_def split: option.split)
qed

lemma failed_locks_cases:
  obtains "ms_locks (locks_after_failure v a op s) = ms_locks s"
    | "ms_locks (locks_after_failure v a op s) = prune_expired (mo_instant v) (ms_locks s)"
    | j where "lock_for_update (mo_instant v) (lock_key a) j (ms_locks s) = Inr (ms_locks (locks_after_failure v a op s))"
proof (cases op)
  case (Op_Update j base t b)
  then show ?thesis using that
    by (cases "lock_for_update (mo_instant v) (lock_key a) j (ms_locks s)") (simp_all add: locks_after_failure_def)
next
  case (Op_Acquire_Lock j)
  show ?thesis
  proof (cases "ms_locks (locks_after_failure v a op s) = ms_locks s")
    case False
    then have "ms_locks (locks_after_failure v a op s) = prune_expired (mo_instant v) (ms_locks s)"
      by (auto simp: locks_after_failure_def Op_Acquire_Lock split: sum.splits if_splits)
    then show ?thesis by (rule that(2))
  qed (rule that(1))
qed (use that in \<open>simp_all add: locks_after_failure_def\<close>)

definition fewer_locks :: "locks \<Rightarrow> locks \<Rightarrow> bool" where
  "fewer_locks ls ls' \<longleftrightarrow> hm_ok ls'
     \<and> (\<forall>i l. hm_get ls' i = Some l \<longrightarrow> (\<exists>l0. hm_get ls i = Some l0 \<and> li_revision l0 = li_revision l))"

lemma failed_locks:
  assumes "hm_ok (ms_locks s)"
  shows "fewer_locks (ms_locks s) (ms_locks (locks_after_failure v a op s))"
proof (cases rule: failed_locks_cases [of v a op s])
  case 1
  then show ?thesis using assms by (simp add: fewer_locks_def)
next
  case 2
  then show ?thesis using prune_ok [OF assms] prune_get [OF assms] by (simp add: fewer_locks_def)
next
  case (3 j)
  from update_lock_get [OF 3 assms] show ?thesis by (simp add: fewer_locks_def)
qed

lemma service_ok_memo_step:
  assumes "service_ok s" and "memo_step v a op s = (res, ts, s')"
  shows "service_ok s'"
proof (cases "handle_memo v a op s")
  case (Inl e)
  then have s': "s' = locks_after_failure v a op s" using assms(2) by (simp add: memo_step_def)
  have ok: "hm_ok (ms_locks s)" using assms(1) by (simp add: service_ok_def)
  show ?thesis unfolding s'
    by (rule service_ok_weaken [OF assms(1)]) (use assms(1) failed_locks [OF ok] in \<open>simp_all add: service_ok_def fewer_locks_def\<close>)
next
  case (Inr x)
  then show ?thesis using assms service_ok_step by (cases x) (auto simp: memo_step_def)
qed

lemma task_locks:
  assumes "hm_ok (ms_locks s)" and "run_task t c targets k s = (out, s')"
  shows "ms_db s' = ms_db s \<and> fewer_locks (ms_locks s) (ms_locks s')"
  using assms prune_ok [OF assms(1)] prune_get [OF assms(1)]
  by (auto simp: run_task_def broadcast_changed_def lock_holder_def fewer_locks_def Let_def split: memo_task.splits option.splits if_splits)

lemma service_ok_fewer:
  assumes "service_ok s" and "ms_db s' = ms_db s" and "fewer_locks (ms_locks s) (ms_locks s')"
  shows "service_ok s'"
  by (rule service_ok_weaken [OF assms(1)]) (use assms in \<open>simp_all add: service_ok_def fewer_locks_def\<close>)

lemma fewer_locks_refl: "hm_ok ls \<Longrightarrow> fewer_locks ls ls"
  by (simp add: fewer_locks_def)

lemma unlocked_get:
  "hm_get (fold (\<lambda>(i, _). hm_remove i) gone ls) i = Some l \<Longrightarrow> hm_get ls i = Some l"
proof (induction gone arbitrary: ls)
  case (Cons x gone)
  obtain j n where x: "x = (j, n)" by (cases x)
  have "hm_get (hm_remove j ls) i = Some l" using Cons.IH Cons.prems by (simp add: x)
  then show ?case by (simp add: hm.get_remove split: if_splits)
qed simp

lemma unlocked_ok: "hm_ok ls \<Longrightarrow> hm_ok (fold (\<lambda>(i, _). hm_remove i) gone ls)"
  by (induction gone arbitrary: ls) (simp_all add: hm.ok_remove case_prod_beta)

lemma unlocked_fewer: "hm_ok ls \<Longrightarrow> fewer_locks ls (fold (\<lambda>(i, _). hm_remove i) gone ls)"
  by (simp add: fewer_locks_def unlocked_ok) (blast dest: unlocked_get)

lemma snapshot_closed_ok:
  "memo_ok db \<Longrightarrow> memo_ok (snapshot_closed now gone db) \<and> db_memos (snapshot_closed now gone db) = db_memos db"
proof (induction gone arbitrary: db)
  case (Cons x gone)
  show ?case
  proof (cases "snapshot_if_revision_changed now (fst x) (snd x) db")
    case (Inl e)
    then show ?thesis using Cons by (simp add: snapshot_closed_def case_prod_beta)
  next
    case (Inr db')
    then have "memo_ok db'" "db_memos db' = db_memos db"
      using save_ok(2) [OF Cons.prems] by (auto simp: snapshot_if_revision_changed_def split: if_splits)
    then show ?thesis using Inr Cons.IH [of db'] by (simp add: snapshot_closed_def case_prod_beta)
  qed
qed (simp add: snapshot_closed_def)

lemma drop_locks_ok:
  assumes "service_ok s" and "drop_locks P now s = (ts, s')"
  shows "service_ok s'"
proof -
  have ok: "memo_ok (ms_db s)" "hm_ok (ms_locks s)" using assms(1) by (simp_all add: service_ok_def)
  obtain gone where s': "ms_db s' = snapshot_closed now gone (ms_db s)" "ms_locks s' = fold (\<lambda>(i, _). hm_remove i) gone (ms_locks s)"
    using assms(2) by (auto simp: drop_locks_def Let_def)
  have f: "fewer_locks (ms_locks s) (ms_locks s')" unfolding s' by (rule unlocked_fewer [OF ok(2)])
  show ?thesis
    by (rule service_ok_weaken [OF assms(1)])
      (use f snapshot_closed_ok [OF ok(1)] in \<open>simp_all add: s' fewer_locks_def\<close>)
qed

text \<open>The purge removes only what is in the trash, where no lock is.\<close>

lemma purge_keeps: "i \<notin> set ids \<Longrightarrow> memo_of (fold (purge_memo now) ids db) i = memo_of db i"
proof (induction ids arbitrary: db)
  case (Cons j ids)
  have "memo_of (purge_memo now j db) i = memo_of db i"
    using Cons.prems memo_of_filter [of j db i] by (simp add: purge_memo_def memo_of_def)
  then show ?case using Cons by simp
qed simp

lemma purge_expired_keeps:
  assumes "memo_ok db" and "memo_of db i = Inr r" and "mr_deleted r = None"
  shows "memo_of (snd (purge_expired now db)) i = Inr r"
proof -
  define ids where "ids = map mr_id (filter (\<lambda>r. case mr_deleted r of Some t \<Rightarrow> t < now - int (lm_trash_days (limits_of db)) * DAY_MS | None \<Rightarrow> False) (db_memos db))"
  have d: "distinct (map mr_id (db_memos db))" using assms(1) by (simp add: memo_ok_def)
  have r: "r \<in> set (db_memos db)" "mr_id r = i" using assms(2) by (auto simp: memo_of_def find_Some_iff split: option.splits)
  have "i \<notin> set ids"
  proof
    assume "i \<in> set ids"
    then obtain x where "x \<in> set (db_memos db)" "mr_id x = i" "mr_deleted x \<noteq> None"
      by (auto simp: ids_def split: option.splits)
    moreover from this r d have "x = r" by (auto simp: distinct_map inj_on_def)
    ultimately show False using assms(3) by simp
  qed
  then have "memo_of (fold (purge_memo now) ids db) i = Inr r" using assms(2) by (simp add: purge_keeps)
  then show ?thesis by (simp add: purge_expired_def Let_def ids_def memo_of_def)
qed

lemma maintain_ok:
  assumes "service_ok s"
  shows "service_ok (maintain now t e s)"
proof (cases "maintain now t e s = s")
  case False
  then have s': "ms_db (maintain now t e s) = snd (purge_expired now (ms_db s))" "ms_locks (maintain now t e s) = ms_locks s"
    by (auto simp: maintain_def split: if_splits)
  have ok: "memo_ok (ms_db s)" using assms by (simp add: service_ok_def)
  have "lock_fits (maintain now t e s) i (li_revision l)" if l: "hm_get (ms_locks s) i = Some l" for i l
  proof -
    have "lock_fits s i (li_revision l)" using assms l by (simp add: service_ok_def split: option.splits)
    then obtain r where r: "memo_of (ms_db s) i = Inr r" "mr_deleted r = None" "li_revision l \<le> mr_revision r"
      by (auto simp: lock_fits_def memo_at_Some split: option.splits)
    then have "memo_at (maintain now t e s) i = Some r" using purge_expired_keeps [OF ok] by (simp add: memo_at_Some s')
    then show ?thesis using r by (simp add: lock_fits_def)
  qed
  then show ?thesis using assms purge_expired_ok [OF ok] by (simp add: service_ok_def s' split: option.split)
qed (use assms in simp)

text \<open>The histories of a service: requests, the tasks they left, and the periodic work, in any order.\<close>

inductive memo_reach :: "memo_service \<Rightarrow> bool" where
  start: "memo_reach (memo_service_new empty_memo_db [] empty_sheet_db)"
| opened: "memo_ok db \<Longrightarrow> memo_reach (memo_service_new db es sh)"
| request: "memo_reach s \<Longrightarrow> memo_step v a op s = (res, ts, s') \<Longrightarrow> memo_reach s'"
| task: "memo_reach s \<Longrightarrow> run_task t c targets k s = (out, s') \<Longrightarrow> memo_reach s'"
| link_lost: "memo_reach s \<Longrightarrow> release_locks_for_ip now c ip s = (ts, s') \<Longrightarrow> memo_reach s'"
| locks_swept: "memo_reach s \<Longrightarrow> sweep_expired_locks now t s = (ts, s') \<Longrightarrow> memo_reach s'"
| maintained: "memo_reach s \<Longrightarrow> memo_reach (maintain now t db_exists s)"
| groups_watched: "memo_reach s \<Longrightarrow> watch_groups hash cfg db_exists s = (ts, s') \<Longrightarrow> memo_reach s'"
| presence_swept: "memo_reach s \<Longrightarrow> sweep_presence t s = (ts, s') \<Longrightarrow> memo_reach s'"

lemma new_service_ok: "memo_ok db \<Longrightarrow> service_ok (memo_service_new db es sh)"
  by (simp add: service_ok_def memo_service_new_def hm.ok_empty hm.get_empty)

lemma reach_ok: "memo_reach s \<Longrightarrow> service_ok s"
proof (induction rule: memo_reach.induct)
  case start
  show ?case by (rule new_service_ok [OF empty_ok])
next
  case (opened db es sh)
  then show ?case by (rule new_service_ok)
next
  case (request s v a op res ts s')
  show ?case by (rule service_ok_memo_step [OF request.IH request.hyps(2)])
next
  case (task s t c targets k out s')
  from task.IH have "hm_ok (ms_locks s)" by (simp add: service_ok_def)
  from task_locks [OF this task.hyps(2)] show ?case using service_ok_fewer [OF task.IH] by blast
next
  case (link_lost s now c ip ts s')
  then show ?case by (auto simp: release_locks_for_ip_def intro: drop_locks_ok split: option.splits)
next
  case (locks_swept s now t ts s')
  then show ?case by (auto simp: sweep_expired_locks_def intro: drop_locks_ok)
next
  case (maintained s now t e)
  show ?case by (rule maintain_ok [OF maintained.IH])
next
  case (groups_watched s hash cfg e ts s')
  show ?case by (rule service_ok_fewer [OF groups_watched.IH]) (use groups_watched in \<open>auto simp: watch_groups_def Let_def service_ok_def fewer_locks_refl\<close>)
next
  case (presence_swept s t ts s')
  show ?case by (rule service_ok_fewer [OF presence_swept.IH])
    (use presence_swept in \<open>auto simp: sweep_presence_def Let_def service_ok_def fewer_locks_refl split: prod.splits\<close>)
qed

lemma reach_lock:
  assumes "memo_reach s" and "hm_get (ms_locks s) i = Some l"
  shows "\<exists>r. memo_at s i = Some r \<and> mr_deleted r = None \<and> li_revision l \<le> mr_revision r"
proof -
  have "\<forall>i. case hm_get (ms_locks s) i of Some l \<Rightarrow> lock_fits s i (li_revision l) | None \<Rightarrow> True"
    using reach_ok [OF assms(1)] by (simp add: service_ok_def)
  from spec [OF this, of i] assms(2) have "lock_fits s i (li_revision l)" by simp
  then show ?thesis by (simp add: lock_fits_def split: option.splits)
qed


section \<open>Witnesses\<close>

definition quiet_env :: "sql_text \<Rightarrow> memo_env" where
  "quiet_env q = \<lparr>mo_now = 5, mo_instant = 0, mo_new_id = ''n'', mo_sql = q, mo_config = None\<rparr>"

definition one_memo_service :: memo_service where
  "one_memo_service = memo_service_new one_memo_db [] empty_sheet_db"



end
