(* ===== verification/Cache_Laws.thy ===== *)
theory Cache_Laws
  imports Memo_Cache Service_Laws
begin

text \<open>
  The copy of a member follows the host: a world of the service, the tasks and messages under way to one member, and its
  cache. When nothing is under way, the cache shows what the host would show; what it lacks was given up for space.
\<close>

section \<open>The tables of the cache\<close>

lemma find_put_row: "find (\<lambda>y. key y = k) (put_row key x xs) = (if key x = k then Some x else find (\<lambda>y. key y = k) xs)"
proof (cases "key x \<in> key ` set xs")
  case True
  have other: "key x \<noteq> k \<Longrightarrow> find (\<lambda>y. key y = k) (map (\<lambda>y. if key y = key x then x else y) ys) = find (\<lambda>y. key y = k) ys" for ys
    by (induction ys) simp_all
  have same: "key x \<in> key ` set ys \<Longrightarrow> find (\<lambda>y. key y = key x) (map (\<lambda>y. if key y = key x then x else y) ys) = Some x" for ys
    by (induction ys) auto
  show ?thesis using True other same [OF True] by (cases "key x = k") (simp_all add: put_row_def)
next
  case False
  then have "find (\<lambda>y. key y = key x) xs = None" unfolding find_None_iff by (metis imageI)
  then show ?thesis using False by (cases "key x = k") (simp_all add: put_row_def find_app split: option.split)
qed

lemma enforced_filter: "\<exists>X. snd (enforce_limit_with cap ms) = filter (\<lambda>m. sd_id m \<notin> X) ms"
proof (induction cap ms rule: enforce_limit_with.induct)
  case (1 cap ms)
  show ?case
  proof (cases "cached_bytes ms \<le> cap \<or> length ms \<le> 1")
    case True
    then have "snd (enforce_limit_with cap ms) = filter (\<lambda>m. sd_id m \<notin> {}) ms" by (simp add: enforce_limit_with.simps)
    then show ?thesis by blast
  next
    case False
    with 1 obtain X where X: "snd (enforce_limit_with cap (drop_oldest ms)) = filter (\<lambda>m. sd_id m \<notin> X) (drop_oldest ms)" by blast
    from False have e: "snd (enforce_limit_with cap ms) = filter (\<lambda>m. sd_id m \<notin> X) (drop_oldest ms)"
      by (subst enforce_limit_with.simps) (simp add: X case_prod_beta Let_def)
    obtain Y where "drop_oldest ms = filter (\<lambda>m. sd_id m \<notin> Y) ms"
    proof (cases "sort_key sd_updated ms")
      case Nil
      then have "drop_oldest ms = filter (\<lambda>m. sd_id m \<notin> {}) ms" by (simp add: drop_oldest_def)
      then show ?thesis by (rule that)
    next
      case (Cons m k)
      then have "drop_oldest ms = filter (\<lambda>x. sd_id x \<notin> {sd_id m}) ms" by (simp add: drop_oldest_def)
      then show ?thesis by (rule that)
    qed
    then have "snd (enforce_limit_with cap ms) = filter (\<lambda>m. sd_id m \<notin> X \<union> Y) ms" using e by (simp add: conj_commute)
    then show ?thesis by blast
  qed
qed

lemma find_filter_ids: "find (\<lambda>m. key m = i) (filter (\<lambda>m. key m \<notin> X) ms) = (if i \<in> X then None else find (\<lambda>m. key m = i) ms)"
  by (induction ms) auto

text \<open>An entry survives the limit as it is, or not at all.\<close>

lemma enforced_memo: "cache_memo (enforce_limit c) i = cache_memo c i \<or> cache_memo (enforce_limit c) i = None"
proof -
  obtain X where "snd (enforce_limit_with CACHE_MAX_BYTES (ca_memos c)) = filter (\<lambda>m. sd_id m \<notin> X) (ca_memos c)"
    using enforced_filter by blast
  then show ?thesis by (cases "i \<in> X") (simp_all add: cache_memo_def enforce_limit_def find_filter_ids)
qed

lemma upsert_memo:
  "cache_memo (cache_upsert m c) i = (if sd_id m = i then Some (cached m) else cache_memo c i) \<or> cache_memo (cache_upsert m c) i = None"
proof -
  have "cache_memo (c\<lparr>ca_memos := put_row sd_id (cached m) (ca_memos c)\<rparr>) i = (if sd_id m = i then Some (cached m) else cache_memo c i)"
    by (simp add: cache_memo_def find_put_row) (simp add: cached_def)
  then show ?thesis using enforced_memo [of "c\<lparr>ca_memos := put_row sd_id (cached m) (ca_memos c)\<rparr>" i]
    by (simp only: cache_upsert_def)
qed

lemma remove_memo: "cache_memo (cache_remove j c) i = (if i = j then None else cache_memo c i)"
  using find_filter_key [of sd_id i j "ca_memos c"] by (simp add: cache_memo_def cache_remove_def)

lemma lock_memo: "cache_memo (cache_set_lock j h c) i = map_option (\<lambda>m. if i = j then m\<lparr>sd_locked_by := h\<rparr> else m) (cache_memo c i)"
proof -
  have "find (\<lambda>m. sd_id m = i) (map (\<lambda>m. if sd_id m = j then m\<lparr>sd_locked_by := h\<rparr> else m) ms)
      = map_option (\<lambda>m. if i = j then m\<lparr>sd_locked_by := h\<rparr> else m) (find (\<lambda>m. sd_id m = i) ms)" for ms
    by (induction ms) auto
  then show ?thesis by (simp add: cache_memo_def cache_set_lock_def)
qed

section \<open>What a member may see\<close>

text \<open>A detail without what the cache does not follow: who edits the memo, its folder, and what only its managers get.\<close>

definition shown :: "memo_detail \<Rightarrow> memo_detail" where
  "shown m = m\<lparr>sd_locked_by := None, sd_folder := None, sd_deleted := None, sd_everyone := None, sd_members := [], sd_groups := []\<rparr>"

definition seen_by :: "actor \<Rightarrow> memo_db \<Rightarrow> string \<Rightarrow> memo_detail option" where
  "seen_by a db i = map_option shown (detail_if_visible db a i)"

lemma shown_simps [simp]:
  "shown (cached m) = shown m" "shown (m\<lparr>sd_locked_by := h\<rparr>) = shown m" "shown (apply_group_names cfg m) = shown m"
  by (simp_all add: shown_def cached_def apply_group_names_def)

definition memo_facts :: "memo_db \<Rightarrow> string \<Rightarrow> memo_row option \<times> perm_row list \<times> perm_row list \<times> nat" where
  "memo_facts db i =
     (case memo_of db i of Inr r \<Rightarrow> Some (r\<lparr>mr_folder := None\<rparr>) | Inl _ \<Rightarrow> None,
      filter (\<lambda>p. pr_memo p = i) (db_perms db), filter (\<lambda>p. pr_memo p = i) (db_group_perms db), comment_count db i)"

lemma memo_of_Inl: "memo_of db i = Inl e \<Longrightarrow> e = Memo_Not_Found"
  by (simp add: memo_of_def split: option.splits)

lemma seen_facts:
  assumes "memo_facts db' i = memo_facts db i"
  shows "seen_by a db' i = seen_by a db i"
proof -
  have ctx: "perm_context db' i = perm_context db i"
    using assms by (simp add: memo_facts_def perm_context_def perms_of_def group_perms_of_def)
  show ?thesis
  proof (cases "memo_of db i")
    case (Inl e)
    then have "memo_of db' i = Inl Memo_Not_Found" using assms memo_of_Inl by (auto simp: memo_facts_def split: sum.splits)
    then show ?thesis using Inl by (simp add: seen_by_def detail_if_visible_def)
  next
    case (Inr r)
    then obtain r' where r': "memo_of db' i = Inr r'" "r'\<lparr>mr_folder := None\<rparr> = r\<lparr>mr_folder := None\<rparr>"
      using assms by (auto simp: memo_facts_def split: sum.splits)
    from r'(2) have f: "mr_id r' = mr_id r" "mr_title r' = mr_title r" "mr_body r' = mr_body r" "mr_revision r' = mr_revision r"
      "mr_owner_id r' = mr_owner_id r" "mr_owner_name r' = mr_owner_name r" "mr_created r' = mr_created r"
      "mr_updated r' = mr_updated r" "mr_updated_by r' = mr_updated_by r" "mr_everyone r' = mr_everyone r" "mr_deleted r' = mr_deleted r"
      by (auto dest: arg_cong [of _ _ mr_id] arg_cong [of _ _ mr_title] arg_cong [of _ _ mr_body] arg_cong [of _ _ mr_revision]
        arg_cong [of _ _ mr_owner_id] arg_cong [of _ _ mr_owner_name] arg_cong [of _ _ mr_created] arg_cong [of _ _ mr_updated]
        arg_cong [of _ _ mr_updated_by] arg_cong [of _ _ mr_everyone] arg_cong [of _ _ mr_deleted])
    have "mr_id r = i" using Inr memo_of_Inr by blast
    moreover have "comment_count db' i = comment_count db i" using assms by (simp add: memo_facts_def)
    ultimately have "shown (detail db' r' a (perm_context db i)) = shown (detail db r a (perm_context db i))"
      using visible_cong [OF f(10,5,11)] f by (simp add: shown_def detail_def Let_def)
    then show ?thesis using visible_cong(1) [OF f(10,5,11)] f
      by (simp add: seen_by_def detail_if_visible_def Inr r'(1) ctx)
  qed
qed

lemma trashed_unseen: "(case memo_of db i of Inr r \<Rightarrow> mr_deleted r \<noteq> None | Inl _ \<Rightarrow> True) \<Longrightarrow> seen_by a db i = None"
  by (cases "memo_of db i") (simp_all add: seen_by_def detail_if_visible_def)

lemma same_facts:
  assumes "db_memos db' = db_memos db" "db_perms db' = db_perms db" "db_group_perms db' = db_group_perms db" "db_comments db' = db_comments db"
  shows "memo_facts db' i = memo_facts db i"
  using assms by (simp add: memo_facts_def memo_of_def comment_count_def)

section \<open>Every change is announced\<close>

definition announced :: "actor \<Rightarrow> memo_task list \<Rightarrow> memo_db \<Rightarrow> string \<Rightarrow> bool" where
  "announced me ts db i \<longleftrightarrow> Changed_Due i \<in> set ts \<or> Send_All (Memo_Removed i) \<in> set ts \<and> seen_by me db i = None"

lemma changed_memo_tasks: "changed_memo v i m db s = Inr (rep, ts, s') \<Longrightarrow> ts = [Changed_Due i]"
  by (auto simp: changed_memo_def Let_def split: prod.splits)

lemma replace_perms_other: "i \<noteq> j \<Longrightarrow> filter (\<lambda>p. pr_memo p = i) (replace_perms j new ps) = filter (\<lambda>p. pr_memo p = i) ps"
proof -
  assume ij: "i \<noteq> j"
  have put: "filter (\<lambda>p. pr_memo p = i) (put_perm p qs) = filter (\<lambda>p. pr_memo p = i) qs" if "pr_memo p = j" for p qs
    using ij that by (auto simp: put_perm_def intro!: filter_cong)
  have "filter (\<lambda>p. pr_memo p = i) (fold (\<lambda>(who, n, l). if who = [] then id
      else put_perm \<lparr>pr_memo = j, pr_who = who, pr_name = n, pr_level = l\<rparr>) new qs) = filter (\<lambda>p. pr_memo p = i) qs" for qs
    by (induction new arbitrary: qs) (auto simp: put)
  moreover have "filter (\<lambda>p. pr_memo p = i) (filter (\<lambda>p. pr_memo p \<noteq> j) ps) = filter (\<lambda>p. pr_memo p = i) ps"
    using ij by (auto intro!: filter_cong)
  ultimately show ?thesis by (simp add: replace_perms_def)
qed

lemma update_facts: "(\<And>r. mr_id (f r) = mr_id r) \<Longrightarrow> i \<noteq> j \<Longrightarrow> memo_facts (update_memo j f db) i = memo_facts db i"
  by (simp add: memo_facts_def memo_of_update comment_count_def split: sum.split)

lemma write_facts: "i \<noteq> j \<Longrightarrow> memo_facts (write_text now a j t b db) i = memo_facts db i"
  unfolding write_text_def by (rule update_facts) simp_all

lemma filter_other: "i \<noteq> j \<Longrightarrow> filter (\<lambda>x. f x = i) (filter (\<lambda>x. f x \<noteq> j) xs) = filter (\<lambda>x. f x = i) xs"
  by (induction xs) auto

lemma purge_facts:
  assumes "i \<noteq> j"
  shows "memo_facts (purge_memo now j db) i = memo_facts db i"
proof -
  have "memo_of (purge_memo now j db) i = memo_of db i"
    using assms memo_of_filter [of j db i] by (simp add: purge_memo_def memo_of_def)
  then show ?thesis
    by (simp add: memo_facts_def comment_count_def del: filter_filter)
      (simp add: purge_memo_def filter_other [OF assms] del: filter_filter)
qed

lemma unlock_facts: "unlock v j l s = Inr (rep, ts, s') \<Longrightarrow> memo_facts (ms_db s') i = memo_facts (ms_db s) i"
  by (auto simp: unlock_def snapshot_after_unlock_def snapshot_if_revision_changed_def intro!: same_facts split: sum.splits)

lemma change_announced:
  assumes h: "handle_memo v a op s = Inr (rep, ts, s')"
  shows "memo_facts (ms_db s') i = memo_facts (ms_db s) i \<or> announced me ts (ms_db s') i"
proof (cases op)
  case (Op_Create t b f)
  with h obtain d db' where c: "create_memo (mo_now v) (mo_new_id v) a t b f (ms_db s) = Inr (d, db')" and s': "ms_db s' = db'"
    and ts: "ts = [Changed_Due (sd_id d)]" by (auto simp: create_request_def)
  have d: "sd_id d = mo_new_id v" using c by (auto simp: create_memo_def with_detail_def get_memo_def visible_Inr detail_def Let_def
      dest!: memo_of_Inr)
  from c show ?thesis
  proof (rule create_elim)
    assume "db' = ms_db s\<lparr>db_memos := db_memos (ms_db s) @ [new_memo (mo_now v) (mo_new_id v) a t b f]\<rparr>"
    then have "i \<noteq> mo_new_id v \<Longrightarrow> memo_facts db' i = memo_facts (ms_db s) i"
      by (auto simp: memo_facts_def memo_of_snoc comment_count_def new_memo_def split: sum.split dest: memo_of_Inl)
    then show ?thesis using s' ts d by (auto simp: announced_def)
  qed
next
  case (Op_Update j base t b)
  with h obtain d db' ls where u: "update_text (mo_now v) a j base t b (ms_db s) = Inr (d, db')"
    and c: "changed_memo v j d db' (s\<lparr>ms_locks := ls\<rparr>) = Inr (rep, ts, s')" by (auto simp: update_request_def)
  from u show ?thesis
  proof (rule update_elim)
    fix r assume "db' = write_text (mo_now v) a j t b (maybe_auto_snapshot (mo_now v) r (ms_db s))"
    then have "i \<noteq> j \<Longrightarrow> memo_facts db' i = memo_facts (ms_db s) i" by (metis write_facts same_facts auto_frame(1,3,4,5) snapshot_frame(1,3,4,5))
    then show ?thesis using changed_memo_db [OF c] changed_memo_tasks [OF c] by (auto simp: announced_def)
  qed
next
  case (Op_History_Restore j hid)
  with h obtain d db' ls where u: "history_restore (mo_now v) a j hid (ms_db s) = Inr (d, db')"
    and c: "changed_memo v j d db' (s\<lparr>ms_locks := ls\<rparr>) = Inr (rep, ts, s')" by (auto simp: history_restore_request_def)
  from u show ?thesis
  proof (rule restore_elim)
    fix r x assume "db' = write_text (mo_now v) a j (ht_title x) (ht_body x) (snapshot_history (mo_now v) ''restore'' r (ms_db s))"
    then have "i \<noteq> j \<Longrightarrow> memo_facts db' i = memo_facts (ms_db s) i" by (metis write_facts same_facts auto_frame(1,3,4,5) snapshot_frame(1,3,4,5))
    then show ?thesis using changed_memo_db [OF c] changed_memo_tasks [OF c] by (auto simp: announced_def)
  qed
next
  case (Op_Set_Perms j e ms gs)
  with h obtain d db' where u: "set_perms a j e ms gs (ms_db s) = Inr (d, db')"
    and c: "changed_memo v j d db' s = Inr (rep, ts, s')" by (auto simp: set_perms_request_def)
  from u show ?thesis
  proof (rule perms_elim)
    assume m: "db_memos db' = db_memos (update_memo j (\<lambda>r. r\<lparr>mr_everyone := e\<rparr>) (ms_db s))"
      and p: "db_perms db' = replace_perms j ms (db_perms (ms_db s))"
        "db_group_perms db' = (case gs of None \<Rightarrow> db_group_perms (ms_db s) | Some gs \<Rightarrow> replace_perms j gs (db_group_perms (ms_db s)))"
        "db_comments db' = db_comments (ms_db s)"
    have "memo_facts db' i = memo_facts (ms_db s) i" if "i \<noteq> j"
      using that p same_memos [OF m] by (simp add: memo_facts_def memo_of_update comment_count_def replace_perms_other split: sum.split option.split)
    then show ?thesis using changed_memo_db [OF c] changed_memo_tasks [OF c] by (auto simp: announced_def)
  qed
next
  case (Op_Trash j)
  with h obtain x where s': "ms_db s' = update_memo j (\<lambda>r. if mr_deleted r = None then r\<lparr>mr_deleted := Some (mo_now v)\<rparr> else r) (ms_db s)"
    and ts: "ts = [Send_All (Memo_Removed j)]" and x: "memo_of (ms_db s) j = Inr x"
    by (auto simp: trash_request_def trash_memo_def managed_Inr)
  have "memo_facts (ms_db s') i = memo_facts (ms_db s) i" if "i \<noteq> j" unfolding s' using that by (rule update_facts [rotated]) simp
  moreover have "seen_by me (ms_db s') j = None"
    by (rule trashed_unseen) (simp add: s' memo_of_update x)
  ultimately show ?thesis using ts by (auto simp: announced_def)
next
  case (Op_Restore j)
  with h have s': "ms_db s' = update_memo j (\<lambda>r. r\<lparr>mr_deleted := None\<rparr>) (ms_db s)" and ts: "ts = [Changed_Due j]"
    by (auto simp: restore_request_def restore_memo_def)
  have "memo_facts (ms_db s') i = memo_facts (ms_db s) i" if "i \<noteq> j" unfolding s' using that by (rule update_facts [rotated]) simp
  then show ?thesis using ts by (auto simp: announced_def)
next
  case (Op_Delete_Forever j)
  with h have s': "ms_db s' = purge_memo (mo_now v) j (ms_db s)" and ts: "ts = [Send_All (Memo_Removed j)]"
    by (auto simp: delete_request_def delete_forever_def)
  have "memo_of (ms_db s') j = Inl Memo_Not_Found"
    using memo_of_filter [of j "ms_db s" j] by (simp add: s' purge_memo_def memo_of_def)
  then have "seen_by me (ms_db s') j = None" by (intro trashed_unseen) simp
  then show ?thesis using ts purge_facts [of i j] s' by (cases "i = j") (simp_all add: announced_def)
next
  case (Op_Folder_Delete f)
  with h have m: "ms_db s' = ms_db s\<lparr>db_memos := map (\<lambda>r. if mr_folder r = Some f then r\<lparr>mr_folder := None\<rparr> else r) (db_memos (ms_db s)),
      db_folders := filter (\<lambda>x. fo_id x \<noteq> f) (db_folders (ms_db s))\<rparr>"
    by (auto simp: folder_request_def folder_delete_def)
  have "memo_of (ms_db s') i = (case memo_of (ms_db s) i of Inr r \<Rightarrow> Inr (if mr_folder r = Some f then r\<lparr>mr_folder := None\<rparr> else r) | Inl e \<Rightarrow> Inl e)"
    using find_map_key [of mr_id "\<lambda>r. if mr_folder r = Some f then r\<lparr>mr_folder := None\<rparr> else r" i "db_memos (ms_db s)"]
    by (simp add: memo_of_def m split: option.splits)
  then show ?thesis by (simp add: memo_facts_def m comment_count_def split: sum.splits)
next
  case (Op_Comment_Add j b)
  with h have "ts = [Changed_Due j]" and "i \<noteq> j \<Longrightarrow> memo_facts (ms_db s') i = memo_facts (ms_db s) i"
    by (auto simp: comment_add_request_def comment_add_def Let_def memo_facts_def memo_of_def comment_count_def)
  then show ?thesis by (auto simp: announced_def)
next
  case (Op_Comment_Delete j c)
  with h have ts: "ts = [Changed_Due j]"
    and s': "ms_db s' = ms_db s\<lparr>db_comments := filter (\<lambda>x. \<not> (cm_id x = c \<and> cm_memo x = j)) (db_comments (ms_db s))\<rparr>"
    by (auto simp: comment_delete_request_def comment_delete_def split: option.splits)
  have "filter (\<lambda>x. cm_memo x = i) (filter (\<lambda>x. \<not> (cm_id x = c \<and> cm_memo x = j)) cs) = filter (\<lambda>x. cm_memo x = i) cs"
    if "i \<noteq> j" for cs :: "comment_row list"
    using that by (auto intro!: filter_cong)
  then have "i \<noteq> j \<Longrightarrow> memo_facts (ms_db s') i = memo_facts (ms_db s) i"
    by (simp add: s' memo_facts_def memo_of_def comment_count_def del: filter_filter)
  then show ?thesis using ts by (auto simp: announced_def)
next
  case (Op_Release_Lock j)
  then show ?thesis using h unlock_facts by (auto simp: release_request_def split: option.splits if_splits)
next
  case (Op_Force_Unlock j)
  then show ?thesis using h unlock_facts by (auto simp: force_unlock_request_def split: option.splits)
next
  case (Op_Save_Version j)
  then show ?thesis using h by (auto simp: quiet_request_def save_version_def intro!: same_facts split: if_splits)
next
  case (Op_List q)
  then show ?thesis using h by (cases "list_memos (mo_sql v) (ms_db s) a q") (auto simp: list_request_def inject_lock_summaries_def Let_def)
next
  case (Op_Schedule x)
  then show ?thesis using h handle_schedule_frame by simp
next
  case (Op_Sheet x)
  then show ?thesis using h handle_sheet_frame by simp
qed (use h in \<open>auto simp: get_request_def finish_detail_def lock_holder_def acquire_request_def folder_request_def
    folder_create_def folder_rename_def quiet_request_def set_limits_def perm_group_request_def Let_def intro!: same_facts
    split: if_splits option.splits\<close>)

section \<open>The world\<close>

text \<open>
  What runs besides the requests of members and of the host: links that are lost, and the periodic work. Which connection asks
  and which configuration a handler reads besides is left open; only the receiver of the messages is fixed.
\<close>

inductive background :: "config \<Rightarrow> memo_service \<Rightarrow> memo_task list \<Rightarrow> memo_service \<Rightarrow> bool" for cfg where
  lost: "release_locks_for_ip now c ip s = (ts, s') \<Longrightarrow> background cfg s ts s'"
| swept: "sweep_expired_locks now t s = (ts, s') \<Longrightarrow> background cfg s ts s'"
| maintained: "background cfg s [] (maintain now t db_exists s)"
| watched: "watch_groups hash cfg db_exists s = (ts, s') \<Longrightarrow> background cfg s ts s'"
| presence: "sweep_presence t s = (ts, s') \<Longrightarrow> background cfg s ts s'"

text \<open>A message to all goes out at once, in the order of the code; a changed memo or folder is a task that is run later.\<close>

fun due :: "memo_task \<Rightarrow> bool" where
  "due (Send_All e) = False"
| "due k = True"

definition sent :: "config \<Rightarrow> ipv4 \<Rightarrow> memo_task list \<Rightarrow> memo_service \<Rightarrow> memo_event list" where
  "sent cfg ip ts s = concat (map (\<lambda>k. case k of Send_All e \<Rightarrow> map snd (send_all (Some cfg) [ip] e s) | _ \<Rightarrow> []) ts)"

record cache_world =
  cw_host :: memo_service
  cw_tasks :: "memo_task list"
  cw_queue :: "memo_event list"
  cw_cache :: member_cache
  cw_evicted :: "string set"

text \<open>What the cache gives up for space when it stores a memo.\<close>

definition evicted_by :: "memo_event \<Rightarrow> cache_db \<Rightarrow> string set" where
  "evicted_by e c =
     (case e of Memo_Changed m \<Rightarrow> {i. (i = sd_id m \<or> cache_memo c i \<noteq> None) \<and> cache_memo (cache_upsert m c) i = None} | _ \<Rightarrow> {})"

definition agrees :: "actor \<Rightarrow> memo_db \<Rightarrow> cache_db \<Rightarrow> string set \<Rightarrow> string \<Rightarrow> bool" where
  "agrees me db c gone i \<longleftrightarrow>
     (case cache_memo c i of Some m \<Rightarrow> seen_by me db i = Some (shown m) | None \<Rightarrow> seen_by me db i = None \<or> i \<in> gone)"

inductive follows :: "config \<Rightarrow> ipv4 \<Rightarrow> actor \<Rightarrow> cache_world \<Rightarrow> bool" for cfg ip me where
  start: "memo_reach s \<Longrightarrow> receiver_for_ip cfg ip = Some me \<Longrightarrow> (\<And>i. agrees me (ms_db s) (mc_db k) {} i)
    \<Longrightarrow> follows cfg ip me \<lparr>cw_host = s, cw_tasks = [], cw_queue = [], cw_cache = k, cw_evicted = {}\<rparr>"
| request: "follows cfg ip me w \<Longrightarrow> memo_step v a op (cw_host w) = (res, ts, s')
    \<Longrightarrow> follows cfg ip me (w\<lparr>cw_host := s', cw_tasks := cw_tasks w @ filter due ts, cw_queue := cw_queue w @ sent cfg ip ts s'\<rparr>)"
| periodic: "follows cfg ip me w \<Longrightarrow> background cfg (cw_host w) ts s'
    \<Longrightarrow> follows cfg ip me (w\<lparr>cw_host := s', cw_tasks := cw_tasks w @ filter due ts, cw_queue := cw_queue w @ sent cfg ip ts s'\<rparr>)"
| run: "follows cfg ip me w \<Longrightarrow> k \<in> set (cw_tasks w) \<Longrightarrow> run_task t (Some cfg) [ip] k (cw_host w) = (out, s')
    \<Longrightarrow> follows cfg ip me (w\<lparr>cw_host := s', cw_tasks := remove1 k (cw_tasks w), cw_queue := cw_queue w @ map snd out\<rparr>)"
| receive: "follows cfg ip me w \<Longrightarrow> cw_queue w = e # q
    \<Longrightarrow> follows cfg ip me (w\<lparr>cw_queue := q, cw_cache := apply_event e (cw_cache w),
          cw_evicted := cw_evicted w \<union> evicted_by e (mc_db (cw_cache w))\<rparr>)"

section \<open>The invariant\<close>

text \<open>What a message says of a memo, and the last word on it that is under way.\<close>

fun about :: "string \<Rightarrow> memo_event \<Rightarrow> memo_detail option option" where
  "about i (Memo_Changed m) = (if sd_id m = i then Some (Some m) else None)"
| "about i (Memo_Removed j) = (if j = i then Some None else None)"
| "about i e = None"

definition news :: "string \<Rightarrow> memo_event list \<Rightarrow> memo_detail option list" where
  "news i q = List.map_filter (about i) q"

lemma news_simps [simp]:
  "news i [] = []" "news i (e # q) = (case about i e of None \<Rightarrow> news i q | Some x \<Rightarrow> x # news i q)"
  "news i (p @ q) = news i p @ news i q"
  by (simp_all add: news_def map_filter_simps split: option.split) (induction p; simp add: map_filter_simps split: option.split)

definition current :: "actor \<Rightarrow> memo_db \<Rightarrow> memo_event list \<Rightarrow> cache_db \<Rightarrow> string set \<Rightarrow> string \<Rightarrow> bool" where
  "current me db q c gone i \<longleftrightarrow>
     (if news i q = [] then agrees me db c gone i else seen_by me db i = map_option shown (last (news i q)))"

definition followed :: "actor \<Rightarrow> cache_world \<Rightarrow> bool" where
  "followed me w \<longleftrightarrow> (\<forall>i. Changed_Due i \<in> set (cw_tasks w)
     \<or> current me (ms_db (cw_host w)) (cw_queue w) (mc_db (cw_cache w)) (cw_evicted w) i)"

text \<open>Messages to all say nothing of what a memo holds, but they may tell its removal.\<close>

definition quiet :: "memo_task \<Rightarrow> bool" where
  "quiet k \<longleftrightarrow> (case k of Send_All (Memo_Changed _) \<Rightarrow> False | Send_All (Memo_Removed _) \<Rightarrow> False | _ \<Rightarrow> True)"

lemma event_for_about: "event_for c ip e = Some e' \<Longrightarrow> about i e' = about i e"
  by (auto simp: event_for_def bind_eq_Some_conv sheet_notice_for_def schedule_notice_for_def
      split: memo_event.splits schedule_notice.splits sheet_notice.splits if_splits)

lemma quiet_sent: "quiet k \<Longrightarrow> news i (sent cfg ip [k] s) = []"
proof (cases k)
  case (Send_All e)
  assume q: "quiet k"
  then have "about i e = None" by (cases e) (simp_all add: Send_All quiet_def)
  then show ?thesis using event_for_about [of "Some cfg" ip e _ i]
    by (auto simp: Send_All sent_def send_all_def map_filter_simps layout_notice_def
        split: memo_event.splits sheet_notice.splits sum.splits option.splits)
qed (simp_all add: sent_def)

lemma sent_Cons: "sent cfg ip (k # ts) s = sent cfg ip [k] s @ sent cfg ip ts s"
  by (simp add: sent_def)

lemma quiet_all: "\<forall>k \<in> set ts. quiet k \<Longrightarrow> news i (sent cfg ip ts s) = []"
proof (induction ts)
  case (Cons k ts)
  then show ?case using quiet_sent [of k i] by (subst sent_Cons) simp
qed (simp add: sent_def)

lemma removed_sent: "sent cfg ip [Send_All (Memo_Removed i)] s = [Memo_Removed i]"
  by (simp add: sent_def send_all_def event_for_def map_filter_simps)

lemma request_tasks':
  assumes "handle_memo v a op s = Inr (rep, ts, s')"
  shows "(\<forall>k \<in> set ts. quiet k) \<or> (\<exists>j. ts = [Send_All (Memo_Removed j)] \<and> (op = Op_Trash j \<or> op = Op_Delete_Forever j))"
proof (cases op)
  case (Op_Schedule x)
  then show ?thesis using assms by (auto simp: schedule_request_def Let_def quiet_def split: sum.splits option.splits)
next
  case (Op_Sheet x)
  then show ?thesis using assms by (auto simp: sheet_request_def Let_def quiet_def split: sum.splits)
next
  case (Op_List q)
  then show ?thesis using assms by (cases "list_memos (mo_sql v) (ms_db s) a q") (auto simp: list_request_def inject_lock_summaries_def Let_def)
next
  case (Op_Get j)
  then have "ts = []" using assms by (auto simp: get_request_def finish_detail_def lock_holder_def Let_def)
  then show ?thesis by simp
qed (use assms in \<open>auto simp: quiet_def create_request_def update_request_def acquire_request_def release_request_def
    force_unlock_request_def unlock_def trash_request_def restore_request_def delete_request_def set_perms_request_def folder_request_def
    quiet_request_def history_restore_request_def comment_add_request_def comment_delete_request_def perm_group_request_def Let_def
    dest!: changed_memo_tasks split: option.splits if_splits prod.splits\<close>)

lemma request_tasks: "handle_memo v a op s = Inr (rep, ts, s') \<Longrightarrow> (\<forall>k \<in> set ts. quiet k) \<or> (\<exists>j. ts = [Send_All (Memo_Removed j)])"
  using request_tasks' by blast

lemma trash_or_delete: "handle_memo v a op s = Inr (rep, [Send_All (Memo_Removed j)], s') \<Longrightarrow> op = Op_Trash j \<or> op = Op_Delete_Forever j"
  using request_tasks' [of v a op s rep "[Send_All (Memo_Removed j)]" s'] by (auto simp: quiet_def)

lemma removal_unseen:
  assumes h: "handle_memo v a op s = Inr (rep, ts, s')" and "Send_All (Memo_Removed j) \<in> set ts"
  shows "seen_by me (ms_db s') j = None"
proof -
  have "ts = [Send_All (Memo_Removed j)]" using request_tasks [OF h] assms(2) by (auto simp: quiet_def)
  then have "op = Op_Trash j \<or> op = Op_Delete_Forever j" using h trash_or_delete by blast
  then show ?thesis
  proof
    assume "op = Op_Trash j"
    with h obtain x where "memo_of (ms_db s) j = Inr x"
      and s': "ms_db s' = update_memo j (\<lambda>r. if mr_deleted r = None then r\<lparr>mr_deleted := Some (mo_now v)\<rparr> else r) (ms_db s)"
      by (auto simp: trash_request_def trash_memo_def managed_Inr)
    then show ?thesis by (intro trashed_unseen) (simp add: s' memo_of_update)
  next
    assume "op = Op_Delete_Forever j"
    with h have "ms_db s' = purge_memo (mo_now v) j (ms_db s)" by (auto simp: delete_request_def delete_forever_def)
    then show ?thesis using memo_of_filter [of j "ms_db s" j]
      by (intro trashed_unseen) (simp add: purge_memo_def memo_of_def)
  qed
qed

text \<open>A step of the host, for one memo: nothing the member may see changes, or the change is announced, or the removal sent.\<close>

definition tells :: "config \<Rightarrow> ipv4 \<Rightarrow> actor \<Rightarrow> memo_service \<Rightarrow> memo_task list \<Rightarrow> memo_service \<Rightarrow> string \<Rightarrow> bool" where
  "tells cfg ip me s ts s' i \<longleftrightarrow>
     news i (sent cfg ip ts s') = [] \<and> (seen_by me (ms_db s') i = seen_by me (ms_db s) i \<or> Changed_Due i \<in> set ts)
     \<or> news i (sent cfg ip ts s') = [None] \<and> seen_by me (ms_db s') i = None"

lemma request_tells:
  assumes "memo_step v a op s = (res, ts, s')"
  shows "tells cfg ip me s ts s' i"
proof (cases "handle_memo v a op s")
  case (Inl e)
  then show ?thesis using assms by (auto simp: memo_step_def tells_def sent_def)
next
  case (Inr x)
  then obtain rep where h: "handle_memo v a op s = Inr (rep, ts, s')" using assms by (cases x) (auto simp: memo_step_def)
  have c: "seen_by me (ms_db s') i = seen_by me (ms_db s) i \<or> announced me ts (ms_db s') i"
    using change_announced [OF h, of i me] seen_facts by blast
  from request_tasks [OF h] show ?thesis
  proof
    assume q: "\<forall>k \<in> set ts. quiet k"
    then have "Send_All (Memo_Removed i) \<notin> set ts" by (auto simp: quiet_def)
    then show ?thesis using c quiet_all [OF q] by (auto simp: tells_def announced_def)
  next
    assume "\<exists>j. ts = [Send_All (Memo_Removed j)]"
    then obtain j where ts: "ts = [Send_All (Memo_Removed j)]" by blast
    show ?thesis
    proof (cases "i = j")
      case True
      have "seen_by me (ms_db s') j = None"
        using h removal_unseen [OF h] ts by simp
      then show ?thesis using True by (simp add: tells_def ts removed_sent)
    next
      case False
      then show ?thesis using c by (simp add: tells_def ts removed_sent announced_def)
    qed
  qed
qed

lemma snapshot_closed_facts: "memo_facts (snapshot_closed now gone db) i = memo_facts db i"
proof (induction gone arbitrary: db)
  case (Cons x gone)
  obtain j n where x: "x = (j, n)" by (cases x)
  define db' where "db' = (case snapshot_if_revision_changed now j n db of Inr db \<Rightarrow> db | Inl _ \<Rightarrow> db)"
  have "memo_facts db' i = memo_facts db i"
    by (auto simp: db'_def snapshot_if_revision_changed_def intro!: same_facts split: sum.split)
  then show ?case using Cons.IH [of db'] by (simp add: snapshot_closed_def x db'_def)
qed (simp add: snapshot_closed_def)

lemma drop_locks_facts: "drop_locks P now s = (ts, s') \<Longrightarrow> (\<forall>k \<in> set ts. quiet k) \<and> memo_facts (ms_db s') i = memo_facts (ms_db s) i"
  by (auto simp: drop_locks_def Let_def quiet_def snapshot_closed_facts)

lemma purge_seen:
  assumes "memo_ok db"
  shows "seen_by me (snd (purge_expired now db)) i = seen_by me db i"
proof -
  define ids where "ids = map mr_id (filter (\<lambda>r. case mr_deleted r of Some t \<Rightarrow> t < now - int (lm_trash_days (limits_of db)) * DAY_MS | None \<Rightarrow> False) (db_memos db))"
  define db' where "db' = fold (purge_memo now) ids db"
  have out: "seen_by me (snd (purge_expired now db)) i = seen_by me db' i"
    by (rule seen_facts, rule same_facts) (simp_all add: purge_expired_def Let_def db'_def ids_def)
  show ?thesis
  proof (cases "i \<in> set ids")
    case False
    then have "memo_facts (fold (purge_memo now) ids d) i = memo_facts d i" for d
      by (induction ids arbitrary: d) (simp_all add: purge_facts)
    then show ?thesis unfolding out db'_def by (rule seen_facts)
  next
    case True
    then obtain x where x: "x \<in> set (db_memos db)" "mr_id x = i" "mr_deleted x \<noteq> None" by (auto simp: ids_def split: option.splits)
    have "distinct (map mr_id (db_memos db))" using assms by (simp add: memo_ok_def)
    then have "memo_of db i = Inr x" using find_distinct_key [OF _ x(1), of mr_id] x(2) by (simp add: memo_of_def)
    then have "seen_by me db i = None" using x(3) by (intro trashed_unseen) simp
    moreover have "i \<in> set ks \<Longrightarrow> memo_of (fold (purge_memo now) ks d) i = Inl Memo_Not_Found" for ks d
    proof (induction ks arbitrary: d)
      case (Cons k ks)
      have "memo_of (purge_memo now i d) i = Inl Memo_Not_Found"
        using memo_of_filter [of i d i] by (simp add: purge_memo_def memo_of_def)
      then show ?case using Cons purge_keeps [of i ks now] by (cases "i \<in> set ks") auto
    qed simp
    ultimately show ?thesis using True unfolding out db'_def by (simp add: trashed_unseen)
  qed
qed

lemma quiet_tells:
  assumes "\<forall>k \<in> set ts. quiet k" and "memo_facts (ms_db s') i = memo_facts (ms_db s) i"
  shows "tells cfg ip me s ts s' i"
  using quiet_all [OF assms(1)] seen_facts [OF assms(2)] by (simp add: tells_def)

lemma background_tells:
  assumes "background cfg s ts s'" and "memo_ok (ms_db s)"
  shows "tells cfg ip me s ts s' i"
  using assms(1)
proof (cases rule: background.cases)
  case (lost now c j)
  then have "ts = [] \<and> s' = s \<or> (\<exists>P. drop_locks P now s = (ts, s'))"
    by (auto simp: release_locks_for_ip_def split: option.splits)
  then show ?thesis
  proof
    assume "ts = [] \<and> s' = s"
    then show ?thesis by (simp add: quiet_tells)
  next
    assume "\<exists>P. drop_locks P now s = (ts, s')"
    then obtain P where "drop_locks P now s = (ts, s')" ..
    from drop_locks_facts [OF this] show ?thesis by (intro quiet_tells) blast+
  qed
next
  case (swept now t)
  then have "drop_locks (\<lambda>l. LOCK_TTL < t - li_last l) now s = (ts, s')" by (simp add: sweep_expired_locks_def)
  from drop_locks_facts [OF this] show ?thesis by (intro quiet_tells) blast+
next
  case (maintained now t e)
  have "seen_by me (ms_db s') i = seen_by me (ms_db s) i"
    using purge_seen [OF assms(2)] by (simp add: maintained maintain_def)
  then show ?thesis by (simp add: tells_def maintained sent_def)
next
  case (watched hash e)
  then have "(\<forall>k \<in> set ts. quiet k) \<and> ms_db s' = ms_db s" by (auto simp: watch_groups_def Let_def quiet_def)
  then show ?thesis by (simp add: tells_def quiet_all)
next
  case (presence t)
  then have "(\<forall>k \<in> set ts. quiet k) \<and> ms_db s' = ms_db s" by (auto simp: sweep_presence_def Let_def quiet_def split: prod.splits if_splits)
  then show ?thesis by (simp add: tells_def quiet_all)
qed

text \<open>A task for a changed memo sends what the member may see of it at that moment.\<close>

lemma receiver_detail: "detail_if_visible db a i = Some m \<Longrightarrow> sd_id m = i"
  by (auto simp: detail_if_visible_def detail_def Let_def dest!: memo_of_Inr split: sum.splits if_splits)

definition detail_news :: "actor \<Rightarrow> config \<Rightarrow> instant \<Rightarrow> memo_service \<Rightarrow> string \<Rightarrow> memo_detail option" where
  "detail_news me cfg t s i =
     map_option (\<lambda>m. apply_group_names cfg (m\<lparr>sd_locked_by := fst (lock_holder t i (ms_locks s))\<rparr>)) (detail_if_visible (ms_db s) me i)"

lemma detail_news_seen: "map_option shown (detail_news me cfg t s i) = seen_by me (ms_db s) i"
  by (simp add: detail_news_def seen_by_def option.map_comp comp_def)

lemma run_tells:
  assumes "receiver_for_ip cfg ip = Some me" and "run_task t (Some cfg) [ip] k s = (out, s')" and "due k"
  shows "ms_db s' = ms_db s \<and> news i (map snd out) = (if k = Changed_Due i then [detail_news me cfg t s i] else [])"
proof (cases k)
  case (Changed_Due j)
  obtain h ls where l: "lock_holder t j (ms_locks s) = (h, ls)" by (cases "lock_holder t j (ms_locks s)")
  have o: "out = [(ip, case detail_if_visible (ms_db s) me j of
      Some m \<Rightarrow> Memo_Changed (apply_group_names cfg (m\<lparr>sd_locked_by := h\<rparr>)) | None \<Rightarrow> Memo_Removed j)]" and s': "ms_db s' = ms_db s"
    using assms(1,2) by (auto simp: Changed_Due run_task_def broadcast_changed_def l map_filter_simps)
  have g: "sd_id (apply_group_names cfg (m\<lparr>sd_locked_by := h\<rparr>)) = sd_id m" for m by (simp add: apply_group_names_def)
  have "detail_news me cfg t s j = map_option (\<lambda>m. apply_group_names cfg (m\<lparr>sd_locked_by := h\<rparr>)) (detail_if_visible (ms_db s) me j)"
    by (simp add: detail_news_def l)
  then have "news i (map snd out) = (if j = i then [detail_news me cfg t s j] else [])"
    using receiver_detail [of "ms_db s" me j] g by (cases "detail_if_visible (ms_db s) me j"; cases "j = i") (simp_all add: o)
  then show ?thesis using s' by (auto simp: Changed_Due)
next
  case Folders_Due
  then show ?thesis using assms(2) by (auto simp: run_task_def broadcast_folders_def)
qed (use assms(3) in simp)

lemma follows_fixed: "follows cfg ip me w \<Longrightarrow> receiver_for_ip cfg ip = Some me"
  by (induction rule: follows.induct) simp_all

lemma background_reach: "background cfg s ts s' \<Longrightarrow> memo_reach s \<Longrightarrow> memo_reach s'"
  by (cases rule: background.cases) (auto intro: memo_reach.intros)

lemma follows_reach: "follows cfg ip me w \<Longrightarrow> memo_reach (cw_host w)"
proof (induction rule: follows.induct)
  case (request w v a op res ts s')
  show ?case using memo_reach.request [OF request.IH request.hyps(2)] by simp
next
  case (periodic w ts s')
  then show ?case using background_reach by simp
next
  case (run w k t out s')
  show ?case using memo_reach.task [OF run.IH run.hyps(3)] by simp
qed simp_all

lemma current_seen: "seen_by me db' i = seen_by me db i \<Longrightarrow> current me db' q c g i = current me db q c g i"
  by (simp add: current_def agrees_def split: option.split)

lemma current_sent: "news i p = [] \<Longrightarrow> current me db (q @ p) c g i = current me db q c g i"
  by (simp add: current_def)

lemma current_told: "seen_by me db i = map_option shown x \<Longrightarrow> news i p = [x] \<Longrightarrow> current me db (q @ p) c g i"
  by (simp add: current_def)

lemma followed_step:
  assumes "followed me w" and "\<And>i. tells cfg ip me (cw_host w) ts s' i"
  shows "followed me (w\<lparr>cw_host := s', cw_tasks := cw_tasks w @ filter due ts, cw_queue := cw_queue w @ sent cfg ip ts s'\<rparr>)"
proof -
  have "Changed_Due i \<in> set (cw_tasks w) \<or> Changed_Due i \<in> set ts
      \<or> current me (ms_db s') (cw_queue w @ sent cfg ip ts s') (mc_db (cw_cache w)) (cw_evicted w) i" for i
    using assms(2) [of i] unfolding tells_def
  proof
    assume "news i (sent cfg ip ts s') = [None] \<and> seen_by me (ms_db s') i = None"
    then show ?thesis using current_told [of me "ms_db s'" i None] by simp
  next
    assume "news i (sent cfg ip ts s') = [] \<and> (seen_by me (ms_db s') i = seen_by me (ms_db (cw_host w)) i \<or> Changed_Due i \<in> set ts)"
    moreover have "Changed_Due i \<in> set (cw_tasks w) \<or> current me (ms_db (cw_host w)) (cw_queue w) (mc_db (cw_cache w)) (cw_evicted w) i"
      using assms(1) by (simp add: followed_def)
    ultimately show ?thesis
      using current_sent [of i "sent cfg ip ts s'"] current_seen [of me "ms_db s'" i "ms_db (cw_host w)"] by metis
  qed
  then show ?thesis by (auto simp: followed_def)
qed

lemma followed_run:
  assumes "followed me w" and "receiver_for_ip cfg ip = Some me" and "\<forall>k \<in> set (cw_tasks w). due k" and "k \<in> set (cw_tasks w)"
    and "run_task t (Some cfg) [ip] k (cw_host w) = (out, s')"
  shows "followed me (w\<lparr>cw_host := s', cw_tasks := remove1 k (cw_tasks w), cw_queue := cw_queue w @ map snd out\<rparr>)"
proof -
  have db: "ms_db s' = ms_db (cw_host w)"
    and n: "news i (map snd out) = (if k = Changed_Due i then [detail_news me cfg t (cw_host w) i] else [])" for i
    using run_tells [OF assms(2,5)] assms(3,4) by blast+
  have "Changed_Due i \<in> set (remove1 k (cw_tasks w))
      \<or> current me (ms_db s') (cw_queue w @ map snd out) (mc_db (cw_cache w)) (cw_evicted w) i" for i
  proof (cases "k = Changed_Due i")
    case True
    then have "news i (map snd out) = [detail_news me cfg t (cw_host w) i]" using n by simp
    then show ?thesis unfolding db by (intro disjI2 current_told) (simp_all add: detail_news_seen)
  next
    case False
    then have "Changed_Due i \<in> set (remove1 k (cw_tasks w)) \<longleftrightarrow> Changed_Due i \<in> set (cw_tasks w)" by auto
    moreover have "news i (map snd out) = []" using n [of i] False by simp
    ultimately show ?thesis using assms(1) current_sent db by (simp add: followed_def)
  qed
  then show ?thesis by (simp add: followed_def)
qed

text \<open>What one message makes of the entry of a memo.\<close>

lemma about_upsert: "about i e = None \<Longrightarrow> (case e of Memo_Changed m \<Rightarrow> sd_id m \<noteq> i | Memo_Removed j \<Rightarrow> j \<noteq> i | _ \<Rightarrow> True)"
  by (cases e) (auto split: if_splits)

lemma kept_memos [simp]:
  "mc_db (cache_bump k) = mc_db k"
  "ca_memos (schedule_upsert e c) = ca_memos c" "ca_memos (schedule_remove i c) = ca_memos c"
  "ca_memos (sheet_upsert m c) = ca_memos c" "ca_memos (sheet_remove i c) = ca_memos c"
  "ca_memos (sheet_cells_apply i es c) = ca_memos c"
  "ca_memos (snd (replace_sheet_layout i cols rows c)) = ca_memos c"
  "ca_memos (snd (replace_sheet_merges i as c)) = ca_memos c"
  by (simp_all add: cache_bump_def schedule_upsert_def schedule_remove_def sheet_upsert_def sheet_remove_def sheet_cells_apply_def
      replace_sheet_layout_def replace_sheet_merges_def Let_def split: prod.split)

lemma applied_memo:
  "cache_memo (mc_db (apply_event e k)) i =
     (case e of Memo_Changed m \<Rightarrow> cache_memo (cache_upsert m (mc_db k)) i
      | Memo_Removed j \<Rightarrow> if i = j then None else cache_memo (mc_db k) i
      | Memo_Lock j h \<Rightarrow> map_option (\<lambda>m. if i = j then m\<lparr>sd_locked_by := h\<rparr> else m) (cache_memo (mc_db k) i)
      | _ \<Rightarrow> cache_memo (mc_db k) i)"
proof (cases e)
  case (Memo_Folders fs)
  then show ?thesis by (simp add: apply_event_def store_event_def replace_folders_def stored_def cache_memo_def)
next
  case (Memo_Schedule n)
  then show ?thesis by (cases n) (simp_all add: apply_event_def store_event_def cache_write_def stored_def cache_memo_def)
next
  case (Memo_Sheet n)
  then show ?thesis
    by (cases n) (simp_all add: apply_event_def store_event_def cache_write_def stored_def cache_memo_def case_prod_beta Let_def)
qed (simp_all add: apply_event_def store_event_def cache_write_def stored_def remove_memo lock_memo)

lemma received_agrees:
  assumes "case about i e of None \<Rightarrow> agrees me db (mc_db k) g i | Some x \<Rightarrow> seen_by me db i = map_option shown x"
  shows "agrees me db (mc_db (apply_event e k)) (g \<union> evicted_by e (mc_db k)) i"
proof (cases e)
  case (Memo_Changed m)
  then show ?thesis using assms upsert_memo [of m "mc_db k" i]
    by (auto simp: agrees_def applied_memo evicted_by_def split: option.splits if_splits)
next
  case (Memo_Removed j)
  then show ?thesis using assms by (auto simp: agrees_def applied_memo evicted_by_def split: option.splits if_splits)
next
  case (Memo_Lock j h)
  then show ?thesis using assms by (auto simp: agrees_def applied_memo evicted_by_def split: option.splits)
qed (use assms in \<open>simp_all add: agrees_def applied_memo evicted_by_def\<close>)

lemma followed_receive:
  assumes "followed me w" and "cw_queue w = e # q"
  shows "followed me (w\<lparr>cw_queue := q, cw_cache := apply_event e (cw_cache w),
      cw_evicted := cw_evicted w \<union> evicted_by e (mc_db (cw_cache w))\<rparr>)"
proof -
  have "current me db q (mc_db (apply_event e k)) (g \<union> evicted_by e (mc_db k)) i"
    if c: "current me db (e # q) (mc_db k) g i" for db k g i
  proof (cases "news i q = []")
    case True
    then have "case about i e of None \<Rightarrow> agrees me db (mc_db k) g i | Some x \<Rightarrow> seen_by me db i = map_option shown x"
      using c by (simp add: current_def split: option.splits)
    then show ?thesis using True received_agrees by (simp add: current_def)
  next
    case False
    then show ?thesis using c by (simp add: current_def split: option.splits)
  qed
  then show ?thesis using assms by (auto simp: followed_def)
qed

lemma all_due: "follows cfg ip me w \<Longrightarrow> \<forall>k \<in> set (cw_tasks w). due k"
  by (induction rule: follows.induct) (auto dest: set_mp [OF set_remove1_subset])

lemma followed_world: "follows cfg ip me w \<Longrightarrow> followed me w"
proof (induction rule: follows.induct)
  case (start s k)
  then show ?case by (simp add: followed_def current_def)
next
  case (request w v a op res ts s')
  show ?case by (rule followed_step [OF request.IH request_tells [OF request.hyps(2)]])
next
  case (periodic w ts s')
  have "memo_ok (ms_db (cw_host w))" using reach_ok [OF follows_reach [OF periodic.hyps(1)]] by (simp add: service_ok_def)
  then show ?case by (intro followed_step [OF periodic.IH background_tells [OF periodic.hyps(2)]])
next
  case (run w k t out s')
  show ?case by (rule followed_run [OF run.IH follows_fixed [OF run.hyps(1)] all_due [OF run.hyps(1)] run.hyps(2,3)])
next
  case (receive w e q)
  show ?case by (rule followed_receive [OF receive.IH receive.hyps(2)])
qed

section \<open>The limit of the cache\<close>

lemma dropped_oldest:
  assumes "distinct (map sd_id ms)"
  shows "set (drop_oldest ms) \<subseteq> set ms \<and> distinct (map sd_id (drop_oldest ms))
    \<and> (\<forall>m \<in> set ms - set (drop_oldest ms). \<forall>x \<in> set ms. sd_updated m \<le> sd_updated x)"
proof (cases "sort_key sd_updated ms")
  case Nil
  then show ?thesis using assms by (simp add: drop_oldest_def)
next
  case (Cons d k)
  have d: "d \<in> set ms" and least: "\<forall>x \<in> set ms. sd_updated d \<le> sd_updated x"
    using Cons sorted_sort_key [of sd_updated ms] set_sort [of sd_updated ms] by auto
  have o: "drop_oldest ms = filter (\<lambda>x. sd_id x \<noteq> sd_id d) ms" by (simp add: drop_oldest_def Cons)
  have "m = d" if "m \<in> set ms - set (drop_oldest ms)" for m
    using that d assms inj_onD [of sd_id "set ms" m d] by (simp add: o distinct_map)
  then show ?thesis using assms least distinct_map_filter by (auto simp: o)
qed

lemma limit_left:
  "enforce_limit_with cap ms = (n, rest) \<Longrightarrow> distinct (map sd_id ms) \<Longrightarrow>
     (cached_bytes rest \<le> cap \<or> length rest = 1) \<and> set rest \<subseteq> set ms
     \<and> (\<forall>m \<in> set ms - set rest. \<forall>x \<in> set rest. sd_updated m \<le> sd_updated x)"
proof (induction cap ms arbitrary: n rest rule: enforce_limit_with.induct)
  case (1 cap ms)
  show ?case
  proof (cases "cached_bytes ms \<le> cap \<or> length ms \<le> 1")
    case True
    then have "cached_bytes ms \<le> cap \<or> length ms = 1" by (cases ms) (auto simp: cached_bytes_def)
    then show ?thesis using True 1(2) by (simp add: enforce_limit_with.simps)
  next
    case False
    obtain k where k: "enforce_limit_with cap (drop_oldest ms) = (k, rest)" using 1(2) False
      by (subst (asm) enforce_limit_with.simps) (auto simp: Let_def split: prod.splits)
    note d = dropped_oldest [OF 1(3)]
    have "(cached_bytes rest \<le> cap \<or> length rest = 1) \<and> set rest \<subseteq> set (drop_oldest ms)
        \<and> (\<forall>m \<in> set (drop_oldest ms) - set rest. \<forall>x \<in> set rest. sd_updated m \<le> sd_updated x)"
      using 1(1) [OF False k] d by blast
    then show ?thesis using d by blast
  qed
qed

section \<open>Properties\<close>


text \<open>
  C38: The memos a member keeps fit the space of the cache, unless a single one is left, which is kept whatever its size; the
  last stored ones are the ones given up last: no dropped memo was changed after a kept one.
\<close>

theorem cache_is_bounded:
  assumes "distinct (map sd_id (ca_memos c))" and "rest = ca_memos (enforce_limit c)"
  shows "(cached_bytes rest \<le> CACHE_MAX_BYTES \<or> length rest = 1) \<and> set rest \<subseteq> set (ca_memos c)
     \<and> (\<forall>m \<in> set (ca_memos c) - set rest. \<forall>x \<in> set rest. sd_updated m \<le> sd_updated x)"
  using limit_left [OF prod.collapse [symmetric] assms(1), of CACHE_MAX_BYTES] by (simp add: assms(2) enforce_limit_def)

definition first_member :: actor where
  "first_member = the (receiver_for_ip site_config 0x0A000002)"

lemma first_member_fields:
  "ac_member first_member = Some (''legacy-'' @ ip_text 0x0A000002) \<and> ac_admin first_member = False"
  by (simp add: first_member_def receiver_for_ip_def actor_for_ip_def peer_at_def site_config_def site_peer_def sample_peer_def host_net_def
      first_ip_def with_groups_def with_admin_def actor_member_def)

lemma receiver_first: "receiver_for_ip site_config 0x0A000002 = Some first_member"
  by (simp add: first_member_def receiver_for_ip_def actor_for_ip_def peer_at_def site_config_def site_peer_def sample_peer_def host_net_def first_ip_def)


text \<open>Two memos of thirty mebibytes each: the one changed first is given up.\<close>

definition large_memo :: "string \<Rightarrow> int \<Rightarrow> memo_detail" where
  "large_memo i t = \<lparr>sd_id = i, sd_title = ''T'', sd_body = replicate 30000000 CHR ''x'', sd_folder = None, sd_revision = 1,
     sd_created = 0, sd_updated = t, sd_updated_by = None, sd_owner_id = ''o'', sd_owner_name = ''o'', sd_deleted = None,
     sd_can_edit = True, sd_can_manage = True, sd_locked_by = None, sd_everyone = None, sd_members = [], sd_groups = [], sd_comments = 0\<rparr>"

lemma cache_is_bounded_witness:
  "\<exists>c rest. distinct (map sd_id (ca_memos c)) \<and> rest = ca_memos (enforce_limit c) \<and> CACHE_MAX_BYTES < cached_bytes (ca_memos c)
     \<and> rest = [large_memo ''b'' 2] \<and> (\<forall>m \<in> set (ca_memos c) - set rest. sd_updated m \<le> 2)"
proof -
  define c where "c = empty_cache_db\<lparr>ca_memos := [large_memo ''b'' 2, large_memo ''a'' 1]\<rparr>"
  have d: "distinct (map sd_id (ca_memos c))" and b: "CACHE_MAX_BYTES < cached_bytes (ca_memos c)"
    by (simp_all add: c_def large_memo_def cached_bytes_def CACHE_MAX_BYTES_def)
  have "drop_oldest (ca_memos c) = [large_memo ''b'' 2]" by (simp add: c_def large_memo_def drop_oldest_def)
  then have "snd (enforce_limit_with CACHE_MAX_BYTES (ca_memos c)) = [large_memo ''b'' 2]"
    using b by (subst enforce_limit_with.simps) (simp add: enforce_limit_with.simps c_def Let_def case_prod_beta)
  then have r: "[large_memo ''b'' 2] = ca_memos (enforce_limit c)" by (simp add: enforce_limit_def)
  have "sd_updated (large_memo ''b'' 2) = 2" by (simp add: large_memo_def)
  then have "\<forall>m \<in> set (ca_memos c) - set [large_memo ''b'' 2]. sd_updated m \<le> 2" using cache_is_bounded [OF d r] by simp
  then show ?thesis using d r b by blast
qed

end
