(* ===== verification/Chat_Log.thy ===== *)
theory Chat_Log
  imports Chat_Groups Peers
begin

text \<open>
  The history of messages on a device, \<^verbatim>\<open>crates/peercove-cli/src/chat.rs\<close>: the lines in memory, the file they are
  appended to, the pages in which a client reads them, and the queue of messages that wait for delivery. The file is part of
  the state: a list of lines, each the entry it parses to, or \<open>None\<close> when it does not parse. Whether a write succeeds
  is an input. The identifier and the time of a line of the program itself are inputs too, by the number of the line.
\<close>

section \<open>Entries\<close>

datatype chat_scope = Scope_Direct | Scope_Network | Scope_Group

record chat_file =
  cf_name :: string
  cf_size :: nat
  cf_transfers :: "string list"
  cf_path :: "string option"

record chat_entry =
  ch_seq :: nat
  ch_id :: string
  ch_scope :: chat_scope
  ch_group :: "string option"
  ch_from :: ipv4
  ch_to :: "ipv4 option"
  ch_text :: string
  ch_sent :: nat
  ch_failed :: bool
  ch_file :: "chat_file option"
  ch_system :: bool
  ch_event :: "system_event option"

definition MAX_HISTORY :: nat where "MAX_HISTORY = 10000"

definition REWRITE_THRESHOLD :: nat where "REWRITE_THRESHOLD = MAX_HISTORY + 1000"

definition MAX_CHAT_MESSAGES_PER_REPLY :: nat where "MAX_CHAT_MESSAGES_PER_REPLY = 200"

definition MAX_CHAT_BYTES_PER_REPLY :: nat where "MAX_CHAT_BYTES_PER_REPLY = 128 * 1024"

definition MAX_CHAT_TEXT_BYTES :: nat where "MAX_CHAT_TEXT_BYTES = 8 * 1024"

text \<open>What a device adds by itself: identifier, time, success of the write, and the sentence that goes with an event.\<close>

record chat_env =
  cv_id :: "nat \<Rightarrow> string"
  cv_now :: "nat \<Rightarrow> nat"
  cv_written :: "nat \<Rightarrow> bool"
  cv_rewritten :: "nat \<Rightarrow> bool"
  cv_sentence :: "system_event \<Rightarrow> string"

section \<open>The history\<close>

record chat_log =
  cl_entries :: "chat_entry list"
  cl_file :: "chat_entry option list"
  cl_lines :: nat
  cl_next :: nat
  cl_generation :: nat

definition last_n :: "nat \<Rightarrow> 'a list \<Rightarrow> 'a list" where
  "last_n n xs = drop (length xs - n) xs"

definition chat_load :: "chat_entry option list \<Rightarrow> chat_log" where
  "chat_load file =
     (let entries = last_n MAX_HISTORY (List.map_filter (\<lambda>l. l) file)
      in \<lparr>cl_entries = entries, cl_file = file, cl_lines = length file,
          cl_next = (if entries = [] then 1 else ch_seq (last entries) + 1), cl_generation = 0\<rparr>)"

text \<open>The mark of a failure is not kept in the file.\<close>

definition persisted :: "chat_entry \<Rightarrow> chat_entry" where
  "persisted e = e\<lparr>ch_failed := False\<rparr>"

definition log_rewrite :: "bool \<Rightarrow> chat_log \<Rightarrow> chat_log" where
  "log_rewrite ok l =
     (if ok then l\<lparr>cl_file := map (\<lambda>e. Some (persisted e)) (cl_entries l), cl_lines := length (cl_entries l)\<rparr> else l)"

definition write_entry :: "bool \<Rightarrow> chat_entry \<Rightarrow> chat_log \<Rightarrow> chat_log" where
  "write_entry ok e l =
     (if REWRITE_THRESHOLD \<le> cl_lines l then log_rewrite ok l
      else if ok then l\<lparr>cl_file := cl_file l @ [Some (persisted e)], cl_lines := cl_lines l + 1\<rparr>
      else l)"

definition log_append :: "bool \<Rightarrow> chat_entry \<Rightarrow> chat_log \<Rightarrow> chat_entry \<times> chat_log" where
  "log_append ok e l =
     (let e = e\<lparr>ch_seq := cl_next l\<rparr>;
          es = cl_entries l @ [e];
          es = (if MAX_HISTORY < length es then tl es else es)
      in (e, write_entry ok e (l\<lparr>cl_entries := es, cl_next := cl_next l + 1\<rparr>)))"

fun set_failed :: "bool \<Rightarrow> nat \<Rightarrow> chat_entry list \<Rightarrow> chat_entry list" where
  "set_failed b seq [] = []"
| "set_failed b seq (e # es) = (if ch_seq e = seq then e\<lparr>ch_failed := b\<rparr> # es else e # set_failed b seq es)"

definition log_mark_failed :: "nat \<Rightarrow> chat_log \<Rightarrow> chat_log" where
  "log_mark_failed seq l = l\<lparr>cl_entries := set_failed True seq (cl_entries l)\<rparr>"

definition log_clear_failed :: "nat \<Rightarrow> chat_log \<Rightarrow> chat_log" where
  "log_clear_failed seq l = l\<lparr>cl_entries := set_failed False seq (cl_entries l)\<rparr>"

definition log_get :: "chat_log \<Rightarrow> nat \<Rightarrow> chat_entry option" where
  "log_get l seq = find (\<lambda>e. ch_seq e = seq) (cl_entries l)"

definition direct_with :: "ipv4 \<Rightarrow> chat_entry \<Rightarrow> bool" where
  "direct_with ip e \<longleftrightarrow> ch_scope e = Scope_Direct \<and> (ch_from e = ip \<or> ch_to e = Some ip)"

definition clear_direct :: "bool \<Rightarrow> ipv4 \<Rightarrow> chat_log \<Rightarrow> bool \<times> chat_log" where
  "clear_direct ok ip l =
     (let es = filter (\<lambda>e. \<not> direct_with ip e) (cl_entries l)
      in if length es = length (cl_entries l) then (False, l)
         else (True, log_rewrite ok (l\<lparr>cl_entries := es, cl_generation := cl_generation l + 1\<rparr>)))"

definition clear_all :: "bool \<Rightarrow> chat_log \<Rightarrow> chat_log" where
  "clear_all ok l = log_rewrite ok (l\<lparr>cl_entries := [], cl_generation := cl_generation l + 1\<rparr>)"

definition contains_id :: "chat_log \<Rightarrow> string \<Rightarrow> bool" where
  "contains_id l i \<longleftrightarrow> (\<exists>e \<in> set (cl_entries l). ch_id e = i)"

text \<open>One page: at least one entry, then as many as fit the number and the bytes of a reply.\<close>

fun page :: "nat \<Rightarrow> nat \<Rightarrow> chat_entry list \<Rightarrow> chat_entry list" where
  "page n bytes [] = []"
| "page n bytes (e # es) =
     (let bytes = bytes + (length (ch_text e) + 256)
      in if n \<noteq> 0 \<and> (MAX_CHAT_MESSAGES_PER_REPLY \<le> n \<or> MAX_CHAT_BYTES_PER_REPLY < bytes) then []
         else e # page (n + 1) bytes es)"

definition latest_seq :: "chat_log \<Rightarrow> nat" where
  "latest_seq l = cl_next l - 1"

definition log_fetch :: "nat \<Rightarrow> chat_log \<Rightarrow> nat \<times> chat_entry list" where
  "log_fetch after l = (latest_seq l, page 0 0 (filter (\<lambda>e. after < ch_seq e) (cl_entries l)))"

text \<open>The command \<^verbatim>\<open>chat-log\<close> reads pages until it has seen the latest number; \<open>None\<close> when it does not end.\<close>

partial_function (option) read_log :: "chat_log \<Rightarrow> nat \<Rightarrow> chat_entry list option" where
  "read_log l after =
     (let (latest, messages) = log_fetch after l;
          after = (if messages = [] then after else ch_seq (last messages))
      in if latest \<le> after then Some messages
         else Option.bind (read_log l after) (\<lambda>rest. Some (messages @ rest)))"

section \<open>Lines of the program\<close>

definition append_system :: "chat_env \<Rightarrow> chat_scope \<Rightarrow> ipv4 option \<Rightarrow> ipv4 \<Rightarrow> system_event \<Rightarrow> chat_log \<Rightarrow> chat_log" where
  "append_system v scope to self_ip ev l =
     snd (log_append (cv_written v (cl_next l))
       \<lparr>ch_seq = 0, ch_id = cv_id v (cl_next l), ch_scope = scope, ch_group = None, ch_from = self_ip, ch_to = to,
        ch_text = cv_sentence v ev, ch_sent = cv_now v (cl_next l), ch_failed = False, ch_file = None, ch_system = True,
        ch_event = Some ev\<rparr> l)"

section \<open>The queue\<close>

definition CHAT_RESEND_INTERVAL :: duration where "CHAT_RESEND_INTERVAL = secs 10"

record pending_chat =
  pq_seq :: nat
  pq_id :: string
  pq_scope :: chat_scope
  pq_to :: "ipv4 option"
  pq_member :: "string option"
  pq_group :: "string option"
  pq_text :: string
  pq_sent :: nat
  pq_delivered :: "ipv4 set"
  pq_next :: instant

text \<open>The saved form has no time of the next attempt: after a restart every message is due.\<close>

definition saved_pending :: "pending_chat \<Rightarrow> pending_chat" where
  "saved_pending p = p\<lparr>pq_next := 0\<rparr>"

definition save_queue :: "bool \<Rightarrow> pending_chat list \<Rightarrow> pending_chat list option \<Rightarrow> pending_chat list option" where
  "save_queue ok q file = (if ok then if q = [] then None else Some (map saved_pending q) else file)"

definition load_queue :: "instant \<Rightarrow> pending_chat list option \<Rightarrow> pending_chat list" where
  "load_queue now file = (case file of None \<Rightarrow> [] | Some q \<Rightarrow> map (\<lambda>p. p\<lparr>pq_next := now\<rparr>) q)"

section \<open>Members that were replaced or left\<close>

record identity =
  id_member :: string
  id_name :: "string option"

type_synonym identities = "(ipv4, identity) hashmap"

record reconcile_outcome =
  ro_replaced :: "ipv4 list"
  ro_departed :: "ipv4 list"

definition outcome_all :: "reconcile_outcome \<Rightarrow> ipv4 list" where
  "outcome_all r = ro_replaced r @ ro_departed r"

definition entry_name :: "ledger_entry \<Rightarrow> string" where
  "entry_name e = (case le_name e of Some n \<Rightarrow> n | None \<Rightarrow> ip_text (le_ip e))"

text \<open>The state of the pass over the ledger: the known members, the history, who was replaced, and whether to save.\<close>

type_synonym reconcile_state = "identities \<times> chat_log \<times> ipv4 list \<times> bool"

definition reconcile_entry :: "chat_env \<Rightarrow> ipv4 \<Rightarrow> bool \<Rightarrow> ledger_entry \<Rightarrow> reconcile_state \<Rightarrow> reconcile_state" where
  "reconcile_entry v self_ip known_before e st =
     (let (m, l, replaced, changed) = st
      in if le_ip e = self_ip \<or> le_is_host e then st
         else (case le_member_id e of
           None \<Rightarrow> st
         | Some i \<Rightarrow>
             (let new = hm_insert (le_ip e) \<lparr>id_member = i, id_name = le_name e\<rparr> m
              in case hm_get m (le_ip e) of
                   Some prev \<Rightarrow>
                     if id_member prev = i
                     then (if id_name prev \<noteq> le_name e then (new, l, replaced, True) else st)
                     else (new,
                           append_system v Scope_Direct (Some (le_ip e)) self_ip (Member_Replaced (entry_name e))
                             (snd (clear_direct (cv_rewritten v (cl_next l)) (le_ip e) l)),
                           replaced @ [le_ip e], True)
                 | None \<Rightarrow>
                     (new,
                      (case le_invited_by e of
                         Some inviter \<Rightarrow>
                           if known_before
                           then append_system v Scope_Network None self_ip (Member_Invited inviter (entry_name e)) l
                           else l
                       | None \<Rightarrow> l),
                      replaced, True))))"

definition departed_members :: "ledger_entry list \<Rightarrow> identities \<Rightarrow> (ipv4 \<times> string option) list" where
  "departed_members ledger m =
     map (\<lambda>(ip, r). (ip, id_name r)) (filter (\<lambda>(ip, _). \<forall>e \<in> set ledger. le_ip e \<noteq> ip) m)"

definition drop_departed :: "chat_env \<Rightarrow> ipv4 \<Rightarrow> ipv4 \<times> string option \<Rightarrow> reconcile_state \<Rightarrow> reconcile_state" where
  "drop_departed v self_ip d st =
     (let (m, l, replaced, _) = st
      in (hm_remove (fst d) m,
          append_system v Scope_Network None self_ip (Member_Removed_From_Network (ip_text (fst d)) (snd d)) l, replaced, True))"

definition discard_stale :: "ipv4 list \<Rightarrow> pending_chat list \<Rightarrow> pending_chat list" where
  "discard_stale stale q =
     filter (\<lambda>p. \<not> (pq_scope p = Scope_Direct \<and> (case pq_to p of Some to \<Rightarrow> to \<in> set stale | None \<Rightarrow> False))) q"

text \<open>The known members are read from their file and written back when they changed.\<close>

definition reconcile_identities :: "chat_env \<Rightarrow> bool \<Rightarrow> ipv4 \<Rightarrow> ledger_entry list \<Rightarrow> identities option \<Rightarrow> chat_log
    \<Rightarrow> pending_chat list \<Rightarrow> pending_chat list option
    \<Rightarrow> reconcile_outcome \<times> identities option \<times> chat_log \<times> pending_chat list \<times> pending_chat list option" where
  "reconcile_identities v saves self_ip ledger sidecar l q qfile =
     (let m0 = (case sidecar of Some m \<Rightarrow> m | None \<Rightarrow> []);
          (m, l, replaced, changed) = fold (reconcile_entry v self_ip (m0 \<noteq> [])) ledger (m0, l, [], False);
          gone = departed_members ledger m;
          (m, l, replaced, changed) = fold (drop_departed v self_ip) gone (m, l, replaced, changed);
          r = \<lparr>ro_replaced = replaced, ro_departed = map fst gone\<rparr>;
          q' = discard_stale (outcome_all r) q;
          qfile = (if length q' \<noteq> length q then save_queue saves q' qfile else qfile)
      in (r, if changed \<and> saves then Some m else sidecar, l, q', qfile))"

end
