(* ===== verification/Chat_Node.thy ===== *)
theory Chat_Node
  imports Chat_Log
begin

text \<open>
  Messages on one device: what a client asks of the daemon (\<^verbatim>\<open>daemon.rs\<close>: sending, resending, cancelling,
  clearing, and the operations on chat groups), the pump that delivers the queue, the pass that drops replaced members, and
  what the device makes of the frames of the others (\<^verbatim>\<open>handle_incoming\<close> of \<^verbatim>\<open>msg.rs\<close>).
\<close>

section \<open>The device\<close>

record chat_node =
  cn_address :: ipv4
  cn_is_host :: bool
  cn_ledger :: "ledger_entry list option"
  cn_groups :: group_store
  cn_log :: chat_log
  cn_queue :: "pending_chat list"
  cn_saved :: "pending_chat list option"
  cn_known :: "identities option"

datatype chat_error =
    Empty_Text | Text_Too_Long | No_Receiver | Receiver_Is_Self | No_Group_Id | Group_Unknown | Not_In_Group
  | No_Such_Message | Not_Resendable | Empty_Group_Name | Group_Name_Too_Long | No_Such_Member ipv4 | Group_Too_Small
  | Too_Many_Members | Self_Not_Removable

definition ledger_of :: "chat_node \<Rightarrow> ledger_entry list" where
  "ledger_of n = (case cn_ledger n of Some l \<Rightarrow> l | None \<Rightarrow> [])"

definition at_ip :: "ledger_entry list \<Rightarrow> ipv4 \<Rightarrow> ledger_entry option" where
  "at_ip l ip = find (\<lambda>e. le_ip e = ip) l"

definition member_id_at :: "chat_node \<Rightarrow> ipv4 \<Rightarrow> string option" where
  "member_id_at n ip = (case at_ip (ledger_of n) ip of Some e \<Rightarrow> le_member_id e | None \<Rightarrow> None)"

section \<open>Sending\<close>

text \<open>The receiver is checked for being a possible one, not for being online.\<close>

definition check_receiver :: "chat_scope \<Rightarrow> ipv4 option \<Rightarrow> string option \<Rightarrow> chat_node \<Rightarrow> chat_error option" where
  "check_receiver scope peer gid n =
     (case scope of
        Scope_Direct \<Rightarrow>
          (case peer of
             None \<Rightarrow> Some No_Receiver
           | Some ip \<Rightarrow> if ip = cn_address n then Some Receiver_Is_Self else None)
      | Scope_Network \<Rightarrow> None
      | Scope_Group \<Rightarrow>
          (case gid of
             None \<Rightarrow> Some No_Group_Id
           | Some i \<Rightarrow>
               (case get_group (cn_groups n) i of
                  None \<Rightarrow> Some Group_Unknown
                | Some g \<Rightarrow> if cn_address n \<in> set (gi_members g) then None else Some Not_In_Group)))"

definition own_entry :: "chat_env \<Rightarrow> chat_scope \<Rightarrow> ipv4 option \<Rightarrow> string option \<Rightarrow> string \<Rightarrow> chat_node \<Rightarrow> chat_entry" where
  "own_entry v scope peer gid text n =
     \<lparr>ch_seq = 0, ch_id = cv_id v (cl_next (cn_log n)), ch_scope = scope,
      ch_group = (case scope of Scope_Group \<Rightarrow> gid | _ \<Rightarrow> None), ch_from = cn_address n,
      ch_to = (case scope of Scope_Direct \<Rightarrow> peer | _ \<Rightarrow> None), ch_text = text, ch_sent = cv_now v (cl_next (cn_log n)),
      ch_failed = False, ch_file = None, ch_system = False, ch_event = None\<rparr>"

definition pending_of :: "instant \<Rightarrow> string option \<Rightarrow> chat_entry \<Rightarrow> pending_chat" where
  "pending_of now member e =
     \<lparr>pq_seq = ch_seq e, pq_id = ch_id e, pq_scope = ch_scope e, pq_to = ch_to e, pq_member = member, pq_group = ch_group e,
      pq_text = ch_text e, pq_sent = ch_sent e, pq_delivered = {}, pq_next = now\<rparr>"

definition enqueue :: "bool \<Rightarrow> pending_chat \<Rightarrow> chat_node \<Rightarrow> chat_node" where
  "enqueue saves p n =
     (let q = cn_queue n @ [p] in n\<lparr>cn_queue := q, cn_saved := save_queue saves q (cn_saved n)\<rparr>)"

definition chat_send :: "chat_env \<Rightarrow> instant \<Rightarrow> bool \<Rightarrow> chat_scope \<Rightarrow> ipv4 option \<Rightarrow> string option \<Rightarrow> string \<Rightarrow> chat_node
    \<Rightarrow> chat_error + chat_entry \<times> chat_node" where
  "chat_send v now saves scope peer gid text n =
     bail_if (trim text = []) Empty_Text
    (bail_if (MAX_CHAT_TEXT_BYTES < length text) Text_Too_Long
    (case check_receiver scope peer gid n of
       Some e \<Rightarrow> Inl e
     | None \<Rightarrow>
         (let member = (case scope of Scope_Direct \<Rightarrow> Option.bind peer (member_id_at n) | _ \<Rightarrow> None);
              (e, l) = log_append (cv_written v (cl_next (cn_log n))) (own_entry v scope peer gid text n) (cn_log n)
          in Inr (e, enqueue saves (pending_of now member e) (n\<lparr>cn_log := l\<rparr>)))))"

fun due_now :: "instant \<Rightarrow> nat \<Rightarrow> pending_chat list \<Rightarrow> pending_chat list" where
  "due_now now seq [] = []"
| "due_now now seq (p # ps) = (if pq_seq p = seq then p\<lparr>pq_next := now\<rparr> # ps else p # due_now now seq ps)"

text \<open>A message that still waits is only made due; one that does not is taken from the history again.\<close>

definition chat_resend :: "instant \<Rightarrow> bool \<Rightarrow> nat \<Rightarrow> chat_node \<Rightarrow> chat_error + chat_node" where
  "chat_resend now saves seq n =
     (if \<exists>p \<in> set (cn_queue n). pq_seq p = seq
      then (let q = due_now now seq (cn_queue n) in Inr (n\<lparr>cn_queue := q, cn_saved := save_queue saves q (cn_saved n)\<rparr>))
      else (case log_get (cn_log n) seq of
              None \<Rightarrow> Inl No_Such_Message
            | Some e \<Rightarrow>
                bail_if (ch_from e \<noteq> cn_address n \<or> ch_system e \<or> ch_file e \<noteq> None) Not_Resendable
                  (Inr (enqueue saves (pending_of now (Option.bind (ch_to e) (member_id_at n)) e) n))))"

definition chat_cancel_send :: "bool \<Rightarrow> nat \<Rightarrow> chat_node \<Rightarrow> chat_node" where
  "chat_cancel_send saves seq n =
     (let q = filter (\<lambda>p. pq_seq p \<noteq> seq) (cn_queue n)
      in n\<lparr>cn_queue := q, cn_log := log_mark_failed seq (cn_log n), cn_saved := save_queue saves q (cn_saved n)\<rparr>)"

text \<open>Clearing leaves a line that says so.\<close>

definition own_note :: "chat_env \<Rightarrow> string \<Rightarrow> system_event option \<Rightarrow> chat_node \<Rightarrow> chat_node" where
  "own_note v text ev n =
     n\<lparr>cn_log := snd (log_append (cv_written v (cl_next (cn_log n)))
        ((own_entry v Scope_Network None None text n)\<lparr>ch_system := True, ch_event := ev\<rparr>) (cn_log n))\<rparr>"

definition chat_clear_all :: "chat_env \<Rightarrow> bool \<Rightarrow> chat_node \<Rightarrow> chat_node" where
  "chat_clear_all v saves n =
     own_note v (cv_sentence v Chat_History_Cleared) (Some Chat_History_Cleared)
       (n\<lparr>cn_log := clear_all (cv_rewritten v (cl_next (cn_log n))) (cn_log n), cn_queue := [],
          cn_saved := save_queue saves [] (cn_saved n)\<rparr>)"

definition chat_local_note :: "chat_env \<Rightarrow> string \<Rightarrow> chat_node \<Rightarrow> chat_error + chat_node" where
  "chat_local_note v text n = bail_if (trim text = []) Empty_Text (Inr (own_note v text None n))"

section \<open>The pump\<close>

text \<open>A message to one member goes to the device it was written to: to no other that took over the address.\<close>

definition direct_delivery_target :: "ipv4 option \<Rightarrow> string option \<Rightarrow> ledger_entry list option \<Rightarrow> ipv4 option" where
  "direct_delivery_target to expected ledger =
     (case to of
        None \<Rightarrow> None
      | Some ip \<Rightarrow>
          (case (expected, ledger) of
             (Some i, Some l) \<Rightarrow>
               (case at_ip l ip of
                  None \<Rightarrow> None
                | Some e \<Rightarrow>
                    if le_member_id e = Some i then Some ip
                    else if le_member_id e \<noteq> None then None
                    else Some ip)
           | _ \<Rightarrow> Some ip))"

definition queue_targets :: "chat_node \<Rightarrow> pending_chat \<Rightarrow> ipv4 list" where
  "queue_targets n p =
     (case pq_scope p of
        Scope_Direct \<Rightarrow>
          (case direct_delivery_target (pq_to p) (pq_member p) (cn_ledger n) of Some ip \<Rightarrow> [ip] | None \<Rightarrow> [])
      | Scope_Network \<Rightarrow> map le_ip (filter (\<lambda>e. le_ip e \<noteq> cn_address n \<and> le_online e) (ledger_of n))
      | Scope_Group \<Rightarrow>
          (case pq_group p of
             None \<Rightarrow> []
           | Some i \<Rightarrow>
               (case get_group (cn_groups n) i of
                  None \<Rightarrow> []
                | Some g \<Rightarrow>
                    if cn_address n \<notin> set (gi_members g) then []
                    else map le_ip (filter (\<lambda>e. le_ip e \<noteq> cn_address n \<and> le_online e \<and> le_ip e \<in> set (gi_members g))
                           (ledger_of n)))))"

definition pump_due :: "instant \<Rightarrow> pending_chat list \<Rightarrow> nat list" where
  "pump_due now q = map pq_seq (filter (\<lambda>p. pq_next p \<le> now) q)"

fun take_seq :: "nat \<Rightarrow> pending_chat list \<Rightarrow> (pending_chat \<times> pending_chat list) option" where
  "take_seq seq [] = None"
| "take_seq seq (p # ps) =
     (if pq_seq p = seq then Some (p, ps) else map_option (\<lambda>(x, q). (x, p # q)) (take_seq seq ps))"

text \<open>One attempt at one receiver: \<open>send\<close> tells whether the acknowledgement came.\<close>

definition attempt :: "(ipv4 \<Rightarrow> bool) \<Rightarrow> ipv4 \<Rightarrow> pending_chat \<Rightarrow> pending_chat" where
  "attempt send t p =
     (if t \<in> pq_delivered p then p
      else if send t then p\<lparr>pq_delivered := insert t (pq_delivered p)\<rparr> else p)"

definition pump_done :: "pending_chat \<Rightarrow> bool" where
  "pump_done p =
     (case pq_scope p of
        Scope_Direct \<Rightarrow> (case pq_to p of Some t \<Rightarrow> t \<in> pq_delivered p | None \<Rightarrow> False)
      | _ \<Rightarrow> pq_delivered p \<noteq> {})"

definition pump_finish :: "instant \<Rightarrow> bool \<Rightarrow> pending_chat \<Rightarrow> chat_node \<Rightarrow> chat_node" where
  "pump_finish now saves p n =
     (let n = (if pump_done p then n\<lparr>cn_log := log_clear_failed (pq_seq p) (cn_log n)\<rparr>
               else n\<lparr>cn_log := log_mark_failed (pq_seq p) (cn_log n),
                      cn_queue := cn_queue n @ [p\<lparr>pq_next := now + CHAT_RESEND_INTERVAL\<rparr>]\<rparr>)
      in n\<lparr>cn_saved := save_queue saves (cn_queue n) (cn_saved n)\<rparr>)"

definition pump_one :: "instant \<Rightarrow> bool \<Rightarrow> (ipv4 \<Rightarrow> bool) \<Rightarrow> nat \<Rightarrow> chat_node \<Rightarrow> chat_node" where
  "pump_one now saves send seq n =
     (case take_seq seq (cn_queue n) of
        None \<Rightarrow> n
      | Some (p, q) \<Rightarrow>
          (let n = n\<lparr>cn_queue := q\<rparr>
           in pump_finish now saves (fold (attempt send) (queue_targets n p) p) n))"

definition pump_chat_queue :: "instant \<Rightarrow> bool \<Rightarrow> (nat \<Rightarrow> ipv4 \<Rightarrow> bool) \<Rightarrow> chat_node \<Rightarrow> chat_node" where
  "pump_chat_queue now saves send n = fold (\<lambda>seq. pump_one now saves (send seq) seq) (pump_due now (cn_queue n)) n"

section \<open>Frames of the others\<close>

datatype incoming_error = Chat_Too_Long | Group_Id_Missing | Bad_Group | Not_Entitled

record chat_frame =
  cf_id :: string
  cf_scope :: chat_scope
  cf_group :: "string option"
  cf_text :: string
  cf_sent :: nat

text \<open>The frame a pending message is sent as.\<close>

definition frame_of :: "pending_chat \<Rightarrow> chat_frame" where
  "frame_of p = \<lparr>cf_id = pq_id p, cf_scope = pq_scope p, cf_group = pq_group p, cf_text = pq_text p, cf_sent = pq_sent p\<rparr>"

text \<open>A message that is in the history already is acknowledged again and not stored; \<open>Inr\<close> is the acknowledgement.\<close>

definition handle_chat :: "bool \<Rightarrow> ipv4 \<Rightarrow> ipv4 \<Rightarrow> chat_frame \<Rightarrow> chat_log \<Rightarrow> incoming_error + string \<times> chat_log" where
  "handle_chat writes own peer f l =
     bail_if (MAX_CHAT_TEXT_BYTES < length (cf_text f)) Chat_Too_Long
    (bail_if (cf_scope f = Scope_Group \<and> cf_group f = None) Group_Id_Missing
    (if contains_id l (cf_id f) then Inr (cf_id f, l)
     else Inr (cf_id f, snd (log_append writes
       \<lparr>ch_seq = 0, ch_id = cf_id f, ch_scope = cf_scope f, ch_group = cf_group f, ch_from = peer,
        ch_to = (case cf_scope f of Scope_Direct \<Rightarrow> Some own | _ \<Rightarrow> None), ch_text = cf_text f, ch_sent = cf_sent f,
        ch_failed = False, ch_file = None, ch_system = False, ch_event = None\<rparr> l))))"

definition MAX_GROUP_NAME_BYTES :: nat where "MAX_GROUP_NAME_BYTES = 256"

definition MAX_GROUP_MEMBERS :: nat where "MAX_GROUP_MEMBERS = 250"

definition group_line :: "chat_env \<Rightarrow> group_info \<Rightarrow> system_event \<Rightarrow> chat_log \<Rightarrow> chat_log" where
  "group_line v g ev l =
     snd (log_append (cv_written v (cl_next l))
       \<lparr>ch_seq = 0, ch_id = cv_id v (cl_next l), ch_scope = Scope_Group, ch_group = Some (gi_id g), ch_from = gi_updated_by g,
        ch_to = None, ch_text = cv_sentence v ev, ch_sent = cv_now v (cl_next l), ch_failed = False, ch_file = None,
        ch_system = True, ch_event = Some ev\<rparr> l)"

text \<open>A group is stored and what changed is told in its conversation.\<close>

definition adopt_group :: "chat_env \<Rightarrow> (ipv4 \<Rightarrow> string) \<Rightarrow> group_info \<Rightarrow> chat_node \<Rightarrow> chat_node" where
  "adopt_group v name_of g n =
     (let (applied, store) = apply_group g (cn_groups n);
          n = n\<lparr>cn_groups := store\<rparr>
      in case applied of
           None \<Rightarrow> n
         | Some u \<Rightarrow>
             n\<lparr>cn_log := fold (group_line v g) (system_messages (ag_previous u) g (cn_address n) name_of) (cn_log n)\<rparr>)"

definition handle_group_update :: "chat_env \<Rightarrow> (ipv4 \<Rightarrow> string) \<Rightarrow> ipv4 \<Rightarrow> group_info \<Rightarrow> chat_node \<Rightarrow> incoming_error + string \<times> chat_node" where
  "handle_group_update v name_of peer g n =
     bail_if (gi_id g = [] \<or> gi_name g = [] \<or> MAX_GROUP_NAME_BYTES < length (gi_name g) \<or> MAX_GROUP_MEMBERS < length (gi_members g))
       Bad_Group
    (bail_if (\<not> accepts_update (cn_groups n) g peer) Not_Entitled
      (Inr (gi_id g, adopt_group v name_of g (n\<lparr>cn_groups := mark_acked (gi_id g) peer (gi_revision g) (cn_groups n)\<rparr>))))"

section \<open>Chat groups\<close>

definition valid_group_name :: "string \<Rightarrow> chat_error + string" where
  "valid_group_name name =
     (let t = trim name
      in bail_if (t = []) Empty_Group_Name (bail_if (MAX_GROUP_NAME_BYTES < length t) Group_Name_Too_Long (Inr t)))"

definition host_ip_of :: "chat_node \<Rightarrow> ipv4 option" where
  "host_ip_of n = (if cn_is_host n then None else map_option le_ip (find le_is_host (ledger_of n)))"

text \<open>The members that are sent the new copy at once: the recipients that are online.\<close>

definition propagate_group :: "ipv4 list \<Rightarrow> chat_node \<Rightarrow> ipv4 list" where
  "propagate_group recipients n =
     map le_ip (filter (\<lambda>e. le_ip e \<noteq> cn_address n \<and> le_online e \<and> le_ip e \<in> set recipients) (ledger_of n))"

definition with_host :: "ipv4 list \<Rightarrow> chat_node \<Rightarrow> ipv4 list" where
  "with_host recipients n =
     (case host_ip_of n of Some h \<Rightarrow> if h \<in> set recipients then recipients else recipients @ [h] | None \<Rightarrow> recipients)"

text \<open>The names in the lines about a group; \<open>own\<close> is the word for the device itself.\<close>

definition shown_name :: "string \<Rightarrow> chat_node \<Rightarrow> ipv4 \<Rightarrow> string" where
  "shown_name own n ip =
     (if ip = cn_address n then own
      else (case at_ip (ledger_of n) ip of
              Some e \<Rightarrow> (case le_name e of Some x \<Rightarrow> x | None \<Rightarrow> ip_text ip)
            | None \<Rightarrow> ip_text ip))"

fun group_members_of :: "chat_node \<Rightarrow> ipv4 list \<Rightarrow> ipv4 list \<Rightarrow> chat_error + ipv4 list" where
  "group_members_of n acc [] = Inr acc"
| "group_members_of n acc (ip # ips) =
     (if ip \<in> set acc then group_members_of n acc ips
      else if at_ip (ledger_of n) ip = None then Inl (No_Such_Member ip)
      else group_members_of n (acc @ [ip]) ips)"

definition group_create :: "chat_env \<Rightarrow> string \<Rightarrow> string \<Rightarrow> string \<Rightarrow> ipv4 list \<Rightarrow> chat_node
    \<Rightarrow> chat_error + group_info \<times> ipv4 list \<times> chat_node" where
  "group_create v own new_id name members n =
     and_then (valid_group_name name) (\<lambda>name.
     and_then (group_members_of n [cn_address n] members) (\<lambda>ms.
     bail_if (length ms < 2) Group_Too_Small
    (bail_if (MAX_GROUP_MEMBERS < length ms) Too_Many_Members
    (let g = \<lparr>gi_id = new_id, gi_name = name, gi_members = ms, gi_revision = 1, gi_updated_by = cn_address n\<rparr>
     in Inr (g, propagate_group (with_host ms n) n, adopt_group v (shown_name own n) g n)))))"

definition own_group :: "chat_node \<Rightarrow> string \<Rightarrow> chat_error + group_info" where
  "own_group n i =
     (case get_group (cn_groups n) i of
        None \<Rightarrow> Inl Group_Unknown
      | Some g \<Rightarrow> if cn_address n \<in> set (gi_members g) then Inr g else Inl Not_In_Group)"

definition group_update :: "chat_env \<Rightarrow> string \<Rightarrow> string \<Rightarrow> string option \<Rightarrow> ipv4 list \<Rightarrow> ipv4 list \<Rightarrow> chat_node
    \<Rightarrow> chat_error + group_info \<times> ipv4 list \<times> chat_node" where
  "group_update v own i name add remove n =
     and_then (own_group n i) (\<lambda>g.
     and_then (case name of None \<Rightarrow> Inr (gi_name g) | Some x \<Rightarrow> valid_group_name x) (\<lambda>name.
     and_then (group_members_of n (gi_members g) add) (\<lambda>ms.
     bail_if (cn_address n \<in> set remove) Self_Not_Removable
    (let ms = filter (\<lambda>ip. ip \<notin> set remove) ms
     in bail_if (MAX_GROUP_MEMBERS < length ms) Too_Many_Members
       (let g = g\<lparr>gi_name := name, gi_members := ms, gi_revision := gi_revision g + 1, gi_updated_by := cn_address n\<rparr>
        in Inr (g, propagate_group (with_host (ms @ remove) n) n, adopt_group v (shown_name own n) g n))))))"

definition group_leave :: "chat_env \<Rightarrow> string \<Rightarrow> string \<Rightarrow> chat_node \<Rightarrow> chat_error + ipv4 list \<times> chat_node" where
  "group_leave v own i n =
     and_then (own_group n i) (\<lambda>g.
     let g = g\<lparr>gi_members := filter (\<lambda>ip. ip \<noteq> cn_address n) (gi_members g), gi_revision := gi_revision g + 1,
               gi_updated_by := cn_address n\<rparr>
     in Inr (propagate_group (with_host (gi_members g) n) n, adopt_group v (shown_name own n) g n))"

section \<open>The pass over the ledger\<close>

text \<open>Members of own groups that the ledger does not know leave them as well.\<close>

definition unknown_members :: "ledger_entry list \<Rightarrow> chat_node \<Rightarrow> ipv4 list \<Rightarrow> ipv4 list" where
  "unknown_members ledger n stale =
     foldl (\<lambda>acc ip. if ip \<noteq> cn_address n \<and> at_ip ledger ip = None \<and> ip \<notin> set acc then acc @ [ip] else acc) stale
       (concat (map gi_members (filter (\<lambda>g. cn_address n \<in> set (gi_members g)) (all_groups (cn_groups n)))))"

definition reconcile_node :: "chat_env \<Rightarrow> bool \<Rightarrow> string \<Rightarrow> chat_node \<Rightarrow> chat_node" where
  "reconcile_node v saves own n =
     (case cn_ledger n of
        None \<Rightarrow> n
      | Some ledger \<Rightarrow>
          (let (r, known, l, q, saved) =
                 reconcile_identities v saves (cn_address n) ledger (cn_known n) (cn_log n) (cn_queue n) (cn_saved n);
               n = n\<lparr>cn_known := known, cn_log := l, cn_queue := q, cn_saved := saved\<rparr>
           in if at_ip ledger (cn_address n) = None then n
              else fold (adopt_group v (shown_name own n))
                     (prune_departed (cn_groups n) (unknown_members ledger n (outcome_all r)) (cn_address n)) n))"

text \<open>A restart reads the history, the queue, the groups and the known members from their files.\<close>

definition restart_node :: "instant \<Rightarrow> chat_node \<Rightarrow> chat_node" where
  "restart_node now n =
     n\<lparr>cn_ledger := None, cn_log := chat_load (cl_file (cn_log n)), cn_queue := load_queue now (cn_saved n),
       cn_groups := load_groups (saved_groups (cn_groups n))\<rparr>"

end
