(* ===== verification/Chat_Laws.thy ===== *)
theory Chat_Laws
  imports Chat_Node
begin

text \<open>
  What the history promises: numbers that grow, a bounded length, a file from which a restart takes it over, and pages that
  show every line once.
\<close>

section \<open>The invariant of the history\<close>

definition file_entries :: "chat_log \<Rightarrow> chat_entry list" where
  "file_entries l = List.map_filter (\<lambda>x. x) (cl_file l)"

definition in_order :: "nat \<Rightarrow> chat_entry list \<Rightarrow> bool" where
  "in_order n es \<longleftrightarrow> sorted_wrt (<) (map ch_seq es) \<and> (\<forall>e \<in> set es. 0 < ch_seq e \<and> ch_seq e < n)"

definition log_ok :: "chat_log \<Rightarrow> bool" where
  "log_ok l \<longleftrightarrow> in_order (cl_next l) (cl_entries l) \<and> in_order (cl_next l) (file_entries l) \<and> 0 < cl_next l
     \<and> length (cl_entries l) \<le> MAX_HISTORY \<and> cl_lines l = length (cl_file l) \<and> (\<forall>e \<in> set (file_entries l). \<not> ch_failed e)"

definition file_current :: "chat_log \<Rightarrow> bool" where
  "file_current l \<longleftrightarrow> map persisted (cl_entries l) = last_n MAX_HISTORY (file_entries l)"

lemma persisted_simps [simp]:
  "ch_seq (persisted e) = ch_seq e" "ch_id (persisted e) = ch_id e" "persisted (persisted e) = persisted e"
  by (simp_all add: persisted_def)

text \<open>Histories: every operation, and restarts. The flag tells that all writes succeeded.\<close>

inductive log_run :: "bool \<Rightarrow> chat_log \<Rightarrow> bool" where
  start: "log_run True (chat_load [])"
| append: "log_run full l \<Longrightarrow> log_run (full \<and> ok) (snd (log_append ok e l))"
| mark: "log_run full l \<Longrightarrow> log_run full (log_mark_failed seq l)"
| unmark: "log_run full l \<Longrightarrow> log_run full (log_clear_failed seq l)"
| clear_direct: "log_run full l \<Longrightarrow> log_run (full \<and> ok) (snd (clear_direct ok ip l))"
| clear_all: "log_run full l \<Longrightarrow> log_run (full \<and> ok) (clear_all ok l)"
| restart: "log_run full l \<Longrightarrow> log_run full (chat_load (cl_file l))"

lemma set_failed_seqs [simp]: "map ch_seq (set_failed b seq es) = map ch_seq es" "length (set_failed b seq es) = length es"
  by (induction es) auto

lemma set_failed_persisted [simp]: "map persisted (set_failed b seq es) = map persisted es"
  by (induction es) (auto simp: persisted_def)

lemma log_fields [simp]:
  "cl_entries (write_entry ok e l) = cl_entries l" "cl_next (write_entry ok e l) = cl_next l"
  "cl_entries (log_rewrite ok l) = cl_entries l" "cl_next (log_rewrite ok l) = cl_next l"
  by (simp_all add: write_entry_def log_rewrite_def)

lemma appended_entries:
  "cl_entries (snd (log_append ok e l)) =
     (let es = cl_entries l @ [e\<lparr>ch_seq := cl_next l\<rparr>] in if MAX_HISTORY < length es then tl es else es)"
  "cl_next (snd (log_append ok e l)) = cl_next l + 1"
  by (simp_all add: log_append_def Let_def)

lemma last_n_snoc: "0 < n \<Longrightarrow> last_n n (xs @ [x]) = (let ys = last_n n xs @ [x] in if n < length ys then tl ys else ys)"
  by (auto simp: last_n_def Let_def tl_drop Suc_diff_le not_less drop_Suc)

lemma last_n_short: "length xs \<le> n \<Longrightarrow> last_n n xs = xs"
  by (simp add: last_n_def)

lemma map_last_n: "map f (last_n n xs) = last_n n (map f xs)"
  by (simp add: last_n_def drop_map)

lemma length_last_n: "length (last_n n xs) = min n (length xs)"
  by (simp add: last_n_def)

lemma set_last_n: "set (last_n n xs) \<subseteq> set xs"
  by (simp add: last_n_def set_drop_subset)

lemma max_history_pos [simp]: "0 < MAX_HISTORY"
  by (simp add: MAX_HISTORY_def)

lemma map_filter_Some: "List.map_filter (\<lambda>x. x) (map (\<lambda>e. Some (f e)) es) = map f es"
  by (induction es) (simp_all add: map_filter_simps)

lemma map_filter_snoc: "List.map_filter f (xs @ [x]) = List.map_filter f xs @ (case f x of Some y \<Rightarrow> [y] | None \<Rightarrow> [])"
  by (simp add: List.map_filter_def split: option.split)

lemma numbered_Nil [simp]: "in_order n []"
  by (simp add: in_order_def)

lemma numbered_snoc: "in_order n es \<Longrightarrow> ch_seq e = n \<Longrightarrow> 0 < n \<Longrightarrow> in_order (n + 1) (es @ [e])"
  by (auto simp: in_order_def sorted_wrt_append)

lemma numbered_mono: "in_order n es \<Longrightarrow> n \<le> m \<Longrightarrow> in_order m es"
  by (auto simp: in_order_def)

lemma numbered_filter: "in_order n es \<Longrightarrow> in_order n (filter P es)"
  by (auto simp: in_order_def sorted_wrt_filter sorted_wrt_map)

lemma numbered_drop: "in_order n es \<Longrightarrow> in_order n (drop k es)"
  by (auto simp: in_order_def sorted_wrt_drop drop_map [symmetric] dest: in_set_dropD)

lemma numbered_tl: "in_order n es \<Longrightarrow> in_order n (tl es)"
  using numbered_drop [of n es 1] by (simp add: drop_Suc)

lemma numbered_cong: "map ch_seq es = map ch_seq fs \<Longrightarrow> in_order n es = in_order n fs"
proof -
  assume m: "map ch_seq es = map ch_seq fs"
  then have "ch_seq ` set es = ch_seq ` set fs" by (metis list.set_map)
  then have "(\<forall>k \<in> ch_seq ` set es. 0 < k \<and> k < n) = (\<forall>k \<in> ch_seq ` set fs. 0 < k \<and> k < n)" by simp
  then show ?thesis by (simp add: in_order_def m)
qed

lemma numbered_last: "in_order n es \<Longrightarrow> es \<noteq> [] \<Longrightarrow> 0 < n \<Longrightarrow> in_order (ch_seq (last es) + 1) es"
proof -
  assume n: "in_order n es" and ne: "es \<noteq> []"
  obtain ys y where es: "es = ys @ [y]" using ne by (metis rev_exhaust)
  show ?thesis using n by (auto simp: in_order_def es sorted_wrt_append less_Suc_eq)
qed

lemma file_simps:
  "file_entries (log_rewrite True l) = map persisted (cl_entries l)"
  "file_entries (log_rewrite False l) = file_entries l" "cl_lines (log_rewrite False l) = cl_lines l"
  "cl_lines (log_rewrite True l) = length (cl_file (log_rewrite True l))" "cl_file (log_rewrite False l) = cl_file l"
  by (simp_all add: file_entries_def log_rewrite_def map_filter_Some)

lemma rewrite_ok:
  assumes "log_ok l" and "in_order (cl_next l) es" and "length es \<le> MAX_HISTORY"
  shows "log_ok (log_rewrite ok (l\<lparr>cl_entries := es, cl_generation := g\<rparr>))"
    and "ok \<Longrightarrow> file_current (log_rewrite ok (l\<lparr>cl_entries := es, cl_generation := g\<rparr>))"
proof -
  have p: "in_order (cl_next l) (map persisted es)" using assms(2) numbered_cong [of "map persisted es" es] by (simp add: comp_def)
  show "log_ok (log_rewrite ok (l\<lparr>cl_entries := es, cl_generation := g\<rparr>))"
    using assms p by (cases ok) (simp_all add: log_ok_def file_simps, simp_all add: file_entries_def persisted_def)
  show "file_current (log_rewrite ok (l\<lparr>cl_entries := es, cl_generation := g\<rparr>))" if ok
    using that assms(3) by (simp add: file_current_def file_simps last_n_short)
qed

lemma append_ok:
  assumes "log_ok l"
  shows "log_ok (snd (log_append ok e l))" and "ok \<Longrightarrow> file_current l \<Longrightarrow> file_current (snd (log_append ok e l))"
proof -
  define e' where "e' = e\<lparr>ch_seq := cl_next l\<rparr>"
  define es where "es = (let es = cl_entries l @ [e'] in if MAX_HISTORY < length es then tl es else es)"
  define l' where "l' = l\<lparr>cl_entries := es, cl_next := cl_next l + 1\<rparr>"
  have a: "snd (log_append ok e l) = write_entry ok e' l'" by (simp add: log_append_def Let_def e'_def es_def l'_def)
  have num: "in_order (cl_next l') (cl_entries l @ [e'])"
    using assms numbered_snoc [of "cl_next l" "cl_entries l" e'] by (simp add: log_ok_def l'_def e'_def)
  then have es: "in_order (cl_next l') es" "length es \<le> MAX_HISTORY"
    using numbered_tl [OF num] assms by (auto simp: es_def Let_def log_ok_def)
  have l': "log_ok l'" using assms es numbered_mono [of "cl_next l" "file_entries l" "cl_next l + 1"]
    by (simp add: log_ok_def l'_def file_entries_def)
  have "in_order (cl_next l') (file_entries l @ [persisted e'])"
    using assms numbered_snoc [of "cl_next l" "file_entries l" "persisted e'"] by (simp add: log_ok_def l'_def e'_def)
  then have w: "log_ok (l'\<lparr>cl_file := cl_file l' @ [Some (persisted e')], cl_lines := cl_lines l' + 1\<rparr>)"
    using l' by (simp add: log_ok_def file_entries_def map_filter_snoc l'_def persisted_def)
  have r: "log_rewrite ok l' = log_rewrite ok (l'\<lparr>cl_entries := es, cl_generation := cl_generation l'\<rparr>)"
    by (cases l) (simp add: l'_def)
  show "log_ok (snd (log_append ok e l))"
    using rewrite_ok(1) [OF l' es, of ok "cl_generation l'", folded r] w l' unfolding a write_entry_def by simp
  show "file_current (snd (log_append ok e l))" if "ok" and "file_current l"
  proof (cases "REWRITE_THRESHOLD \<le> cl_lines l'")
    case True
    then show ?thesis using rewrite_ok(2) [OF l' es that(1), of "cl_generation l'", folded r] unfolding a write_entry_def by simp
  next
    case False
    have len: "length (last_n MAX_HISTORY (file_entries l)) = length (cl_entries l)"
      using that(2) unfolding file_current_def by (metis length_map)
    have "map persisted es = last_n MAX_HISTORY (file_entries l @ [persisted e'])"
      using that(2) len by (simp add: file_current_def last_n_snoc es_def Let_def map_tl)
    then show ?thesis using False that(1) unfolding a write_entry_def
      by (simp add: l'_def file_current_def file_entries_def map_filter_snoc)
  qed
qed

lemma load_ok:
  assumes "in_order n (List.map_filter (\<lambda>x. x) file)" and "\<forall>e \<in> set (List.map_filter (\<lambda>x. x) file). \<not> ch_failed e"
  shows "log_ok (chat_load file)" and "file_current (chat_load file)"
proof -
  define F where "F = List.map_filter (\<lambda>x. x) file"
  define es where "es = last_n MAX_HISTORY F"
  have ne: "es = [] \<longleftrightarrow> F = []" using diff_less [OF _ max_history_pos, of "length F"] by (cases "F = []") (auto simp: es_def last_n_def not_le)
  have last: "F \<noteq> [] \<Longrightarrow> last es = last F" using ne by (simp add: es_def last_n_def)
  have n: "in_order (if es = [] then 1 else ch_seq (last es) + 1) F"
    using assms(1) numbered_last [of n F] ne last by (cases "F = []") (auto simp: F_def [symmetric] in_order_def)
  then have "in_order (if es = [] then 1 else ch_seq (last es) + 1) es" by (simp add: es_def last_n_def numbered_drop)
  then show "log_ok (chat_load file)" using n assms(2)
    by (simp add: log_ok_def chat_load_def file_entries_def F_def [symmetric] es_def [symmetric] length_last_n Let_def)
      (simp add: es_def length_last_n)
  have "\<forall>e \<in> set es. persisted e = e" using assms(2) set_last_n [of MAX_HISTORY F] by (auto simp: es_def F_def persisted_def)
  then show "file_current (chat_load file)"
    by (simp add: file_current_def chat_load_def file_entries_def F_def [symmetric] es_def [symmetric] Let_def map_idI)
qed

lemma log_run_ok: "log_run full l \<Longrightarrow> log_ok l \<and> (full \<longrightarrow> file_current l)"
proof (induction rule: log_run.induct)
  case start
  show ?case using load_ok [of 1 "[]"] by (simp add: map_filter_simps)
next
  case (append full l ok e)
  then show ?case using append_ok by blast
next
  case (mark full l seq)
  then show ?case using numbered_cong [OF set_failed_seqs(1)]
    by (simp add: log_ok_def file_current_def log_mark_failed_def file_entries_def)
next
  case (unmark full l seq)
  then show ?case using numbered_cong [OF set_failed_seqs(1)]
    by (simp add: log_ok_def file_current_def log_clear_failed_def file_entries_def)
next
  case (clear_direct full l ok ip)
  let ?es = "filter (\<lambda>e. \<not> direct_with ip e) (cl_entries l)"
  have "in_order (cl_next l) ?es" "length ?es \<le> MAX_HISTORY"
    using clear_direct.IH numbered_filter le_trans [OF length_filter_le] by (auto simp: log_ok_def)
  then show ?case using rewrite_ok clear_direct.IH by (simp add: clear_direct_def Let_def)
next
  case (clear_all full l ok)
  then show ?case using rewrite_ok [of l "[]"] by (simp add: clear_all_def)
next
  case (restart full l)
  then show ?case using load_ok [of "cl_next l" "cl_file l"] by (simp add: log_ok_def file_entries_def)
qed

section \<open>Pages\<close>

lemma page_prefix: "page n b es = take (length (page n b es)) es"
  by (induction es arbitrary: n b) (simp_all add: Let_def)

lemma page_some: "es \<noteq> [] \<Longrightarrow> 0 < length (page 0 b es)"
  by (cases es) (simp_all add: Let_def)

lemma page_count: "n \<le> MAX_CHAT_MESSAGES_PER_REPLY \<Longrightarrow> n + length (page n b es) \<le> MAX_CHAT_MESSAGES_PER_REPLY"
proof (induction es arbitrary: n b)
  case (Cons e es)
  have "0 < MAX_CHAT_MESSAGES_PER_REPLY" by (simp add: MAX_CHAT_MESSAGES_PER_REPLY_def)
  then show ?case using Cons.IH [of "n + 1"] Cons.prems by (auto simp: Let_def)
qed simp

definition reply_bytes :: "chat_entry list \<Rightarrow> nat" where
  "reply_bytes es = sum_list (map (\<lambda>e. length (ch_text e) + 256) es)"

lemma page_bytes: "n \<noteq> 0 \<Longrightarrow> page n b es = [] \<or> b + reply_bytes (page n b es) \<le> MAX_CHAT_BYTES_PER_REPLY"
proof (induction es arbitrary: n b)
  case (Cons e es)
  show ?case
  proof (cases "n \<noteq> 0 \<and> (MAX_CHAT_MESSAGES_PER_REPLY \<le> n \<or> MAX_CHAT_BYTES_PER_REPLY < b + (length (ch_text e) + 256))")
    case False
    then show ?thesis using Cons.IH [of "n + 1" "b + (length (ch_text e) + 256)"] Cons.prems
      by (auto simp: reply_bytes_def)
  qed (simp add: Let_def)
qed simp

lemma page_fits: "length (page 0 0 es) \<le> 1 \<or> reply_bytes (page 0 0 es) \<le> MAX_CHAT_BYTES_PER_REPLY"
proof (cases es)
  case (Cons e rest)
  then show ?thesis using page_bytes [of 1 "length (ch_text e) + 256" rest]
    by (cases "page 1 (length (ch_text e) + 256) rest = []") (auto simp: reply_bytes_def Let_def)
qed simp

lemma after_page:
  assumes "in_order n es" and "0 < k" and "k \<le> length es"
  shows "filter (\<lambda>e. ch_seq (last (take k es)) < ch_seq e) es = drop k es"
proof -
  obtain xs x where t: "take k es = xs @ [x]" using assms(2,3) by (metis rev_exhaust take_eq_Nil length_greater_0_conv less_le_trans not_less_zero)
  have e: "es = xs @ [x] @ drop k es" using t by (metis append_assoc append_take_drop_id)
  have s: "sorted_wrt (<) (map ch_seq (xs @ [x] @ drop k es))" using assms(1) e by (simp add: in_order_def)
  have "filter (\<lambda>e. ch_seq x < ch_seq e) (xs @ [x] @ ys) = ys" if "sorted_wrt (<) (map ch_seq (xs @ [x] @ ys))" for ys
    using that by (auto simp: sorted_wrt_append filter_empty_conv intro!: filter_True)
  note key = this [OF s]
  have "filter (\<lambda>e. ch_seq x < ch_seq e) es = filter (\<lambda>e. ch_seq x < ch_seq e) (xs @ [x] @ drop k es)"
    by (rule arg_cong [OF e])
  also note key
  finally show ?thesis by (simp add: t)
qed

lemma filter_later:
  assumes "a \<le> b"
  shows "filter (\<lambda>e. b < ch_seq e) (filter (\<lambda>e. a < ch_seq e) es) = filter (\<lambda>e. b < ch_seq e) es"
  using assms by (auto intro!: filter_cong)

lemma read_log_rest:
  assumes "in_order n (cl_entries l)" and "\<forall>e \<in> set (cl_entries l). ch_seq e \<le> latest_seq l"
    and "filter (\<lambda>e. after < ch_seq e) (cl_entries l) = [] \<longrightarrow> latest_seq l \<le> after"
    and "cl_entries l \<noteq> [] \<longrightarrow> ch_seq (last (cl_entries l)) = latest_seq l"
  shows "read_log l after = Some (filter (\<lambda>e. after < ch_seq e) (cl_entries l))"
  using assms(3)
proof (induction "length (filter (\<lambda>e. after < ch_seq e) (cl_entries l))" arbitrary: after rule: less_induct)
  case less
  define es where "es = filter (\<lambda>e. after < ch_seq e) (cl_entries l)"
  show ?case
  proof (cases "es = []")
    case True
    then have "latest_seq l \<le> after" using less.prems by (simp add: es_def)
    then show ?thesis using True by (subst read_log.simps) (simp add: log_fetch_def es_def [symmetric])
  next
    case False
    define k where "k = length (page 0 0 es)"
    have p: "page 0 0 es = take k es" using page_prefix [of 0 0 es] by (simp add: k_def)
    have "length (take k es) = k" using p by (simp add: k_def [symmetric] flip: p)
    then have k: "0 < k" "k \<le> length es" using page_some [OF False, of 0] by (simp_all add: k_def [symmetric])
    have num: "in_order n es" using assms(1) by (simp add: es_def numbered_filter)
    define a where "a = ch_seq (last (take k es))"
    have "take k es \<noteq> []" using k False by simp
    then have mem: "last (take k es) \<in> set es" using in_set_takeD last_in_set by metis
    then have up: "after < a" by (simp add: a_def es_def)
    have "last (take k es) \<in> set (cl_entries l)" using mem by (simp add: es_def)
    then have lt: "after < latest_seq l" using up assms(2) by (auto simp: a_def)
    have rest: "filter (\<lambda>e. a < ch_seq e) (cl_entries l) = drop k es"
      using after_page [OF num k] filter_later [of after a "cl_entries l"] up by (simp add: a_def es_def)
    have unfold: "read_log l after = (if latest_seq l \<le> a then Some (take k es)
        else Option.bind (read_log l a) (\<lambda>rest. Some (take k es @ rest)))"
      using k False by (subst read_log.simps) (simp add: log_fetch_def es_def [symmetric] p a_def)
    show ?thesis
    proof (cases "latest_seq l \<le> a")
      case True
      then have "drop k es = []" using assms(2) rest [symmetric] by (auto simp: filter_empty_conv)
      then show ?thesis using True unfold k by (simp add: es_def [symmetric])
    next
      case False
      have "drop k es \<noteq> []"
      proof
        assume "drop k es = []"
        then have "last (take k es) = last es" by simp
        moreover have "last es = last (cl_entries l)"
        proof -
          obtain zs z where z: "cl_entries l = zs @ [z]" using \<open>es \<noteq> []\<close> by (cases "cl_entries l" rule: rev_cases) (auto simp: es_def)
          moreover from this have "after < ch_seq z" using lt assms(4) by simp
          ultimately show ?thesis by (simp add: es_def)
        qed
        ultimately have "a = latest_seq l" using assms(4) \<open>es \<noteq> []\<close> by (auto simp: a_def es_def)
        then show False using False by simp
      qed
      then have "read_log l a = Some (drop k es)"
        using less.hyps [of a] k rest False by (simp add: es_def [symmetric])
      then show ?thesis using False unfold by (simp add: es_def [symmetric])
    qed
  qed
qed

section \<open>Properties of the history\<close>

text \<open>
  C39: A restart finds the history: whatever was appended, marked, cleared and restarted before, as long as every write
  succeeded, the file read again gives the same lines, without the marks of failed deliveries, which are not kept. Lines are
  in_order in growing order, and at most ten thousand are kept.
\<close>

theorem chat_history_survives:
  assumes "log_run True l"
  shows "cl_entries (chat_load (cl_file l)) = map persisted (cl_entries l)
     \<and> sorted_wrt (<) (map ch_seq (cl_entries l)) \<and> length (cl_entries l) \<le> MAX_HISTORY"
  using log_run_ok [OF assms]
  by (simp add: log_ok_def in_order_def file_current_def file_entries_def chat_load_def Let_def)


definition sample_line :: "string \<Rightarrow> chat_entry" where
  "sample_line t = \<lparr>ch_seq = 0, ch_id = t, ch_scope = Scope_Direct, ch_group = None, ch_from = 0x0A000001,
     ch_to = Some 0x0A000002, ch_text = t, ch_sent = 7, ch_failed = False, ch_file = None, ch_system = False, ch_event = None\<rparr>"

definition two_lines :: chat_log where
  "two_lines = snd (log_append True (sample_line ''b'') (snd (log_append True (sample_line ''a'') (chat_load []))))"

lemma two_lines_run: "log_run True two_lines"
  using log_run.append [OF log_run.append [OF log_run.start, of True], of True] by (simp add: two_lines_def)

lemma two_lines_entries: "map ch_text (cl_entries two_lines) = [''a'', ''b'']" "map ch_seq (cl_entries two_lines) = [1, 2]"
  by (simp_all add: two_lines_def appended_entries Let_def MAX_HISTORY_def chat_load_def last_n_def map_filter_simps sample_line_def)

lemma chat_history_survives_witness:
  "\<exists>l. log_run True l \<and> map ch_seq (cl_entries (chat_load (cl_file l))) = [1, 2]"
  using chat_history_survives [OF log_run.mark [OF two_lines_run, of 1]] log_run.mark [OF two_lines_run, of 1] two_lines_entries
  by (intro exI [of _ "log_mark_failed 1 two_lines"]) (simp add: log_mark_failed_def comp_def)


end
