(* ===== verification/Chat_Delivery.thy ===== *)
theory Chat_Delivery
  imports Chat_Laws
begin

text \<open>
  Messages between devices: a world of one sender, the deliveries that are under way, and the histories of the others. A
  message is in the queue, under way, given up by its user, or stored by its receiver; it is stored there once; and a message
  to one member goes to the device it was meant for.
\<close>

section \<open>The world\<close>

text \<open>
  What is under way: a message, the receivers that remain to be tried, and the ledger its receivers were chosen by. The rest
  is history: what the others stored of this device, what its user sent and for whom, and what was cancelled or discarded.
\<close>

type_synonym flight = "pending_chat \<times> ipv4 list \<times> ledger_entry list option"

record msg_world =
  mw_node :: chat_node
  mw_flight :: "flight list"
  mw_logs :: "ipv4 \<Rightarrow> chat_log"
  mw_got :: "(ipv4 \<times> chat_frame \<times> ledger_entry list option) list"
  mw_sent :: "chat_entry list"
  mw_meant :: "(string \<times> string option) set"
  mw_stopped :: "string set"

definition queue_ids :: "pending_chat list \<Rightarrow> string set" where
  "queue_ids q = pq_id ` set q"

definition saved_queue :: "chat_node \<Rightarrow> pending_chat list" where
  "saved_queue n = (case cn_saved n of None \<Rightarrow> [] | Some q \<Rightarrow> q)"

definition meant_by :: "pending_chat list \<Rightarrow> (string \<times> string option) set" where
  "meant_by q = (\<lambda>p. (pq_id p, pq_member p)) ` set q"

definition sent_ids :: "msg_world \<Rightarrow> string set" where
  "sent_ids w = ch_id ` set (mw_sent w)"

definition under_way :: "msg_world \<Rightarrow> pending_chat list" where
  "under_way w = map fst (mw_flight w)"

text \<open>Steps of the device that leave the queue alone.\<close>

inductive quiet_chat :: "chat_node \<Rightarrow> chat_node \<Rightarrow> bool" where
  noted: "quiet_chat n (own_note v text ev n)"
| ledger_came: "quiet_chat n (n\<lparr>cn_ledger := ledger\<rparr>)"
| created: "group_create v own i name ms n = Inr (g, ts, n') \<Longrightarrow> quiet_chat n n'"
| updated: "group_update v own i name add remove n = Inr (g, ts, n') \<Longrightarrow> quiet_chat n n'"
| departed: "group_leave v own i n = Inr (ts, n') \<Longrightarrow> quiet_chat n n'"
| heard: "peer \<noteq> cn_address n \<Longrightarrow> handle_chat ok (cn_address n) peer f (cn_log n) = Inr (a, l) \<Longrightarrow> quiet_chat n (n\<lparr>cn_log := l\<rparr>)"
| told: "handle_group_update v name_of peer g n = Inr (a, n') \<Longrightarrow> quiet_chat n n'"
| acked: "quiet_chat n (n\<lparr>cn_groups := mark_acked i peer r (cn_groups n)\<rparr>)"

text \<open>
  Identifiers are fresh where they are made: a sent message has one that no history holds, and what others write has none of a
  message sent here. The acknowledgement of a stored message may be lost.
\<close>

inductive msg_run :: "msg_world \<Rightarrow> bool" where
  start: "cn_queue n = [] \<Longrightarrow> cn_saved n = None \<Longrightarrow> cn_log n = chat_load [] \<Longrightarrow> (\<And>t. distinct (map ch_id (cl_entries (logs t))))
    \<Longrightarrow> msg_run \<lparr>mw_node = n, mw_flight = [], mw_logs = logs, mw_got = [], mw_sent = [], mw_meant = {}, mw_stopped = {}\<rparr>"
| sends: "msg_run w \<Longrightarrow> chat_send v now saves scope peer gid text (mw_node w) = Inr (e, n') \<Longrightarrow> ch_id e \<notin> sent_ids w
    \<Longrightarrow> (\<And>t. \<not> contains_id (mw_logs w t) (ch_id e))
    \<Longrightarrow> msg_run (w\<lparr>mw_node := n', mw_sent := mw_sent w @ [e], mw_meant := mw_meant w \<union> meant_by (cn_queue n')\<rparr>)"
| resends: "msg_run w \<Longrightarrow> chat_resend now saves seq (mw_node w) = Inr n'
    \<Longrightarrow> msg_run (w\<lparr>mw_node := n', mw_meant := mw_meant w \<union> meant_by (cn_queue n')\<rparr>)"
| cancels: "msg_run w \<Longrightarrow> n' = chat_cancel_send saves seq (mw_node w)
    \<Longrightarrow> msg_run (w\<lparr>mw_node := n', mw_stopped := mw_stopped w \<union> (queue_ids (cn_queue (mw_node w)) - queue_ids (cn_queue n'))\<rparr>)"
| clears: "msg_run w \<Longrightarrow> msg_run (w\<lparr>mw_node := chat_clear_all v saves (mw_node w),
      mw_stopped := mw_stopped w \<union> queue_ids (cn_queue (mw_node w))\<rparr>)"
| reconciles: "msg_run w \<Longrightarrow> n' = reconcile_node v saves own (mw_node w)
    \<Longrightarrow> msg_run (w\<lparr>mw_node := n', mw_stopped := mw_stopped w \<union> (queue_ids (cn_queue (mw_node w)) - queue_ids (cn_queue n'))\<rparr>)"
| restarts: "msg_run w \<Longrightarrow> n' = restart_node now (mw_node w)
    \<Longrightarrow> msg_run (w\<lparr>mw_node := n', mw_flight := [], mw_stopped := mw_stopped w
          \<union> (queue_ids (cn_queue (mw_node w)) \<union> queue_ids (under_way w) - queue_ids (cn_queue n'))\<rparr>)"
| quiet: "msg_run w \<Longrightarrow> quiet_chat (mw_node w) n' \<Longrightarrow> msg_run (w\<lparr>mw_node := n'\<rparr>)"
| takes: "msg_run w \<Longrightarrow> take_seq seq (cn_queue (mw_node w)) = Some (p, q)
    \<Longrightarrow> msg_run (w\<lparr>mw_node := (mw_node w)\<lparr>cn_queue := q\<rparr>,
          mw_flight := (p, queue_targets (mw_node w) p, cn_ledger (mw_node w)) # mw_flight w\<rparr>)"
| fails: "msg_run w \<Longrightarrow> mw_flight w = fs @ (p, t # ts, ledger) # gs
    \<Longrightarrow> msg_run (w\<lparr>mw_flight := fs @ (attempt (\<lambda>_. False) t p, ts, ledger) # gs\<rparr>)"
| arrives: "msg_run w \<Longrightarrow> mw_flight w = fs @ (p, t # ts, ledger) # gs \<Longrightarrow> t \<notin> pq_delivered p
    \<Longrightarrow> handle_chat ok t (cn_address (mw_node w)) (frame_of p) (mw_logs w t) = Inr (a, l) \<Longrightarrow> (acked \<Longrightarrow> a = pq_id p)
    \<Longrightarrow> msg_run (w\<lparr>mw_flight := fs @ (attempt (\<lambda>_. acked) t p, ts, ledger) # gs, mw_logs := (mw_logs w)(t := l),
          mw_got := mw_got w @ (if contains_id (mw_logs w t) (pq_id p) then [] else [(t, frame_of p, ledger)])\<rparr>)"
| finishes: "msg_run w \<Longrightarrow> mw_flight w = fs @ (p, [], ledger) # gs
    \<Longrightarrow> msg_run (w\<lparr>mw_node := pump_finish now saves p (mw_node w), mw_flight := fs @ gs\<rparr>)"
| others_chat: "msg_run w \<Longrightarrow> peer \<noteq> cn_address (mw_node w) \<Longrightarrow> cf_id f \<notin> sent_ids w
    \<Longrightarrow> handle_chat ok t peer f (mw_logs w t) = Inr (a, l) \<Longrightarrow> msg_run (w\<lparr>mw_logs := (mw_logs w)(t := l)\<rparr>)"
| others_write: "msg_run w \<Longrightarrow> ch_id e \<notin> sent_ids w \<Longrightarrow> \<not> contains_id (mw_logs w t) (ch_id e)
    \<Longrightarrow> msg_run (w\<lparr>mw_logs := (mw_logs w)(t := snd (log_append ok e (mw_logs w t)))\<rparr>)"
| others_forget: "msg_run w \<Longrightarrow> cl_entries l = filter P (cl_entries (mw_logs w t))
    \<Longrightarrow> msg_run (w\<lparr>mw_logs := (mw_logs w)(t := l)\<rparr>)"

section \<open>Lines that may be sent again\<close>

definition resendable :: "ipv4 \<Rightarrow> chat_entry \<Rightarrow> bool" where
  "resendable own e \<longleftrightarrow> ch_from e = own \<and> \<not> ch_system e \<and> ch_file e = None"

definition line_facts :: "chat_entry \<Rightarrow> chat_entry" where
  "line_facts e = e\<lparr>ch_seq := 0, ch_failed := False\<rparr>"

definition own_lines :: "ipv4 \<Rightarrow> chat_log \<Rightarrow> chat_entry set" where
  "own_lines own l = {e \<in> line_facts ` (set (cl_entries l) \<union> set (file_entries l)). resendable own e}"

lemma line_facts_simps [simp]:
  "resendable own (line_facts e) = resendable own e" "line_facts (persisted e) = line_facts e"
  "line_facts (e\<lparr>ch_seq := s\<rparr>) = line_facts e" "line_facts (e\<lparr>ch_failed := b\<rparr>) = line_facts e"
  by (simp_all add: resendable_def line_facts_def persisted_def)

lemma own_lines_rewrite: "own_lines own (log_rewrite ok l) \<subseteq> own_lines own l"
  by (cases ok) (auto simp: own_lines_def file_simps)

lemma own_lines_append: "own_lines own (snd (log_append ok e l)) \<subseteq> own_lines own l \<union> {x. x = line_facts e \<and> resendable own e}"
proof -
  define e' where "e' = e\<lparr>ch_seq := cl_next l\<rparr>"
  define es where "es = (let es = cl_entries l @ [e'] in if MAX_HISTORY < length es then tl es else es)"
  define l' where "l' = l\<lparr>cl_entries := es, cl_next := cl_next l + 1\<rparr>"
  have a: "snd (log_append ok e l) = write_entry ok e' l'" by (simp add: log_append_def Let_def e'_def es_def l'_def)
  have "set es \<subseteq> insert e' (set (cl_entries l))" by (cases "cl_entries l") (auto simp: es_def Let_def)
  moreover have "line_facts e' = line_facts e" "resendable own e' = resendable own e" by (simp_all add: e'_def line_facts_def resendable_def)
  ultimately have l': "own_lines own l' \<subseteq> own_lines own l \<union> {x. x = line_facts e \<and> resendable own e}"
    by (auto simp: own_lines_def l'_def file_entries_def)
  have w: "own_lines own (l'\<lparr>cl_file := cl_file l' @ [Some (persisted e')], cl_lines := cl_lines l' + 1\<rparr>)
      \<subseteq> own_lines own l' \<union> {x. x = line_facts e \<and> resendable own e}"
    using \<open>line_facts e' = line_facts e\<close> by (auto simp: own_lines_def file_entries_def map_filter_snoc)
  show ?thesis using l' w own_lines_rewrite [of own ok l'] unfolding a write_entry_def by auto
qed

lemma own_lines_load: "own_lines own (chat_load (cl_file l)) \<subseteq> own_lines own l"
  using set_last_n [of MAX_HISTORY "List.map_filter (\<lambda>x. x) (cl_file l)"]
  by (auto simp: own_lines_def file_entries_def chat_load_def Let_def)

lemma set_failed_facts: "line_facts ` set (set_failed b seq es) = line_facts ` set es"
  by (induction es) (auto simp: line_facts_def)

lemma own_lines_mark [simp]:
  "own_lines own (log_mark_failed seq l) = own_lines own l" "own_lines own (log_clear_failed seq l) = own_lines own l"
  by (simp_all add: own_lines_def log_mark_failed_def log_clear_failed_def file_entries_def image_Un set_failed_facts)

lemma own_lines_fewer: "set es \<subseteq> set (cl_entries l) \<Longrightarrow> own_lines own (log_rewrite ok (l\<lparr>cl_entries := es, cl_generation := g\<rparr>)) \<subseteq> own_lines own l"
  by (rule order_trans [OF own_lines_rewrite]) (auto simp: own_lines_def file_entries_def)

lemma own_lines_clear: "own_lines own (snd (clear_direct ok ip l)) \<subseteq> own_lines own l" "own_lines own (clear_all ok l) \<subseteq> own_lines own l"
proof -
  have "own_lines own (log_rewrite ok (l\<lparr>cl_entries := filter P (cl_entries l), cl_generation := g\<rparr>)) \<subseteq> own_lines own l" for P g
    by (rule own_lines_fewer) auto
  then show "own_lines own (snd (clear_direct ok ip l)) \<subseteq> own_lines own l" by (simp add: clear_direct_def Let_def)
  show "own_lines own (clear_all ok l) \<subseteq> own_lines own l" unfolding clear_all_def by (rule own_lines_fewer) simp
qed

lemma own_lines_system: "own_lines own (append_system v scope to self_ip ev l) \<subseteq> own_lines own l"
  unfolding append_system_def by (rule order_trans [OF own_lines_append]) (simp add: resendable_def)

lemma own_lines_group: "own_lines own (fold (group_line v g) evs l) \<subseteq> own_lines own l"
proof (induction evs arbitrary: l)
  case (Cons ev evs)
  have "own_lines own (group_line v g ev l) \<subseteq> own_lines own l"
    unfolding group_line_def by (rule order_trans [OF own_lines_append]) (simp add: resendable_def)
  then show ?case using Cons.IH [of "group_line v g ev l"] by simp
qed simp

text \<open>The part of a device that a step may not touch.\<close>

definition same_queue :: "chat_node \<Rightarrow> chat_node \<Rightarrow> bool" where
  "same_queue n n' \<longleftrightarrow> cn_queue n' = cn_queue n \<and> cn_saved n' = cn_saved n \<and> cn_address n' = cn_address n
     \<and> own_lines (cn_address n) (cn_log n') \<subseteq> own_lines (cn_address n) (cn_log n)"

lemma adopt_same: "same_queue n (adopt_group v name_of g n)"
  using own_lines_group by (simp add: same_queue_def adopt_group_def Let_def split: prod.split option.split)

lemma same_trans: "same_queue a b \<Longrightarrow> same_queue b c \<Longrightarrow> same_queue a c"
  by (auto simp: same_queue_def)

lemma same_groups: "same_queue (n\<lparr>cn_groups := s\<rparr>) n' = same_queue n n'"
  by (simp add: same_queue_def)

lemma note_same: "same_queue n (own_note v text ev n)"
proof -
  have "own_lines own (snd (log_append ok (e\<lparr>ch_system := True, ch_event := ev\<rparr>) l)) \<subseteq> own_lines own l" for own ok e l
    by (rule order_trans [OF own_lines_append]) (simp add: resendable_def)
  then show ?thesis by (simp add: same_queue_def own_note_def)
qed

lemma handle_chat_lines:
  assumes "handle_chat ok own peer f l = Inr (a, l')" and "peer \<noteq> own'"
  shows "own_lines own' l' \<subseteq> own_lines own' l"
proof (cases "contains_id l (cf_id f)")
  case False
  obtain e where "l' = snd (log_append ok e l)" and "ch_from e = peer" using assms(1) False by (auto simp: handle_chat_def)
  then show ?thesis using assms(2) own_lines_append [of own' ok e l] by (auto simp: resendable_def)
qed (use assms in \<open>simp add: handle_chat_def\<close>)

lemma quiet_same: "quiet_chat n n' \<Longrightarrow> same_queue n n'"
proof (induction rule: quiet_chat.induct)
  case (heard peer n ok f a l)
  then show ?case using handle_chat_lines by (simp add: same_queue_def)
next
  case (told v name_of peer g n a n')
  then show ?case using adopt_same [of "n\<lparr>cn_groups := mark_acked (gi_id g) peer (gi_revision g) (cn_groups n)\<rparr>" v name_of g]
    by (auto simp: handle_group_update_def same_groups)
qed (auto simp: note_same adopt_same group_create_def group_update_def group_leave_def Let_def, simp_all add: same_queue_def)

lemma reconcile_lines:
  assumes "reconcile_identities v saves self_ip ledger sidecar l q qfile = (r, known, l', q', qfile')"
  shows "own_lines own l' \<subseteq> own_lines own l" and "\<exists>P. q' = filter P q" and "qfile' = qfile \<or> qfile' = save_queue saves q' qfile"
proof -
  have entry: "own_lines own (fst (snd (reconcile_entry v self_ip b e st))) \<subseteq> own_lines own (fst (snd st))" for b e st
  proof -
    obtain m k rs c where st: "st = (m, k, rs, c)" by (cases st)
    have "own_lines own (append_system v sc to self_ip ev (snd (clear_direct ok ip k))) \<subseteq> own_lines own k" for sc to ev ok ip
      using own_lines_system own_lines_clear(1) by (rule order_trans)
    then show ?thesis using own_lines_system
      by (simp add: reconcile_entry_def st Let_def split: option.split)
  qed
  have fold1: "own_lines own (fst (snd (fold (reconcile_entry v self_ip b) es st))) \<subseteq> own_lines own (fst (snd st))" for b es st
  proof (induction es arbitrary: st)
    case (Cons e es)
    show ?case unfolding fold_simps by (rule order_trans [OF Cons.IH entry])
  qed simp
  have "own_lines own (fst (snd (drop_departed v self_ip d st))) \<subseteq> own_lines own (fst (snd st))" for d st
    using own_lines_system by (simp add: drop_departed_def split: prod.split)
  then have fold2: "own_lines own (fst (snd (fold (drop_departed v self_ip) ds st))) \<subseteq> own_lines own (fst (snd st))" for ds st
  proof (induction ds arbitrary: st)
    case (Cons d ds)
    show ?case unfolding fold_simps by (rule order_trans [OF Cons.IH [OF Cons.prems] Cons.prems])
  qed simp
  define m0 where "m0 = (case sidecar of Some m \<Rightarrow> m | None \<Rightarrow> [])"
  obtain m1 l1 r1 c1 where 1: "fold (reconcile_entry v self_ip (m0 \<noteq> [])) ledger (m0, l, [], False) = (m1, l1, r1, c1)"
    by (cases "fold (reconcile_entry v self_ip (m0 \<noteq> [])) ledger (m0, l, [], False)")
  obtain m2 l2 r2 c2 where 2: "fold (drop_departed v self_ip) (departed_members ledger m1) (m1, l1, r1, c1) = (m2, l2, r2, c2)"
    by (cases "fold (drop_departed v self_ip) (departed_members ledger m1) (m1, l1, r1, c1)")
  have e: "l' = l2" "q' = discard_stale (outcome_all r) q" "qfile' = (if length q' \<noteq> length q then save_queue saves q' qfile else qfile)"
    using assms by (auto simp: reconcile_identities_def m0_def [symmetric] 1 2 Let_def)
  show "own_lines own l' \<subseteq> own_lines own l"
    using fold1 [of "m0 \<noteq> []" ledger "(m0, l, [], False)"] fold2 [of "departed_members ledger m1" "(m1, l1, r1, c1)"] by (simp add: 1 2 e(1))
  show "\<exists>P. q' = filter P q" unfolding e(2) discard_stale_def by blast
  show "qfile' = qfile \<or> qfile' = save_queue saves q' qfile" using e(3) by auto
qed

lemma adopt_all_same: "same_queue n (fold (adopt_group v name_of) gs n)"
proof (induction gs arbitrary: n)
  case (Cons g gs)
  show ?case using same_trans [OF adopt_same Cons.IH] by simp
qed (simp add: same_queue_def)

lemma reconcile_node_frame:
  assumes "n' = reconcile_node v saves own n"
  shows "own_lines (cn_address n) (cn_log n') \<subseteq> own_lines (cn_address n) (cn_log n)" and "\<exists>P. cn_queue n' = filter P (cn_queue n)"
    and "cn_saved n' = cn_saved n \<or> cn_saved n' = save_queue saves (cn_queue n') (cn_saved n)" and "cn_address n' = cn_address n"
proof -
  have "own_lines (cn_address n) (cn_log n') \<subseteq> own_lines (cn_address n) (cn_log n) \<and> (\<exists>P. cn_queue n' = filter P (cn_queue n))
    \<and> (cn_saved n' = cn_saved n \<or> cn_saved n' = save_queue saves (cn_queue n') (cn_saved n)) \<and> cn_address n' = cn_address n"
  proof (cases "cn_ledger n")
    case None
    have "\<exists>P. cn_queue n = filter P (cn_queue n)" by (rule exI [of _ "\<lambda>_. True"]) simp
    then show ?thesis using None assms by (simp add: reconcile_node_def)
  next
    case (Some ledger)
    obtain r known l q sv where r: "reconcile_identities v saves (cn_address n) ledger (cn_known n) (cn_log n) (cn_queue n) (cn_saved n)
        = (r, known, l, q, sv)"
      by (cases "reconcile_identities v saves (cn_address n) ledger (cn_known n) (cn_log n) (cn_queue n) (cn_saved n)")
    define m where "m = n\<lparr>cn_known := known, cn_log := l, cn_queue := q, cn_saved := sv\<rparr>"
    have "same_queue m n'"
      using assms adopt_all_same by (auto simp: reconcile_node_def Some r Let_def m_def [symmetric]) (simp add: same_queue_def)
    then show ?thesis using reconcile_lines [OF r] by (auto simp: same_queue_def m_def)
  qed
  then show "own_lines (cn_address n) (cn_log n') \<subseteq> own_lines (cn_address n) (cn_log n)" "\<exists>P. cn_queue n' = filter P (cn_queue n)"
    "cn_saved n' = cn_saved n \<or> cn_saved n' = save_queue saves (cn_queue n') (cn_saved n)" "cn_address n' = cn_address n" by blast+
qed

section \<open>The invariant\<close>

type_synonym message_facts = "string \<times> chat_scope \<times> ipv4 option \<times> string option \<times> string \<times> nat"

definition pend_facts :: "pending_chat \<Rightarrow> message_facts" where
  "pend_facts p = (pq_id p, pq_scope p, pq_to p, pq_group p, pq_text p, pq_sent p)"

definition entry_facts :: "chat_entry \<Rightarrow> message_facts" where
  "entry_facts e = (ch_id e, ch_scope e, ch_to e, ch_group e, ch_text e, ch_sent e)"

definition entry_frame :: "chat_entry \<Rightarrow> chat_frame" where
  "entry_frame e = \<lparr>cf_id = ch_id e, cf_scope = ch_scope e, cf_group = ch_group e, cf_text = ch_text e, cf_sent = ch_sent e\<rparr>"

text \<open>The device at an address is the one a message was meant for, as far as the ledger and the message tell.\<close>

definition right_device :: "ledger_entry list option \<Rightarrow> string option \<Rightarrow> ipv4 \<Rightarrow> bool" where
  "right_device ledger member ip \<longleftrightarrow>
     (case (member, ledger) of
        (Some i, Some l) \<Rightarrow> (case at_ip l ip of None \<Rightarrow> False | Some e \<Rightarrow> le_member_id e = Some i \<or> le_member_id e = None)
      | _ \<Rightarrow> True)"

definition pend_ok :: "msg_world \<Rightarrow> pending_chat \<Rightarrow> bool" where
  "pend_ok w p \<longleftrightarrow> pend_facts p \<in> entry_facts ` set (mw_sent w) \<and> (pq_id p, pq_member p) \<in> mw_meant w
     \<and> (\<forall>t \<in> pq_delivered p. \<exists>L. (t, frame_of p, L) \<in> set (mw_got w))"

definition arrived :: "msg_world \<Rightarrow> chat_entry \<Rightarrow> bool" where
  "arrived w m \<longleftrightarrow> (\<exists>t L. (t, entry_frame m, L) \<in> set (mw_got w) \<and> (ch_scope m = Scope_Direct \<longrightarrow> ch_to m = Some t))"

definition aimed :: "flight \<Rightarrow> bool" where
  "aimed f = (case f of (p, ts, L) \<Rightarrow> pq_scope p = Scope_Direct \<longrightarrow> (\<forall>t \<in> set ts. pq_to p = Some t \<and> right_device L (pq_member p) t))"

definition stored_ok :: "msg_world \<Rightarrow> ipv4 \<times> chat_frame \<times> ledger_entry list option \<Rightarrow> bool" where
  "stored_ok w x = (case x of (t, f, L) \<Rightarrow> \<exists>m \<in> set (mw_sent w). f = entry_frame m
     \<and> (ch_scope m = Scope_Direct \<longrightarrow> ch_to m = Some t \<and> (\<exists>i. (ch_id m, i) \<in> mw_meant w \<and> right_device L i t)))"

definition pending_all :: "msg_world \<Rightarrow> pending_chat list" where
  "pending_all w = cn_queue (mw_node w) @ under_way w @ saved_queue (mw_node w)"

definition msg_ok :: "msg_world \<Rightarrow> bool" where
  "msg_ok w \<longleftrightarrow> (\<forall>p \<in> set (pending_all w). pend_ok w p) \<and> (\<forall>f \<in> set (mw_flight w). aimed f)
     \<and> own_lines (cn_address (mw_node w)) (cn_log (mw_node w)) \<subseteq> line_facts ` set (mw_sent w)
     \<and> distinct (map ch_id (mw_sent w))
     \<and> (\<forall>m \<in> set (mw_sent w). arrived w m \<or> ch_id m \<in> mw_stopped w \<or> ch_id m \<in> queue_ids (cn_queue (mw_node w)) \<union> queue_ids (under_way w))
     \<and> (\<forall>t. \<forall>e \<in> set (cl_entries (mw_logs w t)). ch_id e \<in> sent_ids w \<longrightarrow> (\<exists>f L. (t, f, L) \<in> set (mw_got w) \<and> cf_id f = ch_id e))
     \<and> (\<forall>x \<in> set (mw_got w). stored_ok w x)
     \<and> (\<forall>t. distinct (map ch_id (cl_entries (mw_logs w t))))"

section \<open>Every step keeps it\<close>

text \<open>A step that changes the device, what is under way, or what was stored, with the rest growing.\<close>

lemma frame_of_entry: "pend_facts p = entry_facts m \<Longrightarrow> frame_of p = entry_frame m"
  by (simp add: pend_facts_def entry_facts_def frame_of_def entry_frame_def)

lemma pend_ok_mono:
  assumes "pend_ok w p" and "set (mw_sent w) \<subseteq> set (mw_sent w')" and "mw_meant w \<subseteq> mw_meant w'" and "set (mw_got w) \<subseteq> set (mw_got w')"
  shows "pend_ok w' p"
  using assms by (fastforce simp: pend_ok_def)

lemma pend_ok_next [simp]: "pend_ok w (p\<lparr>pq_next := t\<rparr>) = pend_ok w p" "pend_ok w (saved_pending p) = pend_ok w p"
  "pq_id (saved_pending p) = pq_id p"
  by (simp_all add: pend_ok_def pend_facts_def frame_of_def saved_pending_def)

lemma saved_members: "cn_saved n' = save_queue ok q (cn_saved n) \<Longrightarrow> set (saved_queue n') \<subseteq> saved_pending ` set q \<union> set (saved_queue n)"
  by (auto simp: saved_queue_def save_queue_def split: if_splits)

lemma saved_same: "cn_saved n' = cn_saved n \<Longrightarrow> saved_queue n' = saved_queue n"
  by (simp add: saved_queue_def)

lemma saved_simps [simp]: "saved_queue (n\<lparr>cn_queue := q\<rparr>) = saved_queue n" "saved_queue (n\<lparr>cn_log := l\<rparr>) = saved_queue n"
  "saved_queue (n\<lparr>cn_saved := cn_saved n'\<rparr>) = saved_queue n'"
  by (simp_all add: saved_queue_def)

lemma saved_after:
  assumes "cn_saved n' = save_queue ok (cn_queue n') (cn_saved n) \<or> cn_saved n' = cn_saved n"
    and "\<forall>p \<in> set (cn_queue n'). P p" and "\<forall>p \<in> set (saved_queue n). P p" and "\<And>p. P p \<Longrightarrow> P (saved_pending p)"
  shows "\<forall>p \<in> set (saved_queue n'). P p"
  using assms(1)
proof
  assume "cn_saved n' = save_queue ok (cn_queue n') (cn_saved n)"
  then show ?thesis using saved_members [of n' ok "cn_queue n'" n] assms(2,3,4) by blast
next
  assume "cn_saved n' = cn_saved n"
  then show ?thesis using saved_same [of n' n] assms(3) by simp
qed

text \<open>Steps of the device.\<close>

lemma node_step:
  assumes ok: "msg_ok w"
    and w': "w' = w\<lparr>mw_node := n', mw_flight := fl, mw_sent := mw_sent w @ new, mw_meant := mw_meant w \<union> M, mw_stopped := mw_stopped w \<union> S\<rparr>"
    and "cn_address n' = cn_address (mw_node w)" and "set fl \<subseteq> set (mw_flight w)"
    and "\<forall>p \<in> set (cn_queue n'). pend_ok w' p"
    and "cn_saved n' = save_queue saves (cn_queue n') (cn_saved (mw_node w)) \<or> cn_saved n' = cn_saved (mw_node w)"
    and "own_lines (cn_address n') (cn_log n') \<subseteq> line_facts ` set (mw_sent w')"
    and "distinct (map ch_id (mw_sent w'))" and "\<forall>m \<in> set new. \<forall>t. \<not> contains_id (mw_logs w t) (ch_id m)"
    and "queue_ids (cn_queue (mw_node w)) \<union> queue_ids (under_way w) \<union> ch_id ` set new \<subseteq> S \<union> queue_ids (cn_queue n') \<union> queue_ids (map fst fl)"
  shows "msg_ok w'"
proof -
  have mono: "pend_ok w' p" if "pend_ok w p" for p
    by (rule pend_ok_mono [OF that]) (auto simp: w')
  have old: "\<forall>p \<in> set (saved_queue (mw_node w)) \<union> fst ` set (mw_flight w). pend_ok w' p"
    using ok mono by (auto simp: msg_ok_def pending_all_def under_way_def)
  have sv: "\<forall>p \<in> set (saved_queue n'). pend_ok w' p"
    by (rule saved_after [OF assms(6,5)]) (use old in auto)
  have "set (under_way w') \<subseteq> fst ` set (mw_flight w)" "mw_node w' = n'" using assms(4) by (auto simp: under_way_def w')
  then have "\<forall>p \<in> set (pending_all w'). pend_ok w' p" using assms(5) sv old by (auto simp: pending_all_def)
  moreover have "\<forall>f \<in> set (mw_flight w'). aimed f" using ok assms(4) by (auto simp: msg_ok_def w')
  moreover have "arrived w' m \<or> ch_id m \<in> mw_stopped w' \<or> ch_id m \<in> queue_ids (cn_queue n') \<union> queue_ids (under_way w')"
    if "m \<in> set (mw_sent w')" for m
  proof (cases "m \<in> set (mw_sent w)")
    case True
    then have "arrived w m \<or> ch_id m \<in> mw_stopped w \<or> ch_id m \<in> queue_ids (cn_queue (mw_node w)) \<union> queue_ids (under_way w)"
      using ok unfolding msg_ok_def by blast
    moreover have "arrived w' m = arrived w m" by (simp add: arrived_def w')
    ultimately show ?thesis using assms(10) by (auto simp: under_way_def w')
  next
    case False
    then show ?thesis using that assms(10) by (auto simp: under_way_def w')
  qed
  moreover have "\<exists>f L. (t, f, L) \<in> set (mw_got w') \<and> cf_id f = ch_id e"
    if "e \<in> set (cl_entries (mw_logs w' t))" "ch_id e \<in> sent_ids w'" for t e
  proof -
    have "ch_id e \<notin> ch_id ` set new" using that(1) assms(9) by (auto simp: contains_id_def w')
    then have "ch_id e \<in> sent_ids w" using that(2) by (auto simp: sent_ids_def w')
    then show ?thesis using ok that(1) by (simp add: msg_ok_def w')
  qed
  moreover have "\<forall>x \<in> set (mw_got w'). stored_ok w' x"
    using ok by (fastforce simp: msg_ok_def stored_ok_def w' split: prod.split)
  moreover have "\<forall>t. distinct (map ch_id (cl_entries (mw_logs w' t)))" using ok by (simp add: msg_ok_def w')
  ultimately show ?thesis using assms(7,8) by (simp add: msg_ok_def w')
qed

text \<open>Steps of the pump.\<close>

definition waiting :: "msg_world \<Rightarrow> string set" where
  "waiting w = queue_ids (cn_queue (mw_node w)) \<union> queue_ids (under_way w)"

lemma pump_step:
  assumes ok: "msg_ok w" and w': "w' = w\<lparr>mw_node := n', mw_flight := fl\<rparr>"
    and "cn_address n' = cn_address (mw_node w)"
    and "own_lines (cn_address n') (cn_log n') \<subseteq> own_lines (cn_address n') (cn_log (mw_node w))"
    and "\<forall>p \<in> set (pending_all w'). pend_ok w p" and "\<forall>f \<in> set fl. aimed f"
    and "\<forall>m \<in> set (mw_sent w). ch_id m \<in> waiting w \<longrightarrow> ch_id m \<in> waiting w' \<or> arrived w m"
  shows "msg_ok w'"
proof -
  have same: "pend_ok w' p = pend_ok w p" "arrived w' m = arrived w m" "stored_ok w' x = stored_ok w x" "sent_ids w' = sent_ids w" for p m x
    by (simp_all add: pend_ok_def arrived_def stored_ok_def sent_ids_def w')
  have fields: "mw_sent w' = mw_sent w" "mw_logs w' = mw_logs w" "mw_got w' = mw_got w" "mw_stopped w' = mw_stopped w" "mw_node w' = n'"
    "mw_flight w' = fl" by (simp_all add: w')
  have "arrived w m \<or> ch_id m \<in> mw_stopped w \<or> ch_id m \<in> waiting w'" if "m \<in> set (mw_sent w)" for m
    using ok assms(7) that unfolding msg_ok_def waiting_def by blast
  then show ?thesis using ok assms(3-6) unfolding msg_ok_def same fields waiting_def by auto
qed

lemma take_seq_Some: "take_seq seq q = Some (p, r) \<Longrightarrow> set q = insert p (set r)"
  by (induction q arbitrary: r) (auto split: if_splits)

lemma targets_aimed: "aimed (p, queue_targets n p, cn_ledger n)"
  by (auto simp: aimed_def queue_targets_def direct_delivery_target_def right_device_def split: option.splits if_splits)

lemma done_arrived:
  assumes "pend_ok w p" and "pump_done p" and "m \<in> set (mw_sent w)" and "ch_id m = pq_id p" and "distinct (map ch_id (mw_sent w))"
  shows "arrived w m"
proof -
  obtain m' where m': "m' \<in> set (mw_sent w)" "pend_facts p = entry_facts m'" using assms(1) by (auto simp: pend_ok_def)
  then have "m' = m" using assms(3-5) by (auto simp: pend_facts_def entry_facts_def distinct_map dest: inj_onD)
  then have f: "frame_of p = entry_frame m" "pq_scope p = ch_scope m" "pq_to p = ch_to m"
    using m'(2) frame_of_entry by (auto simp: pend_facts_def entry_facts_def)
  have got: "t \<in> pq_delivered p \<Longrightarrow> \<exists>L. (t, entry_frame m, L) \<in> set (mw_got w)" for t using assms(1) f by (auto simp: pend_ok_def)
  have "\<exists>t \<in> pq_delivered p. ch_scope m = Scope_Direct \<longrightarrow> ch_to m = Some t"
    using assms(2) f by (auto simp: pump_done_def split: chat_scope.splits option.splits)
  then obtain t where "t \<in> pq_delivered p" "ch_scope m = Scope_Direct \<longrightarrow> ch_to m = Some t" by blast
  with got [of t] show ?thesis unfolding arrived_def by blast
qed

lemma under_way_simps [simp]:
  "mw_flight w = fs @ (p, ts, L) # gs \<Longrightarrow> under_way w = map fst fs @ p # map fst gs"
  by (simp add: under_way_def)

lemma finish_ok:
  assumes ok: "msg_ok w" and fl: "mw_flight w = fs @ (p, [], L) # gs"
  shows "msg_ok (w\<lparr>mw_node := pump_finish now saves p (mw_node w), mw_flight := fs @ gs\<rparr>)"
proof (rule pump_step [OF ok refl])
  let ?n = "mw_node w" and ?n' = "pump_finish now saves p (mw_node w)"
  let ?w = "w\<lparr>mw_node := ?n', mw_flight := fs @ gs\<rparr>"
  have p: "pend_ok w p" using ok fl by (simp add: msg_ok_def pending_all_def)
  have q: "cn_queue ?n' = cn_queue ?n @ (if pump_done p then [] else [p\<lparr>pq_next := now + CHAT_RESEND_INTERVAL\<rparr>])"
    by (simp add: pump_finish_def Let_def)
  show "cn_address ?n' = cn_address ?n" by (simp add: pump_finish_def Let_def)
  show "own_lines (cn_address ?n') (cn_log ?n') \<subseteq> own_lines (cn_address ?n') (cn_log ?n)" by (simp add: pump_finish_def Let_def)
  show "\<forall>f \<in> set (fs @ gs). aimed f" using ok fl by (auto simp: msg_ok_def)
  have Q: "\<forall>p \<in> set (cn_queue ?n'). pend_ok w p" using ok p unfolding q by (auto simp: msg_ok_def pending_all_def)
  have "cn_saved ?n' = save_queue saves (cn_queue ?n') (cn_saved ?n)" by (simp add: pump_finish_def Let_def)
  then have "\<forall>p \<in> set (saved_queue ?n'). pend_ok w p"
    using saved_after [of ?n' saves ?n "pend_ok w"] Q ok by (simp add: msg_ok_def pending_all_def)
  then show "\<forall>p \<in> set (pending_all ?w). pend_ok w p"
    using Q ok fl by (auto simp: msg_ok_def pending_all_def under_way_def)
  show "\<forall>m \<in> set (mw_sent w). ch_id m \<in> waiting w \<longrightarrow> ch_id m \<in> waiting ?w \<or> arrived w m"
  proof (intro ballI impI)
    fix m assume m: "m \<in> set (mw_sent w)" "ch_id m \<in> waiting w"
    define W where "W = waiting ?w"
    have "waiting w \<subseteq> insert (pq_id p) W" using q fl by (auto simp: W_def waiting_def queue_ids_def under_way_def)
    moreover have "pq_id p \<in> W" if "\<not> pump_done p" using that by (simp add: W_def waiting_def queue_ids_def q)
    moreover have "arrived w m" if "ch_id m = pq_id p" "pump_done p"
      using done_arrived [OF p that(2) m(1) that(1)] ok by (simp add: msg_ok_def)
    ultimately have "ch_id m \<in> W \<or> arrived w m" using m(2) by fastforce
    then show "ch_id m \<in> waiting ?w \<or> arrived w m" by (simp only: W_def)
  qed
qed

lemma take_ok:
  assumes ok: "msg_ok w" and t: "take_seq seq (cn_queue (mw_node w)) = Some (p, q)"
  shows "msg_ok (w\<lparr>mw_node := (mw_node w)\<lparr>cn_queue := q\<rparr>,
    mw_flight := (p, queue_targets (mw_node w) p, cn_ledger (mw_node w)) # mw_flight w\<rparr>)"
proof (rule pump_step [OF ok refl])
  let ?w = "w\<lparr>mw_node := (mw_node w)\<lparr>cn_queue := q\<rparr>, mw_flight := (p, queue_targets (mw_node w) p, cn_ledger (mw_node w)) # mw_flight w\<rparr>"
  note s = take_seq_Some [OF t]
  have all: "set (pending_all ?w) = set (pending_all w)" using s by (auto simp: pending_all_def under_way_def)
  have "waiting ?w = waiting w" using s by (auto simp: waiting_def queue_ids_def under_way_def)
  then show "\<forall>m \<in> set (mw_sent w). ch_id m \<in> waiting w \<longrightarrow> ch_id m \<in> waiting ?w \<or> arrived w m" by blast
  show "\<forall>p \<in> set (pending_all ?w). pend_ok w p" unfolding all using ok by (simp add: msg_ok_def)
  show "\<forall>f \<in> set ((p, queue_targets (mw_node w) p, cn_ledger (mw_node w)) # mw_flight w). aimed f"
    using ok targets_aimed by (simp add: msg_ok_def)
qed simp_all

lemma attempt_simps:
  "pend_facts (attempt f t p) = pend_facts p" "pq_member (attempt f t p) = pq_member p" "pq_id (attempt f t p) = pq_id p"
  "frame_of (attempt f t p) = frame_of p" "pq_scope (attempt f t p) = pq_scope p" "pq_to (attempt f t p) = pq_to p"
  by (simp_all add: attempt_def pend_facts_def frame_of_def)

lemma fail_ok:
  assumes ok: "msg_ok w" and fl: "mw_flight w = fs @ (p, t # ts, L) # gs"
  shows "msg_ok (w\<lparr>mw_flight := fs @ (attempt (\<lambda>_. False) t p, ts, L) # gs\<rparr>)"
proof -
  have e: "attempt (\<lambda>_. False) t p = p" by (simp add: attempt_def)
  have "aimed (p, ts, L)" using ok fl by (auto simp: msg_ok_def aimed_def)
  then have "msg_ok (w\<lparr>mw_node := mw_node w, mw_flight := fs @ (p, ts, L) # gs\<rparr>)"
    using ok fl by (intro pump_step [OF ok refl]) (auto simp: msg_ok_def pending_all_def under_way_def waiting_def)
  then show ?thesis by (simp add: e)
qed

text \<open>The histories of the others.\<close>

lemma append_ids:
  assumes "\<not> contains_id l (ch_id e)" and "distinct (map ch_id (cl_entries l))"
  shows "distinct (map ch_id (cl_entries (snd (log_append ok e l))))"
    and "x \<in> set (cl_entries (snd (log_append ok e l))) \<Longrightarrow> x \<in> set (cl_entries l) \<or> ch_id x = ch_id e"
proof -
  define es where "es = cl_entries l @ [e\<lparr>ch_seq := cl_next l\<rparr>]"
  have d: "distinct (map ch_id es)" using assms by (auto simp: es_def contains_id_def)
  have e: "cl_entries (snd (log_append ok e l)) = (if MAX_HISTORY < length es then tl es else es)"
    by (simp add: appended_entries es_def Let_def)
  show "distinct (map ch_id (cl_entries (snd (log_append ok e l))))" using d by (simp add: e map_tl distinct_tl)
  show "x \<in> set (cl_entries l) \<or> ch_id x = ch_id e" if "x \<in> set (cl_entries (snd (log_append ok e l)))"
  proof -
    have "set (tl es) \<subseteq> set es" by (cases es) auto
    then have "x \<in> set es" using that by (auto simp: e split: if_splits)
    then show ?thesis by (auto simp: es_def)
  qed
qed

lemma handle_chat_cases:
  assumes "handle_chat ok own peer f l = Inr (a, l')"
  obtains "contains_id l (cf_id f)" "l' = l"
  | e where "\<not> contains_id l (cf_id f)" "ch_id e = cf_id f" "l' = snd (log_append ok e l)"
proof (cases "contains_id l (cf_id f)")
  case True
  then have "l' = l" using assms unfolding handle_chat_def by (simp add: bail_if_def split: if_splits)
  then show ?thesis using True that(1) by blast
next
  case False
  define e where "e = \<lparr>ch_seq = 0, ch_id = cf_id f, ch_scope = cf_scope f, ch_group = cf_group f, ch_from = peer,
    ch_to = (case cf_scope f of Scope_Direct \<Rightarrow> Some own | _ \<Rightarrow> None), ch_text = cf_text f, ch_sent = cf_sent f,
    ch_failed = False, ch_file = None, ch_system = False, ch_event = None\<rparr>"
  have "l' = snd (log_append ok e l)" using assms False unfolding handle_chat_def e_def by (auto simp: bail_if_def split: if_splits)
  moreover have "ch_id e = cf_id f" by (simp add: e_def)
  ultimately show ?thesis using False that(2) by blast
qed

lemma handled_ids:
  assumes "handle_chat ok own peer f l = Inr (a, l')" and "distinct (map ch_id (cl_entries l))"
  shows "distinct (map ch_id (cl_entries l'))" and "x \<in> set (cl_entries l') \<Longrightarrow> x \<in> set (cl_entries l) \<or> ch_id x = cf_id f \<and> \<not> contains_id l (cf_id f)"
proof -
  have "distinct (map ch_id (cl_entries l'))
    \<and> (\<forall>x \<in> set (cl_entries l'). x \<in> set (cl_entries l) \<or> ch_id x = cf_id f \<and> \<not> contains_id l (cf_id f))"
    using assms(1)
  proof (cases rule: handle_chat_cases)
    case 1
    then show ?thesis using assms(2) by simp
  next
    case (2 e)
    then have n: "\<not> contains_id l (ch_id e)" by simp
    show ?thesis using append_ids [OF n assms(2)] 2 by metis
  qed
  then show "distinct (map ch_id (cl_entries l'))"
    and "x \<in> set (cl_entries l') \<Longrightarrow> x \<in> set (cl_entries l) \<or> ch_id x = cf_id f \<and> \<not> contains_id l (cf_id f)" by blast+
qed

lemma logs_step:
  assumes ok: "msg_ok w" and "distinct (map ch_id (cl_entries l))"
    and "\<And>x. x \<in> set (cl_entries l) \<Longrightarrow> x \<in> set (cl_entries (mw_logs w t)) \<or> ch_id x \<notin> sent_ids w"
  shows "msg_ok (w\<lparr>mw_logs := (mw_logs w)(t := l)\<rparr>)"
proof -
  let ?w = "w\<lparr>mw_logs := (mw_logs w)(t := l)\<rparr>"
  have same: "pend_ok ?w p = pend_ok w p" "arrived ?w m = arrived w m" "stored_ok ?w x = stored_ok w x" "sent_ids ?w = sent_ids w"
    "pending_all ?w = pending_all w" "under_way ?w = under_way w" for p m x
    by (simp_all add: pend_ok_def arrived_def stored_ok_def sent_ids_def pending_all_def under_way_def)
  have "\<exists>f L. (u, f, L) \<in> set (mw_got w) \<and> cf_id f = ch_id e"
    if "e \<in> set (cl_entries (((mw_logs w)(t := l)) u))" "ch_id e \<in> sent_ids w" for u e
  proof -
    have "e \<in> set (cl_entries (mw_logs w u))" using that assms(3) by (cases "u = t") auto
    then show ?thesis using ok that(2) by (simp add: msg_ok_def)
  qed
  then show ?thesis using ok assms(2) unfolding msg_ok_def same by simp
qed

lemma arrive_ok:
  assumes ok: "msg_ok w" and fl: "mw_flight w = fs @ (p, t # ts, L) # gs"
    and h: "handle_chat wok t (cn_address (mw_node w)) (frame_of p) (mw_logs w t) = Inr (a, l)"
  shows "msg_ok (w\<lparr>mw_flight := fs @ (attempt (\<lambda>_. acked) t p, ts, L) # gs, mw_logs := (mw_logs w)(t := l),
    mw_got := mw_got w @ (if contains_id (mw_logs w t) (pq_id p) then [] else [(t, frame_of p, L)])\<rparr>)" (is "msg_ok ?w")
proof -
  have id: "cf_id (frame_of p) = pq_id p" by (simp add: frame_of_def)
  have p: "pend_ok w p" and aim: "aimed (p, t # ts, L)" and dist: "distinct (map ch_id (mw_sent w))"
    and dt: "distinct (map ch_id (cl_entries (mw_logs w t)))"
    using ok fl by (simp_all add: msg_ok_def pending_all_def)
  obtain m where m: "m \<in> set (mw_sent w)" "pend_facts p = entry_facts m" using p by (auto simp: pend_ok_def)
  have pm: "frame_of p = entry_frame m" "pq_scope p = ch_scope m" "pq_to p = ch_to m" "pq_id p = ch_id m"
    using m(2) frame_of_entry by (auto simp: pend_facts_def entry_facts_def)
  have got: "set (mw_got w) \<subseteq> set (mw_got ?w)" by auto
  have new: "\<exists>L'. (t, frame_of p, L') \<in> set (mw_got ?w)"
  proof (cases "contains_id (mw_logs w t) (pq_id p)")
    case True
    then obtain e where "e \<in> set (cl_entries (mw_logs w t))" "ch_id e = ch_id m" by (auto simp: contains_id_def pm)
    moreover have "ch_id m \<in> sent_ids w" using m(1) by (simp add: sent_ids_def)
    ultimately obtain f L' where f: "(t, f, L') \<in> set (mw_got w)" "cf_id f = ch_id m" using ok unfolding msg_ok_def by metis
    then have "stored_ok w (t, f, L')" using ok by (simp add: msg_ok_def)
    then obtain m' where m': "m' \<in> set (mw_sent w)" "f = entry_frame m'" by (auto simp: stored_ok_def)
    then have "m' = m" using f(2) dist m(1) by (auto simp: entry_frame_def distinct_map dest: inj_onD)
    then show ?thesis using f(1) m'(2) pm(1) by auto
  qed auto
  have pend: "pend_ok ?w x" if "pend_ok w x" for x by (rule pend_ok_mono [OF that]) auto
  have "pend_ok ?w (attempt (\<lambda>_. acked) t p)"
    using pend [OF p] new unfolding pend_ok_def attempt_simps by (auto simp: attempt_def)
  moreover have "pending_all ?w = cn_queue (mw_node w) @ (map fst fs @ attempt (\<lambda>_. acked) t p # map fst gs) @ saved_queue (mw_node w)"
    by (simp add: pending_all_def under_way_def)
  moreover have "\<forall>x \<in> set (cn_queue (mw_node w) @ (map fst fs @ map fst gs) @ saved_queue (mw_node w)). pend_ok ?w x"
    using ok fl pend by (simp add: msg_ok_def pending_all_def)
  ultimately have 1: "\<forall>x \<in> set (pending_all ?w). pend_ok ?w x" by auto
  have "aimed (attempt (\<lambda>_. acked) t p, ts, L)" using aim by (auto simp: aimed_def attempt_simps)
  then have 2: "\<forall>f \<in> set (mw_flight ?w). aimed f" using ok fl by (auto simp: msg_ok_def)
  have ids: "queue_ids (under_way ?w) = queue_ids (under_way w)" using fl by (auto simp: queue_ids_def under_way_def attempt_simps)
  have arr: "arrived ?w x" if "arrived w x" for x using that got by (auto simp: arrived_def)
  have 3: "\<forall>x \<in> set (mw_sent ?w). arrived ?w x \<or> ch_id x \<in> mw_stopped ?w
      \<or> ch_id x \<in> queue_ids (cn_queue (mw_node ?w)) \<union> queue_ids (under_way ?w)"
    unfolding ids using ok arr by (auto simp: msg_ok_def)
  have ids': "sent_ids ?w = sent_ids w" by (simp add: sent_ids_def)
  have 4: "\<forall>u. \<forall>e \<in> set (cl_entries (mw_logs ?w u)). ch_id e \<in> sent_ids ?w \<longrightarrow> (\<exists>f L. (u, f, L) \<in> set (mw_got ?w) \<and> cf_id f = ch_id e)"
  proof (intro allI ballI impI)
    fix u e assume e: "e \<in> set (cl_entries (mw_logs ?w u))" "ch_id e \<in> sent_ids ?w"
    show "\<exists>f L. (u, f, L) \<in> set (mw_got ?w) \<and> cf_id f = ch_id e"
    proof (cases "e \<in> set (cl_entries (mw_logs w u))")
      case True
      then obtain f L' where "(u, f, L') \<in> set (mw_got w)" "cf_id f = ch_id e" using ok e(2) unfolding ids' msg_ok_def by metis
      then show ?thesis using got by blast
    next
      case False
      then have u: "u = t" "e \<in> set (cl_entries l)" using e(1) by (auto split: if_splits)
      then have "ch_id e = pq_id p" using handled_ids(2) [OF h dt u(2)] False by (simp add: id)
      then show ?thesis using new u(1) id by metis
    qed
  qed
  have "stored_ok ?w (t, frame_of p, L)"
  proof -
    have "(ch_id m, pq_member p) \<in> mw_meant w" using p pm(4) by (simp add: pend_ok_def)
    moreover have "ch_scope m = Scope_Direct \<longrightarrow> ch_to m = Some t \<and> right_device L (pq_member p) t" using aim pm by (simp add: aimed_def)
    ultimately show ?thesis using m(1) pm(1) by (auto simp: stored_ok_def)
  qed
  moreover have "stored_ok ?w x" if "stored_ok w x" for x using that by (simp add: stored_ok_def)
  ultimately have 5: "\<forall>x \<in> set (mw_got ?w). stored_ok ?w x" using ok by (auto simp: msg_ok_def)
  have 6: "\<forall>u. distinct (map ch_id (cl_entries (mw_logs ?w u)))" using ok handled_ids(1) [OF h dt] by (simp add: msg_ok_def)
  show ?thesis unfolding msg_ok_def using 1 2 3 4 5 6 ok by (simp add: msg_ok_def)
qed

text \<open>The requests.\<close>

lemma chat_send_Inr:
  assumes "chat_send v now saves scope peer gid text n = Inr (e, n')"
  obtains e0 member ok where "e = e0\<lparr>ch_seq := cl_next (cn_log n)\<rparr>" "cn_log n' = snd (log_append ok e0 (cn_log n))"
    "cn_queue n' = cn_queue n @ [pending_of now member e]" "cn_saved n' = save_queue saves (cn_queue n') (cn_saved n)"
    "cn_address n' = cn_address n"
  using assms by (auto simp: chat_send_def enqueue_def log_append_def Let_def split: option.splits prod.splits)

lemma pending_of_facts [simp]: "pend_facts (pending_of now member e) = entry_facts e" "pq_id (pending_of now member e) = ch_id e"
  "pq_member (pending_of now member e) = member" "pq_delivered (pending_of now member e) = {}"
  by (simp_all add: pending_of_def pend_facts_def entry_facts_def)

lemma entry_facts_line [simp]: "entry_facts (line_facts e) = entry_facts e"
  by (simp add: entry_facts_def line_facts_def)

lemma due_now_ok: "\<forall>p \<in> set q. pend_ok w p \<Longrightarrow> \<forall>p \<in> set (due_now now seq q). pend_ok w p" "queue_ids (due_now now seq q) = queue_ids q"
  by (induction q) (auto simp: queue_ids_def)

lemma queue_ids_app [simp]: "queue_ids (p @ q) = queue_ids p \<union> queue_ids q" "queue_ids [] = {}" "queue_ids [x] = {pq_id x}"
  by (simp_all add: queue_ids_def image_Un)

lemma meant_by_app [simp]: "meant_by (p @ q) = meant_by p \<union> meant_by q" "meant_by [x] = {(pq_id x, pq_member x)}"
  by (simp_all add: meant_by_def image_Un)

lemma queue_pend_ok: "msg_ok w \<Longrightarrow> \<forall>p \<in> set (cn_queue (mw_node w)). pend_ok w p"
  by (simp add: msg_ok_def pending_all_def)

lemma own_sent: "msg_ok w \<Longrightarrow> own_lines (cn_address (mw_node w)) (cn_log (mw_node w)) \<subseteq> line_facts ` set (mw_sent w)"
  by (simp add: msg_ok_def)

lemma send_ok:
  assumes ok: "msg_ok w" and s: "chat_send v now saves scope peer gid text (mw_node w) = Inr (e, n')" and "ch_id e \<notin> sent_ids w"
    and "\<And>t. \<not> contains_id (mw_logs w t) (ch_id e)"
  shows "msg_ok (w\<lparr>mw_node := n', mw_sent := mw_sent w @ [e], mw_meant := mw_meant w \<union> meant_by (cn_queue n')\<rparr>)" (is "msg_ok ?w")
proof -
  from s obtain e0 member wok where e: "e = e0\<lparr>ch_seq := cl_next (cn_log (mw_node w))\<rparr>"
    and l: "cn_log n' = snd (log_append wok e0 (cn_log (mw_node w)))" and q: "cn_queue n' = cn_queue (mw_node w) @ [pending_of now member e]"
    and sv: "cn_saved n' = save_queue saves (cn_queue n') (cn_saved (mw_node w))" and a: "cn_address n' = cn_address (mw_node w)"
    by (rule chat_send_Inr)
  have lf: "line_facts e = line_facts e0" by (simp add: e)
  show ?thesis
  proof (rule node_step [OF ok, where n' = n' and fl = "mw_flight w" and new = "[e]" and M = "meant_by (cn_queue n')" and S = "{}"])
    show "?w = w\<lparr>mw_node := n', mw_flight := mw_flight w, mw_sent := mw_sent w @ [e], mw_meant := mw_meant w \<union> meant_by (cn_queue n'),
        mw_stopped := mw_stopped w \<union> {}\<rparr>" by simp
    have "pend_ok ?w p" if "pend_ok w p" for p by (rule pend_ok_mono [OF that]) auto
    then show "\<forall>p \<in> set (cn_queue n'). pend_ok ?w p"
      using queue_pend_ok [OF ok] by (auto simp: q) (simp add: pend_ok_def)
    show "own_lines (cn_address n') (cn_log n') \<subseteq> line_facts ` set (mw_sent ?w)"
      using own_lines_append [of "cn_address n'" wok e0 "cn_log (mw_node w)"] own_sent [OF ok] unfolding l a by (auto simp: lf)
    show "distinct (map ch_id (mw_sent ?w))" using ok assms(3) by (simp add: msg_ok_def sent_ids_def)
  qed (use sv a assms(4) q in \<open>auto simp: under_way_def\<close>)
qed

lemma resend_ok:
  assumes ok: "msg_ok w" and r: "chat_resend now saves seq (mw_node w) = Inr n'"
  shows "msg_ok (w\<lparr>mw_node := n', mw_meant := mw_meant w \<union> meant_by (cn_queue n')\<rparr>)" (is "msg_ok ?w")
proof -
  have mono: "pend_ok ?w p" if "pend_ok w p" for p by (rule pend_ok_mono [OF that]) auto
  have "cn_log n' = cn_log (mw_node w) \<and> cn_address n' = cn_address (mw_node w) \<and> queue_ids (cn_queue (mw_node w)) \<subseteq> queue_ids (cn_queue n')
    \<and> cn_saved n' = save_queue saves (cn_queue n') (cn_saved (mw_node w)) \<and> (\<forall>p \<in> set (cn_queue n'). pend_ok ?w p)"
  proof (cases "\<exists>p \<in> set (cn_queue (mw_node w)). pq_seq p = seq")
    case True
    then have "n' = (mw_node w)\<lparr>cn_queue := due_now now seq (cn_queue (mw_node w)),
        cn_saved := save_queue saves (due_now now seq (cn_queue (mw_node w))) (cn_saved (mw_node w))\<rparr>"
      using r by (simp add: chat_resend_def Let_def)
    then show ?thesis using due_now_ok(1) [OF queue_pend_ok [OF ok]] due_now_ok(2) mono by simp
  next
    case False
    then obtain e where e: "log_get (cn_log (mw_node w)) seq = Some e" "resendable (cn_address (mw_node w)) e"
      and n: "n' = enqueue saves (pending_of now (Option.bind (ch_to e) (member_id_at (mw_node w))) e) (mw_node w)"
      using r by (auto simp: chat_resend_def resendable_def split: option.splits)
    have "e \<in> set (cl_entries (cn_log (mw_node w)))" using find_Some_set [OF e(1) [unfolded log_get_def]] by simp
    then have "line_facts e \<in> line_facts ` set (mw_sent w)" using own_sent [OF ok] e(2) by (auto simp: own_lines_def)
    then obtain m where "m \<in> set (mw_sent w)" "line_facts e = line_facts m" by auto
    then have f: "entry_facts e \<in> entry_facts ` set (mw_sent w)" by (metis entry_facts_line imageI)
    define p where "p = pending_of now (Option.bind (ch_to e) (member_id_at (mw_node w))) e"
    note n = n [folded p_def]
    have q: "cn_queue n' = cn_queue (mw_node w) @ [p]" by (simp add: n enqueue_def Let_def)
    have "pend_ok ?w p" using f by (simp add: pend_ok_def q) (simp add: p_def)
    then have "\<forall>x \<in> set (cn_queue n'). pend_ok ?w x" using mono queue_pend_ok [OF ok] by (simp add: q)
    moreover have "cn_saved n' = save_queue saves (cn_queue n') (cn_saved (mw_node w))" unfolding q by (simp add: n enqueue_def Let_def)
    moreover have "cn_log n' = cn_log (mw_node w) \<and> cn_address n' = cn_address (mw_node w)" by (simp add: n enqueue_def Let_def)
    ultimately show ?thesis by (auto simp: q)
  qed
  then show ?thesis
    using own_sent [OF ok] ok
    by (intro node_step [OF ok, where n' = n' and fl = "mw_flight w" and new = "[]" and M = "meant_by (cn_queue n')" and S = "{}" and saves = saves])
      (auto simp: msg_ok_def under_way_def)
qed

text \<open>Steps that may give messages up.\<close>

lemma drop_step:
  assumes ok: "msg_ok w" and "cn_address n' = cn_address (mw_node w)" and "set fl \<subseteq> set (mw_flight w)"
    and "\<forall>p \<in> set (cn_queue n'). pend_ok w p"
    and "cn_saved n' = save_queue saves (cn_queue n') (cn_saved (mw_node w)) \<or> cn_saved n' = cn_saved (mw_node w)"
    and "own_lines (cn_address (mw_node w)) (cn_log n') \<subseteq> own_lines (cn_address (mw_node w)) (cn_log (mw_node w))"
    and "waiting w \<subseteq> S \<union> queue_ids (cn_queue n') \<union> queue_ids (map fst fl)"
  shows "msg_ok (w\<lparr>mw_node := n', mw_flight := fl, mw_stopped := mw_stopped w \<union> S\<rparr>)" (is "msg_ok ?w")
proof (rule node_step [OF ok, where n' = n' and fl = fl and new = "[]" and M = "{}" and S = S and saves = saves])
  show "?w = w\<lparr>mw_node := n', mw_flight := fl, mw_sent := mw_sent w @ [], mw_meant := mw_meant w \<union> {}, mw_stopped := mw_stopped w \<union> S\<rparr>"
    by simp
  have "pend_ok ?w p" if "pend_ok w p" for p by (rule pend_ok_mono [OF that]) auto
  then show "\<forall>p \<in> set (cn_queue n'). pend_ok ?w p" using assms(4) by blast
  show "own_lines (cn_address n') (cn_log n') \<subseteq> line_facts ` set (mw_sent ?w)" using assms(2,6) own_sent [OF ok] by auto
  show "distinct (map ch_id (mw_sent ?w))" using ok by (simp add: msg_ok_def)
qed (use assms in \<open>auto simp: waiting_def\<close>)

lemma waiting_flight: "queue_ids (map fst (mw_flight w)) = queue_ids (under_way w)"
  by (simp add: under_way_def)

lemma filter_queue_ok: "msg_ok w \<Longrightarrow> cn_queue n' = filter P (cn_queue (mw_node w)) \<Longrightarrow> \<forall>p \<in> set (cn_queue n'). pend_ok w p"
  using queue_pend_ok by fastforce

lemma dropped_ids: "waiting w \<subseteq> (queue_ids (cn_queue (mw_node w)) - queue_ids q) \<union> queue_ids q \<union> queue_ids (map fst (mw_flight w))"
  by (auto simp: waiting_def waiting_flight)

lemma same_flight: "w\<lparr>mw_node := n', mw_flight := mw_flight w, mw_stopped := S\<rparr> = w\<lparr>mw_node := n', mw_stopped := S\<rparr>"
  by simp

lemma msg_run_ok: "msg_run w \<Longrightarrow> msg_ok w"
proof (induction rule: msg_run.induct)
  case (start n logs)
  have "own_lines (cn_address n) (chat_load []) = {}"
    by (simp add: own_lines_def chat_load_def file_entries_def map_filter_simps last_n_def)
  then show ?case using start
    by (simp add: msg_ok_def pending_all_def under_way_def saved_queue_def sent_ids_def)
next
  case (sends w v now saves scope peer gid body e n')
  show ?case by (rule send_ok [OF sends.IH sends.hyps(2) sends.hyps(3) sends.hyps(4)])
next
  case (resends w now saves seq n')
  show ?case by (rule resend_ok [OF resends.IH resends.hyps(2)])
next
  case (cancels w n' saves seq)
  have q: "cn_queue n' = filter (\<lambda>p. pq_seq p \<noteq> seq) (cn_queue (mw_node w))" by (simp add: cancels.hyps(2) chat_cancel_send_def Let_def)
  show ?case
    unfolding same_flight [symmetric]
    by (rule drop_step [OF cancels.IH _ _ filter_queue_ok [OF cancels.IH q] _ _ dropped_ids, where saves = saves])
      (simp_all add: cancels.hyps(2) chat_cancel_send_def Let_def)
next
  case (clears w v saves)
  let ?m = "(mw_node w)\<lparr>cn_log := clear_all (cv_rewritten v (cl_next (cn_log (mw_node w)))) (cn_log (mw_node w)), cn_queue := [],
    cn_saved := save_queue saves [] (cn_saved (mw_node w))\<rparr>"
  have s: "same_queue ?m (chat_clear_all v saves (mw_node w))" using note_same by (simp add: chat_clear_all_def)
  then have q: "cn_queue (chat_clear_all v saves (mw_node w)) = []" by (simp add: same_queue_def)
  have "own_lines (cn_address (mw_node w)) (cn_log (chat_clear_all v saves (mw_node w)))
      \<subseteq> own_lines (cn_address (mw_node w)) (clear_all (cv_rewritten v (cl_next (cn_log (mw_node w)))) (cn_log (mw_node w)))"
    using s by (simp add: same_queue_def)
  note ol = subset_trans [OF this own_lines_clear(2)]
  have "waiting w \<subseteq> queue_ids (cn_queue (mw_node w)) \<union> queue_ids (cn_queue (chat_clear_all v saves (mw_node w)))
      \<union> queue_ids (map fst (mw_flight w))" by (auto simp: waiting_def waiting_flight)
  then show ?case
    unfolding same_flight [symmetric]
    using s q ol by (intro drop_step [OF clears.IH]) (auto simp: same_queue_def)
next
  case (reconciles w n' v saves own)
  note f = reconcile_node_frame [OF reconciles.hyps(2)]
  obtain P where q: "cn_queue n' = filter P (cn_queue (mw_node w))" using f(2) by blast
  show ?case
    unfolding same_flight [symmetric]
    by (rule drop_step [OF reconciles.IH f(4) _ filter_queue_ok [OF reconciles.IH q] _ f(1) dropped_ids]) (use f(3) in auto)
next
  case (restarts w n' now)
  have q: "cn_queue n' = map (\<lambda>p. p\<lparr>pq_next := now\<rparr>) (saved_queue (mw_node w))"
    by (simp add: restarts.hyps(2) restart_node_def load_queue_def saved_queue_def split: option.split)
  then have p: "\<forall>p \<in> set (cn_queue n'). pend_ok w p" using restarts.IH by (auto simp: msg_ok_def pending_all_def)
  have "cn_saved n' = cn_saved (mw_node w)" "cn_address n' = cn_address (mw_node w)" by (simp_all add: restarts.hyps(2) restart_node_def)
  moreover have "own_lines own (cn_log n') \<subseteq> own_lines own (cn_log (mw_node w))" for own
    using own_lines_load by (simp add: restarts.hyps(2) restart_node_def)
  ultimately show ?case using p
    by (intro drop_step [OF restarts.IH]) (auto simp: waiting_def)
next
  case (quiet w n')
  note s = quiet_same [OF quiet.hyps(2), unfolded same_queue_def]
  have "msg_ok (w\<lparr>mw_node := n', mw_flight := mw_flight w, mw_stopped := mw_stopped w \<union> {}\<rparr>)"
    using s queue_pend_ok [OF quiet.IH] by (intro drop_step [OF quiet.IH]) (auto simp: waiting_def waiting_flight)
  then show ?case by simp
next
  case (takes w seq p q)
  show ?case by (rule take_ok [OF takes.IH takes.hyps(2)])
next
  case (fails w fs p t ts ledger gs)
  show ?case by (rule fail_ok [OF fails.IH fails.hyps(2)])
next
  case (arrives w fs p t ts ledger gs writes a l acked)
  show ?case by (rule arrive_ok [OF arrives.IH arrives.hyps(2,4)])
next
  case (finishes w fs p ledger gs now saves)
  show ?case by (rule finish_ok [OF finishes.IH finishes.hyps(2)])
next
  case (others_chat w peer f writes t a l)
  have d: "distinct (map ch_id (cl_entries (mw_logs w t)))" using others_chat.IH by (simp add: msg_ok_def)
  show ?case by (rule logs_step [OF others_chat.IH handled_ids(1) [OF others_chat.hyps(4) d]])
    (use handled_ids(2) [OF others_chat.hyps(4) d] others_chat.hyps(3) in metis)
next
  case (others_write w e t writes)
  have d: "distinct (map ch_id (cl_entries (mw_logs w t)))" using others_write.IH by (simp add: msg_ok_def)
  show ?case by (rule logs_step [OF others_write.IH append_ids(1) [OF others_write.hyps(3) d]])
    (use append_ids(2) [OF others_write.hyps(3) d] others_write.hyps(2) in metis)
next
  case (others_forget w l P t)
  have d: "distinct (map ch_id (cl_entries (mw_logs w t)))" using others_forget.IH by (simp add: msg_ok_def)
  show ?case by (rule logs_step [OF others_forget.IH]) (use others_forget.hyps(2) d in \<open>auto intro: distinct_map_filter\<close>)
qed

section \<open>The pump runs\<close>

text \<open>What \<^verbatim>\<open>pump_chat_queue\<close> does with one message is a run of these steps, whichever of its receivers answer.\<close>

definition sendable :: "pending_chat \<Rightarrow> bool" where
  "sendable p \<longleftrightarrow> length (pq_text p) \<le> MAX_CHAT_TEXT_BYTES \<and> (pq_scope p = Scope_Group \<longrightarrow> pq_group p \<noteq> None)"

lemma accepted_frame: "sendable p \<Longrightarrow> \<exists>l'. handle_chat ok own peer (frame_of p) l = Inr (pq_id p, l')"
  by (auto simp: sendable_def handle_chat_def frame_of_def bail_if_def)

lemma attempts_run:
  assumes "msg_run w" and "mw_flight w = (p, ts, L) # gs" and "sendable p"
  shows "\<exists>w'. msg_run w' \<and> mw_node w' = mw_node w \<and> mw_flight w' = (fold (attempt send) ts p, [], L) # gs"
  using assms
proof (induction ts arbitrary: w p)
  case (Cons t ts)
  have fl: "mw_flight w = [] @ (p, t # ts, L) # gs" using Cons.prems(2) by simp
  have acc: "sendable (attempt send t p)" using Cons.prems(3) by (simp add: attempt_def sendable_def)
  obtain w1 where w1: "msg_run w1" "mw_node w1 = mw_node w" "mw_flight w1 = (attempt send t p, ts, L) # gs"
  proof (cases "t \<notin> pq_delivered p \<and> send t")
    case True
    then have t: "t \<notin> pq_delivered p" by blast
    obtain l where l: "handle_chat True t (cn_address (mw_node w)) (frame_of p) (mw_logs w t) = Inr (pq_id p, l)"
      using accepted_frame [OF Cons.prems(3)] by blast
    have e: "attempt (\<lambda>_. True) t p = attempt send t p" using True by (simp add: attempt_def)
    show ?thesis by (rule that [OF msg_run.arrives [OF Cons.prems(1) fl t l refl, of True]]) (simp_all add: e)
  next
    case False
    then have e: "attempt (\<lambda>_. False) t p = attempt send t p" by (auto simp: attempt_def)
    show ?thesis by (rule that [OF msg_run.fails [OF Cons.prems(1) fl]]) (simp_all add: e)
  qed
  from Cons.IH [OF w1(1,3) acc] show ?case using w1(2) by simp
qed auto

lemma pump_one_run:
  assumes "msg_run w" and "\<forall>p \<in> set (cn_queue (mw_node w)). sendable p"
  shows "\<exists>w'. msg_run w' \<and> mw_node w' = pump_one now saves send seq (mw_node w) \<and> mw_flight w' = mw_flight w"
proof (cases "take_seq seq (cn_queue (mw_node w))")
  case None
  then show ?thesis using assms(1) by (intro exI [of _ w]) (simp add: pump_one_def)
next
  case (Some x)
  then obtain p q where t: "take_seq seq (cn_queue (mw_node w)) = Some (p, q)" by (cases x) simp
  then have "sendable p" using take_seq_Some [OF t] assms(2) by simp
  then obtain w1 where w1: "msg_run w1" "mw_node w1 = (mw_node w)\<lparr>cn_queue := q\<rparr>"
    "mw_flight w1 = [] @ (fold (attempt send) (queue_targets (mw_node w) p) p, [], cn_ledger (mw_node w)) # mw_flight w"
    using attempts_run [OF msg_run.takes [OF assms(1) t]] by force
  have same: "queue_targets (n\<lparr>cn_queue := q\<rparr>) p = queue_targets n p" for n q
    by (simp add: queue_targets_def ledger_of_def split: chat_scope.split option.split)
  show ?thesis
    using msg_run.finishes [OF w1(1,3), of now saves] w1(2)
    by (intro exI [of _ "w1\<lparr>mw_node := pump_finish now saves (fold (attempt send) (queue_targets (mw_node w) p) p) (mw_node w1),
        mw_flight := [] @ mw_flight w\<rparr>"]) (simp add: pump_one_def t Let_def same)
qed

section \<open>Properties\<close>

text \<open>
  C4: No message is lost. Whatever the members send, cancel, discard and restart, and however the attempts, the lost
  acknowledgements and the other traffic interleave, a message that its sender neither cancelled nor discarded nor lost with
  a restart, and that does not wait any more and is not under way, was stored as it was sent by its receiver, or by some
  member when it was sent to a group or to all.
\<close>

theorem chat_not_lost:
  assumes "msg_run w" and "m \<in> set (mw_sent w)" and "ch_id m \<notin> mw_stopped w"
    and "\<forall>p \<in> set (cn_queue (mw_node w)). pq_id p \<noteq> ch_id m" and "\<forall>(p, _) \<in> set (mw_flight w). pq_id p \<noteq> ch_id m"
  shows "\<exists>t ledger. (t, entry_frame m, ledger) \<in> set (mw_got w) \<and> (ch_scope m = Scope_Direct \<longrightarrow> ch_to m = Some t)"
proof -
  have "ch_id m \<notin> waiting w" using assms(4,5) by (fastforce simp: waiting_def queue_ids_def under_way_def)
  then show ?thesis using msg_run_ok [OF assms(1)] assms(2,3) unfolding msg_ok_def waiting_def arrived_def by blast
qed


text \<open>A message that is cancelled while it is under way waits again when the attempt fails.\<close>

lemma cancel_overtaken:
  assumes "take_seq seq (cn_queue n) = Some (p, q)" and "\<not> pump_done p'" and "pq_seq p' = seq"
  shows "\<exists>x \<in> set (cn_queue (pump_finish now saves p' (chat_cancel_send saves' seq (n\<lparr>cn_queue := q\<rparr>)))). pq_seq x = seq"
  using assms(2,3) by (simp add: pump_finish_def Let_def)

definition plain_env :: chat_env where
  "plain_env = \<lparr>cv_id = (\<lambda>n. if n = 1 then ''m1'' else ''m2''), cv_now = (\<lambda>_. 7), cv_written = (\<lambda>_. True), cv_rewritten = (\<lambda>_. True),
     cv_sentence = (\<lambda>_. ''note'')\<rparr>"

definition alone :: chat_node where
  "alone = \<lparr>cn_address = 0x0A000001, cn_is_host = False, cn_ledger = None, cn_groups = load_groups [], cn_log = chat_load [],
     cn_queue = [], cn_saved = None, cn_known = None\<rparr>"

definition first_line :: chat_entry where
  "first_line = \<lparr>ch_seq = 1, ch_id = ''m1'', ch_scope = Scope_Direct, ch_group = None, ch_from = 0x0A000001,
     ch_to = Some 0x0A000002, ch_text = ''hi'', ch_sent = 7, ch_failed = False, ch_file = None, ch_system = False, ch_event = None\<rparr>"

lemma empty_log: "cl_entries (chat_load []) = []" "cl_next (chat_load []) = 1"
  by (simp_all add: chat_load_def map_filter_simps last_n_def)

lemma one_message:
  obtains w where "msg_run w" and "mw_sent w = [first_line]" and "mw_stopped w = {}" and "cn_queue (mw_node w) = []" and "mw_flight w = []"
    and "mw_got w = [(0x0A000002, entry_frame first_line, None)]"
proof -
  define w0 where "w0 = \<lparr>mw_node = alone, mw_flight = [], mw_logs = (\<lambda>_. chat_load []), mw_got = [], mw_sent = [], mw_meant = {}, mw_stopped = {}\<rparr>"
  have r0: "msg_run w0" unfolding w0_def by (rule msg_run.start) (simp_all add: alone_def empty_log)
  have "trim ''hi'' \<noteq> []" by (simp add: trim_visible ascii_def)
  then obtain n1 where s: "chat_send plain_env 0 True Scope_Direct (Some 0x0A000002) None ''hi'' alone = Inr (first_line, n1)"
    and n1: "cn_queue n1 = [pending_of 0 None first_line]" "cn_ledger n1 = None" "cn_address n1 = 0x0A000001"
    by (simp add: chat_send_def check_receiver_def alone_def own_entry_def log_append_def Let_def enqueue_def member_id_at_def ledger_of_def
      at_ip_def empty_log plain_env_def first_line_def MAX_CHAT_TEXT_BYTES_def)
  have r1: "msg_run (w0\<lparr>mw_node := n1, mw_sent := [first_line], mw_meant := meant_by (cn_queue n1)\<rparr>)"
    using msg_run.sends [OF r0, of plain_env 0 True Scope_Direct "Some 0x0A000002" None "''hi''" first_line n1] s
    by (simp add: w0_def sent_ids_def contains_id_def empty_log)
  define p where "p = pending_of 0 None first_line"
  have p: "pq_seq p = 1" "pq_to p = Some 0x0A000002" "pq_scope p = Scope_Direct" "pq_delivered p = {}" "pq_member p = None"
    "frame_of p = entry_frame first_line" "pq_id p = ''m1''"
    by (simp_all add: p_def pending_of_def first_line_def frame_of_def entry_frame_def)
  have t: "queue_targets n1 p = [0x0A000002]" by (simp add: queue_targets_def p direct_delivery_target_def)
  define w2 where "w2 = w0\<lparr>mw_node := n1\<lparr>cn_queue := []\<rparr>, mw_sent := [first_line], mw_meant := meant_by (cn_queue n1),
      mw_flight := [(p, [0x0A000002], None)]\<rparr>"
  have r2: "msg_run w2" using msg_run.takes [OF r1, of 1 p "[]"] n1 t by (simp add: w0_def w2_def p_def [symmetric] p)
  obtain l where l: "handle_chat True 0x0A000002 0x0A000001 (entry_frame first_line) (chat_load []) = Inr (''m1'', l)"
    by (simp add: handle_chat_def entry_frame_def first_line_def MAX_CHAT_TEXT_BYTES_def contains_id_def empty_log)
  have f: "mw_flight w2 = [] @ (p, [0x0A000002], None) # []" and g: "0x0A000002 \<notin> pq_delivered p" by (simp_all add: w2_def p(4))
  have h: "handle_chat True 0x0A000002 (cn_address (mw_node w2)) (frame_of p) (mw_logs w2 0x0A000002) = Inr (pq_id p, l)"
    unfolding p(6,7) using l n1(3) by (simp add: w2_def w0_def)
  have c: "\<not> contains_id (mw_logs w2 0x0A000002) (pq_id p)" by (simp add: w2_def w0_def contains_id_def empty_log)
  define d where "d = attempt (\<lambda>_. True) 0x0A000002 p"
  define w3 where "w3 = w2\<lparr>mw_flight := [] @ (d, [], None) # [], mw_logs := (mw_logs w2)(0x0A000002 := l),
      mw_got := mw_got w2 @ [(0x0A000002, frame_of p, None)]\<rparr>"
  have r3: "msg_run w3" using msg_run.arrives [OF r2 f g h refl, of True] c unfolding w3_def d_def by (simp only: if_False)
  have f3: "mw_flight w3 = [] @ (d, [], None) # []" by (simp add: w3_def)
  have "pump_done d" by (simp add: d_def attempt_def pump_done_def p)
  then have q: "cn_queue (pump_finish 0 True d (mw_node w3)) = []" by (simp add: pump_finish_def Let_def w3_def w2_def)
  show ?thesis by (rule that [OF msg_run.finishes [OF r3 f3, of 0 True]]) (simp_all add: q, simp_all add: w3_def w2_def w0_def p(6))
qed

lemma chat_not_lost_witness:
  "\<exists>w. msg_run w \<and> mw_sent w = [first_line] \<and> (\<exists>t ledger. (t, entry_frame first_line, ledger) \<in> set (mw_got w) \<and> t = 0x0A000002)"
proof -
  obtain w where w: "msg_run w" "mw_sent w = [first_line]" "mw_stopped w = {}" "cn_queue (mw_node w) = []" "mw_flight w = []"
    by (rule one_message)
  then have "\<exists>t ledger. (t, entry_frame first_line, ledger) \<in> set (mw_got w) \<and> (ch_scope first_line = Scope_Direct \<longrightarrow> ch_to first_line = Some t)"
    by (intro chat_not_lost [OF w(1)]) simp_all
  then have "\<exists>t ledger. (t, entry_frame first_line, ledger) \<in> set (mw_got w) \<and> t = 0x0A000002" by (simp add: first_line_def)
  then show ?thesis using w(1,2) by blast
qed


end
