(* ===== verification/Spec2Isabelle.thy ===== *)
theory Spec2Isabelle
  imports Token Dns_Server Peers_Laws Direct Tunnel_Sync Invite Settings Dns_Records Rotation Cache_Laws Chat_Delivery
begin

text \<open>
  A model of PeerCove, a small VPN over WireGuard: a host, whose file \<^verbatim>\<open>host.toml\<close> holds the network, and
  members that join with an invitation token. The development follows the Rust code under \<^verbatim>\<open>crates/\<close>, function
  by function and under the names of the source where Isabelle has room for them.

  \<^bold>\<open>The program and how its parts meet.\<close> \<^verbatim>\<open>peercove-core\<close> holds the data and pure rules: configuration and its
  validation, addresses, names, the DNS zone, tokens, the access policy and the packets it judges.
  \<^verbatim>\<open>peercove-ops\<close> edits the files: each operation reads and validates the configuration, then edits the document
  under a lock and validates the result before it writes. \<^verbatim>\<open>peercove-cli\<close> runs the tunnel: a supervisor that
  every five seconds (a tick) reads the file, brings the peers, the policy and the isolation of the tunnel in line, and
  builds the ledger; the relay, that moves packets between members and applies the policy; the control channel, that
  carries the ledger to the members and their requests to the host; and, on a member, the links to other members, the rotation
  of its key and the name server. A request of a member ends in the operations on \<^verbatim>\<open>host.toml\<close>; what they
  wrote reaches the tunnel with the next tick, and the ledger after it.

  \<^bold>\<open>The theories\<close>, in the order of their imports:
    \<^item> \<^verbatim>\<open>Rust_Prelude\<close>: machine integers (words), instants and durations, byte order, results
      (\<open>Inl\<close> the error) and the steps that propagate them, the hash map with its laws as the locale \<open>hash_map\<close>.
    \<^item> \<^verbatim>\<open>Rust_Str\<close>: \<^verbatim>\<open>str\<close> as UTF-8 bytes: trimming, splitting, parsing and printing of numbers.
    \<^item> \<^verbatim>\<open>Ipnet\<close>: addresses and \<^verbatim>\<open>ipalloc.rs\<close>; the crate ipnet is a parameter, its documented laws the
      locale \<open>ipnet\<close>, interpreted on CIDR arithmetic.
    \<^item> \<^verbatim>\<open>Config_Types\<close>, \<^verbatim>\<open>Config_Check\<close>: the types of \<^verbatim>\<open>config.rs\<close> and
      \<^verbatim>\<open>Config::validate\<close>, check by check. \<^verbatim>\<open>Names\<close>: \<^verbatim>\<open>names.rs\<close>.
    \<^item> \<^verbatim>\<open>Acl_Packet\<close>, \<^verbatim>\<open>Acl_Policy\<close>, \<^verbatim>\<open>Acl_Session\<close>: \<^verbatim>\<open>acl.rs\<close>: the packet reader, the
      compilation of the \<^verbatim>\<open>[acl]\<close> table and its evaluation, the tracker of replies and fragments.
    \<^item> \<^verbatim>\<open>Base64\<close>, \<^verbatim>\<open>Token\<close>: \<^verbatim>\<open>token.rs\<close>; the codec is the locale \<open>base64url\<close>, interpreted on RFC 4648.
    \<^item> \<^verbatim>\<open>Dns_Zone\<close> (\<^verbatim>\<open>dns.rs\<close> of the core), \<^verbatim>\<open>Dns_Server\<close> (\<^verbatim>\<open>dns.rs\<close> of the client): the zone of a network
      and the answers to queries, as bytes.
    \<^item> \<^verbatim>\<open>Config_Store\<close>, \<^verbatim>\<open>Peers\<close>, \<^verbatim>\<open>Acl_Ops\<close>, \<^verbatim>\<open>Invite\<close>, \<^verbatim>\<open>Settings\<close>,
      \<^verbatim>\<open>Dns_Records\<close>: the operations of \<^verbatim>\<open>peercove-ops\<close> on the file, in \<^verbatim>\<open>peers.rs\<close>,
      \<^verbatim>\<open>acl.rs\<close>, \<^verbatim>\<open>invite.rs\<close>, \<^verbatim>\<open>settings.rs\<close> and \<^verbatim>\<open>dns.rs\<close>. \<^verbatim>\<open>Host_Runs\<close>: histories of these operations;
      \<^verbatim>\<open>Peers_Laws\<close>: what single ones promise.
    \<^item> \<^verbatim>\<open>Relay\<close>: the packet side of the Windows device, \<^verbatim>\<open>backend/windows/device.rs\<close>. \<^verbatim>\<open>Backend\<close>: the interface of
      a tunnel (\<^verbatim>\<open>backend/mod.rs\<close>) as the locales \<open>wg_backend\<close> and \<open>reliable_backend\<close>, interpreted on that device.
    \<^item> \<^verbatim>\<open>Ledger\<close>, \<^verbatim>\<open>Tunnel_Sync\<close>: \<^verbatim>\<open>commands/tunnel.rs\<close>: the ledger, the distribution, the choice of the
      interface, and the steps of a tick that keep the tunnel equal to the file.
    \<^item> \<^verbatim>\<open>Health\<close>, \<^verbatim>\<open>Chat_Groups\<close>, \<^verbatim>\<open>Direct\<close>: \<^verbatim>\<open>health.rs\<close>, \<^verbatim>\<open>groups.rs\<close>, \<^verbatim>\<open>direct.rs\<close>.
    \<^item> \<^verbatim>\<open>Host_Requests\<close>, \<^verbatim>\<open>Control_Link\<close>, \<^verbatim>\<open>Host_Session\<close>: \<^verbatim>\<open>control.rs\<close>: the handlers of the requests, the
      member's end of a connection and the host's. \<^verbatim>\<open>Rotation\<close>: \<^verbatim>\<open>rotate.rs\<close> and \<^verbatim>\<open>keyfiles.rs\<close>, with a
      world of both ends.
    \<^item> \<^verbatim>\<open>Memo_Text\<close>: the texts of memos (\<^verbatim>\<open>memo.rs\<close> of the core and the helpers of \<^verbatim>\<open>peercove-memo\<close>).
      \<^verbatim>\<open>Memo_Store\<close>: \<^verbatim>\<open>SharedStore\<close> of \<^verbatim>\<open>shared.rs\<close>, a record of tables, and \<^verbatim>\<open>Memo_Laws\<close>: its invariant
      and what its operations promise. \<^verbatim>\<open>Memo_Schedule\<close>, \<^verbatim>\<open>Memo_Sheet\<close>: its schedule and its sheets, with the
      handlers of \<^verbatim>\<open>memoshare.rs\<close>; \<^verbatim>\<open>Sheet_Laws\<close>: what they promise. \<^verbatim>\<open>Memo_Service\<close>: \<^verbatim>\<open>MemoService\<close> of
      \<^verbatim>\<open>memoshare.rs\<close>, the state \<open>memo_service\<close> with a step per request and per periodic duty; \<^verbatim>\<open>Service_Laws\<close>:
      its histories. \<^verbatim>\<open>Memo_Cache\<close>: the copy on a member, \<^verbatim>\<open>CacheStore\<close> and \<^verbatim>\<open>MemberMemoCache\<close>;
      \<^verbatim>\<open>Cache_Laws\<close>: a world of the service, the messages under way to one member, and its copy.
    \<^item> \<^verbatim>\<open>Chat_Log\<close>: \<^verbatim>\<open>chat.rs\<close>, the history of messages and its file, the queue, the pass over replaced and
      departed members. \<^verbatim>\<open>Chat_Node\<close>: one device, \<open>chat_node\<close>, with the requests of its client and the pump
      (\<^verbatim>\<open>daemon.rs\<close>) and the frames of others (\<^verbatim>\<open>msg.rs\<close>). \<^verbatim>\<open>Chat_Laws\<close>: histories of the log;
      \<^verbatim>\<open>Chat_Delivery\<close>: a sender, a receiver and the attempts under way between them.

  \<^bold>\<open>What the lemmas show.\<close>
    \<^item> Files: every operation keeps a valid file valid and a failed one changes nothing; in every history addresses
      stay unique, a device that needs approval stays isolated until it is approved, a removed member leaves no
      reference; an invitation is used once and its token is what was registered; a delegated administrator and a
      member with the right to invite are confined.
    \<^item> Policy: deny pairs win over rules, the default applies where no rule does, a reply passes only on an opened flow;
      the relay obeys the policy, also for fragments, and an isolated device reaches the control port only.
    \<^item> Tunnel: two ticks bring the tunnel in line with the file; the isolation holds after each tick.
    \<^item> Members: direct links refine one machine per peer, are justified and never bypass a restriction; the groups converge and refine
      a last-writer-wins register; the key of a member is never lost, and found again after a failure.
    \<^item> Control channel: each receiver gets one answer, of the request it made; a device that waits for approval gets nothing.
    \<^item> Names: labels are valid and unique, the zone does not depend on the order of the ledger, and its names are answered.
    \<^item> Memos: the tables stay coherent under every operation, the texts and versions stay within the capacity, a
      version that is restored leaves the text before it as a version; a displayed difference is right and least. Whatever is
      asked of the service, a memo changes only in ways its asker is entitled to, and locks are on live memos. A batch
      of cell writes refines registers with revisions; cells, sizes and merged areas keep their bounds. The copy of a
      member shows, once every message arrived, what the host would show it.
    \<^item> Messages: what a reload of the history brings back, and that reading it page by page ends and shows all; a message
      that was sent is delivered, waits, or was given up by the user or because its receiver is gone; what is stored was
      sent, once, and by the device it was meant for.

  \<^bold>\<open>Conventions.\<close> Integers are words of their width where the code can overflow; ids, nonces and sequence numbers of
  connections and requests are \<open>nat\<close>, as 64 bits of them are never used up, and byte counters are \<open>nat\<close>. A clock reading is an argument, one per operation; the
  iteration order of a hash map is the order of its list, and the statements hold for every order. Where the code
  retries in a loop (free names, free addresses), the model recurses over the finite range the code tries, with a
  termination proof; there is no fuel. A lock makes an operation atomic; what is read before it and the document under it
  are separate arguments. Error values name the branch; sentences (in Japanese) are left out.

  \<^bold>\<open>Parameters\<close>, for what is not in the repository or is input: the crates ipnet and base64; the reader of the key
  and pre-shared key files, generated keys and identifiers, path resolution (\<open>ops_env\<close>, \<open>invite_env\<close>, \<open>host_env\<close>); the text of
  socket addresses; the outcome of tunnel operations (\<open>wg_ops\<close>), of file operations (\<open>file_io\<close>) and of health
  probes; the answers of the service of shared memos to the control channel, with its types as type parameters;
  the comparison of texts by SQLite (\<open>sql_text\<close>); the identifiers, times, sentences and write outcomes of the
  history (\<open>chat_env\<close>).

  \<^bold>\<open>Not modelled\<close>: the layout of TOML and JSON texts (a file is the value it parses to), sockets, tasks and their
  scheduling (the steps they take are events, in any order), the WireGuard engine, adapter and operating system calls, the Linux backend, the
  migrations of the memo databases, the store of personal memos, the transfer of files between members, the daemon's processes, the command line and the shells for desktop and mobile.
\<close>

end
